(* ===== verification/Prelude.thy ===== *)
theory Prelude
  imports Main "HOL-Library.AList" "HOL-Library.List_Lexorder" "HOL-Library.Char_ord"
begin

text \<open>
  What every component of the development shares: the reading of Python's strings,
  dicts and exceptions, and the generic lemmas the component proofs rest on.

  \<^item> A \<open>str\<close> is a \<^typ>\<open>string\<close>: its characters are the Latin-1 code points, on which the case and
    white-space predicates are Python's.
  \<^item> A \<open>dict\<close> whose insertion order can be observed is an association list with distinct
    keys: \<open>d[k] = v\<close> is \<^const>\<open>AList.update\<close> (in place for a present key, at the end for a
    new one, as CPython does) and \<open>d.get(k)\<close> is \<^const>\<open>map_of\<close>. A \<open>dict\<close> that is only looked
    up is a map.
  \<^item> A raised exception is the \<open>Inl\<close> of a sum; the value returned is the \<open>Inr\<close>.
\<close>

named_theorems dict_simps \<open>lookup after an update of an insertion-ordered dict\<close>

section \<open>Strings\<close>

text \<open>\<open>str.lower()\<close> on Latin-1 letters.\<close>

definition is_upper_letter :: "char \<Rightarrow> bool" where
  "is_upper_letter c \<longleftrightarrow> (let n = (of_char c :: nat) in
     (65 \<le> n \<and> n \<le> 90) \<or> (192 \<le> n \<and> n \<le> 222 \<and> n \<noteq> 215))"

definition lower_char :: "char \<Rightarrow> char" where
  "lower_char c = (if is_upper_letter c then char_of ((of_char c :: nat) + 32) else c)"

definition lower :: "string \<Rightarrow> string" where
  "lower s = map lower_char s"

lemma lower_char_idem [simp]: "lower_char (lower_char c) = lower_char c"
proof (cases "is_upper_letter c")
  case True
  then have "(of_char c :: nat) + 32 < 256" by (auto simp: is_upper_letter_def Let_def)
  then have "(of_char (char_of ((of_char c :: nat) + 32) :: char) :: nat) = of_char c + 32"
    by (subst of_char_of) simp
  then have "\<not> is_upper_letter (char_of ((of_char c :: nat) + 32))"
    using True by (auto simp: is_upper_letter_def Let_def)
  with True show ?thesis by (simp add: lower_char_def)
qed (simp add: lower_char_def)

lemma lower_idem [simp]: "lower (lower s) = lower s"
  by (simp add: lower_def)

lemma lower_Nil_iff [simp]: "lower s = [] \<longleftrightarrow> s = []" "[] = lower s \<longleftrightarrow> s = []"
  by (auto simp: lower_def)

text \<open>\<open>s.startswith(p)\<close>.\<close>

fun starts_with :: "string \<Rightarrow> string \<Rightarrow> bool" where
  "starts_with s [] = True"
| "starts_with [] (p # ps) = False"
| "starts_with (c # cs) (p # ps) = (c = p \<and> starts_with cs ps)"

lemma starts_with_append [simp]: "starts_with (p @ s) p"
  by (induction p) auto

lemma starts_with_iff: "starts_with s p \<longleftrightarrow> (\<exists>t. s = p @ t)"
  by (induction s p rule: starts_with.induct) auto

text \<open>\<open>c in "0123456789"\<close>, the ASCII letters and \<open>c.isspace()\<close>.\<close>

definition is_digit :: "char \<Rightarrow> bool" where
  "is_digit c \<longleftrightarrow> (let n = (of_char c :: nat) in 48 \<le> n \<and> n \<le> 57)"

definition is_lower_alpha :: "char \<Rightarrow> bool" where
  "is_lower_alpha c \<longleftrightarrow> (let n = (of_char c :: nat) in 97 \<le> n \<and> n \<le> 122)"

definition is_word_char :: "char \<Rightarrow> bool" where
  "is_word_char c \<longleftrightarrow> is_digit c \<or> is_lower_alpha (lower_char c) \<or> c = CHR ''_''"

definition is_space :: "char \<Rightarrow> bool" where
  "is_space c \<longleftrightarrow> (let n = (of_char c :: nat) in
     n \<in> {32, 133, 160} \<or> (9 \<le> n \<and> n \<le> 13) \<or> (28 \<le> n \<and> n \<le> 31))"

text \<open>\<open>str(n)\<close> of a natural number, and the value of a string of digits.\<close>

fun show_nat :: "nat \<Rightarrow> string" where
  "show_nat n = (if n < 10 then [] else show_nat (n div 10)) @ [char_of (48 + n mod 10)]"

declare show_nat.simps [simp del]

definition decimal :: "string \<Rightarrow> nat" where
  "decimal ds = foldl (\<lambda>v c. 10 * v + ((of_char c :: nat) - 48)) 0 ds"

lemma decimal_append: "decimal (ds @ es) = decimal ds * 10 ^ length es + decimal es"
proof (induction es rule: rev_induct)
  case (snoc e es)
  then show ?case by (simp add: decimal_def algebra_simps)
qed (simp add: decimal_def)

lemma decimal_less: "list_all is_digit ds \<Longrightarrow> decimal ds < 10 ^ length ds"
proof (induction ds rule: rev_induct)
  case (snoc d ds)
  then have "decimal ds < 10 ^ length ds" "(of_char d :: nat) - 48 < 10" by (auto simp: is_digit_def Let_def)
  then have "10 * decimal ds + ((of_char d :: nat) - 48) < 10 * 10 ^ length ds" by linarith
  then show ?case by (simp add: decimal_def)
qed (simp add: decimal_def)

lemma of_char_digit: "n < 10 \<Longrightarrow> (of_char (char_of (48 + n) :: char) :: nat) = 48 + n"
  by (simp add: take_bit_eq_mod)

lemma show_nat_digits: "list_all is_digit (show_nat n) \<and> decimal (show_nat n) = n"
proof (induction n rule: show_nat.induct)
  case (1 n)
  have d: "is_digit (char_of (48 + n mod 10))" using of_char_digit [of "n mod 10"] by (simp add: is_digit_def Let_def)
  show ?case
  proof (cases "n < 10")
    case True
    then show ?thesis using d of_char_digit [of n] by (simp add: show_nat.simps [of n] decimal_def)
  next
    case False
    with 1 d show ?thesis using of_char_digit [of "n mod 10"]
      by (simp add: show_nat.simps [of n] decimal_append) (simp add: decimal_def)
  qed
qed

lemma show_nat_bounds: "10 ^ (length (show_nat n) - 1) \<le> n \<or> n = 0"
proof (induction n rule: show_nat.induct)
  case (1 n)
  show ?case
  proof (cases "n < 10")
    case False
    then have "n div 10 \<noteq> 0" by simp
    with 1 [OF False] have "10 ^ (length (show_nat (n div 10)) - 1) \<le> n div 10" by simp
    then have "10 * 10 ^ (length (show_nat (n div 10)) - 1) \<le> n" by simp
    moreover have "0 < length (show_nat (n div 10))" by (subst show_nat.simps) simp
    ultimately show ?thesis using False by (simp add: show_nat.simps [of n] power_eq_if split: if_splits)
  qed (auto simp: show_nat.simps [of n])
qed

text \<open>\<open>s.strip(chars)\<close> and \<open>s.strip()\<close>.\<close>

definition strip_by :: "(char \<Rightarrow> bool) \<Rightarrow> string \<Rightarrow> string" where
  "strip_by P s = rev (dropWhile P (rev (dropWhile P s)))"

definition strip :: "string \<Rightarrow> string" where
  "strip s = strip_by is_space s"

lemma strip_Nil [simp]: "strip [] = []"
  by (simp add: strip_def strip_by_def)

lemma lower_Nil [simp]: "lower [] = []"
  by (simp add: lower_def)

lemma strip_by_ends:
  assumes "strip_by P s \<noteq> []"
  shows "\<not> P (hd (strip_by P s))" "\<not> P (last (strip_by P s))"
proof -
  define t where "t = dropWhile P s"
  have r: "strip_by P s = rev (dropWhile P (rev t))" by (simp add: strip_by_def t_def)
  with assms have ne: "dropWhile P (rev t) \<noteq> []" by simp
  then show "\<not> P (last (strip_by P s))" unfolding r by (simp add: last_rev hd_dropWhile)
  have "t \<noteq> []" using ne by auto
  then have h: "\<not> P (hd t)" unfolding t_def by (rule hd_dropWhile)
  obtain u where "rev t = u @ dropWhile P (rev t)" by (metis takeWhile_dropWhile_id)
  then have "t = rev (dropWhile P (rev t)) @ rev u" by (metis rev_append rev_rev_ident)
  then have "hd (rev (dropWhile P (rev t))) = hd t" using ne by (metis hd_append2 rev_is_Nil_conv)
  with h show "\<not> P (hd (strip_by P s))" unfolding r by simp
qed

section \<open>Dicts\<close>

type_synonym ('k, 'v) dict = "('k \<times> 'v) list"

text \<open>\<open>d[k] = v\<close>, \<open>d.setdefault(k, v)\<close>, \<open>d.pop(k, None)\<close>, \<open>d.update(e)\<close>.\<close>

abbreviation dset :: "'k \<Rightarrow> 'v \<Rightarrow> ('k, 'v) dict \<Rightarrow> ('k, 'v) dict" where
  "dset \<equiv> AList.update"

abbreviation dpop :: "'k \<Rightarrow> ('k, 'v) dict \<Rightarrow> ('k, 'v) dict" where
  "dpop \<equiv> AList.delete"

definition dget :: "('k, 'v) dict \<Rightarrow> 'k \<Rightarrow> 'v \<Rightarrow> 'v" where
  "dget d k v = (case map_of d k of None \<Rightarrow> v | Some w \<Rightarrow> w)"

definition dsetdefault :: "'k \<Rightarrow> 'v \<Rightarrow> ('k, 'v) dict \<Rightarrow> ('k, 'v) dict" where
  "dsetdefault k v d = (case map_of d k of None \<Rightarrow> d @ [(k, v)] | Some _ \<Rightarrow> d)"

definition dupdate :: "('k, 'v) dict \<Rightarrow> ('k, 'v) dict \<Rightarrow> ('k, 'v) dict" where
  "dupdate d e = fold (\<lambda>(k, v) acc. dset k v acc) e d"

text \<open>\<open>d.setdefault(k, []).append(x)\<close>, the grouping idiom.\<close>

definition dappend :: "'k \<Rightarrow> 'v \<Rightarrow> ('k, 'v list) dict \<Rightarrow> ('k, 'v list) dict" where
  "dappend k x d = dset k (dget d k [] @ [x]) d"

lemma map_of_dset [dict_simps]: "map_of (dset k v d) = (map_of d)(k \<mapsto> v)"
  by (simp add: update_conv')

lemma map_of_dpop [dict_simps]: "map_of (dpop k d) = (map_of d)(k := None)"
  by (simp add: delete_conv')

lemma map_of_dsetdefault [dict_simps]:
  "map_of (dsetdefault k v d) = (if map_of d k = None then (map_of d)(k \<mapsto> v) else map_of d)"
  by (auto simp: dsetdefault_def map_add_def fun_eq_iff split: option.splits)

lemma map_of_dappend [dict_simps]:
  "map_of (dappend k x d) = (map_of d)(k \<mapsto> dget d k [] @ [x])"
  by (simp add: dappend_def map_of_dset)

lemma dget_dset [dict_simps]: "dget (dset k v d) j w = (if j = k then v else dget d j w)"
  by (simp add: dget_def map_of_dset)

lemma dget_dappend [dict_simps]:
  "dget (dappend k x d) j [] = (if j = k then dget d k [] @ [x] else dget d j [])"
  by (simp add: dappend_def dget_dset)

lemma dget_Nil [simp]: "dget [] k v = v"
  by (simp add: dget_def)

lemma dom_map_of_keys: "dom (map_of d) = fst ` set d"
  by (simp add: dom_map_of_conv_image_fst)

lemma distinct_keys_dset [simp]: "distinct (map fst d) \<Longrightarrow> distinct (map fst (dset k v d))"
  by (rule distinct_update)

lemma distinct_keys_dappend [simp]: "distinct (map fst d) \<Longrightarrow> distinct (map fst (dappend k x d))"
  by (simp add: dappend_def)

lemma keys_dset: "fst ` set (dset k v d) = insert k (fst ` set d)"
  by (metis dom_fun_upd dom_map_of_keys map_of_dset option.discI)

lemma keys_dappend: "fst ` set (dappend k x d) = insert k (fst ` set d)"
  by (simp add: dappend_def keys_dset)

text \<open>A grouping loop: each value lands in exactly the group of its key, in order.\<close>

definition group_pairs :: "('k \<times> 'v) list \<Rightarrow> ('k, 'v list) dict" where
  "group_pairs ps = fold (\<lambda>(k, v) d. dappend k v d) ps []"

definition group_by :: "('a \<Rightarrow> 'k) \<Rightarrow> 'a list \<Rightarrow> ('k, 'a list) dict" where
  "group_by f xs = group_pairs (map (\<lambda>x. (f x, x)) xs)"

lemma dget_group_fold:
  "dget (fold (\<lambda>(k, v) d. dappend k v d) ps d) k [] = dget d k [] @ map snd (filter (\<lambda>p. fst p = k) ps)"
  by (induction ps arbitrary: d) (auto simp: dget_dappend)

lemma dget_group_pairs: "dget (group_pairs ps) k [] = map snd (filter (\<lambda>p. fst p = k) ps)"
  by (simp add: group_pairs_def dget_group_fold)

lemma distinct_group_fold:
  "distinct (map fst d) \<Longrightarrow> distinct (map fst (fold (\<lambda>(k, v) d. dappend k v d) ps d))"
  by (induction ps arbitrary: d) auto

lemma distinct_keys_group_pairs [simp]: "distinct (map fst (group_pairs ps))"
  by (simp add: group_pairs_def distinct_group_fold)

lemma keys_group_fold:
  "fst ` set (fold (\<lambda>(k, v) d. dappend k v d) ps d) = fst ` set d \<union> fst ` set ps"
  by (induction ps arbitrary: d) (simp_all add: keys_dappend split_beta)

lemma keys_group_pairs: "fst ` set (group_pairs ps) = fst ` set ps"
  by (simp add: group_pairs_def keys_group_fold)

lemma group_pairs_entry:
  "(k, g) \<in> set (group_pairs ps) \<longleftrightarrow> k \<in> fst ` set ps \<and> g = map snd (filter (\<lambda>p. fst p = k) ps)"
proof
  assume "(k, g) \<in> set (group_pairs ps)"
  then have "map_of (group_pairs ps) k = Some g" and "k \<in> fst ` set (group_pairs ps)"
    by (auto simp: map_of_eq_Some_iff intro: rev_image_eqI)
  then show "k \<in> fst ` set ps \<and> g = map snd (filter (\<lambda>p. fst p = k) ps)"
    using dget_group_pairs [of ps k] by (simp add: dget_def keys_group_pairs)
next
  assume k: "k \<in> fst ` set ps \<and> g = map snd (filter (\<lambda>p. fst p = k) ps)"
  then obtain g' where g': "(k, g') \<in> set (group_pairs ps)"
    using keys_group_pairs [of ps] by force
  then have "map_of (group_pairs ps) k = Some g'" by (simp add: map_of_eq_Some_iff)
  then have "g' = map snd (filter (\<lambda>p. fst p = k) ps)"
    using dget_group_pairs [of ps k] by (simp add: dget_def)
  with k g' show "(k, g) \<in> set (group_pairs ps)" by simp
qed

lemma group_pairs_length: "sum_list (map (length \<circ> snd) (group_pairs ps)) = length ps"
proof -
  have upd: "distinct (map fst d) \<Longrightarrow>
      sum_list (map (length \<circ> snd) (dappend k v d)) = Suc (sum_list (map (length \<circ> snd) d))"
    for k v and d :: "('a, 'b list) dict"
  proof (induction d)
    case (Cons e d)
    then show ?case
      by (cases e) (auto simp: dappend_def dget_def)
  qed (simp add: dappend_def)
  have "distinct (map fst d) \<Longrightarrow>
      sum_list (map (length \<circ> snd) (fold (\<lambda>(k, v) d. dappend k v d) ps d)) =
      sum_list (map (length \<circ> snd) d) + length ps" for d
    by (induction ps arbitrary: d) (auto simp: upd)
  then show ?thesis by (simp add: group_pairs_def)
qed

lemma distinct_keys_group_by [simp]: "distinct (map fst (group_by f xs))"
  by (simp add: group_by_def)

lemma keys_group_by: "fst ` set (group_by f xs) = f ` set xs"
  by (simp add: group_by_def keys_group_pairs image_image)

lemma group_by_entry: "(k, g) \<in> set (group_by f xs) \<longleftrightarrow> k \<in> f ` set xs \<and> g = filter (\<lambda>x. f x = k) xs"
  by (simp add: group_by_def group_pairs_entry image_image filter_map o_def)

lemma dget_group_by: "dget (group_by f xs) k [] = filter (\<lambda>x. f x = k) xs"
  by (simp add: group_by_def dget_group_pairs filter_map o_def)

text \<open>\<open>a or b\<close> where \<open>a\<close> may be \<open>None\<close> or empty.\<close>

definition str_or :: "string option \<Rightarrow> string \<Rightarrow> string" where
  "str_or a b = (case a of None \<Rightarrow> b | Some s \<Rightarrow> if s = [] then b else s)"

section \<open>Exceptions\<close>

text \<open>Sequencing of computations that may raise: \<open>Inl\<close> stops.\<close>

definition and_then :: "'e + 'a \<Rightarrow> ('a \<Rightarrow> 'e + 'b) \<Rightarrow> 'e + 'b" where
  "and_then r f = (case r of Inl e \<Rightarrow> Inl e | Inr x \<Rightarrow> f x)"

lemma and_then_simps [simp]: "and_then (Inl e) f = Inl e" "and_then (Inr x) f = f x"
  by (simp_all add: and_then_def)

lemma and_then_Inr: "and_then r f = Inr y \<longleftrightarrow> (\<exists>x. r = Inr x \<and> f x = Inr y)"
  by (cases r) auto

text \<open>\<open>[f(x) for x in xs]\<close> where \<open>f\<close> may raise.\<close>

fun map_raise :: "('a \<Rightarrow> 'e + 'b) \<Rightarrow> 'a list \<Rightarrow> 'e + 'b list" where
  "map_raise f [] = Inr []"
| "map_raise f (x # xs) = and_then (f x) (\<lambda>y. and_then (map_raise f xs) (\<lambda>ys. Inr (y # ys)))"

lemma map_raise_Inr: "map_raise f xs = Inr ys \<longleftrightarrow> list_all2 (\<lambda>x y. f x = Inr y) xs ys"
  by (induction xs arbitrary: ys) (auto simp: and_then_Inr list_all2_Cons1)

lemma map_raise_in: "map_raise f xs = Inr ys \<Longrightarrow> x \<in> set xs \<Longrightarrow> f x = Inr y \<Longrightarrow> y \<in> set ys"
  by (induction xs arbitrary: ys) (auto simp: and_then_Inr)

section \<open>Lists\<close>

text \<open>\<open>next((x for x in xs if p(x)), None)\<close> is \<^const>\<open>List.find\<close>; \<open>max(xs, key=f)\<close> keeps the
  first element with the greatest key.\<close>

lemma distinct_singleton_list: "distinct xs \<Longrightarrow> set xs = {x} \<Longrightarrow> xs = [x]"
  by (cases xs; cases "tl xs") auto

fun max_by :: "('a \<Rightarrow> 'k::linorder) \<Rightarrow> 'a \<Rightarrow> 'a list \<Rightarrow> 'a" where
  "max_by f best [] = best"
| "max_by f best (x # xs) = max_by f (if f best < f x then x else best) xs"

lemma max_by_in: "max_by f b xs \<in> set (b # xs)"
  by (induction f b xs rule: max_by.induct) auto

lemma max_by_ge: "x \<in> set (b # xs) \<Longrightarrow> f x \<le> f (max_by f b xs)"
  by (induction f b xs arbitrary: x rule: max_by.induct) (force split: if_splits)+

end
