(* ===== verification/Schemas.thy ===== *)
theory Schemas
  imports Complex_Main Prelude
begin

text \<open>
  The shared data model (models/schemas.py): the entity types, the relationship verbs of
  STIX 2.1, the evidence grades and the entity every extraction stage produces.
  Confidences are Python floats; the model reads them as rationals.
\<close>

section \<open>EntityType\<close>

datatype entity_type =
    IPV4 | IPV6 | DOMAIN | URL | EMAIL | MD5 | SHA1 | SHA256 | MAC_ADDR | ASN | FILE
  | REGISTRY_KEY | MUTEX | NETWORK_TRAFFIC | USER_ACCOUNT
  | CVE
  | TTP | TECHNIQUE | TACTIC | PROCEDURE
  | MALWARE | THREAT_ACTOR | INTRUSION_SET | TOOL | CAMPAIGN | INFRASTRUCTURE
  | IDENTITY | LOCATION | INCIDENT

text \<open>\<open>EntityType.value\<close>: the string the job store keeps.\<close>

fun etype_value :: "entity_type \<Rightarrow> string" where
  "etype_value IPV4 = ''ipv4''"
| "etype_value IPV6 = ''ipv6''"
| "etype_value DOMAIN = ''domain''"
| "etype_value URL = ''url''"
| "etype_value EMAIL = ''email''"
| "etype_value MD5 = ''md5''"
| "etype_value SHA1 = ''sha1''"
| "etype_value SHA256 = ''sha256''"
| "etype_value MAC_ADDR = ''mac_addr''"
| "etype_value ASN = ''asn''"
| "etype_value FILE = ''file''"
| "etype_value REGISTRY_KEY = ''registry_key''"
| "etype_value MUTEX = ''mutex''"
| "etype_value NETWORK_TRAFFIC = ''network_traffic''"
| "etype_value USER_ACCOUNT = ''user_account''"
| "etype_value CVE = ''cve''"
| "etype_value TTP = ''ttp''"
| "etype_value TECHNIQUE = ''technique''"
| "etype_value TACTIC = ''tactic''"
| "etype_value PROCEDURE = ''procedure''"
| "etype_value MALWARE = ''malware''"
| "etype_value THREAT_ACTOR = ''threat_actor''"
| "etype_value INTRUSION_SET = ''intrusion_set''"
| "etype_value TOOL = ''tool''"
| "etype_value CAMPAIGN = ''campaign''"
| "etype_value INFRASTRUCTURE = ''infrastructure''"
| "etype_value IDENTITY = ''identity''"
| "etype_value LOCATION = ''location''"
| "etype_value INCIDENT = ''incident''"

text \<open>The members in declaration order.\<close>

definition entity_types :: "entity_type list" where
  "entity_types = [IPV4, IPV6, DOMAIN, URL, EMAIL, MD5, SHA1, SHA256, MAC_ADDR, ASN, FILE,
     REGISTRY_KEY, MUTEX, NETWORK_TRAFFIC, USER_ACCOUNT, CVE, TTP, TECHNIQUE, TACTIC, PROCEDURE,
     MALWARE, THREAT_ACTOR, INTRUSION_SET, TOOL, CAMPAIGN, INFRASTRUCTURE, IDENTITY, LOCATION,
     INCIDENT]"

text \<open>\<open>EntityType(s)\<close>: the member with that value; \<open>None\<close> is the ValueError.\<close>

definition etype_of :: "string \<Rightarrow> entity_type option" where
  "etype_of s = List.find (\<lambda>t. etype_value t = s) entity_types"

lemma etype_of_value [simp]: "etype_of (etype_value t) = Some t"
  by (cases t) (simp_all add: etype_of_def entity_types_def)

lemma etype_value_inject [simp]: "etype_value a = etype_value b \<longleftrightarrow> a = b"
  by (metis etype_of_value option.inject)

section \<open>Relationship verbs\<close>

definition STIX_RELATIONSHIP_TYPES :: "string list" where
  "STIX_RELATIONSHIP_TYPES =
    [''delivers'', ''drops'', ''downloads'', ''exploits'',
     ''targets'', ''attributed-to'', ''originates-from'', ''authored-by'', ''impersonates'',
     ''uses'', ''controls'', ''has'', ''hosts'', ''owns'',
     ''compromises'', ''beacons-to'', ''communicates-with'', ''exfiltrates-to'',
     ''indicates'', ''based-on'', ''consists-of'',
     ''analysis-of'', ''static-analysis-of'', ''dynamic-analysis-of'',
     ''characterizes'', ''investigates'',
     ''mitigates'', ''remediates'',
     ''located-at'',
     ''resolves-to'', ''belongs-to'',
     ''variant-of'',
     ''duplicate-of'', ''derived-from'', ''related-to'']"

section \<open>Evidence and entities\<close>

datatype evidence_label = OBSERVED | REPORTED | ASSESSED | INFERRED | GAP

text \<open>\<open>EvidenceLabel.value\<close>.\<close>

fun label_value :: "evidence_label \<Rightarrow> string" where
  "label_value OBSERVED = ''observed''"
| "label_value REPORTED = ''reported''"
| "label_value ASSESSED = ''assessed''"
| "label_value INFERRED = ''inferred''"
| "label_value GAP = ''gap''"

record raw_entity =
  ent_value :: string
  ent_type :: entity_type
  ent_context :: string
  ent_confidence :: rat
  ent_mitre_id :: "string option"
  ent_source :: string
  ent_evidence_text :: "string option"
  ent_evidence_label :: "evidence_label option"
  ent_evidence_start :: "nat option"

end
