(* ===== verification/RelSpec.thy ===== *)
theory RelSpec
  imports Schemas
begin

text \<open>
  The STIX 2.1 relationship tables and their three readers (pipeline/stix_rel_spec.py): what the
  specification suggests for a pair of types, what this project also allows, and what is
  named for exactly that pair.
\<close>

section \<open>Tables\<close>

definition SCO_TYPES :: "string list" where
  "SCO_TYPES =
    [''artifact'', ''autonomous-system'', ''directory'', ''domain-name'', ''email-addr'',
     ''email-message'', ''file'', ''ipv4-addr'', ''ipv6-addr'', ''mac-addr'', ''mutex'',
     ''network-traffic'', ''process'', ''software'', ''url'', ''user-account'',
     ''windows-registry-key'', ''x509-certificate'']"

definition SDO_TYPES :: "string list" where
  "SDO_TYPES =
    [''attack-pattern'', ''campaign'', ''course-of-action'', ''grouping'', ''identity'',
     ''incident'', ''indicator'', ''infrastructure'', ''intrusion-set'', ''location'',
     ''malware'', ''malware-analysis'', ''note'', ''observed-data'', ''opinion'', ''report'',
     ''threat-actor'', ''tool'', ''vulnerability'']"

definition UNIVERSAL_ANY :: "string list" where
  "UNIVERSAL_ANY = [''related-to'']"

definition UNIVERSAL_SAME_TYPE :: "string list" where
  "UNIVERSAL_SAME_TYPE = [''duplicate-of'', ''derived-from'']"

type_synonym rel_table = "(string, (string, string list) dict) dict"

definition SUGGESTED :: rel_table where
  "SUGGESTED =
    [(''attack-pattern'',
       [(''delivers'', [''malware'']),
        (''targets'', [''identity'', ''location'', ''vulnerability'']),
        (''uses'', [''malware'', ''tool''])]),
     (''campaign'',
       [(''attributed-to'', [''intrusion-set'', ''threat-actor'']),
        (''compromises'', [''infrastructure'']),
        (''originates-from'', [''location'']),
        (''targets'', [''identity'', ''location'', ''vulnerability'']),
        (''uses'', [''attack-pattern'', ''infrastructure'', ''malware'', ''tool''])]),
     (''course-of-action'',
       [(''investigates'', [''indicator'']),
        (''mitigates'', [''attack-pattern'', ''indicator'', ''malware'', ''tool'', ''vulnerability'']),
        (''remediates'', [''malware'', ''vulnerability''])]),
     (''domain-name'',
       [(''resolves-to'', [''domain-name'', ''ipv4-addr'', ''ipv6-addr''])]),
     (''identity'',
       [(''located-at'', [''location''])]),
     (''indicator'',
       [(''based-on'', [''observed-data'']),
        (''indicates'', [''attack-pattern'', ''campaign'', ''infrastructure'',
                         ''intrusion-set'', ''malware'', ''threat-actor'', ''tool''])]),
     (''infrastructure'',
       [(''communicates-with'', [''domain-name'', ''infrastructure'', ''ipv4-addr'', ''ipv6-addr'', ''url'']),
        (''consists-of'', [''*SCO*'', ''infrastructure'', ''observed-data'']),
        (''controls'', [''infrastructure'', ''malware'']),
        (''delivers'', [''malware'']),
        (''has'', [''vulnerability'']),
        (''hosts'', [''malware'', ''tool'']),
        (''located-at'', [''location'']),
        (''uses'', [''infrastructure''])]),
     (''intrusion-set'',
       [(''attributed-to'', [''threat-actor'']),
        (''compromises'', [''infrastructure'']),
        (''hosts'', [''infrastructure'']),
        (''originates-from'', [''location'']),
        (''owns'', [''infrastructure'']),
        (''targets'', [''identity'', ''location'', ''vulnerability'']),
        (''uses'', [''attack-pattern'', ''infrastructure'', ''malware'', ''tool''])]),
     (''ipv4-addr'',
       [(''belongs-to'', [''autonomous-system'']),
        (''resolves-to'', [''mac-addr''])]),
     (''ipv6-addr'',
       [(''belongs-to'', [''autonomous-system'']),
        (''resolves-to'', [''mac-addr''])]),
     (''malware'',
       [(''authored-by'', [''intrusion-set'', ''threat-actor'']),
        (''beacons-to'', [''infrastructure'']),
        (''communicates-with'', [''domain-name'', ''ipv4-addr'', ''ipv6-addr'', ''url'']),
        (''controls'', [''malware'']),
        (''downloads'', [''file'', ''malware'', ''tool'']),
        (''drops'', [''file'', ''malware'', ''tool'']),
        (''exfiltrates-to'', [''infrastructure'']),
        (''exploits'', [''vulnerability'']),
        (''originates-from'', [''location'']),
        (''targets'', [''identity'', ''infrastructure'', ''location'', ''vulnerability'']),
        (''uses'', [''attack-pattern'', ''infrastructure'', ''malware'', ''tool'']),
        (''variant-of'', [''malware''])]),
     (''malware-analysis'',
       [(''characterizes'', [''malware'']),
        (''analysis-of'', [''malware'']),
        (''static-analysis-of'', [''malware'']),
        (''dynamic-analysis-of'', [''malware''])]),
     (''threat-actor'',
       [(''attributed-to'', [''identity'']),
        (''compromises'', [''infrastructure'']),
        (''hosts'', [''infrastructure'']),
        (''impersonates'', [''identity'']),
        (''located-at'', [''location'']),
        (''owns'', [''infrastructure'']),
        (''targets'', [''identity'', ''location'', ''vulnerability'']),
        (''uses'', [''attack-pattern'', ''infrastructure'', ''malware'', ''tool''])]),
     (''tool'',
       [(''delivers'', [''malware'']),
        (''drops'', [''malware'']),
        (''has'', [''vulnerability'']),
        (''targets'', [''identity'', ''infrastructure'', ''location'', ''vulnerability'']),
        (''uses'', [''infrastructure''])])]"

definition PROJECT_EXTENSIONS :: rel_table where
  "PROJECT_EXTENSIONS = [(''indicator'', [(''based-on'', [''*SCO*''])])]"

section \<open>The three readers\<close>

text \<open>\<open>table.get(src, {}).get(verb)\<close>.\<close>

definition table_targets :: "rel_table \<Rightarrow> string \<Rightarrow> string \<Rightarrow> string list option" where
  "table_targets tab src verb = map_of (dget tab src []) verb"

text \<open>\<open>tgt in targets or ("*SCO*" in targets and tgt in SCO_TYPES)\<close>.\<close>

definition in_targets :: "string \<Rightarrow> string list \<Rightarrow> bool" where
  "in_targets tgt targets \<longleftrightarrow>
     tgt \<in> set targets \<or> (''*SCO*'' \<in> set targets \<and> tgt \<in> set SCO_TYPES)"

definition rel_is_suggested :: "string \<Rightarrow> string \<Rightarrow> string \<Rightarrow> bool" where
  "rel_is_suggested src verb0 tgt =
    (if src = [] \<or> verb0 = [] \<or> tgt = [] then True
     else let verb = lower verb0 in
       if verb \<in> set UNIVERSAL_ANY then True
       else if verb \<in> set UNIVERSAL_SAME_TYPE then src = tgt
       else (case table_targets SUGGESTED src verb of
               None \<Rightarrow> False
             | Some targets \<Rightarrow>
                 if tgt \<in> set targets then True
                 else if ''*SCO*'' \<in> set targets \<and> tgt \<in> set SCO_TYPES then True
                 else False))"

definition rel_is_allowed :: "string \<Rightarrow> string \<Rightarrow> string \<Rightarrow> bool" where
  "rel_is_allowed src verb tgt =
    (if rel_is_suggested src verb tgt then True
     else (case table_targets PROJECT_EXTENSIONS src (lower verb) of
             None \<Rightarrow> False
           | Some targets \<Rightarrow> in_targets tgt targets))"

definition rel_is_listed :: "string \<Rightarrow> string \<Rightarrow> string \<Rightarrow> bool" where
  "rel_is_listed src verb0 tgt =
    (if src = [] \<or> verb0 = [] \<or> tgt = [] then False
     else let verb = lower verb0 in
       list_ex (\<lambda>tab. case table_targets tab src verb of
                        None \<Rightarrow> False
                      | Some targets \<Rightarrow> targets \<noteq> [] \<and> in_targets tgt targets)
               [SUGGESTED, PROJECT_EXTENSIONS])"

section \<open>Facts about the tables\<close>

definition table_verbs :: "rel_table \<Rightarrow> string list" where
  "table_verbs tab = concat (map (\<lambda>(_, m). map fst m) tab)"

lemma table_targets_verb: "table_targets tab src verb = Some ts \<Longrightarrow> verb \<in> set (table_verbs tab)"
  by (force simp: table_targets_def table_verbs_def dget_def dest!: map_of_SomeD split: option.splits)

lemma suggested_verbs_valid: "set (table_verbs SUGGESTED) \<subseteq> set STIX_RELATIONSHIP_TYPES"
  by code_simp

lemma extension_verbs_valid: "set (table_verbs PROJECT_EXTENSIONS) \<subseteq> set STIX_RELATIONSHIP_TYPES"
  by code_simp

lemma universal_verbs_valid: "set (UNIVERSAL_ANY @ UNIVERSAL_SAME_TYPE) \<subseteq> set STIX_RELATIONSHIP_TYPES"
  by code_simp

lemma universal_verbs_not_in_tables:
  "set (UNIVERSAL_ANY @ UNIVERSAL_SAME_TYPE) \<inter> set (table_verbs SUGGESTED @ table_verbs PROJECT_EXTENSIONS) = {}"
  by code_simp

lemma in_targets_nonempty: "in_targets tgt targets \<Longrightarrow> targets \<noteq> []"
  by (auto simp: in_targets_def)

text \<open>The readers on a proper triple, over one table lookup.\<close>

definition listed_in :: "rel_table \<Rightarrow> string \<Rightarrow> string \<Rightarrow> string \<Rightarrow> bool" where
  "listed_in tab src verb tgt \<longleftrightarrow> (\<exists>ts. table_targets tab src verb = Some ts \<and> in_targets tgt ts)"

lemma rel_is_listed_iff:
  "rel_is_listed src verb tgt \<longleftrightarrow> src \<noteq> [] \<and> verb \<noteq> [] \<and> tgt \<noteq> [] \<and>
     (listed_in SUGGESTED src (lower verb) tgt \<or> listed_in PROJECT_EXTENSIONS src (lower verb) tgt)"
  by (auto simp: rel_is_listed_def listed_in_def Let_def dest: in_targets_nonempty split: option.splits)

lemma rel_is_suggested_iff:
  assumes "src \<noteq> []" "verb \<noteq> []" "tgt \<noteq> []"
  shows "rel_is_suggested src verb tgt \<longleftrightarrow>
     lower verb \<in> set UNIVERSAL_ANY \<or>
     (lower verb \<in> set UNIVERSAL_SAME_TYPE \<and> src = tgt) \<or>
     listed_in SUGGESTED src (lower verb) tgt"
proof -
  have disj: "lower verb \<in> set UNIVERSAL_SAME_TYPE \<Longrightarrow> \<not> listed_in SUGGESTED src (lower verb) tgt"
    using universal_verbs_not_in_tables by (auto simp: listed_in_def dest: table_targets_verb)
  show ?thesis
    using assms disj
    by (auto simp: rel_is_suggested_def Let_def listed_in_def in_targets_def split: option.splits)
qed

lemma rel_is_suggested_case: "rel_is_suggested src (lower verb) tgt = rel_is_suggested src verb tgt"
  by (simp add: rel_is_suggested_def)

text \<open>What may ship: a triple with all three parts is allowed exactly when the tables name it for
  that pair of types, or the verb is common to all objects, or it is a same-type verb between two
  objects of one type. And a verb that a table names or that is common is one of the relationship
  types the rest of the program accepts, so no edge is built with a verb that is dropped later.\<close>

lemma rel_is_allowed_iff:
  "(src \<noteq> [] \<and> verb \<noteq> [] \<and> tgt \<noteq> [] \<longrightarrow>
     (rel_is_allowed src verb tgt \<longleftrightarrow> rel_is_listed src verb tgt \<or> lower verb \<in> set UNIVERSAL_ANY \<or>
        (lower verb \<in> set UNIVERSAL_SAME_TYPE \<and> src = tgt))) \<and>
   (src \<noteq> [] \<and> verb \<noteq> [] \<and> tgt \<noteq> [] \<and> rel_is_allowed src verb tgt \<longrightarrow>
      lower verb \<in> set STIX_RELATIONSHIP_TYPES) \<and>
   (rel_is_suggested src verb tgt \<longrightarrow> rel_is_allowed src verb tgt)"
proof -
  have allowed: "rel_is_allowed src verb tgt \<longleftrightarrow> rel_is_suggested src verb tgt \<or> listed_in PROJECT_EXTENSIONS src (lower verb) tgt"
    by (auto simp: rel_is_allowed_def listed_in_def split: option.splits)
  have "listed_in tab src v tgt \<Longrightarrow> v \<in> set (table_verbs tab)" for tab v
    by (auto simp: listed_in_def dest: table_targets_verb)
  then show ?thesis
    using rel_is_suggested_iff [of src verb tgt] rel_is_listed_iff [of src verb tgt] allowed
      suggested_verbs_valid extension_verbs_valid universal_verbs_valid by auto
qed

lemma rel_is_allowed_iff_witness:
  "rel_is_allowed ''indicator'' ''Based-On'' ''url'' \<and> rel_is_listed ''indicator'' ''Based-On'' ''url'' \<and>
   lower ''Based-On'' \<in> set STIX_RELATIONSHIP_TYPES"
proof -
  have l: "rel_is_listed ''indicator'' ''Based-On'' ''url''" by code_simp
  with rel_is_allowed_iff [of "''indicator''" "''Based-On''" "''url''"] show ?thesis by simp
qed

end
