(* ===== verification/UnionFind.thy ===== *)
theory UnionFind
  imports Prelude
begin

text \<open>
  The union-find forest the alias merge and the connected components of graph completion
  (pipeline/stage4b_graph_completion.py) and the rule deduplication
  (pipeline/detection/dedup.py) keep in a dict \<open>parent\<close>. The loops have no visible
  bound, so each \<open>find\<close> is a partial function whose \<open>None\<close> is "raises KeyError or does
  not return"; that it returns is proved from the invariant that parents lead to a root.
  The interface the clients use is the locale \<open>disjoint_sets\<close>, interpreted at the end on
  the three implementations.
\<close>

section \<open>Forests\<close>

type_synonym 'a forest = "'a \<rightharpoonup> 'a"

inductive leads :: "'a forest \<Rightarrow> 'a \<Rightarrow> 'a \<Rightarrow> bool" for p where
  root: "p x = Some x \<Longrightarrow> leads p x x"
| step: "p x = Some y \<Longrightarrow> y \<noteq> x \<Longrightarrow> leads p y r \<Longrightarrow> leads p x r"

definition links :: "'a forest \<Rightarrow> ('a \<times> 'a) set" where
  "links p = {(y, x). p x = Some y \<and> y \<noteq> x}"

definition forest :: "'a forest \<Rightarrow> bool" where
  "forest p \<longleftrightarrow> (\<forall>x y. p x = Some y \<longrightarrow> y \<in> dom p) \<and> wf (links p)"

lemma forest_closed: "forest p \<Longrightarrow> p x = Some y \<Longrightarrow> y \<in> dom p"
  unfolding forest_def by blast

lemma linksI: "p x = Some y \<Longrightarrow> y \<noteq> x \<Longrightarrow> (y, x) \<in> links p"
  by (simp add: links_def)

lemma leads_dom: "leads p x r \<Longrightarrow> x \<in> dom p"
  by (induction rule: leads.induct) auto

lemma leads_fixed: "leads p x r \<Longrightarrow> p r = Some r"
  by (induction rule: leads.induct) auto

lemma leads_root_iff: "p r = Some r \<Longrightarrow> leads p r s \<longleftrightarrow> s = r"
  by (subst leads.simps) auto

lemma leads_step_iff: "p x = Some y \<Longrightarrow> y \<noteq> x \<Longrightarrow> leads p x r \<longleftrightarrow> leads p y r"
  by (subst leads.simps) auto

lemma leads_unique: "leads p x r \<Longrightarrow> leads p x s \<Longrightarrow> r = s"
  by (induction arbitrary: s rule: leads.induct) (simp_all add: leads_root_iff leads_step_iff)

lemma leads_exists:
  assumes "forest p" "x \<in> dom p"
  shows "\<exists>r. leads p x r"
proof -
  have "wf (links p)" using assms(1) by (simp add: forest_def)
  then show ?thesis using assms(2)
  proof (induction x rule: wf_induct_rule)
    case (less x)
    from less.prems obtain y where y: "p x = Some y" by auto
    show ?case
    proof (cases "y = x")
      case True
      with y show ?thesis by (auto intro: leads.root)
    next
      case False
      have "y \<in> dom p" using y assms(1) by (auto simp: forest_def)
      moreover have "(y, x) \<in> links p" using y False by (rule linksI)
      ultimately obtain r where "leads p y r" using less.IH by blast
      with y False have "leads p x r" by (rule leads.step)
      then show ?thesis ..
    qed
  qed
qed

text \<open>The representative the forest assigns to an element: the specification of \<open>find\<close>.\<close>

definition rep :: "'a forest \<Rightarrow> 'a \<Rightarrow> 'a" where
  "rep p x = (THE r. leads p x r)"

lemma rep_eq: "leads p x r \<Longrightarrow> rep p x = r"
  unfolding rep_def by (rule the_equality) (assumption, erule (1) leads_unique)

lemma leads_rep: "forest p \<Longrightarrow> x \<in> dom p \<Longrightarrow> leads p x (rep p x)"
  using leads_exists [of p x] by (auto simp: rep_eq)

lemma rep_fixed: "forest p \<Longrightarrow> x \<in> dom p \<Longrightarrow> p (rep p x) = Some (rep p x)"
  by (rule leads_fixed [OF leads_rep])

lemma rep_in_dom: "forest p \<Longrightarrow> x \<in> dom p \<Longrightarrow> rep p x \<in> dom p"
  by (rule domI [OF rep_fixed])

lemma rep_root: "p r = Some r \<Longrightarrow> rep p r = r"
  by (rule rep_eq [OF leads.root])

lemma rep_idem: "forest p \<Longrightarrow> x \<in> dom p \<Longrightarrow> rep p (rep p x) = rep p x"
  by (rule rep_root [OF rep_fixed])

section \<open>The two changes of a forest\<close>

text \<open>Pointing a node at a node further up the same path keeps every representative.\<close>

lemma leads_shortcut:
  assumes wfR: "wf R" and within: "links p \<subseteq> R" and below: "(w, x) \<in> R"
    and ne: "w \<noteq> x" and same: "\<And>r. leads p x r \<Longrightarrow> leads p w r"
    and qx: "q x = Some w" and q: "\<And>z. z \<noteq> x \<Longrightarrow> q z = p z"
  shows "leads p u v \<Longrightarrow> leads q u v"
  using wfR
proof (induction u rule: wf_induct_rule)
  case (less u)
  show ?case
  proof (cases "u = x")
    case True
    with less.prems have "leads p w v" by (simp add: same)
    with True below have "leads q w v" by (intro less.IH) simp_all
    then have "leads q x v" using qx ne by (simp add: leads.step [of q x w])
    with True show ?thesis by simp
  next
    case False
    with q have qu: "q u = p u" by simp
    from less.prems show ?thesis
    proof (cases rule: leads.cases)
      case root
      with qu show ?thesis by (simp add: leads.root)
    next
      case (step y)
      with within have "(y, u) \<in> R" by (auto simp: links_def)
      with step have "leads q y v" by (intro less.IH)
      with qu step show ?thesis by (simp add: leads.step [of q u y])
    qed
  qed
qed

lemma links_upd: "links (p(x \<mapsto> w)) \<subseteq> insert (w, x) (links p)"
  by (auto simp: links_def split: if_splits)

lemma forest_shortcut:
  assumes f: "forest p" and R: "wf R" "links p \<subseteq> R" "(w, x) \<in> R"
    and dom: "x \<in> dom p" "w \<in> dom p" "w \<noteq> x"
    and same: "\<And>r. leads p x r \<Longrightarrow> leads p w r"
  shows "forest (p(x \<mapsto> w))" and "leads (p(x \<mapsto> w)) = leads p"
    and "dom (p(x \<mapsto> w)) = dom p" and "links (p(x \<mapsto> w)) \<subseteq> R"
proof -
  show R': "links (p(x \<mapsto> w)) \<subseteq> R"
    using links_upd [of p x w] R(2,3) by blast
  then have "wf (links (p(x \<mapsto> w)))" using R(1) by (rule wf_subset [rotated])
  with f dom show f': "forest (p(x \<mapsto> w))" by (auto simp: forest_def split: if_splits)
  show d: "dom (p(x \<mapsto> w)) = dom p" using dom by auto
  have fwd: "leads p u v \<Longrightarrow> leads (p(x \<mapsto> w)) u v" for u v
    by (rule leads_shortcut [OF R dom(3) same]) auto
  have "leads (p(x \<mapsto> w)) u v \<Longrightarrow> leads p u v" for u v
  proof -
    assume uv: "leads (p(x \<mapsto> w)) u v"
    have "u \<in> dom p" using leads_dom [OF uv] d by blast
    then have "leads p u (rep p u)" by (rule leads_rep [OF f])
    with leads_unique [OF uv fwd [OF this]] show "leads p u v" by simp
  qed
  with fwd show "leads (p(x \<mapsto> w)) = leads p" by (intro ext) blast
qed

text \<open>Hanging a root under another root merges the two classes.\<close>

lemma forest_link:
  assumes f: "forest p" and ra: "p a = Some a" and rb: "p b = Some b" and ne: "a \<noteq> b"
  shows "forest (p(a \<mapsto> b))" and "dom (p(a \<mapsto> b)) = dom p"
    and "\<And>u. u \<in> dom p \<Longrightarrow> rep (p(a \<mapsto> b)) u = (if rep p u = a then b else rep p u)"
proof -
  let ?p = "p(a \<mapsto> b)"
  have "(a, b) \<notin> (links p)\<^sup>*"
    using rb ne by (auto simp: links_def elim: rtranclE)
  then have "wf (insert (b, a) (links p))" using f by (simp add: forest_def)
  then have wf': "wf (links ?p)" by (rule wf_subset) (rule links_upd)
  show f': "forest ?p" and d: "dom ?p = dom p"
    using f ra rb wf' by (auto simp: forest_def split: if_splits)
  define q where "q = ?p"
  have qa: "q a = Some b" and q: "\<And>z. z \<noteq> a \<Longrightarrow> q z = p z" by (simp_all add: q_def)
  have "leads q b b" using rb ne q by (auto intro: leads.root)
  with qa ne have ab: "leads q a b" by (auto intro: leads.step)
  have "leads p u v \<Longrightarrow> leads q u (if v = a then b else v)" for u v
  proof (induction rule: leads.induct)
    case (root x)
    with ab q show ?case by (auto intro: leads.root)
  next
    case (step x y r)
    then have "x \<noteq> a" using ra by auto
    with step q have "q x = Some y" by simp
    with step show ?case by (simp add: leads.step [of q x y])
  qed
  note fwd = this [unfolded q_def]
  show "rep ?p u = (if rep p u = a then b else rep p u)" if "u \<in> dom p" for u
    by (rule rep_eq [OF fwd [OF leads_rep [OF f that]]])
qed

lemma rep_link_eq_iff:
  assumes f: "forest p" and ra: "p a = Some a" and rb: "p b = Some b"
    and x: "x \<in> dom p" and y: "y \<in> dom p"
  shows "rep (p(a \<mapsto> b)) x = rep (p(a \<mapsto> b)) y \<longleftrightarrow>
    rep p x = rep p y \<or> (rep p x = a \<and> rep p y = b) \<or> (rep p x = b \<and> rep p y = a)"
proof (cases "a = b")
  case True
  with ra have "p(a \<mapsto> b) = p" by auto
  with True show ?thesis by auto
next
  case False
  then show ?thesis using forest_link(3) [OF f ra rb False] x y by auto
qed

lemma forest_link':
  assumes "forest p" "p a = Some a" "p b = Some b"
  shows "forest (p(a \<mapsto> b))" "dom (p(a \<mapsto> b)) = dom p"
  using forest_link(1,2) [OF assms] assms by (cases "a = b"; auto simp: fun_upd_idem)+

text \<open>Adding a node of its own (\<open>parent.setdefault(x, x)\<close>).\<close>

lemma forest_add:
  assumes f: "forest p" and x: "x \<notin> dom p"
  shows "forest (p(x \<mapsto> x))" and "\<And>u. u \<in> dom p \<Longrightarrow> rep (p(x \<mapsto> x)) u = rep p u"
    and "rep (p(x \<mapsto> x)) x = x"
proof -
  have "links (p(x \<mapsto> x)) \<subseteq> links p" by (auto simp: links_def split: if_splits)
  then show "forest (p(x \<mapsto> x))" using f wf_subset by (auto simp: forest_def split: if_splits)
  define q where "q = p(x \<mapsto> x)"
  have q: "z \<in> dom p \<Longrightarrow> q z = p z" for z using x by (auto simp: q_def)
  have "leads p u v \<Longrightarrow> leads q u v" for u v
  proof (induction rule: leads.induct)
    case (root z)
    with q [of z] show ?case by (auto intro: leads.root)
  next
    case (step z y r)
    with q [of z] have "q z = Some y" by auto
    with step show ?case by (simp add: leads.step [of q z y])
  qed
  then show "u \<in> dom p \<Longrightarrow> rep (p(x \<mapsto> x)) u = rep p u" for u
    unfolding q_def by (blast intro: rep_eq leads_rep [OF f])
  show "rep (p(x \<mapsto> x)) x = x" by (rule rep_eq) (auto intro: leads.root)
qed

lemma forest_empty [simp]: "forest Map.empty"
  by (simp add: forest_def links_def)

lemma forest_identity: "forest (\<lambda>x. if x \<in> A then Some x else None)"
proof -
  have "links (\<lambda>x. if x \<in> A then Some x else None) = {}" by (auto simp: links_def split: if_splits)
  then show ?thesis by (auto simp: forest_def split: if_splits)
qed

lemma rep_identity: "x \<in> A \<Longrightarrow> rep (\<lambda>x. if x \<in> A then Some x else None) x = x"
  by (rule rep_eq) (auto intro: leads.root)

section \<open>find and union\<close>

text \<open>
  \<open>while parent[x] != x: parent[x] = parent[parent[x]]; x = parent[x]; return x\<close>: the path
  halving of graph completion. \<open>None\<close> is the KeyError of a missing node or a loop that does
  not end.
\<close>

partial_function (option) find_halving :: "'a forest \<Rightarrow> 'a \<Rightarrow> ('a \<times> 'a forest) option" where
  "find_halving p x =
     (case p x of None \<Rightarrow> None
      | Some y \<Rightarrow>
          if y = x then Some (x, p)
          else (case p y of None \<Rightarrow> None
                | Some z \<Rightarrow> find_halving (p(x \<mapsto> z)) z))"

text \<open>\<open>_merge_aliases.find\<close>: \<open>parent.setdefault(x, x)\<close> first.\<close>

definition setdefault :: "'a forest \<Rightarrow> 'a \<Rightarrow> 'a forest" where
  "setdefault p x = (if p x = None then p(x \<mapsto> x) else p)"

definition alias_find :: "'a forest \<Rightarrow> 'a \<Rightarrow> ('a \<times> 'a forest) option" where
  "alias_find p x = find_halving (setdefault p x) x"

text \<open>\<open>parent[find(a)] = find(b)\<close>: Python evaluates the right-hand side first.\<close>

definition union_with :: "('a forest \<Rightarrow> 'a \<Rightarrow> ('a \<times> 'a forest) option) \<Rightarrow>
    'a forest \<Rightarrow> 'a \<Rightarrow> 'a \<Rightarrow> 'a forest option" where
  "union_with fnd p a b =
     (case fnd p b of None \<Rightarrow> None
      | Some (rb, p1) \<Rightarrow>
          (case fnd p1 a of None \<Rightarrow> None
           | Some (ra, p2) \<Rightarrow> Some (p2(ra \<mapsto> rb))))"

definition alias_union :: "'a forest \<Rightarrow> 'a \<Rightarrow> 'a \<Rightarrow> 'a forest option" where
  "alias_union = union_with alias_find"

definition component_union :: "'a forest \<Rightarrow> 'a \<Rightarrow> 'a \<Rightarrow> 'a forest option" where
  "component_union = union_with find_halving"

text \<open>
  The two loops of \<open>dedup._find\<close>: climb to the root, then point every node of the path at it.
\<close>

partial_function (option) climb :: "'a forest \<Rightarrow> 'a \<Rightarrow> 'a option" where
  "climb p x = (case p x of None \<Rightarrow> None | Some y \<Rightarrow> if y = x then Some x else climb p y)"

partial_function (option) compress :: "'a forest \<Rightarrow> 'a \<Rightarrow> 'a \<Rightarrow> 'a forest option" where
  "compress p r x =
     (case p x of None \<Rightarrow> None
      | Some y \<Rightarrow> if y = r then Some p else compress (p(x \<mapsto> r)) r y)"

definition dedup_find :: "'a forest \<Rightarrow> 'a \<Rightarrow> ('a \<times> 'a forest) option" where
  "dedup_find p x =
     (if p x = None then Some (x, p(x \<mapsto> x))
      else (case climb p x of None \<Rightarrow> None
            | Some r \<Rightarrow> map_option (\<lambda>p'. (r, p')) (compress p r x)))"

text \<open>\<open>dedup._union\<close>: the smaller root becomes the parent.\<close>

definition dedup_union :: "('a::linorder) forest \<Rightarrow> 'a \<Rightarrow> 'a \<Rightarrow> 'a forest option" where
  "dedup_union p a b =
     (case dedup_find p a of None \<Rightarrow> None
      | Some (ra, p1) \<Rightarrow>
          (case dedup_find p1 b of None \<Rightarrow> None
           | Some (rb, p2) \<Rightarrow>
               if ra = rb then Some p2
               else if ra < rb then Some (p2(rb \<mapsto> ra)) else Some (p2(ra \<mapsto> rb))))"

declare find_halving.simps [code] climb.simps [code] compress.simps [code]

section \<open>Each find returns the representative and keeps the classes\<close>

lemma find_halving_ok:
  assumes "wf R" and "trans R"
  shows "forest p \<Longrightarrow> links p \<subseteq> R \<Longrightarrow> x \<in> dom p \<Longrightarrow>
    \<exists>p'. find_halving p x = Some (rep p x, p') \<and> forest p' \<and> leads p' = leads p \<and> dom p' = dom p"
  using assms(1)
proof (induction x arbitrary: p rule: wf_induct_rule)
  case (less x)
  then obtain y where y: "p x = Some y" by auto
  show ?case
  proof (cases "y = x")
    case True
    with y less.prems show ?thesis by (simp add: find_halving.simps [of p x] rep_root)
  next
    case False
    from forest_closed [OF less.prems(1) y] obtain z where z: "p y = Some z" by auto
    have xy: "(y, x) \<in> R" using y False less.prems by (auto simp: links_def)
    have yz: "z \<noteq> y \<Longrightarrow> (z, y) \<in> R" using z less.prems by (auto simp: links_def)
    have xz: "(z, x) \<in> R" using xy yz assms(2) by (cases "z = y") (auto dest: transD)
    have "z \<noteq> x" using xz assms(1) by auto
    have "z \<in> dom p" by (rule forest_closed [OF less.prems(1) z])
    have same: "leads p x r \<Longrightarrow> leads p z r" for r
      using y z False leads_step_iff [of p x y] leads_step_iff [of p y z] by (cases "z = y") auto
    note sc = forest_shortcut [OF less.prems(1) assms(1) less.prems(2) xz less.prems(3) \<open>z \<in> dom p\<close>
        \<open>z \<noteq> x\<close> same]
    let ?q = "p(x \<mapsto> z)"
    have "z \<in> dom ?q" using \<open>z \<in> dom p\<close> by simp
    from less.IH [OF xz sc(1) sc(4) this] obtain p' where p': "find_halving ?q z = Some (rep ?q z, p')"
      "forest p'" "leads p' = leads ?q" "dom p' = dom ?q" by blast
    have "leads p z (rep p x)" by (rule same [OF leads_rep [OF less.prems(1,3)]])
    then have "rep ?q z = rep p x" using sc(2) by (intro rep_eq) simp
    moreover have "find_halving p x = find_halving ?q z"
      using y z False by (simp add: find_halving.simps [of p x])
    ultimately show ?thesis using p' sc(2,3) by auto
  qed
qed

lemma rep_cong: "leads p' = leads p \<Longrightarrow> rep p' = rep p"
  by (simp add: rep_def fun_eq_iff)

lemma forest_wf: "forest p \<Longrightarrow> wf ((links p)\<^sup>+)"
  by (simp add: forest_def wf_trancl)

lemma find_halving_spec:
  assumes "forest p" "x \<in> dom p"
  shows "\<exists>p'. find_halving p x = Some (rep p x, p') \<and> forest p' \<and> rep p' = rep p \<and> dom p' = dom p"
  using find_halving_ok [OF forest_wf [OF assms(1)] trans_trancl assms(1) _ assms(2)] rep_cong
  by (metis r_into_trancl' subsetI)

lemma leads_links: "leads p x r \<Longrightarrow> r \<noteq> x \<Longrightarrow> (r, x) \<in> (links p)\<^sup>+"
proof (induction rule: leads.induct)
  case (step x y r)
  have "(y, x) \<in> links p" using step.hyps(1,2) by (rule linksI)
  with step.IH show ?case by (cases "r = y") (auto intro: trancl_into_trancl)
qed simp

lemma links_trancl_subset: "links p \<subseteq> R \<Longrightarrow> trans R \<Longrightarrow> (links p)\<^sup>+ \<subseteq> R"
  by (metis trancl_id trancl_mono_subset)

lemma climb_ok: "leads p x r \<Longrightarrow> climb p x = Some r"
  by (induction rule: leads.induct) (simp_all add: climb.simps [of p])

lemma compress_ok:
  assumes "wf R" and "trans R"
  shows "forest p \<Longrightarrow> links p \<subseteq> R \<Longrightarrow> leads p x r \<Longrightarrow>
    \<exists>p'. compress p r x = Some p' \<and> forest p' \<and> leads p' = leads p \<and> dom p' = dom p"
  using assms(1)
proof (induction x arbitrary: p rule: wf_induct_rule)
  case (less x)
  from leads_dom [OF less.prems(3)] obtain y where y: "p x = Some y" by auto
  show ?case
  proof (cases "y = r")
    case True
    with y less.prems show ?thesis by (simp add: compress.simps [of p r x])
  next
    case False
    have rr: "p r = Some r" by (rule leads_fixed [OF less.prems(3)])
    then have rd: "r \<in> dom p" by auto
    from rr y False have "r \<noteq> x" by auto
    with leads_links [OF less.prems(3)] links_trancl_subset [OF less.prems(2) assms(2)]
    have below: "(r, x) \<in> R" by blast
    have "y \<noteq> x"
    proof
      assume "y = x"
      with y have "leads p x s \<longleftrightarrow> s = x" for s by (simp add: leads_root_iff)
      with less.prems(3) \<open>r \<noteq> x\<close> show False by simp
    qed
    then have yr: "leads p y r" using leads_step_iff [of p x y] y less.prems(3) by simp
    have same: "leads p x s \<Longrightarrow> leads p r s" for s
      using leads_unique [OF less.prems(3)] rr by (auto simp: leads_root_iff)
    note sc = forest_shortcut [OF less.prems(1) assms(1) less.prems(2) below
        leads_dom [OF less.prems(3)] rd \<open>r \<noteq> x\<close> same]
    have "(y, x) \<in> R" using y \<open>y \<noteq> x\<close> less.prems(2) by (auto simp: links_def)
    moreover have "leads (p(x \<mapsto> r)) y r" using yr sc(2) by simp
    ultimately obtain p' where "compress (p(x \<mapsto> r)) r y = Some p'" "forest p'"
      "leads p' = leads (p(x \<mapsto> r))" "dom p' = dom (p(x \<mapsto> r))"
      using less.IH [OF _ sc(1) sc(4)] by blast
    with y False sc(2,3) show ?thesis by (simp add: compress.simps [of p r x])
  qed
qed

lemma dedup_find_spec:
  assumes "forest p" "x \<in> dom p"
  shows "\<exists>p'. dedup_find p x = Some (rep p x, p') \<and> forest p' \<and> rep p' = rep p \<and> dom p' = dom p"
proof -
  have l: "leads p x (rep p x)" by (rule leads_rep [OF assms])
  have "links p \<subseteq> (links p)\<^sup>+" by auto
  from compress_ok [OF forest_wf [OF assms(1)] trans_trancl assms(1) this l] obtain p' where
    "compress p (rep p x) x = Some p'" "forest p'" "leads p' = leads p" "dom p' = dom p" by blast
  with climb_ok [OF l] assms(2) show ?thesis
    by (auto simp: dedup_find_def dest: rep_cong)
qed

lemma union_with_ok:
  assumes fnd: "\<And>p x. forest p \<Longrightarrow> x \<in> dom p \<Longrightarrow>
      \<exists>p'. fnd p x = Some (rep p x, p') \<and> forest p' \<and> rep p' = rep p \<and> dom p' = dom p"
    and p: "forest p" "a \<in> dom p" "b \<in> dom p"
  shows "\<exists>p'. union_with fnd p a b = Some p' \<and> forest p' \<and> dom p' = dom p \<and>
        (\<forall>x \<in> dom p. \<forall>y \<in> dom p. rep p' x = rep p' y \<longleftrightarrow>
           rep p x = rep p y \<or> (rep p x = rep p a \<and> rep p y = rep p b) \<or>
           (rep p x = rep p b \<and> rep p y = rep p a))"
proof -
  from fnd [OF p(1,3)] obtain p1 where p1: "fnd p b = Some (rep p b, p1)" "forest p1" "rep p1 = rep p"
    "dom p1 = dom p" by blast
  from fnd [OF p1(2), of a] p1 p(2) obtain p2 where p2: "fnd p1 a = Some (rep p a, p2)" "forest p2"
    "rep p2 = rep p" "dom p2 = dom p" by auto
  have "p2 (rep p a) = Some (rep p a)" "p2 (rep p b) = Some (rep p b)"
    using rep_fixed [OF p2(2), of a] rep_fixed [OF p2(2), of b] p2 p(2,3) by simp_all
  note l = forest_link' [OF p2(2) this] rep_link_eq_iff [OF p2(2) this]
  have "union_with fnd p a b = Some (p2(rep p a \<mapsto> rep p b))" by (simp add: union_with_def p1 p2)
  then show ?thesis using l p2(3,4) by (intro exI conjI ballI) (assumption | simp)+
qed

lemma dedup_union_ok:
  assumes p: "forest p" "a \<in> dom p" "b \<in> dom p"
  shows "\<exists>p'. dedup_union p a b = Some p' \<and> forest p' \<and> dom p' = dom p \<and>
        (\<forall>x \<in> dom p. \<forall>y \<in> dom p. rep p' x = rep p' y \<longleftrightarrow>
           rep p x = rep p y \<or> (rep p x = rep p a \<and> rep p y = rep p b) \<or>
           (rep p x = rep p b \<and> rep p y = rep p a))"
proof -
  from dedup_find_spec [OF p(1,2)] obtain p1 where p1: "dedup_find p a = Some (rep p a, p1)"
    "forest p1" "rep p1 = rep p" "dom p1 = dom p" by blast
  from dedup_find_spec [OF p1(2), of b] p1 p(3) obtain p2 where p2: "dedup_find p1 b = Some (rep p b, p2)"
    "forest p2" "rep p2 = rep p" "dom p2 = dom p" by auto
  have a: "p2 (rep p a) = Some (rep p a)" and b: "p2 (rep p b) = Some (rep p b)"
    using rep_fixed [OF p2(2), of a] rep_fixed [OF p2(2), of b] p2 p(2,3) by simp_all
  note ab = forest_link' [OF p2(2) a b] rep_link_eq_iff [OF p2(2) a b]
  note ba = forest_link' [OF p2(2) b a] rep_link_eq_iff [OF p2(2) b a]
  consider "rep p a = rep p b" | "rep p a \<noteq> rep p b" "rep p a < rep p b"
    | "rep p a \<noteq> rep p b" "\<not> rep p a < rep p b" by blast
  then show ?thesis
  proof cases
    case 1
    with p1 p2 have "dedup_union p a b = Some p2" by (simp add: dedup_union_def)
    with p2 1 show ?thesis by auto
  next
    case 2
    with p1 p2 have "dedup_union p a b = Some (p2(rep p b \<mapsto> rep p a))" by (simp add: dedup_union_def)
    with ba p2(3,4) show ?thesis by (intro exI conjI ballI) (assumption | auto)+
  next
    case 3
    with p1 p2 have "dedup_union p a b = Some (p2(rep p a \<mapsto> rep p b))" by (simp add: dedup_union_def)
    with ab p2(3,4) show ?thesis by (intro exI conjI ballI) (assumption | simp)+
  qed
qed

text \<open>Two generic facts on closures that the partition lemma of the interface needs.\<close>

lemma rtrancl_subset_antisym: "A \<subseteq> B\<^sup>* \<Longrightarrow> B \<subseteq> A\<^sup>* \<Longrightarrow> A\<^sup>* = B\<^sup>*"
  by (meson rtrancl_subset_rtrancl subset_antisym)

lemma linked_classes:
  fixes p :: "'a forest"
  defines "E \<equiv> {(u, v). u \<in> dom p \<and> v \<in> dom p \<and> rep p u = rep p v}"
  assumes "a \<in> dom p" "b \<in> dom p" "x \<in> dom p" "y \<in> dom p"
    and "rep p x = rep p y \<or> (rep p x = rep p a \<and> rep p y = rep p b) \<or> (rep p x = rep p b \<and> rep p y = rep p a)"
    and S: "E \<union> {(a, b), (b, a)} \<subseteq> S"
  shows "(x, y) \<in> S\<^sup>*"
proof -
  have *: "(u, v) \<in> S\<^sup>*" if "rep p u = rep p v" "u \<in> dom p" "v \<in> dom p" for u v
    using that S by (auto simp: E_def)
  have link: "(x, y) \<in> S\<^sup>*" if "rep p x = rep p c" "rep p y = rep p d" "c \<in> dom p" "d \<in> dom p"
    "(c, d) \<in> S" for c d
    using * [of x c] * [of d y] that assms(4,5) by (metis rtrancl.rtrancl_into_rtrancl rtrancl_trans)
  show ?thesis using assms(6) * [OF _ assms(4,5)] link [of a b] link [of b a] assms(2,3) S by auto
qed

section \<open>The interface\<close>

text \<open>A loop of unions, and the loop that asks every node for its root.\<close>

fun unions :: "('a forest \<Rightarrow> 'a \<Rightarrow> 'a \<Rightarrow> 'a forest option) \<Rightarrow> 'a forest \<Rightarrow> ('a \<times> 'a) list \<Rightarrow>
    'a forest option" where
  "unions u p [] = Some p"
| "unions u p ((a, b) # es) = (case u p a b of None \<Rightarrow> None | Some p' \<Rightarrow> unions u p' es)"

fun roots :: "('a forest \<Rightarrow> 'a \<Rightarrow> ('a \<times> 'a forest) option) \<Rightarrow> 'a forest \<Rightarrow> 'a list \<Rightarrow>
    ('a list \<times> 'a forest) option" where
  "roots f p [] = Some ([], p)"
| "roots f p (x # xs) = (case f p x of None \<Rightarrow> None
     | Some (r, p') \<Rightarrow> map_option (\<lambda>(rs, q). (r # rs, q)) (roots f p' xs))"

text \<open>
  What graph completion and deduplication rely on: \<open>find\<close> returns, answers the
  representative and changes no class; \<open>union\<close> merges exactly two classes.
\<close>

locale disjoint_sets =
  fixes find :: "'a forest \<Rightarrow> 'a \<Rightarrow> ('a \<times> 'a forest) option"
    and union :: "'a forest \<Rightarrow> 'a \<Rightarrow> 'a \<Rightarrow> 'a forest option"
  assumes find_ok: "forest p \<Longrightarrow> x \<in> dom p \<Longrightarrow>
      \<exists>p'. find p x = Some (rep p x, p') \<and> forest p' \<and> rep p' = rep p \<and> dom p' = dom p"
    and union_ok: "forest p \<Longrightarrow> a \<in> dom p \<Longrightarrow> b \<in> dom p \<Longrightarrow>
      \<exists>p'. union p a b = Some p' \<and> forest p' \<and> dom p' = dom p \<and>
        (\<forall>x \<in> dom p. \<forall>y \<in> dom p. rep p' x = rep p' y \<longleftrightarrow>
           rep p x = rep p y \<or> (rep p x = rep p a \<and> rep p y = rep p b) \<or>
           (rep p x = rep p b \<and> rep p y = rep p a))"
begin

lemma roots_ok:
  "forest p \<Longrightarrow> set xs \<subseteq> dom p \<Longrightarrow>
   \<exists>q. roots find p xs = Some (map (rep p) xs, q) \<and> forest q \<and> rep q = rep p \<and> dom q = dom p"
proof (induction xs arbitrary: p)
  case (Cons x xs)
  from find_ok [of p x] Cons.prems obtain p' where p': "find p x = Some (rep p x, p')" "forest p'"
    "rep p' = rep p" "dom p' = dom p" by auto
  with Cons.IH [of p'] Cons.prems show ?case by auto
qed simp

text \<open>
  After the unions, two nodes share a root exactly when they did before or the pairs link
  them: the partition is the least equivalence that contains the old one and the pairs.
\<close>

lemma unions_ok:
  "forest p \<Longrightarrow> fst ` set es \<union> snd ` set es \<subseteq> dom p \<Longrightarrow>
   \<exists>q. unions union p es = Some q \<and> forest q \<and> dom q = dom p \<and>
     (\<forall>x \<in> dom p. \<forall>y \<in> dom p. rep q x = rep q y \<longleftrightarrow>
        (x, y) \<in> ({(u, v). u \<in> dom p \<and> v \<in> dom p \<and> rep p u = rep p v} \<union> set es \<union> (set es)\<inverse>)\<^sup>*)"
proof (induction es arbitrary: p)
  case Nil
  let ?E = "{(u, v). u \<in> dom p \<and> v \<in> dom p \<and> rep p u = rep p v}"
  have 1: "(x, y) \<in> ?E\<^sup>* \<Longrightarrow> rep p x = rep p y" for x y
    by (induction rule: rtrancl_induct) simp_all
  have 2: "x \<in> dom p \<Longrightarrow> y \<in> dom p \<Longrightarrow> rep p x = rep p y \<Longrightarrow> (x, y) \<in> ?E\<^sup>*" for x y
    by (rule r_into_rtrancl) simp
  have "x \<in> dom p \<Longrightarrow> y \<in> dom p \<Longrightarrow> (rep p x = rep p y) = ((x, y) \<in> ?E\<^sup>*)" for x y
    using 1 [of x y] 2 [of x y] by argo
  with Nil show ?case by simp
next
  case (Cons e es)
  obtain a b where e: "e = (a, b)" by (cases e)
  let ?E = "\<lambda>p. {(u, v). u \<in> dom p \<and> v \<in> dom p \<and> rep p u = rep p v}"
  from union_ok [of p a b] Cons.prems e obtain p' where p': "union p a b = Some p'" "forest p'"
    "dom p' = dom p" and merged: "\<And>x y. x \<in> dom p \<Longrightarrow> y \<in> dom p \<Longrightarrow> rep p' x = rep p' y \<longleftrightarrow>
           rep p x = rep p y \<or> (rep p x = rep p a \<and> rep p y = rep p b) \<or>
           (rep p x = rep p b \<and> rep p y = rep p a)" by auto
  from Cons.IH [of p'] Cons.prems p' obtain q where q: "unions union p' es = Some q" "forest q"
    "dom q = dom p" and qp: "\<And>x y. x \<in> dom p \<Longrightarrow> y \<in> dom p \<Longrightarrow> rep q x = rep q y \<longleftrightarrow>
      (x, y) \<in> (?E p' \<union> set es \<union> (set es)\<inverse>)\<^sup>*" by auto
  have "a \<in> dom p" "b \<in> dom p" using Cons.prems e by auto
  have ab: "?E p' \<subseteq> (?E p \<union> set (e # es) \<union> (set (e # es))\<inverse>)\<^sup>*"
  proof
    fix w assume "w \<in> ?E p'"
    then obtain x y where w: "w = (x, y)" and xy: "x \<in> dom p" "y \<in> dom p" "rep p' x = rep p' y"
      using p'(3) by auto
    have "(x, y) \<in> (?E p \<union> set (e # es) \<union> (set (e # es))\<inverse>)\<^sup>*"
      by (rule linked_classes [OF \<open>a \<in> dom p\<close> \<open>b \<in> dom p\<close> xy(1,2)])
        (use merged [OF xy(1,2)] xy(3) e in auto)
    with w show "w \<in> (?E p \<union> set (e # es) \<union> (set (e # es))\<inverse>)\<^sup>*" by simp
  qed
  have "(?E p' \<union> set es \<union> (set es)\<inverse>)\<^sup>* = (?E p \<union> set (e # es) \<union> (set (e # es))\<inverse>)\<^sup>*" (is "?L\<^sup>* = ?R\<^sup>*")
  proof (rule rtrancl_subset_antisym)
    show "?L \<subseteq> ?R\<^sup>*" using ab by auto
    have "(a, b) \<in> ?E p'" "(b, a) \<in> ?E p'" "?E p \<subseteq> ?E p'"
      using merged p'(3) \<open>a \<in> dom p\<close> \<open>b \<in> dom p\<close> by auto
    then show "?R \<subseteq> ?L\<^sup>*" using e by auto
  qed
  with p' q qp e show ?case by simp
qed

end

section \<open>Groups\<close>

text \<open>The unions of a group: the first member with each of the others.\<close>

fun with_first :: "'a list \<Rightarrow> ('a \<times> 'a) list" where
  "with_first [] = []"
| "with_first (m # ms) = map (Pair m) ms"

lemma with_first_set: "(a, b) \<in> set (with_first ms) \<Longrightarrow> a \<in> set ms \<and> b \<in> set ms"
  by (cases ms) auto

lemma with_first_joins:
  assumes "x \<in> set ms" "y \<in> set ms"
  shows "(x, y) \<in> (set (with_first ms) \<union> (set (with_first ms))\<inverse>)\<^sup>*"
proof (cases ms)
  case (Cons m ns)
  have down: "z \<in> set ms \<Longrightarrow> (m, z) \<in> (set (with_first ms) \<union> (set (with_first ms))\<inverse>)\<^sup>*" for z
    using Cons by auto
  have up: "z \<in> set ms \<Longrightarrow> (z, m) \<in> (set (with_first ms) \<union> (set (with_first ms))\<inverse>)\<^sup>*" for z
    using Cons by auto
  show ?thesis using up [OF assms(1)] down [OF assms(2)] by (rule rtrancl_trans)
qed (use assms in simp)

section \<open>The implementations\<close>

interpretation component_uf: disjoint_sets find_halving component_union
proof unfold_locales
  show "\<exists>p'. find_halving p x = Some (rep p x, p') \<and> forest p' \<and> rep p' = rep p \<and> dom p' = dom p"
    if "forest p" "x \<in> dom p" for p :: "'a forest" and x
    using that by (rule find_halving_spec)
  show "\<exists>p'. component_union p a b = Some p' \<and> forest p' \<and> dom p' = dom p \<and>
        (\<forall>x \<in> dom p. \<forall>y \<in> dom p. rep p' x = rep p' y \<longleftrightarrow>
           rep p x = rep p y \<or> (rep p x = rep p a \<and> rep p y = rep p b) \<or>
           (rep p x = rep p b \<and> rep p y = rep p a))"
    if "forest p" "a \<in> dom p" "b \<in> dom p" for p :: "'a forest" and a b
    unfolding component_union_def by (rule union_with_ok [OF find_halving_spec that])
qed

interpretation alias_uf: disjoint_sets alias_find alias_union
proof unfold_locales
  have find: "\<exists>p'. alias_find p x = Some (rep p x, p') \<and> forest p' \<and> rep p' = rep p \<and> dom p' = dom p"
    if "forest p" "x \<in> dom p" for p :: "'a forest" and x
    using find_halving_spec [OF that] that(2) by (auto simp: alias_find_def setdefault_def)
  then show "\<exists>p'. alias_find p x = Some (rep p x, p') \<and> forest p' \<and> rep p' = rep p \<and> dom p' = dom p"
    if "forest p" "x \<in> dom p" for p :: "'a forest" and x
    using that .
  show "\<exists>p'. alias_union p a b = Some p' \<and> forest p' \<and> dom p' = dom p \<and>
        (\<forall>x \<in> dom p. \<forall>y \<in> dom p. rep p' x = rep p' y \<longleftrightarrow>
           rep p x = rep p y \<or> (rep p x = rep p a \<and> rep p y = rep p b) \<or>
           (rep p x = rep p b \<and> rep p y = rep p a))"
    if "forest p" "a \<in> dom p" "b \<in> dom p" for p :: "'a forest" and a b
    unfolding alias_union_def by (rule union_with_ok [OF find that])
qed

interpretation dedup_uf: disjoint_sets dedup_find "dedup_union :: ('a::linorder) forest \<Rightarrow> _"
proof unfold_locales
  show "\<exists>p'. dedup_find p x = Some (rep p x, p') \<and> forest p' \<and> rep p' = rep p \<and> dom p' = dom p"
    if "forest p" "x \<in> dom p" for p :: "'a forest" and x
    using that by (rule dedup_find_spec)
  show "\<exists>p'. dedup_union p a b = Some p' \<and> forest p' \<and> dom p' = dom p \<and>
        (\<forall>x \<in> dom p. \<forall>y \<in> dom p. rep p' x = rep p' y \<longleftrightarrow>
           rep p x = rep p y \<or> (rep p x = rep p a \<and> rep p y = rep p b) \<or>
           (rep p x = rep p b \<and> rep p y = rep p a))"
    if "forest p" "a \<in> dom p" "b \<in> dom p" for p :: "'a forest" and a b
    by (rule dedup_union_ok [OF that])
qed

section \<open>The loops end\<close>

text \<open>C7. On a forest, every \<open>find\<close> of the program ends for every node: the path-halving loops of graph
  completion and the two loops of deduplication return the node's representative, whatever the
  paths they compress on the way, and leave every class as it was.\<close>

lemma finds_return:
  assumes "forest (p :: string forest)" "x \<in> dom p"
  shows "(\<exists>q. find_halving p x = Some (rep p x, q) \<and> forest q \<and> rep q = rep p \<and> dom q = dom p) \<and>
    (\<exists>q. alias_find p x = Some (rep p x, q) \<and> forest q \<and> rep q = rep p \<and> dom q = dom p) \<and>
    (\<exists>q. dedup_find p x = Some (rep p x, q) \<and> forest q \<and> rep q = rep p \<and> dom q = dom p)"
  using component_uf.find_ok [OF assms] alias_uf.find_ok [OF assms] dedup_uf.find_ok [OF assms] by blast

lemma finds_return_witness:
  "(\<exists>q. find_halving (\<lambda>x. if x \<in> {''a'', ''b'', ''c''} then Some x else None) ''b'' = Some (''b'', q)) \<and>
   (\<exists>q. dedup_find (\<lambda>x. if x \<in> {''a'', ''b'', ''c''} then Some x else None) ''b'' = Some (''b'', q))"
proof -
  let ?A = "{''a'', ''b'', ''c''}"
  let ?p = "\<lambda>x. if x \<in> ?A then Some x else None"
  have m: "''b'' \<in> ?A" by blast
  then have d: "''b'' \<in> dom ?p" unfolding dom_def by (rule_tac CollectI) (simp only: if_True, blast)
  show ?thesis using finds_return [OF forest_identity d] unfolding rep_identity [OF m] by blast
qed

end
