(* ===== verification/Dedup.thy ===== *)
theory Dedup
  imports UnionFind "HOL-Library.Product_Lexorder"
begin

text \<open>
  Cross-corpus rule deduplication (pipeline/detection/dedup.py): the store's rule rows are
  clustered by detection logic and by declared provenance, one canonical rule is elected
  per cluster, and it inherits the ATT\&CK techniques of the rules it stands for.
  The three tables are lists of rows, in the order the database returns them. A
  \<open>None\<close> result is an exception or a loop that does not return; \<open>dedupe_store_returns\<close>
  shows there is none.
\<close>

section \<open>The store\<close>

text \<open>A column of third-party YAML: a string, or something else the type guard skips.\<close>

datatype sql_value = Str string | Other

record rule_row =
  rid :: string
  corpus :: string
  dedup_key :: "string option"
  content_hash :: "string option"
  native_key :: string
  is_canonical :: bool

record rule_store =
  detection_rules :: "rule_row list"
  rule_related :: "(string \<times> sql_value \<times> sql_value) list"
  rule_techniques :: "(string \<times> string \<times> bool) list"

record dedup_summary =
  total :: nat
  clusters :: nat
  canonical :: nat
  duplicates :: nat
  provenance_edges :: nat
  merged_by_provenance :: int
  techniques_propagated :: nat

definition FOLDING_RELATIONS :: "string list" where
  "FOLDING_RELATIONS = [''derived'', ''renamed'']"

definition DEFAULT_PRIORITY :: int where
  "DEFAULT_PRIORITY = 1000"

section \<open>Provenance edges\<close>

text \<open>\<open>_load_related_edges\<close>: a related key resolves to every rule with that native key.\<close>

definition load_related_edges :: "rule_store \<Rightarrow> (string \<times> string) list" where
  "load_related_edges s =
    (let native_key_index = group_pairs (map (\<lambda>r. (native_key r, rid r)) (detection_rules s)) in
     concat (map (\<lambda>(rule_id, related_key, rel_type).
       (case (rel_type, related_key) of
          (Str ty, Str key) \<Rightarrow>
            if lower (strip ty) \<in> set FOLDING_RELATIONS
            then map (Pair rule_id) (filter (\<lambda>t. t \<noteq> rule_id) (dget native_key_index key []))
            else []
        | _ \<Rightarrow> [])) (rule_related s)))"

section \<open>Clusters\<close>

definition cluster_key :: "rule_row \<Rightarrow> string" where
  "cluster_key r = str_or (dedup_key r) (''raw:'' @ str_or (content_hash r) (rid r))"

definition initial_parent :: "rule_row list \<Rightarrow> string forest" where
  "initial_parent rows = map_of (map (\<lambda>r. (rid r, rid r)) rows)"

definition key_pairs :: "rule_row list \<Rightarrow> (string \<times> string) list" where
  "key_pairs rows =
     concat (map (\<lambda>(_, members). with_first members)
       (group_pairs (map (\<lambda>r. (cluster_key r, rid r)) rows)))"

text \<open>The provenance unions: \<open>if a in parent and b in parent: _union(parent, a, b)\<close>.\<close>

fun union_known :: "string forest \<Rightarrow> (string \<times> string) list \<Rightarrow> string forest option" where
  "union_known p [] = Some p"
| "union_known p ((a, b) # es) =
     (if p a \<noteq> None \<and> p b \<noteq> None
      then (case dedup_union p a b of None \<Rightarrow> None | Some p' \<Rightarrow> union_known p' es)
      else union_known p es)"

text \<open>The final clusters: \<open>final_clusters[_find(parent, rule_id)].append((rule_id, corpus))\<close>.\<close>

definition final_clusters :: "string forest \<Rightarrow> rule_row list \<Rightarrow>
    (string, (string \<times> string) list) dict option" where
  "final_clusters p rows =
     (case roots dedup_find p (map rid rows) of None \<Rightarrow> None
      | Some (rs, _) \<Rightarrow> Some (group_pairs (zip rs (map (\<lambda>r. (rid r, corpus r)) rows))))"

section \<open>Election and inheritance\<close>

definition election_key :: "(string \<rightharpoonup> int) \<Rightarrow> string \<times> string \<Rightarrow> int \<times> string \<times> string" where
  "election_key priority m =
     ((case priority (snd m) of None \<Rightarrow> DEFAULT_PRIORITY | Some n \<Rightarrow> n), snd m, fst m)"

definition elect :: "(string \<rightharpoonup> int) \<Rightarrow> (string, (string \<times> string) list) dict \<Rightarrow>
    string list \<times> string list" where
  "elect priority cs =
    (let ranked = map (\<lambda>(_, c). sort_key (election_key priority) c) cs in
     (map (\<lambda>c. fst (hd c)) ranked, concat (map (\<lambda>c. map fst (tl c)) ranked)))"

text \<open>The techniques the table gives a rule.\<close>

definition techs_of :: "(string \<times> string \<times> bool) list \<Rightarrow> string \<Rightarrow> string list" where
  "techs_of ts r = map (\<lambda>(_, t, _). t) (filter (\<lambda>(r', _, _). r' = r) ts)"

text \<open>The rows \<open>_propagate_techniques\<close> computes for one cluster.\<close>

definition inherited_rows :: "(string \<times> string \<times> bool) list \<Rightarrow> string list \<Rightarrow>
    (string \<times> string) list \<Rightarrow> (string \<times> string) list" where
  "inherited_rows ts canonical_ids members =
    (if length members < 2 then []
     else let techs = concat (map (\<lambda>(r, _). techs_of ts r) members) in
       (case List.find (\<lambda>(r, _). r \<in> set canonical_ids) members of
          None \<Rightarrow> []
        | Some (winner, _) \<Rightarrow>
            map (Pair winner)
              (sort (remdups (filter (\<lambda>t. t \<notin> set (techs_of ts winner)) techs)))))"

text \<open>\<open>INSERT ... ON CONFLICT DO NOTHING\<close> on the key (rule_id, technique_id).\<close>

definition insert_technique :: "string \<times> string \<Rightarrow> (string \<times> string \<times> bool) list \<Rightarrow>
    (string \<times> string \<times> bool) list" where
  "insert_technique rt ts =
     (if rt \<in> (\<lambda>(r, t, _). (r, t)) ` set ts then ts else ts @ [(fst rt, snd rt, True)])"

definition propagate_techniques :: "rule_store \<Rightarrow> (string, (string \<times> string) list) dict \<Rightarrow>
    rule_store \<times> nat" where
  "propagate_techniques s cs =
    (let ts = filter (\<lambda>(_, _, propagated). \<not> propagated) (rule_techniques s) in
     if ts = [] then (s\<lparr>rule_techniques := ts\<rparr>, 0)
     else let canonical_ids = map rid (filter is_canonical (detection_rules s));
              rows = concat (map (\<lambda>(_, members). inherited_rows ts canonical_ids members) cs)
          in (s\<lparr>rule_techniques := fold insert_technique rows ts\<rparr>, length rows))"

definition mark_canonical :: "string list \<Rightarrow> rule_store \<Rightarrow> rule_store" where
  "mark_canonical ids s =
     s\<lparr>detection_rules := map (\<lambda>r. r\<lparr>is_canonical := rid r \<in> set ids\<rparr>) (detection_rules s)\<rparr>"

section \<open>dedupe_store\<close>

definition dedupe_store :: "(string \<rightharpoonup> int) \<Rightarrow> rule_store \<Rightarrow> (rule_store \<times> dedup_summary) option" where
  "dedupe_store priority s =
    (let rows = detection_rules s in
     case unions dedup_union (initial_parent rows) (key_pairs rows) of None \<Rightarrow> None
     | Some p1 \<Rightarrow>
       (case roots dedup_find p1 (map rid rows) of None \<Rightarrow> None
        | Some (rs1, p1') \<Rightarrow>
          let edges = load_related_edges s in
          (case union_known p1' edges of None \<Rightarrow> None
           | Some p2 \<Rightarrow>
             (case final_clusters p2 rows of None \<Rightarrow> None
              | Some cs \<Rightarrow>
                let (winners, losers) = elect priority cs;
                    (s', promoted) = propagate_techniques (mark_canonical winners s) cs
                in Some (s',
                   \<lparr>total = length rows, clusters = length cs, canonical = length winners,
                    duplicates = length losers, provenance_edges = length edges,
                    merged_by_provenance = int (card (set rs1)) - int (length cs),
                    techniques_propagated = promoted\<rparr>)))))"

section \<open>The partition\<close>

text \<open>
  The specification of the clustering: two rules are the same logical rule when a chain of
  equal cluster keys and provenance edges joins them.
\<close>

definition known_edges :: "rule_store \<Rightarrow> (string \<times> string) set" where
  "known_edges s = {(a, b). (a, b) \<in> set (load_related_edges s) \<and>
     a \<in> rid ` set (detection_rules s) \<and> b \<in> rid ` set (detection_rules s)}"

definition same_key :: "rule_store \<Rightarrow> (string \<times> string) set" where
  "same_key s = {(rid a, rid b) | a b. a \<in> set (detection_rules s) \<and> b \<in> set (detection_rules s) \<and>
     cluster_key a = cluster_key b}"

definition same_rule :: "rule_store \<Rightarrow> (string \<times> string) set" where
  "same_rule s = (same_key s \<union> known_edges s \<union> (known_edges s)\<inverse>)\<^sup>*"

lemma initial_parent_eq:
  "initial_parent rows = (\<lambda>x. if x \<in> rid ` set rows then Some x else None)"
  by (induction rows) (auto simp: initial_parent_def fun_eq_iff)

lemma initial_forest: "forest (initial_parent rows)" "dom (initial_parent rows) = rid ` set rows"
  using forest_identity [of "rid ` set rows"] by (auto simp: initial_parent_eq split: if_splits)

lemma same_keyI: "a \<in> set (detection_rules s) \<Longrightarrow> b \<in> set (detection_rules s) \<Longrightarrow>
    cluster_key a = cluster_key b \<Longrightarrow> (rid a, rid b) \<in> same_key s"
  unfolding same_key_def by blast

lemma same_keyE:
  assumes "(x, y) \<in> same_key s"
  obtains a b where "x = rid a" "y = rid b" "a \<in> set (detection_rules s)"
    "b \<in> set (detection_rules s)" "cluster_key a = cluster_key b"
  using assms unfolding same_key_def by blast

lemma key_pairs_same_key: "set (key_pairs (detection_rules s)) \<subseteq> same_key s"
proof
  fix e assume "e \<in> set (key_pairs (detection_rules s))"
  then obtain k ms where k: "(k, ms) \<in> set (group_pairs (map (\<lambda>r. (cluster_key r, rid r)) (detection_rules s)))"
    and e: "e \<in> set (with_first ms)" by (auto simp: key_pairs_def)
  then have ms: "ms = map rid (filter (\<lambda>r. cluster_key r = k) (detection_rules s))"
    by (simp add: group_pairs_entry filter_map o_def)
  obtain a b where "e = (a, b)" by (cases e)
  with with_first_set [of a b ms] e ms show "e \<in> same_key s" by (auto intro: same_keyI)
qed

lemma same_key_equiv:
  assumes "distinct (map rid (detection_rules s))"
  shows "sym (same_key s)" "trans (same_key s)"
proof -
  have inj: "inj_on rid (set (detection_rules s))" using assms by (simp add: distinct_map)
  show "sym (same_key s)" by (auto intro!: symI same_keyI elim!: same_keyE)
  show "trans (same_key s)"
  proof (rule transI)
    fix x y z assume "(x, y) \<in> same_key s" "(y, z) \<in> same_key s"
    then obtain a b c d where "x = rid a" "y = rid b" "y = rid c" "z = rid d" "cluster_key a = cluster_key b"
      "cluster_key c = cluster_key d" and "{a, b, c, d} \<subseteq> set (detection_rules s)"
      by (elim same_keyE) auto
    moreover from this inj have "b = c" by (auto dest: inj_onD)
    ultimately show "(x, z) \<in> same_key s" by (auto intro: same_keyI)
  qed
qed

lemma key_partition:
  assumes d: "distinct (map rid (detection_rules s))"
    and xy: "x \<in> rid ` set (detection_rules s)" "y \<in> rid ` set (detection_rules s)"
  shows "(x, y) \<in> ({(u, v). u \<in> rid ` set (detection_rules s) \<and> v \<in> rid ` set (detection_rules s) \<and> u = v}
      \<union> set (key_pairs (detection_rules s)) \<union> (set (key_pairs (detection_rules s)))\<inverse>)\<^sup>* \<longleftrightarrow>
    (x, y) \<in> same_key s" (is "_ \<in> ?E\<^sup>* \<longleftrightarrow> _")
proof
  have refl: "(z, z) \<in> same_key s" if "z \<in> rid ` set (detection_rules s)" for z
    using that by (auto intro: same_keyI)
  have E: "?E \<subseteq> same_key s"
    using key_pairs_same_key [of s] refl same_key_equiv(1) [OF d] by (auto simp: sym_def)
  assume "(x, y) \<in> ?E\<^sup>*"
  then show "(x, y) \<in> same_key s"
    by (induction rule: rtrancl_induct) (use E refl xy(1) same_key_equiv(2) [OF d] in \<open>auto dest: transD\<close>)
next
  assume "(x, y) \<in> same_key s"
  then obtain a b where ab: "x = rid a" "y = rid b" "a \<in> set (detection_rules s)"
    "b \<in> set (detection_rules s)" "cluster_key a = cluster_key b" by (rule same_keyE)
  define ms where "ms = map rid (filter (\<lambda>r. cluster_key r = cluster_key a) (detection_rules s))"
  have "(cluster_key a, ms) \<in> set (group_pairs (map (\<lambda>r. (cluster_key r, rid r)) (detection_rules s)))"
    using ab(3) by (simp add: group_pairs_entry filter_map o_def ms_def image_image)
  then have "set (with_first ms) \<subseteq> set (key_pairs (detection_rules s))" by (force simp: key_pairs_def)
  moreover have "(x, y) \<in> (set (with_first ms) \<union> (set (with_first ms))\<inverse>)\<^sup>*"
    by (rule with_first_joins) (use ab in \<open>auto simp: ms_def\<close>)
  ultimately show "(x, y) \<in> ?E\<^sup>*"
    by (elim rtrancl_mono [THEN subsetD, rotated]) auto
qed

lemma union_known_eq:
  "forest p \<Longrightarrow> union_known p es = unions dedup_union p (filter (\<lambda>(a, b). a \<in> dom p \<and> b \<in> dom p) es)"
proof (induction es arbitrary: p)
  case (Cons e es)
  obtain a b where e: "e = (a, b)" by (cases e)
  show ?case
  proof (cases "a \<in> dom p \<and> b \<in> dom p")
    case True
    with dedup_uf.union_ok [OF Cons.prems, of a b] obtain p' where
      p': "dedup_union p a b = Some p'" "forest p'" "dom p' = dom p" by auto
    have "p a \<noteq> None" "p b \<noteq> None" using True by auto
    with p' Cons.IH [OF p'(2)] e True show ?thesis by simp
  next
    case False
    then have "\<not> (p a \<noteq> None \<and> p b \<noteq> None)" by (simp add: domIff)
    with Cons e False show ?thesis by auto
  qed
qed simp

text \<open>The clusters the pass computes are the classes of the specification.\<close>

definition store_clusters :: "(string \<Rightarrow> string) \<Rightarrow> rule_row list \<Rightarrow> (string, (string \<times> string) list) dict" where
  "store_clusters f rows = group_pairs (map (\<lambda>r. (f (rid r), (rid r, corpus r))) rows)"

lemma cluster_partition:
  assumes d: "distinct (map rid (detection_rules s))"
  shows "\<exists>p1 p1' p2. unions dedup_union (initial_parent (detection_rules s)) (key_pairs (detection_rules s)) = Some p1
    \<and> roots dedup_find p1 (map rid (detection_rules s)) = Some (map (rep p1) (map rid (detection_rules s)), p1')
    \<and> union_known p1' (load_related_edges s) = Some p2
    \<and> final_clusters p2 (detection_rules s) = Some (store_clusters (rep p2) (detection_rules s))
    \<and> (\<forall>x \<in> rid ` set (detection_rules s). \<forall>y \<in> rid ` set (detection_rules s).
        rep p2 x = rep p2 y \<longleftrightarrow> (x, y) \<in> same_rule s)"
proof -
  define rows where "rows = detection_rules s"
  define I where "I = rid ` set rows"
  define p0 where "p0 = initial_parent rows"
  have p0: "forest p0" "dom p0 = I" by (simp_all add: p0_def I_def initial_forest)
  have rep0: "rep p0 x = x" if "x \<in> I" for x
    using rep_identity [OF that] by (simp add: p0_def initial_parent_eq I_def)
  have keys: "fst ` set (key_pairs rows) \<union> snd ` set (key_pairs rows) \<subseteq> dom p0"
    using key_pairs_same_key [of s] p0(2) by (auto simp: rows_def I_def same_key_def)
  from dedup_uf.unions_ok [OF p0(1) keys] obtain p1 where p1: "unions dedup_union p0 (key_pairs rows) = Some p1"
    "forest p1" "dom p1 = I" and part1: "\<And>x y. x \<in> I \<Longrightarrow> y \<in> I \<Longrightarrow> rep p1 x = rep p1 y \<longleftrightarrow>
      (x, y) \<in> ({(u, v). u \<in> I \<and> v \<in> I \<and> rep p0 u = rep p0 v} \<union> set (key_pairs rows) \<union> (set (key_pairs rows))\<inverse>)\<^sup>*"
    using p0 by auto
  have "{(u, v). u \<in> I \<and> v \<in> I \<and> rep p0 u = rep p0 v} = {(u, v). u \<in> I \<and> v \<in> I \<and> u = v}"
    using rep0 by auto
  with part1 have part1': "x \<in> I \<Longrightarrow> y \<in> I \<Longrightarrow> rep p1 x = rep p1 y \<longleftrightarrow> (x, y) \<in> same_key s" for x y
    using key_partition [OF d] by (simp add: I_def rows_def)
  from dedup_uf.roots_ok [OF p1(2), of "map rid rows"] p1(3) obtain p1' where
    p1': "roots dedup_find p1 (map rid rows) = Some (map (rep p1) (map rid rows), p1')" "forest p1'"
      "rep p1' = rep p1" "dom p1' = I" by (auto simp: I_def)
  define es where "es = filter (\<lambda>(a, b). a \<in> I \<and> b \<in> I) (load_related_edges s)"
  have es: "set es = known_edges s" by (auto simp: es_def known_edges_def I_def rows_def)
  have "fst ` set es \<union> snd ` set es \<subseteq> dom p1'" unfolding p1'(4) by (auto simp: es_def)
  from dedup_uf.unions_ok [OF p1'(2) this] obtain p2 where p2: "unions dedup_union p1' es = Some p2"
    "forest p2" "dom p2 = I" and part2: "\<And>x y. x \<in> I \<Longrightarrow> y \<in> I \<Longrightarrow> rep p2 x = rep p2 y \<longleftrightarrow>
      (x, y) \<in> ({(u, v). u \<in> I \<and> v \<in> I \<and> rep p1' u = rep p1' v} \<union> set es \<union> (set es)\<inverse>)\<^sup>*"
    using p1' by auto
  have "same_key s \<subseteq> I \<times> I" by (auto simp: I_def rows_def elim: same_keyE)
  then have "{(u, v). u \<in> I \<and> v \<in> I \<and> rep p1' u = rep p1' v} = same_key s"
    using part1' p1'(3) by auto
  with part2 es have part: "x \<in> I \<Longrightarrow> y \<in> I \<Longrightarrow> rep p2 x = rep p2 y \<longleftrightarrow> (x, y) \<in> same_rule s" for x y
    by (simp add: same_rule_def)
  from dedup_uf.roots_ok [OF p2(2), of "map rid rows"] p2(3)
  have "final_clusters p2 rows = Some (store_clusters (rep p2) rows)"
    by (auto simp: store_clusters_def final_clusters_def I_def zip_map_map zip_same_conv_map o_def)
  moreover have "union_known p1' (load_related_edges s) = Some p2"
    using union_known_eq [OF p1'(2)] p1'(4) p2(1) by (simp add: es_def)
  ultimately show ?thesis using p1(1) p1'(1) part by (auto simp: p0_def I_def rows_def)
qed

section \<open>The result of the pass\<close>

lemma hd_sort_key:
  assumes "c \<noteq> []"
  shows "hd (sort_key f c) \<in> set c" "x \<in> set c \<Longrightarrow> f (hd (sort_key f c)) \<le> f x"
proof -
  obtain y ys where y: "sort_key f c = y # ys"
    using assms by (metis length_0_conv length_sort list.exhaust)
  then have "set c = set (y # ys)" by (metis set_sort)
  moreover have "sorted (map f (y # ys))" using y by (metis sorted_sort_key)
  ultimately show "hd (sort_key f c) \<in> set c" "x \<in> set c \<Longrightarrow> f (hd (sort_key f c)) \<le> f x"
    using y by auto
qed

definition row_key :: "(string \<rightharpoonup> int) \<Rightarrow> rule_row \<Rightarrow> int \<times> string \<times> string" where
  "row_key priority r = election_key priority (rid r, corpus r)"

lemma election_key_inj: "election_key pr m = election_key pr m' \<Longrightarrow> m = m'"
  by (cases m; cases m') (simp add: election_key_def)

lemma elect_winners:
  "set (fst (elect pr cs)) = (\<lambda>e. fst (hd (sort_key (election_key pr) (snd e)))) ` set cs"
  by (simp add: elect_def Let_def split_beta image_image)

lemma elect_winner_iff:
  assumes d: "distinct (map rid rows)" and r: "r \<in> set rows"
  shows "rid r \<in> set (fst (elect pr (group_pairs (map (\<lambda>r. (f (rid r), (rid r, corpus r))) rows)))) \<longleftrightarrow>
    (\<forall>x \<in> set rows. f (rid x) = f (rid r) \<longrightarrow> row_key pr r \<le> row_key pr x)"
    (is "rid r \<in> set (fst (elect pr ?cs)) \<longleftrightarrow> _")
proof -
  have inj: "inj_on rid (set rows)" using d by (simp add: distinct_map)
  define c where "c k = map (\<lambda>x. (rid x, corpus x)) (filter (\<lambda>x. f (rid x) = k) rows)" for k
  have cs: "(k, g) \<in> set ?cs \<longleftrightarrow> k \<in> (f \<circ> rid) ` set rows \<and> g = c k" for k g
    by (auto simp: group_pairs_entry filter_map o_def c_def image_image)
  have win: "rid r \<in> set (fst (elect pr ?cs)) \<longleftrightarrow>
      (\<exists>y \<in> set rows. fst (hd (sort_key (election_key pr) (c (f (rid y))))) = rid r)"
  proof -
    have "set ?cs = (\<lambda>y. (f (rid y), c (f (rid y)))) ` set rows" by (auto simp: cs)
    then have "set (fst (elect pr ?cs)) =
        (\<lambda>y. fst (hd (sort_key (election_key pr) (c (f (rid y)))))) ` set rows"
      by (simp add: elect_winners image_image)
    then show ?thesis by (auto simp: image_iff eq_commute)
  qed
  have hd: "\<exists>z \<in> set rows. f (rid z) = f (rid y) \<and>
      hd (sort_key (election_key pr) (c (f (rid y)))) = (rid z, corpus z) \<and>
      (\<forall>x \<in> set rows. f (rid x) = f (rid y) \<longrightarrow> row_key pr z \<le> row_key pr x)" if "y \<in> set rows" for y
  proof -
    have ne: "c (f (rid y)) \<noteq> []" using that by (auto simp: c_def filter_empty_conv)
    obtain z where z: "z \<in> set rows" "f (rid z) = f (rid y)"
      "hd (sort_key (election_key pr) (c (f (rid y)))) = (rid z, corpus z)"
      using hd_sort_key(1) [OF ne, of "election_key pr"] by (auto simp: c_def)
    have "row_key pr z \<le> row_key pr x" if "x \<in> set rows" "f (rid x) = f (rid y)" for x
      using hd_sort_key(2) [OF ne, of "(rid x, corpus x)" "election_key pr"] that z(3)
      by (auto simp: c_def row_key_def)
    with z show ?thesis by blast
  qed
  show ?thesis
  proof
    assume "rid r \<in> set (fst (elect pr ?cs))"
    then obtain y where y: "y \<in> set rows" "fst (hd (sort_key (election_key pr) (c (f (rid y))))) = rid r"
      using win by blast
    from hd [OF y(1)] obtain z where z: "z \<in> set rows" "f (rid z) = f (rid y)"
      "hd (sort_key (election_key pr) (c (f (rid y)))) = (rid z, corpus z)"
      "\<forall>x \<in> set rows. f (rid x) = f (rid y) \<longrightarrow> row_key pr z \<le> row_key pr x" by blast
    with y(2) have "z = r" using inj r by (auto dest: inj_onD)
    with z show "\<forall>x \<in> set rows. f (rid x) = f (rid r) \<longrightarrow> row_key pr r \<le> row_key pr x" by simp
  next
    assume least: "\<forall>x \<in> set rows. f (rid x) = f (rid r) \<longrightarrow> row_key pr r \<le> row_key pr x"
    from hd [OF r] obtain z where z: "z \<in> set rows" "f (rid z) = f (rid r)"
      "hd (sort_key (election_key pr) (c (f (rid r)))) = (rid z, corpus z)"
      "row_key pr z \<le> row_key pr r" using r by blast
    with least have "row_key pr z = row_key pr r" by (auto intro: antisym)
    then have "rid z = rid r" using election_key_inj by (force simp: row_key_def)
    with z have "fst (hd (sort_key (election_key pr) (c (f (rid r))))) = rid r" by simp
    with r show "rid r \<in> set (fst (elect pr ?cs))" using win by blast
  qed
qed

lemma elect_lengths:
  "length (fst (elect pr cs)) = length cs"
  "(\<And>k c. (k, c) \<in> set cs \<Longrightarrow> c \<noteq> []) \<Longrightarrow>
    length (fst (elect pr cs)) + length (snd (elect pr cs)) = sum_list (map (length \<circ> snd) cs)"
proof -
  show "length (fst (elect pr cs)) = length cs" by (simp add: elect_def)
  show "length (fst (elect pr cs)) + length (snd (elect pr cs)) = sum_list (map (length \<circ> snd) cs)"
    if "\<And>k c. (k, c) \<in> set cs \<Longrightarrow> c \<noteq> []"
    using that
  proof (induction cs)
    case (Cons e cs)
    have "snd e \<noteq> []" using Cons.prems [of "fst e" "snd e"] by simp
    then have "Suc (length (tl (sort_key (election_key pr) (snd e)))) = length (snd e)"
      by (cases "sort_key (election_key pr) (snd e)") (auto dest: arg_cong [of _ _ length])
    with Cons show ?case by (force simp: elect_def Let_def split_beta)
  qed (simp add: elect_def)
qed

text \<open>The pass, with its intermediate values named.\<close>

lemma dedupe_store_run:
  assumes d: "distinct (map rid (detection_rules s))"
  obtains f n cs ws where
    "\<And>x y. x \<in> rid ` set (detection_rules s) \<Longrightarrow> y \<in> rid ` set (detection_rules s) \<Longrightarrow>
        f x = f y \<longleftrightarrow> (x, y) \<in> same_rule s"
    "cs = store_clusters f (detection_rules s)" "ws = fst (elect priority cs)"
    "dedupe_store priority s = Some (fst (propagate_techniques (mark_canonical ws s) cs),
         \<lparr>total = length (detection_rules s), clusters = length cs, canonical = length ws,
          duplicates = length (snd (elect priority cs)), provenance_edges = length (load_related_edges s),
          merged_by_provenance = n - int (length cs),
          techniques_propagated = snd (propagate_techniques (mark_canonical ws s) cs)\<rparr>)"
proof -
  from cluster_partition [OF d] obtain p1 p1' p2 where
    r: "unions dedup_union (initial_parent (detection_rules s)) (key_pairs (detection_rules s)) = Some p1"
     "roots dedup_find p1 (map rid (detection_rules s)) = Some (map (rep p1) (map rid (detection_rules s)), p1')"
     "union_known p1' (load_related_edges s) = Some p2"
     "final_clusters p2 (detection_rules s) = Some (store_clusters (rep p2) (detection_rules s))"
   and part: "\<forall>x \<in> rid ` set (detection_rules s). \<forall>y \<in> rid ` set (detection_rules s).
        rep p2 x = rep p2 y \<longleftrightarrow> (x, y) \<in> same_rule s"
    by (elim exE conjE) (rule that)
  define n where "n = int (card (set (map (rep p1) (map rid (detection_rules s)))))"
  show ?thesis
  proof (rule that [of "rep p2" _ _ n, OF _ refl refl])
    show "rep p2 x = rep p2 y \<longleftrightarrow> (x, y) \<in> same_rule s"
      if "x \<in> rid ` set (detection_rules s)" "y \<in> rid ` set (detection_rules s)" for x y
      using part that by blast
  qed (simp only: dedupe_store_def Let_def r option.case prod.case n_def split_beta fst_conv snd_conv)
qed

lemma propagate_rules [simp]: "detection_rules (fst (propagate_techniques s cs)) = detection_rules s"
  by (simp add: propagate_techniques_def Let_def)

lemma mark_rules: "detection_rules (mark_canonical ids s) =
    map (\<lambda>r. r\<lparr>is_canonical := rid r \<in> set ids\<rparr>) (detection_rules s)"
  by (simp add: mark_canonical_def)

lemma row_key_mark [simp]: "row_key pr (r\<lparr>is_canonical := b\<rparr>) = row_key pr r"
  by (simp add: row_key_def)

lemma insert_techniques_set:
  "(r, t, b) \<in> set (fold insert_technique rows ts) \<longleftrightarrow> (r, t, b) \<in> set ts \<or>
     (b \<and> (r, t) \<in> set rows \<and> (r, t, True) \<notin> set ts \<and> (r, t, False) \<notin> set ts)"
proof (induction rows arbitrary: ts)
  case (Cons rt rows)
  obtain r' t' where rt: "rt = (r', t')" by (cases rt)
  have present: "(r', t') \<in> (\<lambda>(r, t, _). (r, t)) ` set ts \<longleftrightarrow> (r', t', True) \<in> set ts \<or> (r', t', False) \<in> set ts"
  proof -
    have "(r', t') \<in> (\<lambda>(r, t, _). (r, t)) ` set ts \<longleftrightarrow> (\<exists>b. (r', t', b) \<in> set ts)" by force
    then show ?thesis by (simp add: ex_bool_eq)
  qed
  have one: "(r, t, b) \<in> set (insert_technique (r', t') ts) \<longleftrightarrow> (r, t, b) \<in> set ts \<or>
      (b \<and> r = r' \<and> t = t' \<and> (r', t', True) \<notin> set ts \<and> (r', t', False) \<notin> set ts)" for r t b
    unfolding insert_technique_def present by auto
  show ?case unfolding rt fold_simps Cons.IH one by auto
qed simp

lemma insert_techniques_own:
  "filter (\<lambda>(_, _, propagated). \<not> propagated) (fold insert_technique rows ts) =
   filter (\<lambda>(_, _, propagated). \<not> propagated) ts"
  by (induction rows arbitrary: ts) (simp_all add: insert_technique_def)

lemma techs_of_set: "t \<in> set (techs_of ts r) \<longleftrightarrow> (\<exists>b. (r, t, b) \<in> set ts)"
  by (force simp: techs_of_def)

text \<open>A cluster with one canonical rule hands that rule every technique it lacks.\<close>

lemma cluster_inherits:
  assumes d: "distinct (map rid rows)" and w: "w \<in> set rows" "rid w \<in> set ids"
    and only: "\<And>x. x \<in> set rows \<Longrightarrow> rid x \<in> set ids \<Longrightarrow> f (rid x) = f (rid w) \<Longrightarrow> rid x = rid w"
  defines "c \<equiv> map (\<lambda>x. (rid x, corpus x)) (filter (\<lambda>x. f (rid x) = f (rid w)) rows)"
  shows "set (inherited_rows ts ids c) = {(rid w, t) | t. t \<notin> set (techs_of ts (rid w)) \<and>
    (\<exists>r \<in> set rows. f (rid r) = f (rid w) \<and> t \<in> set (techs_of ts (rid r)))}"
proof -
  have inj: "inj_on rid (set rows)" using d by (simp add: distinct_map)
  have wc: "(rid w, corpus w) \<in> set c" using w by (auto simp: c_def)
  have found: "\<exists>k. List.find (\<lambda>(r, _). r \<in> set ids) c = Some (rid w, k)"
  proof (cases "List.find (\<lambda>(r, _). r \<in> set ids) c")
    case None
    with wc w(2) show ?thesis by (auto simp: find_None_iff)
  next
    case (Some m)
    then obtain i where "i < length c" "m = c ! i" "fst m \<in> set ids"
      by (auto simp: find_Some_iff split_beta)
    then have "m \<in> set c" "fst m \<in> set ids" by auto
    with only have "fst m = rid w" by (auto simp: c_def)
    with Some show ?thesis by (cases m) auto
  qed
  show ?thesis
  proof (cases "length c < 2")
    case True
    with wc have "c = [(rid w, corpus w)]" by (cases c; cases "tl c") auto
    then have "x = w" if "x \<in> set rows" "f (rid x) = f (rid w)" for x
    proof -
      from that have "(rid x, corpus x) \<in> set c" by (simp add: c_def)
      with \<open>c = _\<close> have "rid x = rid w" by simp
      with that(1) w(1) inj show ?thesis by (auto dest: inj_onD)
    qed
    with True w show ?thesis by (auto simp: inherited_rows_def)
  next
    case False
    with found show ?thesis
      by (force simp: inherited_rows_def c_def)
  qed
qed

definition own_technique :: "rule_store \<Rightarrow> string \<Rightarrow> string \<Rightarrow> bool" where
  "own_technique s r t \<longleftrightarrow> (r, t, False) \<in> set (rule_techniques s)"

text \<open>C1. Election. Rebuilding the store always returns, keeps every rule row, and marks a rule
  canonical exactly when its (priority, corpus, id) is the least among all rules its dedup key
  or a chain of derived/renamed edges makes the same logical rule.\<close>

lemma dedupe_elects_least:
  assumes "distinct (map rid (detection_rules s))"
  shows "\<exists>s' sm. dedupe_store priority s = Some (s', sm) \<and>
    map rid (detection_rules s') = map rid (detection_rules s) \<and>
    (\<forall>w \<in> set (detection_rules s'). is_canonical w \<longleftrightarrow>
      (\<forall>x \<in> set (detection_rules s'). (rid x, rid w) \<in> same_rule s \<longrightarrow>
        row_key priority w \<le> row_key priority x))"
proof (rule dedupe_store_run [OF assms, of priority])
  fix f n cs ws
  assume part: "\<And>x y. x \<in> rid ` set (detection_rules s) \<Longrightarrow> y \<in> rid ` set (detection_rules s) \<Longrightarrow>
        f x = f y \<longleftrightarrow> (x, y) \<in> same_rule s"
    and cs: "cs = store_clusters f (detection_rules s)" "ws = fst (elect priority cs)"
    and run: "dedupe_store priority s = Some (fst (propagate_techniques (mark_canonical ws s) cs),
         \<lparr>total = length (detection_rules s), clusters = length cs, canonical = length ws,
          duplicates = length (snd (elect priority cs)), provenance_edges = length (load_related_edges s),
          merged_by_provenance = n - int (length cs),
          techniques_propagated = snd (propagate_techniques (mark_canonical ws s) cs)\<rparr>)"
  have "rid r \<in> set ws \<longleftrightarrow> (\<forall>x \<in> set (detection_rules s). (rid x, rid r) \<in> same_rule s \<longrightarrow>
      row_key priority r \<le> row_key priority x)" if "r \<in> set (detection_rules s)" for r
    using elect_winner_iff [OF assms that, of priority f] part that
    by (simp add: cs store_clusters_def)
  with run show ?thesis by (simp add: o_def mark_rules)
qed

lemma propagate_rows:
  assumes d: "distinct (map rid rows)" and cs: "cs = store_clusters f rows"
    and ids: "\<And>x y. x \<in> set rows \<Longrightarrow> y \<in> set rows \<Longrightarrow> rid x \<in> set ids \<Longrightarrow> rid y \<in> set ids \<Longrightarrow>
      f (rid x) = f (rid y) \<Longrightarrow> rid x = rid y"
    and every: "\<And>x. x \<in> set rows \<Longrightarrow> \<exists>w \<in> set rows. rid w \<in> set ids \<and> f (rid w) = f (rid x)"
  shows "set (concat (map (\<lambda>(_, members). inherited_rows ts ids members) cs)) =
    {(rid w, t) | w t. w \<in> set rows \<and> rid w \<in> set ids \<and> t \<notin> set (techs_of ts (rid w)) \<and>
      (\<exists>r \<in> set rows. f (rid r) = f (rid w) \<and> t \<in> set (techs_of ts (rid r)))}" (is "?L = ?R")
proof -
  define c where "c k = map (\<lambda>x. (rid x, corpus x)) (filter (\<lambda>x. f (rid x) = k) rows)" for k
  have entries: "set cs = (\<lambda>x. (f (rid x), c (f (rid x)))) ` set rows"
    by (auto simp: cs store_clusters_def group_pairs_entry filter_map o_def c_def image_image)
  have one: "set (inherited_rows ts ids (c (f (rid w)))) = {(rid w, t) | t. t \<notin> set (techs_of ts (rid w)) \<and>
    (\<exists>r \<in> set rows. f (rid r) = f (rid w) \<and> t \<in> set (techs_of ts (rid r)))}"
    if "w \<in> set rows" "rid w \<in> set ids" for w
    unfolding c_def by (rule cluster_inherits [OF d that]) (use ids that in blast)
  have all: "?L = (\<Union>x \<in> set rows. set (inherited_rows ts ids (c (f (rid x)))))"
    by (simp add: entries)
  show ?thesis
  proof (rule set_eqI)
    fix e
    show "e \<in> ?L \<longleftrightarrow> e \<in> ?R"
    proof
      assume "e \<in> ?L"
      then obtain x where x: "x \<in> set rows" "e \<in> set (inherited_rows ts ids (c (f (rid x))))"
        unfolding all by blast
      from every [OF x(1)] obtain w where "w \<in> set rows" "rid w \<in> set ids" "f (rid w) = f (rid x)" by blast
      with one [of w] x(2) obtain t r where "e = (rid w, t)" "t \<notin> set (techs_of ts (rid w))"
        "r \<in> set rows" "f (rid r) = f (rid w)" "t \<in> set (techs_of ts (rid r))" by auto
      with \<open>w \<in> set rows\<close> \<open>rid w \<in> set ids\<close> show "e \<in> ?R" by blast
    next
      assume "e \<in> ?R"
      then show "e \<in> ?L" unfolding all using one by blast
    qed
  qed
qed

lemma winner_only:
  assumes "\<And>r. r \<in> set rows \<Longrightarrow> rid r \<in> set ws \<longleftrightarrow>
      (\<forall>x \<in> set rows. f (rid x) = f (rid r) \<longrightarrow> row_key pr r \<le> row_key pr x)"
  shows "x \<in> set rows \<Longrightarrow> y \<in> set rows \<Longrightarrow> rid x \<in> set ws \<Longrightarrow> rid y \<in> set ws \<Longrightarrow>
      f (rid x) = f (rid y) \<Longrightarrow> rid x = rid y"
    and "x \<in> set rows \<Longrightarrow> \<exists>w \<in> set rows. rid w \<in> set ws \<and> f (rid w) = f (rid x)"
proof -
  assume a: "x \<in> set rows" "y \<in> set rows" "rid x \<in> set ws" "rid y \<in> set ws" "f (rid x) = f (rid y)"
  then have "row_key pr x = row_key pr y" using assms by (metis antisym)
  then show "rid x = rid y" using election_key_inj by (force simp: row_key_def)
next
  assume x: "x \<in> set rows"
  define A where "A = {y \<in> set rows. f (rid y) = f (rid x)}"
  have A: "finite A" "A \<noteq> {}" using x by (auto simp: A_def)
  obtain w where w: "w \<in> A" "\<forall>y \<in> A. row_key pr w \<le> row_key pr y"
    using A by (metis (no_types, lifting) arg_min_if_finite(1,2) linorder_not_less)
  then have "rid w \<in> set ws" using assms [of w] by (auto simp: A_def)
  with w show "\<exists>w \<in> set rows. rid w \<in> set ws \<and> f (rid w) = f (rid x)" by (auto simp: A_def)
qed

lemma winner_iff_part:
  assumes "distinct (map rid (detection_rules s))" "cs = store_clusters f (detection_rules s)"
    "ws = fst (elect priority cs)" "r \<in> set (detection_rules s)"
  shows "rid r \<in> set ws \<longleftrightarrow> (\<forall>x \<in> set (detection_rules s). f (rid x) = f (rid r) \<longrightarrow>
      row_key priority r \<le> row_key priority x)"
  using elect_winner_iff [OF assms(1,4), of priority f] assms(2,3) by (simp add: store_clusters_def)

text \<open>C2. Coverage. A technique a rule carries of its own is carried, after the pass, by the
  canonical rule of its cluster; conversely every inherited row belongs to a canonical rule and
  comes from a rule of its cluster; and no rule's own techniques are touched.\<close>

lemma dedupe_keeps_coverage:
  assumes d: "distinct (map rid (detection_rules s))"
  shows "\<exists>s' sm. dedupe_store priority s = Some (s', sm) \<and>
    (\<forall>r t w. r \<in> set (detection_rules s') \<longrightarrow> w \<in> set (detection_rules s') \<longrightarrow> is_canonical w \<longrightarrow>
      (rid r, rid w) \<in> same_rule s \<longrightarrow> own_technique s (rid r) t \<longrightarrow>
      (\<exists>b. (rid w, t, b) \<in> set (rule_techniques s'))) \<and>
    (\<forall>x t. (x, t, True) \<in> set (rule_techniques s') \<longrightarrow>
      (\<exists>w \<in> set (detection_rules s'). rid w = x \<and> is_canonical w \<and>
        (\<exists>r \<in> set (detection_rules s'). (rid r, x) \<in> same_rule s \<and> own_technique s (rid r) t))) \<and>
    (\<forall>r t. own_technique s' r t \<longleftrightarrow> own_technique s r t)"
proof (rule dedupe_store_run [OF d, of priority])
  fix f n cs ws
  let ?rows = "detection_rules s"
  assume part: "\<And>x y. x \<in> rid ` set ?rows \<Longrightarrow> y \<in> rid ` set ?rows \<Longrightarrow> f x = f y \<longleftrightarrow> (x, y) \<in> same_rule s"
    and cs: "cs = store_clusters f ?rows" and ws: "ws = fst (elect priority cs)"
    and run': "dedupe_store priority s = Some (fst (propagate_techniques (mark_canonical ws s) cs),
         \<lparr>total = length ?rows, clusters = length cs, canonical = length ws,
          duplicates = length (snd (elect priority cs)), provenance_edges = length (load_related_edges s),
          merged_by_provenance = n - int (length cs),
          techniques_propagated = snd (propagate_techniques (mark_canonical ws s) cs)\<rparr>)"
  note win = winner_iff_part [OF d cs ws]
  note only = winner_only(1) [where f = f, OF win] and every = winner_only(2) [where f = f, OF win]
  define s' where s': "s' = fst (propagate_techniques (mark_canonical ws s) cs)"
  define ts where "ts = filter (\<lambda>(_, _, propagated). \<not> propagated) (rule_techniques s)"
  define ids where "ids = map rid (filter is_canonical (detection_rules (mark_canonical ws s)))"
  have ids: "rid r \<in> set ids \<longleftrightarrow> rid r \<in> set ws" if "r \<in> set ?rows" for r
    using that by (force simp: ids_def mark_rules image_iff)
  have rules: "detection_rules s' = map (\<lambda>r. r\<lparr>is_canonical := rid r \<in> set ws\<rparr>) ?rows"
    by (simp add: s' mark_rules)
  have own: "own_technique s r t \<longleftrightarrow> (\<exists>b. (r, t, b) \<in> set ts)" for r t
    by (auto simp: own_technique_def ts_def)
  define new where "new = concat (map (\<lambda>(_, members). inherited_rows ts ids members) cs)"
  have new: "set new = {(rid w, t) | w t. w \<in> set ?rows \<and> rid w \<in> set ids \<and> t \<notin> set (techs_of ts (rid w)) \<and>
      (\<exists>r \<in> set ?rows. f (rid r) = f (rid w) \<and> t \<in> set (techs_of ts (rid r)))}"
    unfolding new_def by (rule propagate_rows [OF d cs]) (use only every ids in blast)+
  have nil: "new = []" if "ts = []" using new that by (simp add: techs_of_def)
  have "rule_techniques (mark_canonical ws s) = rule_techniques s" by (simp add: mark_canonical_def)
  then have tech: "rule_techniques s' = fold insert_technique new ts"
    using nil by (simp add: s' propagate_techniques_def Let_def ts_def [symmetric] ids_def [symmetric]
        new_def [symmetric])
  note mem = insert_techniques_set [of _ _ _ new ts, folded tech]
  obtain sm where sm: "dedupe_store priority s = Some (s', sm)" using run' s' by simp
  show ?thesis
  proof (rule exI [of _ s'], rule exI [of _ sm], intro conjI allI impI)
    show "dedupe_store priority s = Some (s', sm)" by (rule sm)
  next
    fix r t w
    assume "r \<in> set (detection_rules s')" "w \<in> set (detection_rules s')" "is_canonical w"
      "(rid r, rid w) \<in> same_rule s" and o: "own_technique s (rid r) t"
    then obtain r0 w0 where "r0 \<in> set ?rows" "w0 \<in> set ?rows" "rid r = rid r0" "rid w = rid w0"
      "rid w0 \<in> set ids" "f (rid r0) = f (rid w0)"
      using part ids unfolding rules by auto
    moreover from this o have "t \<in> set (techs_of ts (rid r0))" by (simp add: own techs_of_set)
    ultimately have "(rid w, t) \<in> set new \<or> t \<in> set (techs_of ts (rid w))" unfolding new by force
    then show "\<exists>b. (rid w, t, b) \<in> set (rule_techniques s')" by (auto simp: mem techs_of_set)
  next
    fix x t
    assume "(x, t, True) \<in> set (rule_techniques s')"
    then have "(x, t) \<in> set new" by (auto simp: mem ts_def)
    then obtain w r where w: "w \<in> set ?rows" "x = rid w" "rid w \<in> set ids" "r \<in> set ?rows"
      "f (rid r) = f (rid w)" "t \<in> set (techs_of ts (rid r))" unfolding new by auto
    then have "(rid r, x) \<in> same_rule s" "own_technique s (rid r) t" "rid w \<in> set ws"
      using part ids by (auto simp: own techs_of_set)
    with w show "\<exists>w \<in> set (detection_rules s'). rid w = x \<and> is_canonical w \<and>
        (\<exists>r \<in> set (detection_rules s'). (rid r, x) \<in> same_rule s \<and> own_technique s (rid r) t)"
      unfolding rules by auto
  next
    fix r t
    show "own_technique s' r t \<longleftrightarrow> own_technique s r t"
      unfolding own_technique_def [of s'] mem by (auto simp: own_technique_def ts_def)
  qed
qed

text \<open>Summary. The clusters partition the store: one canonical rule per cluster, every other
  rule counted as a duplicate, and the two together are all the rows.\<close>

lemma dedupe_counts:
  assumes d: "distinct (map rid (detection_rules s))"
  shows "\<exists>s' sm. dedupe_store priority s = Some (s', sm) \<and> total sm = length (detection_rules s) \<and>
    canonical sm = clusters sm \<and> canonical sm + duplicates sm = total sm \<and>
    canonical sm = card ((\<lambda>r. same_rule s `` {rid r} \<inter> rid ` set (detection_rules s)) ` set (detection_rules s))"
proof (rule dedupe_store_run [OF d, of priority])
  fix f n cs ws
  let ?rows = "detection_rules s"
  assume part: "\<And>x y. x \<in> rid ` set ?rows \<Longrightarrow> y \<in> rid ` set ?rows \<Longrightarrow> f x = f y \<longleftrightarrow> (x, y) \<in> same_rule s"
    and cs: "cs = store_clusters f ?rows" and ws: "ws = fst (elect priority cs)"
    and run: "dedupe_store priority s = Some (fst (propagate_techniques (mark_canonical ws s) cs),
         \<lparr>total = length ?rows, clusters = length cs, canonical = length ws,
          duplicates = length (snd (elect priority cs)), provenance_edges = length (load_related_edges s),
          merged_by_provenance = n - int (length cs),
          techniques_propagated = snd (propagate_techniques (mark_canonical ws s) cs)\<rparr>)"
  have ne: "c \<noteq> []" if "(k, c) \<in> set cs" for k c
    using that by (auto simp: cs store_clusters_def group_pairs_entry filter_empty_conv)
  have sum: "length ws + length (snd (elect priority cs)) = length ?rows"
    using elect_lengths(2) [where cs = cs and pr = priority, OF ne]
    by (simp add: ws cs store_clusters_def group_pairs_length)
  have "length cs = card (fst ` set cs)"
    using distinct_card [of "map fst cs"] by (simp add: cs store_clusters_def)
  also have "fst ` set cs = f ` rid ` set ?rows"
    by (simp add: cs store_clusters_def keys_group_pairs image_image)
  also have "card \<dots> = card ((\<lambda>x. same_rule s `` {x} \<inter> rid ` set ?rows) ` rid ` set ?rows)"
  proof (rule bij_betw_same_card)
    have cls: "same_rule s `` {x} \<inter> rid ` set ?rows = {y \<in> rid ` set ?rows. f x = f y}"
      if "x \<in> rid ` set ?rows" for x
      using part that by auto
    show "bij_betw (\<lambda>k. {y \<in> rid ` set ?rows. k = f y}) (f ` rid ` set ?rows)
        ((\<lambda>x. same_rule s `` {x} \<inter> rid ` set ?rows) ` rid ` set ?rows)"
      by (rule bij_betw_imageI)
        (auto simp: inj_on_def image_image cls intro!: image_cong)
  qed
  finally show ?thesis using run sum elect_lengths(1) [where cs = cs and pr = priority]
    by (simp add: ws image_image)
qed

section \<open>Idempotence\<close>

text \<open>The pass reads only what it does not write: ids, corpora, keys and own techniques.\<close>

lemma load_related_edges_mark: "load_related_edges (s\<lparr>detection_rules :=
    map (\<lambda>r. r\<lparr>is_canonical := c r\<rparr>) (detection_rules s), rule_techniques := ts\<rparr>) = load_related_edges s"
  by (simp add: load_related_edges_def o_def)

lemma cluster_inputs_mark:
  "map rid (map (\<lambda>r. r\<lparr>is_canonical := c r\<rparr>) rows) = map rid rows"
  "initial_parent (map (\<lambda>r. r\<lparr>is_canonical := c r\<rparr>) rows) = initial_parent rows"
  "key_pairs (map (\<lambda>r. r\<lparr>is_canonical := c r\<rparr>) rows) = key_pairs rows"
  "final_clusters p (map (\<lambda>r. r\<lparr>is_canonical := c r\<rparr>) rows) = final_clusters p rows"
proof -
  have member: "map (\<lambda>r. (rid r, corpus r)) (map (\<lambda>r. r\<lparr>is_canonical := c r\<rparr>) rows) =
      map (\<lambda>r. (rid r, corpus r)) rows" by simp
  show ids: "map rid (map (\<lambda>r. r\<lparr>is_canonical := c r\<rparr>) rows) = map rid rows" by simp
  show "final_clusters p (map (\<lambda>r. r\<lparr>is_canonical := c r\<rparr>) rows) = final_clusters p rows"
    unfolding final_clusters_def ids member ..
qed (simp_all add: initial_parent_def key_pairs_def cluster_key_def o_def)

lemma dedupe_inputs_mark:
  fixes s c ts
  defines "s' \<equiv> s\<lparr>detection_rules := map (\<lambda>r. r\<lparr>is_canonical := c r\<rparr>) (detection_rules s), rule_techniques := ts\<rparr>"
  assumes own: "filter (\<lambda>(_, _, propagated). \<not> propagated) ts =
    filter (\<lambda>(_, _, propagated). \<not> propagated) (rule_techniques s)"
  shows "dedupe_store priority s' = dedupe_store priority s"
proof -
  have rules: "detection_rules s' = map (\<lambda>r. r\<lparr>is_canonical := c r\<rparr>) (detection_rules s)"
    and edges: "load_related_edges s' = load_related_edges s"
    by (simp_all add: s'_def load_related_edges_mark)
  have mark: "map (\<lambda>r. r\<lparr>is_canonical := rid r \<in> set ids\<rparr>) (detection_rules s') =
      map (\<lambda>r. r\<lparr>is_canonical := rid r \<in> set ids\<rparr>) (detection_rules s)" for ids
    by (simp add: rules)
  have "propagate_techniques (mark_canonical ids s') cs = propagate_techniques (mark_canonical ids s) cs" for ids cs
    unfolding propagate_techniques_def mark_canonical_def mark by (simp add: s'_def own Let_def)
  note same = this
  show ?thesis
    unfolding dedupe_store_def Let_def rules edges cluster_inputs_mark same length_map ..
qed

text \<open>Rebuilding a rebuilt store changes nothing and reports the same summary.\<close>

lemma dedupe_idempotent:
  assumes "dedupe_store priority s = Some (s', sm)"
  shows "dedupe_store priority s' = Some (s', sm)"
proof -
  from assms obtain ws cs where s': "s' = fst (propagate_techniques (mark_canonical ws s) cs)"
    by (auto simp: dedupe_store_def Let_def split_beta split: option.splits)
  define own where "own = filter (\<lambda>(_, _, propagated). \<not> propagated) (rule_techniques s)"
  have own': "filter (\<lambda>(_, _, propagated). \<not> propagated) own = own" by (simp add: own_def)
  define ts where "ts = rule_techniques s'"
  have "s' = s\<lparr>detection_rules := map (\<lambda>r. r\<lparr>is_canonical := rid r \<in> set ws\<rparr>) (detection_rules s),
      rule_techniques := ts\<rparr>"
    by (simp add: ts_def s' propagate_techniques_def mark_canonical_def Let_def)
  moreover have "filter (\<lambda>(_, _, propagated). \<not> propagated) ts = own"
    by (simp add: ts_def s' propagate_techniques_def mark_canonical_def Let_def insert_techniques_own
        own' own_def [symmetric])
  ultimately show ?thesis using assms dedupe_inputs_mark [of ts s] by (simp add: own_def)
qed

definition example_store :: rule_store where
  "example_store =
    \<lparr>detection_rules =
       [\<lparr>rid = ''e1'', corpus = ''elastic'', dedup_key = Some ''k'', content_hash = None, native_key = ''n1'', is_canonical = True\<rparr>,
        \<lparr>rid = ''s1'', corpus = ''sigma'', dedup_key = Some ''k'', content_hash = None, native_key = ''n2'', is_canonical = True\<rparr>,
        \<lparr>rid = ''s2'', corpus = ''sigma'', dedup_key = None, content_hash = Some ''h'', native_key = ''n3'', is_canonical = True\<rparr>,
        \<lparr>rid = ''s3'', corpus = ''sigma'', dedup_key = None, content_hash = None, native_key = ''n4'', is_canonical = True\<rparr>],
     rule_related = [(''s2'', Str ''n1'', Str '' Derived ''), (''s3'', Str ''n1'', Str ''similar''), (''s3'', Other, Str ''derived'')],
     rule_techniques = [(''s2'', ''T1036.007'', False), (''s3'', ''T1059'', False), (''e1'', ''T9'', True)]\<rparr>"

definition example_priority :: "string \<rightharpoonup> int" where
  "example_priority = [''sigma'' \<mapsto> 1]"

lemma dedupe_example: "dedupe_store example_priority example_store = Some
    (example_store\<lparr>detection_rules := map (\<lambda>r. r\<lparr>is_canonical := rid r \<in> {''s1'', ''s3''}\<rparr>) (detection_rules example_store),
       rule_techniques := [(''s2'', ''T1036.007'', False), (''s3'', ''T1059'', False), (''s1'', ''T1036.007'', True)]\<rparr>,
     \<lparr>total = 4, clusters = 2, canonical = 2, duplicates = 2, provenance_edges = 1,
      merged_by_provenance = 1, techniques_propagated = 1\<rparr>)"
  by code_simp

lemma example_distinct: "distinct (map rid (detection_rules example_store))"
  by (simp add: example_store_def)

lemma dedupe_elects_least_witness:
  "\<exists>s' sm. dedupe_store example_priority example_store = Some (s', sm) \<and>
    map rid (detection_rules s') = [''e1'', ''s1'', ''s2'', ''s3'']"
  using dedupe_elects_least [OF example_distinct, of example_priority] by (auto simp: example_store_def)

lemma dedupe_keeps_coverage_witness:
  "\<exists>s' sm. dedupe_store example_priority example_store = Some (s', sm) \<and>
    own_technique s' ''s2'' ''T1036.007'' \<and> \<not> own_technique s' ''e1'' ''T9''"
  using dedupe_keeps_coverage [OF example_distinct, of example_priority]
  by (elim exE conjE) (auto simp: own_technique_def example_store_def)

lemma dedupe_counts_witness:
  "\<exists>s' sm. dedupe_store example_priority example_store = Some (s', sm) \<and> total sm = 4 \<and>
    canonical sm + duplicates sm = 4"
  using dedupe_counts [OF example_distinct, of example_priority] by (auto simp: example_store_def)

lemma dedupe_idempotent_witness:
  "\<exists>s' sm. dedupe_store example_priority example_store = Some (s', sm) \<and>
    dedupe_store example_priority s' = Some (s', sm)"
  using dedupe_idempotent [OF dedupe_example] dedupe_example by blast

end
