(* ===== verification/Dates.thy ===== *)
theory Dates
  imports Prelude
begin

text \<open>
  Python's \<open>date\<close> and \<open>datetime\<close> as the temporal module (pipeline/temporal.py) uses them. A
  naive datetime is the number of microseconds since 0001-01-01T00:00:00 on the proleptic
  Gregorian calendar, an int between 0 and \<open>MAX_US\<close>; a value outside is what raises
  OverflowError. Also here: \<open>int(s)\<close> on decimal text and the zero-padded \<open>f"{y:04d}"\<close>.
\<close>

section \<open>The calendar\<close>

definition is_leap :: "int \<Rightarrow> bool" where
  "is_leap y \<longleftrightarrow> y mod 4 = 0 \<and> (y mod 100 \<noteq> 0 \<or> y mod 400 = 0)"

definition days_in_month :: "int \<Rightarrow> int \<Rightarrow> int" where
  "days_in_month y m =
     (if m = 2 then (if is_leap y then 29 else 28)
      else if m \<in> {4, 6, 9, 11} then 30 else 31)"

definition days_before_year :: "int \<Rightarrow> int" where
  "days_before_year y = (let z = y - 1 in z * 365 + z div 4 - z div 100 + z div 400)"

definition days_before_month :: "int \<Rightarrow> int \<Rightarrow> int" where
  "days_before_month y m = sum_list (map (days_in_month y) [1..m - 1])"

definition valid_date :: "int \<Rightarrow> int \<Rightarrow> int \<Rightarrow> bool" where
  "valid_date y m d \<longleftrightarrow> 1 \<le> y \<and> y \<le> 9999 \<and> 1 \<le> m \<and> m \<le> 12 \<and> 1 \<le> d \<and> d \<le> days_in_month y m"

text \<open>Days since 0001-01-01.\<close>

definition day_number :: "int \<Rightarrow> int \<Rightarrow> int \<Rightarrow> int" where
  "day_number y m d = days_before_year y + days_before_month y m + (d - 1)"

definition DAY_US :: int where "DAY_US = 86400000000"
definition MAX_US :: int where "MAX_US = 3652059 * DAY_US - 1"

text \<open>\<open>datetime(y, m, d)\<close> and \<open>datetime(y, m, d, hh, mm, ss, us)\<close>; \<open>None\<close> is ValueError. The
  constructor takes C ints: an argument outside 32 bits raises OverflowError instead.\<close>

datatype py_exc = ValueError | OverflowError

definition c_int :: "int \<Rightarrow> bool" where
  "c_int n \<longleftrightarrow> - 2147483648 \<le> n \<and> n \<le> 2147483647"

definition mk_date :: "int \<Rightarrow> int \<Rightarrow> int \<Rightarrow> int option" where
  "mk_date y m d = (if valid_date y m d then Some (day_number y m d * DAY_US) else None)"

definition mk_datetime :: "int \<Rightarrow> int \<Rightarrow> int \<Rightarrow> int \<Rightarrow> int \<Rightarrow> int \<Rightarrow> int \<Rightarrow> int option" where
  "mk_datetime y m d hh mm ss us =
     (if valid_date y m d \<and> 0 \<le> hh \<and> hh \<le> 23 \<and> 0 \<le> mm \<and> mm \<le> 59 \<and> 0 \<le> ss \<and> ss \<le> 59
         \<and> 0 \<le> us \<and> us \<le> 999999
      then Some (day_number y m d * DAY_US + ((hh * 60 + mm) * 60 + ss) * 1000000 + us) else None)"

definition datetime_ymd :: "int \<Rightarrow> int \<Rightarrow> int \<Rightarrow> py_exc + int" where
  "datetime_ymd y m d =
     (if \<not> (c_int y \<and> c_int m \<and> c_int d) then Inl OverflowError
      else case mk_date y m d of None \<Rightarrow> Inl ValueError | Some t \<Rightarrow> Inr t)"

text \<open>\<open>dt + timedelta\<close>: OverflowError outside the range.\<close>

definition shift_us :: "int \<Rightarrow> int \<Rightarrow> py_exc + int" where
  "shift_us t delta = (let u = t + delta in if 0 \<le> u \<and> u \<le> MAX_US then Inr u else Inl OverflowError)"

lemma datetime_ymd_valid: "valid_date y m d \<Longrightarrow> datetime_ymd y m d = Inr (day_number y m d * DAY_US)"
  by (auto simp: datetime_ymd_def mk_date_def valid_date_def c_int_def days_in_month_def split: if_splits)

lemma upto_split_last: "1 \<le> m \<Longrightarrow> [1..m] = [1..m - 1] @ [m::int]"
  by (simp add: upto_rec2)

lemma days_before_month_next: "1 \<le> m \<Longrightarrow> days_before_month y (m + 1) = days_before_month y m + days_in_month y m"
  by (simp add: days_before_month_def upto_split_last)

lemma days_before_month_1 [simp]: "days_before_month y 1 = 0"
  by (simp add: days_before_month_def)

lemma days_in_month_pos: "28 \<le> days_in_month y m"
  by (simp add: days_in_month_def)

lemma days_before_month_mono:
  assumes "1 \<le> m" "m \<le> n"
  shows "days_before_month y m \<le> days_before_month y n"
  using assms(2)
proof (induction n rule: int_ge_induct)
  case (step i)
  then show ?case using days_before_month_next [of i y] days_in_month_pos [of y i] assms(1) by simp
qed simp

lemma div_step:
  assumes k: "0 < (k::int)"
  shows "z div k = (z - 1) div k + (if z mod k = 0 then 1 else 0)"
proof (cases "z mod k = 0")
  case True
  then have "z = k * (z div k)" using mult_div_mod_eq [of k z] by simp
  then have "z - 1 = k * (z div k - 1) + (k - 1)" by (simp add: algebra_simps)
  then have "(z - 1) div k = z div k - 1" using k by (intro int_div_pos_eq [of _ _ _ "k - 1"]) auto
  with True show ?thesis by simp
next
  case False
  have "z - 1 = k * (z div k) + (z mod k - 1)" by simp
  moreover have "0 \<le> z mod k" "z mod k < k" using k by simp_all
  ultimately have "(z - 1) div k = z div k" using False by (intro int_div_pos_eq [of _ _ _ "z mod k - 1"]) auto
  with False show ?thesis by simp
qed

lemma year_length: "days_before_month y 13 = (if is_leap y then 366 else 365)"
proof -
  have "[1..12::int] = [1,2,3,4,5,6,7,8,9,10,11,12]" by code_simp
  then show ?thesis by (simp add: days_before_month_def days_in_month_def)
qed

lemma days_before_year_next: "days_before_year (y + 1) = days_before_year y + days_before_month y 13"
proof -
  define p q r where "p = (y - 1) div 4" and "q = (y - 1) div 100" and "r = (y - 1) div 400"
  define b c d where "b \<longleftrightarrow> y mod 4 = 0" and "c \<longleftrightarrow> y mod 100 = 0" and "d \<longleftrightarrow> y mod 400 = 0"
  have bcd: "d \<Longrightarrow> c" "c \<Longrightarrow> b" unfolding b_def c_def d_def by presburger+
  have steps: "y div 4 = p + (if b then 1 else 0)" "y div 100 = q + (if c then 1 else 0)"
      "y div 400 = r + (if d then 1 else 0)"
    unfolding p_def q_def r_def b_def c_def d_def by (rule div_step, simp)+
  have "days_before_year (y + 1) = y * 365 + (p + (if b then 1 else 0)) - (q + (if c then 1 else 0))
      + (r + (if d then 1 else 0))"
    by (simp only: days_before_year_def Let_def add_diff_cancel_right' steps)
  moreover have "days_before_year y = (y - 1) * 365 + p - q + r"
    by (simp only: days_before_year_def Let_def p_def q_def r_def)
  moreover have "days_before_month y 13 = (if b \<and> (\<not> c \<or> d) then 366 else 365)"
    by (simp add: year_length is_leap_def b_def c_def d_def)
  ultimately show ?thesis using bcd by (cases b; cases c; cases d) simp_all
qed

lemma days_before_year_mono: "y \<le> z \<Longrightarrow> days_before_year y \<le> days_before_year z"
proof (induction z rule: int_ge_induct)
  case (step i)
  then show ?case using days_before_year_next [of i] by (simp add: year_length split: if_splits)
qed simp

text \<open>The next day of a valid date, and the order of dates.\<close>

lemma days_before_month_le_year: "1 \<le> m \<Longrightarrow> m \<le> 12 \<Longrightarrow> days_before_month y m + days_in_month y m \<le> days_before_month y 13"
  using days_before_month_next [of m y] days_before_month_mono [of "m + 1" 13 y] by simp

lemma day_number_bounds:
  assumes "valid_date y m d"
  shows "day_number y 1 1 \<le> day_number y m 1" "day_number y m 1 \<le> day_number y m d"
    "day_number y m d < day_number y m 1 + days_in_month y m"
    "day_number y m 1 + days_in_month y m \<le> day_number (y + 1) 1 1"
  using assms days_before_month_mono [of 1 m y] days_before_month_le_year [of m y] days_before_year_next [of y]
  by (simp_all add: valid_date_def day_number_def)

lemma days_before_year_1: "days_before_year 1 = 0"
  by (simp add: days_before_year_def)

lemma days_before_year_10000: "days_before_year 10000 = 3652059"
  by (simp add: days_before_year_def)

lemma mk_date_range: "mk_date y m d = Some t \<Longrightarrow> 0 \<le> t \<and> t \<le> MAX_US + 1 - DAY_US"
  using days_before_year_mono [of 1 y] days_before_year_mono [of "y + 1" 10000]
    day_number_bounds [of y m d]
  by (auto simp: mk_date_def MAX_US_def DAY_US_def day_number_def days_before_year_1
      days_before_year_10000 valid_date_def split: if_splits)

lemma valid_first: "1 \<le> y \<Longrightarrow> y \<le> 9999 \<Longrightarrow> 1 \<le> m \<Longrightarrow> m \<le> 12 \<Longrightarrow> valid_date y m 1"
  using days_in_month_pos [of y m] by (simp add: valid_date_def)

section \<open>Decimal text\<close>

text \<open>\<open>int(s)\<close> on ASCII: surrounding white space, a sign, digits with single underscores
  between them, at most 4300 of them. \<open>None\<close> is ValueError.\<close>

definition digit_value :: "char \<Rightarrow> nat" where
  "digit_value c = (of_char c :: nat) - 48"

fun read_digits :: "int \<Rightarrow> string \<Rightarrow> int option" where
  "read_digits acc [] = Some acc"
| "read_digits acc [c] = (if is_digit c then Some (acc * 10 + int (digit_value c)) else None)"
| "read_digits acc (c # c' # cs) =
     (if \<not> is_digit c then None
      else if c' = CHR ''_''
        then (case cs of [] \<Rightarrow> None | _ \<Rightarrow> read_digits (acc * 10 + int (digit_value c)) cs)
      else read_digits (acc * 10 + int (digit_value c)) (c' # cs))"

definition py_int :: "string \<Rightarrow> int option" where
  "py_int s0 = (case strip s0 of [] \<Rightarrow> None
     | c # cs \<Rightarrow>
        (if 4300 < length (filter is_digit (c # cs)) then None
         else if c = CHR ''+'' then (if cs = [] then None else read_digits 0 cs)
         else if c = CHR ''-'' then (if cs = [] then None else map_option uminus (read_digits 0 cs))
         else read_digits 0 (c # cs)))"

text \<open>\<open>f"{n:0wd}"\<close> for \<open>0 \<le> n < 10 ^ w\<close>.\<close>

definition digit_char :: "nat \<Rightarrow> char" where
  "digit_char n = char_of (48 + n mod 10)"

fun pad :: "nat \<Rightarrow> nat \<Rightarrow> string" where
  "pad 0 n = []"
| "pad (Suc w) n = pad w (n div 10) @ [digit_char n]"

lemma digit_char [simp]: "is_digit (digit_char n)" "digit_value (digit_char n) = n mod 10"
  "\<not> is_space (digit_char n)" "digit_char n \<noteq> CHR ''_''" "digit_char n \<noteq> CHR ''+''"
  "digit_char n \<noteq> CHR ''-''" "digit_char n \<noteq> CHR ''/''"
proof -
  have n: "(of_char (digit_char n) :: nat) = 48 + n mod 10"
    unfolding digit_char_def by (subst of_char_of) simp
  have "n mod 10 < 10" by simp
  then show "is_digit (digit_char n)" "digit_value (digit_char n) = n mod 10"
    "\<not> is_space (digit_char n)" by (auto simp: is_digit_def digit_value_def is_space_def n Let_def)
  have "is_digit (digit_char n)" by fact
  then show "digit_char n \<noteq> CHR ''_''" "digit_char n \<noteq> CHR ''+''"
    "digit_char n \<noteq> CHR ''-''" "digit_char n \<noteq> CHR ''/''"
    by (auto simp: is_digit_def Let_def)
qed

lemma length_pad [simp]: "length (pad w n) = w"
  by (induction w arbitrary: n) auto

lemma pad_digits: "c \<in> set (pad w n) \<Longrightarrow> \<exists>k. c = digit_char k"
  by (induction w arbitrary: n) auto

lemma read_digits_snoc:
  "\<forall>c \<in> set cs. \<exists>k. c = digit_char k \<Longrightarrow> read_digits acc cs = Some v \<Longrightarrow>
   read_digits acc (cs @ [digit_char n]) = Some (v * 10 + int (n mod 10))"
proof (induction acc cs rule: read_digits.induct)
  case (3 acc c c' cs)
  then obtain k k' where k: "c = digit_char k" "c' = digit_char k'" by auto
  with 3 show ?case by simp
qed auto

lemma read_digits_pad: "int n < 10 ^ w \<Longrightarrow> read_digits 0 (pad w n) = Some (int n)"
proof (induction w arbitrary: n)
  case (Suc w)
  have "int (n div 10) < 10 ^ w" using Suc.prems by (simp add: zdiv_int)
  then have "read_digits 0 (pad w (n div 10)) = Some (int (n div 10))" by (rule Suc.IH)
  from read_digits_snoc [OF _ this, of n] show ?case
    by (auto dest: pad_digits simp: zdiv_int zmod_int)
qed simp

lemma strip_no_space: "\<forall>c \<in> set s. \<not> is_space c \<Longrightarrow> strip s = s"
proof -
  have none: "\<forall>c \<in> set s. \<not> is_space c \<Longrightarrow> dropWhile is_space s = s" for s
    by (cases s) auto
  show "\<forall>c \<in> set s. \<not> is_space c \<Longrightarrow> strip s = s"
    using none [of s] none [of "rev s"] by (simp add: strip_def strip_by_def)
qed

lemma py_int_pad:
  assumes "0 < w" "int n < 10 ^ w" "w \<le> 4300"
  shows "py_int (pad w n) = Some (int n)"
proof -
  have "length (filter is_digit (pad w n)) \<le> 4300"
    using length_filter_le [of is_digit "pad w n"] assms(3) by simp
  moreover have "strip (pad w n) = pad w n" by (rule strip_no_space) (auto dest: pad_digits)
  moreover obtain c cs where c: "pad w n = c # cs" using assms(1) by (cases "pad w n") (auto dest: arg_cong [of _ _ length])
  moreover from c have "\<exists>k. c = digit_char k" using pad_digits [of c w n] by simp
  ultimately show ?thesis using read_digits_pad [OF assms(2)] by (auto simp: py_int_def)
qed

section \<open>Splitting\<close>

text \<open>\<open>s.split(c)\<close> and \<open>s.partition(c)\<close> on a one-character separator.\<close>

fun split_on :: "char \<Rightarrow> string \<Rightarrow> string list" where
  "split_on c [] = [[]]"
| "split_on c (x # xs) = (if x = c then [] # split_on c xs
     else (case split_on c xs of [] \<Rightarrow> [[x]] | p # ps \<Rightarrow> (x # p) # ps))"

definition before :: "char \<Rightarrow> string \<Rightarrow> string" where
  "before c s = takeWhile (\<lambda>x. x \<noteq> c) s"

definition after :: "char \<Rightarrow> string \<Rightarrow> string" where
  "after c s = tl (dropWhile (\<lambda>x. x \<noteq> c) s)"

lemma split_on_plain: "c \<notin> set s \<Longrightarrow> split_on c s = [s]"
  by (induction c s rule: split_on.induct) auto

lemma split_on_append: "c \<notin> set s \<Longrightarrow> split_on c (s @ c # t) = s # split_on c t"
  by (induction s) (auto split: list.splits)

lemma after_shorter: "c \<in> set s \<Longrightarrow> length (after c s) < length s"
proof (induction s)
  case (Cons x s)
  then show ?case by (cases "x = c") (auto simp: after_def)
qed simp

lemma before_shorter: "c \<in> set s \<Longrightarrow> length (before c s) < length s"
  by (induction s) (auto simp: before_def)

end
