(* ===== verification/TimeText.thy ===== *)
theory TimeText
  imports Dates
begin

text \<open>
  Locating a quoted date in its chunk (pipeline/temporal.py): the typographic folding \<open>fold\<close>
  with its map back to the original characters, the word-boundary test, \<open>locate\<close>, and the
  position of the evidence and of an occurrence in the document. Strings are Latin-1: of the
  dashes, quotes and zero-width characters the code folds, the soft hyphen and the two
  guillemets are the Latin-1 ones.
\<close>

section \<open>Folding\<close>

definition ZERO_WIDTH :: "char set" where
  "ZERO_WIDTH = {char_of (173 :: nat)}"

definition fold_quote :: "char \<Rightarrow> char" where
  "fold_quote c = (if (of_char c :: nat) \<in> {171, 187} then char_of (34 :: nat) else c)"

text \<open>The loop of \<open>fold\<close>: each folded character with the index it came from.\<close>

fun fold_scan :: "nat \<Rightarrow> bool \<Rightarrow> string \<Rightarrow> (char \<times> nat) list" where
  "fold_scan i prev_space [] = []"
| "fold_scan i prev_space (ch # text) =
     (if ch \<in> ZERO_WIDTH then fold_scan (Suc i) prev_space text
      else if is_space ch then
        (if prev_space then fold_scan (Suc i) True text else (CHR '' '', i) # fold_scan (Suc i) True text)
      else (lower_char (fold_quote ch), i) # fold_scan (Suc i) False text)"

definition fold_chars :: "string \<Rightarrow> string \<times> nat list" where
  "fold_chars text = (let ps = fold_scan 0 False text in (map fst ps, map snd ps))"

definition fold_text :: "string \<Rightarrow> string" where
  "fold_text text = fst (fold_chars text)"

section \<open>Boundaries\<close>

definition is_py_digit :: "char \<Rightarrow> bool" where
  "is_py_digit c \<longleftrightarrow> is_digit c \<or> (of_char c :: nat) \<in> {178, 179, 185}"

definition is_alnum :: "char \<Rightarrow> bool" where
  "is_alnum c \<longleftrightarrow> (let n = (of_char c :: nat) in
     is_py_digit c \<or> (65 \<le> n \<and> n \<le> 90) \<or> (97 \<le> n \<and> n \<le> 122)
     \<or> n \<in> {170, 181, 186, 188, 189, 190} \<or> (192 \<le> n \<and> n \<noteq> 215 \<and> n \<noteq> 247))"

definition word_char :: "char \<Rightarrow> bool" where
  "word_char c \<longleftrightarrow> is_alnum c \<or> c = CHR ''_''"

definition boundary_ok :: "string \<Rightarrow> nat \<Rightarrow> nat \<Rightarrow> bool" where
  "boundary_ok hay start stop =
    (if start > 0 \<and> word_char (hay ! (start - 1)) then False
     else if start > 1 \<and> hay ! (start - 1) \<in> set ''-/.'' \<and> is_py_digit (hay ! start)
        \<and> is_alnum (hay ! (start - 2)) then False
     else if stop < length hay \<and> word_char (hay ! stop) then False
     else if stop < length hay \<and> hay ! stop \<in> set ''-/'' \<and> is_py_digit (hay ! (stop - 1))
        \<and> stop + 1 < length hay \<and> is_alnum (hay ! (stop + 1)) then False
     else True)"

section \<open>Finding\<close>

text \<open>\<open>hay.find(needle, pos)\<close>; \<open>None\<close> is -1.\<close>

definition occurs_at :: "string \<Rightarrow> string \<Rightarrow> nat \<Rightarrow> bool" where
  "occurs_at needle hay p \<longleftrightarrow> p + length needle \<le> length hay \<and> take (length needle) (drop p hay) = needle"

definition find_from :: "string \<Rightarrow> string \<Rightarrow> nat \<Rightarrow> nat option" where
  "find_from needle hay pos = List.find (occurs_at needle hay) [pos..<Suc (length hay)]"

lemma find_Some_upt: "List.find P [a..<b] = Some k \<longleftrightarrow> a \<le> k \<and> k < b \<and> P k \<and> (\<forall>j. a \<le> j \<and> j < k \<longrightarrow> \<not> P j)"
proof (induction "b - a" arbitrary: a)
  case (Suc n)
  then have ab: "a < b" and u: "[a..<b] = a # [Suc a..<b]" by (simp_all add: upt_conv_Cons)
  show ?case
  proof (cases "P a")
    case True
    then have "\<not> (a < k \<and> (\<forall>j. a \<le> j \<and> j < k \<longrightarrow> \<not> P j))" by blast
    with True ab show ?thesis unfolding u by (auto simp: le_less)
  next
    case False
    have IH: "List.find P [Suc a..<b] = Some k \<longleftrightarrow> Suc a \<le> k \<and> k < b \<and> P k \<and> (\<forall>j. Suc a \<le> j \<and> j < k \<longrightarrow> \<not> P j)"
      by (rule Suc.hyps(1)) (use Suc.hyps(2) in simp)
    have "(\<forall>j. a \<le> j \<and> j < k \<longrightarrow> \<not> P j) \<longleftrightarrow> (\<forall>j. Suc a \<le> j \<and> j < k \<longrightarrow> \<not> P j)" if "P k"
      using False by (metis Suc_leD le_antisym not_less_eq_eq)
    moreover have "a \<le> k \<longleftrightarrow> Suc a \<le> k" if "P k" using False that by (metis Suc_leD le_antisym not_less_eq_eq)
    ultimately show ?thesis unfolding u using IH False by auto
  qed
qed auto

lemma find_from_Some: "find_from needle hay pos = Some k \<longleftrightarrow>
    pos \<le> k \<and> occurs_at needle hay k \<and> (\<forall>j. pos \<le> j \<and> j < k \<longrightarrow> \<not> occurs_at needle hay j)"
  unfolding find_from_def find_Some_upt by (auto simp: occurs_at_def)

lemma find_from_None: "find_from needle hay pos = None \<longleftrightarrow> (\<forall>j \<ge> pos. \<not> occurs_at needle hay j)"
  unfolding find_from_def find_None_iff by (auto simp: occurs_at_def)

text \<open>
  The search loop \<open>while pos != -1\<close> of \<open>locate\<close>: every occurrence, split by the boundary test.
\<close>

function locate_loop :: "string \<Rightarrow> string \<Rightarrow> nat list \<Rightarrow> nat option \<Rightarrow> (nat \<times> nat) list \<Rightarrow> bool \<Rightarrow>
    (nat \<times> nat) list \<times> bool" where
  "locate_loop needle hay imap None spans miss = (spans, miss)"
| "locate_loop needle hay imap (Some pos) spans miss =
     (if \<not> occurs_at needle hay pos then (spans, miss)
      else let stop = pos + length needle; nxt = find_from needle hay (pos + 1) in
        if boundary_ok hay pos stop
        then locate_loop needle hay imap nxt (spans @ [(imap ! pos, imap ! (stop - 1) + 1)]) miss
        else locate_loop needle hay imap nxt spans True)"
  by pat_completeness auto
termination
  by (relation "measure (\<lambda>(needle, hay, imap, pos, spans, miss).
        case pos of None \<Rightarrow> 0 | Some p \<Rightarrow> Suc (Suc (length hay) - p))")
    (auto simp: occurs_at_def find_from_Some Let_def split: option.splits intro!: diff_less_mono2)

datatype locate_miss = NotFound | Boundary

definition date_needle :: "string \<Rightarrow> string" where
  "date_needle time_text =
     strip_by (\<lambda>c. c \<in> set '' .,;:'') (strip_by (\<lambda>c. c = CHR '' '') (fold_text time_text))"

definition locate :: "string \<Rightarrow> string \<Rightarrow> (nat \<times> nat) list \<times> locate_miss option" where
  "locate time_text chunk =
    (let needle = date_needle time_text in
     if needle = [] then ([], Some NotFound)
     else let (hay, imap) = fold_chars chunk;
              (spans, boundary_miss) = locate_loop needle hay imap (find_from needle hay 0) [] False
          in if spans \<noteq> [] then (spans, None)
             else ([], Some (if boundary_miss then Boundary else NotFound)))"

section \<open>What the folded text keeps\<close>

lemma fold_scan_index: "(c, j) \<in> set (fold_scan i p t) \<Longrightarrow> i \<le> j \<and> j < i + length t"
  by (induction i p t rule: fold_scan.induct) (force split: if_splits)+

lemma fold_scan_sorted: "sorted_wrt (<) (map snd (fold_scan i p t))"
  by (induction i p t rule: fold_scan.induct) (force dest: fold_scan_index)+

lemma fold_scan_shift: "fold_scan (i + n) p t = map (\<lambda>(c, j). (c, j + n)) (fold_scan i p t)"
  by (induction i p t rule: fold_scan.induct) auto

text \<open>From any folded character on, the folding is the folding of the rest of the text.\<close>

lemma fold_scan_drop:
  "k < length (fold_scan i p t) \<Longrightarrow> fold_scan i p t ! k = (c, j) \<Longrightarrow>
   drop k (fold_scan i p t) = fold_scan j False (drop (j - i) t)"
proof (induction i p t arbitrary: k rule: fold_scan.induct)
  case (2 i p ch rest)
  have later: "drop k (fold_scan (Suc i) q rest) = fold_scan j False (drop (j - i) (ch # rest))"
    if "\<And>k. k < length (fold_scan (Suc i) q rest) \<Longrightarrow> fold_scan (Suc i) q rest ! k = (c, j) \<Longrightarrow>
        drop k (fold_scan (Suc i) q rest) = fold_scan j False (drop (j - Suc i) rest)"
      "k < length (fold_scan (Suc i) q rest)" "fold_scan (Suc i) q rest ! k = (c, j)" for k q
  proof -
    have "(c, j) \<in> set (fold_scan (Suc i) q rest)" using that(2,3) nth_mem by metis
    then have "Suc i \<le> j" using fold_scan_index by blast
    then have "drop (j - i) (ch # rest) = drop (j - Suc i) rest" by (auto simp: le_iff_add)
    with that show ?thesis by simp
  qed
  show ?case
  proof (cases "ch \<in> ZERO_WIDTH \<or> (is_space ch \<and> p)")
    case True
    define q where "q = (if ch \<in> ZERO_WIDTH then p else True)"
    have eq: "fold_scan i p (ch # t) = fold_scan (Suc i) q t" for t using True by (auto simp: q_def)
    have k: "k < length (fold_scan (Suc i) q rest)" "fold_scan (Suc i) q rest ! k = (c, j)"
      using 2(5,6) unfolding eq by auto
    show ?thesis unfolding eq
      by (rule later [OF _ k]) (use 2(1,2) True in \<open>auto simp: q_def split: if_splits\<close>)
  next
    case False
    show ?thesis
    proof (cases k)
      case 0
      with False 2(6) have "j = i" by (auto split: if_splits)
      with 0 False show ?thesis by auto
    next
      case (Suc k')
      with False 2 later [of _ k'] show ?thesis by (auto split: if_splits)
    qed
  qed
qed simp

text \<open>Up to any folded character, it is the folding of the text up to there.\<close>

lemma fold_scan_take:
  "k < length (fold_scan i p t) \<Longrightarrow> fold_scan i p t ! k = (c, j) \<Longrightarrow>
   take (Suc k) (fold_scan i p t) = fold_scan i p (take (Suc j - i) t)"
proof (induction i p t arbitrary: k rule: fold_scan.induct)
  case (2 i p ch rest)
  have later: "take (Suc k) (fold_scan (Suc i) q rest) = fold_scan (Suc i) q (take (j - i) rest) \<and> Suc i \<le> j"
    if "\<And>k. k < length (fold_scan (Suc i) q rest) \<Longrightarrow> fold_scan (Suc i) q rest ! k = (c, j) \<Longrightarrow>
        take (Suc k) (fold_scan (Suc i) q rest) = fold_scan (Suc i) q (take (Suc j - Suc i) rest)"
      "k < length (fold_scan (Suc i) q rest)" "fold_scan (Suc i) q rest ! k = (c, j)" for k q
  proof -
    have "(c, j) \<in> set (fold_scan (Suc i) q rest)" using that(2,3) nth_mem by metis
    then have "Suc i \<le> j" using fold_scan_index by blast
    with that show ?thesis by simp
  qed
  have cut: "take (Suc j - i) (ch # rest) = ch # take (j - i) rest" if "i \<le> j"
    using that by (simp add: Suc_diff_le)
  show ?case
  proof (cases "ch \<in> ZERO_WIDTH \<or> (is_space ch \<and> p)")
    case True
    define q where "q = (if ch \<in> ZERO_WIDTH then p else True)"
    have eq: "fold_scan i p (ch # t) = fold_scan (Suc i) q t" for t using True by (auto simp: q_def)
    have k: "k < length (fold_scan (Suc i) q rest)" "fold_scan (Suc i) q rest ! k = (c, j)"
      using 2(5,6) unfolding eq by auto
    have t: "take (Suc k) (fold_scan (Suc i) q rest) = fold_scan (Suc i) q (take (j - i) rest) \<and> Suc i \<le> j"
      by (rule later [OF _ k]) (use 2(1,2) True in \<open>auto simp: q_def split: if_splits\<close>)
    then have ij: "i \<le> j" by simp
    show ?thesis unfolding cut [OF ij] eq using t by simp
  next
    case False
    show ?thesis
    proof (cases k)
      case 0
      with False 2(6) have "j = i" by (auto split: if_splits)
      with 0 False show ?thesis by auto
    next
      case (Suc k')
      define q where "q = is_space ch"
      define x where "x = (if is_space ch then CHR '' '' else lower_char (fold_quote ch), i)"
      have eq: "fold_scan i p (ch # t) = x # fold_scan (Suc i) q t" for t
        using False by (auto simp: q_def x_def)
      have k: "k' < length (fold_scan (Suc i) q rest)" "fold_scan (Suc i) q rest ! k' = (c, j)"
        using 2(5,6) Suc unfolding eq by auto
      have t: "take (Suc k') (fold_scan (Suc i) q rest) = fold_scan (Suc i) q (take (j - i) rest) \<and> Suc i \<le> j"
        by (rule later [OF _ k]) (use 2(3,4) False in \<open>cases "is_space ch"; auto simp: q_def\<close>)
      then have ij: "i \<le> j" by simp
      show ?thesis unfolding cut [OF ij] eq using t Suc by simp
    qed
  qed
qed simp

lemma fold_text_slice:
  assumes f: "fold_chars chunk = (hay, imap)" and n: "0 < n" "pos + n \<le> length hay"
  shows "imap ! pos \<le> imap ! (pos + n - 1)" "imap ! (pos + n - 1) < length chunk"
    "fold_text (take (imap ! (pos + n - 1) + 1 - imap ! pos) (drop (imap ! pos) chunk)) = take n (drop pos hay)"
proof -
  define F where "F = fold_scan 0 False chunk"
  have hi: "hay = map fst F" "imap = map snd F" using f by (auto simp: fold_chars_def Let_def F_def)
  obtain c s where s: "F ! pos = (c, s)" by fastforce
  obtain d e where e: "F ! (pos + n - 1) = (d, e)" by fastforce
  have len: "pos + n \<le> length F" using n hi by simp
  have se: "imap ! pos = s" "imap ! (pos + n - 1) = e" using s e len n hi by simp_all
  have "(d, e) \<in> set F" using e len n nth_mem [of "pos + n - 1" F] by simp
  then show "imap ! (pos + n - 1) < length chunk" unfolding se F_def by (auto dest: fold_scan_index)
  define G where "G = fold_scan s False (drop s chunk)"
  have G: "drop pos F = G" using fold_scan_drop [of pos 0 False chunk c s] s len n by (simp add: F_def G_def)
  then have Gn: "G ! (n - 1) = (d, e)" "n - 1 < length G" using e len n by (auto simp: nth_drop [symmetric] simp del: nth_drop) (simp add: add_diff_assoc)+
  then have "(d, e) \<in> set G" using nth_mem by metis
  then have "s \<le> e" unfolding G_def by (auto dest: fold_scan_index)
  then show "imap ! pos \<le> imap ! (pos + n - 1)" unfolding se .
  have "take (Suc (n - 1)) G = fold_scan s False (take (Suc e - s) (drop s chunk))"
    using fold_scan_take [of "n - 1" s False "drop s chunk" d e] Gn by (simp add: G_def)
  then have "take n (drop pos F) = map (\<lambda>(c, j). (c, j + s)) (fold_scan 0 False (take (Suc e - s) (drop s chunk)))"
    using n fold_scan_shift [of 0 s False] by (simp add: G)
  then have "map fst (take n (drop pos F)) = map fst (fold_scan 0 False (take (Suc e - s) (drop s chunk)))"
    by (simp add: o_def split_beta)
  then show "fold_text (take (imap ! (pos + n - 1) + 1 - imap ! pos) (drop (imap ! pos) chunk)) = take n (drop pos hay)"
    unfolding se by (simp add: fold_text_def fold_chars_def Let_def hi(1) take_map drop_map)
qed

lemma filter_find_from:
  "filter (occurs_at needle hay) [p..<Suc (length hay)] =
   (case find_from needle hay p of None \<Rightarrow> []
    | Some k \<Rightarrow> k # filter (occurs_at needle hay) [Suc k..<Suc (length hay)])"
proof (cases "find_from needle hay p")
  case None
  then have "\<forall>j \<ge> p. \<not> occurs_at needle hay j" by (simp add: find_from_None)
  then show ?thesis unfolding None by (auto simp: filter_empty_conv)
next
  case (Some k)
  then have k: "p \<le> k" "occurs_at needle hay k" "\<forall>j. p \<le> j \<and> j < k \<longrightarrow> \<not> occurs_at needle hay j"
    by (simp_all add: find_from_Some)
  then have "k < Suc (length hay)" by (simp add: occurs_at_def)
  with k(1) have "[p..<Suc (length hay)] = [p..<k] @ k # [Suc k..<Suc (length hay)]"
    by (metis less_imp_le_nat upt_add_eq_append upt_conv_Cons le_Suc_ex)
  moreover have "filter (occurs_at needle hay) [p..<k] = []" using k(3) by (auto simp: filter_empty_conv)
  ultimately show ?thesis using k(2) Some by simp
qed

lemma locate_loop_eq:
  "locate_loop needle hay imap (find_from needle hay p) spans miss =
   (spans @ map (\<lambda>q. (imap ! q, imap ! (q + length needle - 1) + 1))
      (filter (\<lambda>q. boundary_ok hay q (q + length needle)) (filter (occurs_at needle hay) [p..<Suc (length hay)])),
    miss \<or> (\<exists>q \<ge> p. occurs_at needle hay q \<and> \<not> boundary_ok hay q (q + length needle)))"
proof (induction "Suc (length hay) - p" arbitrary: p spans miss rule: less_induct)
  case less
  show ?case
  proof (cases "find_from needle hay p")
    case None
    then have "\<not> (\<exists>q \<ge> p. occurs_at needle hay q)" by (auto simp: find_from_None)
    with None show ?thesis unfolding filter_find_from [of needle hay p] by auto
  next
    case (Some k)
    then have k: "p \<le> k" "occurs_at needle hay k" "\<forall>j. p \<le> j \<and> j < k \<longrightarrow> \<not> occurs_at needle hay j"
      by (simp_all add: find_from_Some)
    have "k \<le> length hay" using k(2) by (simp add: occurs_at_def)
    then have IH: "locate_loop needle hay imap (find_from needle hay (Suc k)) spans miss =
       (spans @ map (\<lambda>q. (imap ! q, imap ! (q + length needle - 1) + 1))
          (filter (\<lambda>q. boundary_ok hay q (q + length needle)) (filter (occurs_at needle hay) [Suc k..<Suc (length hay)])),
        miss \<or> (\<exists>q \<ge> Suc k. occurs_at needle hay q \<and> \<not> boundary_ok hay q (q + length needle)))" for spans miss
      using k(1) by (intro less) auto
    have ex: "(\<exists>q \<ge> p. occurs_at needle hay q \<and> P q) \<longleftrightarrow> P k \<or> (\<exists>q \<ge> Suc k. occurs_at needle hay q \<and> P q)" for P
      using k by (metis Suc_leD Suc_leI le_trans linorder_neqE_nat)
    show ?thesis
      unfolding filter_find_from [of needle hay p] Some option.case ex
      using k(2) IH by (simp add: Let_def)
  qed
qed

lemma locate_spans:
  assumes "date_needle time_text \<noteq> []" "fold_chars chunk = (hay, imap)"
  shows "locate time_text chunk =
    (let n = length (date_needle time_text);
         hits = filter (occurs_at (date_needle time_text) hay) [0..<Suc (length hay)];
         good = filter (\<lambda>q. boundary_ok hay q (q + n)) hits
     in if good \<noteq> [] then (map (\<lambda>q. (imap ! q, imap ! (q + n - 1) + 1)) good, None)
        else ([], Some (if hits \<noteq> [] then Boundary else NotFound)))"
proof -
  define d where "d = date_needle time_text"
  define hits where "hits = filter (occurs_at d hay) [0..<Suc (length hay)]"
  have "set hits = {q. occurs_at d hay q}" by (auto simp: hits_def occurs_at_def simp del: upt_Suc)
  then have ex: "(\<exists>q \<ge> 0. occurs_at d hay q \<and> P q) \<longleftrightarrow> (\<exists>q \<in> set hits. P q)" for P by simp
  show ?thesis
    using assms(1)
    unfolding locate_def d_def [symmetric] assms(2) Let_def prod.case locate_loop_eq hits_def [symmetric] ex
    by (cases "filter (\<lambda>q. boundary_ok hay q (q + length d)) hits")
      (auto simp: filter_empty_conv simp del: upt_Suc)
qed


text \<open>And \<open>locate\<close> misses none: when the folded quote occurs in the folded chunk on word
  boundaries a span is returned; the reason of an empty answer tells the two other cases apart.\<close>

lemma locate_complete:
  assumes "date_needle time_text \<noteq> []"
  shows "let hay = fold_text chunk; n = date_needle time_text in
     case locate time_text chunk of
       (spans, None) \<Rightarrow> spans \<noteq> [] \<and> length spans =
          card {q. occurs_at n hay q \<and> boundary_ok hay q (q + length n)}
     | (spans, Some Boundary) \<Rightarrow> spans = [] \<and> (\<exists>q. occurs_at n hay q)
         \<and> (\<forall>q. occurs_at n hay q \<longrightarrow> \<not> boundary_ok hay q (q + length n))
     | (spans, Some NotFound) \<Rightarrow> spans = [] \<and> (\<forall>q. \<not> occurs_at n hay q)"
proof -
  obtain hay imap where f: "fold_chars chunk = (hay, imap)" by fastforce
  define n where "n = date_needle time_text"
  define hits where "hits = filter (occurs_at n hay) [0..<Suc (length hay)]"
  define good where "good = filter (\<lambda>q. boundary_ok hay q (q + length n)) hits"
  have hits: "set hits = {q. occurs_at n hay q}"
    by (auto simp: hits_def occurs_at_def simp del: upt_Suc)
  then have good: "set good = {q. occurs_at n hay q \<and> boundary_ok hay q (q + length n)}"
    by (simp add: good_def)
  have "distinct good" by (simp add: good_def hits_def del: upt_Suc)
  then have len: "length good = card {q. occurs_at n hay q \<and> boundary_ok hay q (q + length n)}"
    using good distinct_card by fastforce
  have loc: "locate time_text chunk = (if good \<noteq> [] then (map (\<lambda>q. (imap ! q, imap ! (q + length n - 1) + 1)) good, None)
        else ([], Some (if hits \<noteq> [] then Boundary else NotFound)))"
    using locate_spans [OF assms f] by (simp add: Let_def n_def hits_def good_def)
  have h: "fold_text chunk = hay" using f by (simp add: fold_text_def)
  show ?thesis
  proof (cases "good = []")
    case False
    then show ?thesis unfolding loc h n_def [symmetric] using len by (simp add: Let_def)
  next
    case True
    then have none: "\<forall>q. occurs_at n hay q \<longrightarrow> \<not> boundary_ok hay q (q + length n)" using good by auto
    have "hits = [] \<longleftrightarrow> (\<forall>q. \<not> occurs_at n hay q)" using hits by (metis empty_Collect_eq set_empty)
    with True none show ?thesis unfolding loc h n_def [symmetric] by (simp add: Let_def)
  qed
qed


lemma locate_complete_witness:
  "locate ''2021'' ''CVE-2021-44228'' = ([], Some Boundary) \<and>
   (\<exists>q. occurs_at ''2021'' (fold_text ''CVE-2021-44228'') q)"
proof -
  have n: "date_needle ''2021'' = ''2021''" by code_simp
  have l: "locate ''2021'' ''CVE-2021-44228'' = ([], Some Boundary)" by code_simp
  from locate_complete [of "''2021''" "''CVE-2021-44228''"] show ?thesis
    unfolding l n by (simp add: Let_def)
qed

end
