(* ===== verification/Temporal.thy ===== *)
theory Temporal
  imports Schemas TimeText
begin

text \<open>
  The dates of a relationship (pipeline/temporal.py): the assertion record, the readings of a
  day, a month and a year, the window a value covers, contradictions, the merge of two lists
  of dates and the plan that decides which of them may fill \<open>start_time\<close> and \<open>stop_time\<close>.
  A value is EDTF text; its window is a pair of naive datetimes in microseconds.
\<close>

section \<open>Data\<close>

datatype role = Start | End | Within | Throughout | Observed
datatype precision = Year | Half | Quarter | Month | Day | Instant
datatype qualifier = NoQualifier | Approx | Early | Mid | Late | Before | After | By
datatype status = Verified | Ambiguous | Unresolved | Conflict
datatype anchor_source = PublicationMeta | TextHeader | Analyst_ | FileMetadata
datatype anchor_kind = Explicit | Document | NoAnchor
datatype origin = LLM | Analyst | Legacy

record anchor =
  anchor_value :: string
  anchor_source :: anchor_source

record temporal_assertion =
  a_id :: string
  a_role :: role
  a_time_text :: string
  a_value :: "string option"
  a_precision :: "precision option"
  a_qualifier :: qualifier
  a_first_last :: "string option"
  a_model_value :: "string option"
  a_alternatives :: "string list"
  a_anchor :: anchor_kind
  a_anchor_source :: "string option"
  a_anchor_value :: "string option"
  a_evidence_label :: "evidence_label option"
  a_status :: status
  a_reason :: "string option"
  a_doc_offset :: "nat option"
  a_origin :: origin

definition BOUND_ROLES :: "role list" where
  "BOUND_ROLES = [Start, End]"

fun precision_rank :: "precision \<Rightarrow> nat" where
  "precision_rank Year = 0"
| "precision_rank Half = 1"
| "precision_rank Quarter = 2"
| "precision_rank Month = 3"
| "precision_rank Day = 4"
| "precision_rank Instant = 5"

definition publication_grade :: "anchor \<Rightarrow> bool" where
  "publication_grade a \<longleftrightarrow> anchor_source a \<notin> {FileMetadata}"

section \<open>Readings\<close>

record reading =
  r_value :: "string option"
  r_precision :: "precision option"
  r_qualifier :: qualifier
  r_status :: status
  r_reason :: "string option"
  r_alternatives :: "string list"
  r_anchored :: bool

definition unresolved :: "string \<Rightarrow> precision option \<Rightarrow> string list \<Rightarrow> reading" where
  "unresolved reason p alts = \<lparr>r_value = None, r_precision = p, r_qualifier = NoQualifier,
     r_status = Unresolved, r_reason = Some reason, r_alternatives = alts, r_anchored = False\<rparr>"

definition verified_reading :: "string \<Rightarrow> precision \<Rightarrow> reading" where
  "verified_reading v p = \<lparr>r_value = Some v, r_precision = Some p, r_qualifier = NoQualifier,
     r_status = Verified, r_reason = None, r_alternatives = [], r_anchored = False\<rparr>"

definition plausible :: "int \<Rightarrow> bool" where
  "plausible year \<longleftrightarrow> 1900 \<le> year \<and> year \<le> 2100"

definition day_text :: "int \<Rightarrow> int \<Rightarrow> int \<Rightarrow> string" where
  "day_text y m d = pad 4 (nat y) @ ''-'' @ pad 2 (nat m) @ ''-'' @ pad 2 (nat d)"

definition month_text :: "int \<Rightarrow> int \<Rightarrow> string" where
  "month_text y m = pad 4 (nat y) @ ''-'' @ pad 2 (nat m)"

definition day_value :: "int \<Rightarrow> int \<Rightarrow> int \<Rightarrow> reading" where
  "day_value y m d =
    (if \<not> plausible y then unresolved ''implausible_year'' (Some Day) []
     else if \<not> valid_date y m d then unresolved ''invalid_date'' (Some Day) []
     else verified_reading (day_text y m d) Day)"

definition month_value :: "int \<Rightarrow> int \<Rightarrow> reading" where
  "month_value y m =
    (if \<not> plausible y then unresolved ''implausible_year'' (Some Month) []
     else if \<not> (1 \<le> m \<and> m \<le> 12) then unresolved ''invalid_date'' (Some Month) []
     else verified_reading (month_text y m) Month)"

definition year_value :: "int \<Rightarrow> reading" where
  "year_value y =
    (if \<not> plausible y then unresolved ''implausible_year'' (Some Year) []
     else verified_reading (pad 4 (nat y)) Year)"

text \<open>The quarter and half codes of EDTF level 2, as \<open>_read_absolute\<close> writes them.\<close>

definition quarter_value :: "int \<Rightarrow> int \<Rightarrow> reading" where
  "quarter_value y q =
    (if \<not> plausible y then unresolved ''implausible_year'' (Some Quarter) []
     else verified_reading (month_text y (32 + q)) Quarter)"

definition half_value :: "int \<Rightarrow> int \<Rightarrow> reading" where
  "half_value y h =
    (if \<not> plausible y then unresolved ''implausible_year'' (Some Half) []
     else verified_reading (month_text y (39 + h)) Half)"

definition shift_month :: "int \<Rightarrow> int \<Rightarrow> int \<Rightarrow> int \<times> int" where
  "shift_month y m delta = (let idx = y * 12 + (m - 1) + delta in (idx div 12, idx mod 12 + 1))"

definition coarsest :: "precision option \<Rightarrow> precision option \<Rightarrow> precision option" where
  "coarsest a b = (case (a, b) of
      (None, _) \<Rightarrow> b
    | (_, None) \<Rightarrow> a
    | (Some p, Some q) \<Rightarrow> Some (if precision_rank p \<le> precision_rank q then p else q))"

section \<open>Instants\<close>

text \<open>
  \<open>datetime.fromisoformat\<close> on the extended format \<open>YYYY-MM-DD*HH[:MM[:SS[.f+]]][offset]\<close> (the
  one \<open>datetime.isoformat\<close> writes): the naive part and the UTC offset, in microseconds.
\<close>

definition num2 :: "string \<Rightarrow> nat \<Rightarrow> int option" where
  "num2 s i = (let w = take 2 (drop i s) in
     if length w = 2 \<and> list_all is_digit w then read_digits 0 w else None)"

definition read_hms :: "string \<Rightarrow> (int \<times> int \<times> int \<times> int) option" where
  "read_hms s =
    (let n = length s; frac = drop 9 s in
     if n = 2 then map_option (\<lambda>h. (h, 0, 0, 0)) (num2 s 0)
     else if n = 5 \<and> s ! 2 = CHR '':'' then
       (case (num2 s 0, num2 s 3) of (Some h, Some m) \<Rightarrow> Some (h, m, 0, 0) | _ \<Rightarrow> None)
     else if n = 8 \<and> s ! 2 = CHR '':'' \<and> s ! 5 = CHR '':'' then
       (case (num2 s 0, num2 s 3, num2 s 6) of (Some h, Some m, Some x) \<Rightarrow> Some (h, m, x, 0) | _ \<Rightarrow> None)
     else if n > 9 \<and> s ! 2 = CHR '':'' \<and> s ! 5 = CHR '':'' \<and> s ! 8 \<in> set ''.,'' \<and> list_all is_digit frac then
       (case (num2 s 0, num2 s 3, num2 s 6, read_digits 0 (take 6 (frac @ ''000000''))) of
          (Some h, Some m, Some x, Some f) \<Rightarrow> Some (h, m, x, f) | _ \<Rightarrow> None)
     else None)"

definition hms_us :: "int \<times> int \<times> int \<times> int \<Rightarrow> int" where
  "hms_us = (\<lambda>(h, m, s, f). ((h * 60 + m) * 60 + s) * 1000000 + f)"

definition hms_ok :: "int \<times> int \<times> int \<times> int \<Rightarrow> bool" where
  "hms_ok = (\<lambda>(h, m, s, f). h \<le> 23 \<and> m \<le> 59 \<and> s \<le> 59)"

definition read_offset :: "string \<Rightarrow> int option option" where
  "read_offset tz =
    (case tz of [] \<Rightarrow> Some None
     | c # rest \<Rightarrow>
        if c = CHR ''Z'' then (if rest = [] then Some (Some 0) else None)
        else (case read_hms rest of None \<Rightarrow> None
              | Some h \<Rightarrow> if hms_ok h then Some (Some (if c = CHR ''-'' then - hms_us h else hms_us h)) else None))"

definition fromisoformat :: "string \<Rightarrow> (int \<times> int option) option" where
  "fromisoformat s =
    (if length s \<le> 11 \<or> s ! 4 \<noteq> CHR ''-'' \<or> s ! 7 \<noteq> CHR ''-'' then None
     else let rest = drop 11 s;
              clock = takeWhile (\<lambda>c. c \<notin> set ''+-Z'') rest;
              tz = dropWhile (\<lambda>c. c \<notin> set ''+-Z'') rest in
       (case (num2 s 0, num2 s 2, num2 s 5, num2 s 8, read_hms clock, read_offset tz) of
          (Some c, Some yy, Some m, Some d, Some h, Some off) \<Rightarrow>
             (if valid_date (c * 100 + yy) m d \<and> hms_ok h
              then Some (day_number (c * 100 + yy) m d * DAY_US + hms_us h, off) else None)
        | _ \<Rightarrow> None))"

section \<open>Windows\<close>

definition FAR_TZ :: int where "FAR_TZ = 14 * 3600 * 1000000"

definition month_span :: "int \<Rightarrow> int \<Rightarrow> int \<Rightarrow> py_exc + int \<times> int" where
  "month_span y first n =
    (case shift_month y first n of (ny, nm) \<Rightarrow>
       and_then (datetime_ymd y first 1) (\<lambda>lo. and_then (datetime_ymd ny nm 1) (\<lambda>hi. Inr (lo, hi))))"

definition py_int_e :: "string \<Rightarrow> py_exc + int" where
  "py_int_e s = (case py_int s of None \<Rightarrow> Inl ValueError | Some n \<Rightarrow> Inr n)"

text \<open>The body of the \<open>try\<close>, with what it raises.\<close>

definition window_try :: "string \<Rightarrow> py_exc + (int \<times> int) option" where
  "window_try value =
    (if CHR ''t'' \<in> set (lower value) \<and> length value > 10 then
       (case fromisoformat value of
          None \<Rightarrow> Inl ValueError
        | Some (t, Some off) \<Rightarrow>
            and_then (shift_us t (- off)) (\<lambda>u. and_then (shift_us u 1) (\<lambda>v. Inr (Some (u, v))))
        | Some (t, None) \<Rightarrow>
            and_then (shift_us t (- FAR_TZ)) (\<lambda>u. and_then (shift_us t FAR_TZ) (\<lambda>v. Inr (Some (u, v)))))
     else let parts = split_on (CHR ''-'') value in
       and_then (py_int_e (parts ! 0)) (\<lambda>y.
         if length parts = 1 then
           and_then (datetime_ymd y 1 1) (\<lambda>lo. and_then (datetime_ymd (y + 1) 1 1) (\<lambda>hi. Inr (Some (lo, hi))))
         else and_then (py_int_e (parts ! 1)) (\<lambda>code.
           if length parts = 2 then
             (if 1 \<le> code \<and> code \<le> 12 then and_then (month_span y code 1) (\<lambda>w. Inr (Some w))
              else if 33 \<le> code \<and> code \<le> 36 then
                and_then (month_span y (3 * (code - 33) + 1) 3) (\<lambda>w. Inr (Some w))
              else if code = 40 \<or> code = 41 then
                and_then (month_span y (if code = 40 then 1 else 7) 6) (\<lambda>w. Inr (Some w))
              else Inr None)
           else and_then (py_int_e (take 2 (parts ! 2))) (\<lambda>d.
             and_then (datetime_ymd y code d) (\<lambda>t.
               and_then (shift_us t DAY_US) (\<lambda>u. Inr (Some (t, u))))))))"

text \<open>\<open>except (ValueError, IndexError): return None\<close>: an OverflowError goes through.\<close>

function window :: "string option \<Rightarrow> py_exc + (int \<times> int) option" where
  "window None = Inr None"
| "window (Some value) =
    (if value = [] then Inr None
     else if CHR ''/'' \<in> set value then
       and_then (window (Some (before (CHR ''/'') value))) (\<lambda>wa.
       and_then (window (Some (after (CHR ''/'') value))) (\<lambda>wb.
         case (wa, wb) of (Some (a, _), Some (_, b)) \<Rightarrow> Inr (Some (a, b)) | _ \<Rightarrow> Inr None))
     else (case window_try value of Inl ValueError \<Rightarrow> Inr None | r \<Rightarrow> r))"
  by pat_completeness auto
termination
  by (relation "measure (\<lambda>v. case v of None \<Rightarrow> 0 | Some s \<Rightarrow> Suc (length s))")
    (auto simp: before_shorter after_shorter)

definition overlap :: "int \<times> int \<Rightarrow> int \<times> int \<Rightarrow> bool" where
  "overlap a b \<longleftrightarrow> fst a < snd b \<and> fst b < snd a"

section \<open>Contradictions\<close>

definition judged_members :: "temporal_assertion list \<Rightarrow> role \<Rightarrow> nat list" where
  "judged_members out role =
    (let members = filter (\<lambda>i. a_role (out ! i) = role) [0..<length out];
         analyst = filter (\<lambda>i. a_origin (out ! i) = Analyst) members
     in filter (\<lambda>i. a_status (out ! i) \<in> {Verified, Conflict} \<and> a_value (out ! i) \<noteq> None)
          (if analyst \<noteq> [] then analyst else members))"

text \<open>\<open>by_role[role]\<close>: the judged assertions whose value has a window.\<close>

definition by_role :: "temporal_assertion list \<Rightarrow> role \<Rightarrow> py_exc + (nat \<times> int \<times> int) list" where
  "by_role out role =
    and_then (map_raise (\<lambda>i. and_then (window (a_value (out ! i))) (\<lambda>w. Inr (i, w))) (judged_members out role))
      (\<lambda>ws. Inr (concat (map (\<lambda>(i, w). case w of None \<Rightarrow> [] | Some x \<Rightarrow> [(i, x)]) ws)))"

fun disjoint_pairs :: "(nat \<times> int \<times> int) list \<Rightarrow> nat list" where
  "disjoint_pairs [] = []"
| "disjoint_pairs ((i, w) # ws) =
     concat (map (\<lambda>(j, v). if overlap w v then [] else [i, j]) ws) @ disjoint_pairs ws"

definition contradicted :: "(nat \<times> int \<times> int) list \<Rightarrow> (nat \<times> int \<times> int) list \<Rightarrow> nat list" where
  "contradicted starts ends =
    concat (map (\<lambda>(i, ws). concat (map (\<lambda>(j, we). if fst ws \<ge> snd we then [i, j] else []) ends)) starts)
    @ disjoint_pairs starts @ disjoint_pairs ends"

definition mark :: "nat set \<Rightarrow> temporal_assertion list \<Rightarrow> temporal_assertion list" where
  "mark bad out = map (\<lambda>i. let a = out ! i in
     if i \<in> bad \<and> a_status a = Verified then a\<lparr>a_status := Conflict, a_reason := Some ''contradicts''\<rparr> else a)
     [0..<length out]"

definition mark_conflicts :: "temporal_assertion list \<Rightarrow> py_exc + temporal_assertion list" where
  "mark_conflicts ts =
    and_then (by_role ts Start) (\<lambda>starts.
    and_then (by_role ts End) (\<lambda>ends.
      Inr (mark (set (contradicted starts ends)) ts)))"

section \<open>Merge\<close>

type_synonym identity = "role \<times> origin \<times> (nat + string) \<times> string option"

definition opt_or :: "string option \<Rightarrow> string option \<Rightarrow> string option" where
  "opt_or a b = (case a of None \<Rightarrow> b | Some s \<Rightarrow> if s = [] then b else a)"

definition temporal_identity :: "temporal_assertion \<Rightarrow> identity" where
  "temporal_identity a =
    (a_role a, a_origin a,
     (case a_doc_offset a of Some n \<Rightarrow> Inl n
      | None \<Rightarrow> Inr (strip_by (\<lambda>c. c = CHR '' '') (fold_text (a_time_text a)))),
     opt_or (a_value a) (a_model_value a))"

fun dedup_times :: "identity set \<Rightarrow> temporal_assertion list \<Rightarrow> temporal_assertion list" where
  "dedup_times seen [] = []"
| "dedup_times seen (a # as) =
    (let key = temporal_identity a in
     if key \<in> seen then dedup_times seen as else a # dedup_times (insert key seen) as)"

definition merge_times :: "temporal_assertion list \<Rightarrow> temporal_assertion list \<Rightarrow>
    py_exc + temporal_assertion list" where
  "merge_times existing new = mark_conflicts (dedup_times {} (existing @ new))"

section \<open>Export\<close>

definition EXPORT_MODES :: "string list" where
  "EXPORT_MODES = [''faithful'', ''day'']"

definition DEFAULT_EXPORT_MODE :: string where
  "DEFAULT_EXPORT_MODE = ''faithful''"

text \<open>A policy is JSON: what \<open>export_mode\<close> reads of it is the \<open>mode\<close> of its block, if it is a string.\<close>

definition export_mode :: "string option \<Rightarrow> string" where
  "export_mode mode = (case mode of None \<Rightarrow> DEFAULT_EXPORT_MODE
     | Some m \<Rightarrow> if m \<in> set EXPORT_MODES then m else DEFAULT_EXPORT_MODE)"

text \<open>\<open>date.fromisoformat\<close> on \<open>YYYY-MM-DD\<close>.\<close>

definition date_fromisoformat :: "string \<Rightarrow> py_exc + int" where
  "date_fromisoformat s =
    (if length s \<noteq> 10 \<or> s ! 4 \<noteq> CHR ''-'' \<or> s ! 7 \<noteq> CHR ''-'' then Inl ValueError
     else case (num2 s 0, num2 s 2, num2 s 5, num2 s 8) of
        (Some c, Some yy, Some m, Some d) \<Rightarrow> datetime_ymd (c * 100 + yy) m d
      | _ \<Rightarrow> Inl ValueError)"

definition native :: "temporal_assertion \<Rightarrow> string \<Rightarrow> py_exc + (int option \<times> string)" where
  "native a mode =
    (let v = str_or (a_value a) [] in
     if a_qualifier a \<noteq> NoQualifier then Inr (None, ''qualified'')
     else if a_precision a = Some Instant \<and> v \<noteq> [] then
       (case fromisoformat v of
          None \<Rightarrow> Inr (None, ''unparsed'')
        | Some (t, None) \<Rightarrow> Inr (None, ''no_offset'')
        | Some (t, Some off) \<Rightarrow> and_then (shift_us t (- off)) (\<lambda>u. Inr (Some u, ''exported'')))
     else if a_precision a = Some Day \<and> v \<noteq> [] \<and> CHR ''/'' \<notin> set v \<and> mode = ''day'' then
       and_then (date_fromisoformat v) (\<lambda>t.
         Inr (Some (if a_role a = Start then t else t + DAY_US - 1000), ''projected''))
     else Inr (None, ''precision_below_policy''))"

fun status_value :: "status \<Rightarrow> string" where
  "status_value Verified = ''verified''"
| "status_value Ambiguous = ''ambiguous''"
| "status_value Unresolved = ''unresolved''"
| "status_value Conflict = ''conflict''"

type_synonym candidate = "temporal_assertion \<times> int \<times> string"
type_synonym outcomes = "string \<rightharpoonup> string \<times> string option"

text \<open>Why an assertion is withheld before its value is looked at.\<close>

definition withheld_reason :: "temporal_assertion list \<Rightarrow> temporal_assertion \<Rightarrow> string option" where
  "withheld_reason ts a =
    (let conflicted = list_ex (\<lambda>b. a_status b = Conflict \<and> a_role b \<in> set BOUND_ROLES) ts;
         analyst_roles = a_role ` set (filter (\<lambda>b. a_origin b = Analyst) ts) in
     if a_role a \<notin> set BOUND_ROLES then Some ''window_role''
     else if a_role a \<in> analyst_roles \<and> a_origin a \<noteq> Analyst then Some ''superseded_by_analyst''
     else if a_status a \<noteq> Verified then Some (''status_'' @ status_value (a_status a))
     else if conflicted then Some ''conflict''
     else if a_evidence_label a \<in> {Some GAP, Some INFERRED} then Some ''evidence_label''
     else None)"

text \<open>The first loop: outcomes of the withheld, and the candidates in order.\<close>

fun sort_out :: "temporal_assertion list \<Rightarrow> string \<Rightarrow> temporal_assertion list \<Rightarrow> outcomes \<Rightarrow> candidate list \<Rightarrow>
    py_exc + outcomes \<times> candidate list" where
  "sort_out ts mode [] outcome cands = Inr (outcome, cands)"
| "sort_out ts mode (a # as) outcome cands =
    (case withheld_reason ts a of
       Some reason \<Rightarrow> sort_out ts mode as (outcome(a_id a \<mapsto> (''withheld'', Some reason))) cands
     | None \<Rightarrow> and_then (native a mode) (\<lambda>(dt, how). case dt of
          None \<Rightarrow> sort_out ts mode as (outcome(a_id a \<mapsto> (''withheld'', Some how))) cands
        | Some t \<Rightarrow> sort_out ts mode as outcome (cands @ [(a, t, how)])))"

definition cand_rank :: "candidate \<Rightarrow> int" where
  "cand_rank c = - int (case a_precision (fst c) of None \<Rightarrow> 0 | Some p \<Rightarrow> precision_rank p)"

definition ranked :: "role \<Rightarrow> candidate list \<Rightarrow> candidate list" where
  "ranked r cands = sort_key cand_rank (filter (\<lambda>c. a_role (fst c) = r) cands)"

definition withhold :: "string \<Rightarrow> candidate list \<Rightarrow> outcomes \<Rightarrow> outcomes" where
  "withhold reason cs outcome = fold (\<lambda>c oc. oc(a_id (fst c) \<mapsto> (''withheld'', Some reason))) cs outcome"

definition first_of :: "'a list \<Rightarrow> 'a option" where
  "first_of xs = (case xs of [] \<Rightarrow> None | x # _ \<Rightarrow> Some x)"

record time_decision =
  d_id :: string
  d_role :: role
  d_value :: "string option"
  d_precision :: "precision option"
  d_status :: status
  d_outcome :: string
  d_reason :: "string option"
  d_field :: "string option"

record time_payload =
  p_assertion :: temporal_assertion
  p_native :: "string option"
  p_projection :: "string option"

record export_plan =
  start_time :: "int option"
  stop_time :: "int option"
  decisions :: "time_decision list"
  assertions :: "time_payload list"

definition accept :: "string \<Rightarrow> candidate option \<Rightarrow> outcomes \<times> (string \<rightharpoonup> string) \<Rightarrow>
    outcomes \<times> (string \<rightharpoonup> string)" where
  "accept fname pick = (\<lambda>(outcome, slots). case pick of
      None \<Rightarrow> (outcome, slots)
    | Some (a, _, how) \<Rightarrow> (outcome(a_id a \<mapsto> (how, None)), slots(a_id a \<mapsto> fname)))"

definition decide :: "outcomes \<Rightarrow> (string \<rightharpoonup> string) \<Rightarrow> temporal_assertion \<Rightarrow> time_decision" where
  "decide outcome slots a =
    (let (state, reason) = (case outcome (a_id a) of None \<Rightarrow> (''withheld'', None) | Some x \<Rightarrow> x) in
     \<lparr>d_id = a_id a, d_role = a_role a, d_value = a_value a, d_precision = a_precision a,
      d_status = a_status a, d_outcome = state, d_reason = reason, d_field = slots (a_id a)\<rparr>)"

definition payload :: "outcomes \<Rightarrow> (string \<rightharpoonup> string) \<Rightarrow> temporal_assertion \<Rightarrow> time_payload" where
  "payload outcome slots a =
    \<lparr>p_assertion = a\<lparr>a_model_value := None\<rparr>, p_native = slots (a_id a),
     p_projection = (if slots (a_id a) \<noteq> None \<and> d_outcome (decide outcome slots a) = ''projected''
                     then Some ''day'' else None)\<rparr>"

text \<open>\<open>start and end and end[1] <= start[1]\<close>.\<close>

definition crossed_bounds :: "candidate option \<Rightarrow> candidate option \<Rightarrow> bool" where
  "crossed_bounds start stop = (case (start, stop) of
     (Some (_, s, _), Some (_, e, _)) \<Rightarrow> e \<le> s | _ \<Rightarrow> False)"

text \<open>The picks, then one decision and one payload per assertion.\<close>

definition finish_plan :: "temporal_assertion list \<Rightarrow> candidate option \<Rightarrow> candidate option \<Rightarrow> outcomes \<Rightarrow>
    export_plan" where
  "finish_plan ts start stop oc =
    (let (outcome, slots) = accept ''stop_time'' stop (accept ''start_time'' start (oc, Map.empty)) in
     \<lparr>start_time = map_option (fst \<circ> snd) start, stop_time = map_option (fst \<circ> snd) stop,
      decisions = map (decide outcome slots) ts, assertions = map (payload outcome slots) ts\<rparr>)"

definition export_plan :: "temporal_assertion list \<Rightarrow> string \<Rightarrow> py_exc + export_plan" where
  "export_plan ts mode0 =
    (let mode = export_mode (Some mode0) in
     and_then (sort_out ts mode ts Map.empty []) (\<lambda>(outcome0, cands).
       let starts = ranked Start cands; ends = ranked End cands;
           outcome1 = withhold ''less_precise'' (tl ends) (withhold ''less_precise'' (tl starts) outcome0);
           crossed = crossed_bounds (first_of starts) (first_of ends);
           outcome2 = (if crossed then withhold
               (if fst (snd (hd ends)) = fst (snd (hd starts)) then ''equal_bounds'' else ''order'')
               [hd starts, hd ends] outcome1 else outcome1);
           start = (if crossed then None else first_of starts);
           stop = (if crossed then None else first_of ends)
       in Inr (finish_plan ts start stop outcome2)))"

section \<open>Views\<close>

definition legacy_assertions :: "(nat \<Rightarrow> string) \<Rightarrow> string option \<Rightarrow> string option \<Rightarrow> temporal_assertion list" where
  "legacy_assertions new_id start stop =
    concat (map (\<lambda>(k, role, raw). case raw of
        None \<Rightarrow> []
      | Some v \<Rightarrow> if v = [] then [] else
         [\<lparr>a_id = new_id k, a_role = role, a_time_text = [], a_value = Some v, a_precision = None,
           a_qualifier = NoQualifier, a_first_last = None, a_model_value = None, a_alternatives = [],
           a_anchor = NoAnchor, a_anchor_source = None, a_anchor_value = None,
           a_evidence_label = None, a_status = Unresolved, a_reason = Some ''legacy'',
           a_doc_offset = None, a_origin = Legacy\<rparr>])
      [(0, Start, start), (1, End, stop)])"

definition shown_value :: "temporal_assertion \<Rightarrow> string option" where
  "shown_value a = opt_or (a_value a) (a_model_value a)"

definition pick_bound :: "temporal_assertion list \<Rightarrow> role \<Rightarrow> string option" where
  "pick_bound ts role =
    (let members = filter (\<lambda>a. a_role a = role \<and> shown_value a \<noteq> None \<and> shown_value a \<noteq> Some []) ts;
         ordered = filter (\<lambda>a. a_origin a = Analyst) members @ filter (\<lambda>a. a_status a = Verified) members @ members
     in (case ordered of [] \<Rightarrow> None | a # _ \<Rightarrow> shown_value a))"

definition display_bounds :: "temporal_assertion list \<Rightarrow> string option \<times> string option" where
  "display_bounds ts = (pick_bound ts Start, pick_bound ts End)"

definition status_counts :: "temporal_assertion list \<Rightarrow> (string, nat) dict" where
  "status_counts ts = fold (\<lambda>a counts. dset (status_value (a_status a))
      (dget counts (status_value (a_status a)) 0 + 1) counts) ts []"

section \<open>The window of a reading\<close>

declare window.simps [simp del]

lemma window_plain: "s \<noteq> [] \<Longrightarrow> CHR ''/'' \<notin> set s \<Longrightarrow>
    window (Some s) = (case window_try s of Inl ValueError \<Rightarrow> Inr None | r \<Rightarrow> r)"
  by (subst window.simps) simp

lemma digit_char_lower: "lower_char (digit_char n) = digit_char n" "digit_char n \<noteq> CHR ''t''"
proof -
  have "is_digit (digit_char n)" by simp
  then have "48 \<le> (of_char (digit_char n) :: nat)" "(of_char (digit_char n) :: nat) \<le> 57"
    by (simp_all add: is_digit_def Let_def)
  then show "lower_char (digit_char n) = digit_char n" "digit_char n \<noteq> CHR ''t''"
    by (auto simp: lower_char_def is_upper_letter_def Let_def)
qed

definition numeric_text :: "string \<Rightarrow> bool" where
  "numeric_text s \<longleftrightarrow> (\<forall>c \<in> set s. (\<exists>n. c = digit_char n) \<or> c = CHR ''-'')"

lemma numeric_text_parts: "numeric_text (pad w n)" "numeric_text (a @ b) \<longleftrightarrow> numeric_text a \<and> numeric_text b"
  "numeric_text (CHR ''-'' # s) \<longleftrightarrow> numeric_text s" "numeric_text []"
  by (auto simp: numeric_text_def dest: pad_digits)

lemma window_numeric:
  assumes "numeric_text s" "s \<noteq> []"
  shows "window (Some s) = (case window_try s of Inl ValueError \<Rightarrow> Inr None | r \<Rightarrow> r)"
    "CHR ''t'' \<notin> set (lower s)"
proof -
  have "CHR ''/'' \<notin> set s"
  proof
    assume "CHR ''/'' \<in> set s"
    with assms(1) obtain n where "CHR ''/'' = digit_char n" by (auto simp: numeric_text_def)
    with digit_char(7) [of n] show False by simp
  qed
  with assms(2) show "window (Some s) = (case window_try s of Inl ValueError \<Rightarrow> Inr None | r \<Rightarrow> r)"
    by (rule window_plain)
  show "CHR ''t'' \<notin> set (lower s)"
  proof
    assume "CHR ''t'' \<in> set (lower s)"
    then obtain c where c: "c \<in> set s" "lower_char c = CHR ''t''" by (auto simp: lower_def)
    have "lower_char (CHR ''-'') = CHR ''-''" by code_simp
    with c assms(1) obtain n where "c = digit_char n" by (auto simp: numeric_text_def)
    with c(2) digit_char_lower [of n] show False by simp
  qed
qed

lemma dash_free: "CHR ''-'' \<notin> set (pad w n)"
proof
  assume "CHR ''-'' \<in> set (pad w n)"
  then obtain k where "CHR ''-'' = digit_char k" using pad_digits by blast
  with digit_char(6) [of k] show False by simp
qed

lemma split_texts:
  "split_on (CHR ''-'') (pad w a) = [pad w a]"
  "split_on (CHR ''-'') (pad w a @ CHR ''-'' # pad v b) = [pad w a, pad v b]"
  "split_on (CHR ''-'') (pad w a @ CHR ''-'' # pad v b @ CHR ''-'' # pad u c) = [pad w a, pad v b, pad u c]"
  by (simp_all add: split_on_plain split_on_append dash_free)

lemma py_int_e_pad: "0 < w \<Longrightarrow> w \<le> 4 \<Longrightarrow> 0 \<le> n \<Longrightarrow> n < 10 ^ w \<Longrightarrow> py_int_e (pad w (nat n)) = Inr n"
  by (simp add: py_int_e_def py_int_pad)

definition year_window :: "int \<Rightarrow> int \<times> int" where
  "year_window y = (day_number y 1 1 * DAY_US, day_number (y + 1) 1 1 * DAY_US)"

definition months_window :: "int \<Rightarrow> int \<Rightarrow> int \<Rightarrow> int \<times> int" where
  "months_window y first n = (day_number y first 1 * DAY_US,
     (day_number y first 1 + sum_list (map (days_in_month y) [first..first + n - 1])) * DAY_US)"

definition day_window :: "int \<Rightarrow> int \<Rightarrow> int \<Rightarrow> int \<times> int" where
  "day_window y m d = (day_number y m d * DAY_US, (day_number y m d + 1) * DAY_US)"

lemma day_number_months:
  assumes "1 \<le> first" "first + n \<le> 13" "1 \<le> n"
  shows "(case shift_month y first n of (ny, nm) \<Rightarrow> day_number ny nm 1) =
     day_number y first 1 + sum_list (map (days_in_month y) [first..first + n - 1])"
    "1 \<le> y \<Longrightarrow> y < 9999 \<Longrightarrow> (case shift_month y first n of (ny, nm) \<Rightarrow> valid_date ny nm 1)"
proof -
  have split: "[1..first + n - 1] = [1..first - 1] @ [first..first + n - 1]"
    using assms by (intro upto_split1) auto
  have sum: "days_before_month y (first + n) = days_before_month y first + sum_list (map (days_in_month y) [first..first + n - 1])"
    using assms by (simp add: days_before_month_def split)
  have "shift_month y first n = (if first + n = 13 then (y + 1, 1) else (y, first + n))"
  proof (cases "first + n = 13")
    case True
    then have idx: "y * 12 + (first - 1) + n = (y + 1) * 12" by simp
    show ?thesis unfolding shift_month_def Let_def idx using True by simp
  next
    case False
    define k where "k = first - 1 + n"
    have k: "0 \<le> k" "k < 12" using False assms by (auto simp: k_def)
    have idx: "y * 12 + (first - 1) + n = y * 12 + k" by (simp add: k_def)
    have "(y * 12 + k) div 12 = y" "(y * 12 + k) mod 12 = k" using k by simp_all
    with False show ?thesis unfolding shift_month_def Let_def idx by (simp add: k_def)
  qed
  then show "(case shift_month y first n of (ny, nm) \<Rightarrow> day_number ny nm 1) =
     day_number y first 1 + sum_list (map (days_in_month y) [first..first + n - 1])"
    "1 \<le> y \<Longrightarrow> y < 9999 \<Longrightarrow> (case shift_month y first n of (ny, nm) \<Rightarrow> valid_date ny nm 1)"
    using sum days_before_year_next [of y] assms
    by (auto simp: day_number_def intro!: valid_first split: if_splits)
qed

lemma month_span_window:
  assumes "1 \<le> y" "y < 9999" "1 \<le> first" "first + n \<le> 13" "1 \<le> n"
  shows "month_span y first n = Inr (months_window y first n)"
proof -
  obtain ny nm where s: "shift_month y first n = (ny, nm)" by fastforce
  have "valid_date y first 1" using assms by (intro valid_first) auto
  moreover have "valid_date ny nm 1" "day_number ny nm 1 =
      day_number y first 1 + sum_list (map (days_in_month y) [first..first + n - 1])"
    using day_number_months [of first n y] assms s by auto
  ultimately show ?thesis by (simp add: month_span_def s datetime_ymd_valid months_window_def)
qed

lemma window_readings:
  assumes y: "plausible y"
  shows "window (r_value (year_value y)) = Inr (Some (year_window y))"
    and "1 \<le> m \<Longrightarrow> m \<le> 12 \<Longrightarrow> window (r_value (month_value y m)) = Inr (Some (months_window y m 1))"
    and "1 \<le> q \<Longrightarrow> q \<le> 4 \<Longrightarrow> window (r_value (quarter_value y q)) = Inr (Some (months_window y (3 * q - 2) 3))"
    and "1 \<le> h \<Longrightarrow> h \<le> 2 \<Longrightarrow> window (r_value (half_value y h)) = Inr (Some (months_window y (6 * h - 5) 6))"
    and "valid_date y m d \<Longrightarrow> window (r_value (day_value y m d)) = Inr (Some (day_window y m d))"
proof -
  note y' = y [unfolded plausible_def]
  have year: "py_int_e (pad 4 (nat y)) = Inr y" using y' by (intro py_int_e_pad) auto
  have two: "py_int_e (pad 2 (nat k)) = Inr k" if "0 \<le> k" "k \<le> 41" for k using that by (intro py_int_e_pad) auto
  have first: "datetime_ymd z 1 1 = Inr (day_number z 1 1 * DAY_US)" if "1 \<le> z" "z \<le> 9999" for z
    using that by (intro datetime_ymd_valid valid_first) auto
  have ne: "pad 4 k \<noteq> []" for k by (simp flip: length_0_conv)
  have ym: "window (Some (month_text y k)) = (case
      (if 1 \<le> k \<and> k \<le> 12 then and_then (month_span y k 1) (\<lambda>w. Inr (Some w))
       else if 33 \<le> k \<and> k \<le> 36 then and_then (month_span y (3 * (k - 33) + 1) 3) (\<lambda>w. Inr (Some w))
       else if k = 40 \<or> k = 41 then and_then (month_span y (if k = 40 then 1 else 7) 6) (\<lambda>w. Inr (Some w))
       else Inr None) of Inl ValueError \<Rightarrow> Inr None | r \<Rightarrow> r)" if "0 \<le> k" "k \<le> 41" for k
  proof -
    have "numeric_text (month_text y k)" "month_text y k \<noteq> []"
      using ne by (simp_all add: month_text_def numeric_text_parts)
    note w = window_numeric [OF this]
    show ?thesis unfolding w(1) using w(2) year two [OF that]
      by (simp add: window_try_def month_text_def split_texts)
  qed
  show "window (r_value (year_value y)) = Inr (Some (year_window y))"
  proof -
    have "numeric_text (pad 4 (nat y))" by (simp add: numeric_text_parts)
    note w = window_numeric [OF this ne]
    show ?thesis using y y' w first [of y] first [of "y + 1"] year
      by (simp add: year_value_def verified_reading_def window_try_def split_texts year_window_def)
  qed
  show "window (r_value (month_value y m)) = Inr (Some (months_window y m 1))" if "1 \<le> m" "m \<le> 12"
    using that y y' month_span_window [of y m 1] by (simp add: month_value_def verified_reading_def ym)
  show "window (r_value (quarter_value y q)) = Inr (Some (months_window y (3 * q - 2) 3))" if "1 \<le> q" "q \<le> 4"
  proof -
    have "3 * (32 + q - 33) + 1 = 3 * q - 2" by simp
    then show ?thesis using that y y' month_span_window [of y "3 * q - 2" 3]
      by (simp add: quarter_value_def verified_reading_def ym)
  qed
  show "window (r_value (half_value y h)) = Inr (Some (months_window y (6 * h - 5) 6))" if "1 \<le> h" "h \<le> 2"
  proof -
    have "(if 39 + h = 40 then 1 else 7) = 6 * h - 5" using that by auto
    moreover have "39 + h = 40 \<or> 39 + h = 41" using that by auto
    ultimately show ?thesis using that y y' month_span_window [of y "6 * h - 5" 6]
      by (simp add: half_value_def verified_reading_def ym)
  qed
  show "window (r_value (day_value y m d)) = Inr (Some (day_window y m d))" if v: "valid_date y m d"
  proof -
    have md: "0 \<le> m" "m \<le> 41" "0 \<le> d" "d \<le> 41" using v by (auto simp: valid_date_def days_in_month_def split: if_splits)
    have "numeric_text (day_text y m d)" "day_text y m d \<noteq> []"
      using ne by (simp_all add: day_text_def numeric_text_parts)
    note w = window_numeric [OF this]
    have t: "datetime_ymd y m d = Inr (day_number y m d * DAY_US)" by (rule datetime_ymd_valid [OF v])
    have "0 \<le> day_number y m d" "day_number y m d + 1 \<le> days_before_year 2101"
      using day_number_bounds [OF v] days_before_year_mono [of "y + 1" 2101] days_before_year_mono [of 1 y] y'
      by (simp_all add: day_number_def days_before_year_1)
    moreover have "days_before_year 2101 = 767009" by (simp add: days_before_year_def)
    ultimately have "shift_us (day_number y m d * DAY_US) DAY_US = Inr ((day_number y m d + 1) * DAY_US)"
      by (simp add: shift_us_def Let_def MAX_US_def DAY_US_def algebra_simps)
    then show ?thesis using v y w year two t md
      by (simp add: day_value_def verified_reading_def window_try_def day_text_def split_texts day_window_def)
  qed
qed

text \<open>One window lies inside another.\<close>

definition inside :: "int \<times> int \<Rightarrow> int \<times> int \<Rightarrow> bool" where
  "inside a b \<longleftrightarrow> fst b \<le> fst a \<and> snd a \<le> snd b"

lemma months_window_eq:
  assumes "1 \<le> first" "first + n \<le> 13" "1 \<le> n"
  shows "months_window y first n = ((days_before_year y + days_before_month y first) * DAY_US,
     (days_before_year y + days_before_month y (first + n)) * DAY_US)"
proof -
  have "[1..first + n - 1] = [1..first - 1] @ [first..first + n - 1]"
    using assms by (intro upto_split1) auto
  then show ?thesis by (simp add: months_window_def day_number_def days_before_month_def)
qed

lemma scale_le: "a \<le> b \<Longrightarrow> (a::int) * DAY_US \<le> b * DAY_US"
  by (simp add: DAY_US_def)

lemma months_inside:
  assumes "1 \<le> b" "b \<le> a" "a + n \<le> b + k" "b + k \<le> 13" "1 \<le> n"
  shows "inside (months_window y a n) (months_window y b k)"
proof -
  have "days_before_month y b \<le> days_before_month y a" "days_before_month y (a + n) \<le> days_before_month y (b + k)"
    using assms by (intro days_before_month_mono; simp)+
  then show ?thesis using assms months_window_eq [of a n y] months_window_eq [of b k y]
    by (simp add: inside_def scale_le)
qed

lemma year_window_eq: "year_window y = months_window y 1 12"
proof -
  have "days_before_year (y + 1) = days_before_year y + days_before_month y (1 + 12)"
    using days_before_year_next [of y] by simp
  then show ?thesis unfolding months_window_eq [of 1 12 y, simplified]
    by (simp add: year_window_def day_number_def)
qed

lemma day_inside_month:
  assumes "valid_date y m d"
  shows "inside (day_window y m d) (months_window y m 1)"
proof -
  have m: "1 \<le> m" "m + 1 \<le> 13" "1 \<le> d" "d \<le> days_in_month y m" using assms by (auto simp: valid_date_def)
  then have "days_before_month y (m + 1) = days_before_month y m + days_in_month y m"
    by (intro days_before_month_next)
  with m show ?thesis unfolding months_window_eq [of m 1 y, OF m(1,2) order_refl]
    by (auto simp: inside_def day_window_def day_number_def intro!: scale_le)
qed

text \<open>A date read to any precision covers the expected stretch of the calendar: the window of a
  day lies in the window of its month, that in its quarter's, that in its half's, that in its
  year's, and for no plausible year does reading or widening a date raise.\<close>

lemma window_precisions_nest:
  assumes "plausible y" "valid_date y m d"
  shows "\<exists>dw mw qw hw yw.
    window (r_value (day_value y m d)) = Inr (Some dw) \<and>
    window (r_value (month_value y m)) = Inr (Some mw) \<and>
    window (r_value (quarter_value y ((m - 1) div 3 + 1))) = Inr (Some qw) \<and>
    window (r_value (half_value y ((m - 1) div 6 + 1))) = Inr (Some hw) \<and>
    window (r_value (year_value y)) = Inr (Some yw) \<and>
    inside dw mw \<and> inside mw qw \<and> inside qw hw \<and> inside hw yw"
proof -
  define q h where "q = (m - 1) div 3 + 1" and "h = (m - 1) div 6 + 1"
  have m: "1 \<le> m" "m \<le> 12" using assms(2) by (simp_all add: valid_date_def)
  then have q: "1 \<le> q" "q \<le> 4" "3 * q - 2 \<le> m" "m + 1 \<le> 3 * q - 2 + 3"
    and h: "1 \<le> h" "h \<le> 2" "6 * h - 5 \<le> 3 * q - 2" "3 * q - 2 + 3 \<le> 6 * h - 5 + 6"
    unfolding q_def h_def by presburger+
  note w = window_readings [OF assms(1)]
  have "inside (months_window y m 1) (months_window y (3 * q - 2) 3)"
    "inside (months_window y (3 * q - 2) 3) (months_window y (6 * h - 5) 6)"
    "inside (months_window y (6 * h - 5) 6) (year_window y)"
    unfolding year_window_eq using q h by (auto intro!: months_inside)
  then show ?thesis unfolding q_def [symmetric] h_def [symmetric]
    using w(1) w(2) [OF m] w(3) [OF q(1,2)] w(4) [OF h(1,2)] w(5) [OF assms(2)] day_inside_month [OF assms(2)]
    by blast
qed

lemma window_precisions_nest_witness:
  "window (Some ''2023-03-12'') = Inr (Some (day_window 2023 3 12)) \<and>
   (\<exists>dw yw. window (r_value (day_value 2023 3 12)) = Inr (Some dw) \<and>
      window (r_value (year_value 2023)) = Inr (Some yw))"
proof -
  have "plausible 2023" "valid_date 2023 3 12" by (simp_all add: plausible_def valid_date_def days_in_month_def)
  moreover have "window (Some ''2023-03-12'') = Inr (Some (day_window 2023 3 12))" by code_simp
  ultimately show ?thesis using window_precisions_nest [of 2023 3 12] by blast
qed


section \<open>Contradictions and the merge\<close>

lemma mark_length [simp]: "length (mark bad out) = length out"
  by (simp add: mark_def)

lemma mark_nth: "i < length out \<Longrightarrow> mark bad out ! i =
    (if i \<in> bad \<and> a_status (out ! i) = Verified
     then (out ! i)\<lparr>a_status := Conflict, a_reason := Some ''contradicts''\<rparr> else out ! i)"
  by (simp add: mark_def Let_def)

lemma mark_fields [simp]:
  assumes "i < length out"
  shows "a_role (mark bad out ! i) = a_role (out ! i)" "a_origin (mark bad out ! i) = a_origin (out ! i)"
    "a_value (mark bad out ! i) = a_value (out ! i)" "a_id (mark bad out ! i) = a_id (out ! i)"
    "a_status (mark bad out ! i) \<in> {Verified, Conflict} \<longleftrightarrow> a_status (out ! i) \<in> {Verified, Conflict}"
    "temporal_identity (mark bad out ! i) = temporal_identity (out ! i)"
  using assms by (simp_all add: mark_nth temporal_identity_def split: option.split)

lemma judged_mark: "judged_members (mark bad out) r = judged_members out r"
proof -
  have *: "filter P [0..<length out] = filter Q [0..<length out]"
    if "\<And>i. i < length out \<Longrightarrow> P i = Q i" for P Q
    using that by (intro filter_cong) auto
  have m: "filter (\<lambda>i. a_role (mark bad out ! i) = r) [0..<length out] = filter (\<lambda>i. a_role (out ! i) = r) [0..<length out]"
    by (rule *) simp
  have a: "filter (\<lambda>i. a_origin (mark bad out ! i) = Analyst) (filter (\<lambda>i. a_role (out ! i) = r) [0..<length out]) =
    filter (\<lambda>i. a_origin (out ! i) = Analyst) (filter (\<lambda>i. a_role (out ! i) = r) [0..<length out])"
    by (rule filter_cong) auto
  show ?thesis unfolding judged_members_def mark_length m a Let_def
  proof (rule filter_cong [OF refl])
    fix i assume "i \<in> set (if filter (\<lambda>i. a_origin (out ! i) = Analyst) (filter (\<lambda>i. a_role (out ! i) = r) [0..<length out]) \<noteq> []
       then filter (\<lambda>i. a_origin (out ! i) = Analyst) (filter (\<lambda>i. a_role (out ! i) = r) [0..<length out])
       else filter (\<lambda>i. a_role (out ! i) = r) [0..<length out])"
    then have "i < length out" by (auto split: if_splits)
    then show "(a_status (mark bad out ! i) \<in> {Verified, Conflict} \<and> a_value (mark bad out ! i) \<noteq> None) =
        (a_status (out ! i) \<in> {Verified, Conflict} \<and> a_value (out ! i) \<noteq> None)"
      by (simp only: mark_fields)
  qed
qed

lemma judged_index: "i \<in> set (judged_members out r) \<Longrightarrow> i < length out"
  by (auto simp: judged_members_def Let_def split: if_splits)

lemma map_raise_cong: "(\<And>x. x \<in> set xs \<Longrightarrow> f x = g x) \<Longrightarrow> map_raise f xs = map_raise g xs"
  by (induction xs) auto

lemma by_role_mark: "by_role (mark bad out) r = by_role out r"
proof -
  have "map_raise (\<lambda>i. and_then (window (a_value (mark bad out ! i))) (\<lambda>w. Inr (i, w))) (judged_members out r) =
      map_raise (\<lambda>i. and_then (window (a_value (out ! i))) (\<lambda>w. Inr (i, w))) (judged_members out r)"
    by (rule map_raise_cong) (auto dest!: judged_index)
  then show ?thesis by (simp add: by_role_def judged_mark)
qed

lemma mark_mark: "mark bad (mark bad out) = mark bad out"
  by (rule nth_equalityI) (auto simp: mark_nth)

lemma mark_conflicts_idem: "mark_conflicts ts = Inr out \<Longrightarrow> mark_conflicts out = Inr out"
  by (auto simp: mark_conflicts_def and_then_Inr by_role_mark mark_mark)

lemma mark_conflicts_Inr:
  assumes "mark_conflicts ts = Inr out"
  obtains starts ends where "by_role ts Start = Inr starts" "by_role ts End = Inr ends"
    "out = mark (set (contradicted starts ends)) ts"
  using assms by (auto simp: mark_conflicts_def and_then_Inr)

lemma by_role_entry:
  assumes "by_role out r = Inr ws" "i \<in> set (judged_members out r)" "window (a_value (out ! i)) = Inr (Some w)"
  shows "(i, w) \<in> set ws"
proof -
  from assms(1) obtain vs where vs: "map_raise (\<lambda>i. and_then (window (a_value (out ! i))) (\<lambda>w. Inr (i, w)))
      (judged_members out r) = Inr vs"
    and ws: "ws = concat (map (\<lambda>(i, w). case w of None \<Rightarrow> [] | Some x \<Rightarrow> [(i, x)]) vs)"
    by (auto simp: by_role_def and_then_Inr)
  have "(i, Some w) \<in> set vs" by (rule map_raise_in [OF vs assms(2)]) (simp add: assms(3))
  then show ?thesis unfolding ws by (cases w) (auto intro!: bexI [of _ "(i, Some w)"])
qed

lemma disjoint_pairs_in: "i \<in> set (disjoint_pairs ws) \<Longrightarrow> i \<in> fst ` set ws"
  by (induction ws rule: disjoint_pairs.induct) (force split: if_splits)+

lemma disjoint_pairs_both:
  "(i, w) \<in> set ws \<Longrightarrow> (j, v) \<in> set ws \<Longrightarrow> i \<noteq> j \<Longrightarrow> \<not> overlap w v \<Longrightarrow> i \<in> set (disjoint_pairs ws)"
proof (induction ws rule: disjoint_pairs.induct)
  case (2 k u ws)
  have sym: "overlap u' v' \<longleftrightarrow> overlap v' u'" for u' v' by (auto simp: overlap_def)
  consider "(i, w) = (k, u)" "(j, v) \<in> set ws" | "(j, v) = (k, u)" "(i, w) \<in> set ws"
    | "(i, w) \<in> set ws" "(j, v) \<in> set ws" | "(i, w) = (k, u)" "(j, v) = (k, u)" using 2(2,3) by auto
  then show ?case
  proof cases
    case 1
    then have "i \<in> set (case (j, v) of (j, v) \<Rightarrow> if overlap u v then [] else [k, j])" using 2(5) by simp
    with 1(2) show ?thesis by (simp only: disjoint_pairs.simps set_append set_concat set_map) blast
  next
    case 2
    then have "i \<in> set (case (i, w) of (j, v) \<Rightarrow> if overlap u v then [] else [k, j])"
      using \<open>\<not> overlap w v\<close> sym [of v w] by simp
    with 2(2) show ?thesis by (simp only: disjoint_pairs.simps set_append set_concat set_map) blast
  next
    case 3
    with 2 show ?thesis by simp
  next
    case 4
    with \<open>i \<noteq> j\<close> show ?thesis by simp
  qed
qed simp

lemma contradicted_pair:
  assumes "(i, u) \<in> set starts" "(j, v) \<in> set ends" "\<not> fst u < snd v"
  shows "i \<in> set (contradicted starts ends)"
proof -
  have "i \<in> set (case (j, v) of (j, we) \<Rightarrow> if fst u \<ge> snd we then [i, j] else [])" using assms(3) by simp
  with assms(2) have "i \<in> set (concat (map (\<lambda>(j, we). if fst u \<ge> snd we then [i, j] else []) ends))"
    by (simp only: set_concat set_map) blast
  then have "i \<in> set (case (i, u) of (i, ws) \<Rightarrow> concat (map (\<lambda>(j, we). if fst ws \<ge> snd we then [i, j] else []) ends))"
    by simp
  with assms(1) show ?thesis by (simp only: contradicted_def set_append set_concat set_map) blast
qed

text \<open>C4. After \<open>mark_conflicts\<close> the verified bounds agree: a start and an end both still verified
  and both in charge of their role can be ordered, two starts (two ends) can be the same
  moment. Nothing else changed: the list keeps its length and order, and an assertion that
  changed was verified, is now a conflict and kept its role, value and identity.\<close>

lemma mark_conflicts_consistent:
  assumes "mark_conflicts ts = Inr out"
  shows "(\<forall>i j r r' u v. i \<in> set (judged_members out r) \<longrightarrow> j \<in> set (judged_members out r') \<longrightarrow> i \<noteq> j \<longrightarrow>
        a_status (out ! i) = Verified \<longrightarrow> a_status (out ! j) = Verified \<longrightarrow>
        window (a_value (out ! i)) = Inr (Some u) \<longrightarrow> window (a_value (out ! j)) = Inr (Some v) \<longrightarrow>
        (r = Start \<and> r' = End \<longrightarrow> fst u < snd v) \<and> (r = r' \<and> r \<in> {Start, End} \<longrightarrow> overlap u v)) \<and>
    list_all2 (\<lambda>a b. b = a \<or> (a_status a = Verified \<and>
        b = a\<lparr>a_status := Conflict, a_reason := Some ''contradicts''\<rparr>)) ts out \<and>
    mark_conflicts out = Inr out"
proof (intro conjI allI impI)
  from assms obtain starts ends where se: "by_role ts Start = Inr starts" "by_role ts End = Inr ends"
    and out: "out = mark (set (contradicted starts ends)) ts" by (rule mark_conflicts_Inr)
  note se' = se [folded by_role_mark [of "set (contradicted starts ends)" ts], folded out]
  fix i j r r' u v
  assume ij: "i \<in> set (judged_members out r)" "j \<in> set (judged_members out r')" "i \<noteq> j"
    and ver: "a_status (out ! i) = Verified" "a_status (out ! j) = Verified"
    and w: "window (a_value (out ! i)) = Inr (Some u)" "window (a_value (out ! j)) = Inr (Some v)"
  have len: "i < length ts" using judged_index [OF ij(1)] by (simp add: out)
  have ok: "i \<notin> set (contradicted starts ends)"
    using ver(1) len by (auto simp: out mark_nth split: if_splits)
  show "fst u < snd v" if "r = Start \<and> r' = End"
  proof (rule ccontr)
    assume "\<not> fst u < snd v"
    moreover have "(i, u) \<in> set starts" "(j, v) \<in> set ends"
      using that ij w by_role_entry [OF se'(1)] by_role_entry [OF se'(2)] by blast+
    ultimately have "i \<in> set (contradicted starts ends)" using contradicted_pair by blast
    with ok show False ..
  qed
  show "overlap u v" if "r = r' \<and> r \<in> {Start, End}"
  proof (rule ccontr)
    assume no: "\<not> overlap u v"
    have "((i, u) \<in> set starts \<and> (j, v) \<in> set starts) \<or> ((i, u) \<in> set ends \<and> (j, v) \<in> set ends)"
      using that ij w by_role_entry [OF se'(1)] by_role_entry [OF se'(2)] by blast
    then have "i \<in> set (disjoint_pairs starts) \<or> i \<in> set (disjoint_pairs ends)"
      using disjoint_pairs_both [of i u _ j v] ij(3) no by blast
    with ok show False by (auto simp: contradicted_def)
  qed
next
  show "list_all2 (\<lambda>a b. b = a \<or> (a_status a = Verified \<and>
        b = a\<lparr>a_status := Conflict, a_reason := Some ''contradicts''\<rparr>)) ts out"
    using assms by (auto elim!: mark_conflicts_Inr simp: list_all2_conv_all_nth mark_nth split: if_splits)
  show "mark_conflicts out = Inr out" by (rule mark_conflicts_idem [OF assms])
qed

lemma dedup_times_spec:
  "set (dedup_times seen as) \<subseteq> set as"
  "distinct (map temporal_identity (dedup_times seen as))"
  "temporal_identity ` set (dedup_times seen as) = temporal_identity ` set as - seen"
  by (induction seen as rule: dedup_times.induct) (auto simp: Let_def)

lemma dedup_times_append:
  "dedup_times seen (as @ bs) = dedup_times seen as @ dedup_times (seen \<union> temporal_identity ` set as) bs"
  by (induction seen as rule: dedup_times.induct) (auto simp: Let_def insert_absorb Un_commute)

lemma dedup_times_fresh:
  "distinct (map temporal_identity as) \<Longrightarrow> temporal_identity ` set as \<inter> seen = {} \<Longrightarrow> dedup_times seen as = as"
  by (induction as arbitrary: seen) (auto simp: Let_def)

lemma dedup_times_known: "temporal_identity ` set as \<subseteq> seen \<Longrightarrow> dedup_times seen as = []"
  by (induction as arbitrary: seen) (auto simp: Let_def)

lemma mark_conflicts_ids:
  assumes "mark_conflicts ts = Inr out"
  shows "map temporal_identity out = map temporal_identity ts"
  using assms by (auto elim!: mark_conflicts_Inr intro!: nth_equalityI)

text \<open>The merge is the union by identity: every assertion of either list is represented,
  none is represented twice, and none is invented. Merging in nothing new changes nothing.\<close>

lemma merge_times_union:
  assumes "merge_times xs ys = Inr out"
  shows "temporal_identity ` set out = temporal_identity ` (set xs \<union> set ys) \<and>
    distinct (map temporal_identity out) \<and>
    (\<forall>zs. temporal_identity ` set zs \<subseteq> temporal_identity ` (set xs \<union> set ys) \<longrightarrow> merge_times out zs = Inr out)"
proof -
  have m: "mark_conflicts (dedup_times {} (xs @ ys)) = Inr out" using assms by (simp add: merge_times_def)
  note ids = mark_conflicts_ids [OF m]
  have "temporal_identity ` set out = temporal_identity ` set (dedup_times {} (xs @ ys))"
    by (metis ids list.set_map)
  then have 1: "temporal_identity ` set out = temporal_identity ` (set xs \<union> set ys)"
    by (simp add: dedup_times_spec(3))
  have 2: "distinct (map temporal_identity out)" by (simp add: ids dedup_times_spec(2))
  have "merge_times out zs = Inr out"
    if "temporal_identity ` set zs \<subseteq> temporal_identity ` (set xs \<union> set ys)" for zs
    using that 1 2 mark_conflicts_idem [OF m]
    by (simp add: merge_times_def dedup_times_append dedup_times_fresh dedup_times_known)
  with 1 2 show ?thesis by blast
qed

section \<open>The export plan\<close>

text \<open>What may fill a native field: a verified bound, not superseded, not in a contradicted list,
  of a source grade, whose own timestamp is the one exported.\<close>

definition exportable :: "temporal_assertion list \<Rightarrow> string \<Rightarrow> candidate \<Rightarrow> bool" where
  "exportable ts mode c \<longleftrightarrow> (case c of (a, t, how) \<Rightarrow>
     a \<in> set ts \<and> withheld_reason ts a = None \<and> native a mode = Inr (Some t, how))"

lemma sort_out_candidates:
  "sort_out ts mode as oc cands = Inr (oc', cands') \<Longrightarrow> set as \<subseteq> set ts \<Longrightarrow>
   \<forall>c \<in> set cands. exportable ts mode c \<Longrightarrow> \<forall>c \<in> set cands'. exportable ts mode c"
proof (induction as arbitrary: oc cands)
  case (Cons a as)
  have rest: "set as \<subseteq> set ts" and a: "a \<in> set ts" using Cons.prems(2) by simp_all
  note IH = Cons.IH [OF _ rest]
  show ?case
  proof (cases "withheld_reason ts a")
    case (Some w)
    with Cons.prems(1) show ?thesis by (intro IH [OF _ Cons.prems(3)]) simp
  next
    case None
    with Cons.prems(1) obtain dt how where n: "native a mode = Inr (dt, how)"
      by (auto simp: and_then_Inr)
    show ?thesis
    proof (cases dt)
      case None
      with n \<open>withheld_reason ts a = None\<close> Cons.prems(1) show ?thesis
        by (intro IH [OF _ Cons.prems(3)]) simp
    next
      case (Some t)
      with n None a have "exportable ts mode (a, t, how)" by (simp add: exportable_def)
      with Cons.prems(3) have "\<forall>c \<in> set (cands @ [(a, t, how)]). exportable ts mode c" by simp
      moreover have "sort_out ts mode as oc (cands @ [(a, t, how)]) = Inr (oc', cands')"
        using n None Some Cons.prems(1) by simp
      ultimately show ?thesis by (intro IH)
    qed
  qed
qed simp

lemma ranked_in: "c \<in> set (ranked r cands) \<longleftrightarrow> c \<in> set cands \<and> a_role (fst c) = r"
  by (auto simp: ranked_def)

lemma first_of_in: "first_of xs = Some x \<Longrightarrow> x \<in> set xs"
  by (cases xs) (auto simp: first_of_def)

lemma first_of_ranked:
  assumes "first_of (ranked r cands) = Some c" "c' \<in> set cands" "a_role (fst c') = r"
  shows "cand_rank c \<le> cand_rank c'"
proof -
  obtain cs where r: "ranked r cands = c # cs" using assms(1) by (cases "ranked r cands") (auto simp: first_of_def)
  have "sorted (map cand_rank (ranked r cands))" by (simp add: ranked_def)
  moreover have "c' \<in> set (c # cs)" using assms(2,3) ranked_in [of c' r cands] r by simp
  ultimately show ?thesis using r by auto
qed

text \<open>The plan with its two picks named.\<close>

lemma export_plan_run:
  assumes "export_plan ts mode = Inr p"
  obtains oc cands start stop where
    "sort_out ts (export_mode (Some mode)) ts Map.empty [] = Inr (oc, cands)"
    "start_time p = map_option (fst \<circ> snd) start" "stop_time p = map_option (fst \<circ> snd) stop"
    "start = None \<or> start = first_of (ranked Start cands)" "stop = None \<or> stop = first_of (ranked End cands)"
    "\<And>s e. start = Some s \<Longrightarrow> stop = Some e \<Longrightarrow> fst (snd s) < fst (snd e)"
proof -
  from assms obtain oc cands where s: "sort_out ts (export_mode (Some mode)) ts Map.empty [] = Inr (oc, cands)"
    by (auto simp: export_plan_def Let_def and_then_Inr)
  define crossed where "crossed = crossed_bounds (first_of (ranked Start cands)) (first_of (ranked End cands))"
  show ?thesis
  proof (rule that [OF s])
    show "start_time p = map_option (fst \<circ> snd) (if crossed then None else first_of (ranked Start cands))"
      "stop_time p = map_option (fst \<circ> snd) (if crossed then None else first_of (ranked End cands))"
      using assms by (auto simp: export_plan_def finish_plan_def Let_def s crossed_def split_beta)
  qed (auto simp: crossed_def crossed_bounds_def split: if_splits option.splits)
qed


text \<open>One decision per assertion, in order: the ledger and \<open>x_temporal_assertions\<close> account for
  every date of the edge, exported or withheld, and change none of its fields but the model's reading.\<close>

lemma export_plan_accounts:
  assumes "export_plan ts mode = Inr p"
  shows "map d_id (decisions p) = map a_id ts \<and> map d_value (decisions p) = map a_value ts \<and>
    map (\<lambda>x. (p_assertion x)\<lparr>a_model_value := None\<rparr>) (assertions p) = map (\<lambda>a. a\<lparr>a_model_value := None\<rparr>) ts \<and>
    list_all2 (\<lambda>d x. d_field d = p_native x) (decisions p) (assertions p)"
proof -
  from assms obtain start stop oc where "p = finish_plan ts start stop oc"
    by (auto simp: export_plan_def Let_def and_then_Inr split_beta)
  then show ?thesis
    by (auto simp: finish_plan_def decide_def payload_def split_beta list_all2_conv_all_nth Let_def)
qed

text \<open>Under the default \<open>faithful\<close> mode (and any mode the module does not know) a native time
  comes only from an instant with an offset; \<open>day\<close> adds days and nothing coarser.\<close>

lemma export_mode_precision:
  assumes "export_plan ts mode = Inr p" "start_time p = Some t \<or> stop_time p = Some t"
  shows "\<exists>a \<in> set ts. a_status a = Verified \<and>
    (a_precision a = Some Instant \<or> (a_precision a = Some Day \<and> mode = ''day''))"
proof (rule export_plan_run [OF assms(1)])
  fix oc cands start stop
  assume r: "sort_out ts (export_mode (Some mode)) ts Map.empty [] = Inr (oc, cands)"
    "start_time p = map_option (fst \<circ> snd) start" "stop_time p = map_option (fst \<circ> snd) stop"
    "start = None \<or> start = first_of (ranked Start cands)" "stop = None \<or> stop = first_of (ranked End cands)"
  have ok: "\<forall>c \<in> set cands. exportable ts (export_mode (Some mode)) c"
    by (rule sort_out_candidates [OF r(1)]) auto
  consider c where "start = Some c" | c where "stop = Some c" using assms(2) r(2,3) by auto
  then have "\<exists>c. c \<in> set cands"
  proof cases
    case 1
    with r(4) have "c \<in> set (ranked Start cands)" by (intro first_of_in) simp
    then show ?thesis unfolding ranked_in by blast
  next
    case 2
    with r(5) have "c \<in> set (ranked End cands)" by (intro first_of_in) simp
    then show ?thesis unfolding ranked_in by blast
  qed
  then obtain a t' how where "exportable ts (export_mode (Some mode)) (a, t', how)" using ok by fast
  then have "a \<in> set ts" "a_status a = Verified"
    "a_precision a = Some Instant \<or> (a_precision a = Some Day \<and> export_mode (Some mode) = ''day'')"
    by (auto simp: exportable_def withheld_reason_def native_def Let_def split: if_splits)
  moreover have "export_mode (Some mode) = ''day'' \<longleftrightarrow> mode = ''day''"
    by (auto simp: export_mode_def DEFAULT_EXPORT_MODE_def EXPORT_MODES_def)
  ultimately show ?thesis by blast
qed

text \<open>The view an analyst gets: an analyst's own entry wins over a verified date, a verified one
  over any other, and a bound is missing only when no date of that role has a value.\<close>

lemma display_bounds_choice:
  "(case pick_bound ts r of
      None \<Rightarrow> \<forall>a \<in> set ts. a_role a = r \<longrightarrow> shown_value a \<in> {None, Some []}
    | Some v \<Rightarrow> \<exists>a \<in> set ts. a_role a = r \<and> shown_value a = Some v \<and>
        (\<forall>b \<in> set ts. a_role b = r \<longrightarrow> shown_value b \<notin> {None, Some []} \<longrightarrow>
           (a_origin b = Analyst \<longrightarrow> a_origin a = Analyst) \<and>
           (a_status b = Verified \<longrightarrow> a_status a = Verified \<or> a_origin a = Analyst)))"
proof -
  define M where "M = filter (\<lambda>a. a_role a = r \<and> shown_value a \<noteq> None \<and> shown_value a \<noteq> Some []) ts"
  define A where "A = filter (\<lambda>a. a_origin a = Analyst) M"
  define V where "V = filter (\<lambda>a. a_status a = Verified) M"
  have p: "pick_bound ts r = (case A @ V @ M of [] \<Rightarrow> None | a # _ \<Rightarrow> shown_value a)"
    by (simp add: pick_bound_def M_def A_def V_def Let_def)
  show ?thesis
  proof (cases "A @ V @ M")
    case Nil
    then show ?thesis by (auto simp: p M_def filter_empty_conv)
  next
    case (Cons a rest)
    have inM: "a \<in> set M" using Cons by (auto simp: A_def V_def append_eq_Cons_conv filter_eq_Cons_iff)
    have first: "(A \<noteq> [] \<longrightarrow> a \<in> set A) \<and> (A = [] \<and> V \<noteq> [] \<longrightarrow> a \<in> set V)"
      using Cons by (auto simp: append_eq_Cons_conv)
    obtain v where v: "shown_value a = Some v" using inM by (auto simp: M_def)
    have best: "(a_origin b = Analyst \<longrightarrow> a_origin a = Analyst) \<and>
         (a_status b = Verified \<longrightarrow> a_status a = Verified \<or> a_origin a = Analyst)" if "b \<in> set M" for b
      using first that by (auto simp: A_def V_def filter_empty_conv)
    have "a \<in> set ts \<and> a_role a = r" using inM by (simp add: M_def)
    moreover have "b \<in> set M" if "b \<in> set ts" "a_role b = r" "shown_value b \<notin> {None, Some []}" for b
      using that by (auto simp: M_def)
    ultimately show ?thesis unfolding p Cons using v best by auto
  qed
qed

section \<open>Examples\<close>

definition llm_date :: "string \<Rightarrow> role \<Rightarrow> string \<Rightarrow> precision \<Rightarrow> temporal_assertion" where
  "llm_date i r v p = \<lparr>a_id = i, a_role = r, a_time_text = v, a_value = Some v, a_precision = Some p,
     a_qualifier = NoQualifier, a_first_last = None, a_model_value = None, a_alternatives = [],
     a_anchor = Explicit, a_anchor_source = None, a_anchor_value = None, a_evidence_label = Some REPORTED,
     a_status = Verified, a_reason = None, a_doc_offset = None, a_origin = LLM\<rparr>"

definition example_times :: "temporal_assertion list" where
  "example_times = [llm_date ''s'' Start ''2023-03-12'' Day, llm_date ''e'' End ''2023-04-01T10:00:00+02:00'' Instant,
     llm_date ''w'' Within ''2023'' Year]"

definition example_conflict :: "temporal_assertion list" where
  "example_conflict = [llm_date ''s'' Start ''2024'' Year, llm_date ''e'' End ''2023-04-01'' Day]"

lemma mark_conflicts_consistent_witness:
  "\<exists>out. mark_conflicts example_conflict = Inr out \<and> map a_status out = [Conflict, Conflict] \<and>
     mark_conflicts out = Inr out"
proof -
  have "mark_conflicts example_conflict = Inr (map (\<lambda>a. a\<lparr>a_status := Conflict, a_reason := Some ''contradicts''\<rparr>) example_conflict)"
    by code_simp
  from this mark_conflicts_consistent [OF this] show ?thesis by (auto simp: example_conflict_def)
qed

lemma merge_times_union_witness:
  "\<exists>out. merge_times example_times example_times = Inr out \<and> length out = 3 \<and> distinct (map temporal_identity out)"
proof -
  have "merge_times example_times example_times = Inr example_times" by code_simp
  from this merge_times_union [OF this] show ?thesis by (auto simp: example_times_def)
qed

definition example_plan :: export_plan where
  "example_plan = (case export_plan example_times ''day'' of Inr p \<Rightarrow> p
     | Inl _ \<Rightarrow> \<lparr>start_time = None, stop_time = None, decisions = [], assertions = []\<rparr>)"

lemma example_plan_eq: "export_plan example_times ''day'' = Inr example_plan"
  and example_plan_bounds: "start_time example_plan = Some (day_number 2023 3 12 * DAY_US)"
    "stop_time example_plan = Some (day_number 2023 4 1 * DAY_US + 8 * 3600000000)"
  by code_simp+


lemma export_plan_accounts_witness: "map d_id (decisions example_plan) = [''s'', ''e'', ''w'']"
  using export_plan_accounts [OF example_plan_eq] by (simp add: example_times_def llm_date_def)

lemma export_mode_precision_witness:
  "\<exists>a \<in> set example_times. a_precision a = Some Instant \<or> a_precision a = Some Day"
  using export_mode_precision [OF example_plan_eq, of "day_number 2023 3 12 * DAY_US"] example_plan_bounds
  by auto

lemma display_bounds_choice_witness:
  "pick_bound example_times Start = Some ''2023-03-12'' \<and>
   (\<exists>a \<in> set example_times. a_role a = Start \<and> shown_value a = Some ''2023-03-12'')"
proof -
  have "pick_bound example_times Start = Some ''2023-03-12''" by code_simp
  with display_bounds_choice [of example_times Start] show ?thesis by auto
qed

end
