(* ===== verification/Aliases.thy ===== *)
theory Aliases
  imports Prelude
begin

text \<open>
  Alias resolution (pipeline/aliases.py): the index built from the gazetteer, the single MITRE
  object a name denotes under a STIX type, the names and surface forms read from it, and the
  technique names. The gazetteer and the MITRE index are data files: their entries are
  arguments.
\<close>

section \<open>The index\<close>

record gaz_entry =
  g_mitre_id :: "string option"
  g_name :: string
  g_canonical :: string
  g_entity_type :: "string option"

record alias_index =
  name2ids :: "string \<rightharpoonup> string list"
  id2canonical :: "string \<rightharpoonup> string"
  id2surfaces :: "string \<rightharpoonup> string list"
  id2entity_type :: "string \<rightharpoonup> string"

definition empty_index :: alias_index where
  "empty_index = \<lparr>name2ids = Map.empty, id2canonical = Map.empty, id2surfaces = Map.empty,
     id2entity_type = Map.empty\<rparr>"

definition entity_types_of :: "string \<Rightarrow> string list option" where
  "entity_types_of t = map_of [(''threat-actor'', [''threat_actor'']), (''intrusion-set'', [''threat_actor'']),
     (''malware'', [''malware'']), (''tool'', [''tool''])] t"

definition stix_family :: "string \<Rightarrow> string option" where
  "stix_family t = map_of [(''threat-actor'', ''actor''), (''intrusion-set'', ''actor''),
     (''malware'', ''software''), (''tool'', ''software'')] t"

definition entity_family :: "string \<Rightarrow> string option" where
  "entity_family t = map_of [(''threat_actor'', ''actor''), (''malware'', ''software''), (''tool'', ''software'')] t"

text \<open>\<open>d.setdefault(k, set()).add(x)\<close>: a set is a list without duplicates.\<close>

definition add_to :: "string \<Rightarrow> string \<Rightarrow> (string \<rightharpoonup> string list) \<Rightarrow> (string \<rightharpoonup> string list)" where
  "add_to k x m = m(k \<mapsto> List.insert x (case m k of None \<Rightarrow> [] | Some xs \<Rightarrow> xs))"

definition set_default :: "string \<Rightarrow> 'a \<Rightarrow> (string \<rightharpoonup> 'a) \<Rightarrow> (string \<rightharpoonup> 'a)" where
  "set_default k x m = (case m k of None \<Rightarrow> m(k \<mapsto> x) | Some _ \<Rightarrow> m)"

definition add_form :: "string \<Rightarrow> string \<Rightarrow> alias_index \<Rightarrow> alias_index" where
  "add_form form mid ix = ix\<lparr>name2ids := add_to form mid (name2ids ix),
     id2surfaces := add_to mid form (id2surfaces ix)\<rparr>"

definition index_entry :: "gaz_entry option \<Rightarrow> alias_index \<Rightarrow> alias_index" where
  "index_entry e0 ix = (case e0 of None \<Rightarrow> ix
    | Some e \<Rightarrow> (case g_mitre_id e of None \<Rightarrow> ix
      | Some mid0 \<Rightarrow>
        let mid = strip mid0; nm = strip (lower (g_name e)); canonical = strip (g_canonical e) in
        if mid = [] then ix
        else
          let ix = ix\<lparr>id2surfaces := set_default mid [] (id2surfaces ix)\<rparr>;
              ix = (if nm = [] then ix else add_form nm mid ix);
              ix = (if canonical = [] then ix
                    else (add_form (strip (lower canonical)) mid ix)
                           \<lparr>id2canonical := set_default mid canonical (id2canonical ix)\<rparr>)
          in (case g_entity_type e of None \<Rightarrow> ix
              | Some t \<Rightarrow> if strip t = [] then ix
                          else ix\<lparr>id2entity_type := (id2entity_type ix)(mid \<mapsto> strip (lower t))\<rparr>)))"

definition load_aliases :: "gaz_entry option list \<Rightarrow> alias_index" where
  "load_aliases entries = fold index_entry entries empty_index"

section \<open>Resolution\<close>

definition other_family :: "string \<Rightarrow> string option \<Rightarrow> alias_index \<Rightarrow> bool" where
  "other_family mid stix_type ix =
    (case (stix_family (lower (strip (case stix_type of None \<Rightarrow> [] | Some t \<Rightarrow> t))),
           entity_family (case id2entity_type ix mid of None \<Rightarrow> [] | Some t \<Rightarrow> t)) of
       (Some wanted, Some found) \<Rightarrow> wanted \<noteq> found
     | _ \<Rightarrow> False)"

definition name_ids :: "alias_index \<Rightarrow> string \<Rightarrow> string list" where
  "name_ids ix name = (case name2ids ix (strip (lower name)) of None \<Rightarrow> [] | Some ids \<Rightarrow> ids)"

definition resolve :: "alias_index \<Rightarrow> string \<Rightarrow> string option \<Rightarrow> string option" where
  "resolve ix name stix_type =
    (if name = [] \<or> strip (lower name) = [] then None
     else let ids = name_ids ix name in
       if ids = [] then None
       else if length ids = 1
         then (if other_family (hd ids) stix_type ix then None else Some (hd ids))
       else (case stix_type of None \<Rightarrow> None
         | Some t \<Rightarrow> (case entity_types_of (lower (strip t)) of None \<Rightarrow> None
           | Some wanted \<Rightarrow>
               (case sort (filter (\<lambda>i. case id2entity_type ix i of None \<Rightarrow> False | Some et \<Rightarrow> et \<in> set wanted) ids) of
                  [m] \<Rightarrow> Some m
                | _ \<Rightarrow> None))))"

definition mitre_id_for :: "alias_index \<Rightarrow> string \<Rightarrow> string option \<Rightarrow> string option" where
  "mitre_id_for = resolve"

definition canonical_name :: "alias_index \<Rightarrow> string \<Rightarrow> string option \<Rightarrow> string" where
  "canonical_name ix name stix_type =
    (if name = [] then name
     else case resolve ix name stix_type of
       None \<Rightarrow> name
     | Some mid \<Rightarrow> if mid = [] then name
         else (case id2canonical ix mid of None \<Rightarrow> name | Some c \<Rightarrow> c))"

definition alias_surface_forms :: "alias_index \<Rightarrow> string \<Rightarrow> string option \<Rightarrow> string set" where
  "alias_surface_forms ix name stix_type =
    (let forms = (if name = [] then {} else {strip (lower name)}) in
     case resolve ix name stix_type of
       None \<Rightarrow> forms
     | Some mid \<Rightarrow> if mid = [] then forms
         else forms \<union> set (case id2surfaces ix mid of None \<Rightarrow> [] | Some xs \<Rightarrow> xs) \<union> {lower mid})"

definition type_conflict :: "alias_index \<Rightarrow> string \<Rightarrow> string \<Rightarrow> (string \<times> string) list" where
  "type_conflict ix name stix_type =
    (if strip name = [] then []
     else let ids = sort (name_ids ix name);
              other = map (\<lambda>i. (i, case id2entity_type ix i of None \<Rightarrow> [] | Some t \<Rightarrow> t))
                (filter (\<lambda>i. other_family i (Some stix_type) ix) ids)
          in if length other = length ids then other else [])"

section \<open>Techniques\<close>

record technique =
  t_id :: string
  t_name :: string
  t_domain :: string

definition domain_rank :: "string \<Rightarrow> nat" where
  "domain_rank d = (case map_of [(''enterprise-attack'', 0), (''ics-attack'', 1), (''mobile-attack'', 2),
     (''capec'', 3 :: nat)] d of None \<Rightarrow> 4 | Some r \<Rightarrow> r)"

record technique_index =
  name2id :: "string \<rightharpoonup> string"
  name_rank :: "string \<rightharpoonup> nat"
  id2name :: "string \<rightharpoonup> string"

definition upper_char :: "char \<Rightarrow> char" where
  "upper_char c = (let n = (of_char c :: nat) in if 97 \<le> n \<and> n \<le> 122 then char_of (n - 32) else c)"

definition upper :: "string \<Rightarrow> string" where
  "upper s = map upper_char s"

definition index_technique :: "technique \<Rightarrow> technique_index \<Rightarrow> technique_index" where
  "index_technique t ix =
    (let tid = strip (t_id t); nm = strip (lower (t_name t)) in
     if tid = [] \<or> nm = [] then ix
     else let rank = domain_rank (t_domain t);
              ix = (if rank < (case name_rank ix nm of None \<Rightarrow> 5 | Some r \<Rightarrow> r)
                    then ix\<lparr>name2id := (name2id ix)(nm \<mapsto> tid), name_rank := (name_rank ix)(nm \<mapsto> rank)\<rparr>
                    else ix)
          in ix\<lparr>id2name := (case id2name ix (upper tid) of None \<Rightarrow> (id2name ix)(upper tid \<mapsto> t_name t)
                            | Some _ \<Rightarrow> id2name ix)\<rparr>)"

definition load_techniques :: "technique list \<Rightarrow> technique_index" where
  "load_techniques ts = fold index_technique ts
     \<lparr>name2id = Map.empty, name_rank = Map.empty, id2name = Map.empty\<rparr>"

definition technique_id_for :: "technique_index \<Rightarrow> string \<Rightarrow> string option" where
  "technique_id_for ix name = (if name = [] then None else name2id ix (strip (lower name)))"

definition technique_name_for :: "technique_index \<Rightarrow> string \<Rightarrow> string option" where
  "technique_name_for ix tid = (if tid = [] then None else id2name ix (strip (upper tid)))"

definition is_attack_id :: "technique_index \<Rightarrow> string list \<Rightarrow> string \<Rightarrow> bool" where
  "is_attack_id ix tactic_ids attack_id =
    (let aid = strip (upper attack_id) in
     aid \<noteq> [] \<and> (id2name ix aid \<noteq> None \<or>
       aid \<in> set (filter (\<lambda>t. t \<noteq> []) (map (\<lambda>t. upper (strip t)) tactic_ids))))"

section \<open>The index holds what the gazetteer says\<close>

text \<open>The forms an entry exposes, and its identifier.\<close>

definition entry_forms :: "gaz_entry option \<Rightarrow> (string \<times> string) set" where
  "entry_forms e0 = (case e0 of None \<Rightarrow> {} | Some e \<Rightarrow> (case g_mitre_id e of None \<Rightarrow> {}
     | Some mid0 \<Rightarrow> (let mid = strip mid0 in
        {(f, mid) | f. mid \<noteq> [] \<and>
          (f = strip (lower (g_name e)) \<and> strip (lower (g_name e)) \<noteq> [] \<or>
           f = strip (lower (strip (g_canonical e))) \<and> strip (g_canonical e) \<noteq> [])})))"

definition opt_list :: "'a list option \<Rightarrow> 'a list" where
  "opt_list x = (case x of None \<Rightarrow> [] | Some xs \<Rightarrow> xs)"

lemma add_to_set: "set (opt_list (add_to k x m j)) = set (opt_list (m j)) \<union> (if j = k then {x} else {})"
  by (cases "j = k"; cases "m k") (auto simp: add_to_def opt_list_def)

lemma add_to_distinct: "(\<And>j. distinct (opt_list (m j))) \<Longrightarrow> distinct (opt_list (add_to k x m j))"
  by (auto simp: add_to_def opt_list_def split: option.splits)

lemma add_form_maps [simp]:
  "name2ids (add_form f i ix) = add_to f i (name2ids ix)"
  "id2surfaces (add_form f i ix) = add_to i f (id2surfaces ix)"
  by (simp_all add: add_form_def)

lemma set_default_set: "set (opt_list (set_default k [] m j)) = set (opt_list (m j))"
  by (auto simp: set_default_def opt_list_def split: option.splits)

text \<open>The maps an entry of a listed object leaves.\<close>

lemma index_entry_maps:
  assumes "e0 = Some e" "g_mitre_id e = Some mid0" "strip mid0 \<noteq> []"
  defines "nm \<equiv> strip (lower (g_name e))" and "c \<equiv> strip (g_canonical e)" and "mid \<equiv> strip mid0"
  shows "name2ids (index_entry e0 ix) =
      (let m = (if nm = [] then name2ids ix else add_to nm mid (name2ids ix)) in
       if c = [] then m else add_to (strip (lower c)) mid m)"
    and "id2surfaces (index_entry e0 ix) =
      (let m = set_default mid [] (id2surfaces ix); m = (if nm = [] then m else add_to mid nm m) in
       if c = [] then m else add_to mid (strip (lower c)) m)"
  using assms(1-3)
  by (simp_all add: index_entry_def Let_def nm_def [symmetric] c_def [symmetric] mid_def [symmetric]
      split: option.split)

lemma entry_forms_none: "index_entry e0 ix = ix \<and> entry_forms e0 = {}"
  if "\<nexists>e mid0. e0 = Some e \<and> g_mitre_id e = Some mid0 \<and> strip mid0 \<noteq> []"
  using that by (auto simp: index_entry_def entry_forms_def Let_def split: option.splits)

lemma index_entry_names:
  "set (opt_list (name2ids (index_entry e0 ix) f)) = set (opt_list (name2ids ix f)) \<union> {i. (f, i) \<in> entry_forms e0}"
proof (cases "\<exists>e mid0. e0 = Some e \<and> g_mitre_id e = Some mid0 \<and> strip mid0 \<noteq> []")
  case True
  then obtain e mid0 where e: "e0 = Some e" "g_mitre_id e = Some mid0" "strip mid0 \<noteq> []" by blast
  show ?thesis unfolding index_entry_maps(1) [OF e] Let_def
    using e by (auto simp: entry_forms_def Let_def add_to_set)
qed (use entry_forms_none in simp)

lemma index_entry_surfaces:
  "set (opt_list (id2surfaces (index_entry e0 ix) i)) = set (opt_list (id2surfaces ix i)) \<union> {f. (f, i) \<in> entry_forms e0}"
proof (cases "\<exists>e mid0. e0 = Some e \<and> g_mitre_id e = Some mid0 \<and> strip mid0 \<noteq> []")
  case True
  then obtain e mid0 where e: "e0 = Some e" "g_mitre_id e = Some mid0" "strip mid0 \<noteq> []" by blast
  show ?thesis unfolding index_entry_maps(2) [OF e] Let_def
    using e by (auto simp: entry_forms_def Let_def add_to_set set_default_set)
qed (use entry_forms_none in simp)

lemma index_entry_distinct:
  assumes "\<And>f. distinct (opt_list (name2ids ix f))"
  shows "distinct (opt_list (name2ids (index_entry e0 ix) f))"
proof (cases "\<exists>e mid0. e0 = Some e \<and> g_mitre_id e = Some mid0 \<and> strip mid0 \<noteq> []")
  case True
  then obtain e mid0 where e: "e0 = Some e" "g_mitre_id e = Some mid0" "strip mid0 \<noteq> []" by blast
  show ?thesis unfolding index_entry_maps(1) [OF e] Let_def
    using assms by (simp add: add_to_distinct)
qed (use entry_forms_none assms in simp)

lemma load_names:
  "set (opt_list (name2ids (fold index_entry es ix) f)) = set (opt_list (name2ids ix f)) \<union> {i. \<exists>e \<in> set es. (f, i) \<in> entry_forms e}"
  by (induction es arbitrary: ix) (auto simp: index_entry_names)

lemma load_surfaces:
  "set (opt_list (id2surfaces (fold index_entry es ix) i)) = set (opt_list (id2surfaces ix i)) \<union> {f. \<exists>e \<in> set es. (f, i) \<in> entry_forms e}"
  by (induction es arbitrary: ix) (auto simp: index_entry_surfaces)

lemma load_distinct:
  "(\<And>f. distinct (opt_list (name2ids ix f))) \<Longrightarrow> distinct (opt_list (name2ids (fold index_entry es ix) f))"
  by (induction es arbitrary: ix) (auto simp: index_entry_distinct)

text \<open>What a form denotes according to the gazetteer.\<close>

definition denotes :: "gaz_entry option list \<Rightarrow> string \<Rightarrow> string set" where
  "denotes entries f = {i. \<exists>e \<in> set entries. (f, i) \<in> entry_forms e}"

lemma name_ids_load:
  "set (name_ids (load_aliases entries) name) = denotes entries (strip (lower name))"
  "distinct (name_ids (load_aliases entries) name)"
proof -
  have "name_ids (load_aliases entries) name = opt_list (name2ids (fold index_entry entries empty_index) (strip (lower name)))"
    by (simp add: name_ids_def load_aliases_def opt_list_def)
  then show "set (name_ids (load_aliases entries) name) = denotes entries (strip (lower name))"
    "distinct (name_ids (load_aliases entries) name)"
    using load_names [of entries empty_index] load_distinct [of empty_index entries]
    by (simp_all add: denotes_def empty_index_def opt_list_def)
qed

section \<open>Resolution is decided by the gazetteer\<close>

lemma resolve_cases:
  assumes "resolve ix name ty = Some i"
  shows "i \<in> set (name_ids ix name)" "\<not> other_family i ty ix"
    "name_ids ix name = [i] \<or> (\<exists>t wanted. ty = Some t \<and> entity_types_of (lower (strip t)) = Some wanted \<and>
       {j \<in> set (name_ids ix name). \<exists>et. id2entity_type ix j = Some et \<and> et \<in> set wanted} = {i})"
proof -
  define ids where "ids = name_ids ix name"
  have ne: "ids \<noteq> []" using assms by (auto simp: resolve_def Let_def ids_def split: if_splits)
  consider "length ids = 1" "ids = [i]" "\<not> other_family i ty ix"
    | t wanted where "ty = Some t" "entity_types_of (lower (strip t)) = Some wanted"
      "sort (filter (\<lambda>i. case id2entity_type ix i of None \<Rightarrow> False | Some et \<Rightarrow> et \<in> set wanted) ids) = [i]"
  proof (cases "length ids = 1")
    case True
    then have "resolve ix name ty = (if name = [] \<or> strip (lower name) = [] then None
       else if other_family (hd ids) ty ix then None else Some (hd ids))"
      using ne by (simp add: resolve_def Let_def ids_def)
    with assms True have "hd ids = i" "\<not> other_family i ty ix" by (auto split: if_splits)
    moreover from True have "ids = [hd ids]" by (cases ids) auto
    ultimately show ?thesis using True that(1) by simp
  next
    case False
    with assms ne obtain t wanted where "ty = Some t" "entity_types_of (lower (strip t)) = Some wanted"
      "(case sort (filter (\<lambda>i. case id2entity_type ix i of None \<Rightarrow> False | Some et \<Rightarrow> et \<in> set wanted) ids) of
          [m] \<Rightarrow> Some m | _ \<Rightarrow> None) = Some i"
      by (auto simp: resolve_def Let_def ids_def [symmetric] split: if_splits option.splits)
    moreover have "(case xs of [m] \<Rightarrow> Some m | _ \<Rightarrow> None) = Some i \<Longrightarrow> xs = [i]" for xs
      by (auto split: list.splits)
    ultimately show ?thesis using that(2) by blast
  qed
  then have "i \<in> set ids \<and> \<not> other_family i ty ix \<and> (ids = [i] \<or>
    (\<exists>t wanted. ty = Some t \<and> entity_types_of (lower (strip t)) = Some wanted \<and>
       {j \<in> set ids. \<exists>et. id2entity_type ix j = Some et \<and> et \<in> set wanted} = {i}))"
  proof cases
    case 1
    then show ?thesis by simp
  next
    case (2 t wanted)
    define F where "F = filter (\<lambda>i. case id2entity_type ix i of None \<Rightarrow> False | Some et \<Rightarrow> et \<in> set wanted) ids"
    have "set F = {i}" using 2(3) by (metis F_def set_sort list.set(1,2))
    moreover have "set F = {j \<in> set ids. \<exists>et. id2entity_type ix j = Some et \<and> et \<in> set wanted}"
      by (auto simp: F_def split: option.splits)
    ultimately have F: "{j \<in> set ids. \<exists>et. id2entity_type ix j = Some et \<and> et \<in> set wanted} = {i}" by simp
    then obtain et where et: "i \<in> set ids" "id2entity_type ix i = Some et" "et \<in> set wanted" by blast
    have "\<not> other_family i ty ix"
      using 2(1,2) et
      by (auto simp: other_family_def entity_types_of_def stix_family_def entity_family_def
          split: option.splits if_splits)
    with F et 2(1,2) show ?thesis by blast
  qed
  then show "i \<in> set (name_ids ix name)" "\<not> other_family i ty ix"
    "name_ids ix name = [i] \<or> (\<exists>t wanted. ty = Some t \<and> entity_types_of (lower (strip t)) = Some wanted \<and>
       {j \<in> set (name_ids ix name). \<exists>et. id2entity_type ix j = Some et \<and> et \<in> set wanted} = {i})"
    by (auto simp: ids_def)
qed

lemma resolve_unambiguous:
  "name_ids ix name = [i] \<Longrightarrow> strip (lower name) \<noteq> [] \<Longrightarrow> \<not> other_family i ty ix \<Longrightarrow> resolve ix name ty = Some i"
  by (auto simp: resolve_def Let_def)

text \<open>What a name resolves to: an object the gazetteer lists under that form, never one of the
  other family (an actor is not renamed after software), and the only candidate left: the only
  object with the form, or the only one of the asked type. The case and the surrounding blanks of
  the name do not matter.\<close>

lemma mitre_id_sound:
  assumes "mitre_id_for (load_aliases entries) name ty = Some i"
  shows "i \<in> denotes entries (strip (lower name)) \<and>
    \<not> other_family i ty (load_aliases entries) \<and>
    (denotes entries (strip (lower name)) = {i} \<or>
     (\<exists>t wanted. ty = Some t \<and> entity_types_of (lower (strip t)) = Some wanted \<and>
       {j \<in> denotes entries (strip (lower name)).
          \<exists>et. id2entity_type (load_aliases entries) j = Some et \<and> et \<in> set wanted} = {i})) \<and>
    (\<forall>other. strip (lower other) = strip (lower name) \<longrightarrow>
       mitre_id_for (load_aliases entries) other ty = Some i)"
proof -
  note r = resolve_cases [OF assms [unfolded mitre_id_for_def]]
  have "mitre_id_for (load_aliases entries) other ty = Some i" if "strip (lower other) = strip (lower name)" for other
  proof -
    have "name_ids (load_aliases entries) other = name_ids (load_aliases entries) name"
      using that by (simp add: name_ids_def)
    moreover have "strip (lower other) \<noteq> []" using that assms by (auto simp: mitre_id_for_def resolve_def split: if_splits)
    moreover from this have "other \<noteq> []" by auto
    ultimately show ?thesis using assms that by (auto simp: mitre_id_for_def resolve_def split: if_splits)
  qed
  moreover have "denotes entries (strip (lower name)) = set (name_ids (load_aliases entries) name)"
    by (simp add: name_ids_load)
  ultimately show ?thesis using r by auto
qed

text \<open>And resolution answers whenever the answer is decided: a form the gazetteer gives to one object
  of the right family, or of an unknown one, resolves to it.\<close>

lemma mitre_id_complete:
  assumes "denotes entries (strip (lower name)) = {i}" "strip (lower name) \<noteq> []"
    "\<not> other_family i ty (load_aliases entries)"
  shows "mitre_id_for (load_aliases entries) name ty = Some i \<and>
    strip (lower name) \<in> alias_surface_forms (load_aliases entries) name ty \<and>
    {f. i \<in> denotes entries f} \<subseteq> alias_surface_forms (load_aliases entries) name ty"
proof -
  note ids = name_ids_load [of entries name]
  have "name_ids (load_aliases entries) name = [i]"
    using ids assms(1) by (intro distinct_singleton_list) simp_all
  then have r: "resolve (load_aliases entries) name ty = Some i" using assms(2,3) by (intro resolve_unambiguous)
  have "i \<in> denotes entries (strip (lower name))" using assms(1) by simp
  then obtain e where "(strip (lower name), i) \<in> entry_forms e" by (auto simp: denotes_def)
  then have ne: "i \<noteq> []" by (auto simp: entry_forms_def Let_def split: option.splits)
  have n: "name \<noteq> []" using assms(2) by auto
  have "set (opt_list (id2surfaces (load_aliases entries) i)) = {f. i \<in> denotes entries f}"
    using load_surfaces [of entries empty_index i] by (auto simp: load_aliases_def empty_index_def opt_list_def denotes_def)
  then show ?thesis using r ne n by (auto simp: mitre_id_for_def alias_surface_forms_def Let_def opt_list_def)
qed

definition example_gazetteer :: "gaz_entry option list" where
  "example_gazetteer =
    [Some \<lparr>g_mitre_id = Some ''G0010'', g_name = ''Snake'', g_canonical = ''Turla'', g_entity_type = Some ''threat_actor''\<rparr>,
     None,
     Some \<lparr>g_mitre_id = Some ''S0022'', g_name = ''Snake'', g_canonical = ''Uroburos'', g_entity_type = Some ''malware''\<rparr>,
     Some \<lparr>g_mitre_id = Some ''S1202'', g_name = ''LockBit Black'', g_canonical = ''LockBit 3.0'', g_entity_type = Some ''malware''\<rparr>]"

lemma mitre_id_sound_witness:
  "mitre_id_for (load_aliases example_gazetteer) '' snake'' (Some ''Malware '') = Some ''S0022'' \<and>
   ''S0022'' \<in> denotes example_gazetteer ''snake'' \<and>
   mitre_id_for (load_aliases example_gazetteer) ''lockbit black'' (Some ''threat-actor'') = None"
proof -
  have "mitre_id_for (load_aliases example_gazetteer) '' snake'' (Some ''Malware '') = Some ''S0022''"
    and "mitre_id_for (load_aliases example_gazetteer) ''lockbit black'' (Some ''threat-actor'') = None"
    and "strip (lower '' snake'') = ''snake''" by code_simp+
  with mitre_id_sound [OF this(1)] show ?thesis by simp
qed

lemma mitre_id_complete_witness:
  "mitre_id_for (load_aliases example_gazetteer) ''LockBit Black'' (Some ''tool'') = Some ''S1202'' \<and>
   ''lockbit 3.0'' \<in> alias_surface_forms (load_aliases example_gazetteer) ''LockBit Black'' (Some ''tool'')"
proof -
  have n: "name_ids (load_aliases example_gazetteer) ''LockBit Black'' = [''S1202'']"
    "name_ids (load_aliases example_gazetteer) ''lockbit 3.0'' = [''S1202'']"
    "strip (lower ''LockBit Black'') \<noteq> []" "strip (lower ''lockbit 3.0'') = ''lockbit 3.0''"
    "\<not> other_family ''S1202'' (Some ''tool'') (load_aliases example_gazetteer)" by code_simp+
  have "denotes example_gazetteer (strip (lower ''LockBit Black'')) = {''S1202''}"
    "''S1202'' \<in> denotes example_gazetteer ''lockbit 3.0''"
    using name_ids_load(1) [of example_gazetteer] n by (metis list.set(1,2), metis list.set(1,2) singletonI)
  with mitre_id_complete [OF this(1) n(3,5)] show ?thesis by blast
qed

section \<open>Technique names\<close>

text \<open>The techniques that may give a name its id.\<close>

definition named :: "technique list \<Rightarrow> string \<Rightarrow> technique list" where
  "named ts nm = filter (\<lambda>t. strip (lower (t_name t)) = nm \<and> strip (t_id t) \<noteq> []) ts"

definition technique_inv :: "technique list \<Rightarrow> technique_index \<Rightarrow> bool" where
  "technique_inv ts ix \<longleftrightarrow> (\<forall>nm. nm \<noteq> [] \<longrightarrow>
     (case name2id ix nm of
        None \<Rightarrow> named ts nm = [] \<and> name_rank ix nm = None
      | Some i \<Rightarrow> \<exists>t \<in> set (named ts nm). strip (t_id t) = i \<and> name_rank ix nm = Some (domain_rank (t_domain t)) \<and>
          (\<forall>u \<in> set (named ts nm). domain_rank (t_domain t) \<le> domain_rank (t_domain u))))"

lemma domain_rank_le: "domain_rank d \<le> 4"
  by (auto simp: domain_rank_def split: option.split if_splits)

lemma technique_inv_step:
  assumes "technique_inv ts ix"
  shows "technique_inv (ts @ [t]) (index_technique t ix)"
  unfolding technique_inv_def
proof (intro allI impI)
  fix nm :: string assume nm: "nm \<noteq> []"
  note inv = assms [unfolded technique_inv_def, rule_format, OF nm]
  show "case name2id (index_technique t ix) nm of
        None \<Rightarrow> named (ts @ [t]) nm = [] \<and> name_rank (index_technique t ix) nm = None
      | Some i \<Rightarrow> \<exists>t' \<in> set (named (ts @ [t]) nm). strip (t_id t') = i \<and>
          name_rank (index_technique t ix) nm = Some (domain_rank (t_domain t')) \<and>
          (\<forall>u \<in> set (named (ts @ [t]) nm). domain_rank (t_domain t') \<le> domain_rank (t_domain u))"
  proof (cases "strip (lower (t_name t)) = nm \<and> strip (t_id t) \<noteq> []")
    case False
    then have n: "named (ts @ [t]) nm = named ts nm" by (auto simp: named_def)
    have ix: "name2id (index_technique t ix) nm = name2id ix nm" "name_rank (index_technique t ix) nm = name_rank ix nm"
      using False by (auto simp: index_technique_def Let_def)
    show ?thesis unfolding n ix by (rule inv)
  next
    case True
    then have n: "named (ts @ [t]) nm = named ts nm @ [t]" by (simp add: named_def)
    define r where "r = domain_rank (t_domain t)"
    have ix: "name2id (index_technique t ix) nm =
        (if r < (case name_rank ix nm of None \<Rightarrow> 5 | Some x \<Rightarrow> x) then Some (strip (t_id t)) else name2id ix nm)"
      "name_rank (index_technique t ix) nm =
        (if r < (case name_rank ix nm of None \<Rightarrow> 5 | Some x \<Rightarrow> x) then Some r else name_rank ix nm)"
      using True nm by (auto simp: index_technique_def Let_def r_def)
    show ?thesis
    proof (cases "name2id ix nm")
      case None
      then have "named ts nm = []" "name_rank ix nm = None" using inv by auto
      moreover have "r < 5" using domain_rank_le [of "t_domain t"] by (simp add: r_def)
      ultimately show ?thesis unfolding ix n by (simp add: r_def)
    next
      case (Some i)
      with inv obtain u where u: "u \<in> set (named ts nm)" "strip (t_id u) = i" "name_rank ix nm = Some (domain_rank (t_domain u))"
        "\<forall>v \<in> set (named ts nm). domain_rank (t_domain u) \<le> domain_rank (t_domain v)" by auto
      show ?thesis
      proof (cases "r < domain_rank (t_domain u)")
        case True
        with u(4) have "\<forall>v \<in> set (named ts nm). r \<le> domain_rank (t_domain v)" by fastforce
        then show ?thesis unfolding ix n using u(3) True by (auto simp: r_def)
      next
        case False
        then show ?thesis unfolding ix n using u Some by (auto simp: r_def)
      qed
    qed
  qed
qed

text \<open>A technique name shared by several ATT\&CK domains and CAPEC resolves to the id of the
  highest-ranked domain that carries the name, whatever the order of the file.\<close>

lemma technique_id_ranked:
  "nm \<noteq> [] \<longrightarrow> (case name2id (load_techniques ts) nm of
      None \<Rightarrow> named ts nm = []
    | Some i \<Rightarrow> \<exists>t \<in> set (named ts nm). strip (t_id t) = i \<and>
        (\<forall>u \<in> set (named ts nm). domain_rank (t_domain t) \<le> domain_rank (t_domain u)))"
proof
  assume nm: "nm \<noteq> []"
  have "technique_inv (seen @ ts) (fold index_technique ts ix)" if "technique_inv seen ix" for seen ix
    using that technique_inv_step by (induction ts arbitrary: seen ix) force+
  from this [of "[]" "\<lparr>name2id = Map.empty, name_rank = Map.empty, id2name = Map.empty\<rparr>"]
  have "technique_inv ts (load_techniques ts)"
    by (simp add: load_techniques_def technique_inv_def named_def)
  from this [unfolded technique_inv_def, rule_format, OF nm]
  show "case name2id (load_techniques ts) nm of
      None \<Rightarrow> named ts nm = []
    | Some i \<Rightarrow> \<exists>t \<in> set (named ts nm). strip (t_id t) = i \<and>
        (\<forall>u \<in> set (named ts nm). domain_rank (t_domain t) \<le> domain_rank (t_domain u))"
    by (auto split: option.splits)
qed

lemma technique_id_ranked_witness:
  "name2id (load_techniques [\<lparr>t_id = ''CAPEC-98'', t_name = ''Phishing'', t_domain = ''capec''\<rparr>,
     \<lparr>t_id = ''T1566'', t_name = ''Phishing'', t_domain = ''enterprise-attack''\<rparr>]) ''phishing'' = Some ''T1566'' \<and>
   named [\<lparr>t_id = ''CAPEC-98'', t_name = ''Phishing'', t_domain = ''capec''\<rparr>,
     \<lparr>t_id = ''T1566'', t_name = ''Phishing'', t_domain = ''enterprise-attack''\<rparr>] ''phishing'' \<noteq> []"
proof -
  let ?ts = "[\<lparr>t_id = ''CAPEC-98'', t_name = ''Phishing'', t_domain = ''capec''\<rparr>,
     \<lparr>t_id = ''T1566'', t_name = ''Phishing'', t_domain = ''enterprise-attack''\<rparr>]"
  have "name2id (load_techniques ?ts) ''phishing'' = Some ''T1566''" by code_simp
  with technique_id_ranked [of "''phishing''" ?ts] show ?thesis by auto
qed

end
