(* ===== verification/StixGraph.thy ===== *)
theory StixGraph
  imports RelSpec UnionFind Temporal Aliases
begin

text \<open>
  The objects graph completion works on (pipeline/stage4b_graph_completion.py) and its small
  helpers: the STIX object, the statistics it fills, the policy switches, pinned verbs, the
  guard on IoC-shaped names, the forbidden triples and the labelled edge it creates.
  The bundle is the list of objects in order. Identifiers of new relationships come from a
  generator \<open>gen_id\<close> (a UUID in the code), asked with the number of edges added so far.
\<close>

section \<open>Objects\<close>

datatype alias_field = AliasList "string list" | AliasText string

text \<open>What an SRO carries in \<open>x_temporal_assertions\<close>: a dict that validates, or anything else.\<close>

datatype stored_time = Stored time_payload | Unreadable

record stix_obj =
  o_id :: string
  o_type :: string
  o_name :: string
  o_aliases :: alias_field
  o_external :: "(string \<times> string) list"
  o_source_ref :: string
  o_rel_type :: string
  o_target_ref :: string
  o_confidence :: "int option"
  o_evidence_label :: "string option"
  o_inference_rule :: "string option"
  o_inferred_from :: "string list"
  o_evidence_text :: "string option"
  o_start_time :: "int option"
  o_stop_time :: "int option"
  o_times :: "stored_time list"

type_synonym triple = "string \<times> string \<times> string"

definition is_rel :: "stix_obj \<Rightarrow> bool" where
  "is_rel x \<longleftrightarrow> o_type x = ''relationship''"

definition rel_triple :: "stix_obj \<Rightarrow> triple" where
  "rel_triple r = (o_source_ref r, o_rel_type r, o_target_ref r)"

text \<open>\<open>list(x)\<close> of a string is the list of its characters.\<close>

definition alias_items :: "alias_field \<Rightarrow> string list" where
  "alias_items a = (case a of AliasList xs \<Rightarrow> xs | AliasText s \<Rightarrow> map (\<lambda>c. [c]) s)"

definition existing_edges :: "stix_obj list \<Rightarrow> triple set" where
  "existing_edges objs = set (map rel_triple (filter is_rel objs))"

section \<open>Constants\<close>

definition ALIASABLE_TYPES :: "string list" where
  "ALIASABLE_TYPES = [''threat-actor'', ''intrusion-set'', ''malware'', ''campaign'', ''tool'']"

definition TRANSITIVE_RULES :: "(string \<times> string) \<rightharpoonup> string" where
  "TRANSITIVE_RULES = map_of
     [((''uses'', ''uses''), ''uses''),
      ((''attributed-to'', ''attributed-to''), ''attributed-to''),
      ((''attributed-to'', ''uses''), ''uses''),
      ((''uses'', ''variant-of''), ''uses''),
      ((''variant-of'', ''uses''), ''uses''),
      ((''variant-of'', ''variant-of''), ''variant-of''),
      ((''uses'', ''exploits''), ''targets''),
      ((''indicates'', ''variant-of''), ''indicates'')]"

definition REJECTED_BY_ANALYST :: string where "REJECTED_BY_ANALYST = ''rejected_by_analyst''"
definition HELD_FOR_REVIEW :: string where "HELD_FOR_REVIEW = ''held_for_review''"
definition UNDIRECTED_VERBS :: "string list" where "UNDIRECTED_VERBS = [''related-to'', ''duplicate-of'']"
definition EXTERNAL_REFERENCE :: string where "EXTERNAL_REFERENCE = ''external-reference''"
definition NOT_STATED_BY_THE_REPORT :: "string list" where
  "NOT_STATED_BY_THE_REPORT = [''attack-reference:'', ''transitive:'']"

definition LONG_DISTANCE_TYPES :: "string list" where
  "LONG_DISTANCE_TYPES = filter (\<lambda>t. t \<notin> {''indicator'', ''report''}) SDO_TYPES"

section \<open>IoC-shaped names\<close>

text \<open>\<open>_IOC_GUARD.search\<close>: some stretch between two word boundaries is a CVE id, 32 to 64
  hexadecimal digits, or four dotted numbers.\<close>

definition word_at :: "string \<Rightarrow> nat \<Rightarrow> bool" where
  "word_at s i \<longleftrightarrow> i < length s \<and> (let c = s ! i; n = (of_char c :: nat) in
     is_digit c \<or> (65 \<le> n \<and> n \<le> 90) \<or> (97 \<le> n \<and> n \<le> 122) \<or> n = 95)"

definition word_boundary :: "string \<Rightarrow> nat \<Rightarrow> bool" where
  "word_boundary s i \<longleftrightarrow> (i > 0 \<and> word_at s (i - 1)) \<noteq> word_at s i"

definition is_hex :: "char \<Rightarrow> bool" where
  "is_hex c \<longleftrightarrow> (let n = (of_char c :: nat) in is_digit c \<or> (65 \<le> n \<and> n \<le> 70) \<or> (97 \<le> n \<and> n \<le> 102))"

definition cve_text :: "string \<Rightarrow> bool" where
  "cve_text w \<longleftrightarrow> length w \<ge> 10 \<and> lower (take 4 w) = ''cve-'' \<and> list_all is_digit (take 4 (drop 4 w)) \<and>
     w ! 8 = CHR ''-'' \<and> list_all is_digit (drop 9 w)"

definition hash_text :: "string \<Rightarrow> bool" where
  "hash_text w \<longleftrightarrow> 32 \<le> length w \<and> length w \<le> 64 \<and> list_all is_hex w"

definition ipv4_text :: "string \<Rightarrow> bool" where
  "ipv4_text w \<longleftrightarrow> (let ps = split_on (CHR ''.'') w in
     length ps = 4 \<and> list_all (\<lambda>p. 1 \<le> length p \<and> length p \<le> 3 \<and> list_all is_digit p) ps)"

definition ioc_guard :: "string \<Rightarrow> bool" where
  "ioc_guard s \<longleftrightarrow> list_ex (\<lambda>i. word_boundary s i \<and>
     list_ex (\<lambda>j. word_boundary s j \<and>
        (let w = take (j - i) (drop i s) in cve_text w \<or> hash_text w \<or> ipv4_text w))
       [Suc i..<Suc (length s)]) [0..<length s]"

definition norm_name :: "string \<Rightarrow> string" where
  "norm_name name = filter (\<lambda>c. is_lower_alpha c \<or> is_digit c) (lower name)"

section \<open>Forbidden triples\<close>

type_synonym forbidden = "(triple, string) dict"

definition both_directions :: "forbidden \<Rightarrow> forbidden" where
  "both_directions fb = fold (\<lambda>((s, v, t), why) out.
     if v \<in> set UNDIRECTED_VERBS \<and> map_of out (t, v, s) \<noteq> Some REJECTED_BY_ANALYST
     then dset (t, v, s) why out else out) fb fb"

text \<open>Following each absorbed id to the node it was merged into.\<close>

definition moved_forbidden :: "(string \<rightharpoonup> string) \<Rightarrow> forbidden \<Rightarrow> forbidden" where
  "moved_forbidden remap fb = fold (\<lambda>((s, v, t), why) moved.
     let key = ((case remap s of None \<Rightarrow> s | Some s' \<Rightarrow> s'), v, (case remap t of None \<Rightarrow> t | Some t' \<Rightarrow> t')) in
     if map_of moved key \<noteq> Some REJECTED_BY_ANALYST then dset key why moved else moved) fb []"

section \<open>Policy\<close>

text \<open>The switches a policy may override; every value absent from it keeps its default.\<close>

record completion_block =
  b_transitive :: "bool option"
  b_alias :: "bool option"
  b_reference :: "bool option"
  b_long_distance :: "bool option"
  b_fuzzy_alias :: "bool option"
  b_semantic_alias :: "bool option"
  b_max_new_edges :: "int option"

record policy_rule =
  pr_src :: string
  pr_tgt :: string
  pr_enabled :: bool
  pr_mode :: string
  pr_verb :: "string option"

text \<open>An entry of \<open>rules\<close> that is not a dict is \<open>None\<close>.\<close>

record policy =
  pol_global :: string
  pol_rules :: "policy_rule option list"
  pol_completion :: "completion_block option"
  pol_temporal_mode :: "string option"

record config =
  c_transitive :: bool
  c_alias :: bool
  c_reference :: bool
  c_long_distance :: bool
  c_fuzzy_alias :: bool
  c_semantic_alias :: bool
  c_max_new_edges :: int
  c_temporal_mode :: string

definition completion_defaults :: config where
  "completion_defaults = \<lparr>c_transitive = True, c_alias = False, c_reference = True, c_long_distance = False,
     c_fuzzy_alias = False, c_semantic_alias = False, c_max_new_edges = 200,
     c_temporal_mode = ''faithful''\<rparr>"

definition or_default :: "'a option \<Rightarrow> 'a \<Rightarrow> 'a" where
  "or_default x d = (case x of None \<Rightarrow> d | Some v \<Rightarrow> v)"

definition completion_cfg :: "policy option \<Rightarrow> config" where
  "completion_cfg pol =
    (let cfg = (case pol of None \<Rightarrow> completion_defaults
       | Some p \<Rightarrow> (case pol_completion p of None \<Rightarrow> completion_defaults
         | Some b \<Rightarrow> completion_defaults\<lparr>c_transitive := or_default (b_transitive b) True,
             c_alias := or_default (b_alias b) False, c_reference := or_default (b_reference b) True,
             c_long_distance := or_default (b_long_distance b) False,
             c_fuzzy_alias := or_default (b_fuzzy_alias b) False,
             c_semantic_alias := or_default (b_semantic_alias b) False,
             c_max_new_edges := or_default (b_max_new_edges b) 200\<rparr>))
     in cfg\<lparr>c_temporal_mode := export_mode (case pol of None \<Rightarrow> None | Some p \<Rightarrow> pol_temporal_mode p)\<rparr>)"

definition pol_index :: "policy option \<Rightarrow> (string, policy_rule) dict" where
  "pol_index pol = (case pol of None \<Rightarrow> []
     | Some p \<Rightarrow> if pol_global p = ''auto'' then []
         else fold (\<lambda>r idx. case r of None \<Rightarrow> idx
                | Some rule \<Rightarrow> if pr_src rule \<noteq> [] \<and> pr_tgt rule \<noteq> []
                    then dset (pr_src rule @ ''>'' @ pr_tgt rule) rule idx else idx) (pol_rules p) [])"

definition apply_pin :: "string \<Rightarrow> string \<Rightarrow> string \<Rightarrow> (string, policy_rule) dict \<Rightarrow> string" where
  "apply_pin verb src_type tgt_type idx =
    (case map_of idx (src_type @ ''>'' @ tgt_type) of
       None \<Rightarrow> verb
     | Some rule \<Rightarrow>
         if pr_enabled rule \<and> pr_mode rule = ''pin''
         then (let pinned = or_default (pr_verb rule) verb in
               if pinned \<in> set STIX_RELATIONSHIP_TYPES then pinned else verb)
         else verb)"

section \<open>Statistics\<close>

datatype completion_note = AliasMergeFailed py_exc | FuzzyMissing | SemanticUnavailable | SemanticFailed string
  | InfererError string

record removed_rel =
  rm_id :: string
  rm_reason :: string
  rm_kept :: "string option"

record refusal =
  rf_triple :: triple
  rf_rule :: string
  rf_reason :: string
  rf_inferred_from :: "string list"

record stats =
  aliases_merged :: nat
  reference_added :: nat
  transitive_added :: nat
  long_distance_added :: nat
  skipped_not_suggested :: nat
  capped :: bool
  st_notes :: "completion_note list"
  merged_ids :: "(string, string) dict"
  merged_names :: "(string, string) dict"
  removed_relationships :: "removed_rel list"
  remapped_relationships :: "(string, string \<times> string) dict"
  refused :: "refusal list"

definition new_stats :: stats where
  "new_stats = \<lparr>aliases_merged = 0, reference_added = 0, transitive_added = 0, long_distance_added = 0,
     skipped_not_suggested = 0, capped = False, st_notes = [], merged_ids = [], merged_names = [],
     removed_relationships = [], remapped_relationships = [], refused = []\<rparr>"

definition total_added :: "stats \<Rightarrow> nat" where
  "total_added st = reference_added st + transitive_added st + long_distance_added st"

section \<open>New edges\<close>

text \<open>\<open>max(0, min(100, int(confidence * 100)))\<close>, the confidence given in hundredths rounded down.\<close>

definition clamp_confidence :: "int \<Rightarrow> int" where
  "clamp_confidence c = max 0 (min 100 c)"

definition make_inferred_rel :: "string \<Rightarrow> stix_obj \<Rightarrow> string \<Rightarrow> stix_obj \<Rightarrow> int \<Rightarrow> string \<Rightarrow> string list \<Rightarrow>
    string \<Rightarrow> string \<Rightarrow> stix_obj" where
  "make_inferred_rel new_id src verb tgt confidence rule premises text label =
    \<lparr>o_id = new_id, o_type = ''relationship'', o_name = [], o_aliases = AliasList [], o_external = [],
     o_source_ref = o_id src, o_rel_type = verb, o_target_ref = o_id tgt,
     o_confidence = Some (clamp_confidence confidence), o_evidence_label = Some label,
     o_inference_rule = Some rule, o_inferred_from = premises,
     o_evidence_text = (if text = [] then None else Some (take 500 text)),
     o_start_time = None, o_stop_time = None, o_times = []\<rparr>"

definition stated_by_the_report :: "stix_obj \<Rightarrow> bool" where
  "stated_by_the_report x = (case o_inference_rule x of None \<Rightarrow> True
     | Some rule \<Rightarrow> \<not> list_ex (starts_with rule) NOT_STATED_BY_THE_REPORT)"

text \<open>\<open>_refuse\<close>: a forbidden triple is not added; one record per triple and rule.\<close>

definition refuse :: "triple \<Rightarrow> string \<Rightarrow> string list \<Rightarrow> (triple \<rightharpoonup> string) \<Rightarrow> stats \<Rightarrow> bool \<times> stats" where
  "refuse key rule premises fb st =
    (case fb key of None \<Rightarrow> (False, st)
     | Some reason \<Rightarrow>
        (True, if list_ex (\<lambda>r. rf_triple r = key \<and> rf_rule r = rule) (refused st) then st
               else st\<lparr>refused := refused st @
                 [\<lparr>rf_triple = key, rf_rule = rule, rf_reason = reason, rf_inferred_from = premises\<rparr>]\<rparr>))"

end
