(* ===== verification/AliasMerge.thy ===== *)
theory AliasMerge
  imports StixGraph "HOL-Library.Product_Lexorder" "HOL-Library.Multiset"
begin

text \<open>
  The alias merge of graph completion: same-type objects that share a name or an alias are
  collapsed onto one canonical node (\<open>_merge_aliases\<close>, \<open>_semantic_alias_pass\<close>), and every
  relationship is rewired, without self-loops or duplicates, dates merged (\<open>_rewrite_refs\<close>,
  \<open>_with_merged_times\<close>, \<open>_times_of\<close>).
  rapidfuzz and the sentence-embedding model are arguments: \<open>fuzz\<close> is the ratio, \<open>None\<close> when
  the package is missing; \<open>embedder\<close> answers the similarity of the names of a group.
\<close>

section \<open>Which names are the same\<close>

definition is_aliasable :: "stix_obj \<Rightarrow> bool" where
  "is_aliasable x \<longleftrightarrow> o_type x \<in> set ALIASABLE_TYPES"

definition usable_name :: "string \<Rightarrow> bool" where
  "usable_name nm \<longleftrightarrow> nm \<noteq> [] \<and> \<not> ioc_guard nm"

text \<open>The tokens an object exposes: its type with each normalised name or alias.\<close>

definition name_tokens :: "stix_obj \<Rightarrow> (string \<times> string) list" where
  "name_tokens x = map (Pair (o_type x)) (filter (\<lambda>k. k \<noteq> [])
     (map norm_name (filter usable_name (o_name x # alias_items (o_aliases x)))))"

definition token_owners :: "stix_obj list \<Rightarrow> (string \<times> string, string list) dict" where
  "token_owners sdos = group_pairs (concat (map (\<lambda>x. map (\<lambda>k. (k, o_id x)) (name_tokens x)) sdos))"

definition token_pairs :: "stix_obj list \<Rightarrow> (string \<times> string) list" where
  "token_pairs sdos = concat (map (\<lambda>(_, owners). with_first owners) (token_owners sdos))"

text \<open>The two nested loops over a group: each object with every later one.\<close>

fun later_pairs :: "'a list \<Rightarrow> ('a \<times> 'a) list" where
  "later_pairs [] = []"
| "later_pairs (x # xs) = map (Pair x) xs @ later_pairs xs"

definition FUZZY_THRESHOLD :: rat where "FUZZY_THRESHOLD = 93"
definition SEMANTIC_THRESHOLD :: rat where "SEMANTIC_THRESHOLD = 3 / 5"

definition fuzzy_pairs :: "(string \<Rightarrow> string \<Rightarrow> rat) \<Rightarrow> stix_obj list \<Rightarrow> (string \<times> string) list" where
  "fuzzy_pairs ratio sdos = concat (map (\<lambda>(_, group).
     map (\<lambda>(x, y). (o_id x, o_id y))
       (filter (\<lambda>(x, y). usable_name (o_name x) \<and> usable_name (o_name y) \<and>
          ratio (lower (o_name x)) (lower (o_name y)) \<ge> FUZZY_THRESHOLD) (later_pairs group)))
     (group_by o_type sdos))"

text \<open>What the embedding model gives for a group's names: similarities by position, or an error.\<close>

datatype embedding = NoModel | Raises string | Similarity "string list \<Rightarrow> nat \<Rightarrow> nat \<Rightarrow> rat"

definition semantic_pairs :: "(string list \<Rightarrow> nat \<Rightarrow> nat \<Rightarrow> rat) \<Rightarrow> stix_obj list \<Rightarrow> (string \<times> string) list" where
  "semantic_pairs sims sdos = concat (map (\<lambda>(_, group).
     if length group < 2 then []
     else map (\<lambda>((i, x), (j, y)). (o_id x, o_id y))
       (filter (\<lambda>((i, x), (j, y)). sims (map o_name group) i j \<ge> SEMANTIC_THRESHOLD)
          (later_pairs (zip [0..<length group] group))))
     (group_by o_type (filter (\<lambda>x. usable_name (o_name x)) sdos)))"

definition alias_pairs :: "(string \<Rightarrow> string \<Rightarrow> rat) option \<Rightarrow> embedding \<Rightarrow> config \<Rightarrow> stix_obj list \<Rightarrow>
    (string \<times> string) list \<times> completion_note list" where
  "alias_pairs fuzz embedder cfg sdos =
    (let (fz, n1) = (if \<not> c_fuzzy_alias cfg then ([], [])
           else case fuzz of None \<Rightarrow> ([], [FuzzyMissing]) | Some ratio \<Rightarrow> (fuzzy_pairs ratio sdos, []));
         (sem, n2) = (if \<not> c_semantic_alias cfg then ([], [])
           else case embedder of NoModel \<Rightarrow> ([], [SemanticUnavailable])
                | Raises e \<Rightarrow> ([], [SemanticFailed e])
                | Similarity sims \<Rightarrow> (semantic_pairs sims sdos, []))
     in (token_pairs sdos @ fz @ sem, n1 @ n2))"

section \<open>The canonical node\<close>

definition degree :: "stix_obj list \<Rightarrow> (string, nat) dict" where
  "degree objs = fold (\<lambda>r d. let d = dset (o_source_ref r) (dget d (o_source_ref r) 0 + 1) d in
     dset (o_target_ref r) (dget d (o_target_ref r) 0 + 1) d) (filter is_rel objs) []"

definition canonical_of :: "(string, nat) dict \<Rightarrow> stix_obj list \<Rightarrow> stix_obj" where
  "canonical_of deg members = max_by (\<lambda>m. (dget deg (o_id m) 0, length (o_name m))) (hd members) (tl members)"

fun replace_obj :: "string \<Rightarrow> stix_obj \<Rightarrow> stix_obj list \<Rightarrow> stix_obj list" where
  "replace_obj i x [] = []"
| "replace_obj i x (y # ys) = (if o_id y = i then x # ys else y # replace_obj i x ys)"

definition merged_aliases :: "stix_obj \<Rightarrow> stix_obj list \<Rightarrow> string list" where
  "merged_aliases canonical others =
    filter (\<lambda>a. a \<noteq> o_name canonical)
      (alias_items (o_aliases canonical) @ concat (map (\<lambda>m. o_name m # alias_items (o_aliases m)) others))"

text \<open>One cluster: the others are mapped to the canonical node, which takes their names as aliases.\<close>

definition merge_cluster :: "(string, nat) dict \<Rightarrow> stix_obj list \<Rightarrow>
    stix_obj list \<times> (string, string) dict \<times> stats \<Rightarrow> stix_obj list \<times> (string, string) dict \<times> stats" where
  "merge_cluster deg members = (\<lambda>(objs, remap, st).
     if length members < 2 then (objs, remap, st)
     else let canonical = canonical_of deg members;
              others = filter (\<lambda>m. o_id m \<noteq> o_id canonical) members;
              remap = fold (\<lambda>m. dset (o_id m) (o_id canonical)) others remap;
              st = st\<lparr>merged_names := fold (\<lambda>m. dset (o_id m) (o_name m)) others (merged_names st),
                      aliases_merged := aliases_merged st + length others\<rparr>;
              names = merged_aliases canonical others;
              objs = (if names = [] then objs
                      else replace_obj (o_id canonical)
                        (canonical\<lparr>o_aliases := AliasList (sort (remdups (filter (\<lambda>a. a \<noteq> []) names)))\<rparr>) objs)
          in (objs, remap, st))"

definition drop_ids :: "string set \<Rightarrow> stix_obj list \<Rightarrow> stix_obj list" where
  "drop_ids ids objs = filter (\<lambda>x. o_id x \<notin> ids) objs"

section \<open>Rewiring\<close>

definition times_of :: "stix_obj \<Rightarrow> temporal_assertion list" where
  "times_of rel = concat (map (\<lambda>t. case t of Stored p \<Rightarrow> [p_assertion p] | Unreadable \<Rightarrow> []) (o_times rel))"

text \<open>\<open>None\<close> when the duplicate adds no date; a raised exception escapes to \<open>complete_graph\<close>.\<close>

definition with_merged_times :: "stix_obj \<Rightarrow> stix_obj \<Rightarrow> string \<Rightarrow> py_exc + stix_obj option" where
  "with_merged_times kept dup mode =
    (let extra = times_of dup; own = times_of kept; known = temporal_identity ` set own in
     if extra = [] then Inr None
     else if list_all (\<lambda>a. temporal_identity a \<in> known) extra then Inr None
     else and_then (merge_times own extra) (\<lambda>merged.
       and_then (export_plan merged mode) (\<lambda>plan.
         Inr (Some (kept\<lparr>o_start_time := start_time plan, o_stop_time := stop_time plan,
                          o_times := map Stored (assertions plan)\<rparr>)))))"

definition remap_id :: "(string, string) dict \<Rightarrow> string \<Rightarrow> string" where
  "remap_id remap i = dget remap i i"

text \<open>The loop of \<open>_rewrite_refs\<close>: \<open>seen\<close> holds, per triple, the id kept and its index in \<open>out\<close>.\<close>

fun rewrite_loop :: "(string, string) dict \<Rightarrow> string \<Rightarrow> stix_obj list \<Rightarrow> (triple \<rightharpoonup> string \<times> nat) \<Rightarrow>
    stix_obj list \<Rightarrow> stats \<Rightarrow> stats \<times> (py_exc + stix_obj list)" where
  "rewrite_loop remap mode [] seen out st = (st, Inr out)"
| "rewrite_loop remap mode (x # xs) seen out st =
    (if \<not> is_rel x then rewrite_loop remap mode xs seen (out @ [x]) st
     else let src = remap_id remap (o_source_ref x); tgt = remap_id remap (o_target_ref x) in
       if src = tgt then
         rewrite_loop remap mode xs seen out (st\<lparr>removed_relationships := removed_relationships st @
           [\<lparr>rm_id = o_id x, rm_reason = ''self_loop_after_alias_merge'', rm_kept = None\<rparr>]\<rparr>)
       else let key = (src, o_rel_type x, tgt) in
         (case seen key of
            Some (kept, k) \<Rightarrow>
              (case with_merged_times (out ! k) x mode of
                 Inl e \<Rightarrow> (st, Inl e)
               | Inr merged \<Rightarrow>
                   rewrite_loop remap mode xs seen
                     (case merged of None \<Rightarrow> out | Some m \<Rightarrow> out[k := m])
                     (st\<lparr>removed_relationships := removed_relationships st @
                       [\<lparr>rm_id = o_id x, rm_reason = ''duplicate_after_alias_merge'', rm_kept = Some kept\<rparr>]\<rparr>))
          | None \<Rightarrow>
              let changed = (src \<noteq> o_source_ref x \<or> tgt \<noteq> o_target_ref x);
                  y = (if changed then x\<lparr>o_source_ref := src, o_target_ref := tgt\<rparr> else x);
                  st = (if changed then st\<lparr>remapped_relationships := dset (o_id x) (src, tgt) (remapped_relationships st)\<rparr> else st)
              in rewrite_loop remap mode xs (seen(key \<mapsto> (o_id x, length out))) (out @ [y]) st))"

definition rewrite_refs :: "stix_obj list \<Rightarrow> (string, string) dict \<Rightarrow> stats \<Rightarrow> string \<Rightarrow>
    stats \<times> (py_exc + stix_obj list)" where
  "rewrite_refs objs remap st mode = rewrite_loop remap mode objs Map.empty [] st"

section \<open>merge_aliases\<close>

text \<open>The clusters of the union-find, in the order of their first member.\<close>

definition alias_clusters :: "stix_obj list \<Rightarrow> (string \<times> string) list \<Rightarrow> (string, stix_obj list) dict option" where
  "alias_clusters sdos pairs =
    (case unions alias_union (fold (\<lambda>x p. setdefault p (o_id x)) sdos Map.empty) pairs of
       None \<Rightarrow> None
     | Some p \<Rightarrow> (case roots alias_find p (map o_id sdos) of
         None \<Rightarrow> None
       | Some (rs, _) \<Rightarrow> Some (group_pairs (zip rs sdos))))"

text \<open>
  The objects and the statistics afterwards, and what was raised, if anything. \<open>None\<close> is a
  KeyError or a loop that does not end; \<open>merge_aliases_returns\<close> shows there is none.
\<close>

definition merge_aliases :: "(string \<Rightarrow> string \<Rightarrow> rat) option \<Rightarrow> embedding \<Rightarrow> config \<Rightarrow> stix_obj list \<Rightarrow> stats \<Rightarrow>
    (stix_obj list \<times> stats \<times> py_exc option) option" where
  "merge_aliases fuzz embedder cfg objs st =
    (let sdos = filter is_aliasable objs in
     if length sdos < 2 then Some (objs, st, None)
     else let (pairs, new_notes) = alias_pairs fuzz embedder cfg sdos;
              st = st\<lparr>st_notes := st_notes st @ new_notes\<rparr> in
       (case alias_clusters sdos pairs of None \<Rightarrow> None
        | Some cs \<Rightarrow>
          let (objs', remap, st) = fold (\<lambda>(_, members). merge_cluster (degree objs) members) cs (objs, [], st) in
          if remap = [] then Some (objs', st, None)
          else let kept = drop_ids (fst ` set remap) objs';
                   st = st\<lparr>merged_ids := dupdate (merged_ids st) remap\<rparr>
               in (case rewrite_refs kept remap st (c_temporal_mode cfg) of
                     (st, Inr out) \<Rightarrow> Some (out, st, None)
                   | (st, Inl e) \<Rightarrow> Some (kept, st, Some e))))"

section \<open>The rewired edges\<close>

text \<open>What rewiring should leave: the image of every edge, self-loops dropped, each triple once.\<close>

definition remap_triple :: "(string, string) dict \<Rightarrow> stix_obj \<Rightarrow> triple" where
  "remap_triple remap x = (remap_id remap (o_source_ref x), o_rel_type x, remap_id remap (o_target_ref x))"

definition rewired :: "(string, string) dict \<Rightarrow> stix_obj list \<Rightarrow> triple set" where
  "rewired remap xs = {t. \<exists>x \<in> set xs. is_rel x \<and> t = remap_triple remap x \<and> fst t \<noteq> snd (snd t)}"

lemma rewired_Cons: "rewired remap (x # xs) =
    (if is_rel x \<and> remap_id remap (o_source_ref x) \<noteq> remap_id remap (o_target_ref x)
     then insert (remap_triple remap x) (rewired remap xs) else rewired remap xs)"
  by (auto simp: rewired_def remap_triple_def)

definition indexed :: "(triple \<rightharpoonup> string \<times> nat) \<Rightarrow> stix_obj list \<Rightarrow> bool" where
  "indexed seen out \<longleftrightarrow>
    (\<forall>key kept k. seen key = Some (kept, k) \<longrightarrow> k < length out \<and> is_rel (out ! k) \<and> rel_triple (out ! k) = key) \<and>
    (\<forall>i < length out. is_rel (out ! i) \<longrightarrow> (\<exists>kept. seen (rel_triple (out ! i)) = Some (kept, i)))"

lemma indexed_at:
  "indexed seen out \<Longrightarrow> seen key = Some (kept, k) \<Longrightarrow> k < length out \<and> is_rel (out ! k) \<and> rel_triple (out ! k) = key"
  unfolding indexed_def by blast

lemma indexed_has:
  "indexed seen out \<Longrightarrow> i < length out \<Longrightarrow> is_rel (out ! i) \<Longrightarrow> \<exists>kept. seen (rel_triple (out ! i)) = Some (kept, i)"
  unfolding indexed_def by blast

lemma indexedI:
  "(\<And>key kept k. seen key = Some (kept, k) \<Longrightarrow> k < length out \<and> is_rel (out ! k) \<and> rel_triple (out ! k) = key) \<Longrightarrow>
   (\<And>i. i < length out \<Longrightarrow> is_rel (out ! i) \<Longrightarrow> \<exists>kept. seen (rel_triple (out ! i)) = Some (kept, i)) \<Longrightarrow>
   indexed seen out"
  unfolding indexed_def by blast

lemma distinct_map_filterI:
  "(\<And>i j. i < length xs \<Longrightarrow> j < length xs \<Longrightarrow> P (xs ! i) \<Longrightarrow> P (xs ! j) \<Longrightarrow> f (xs ! i) = f (xs ! j) \<Longrightarrow> i = j) \<Longrightarrow>
   distinct (map f (filter P xs))"
proof (induction xs)
  case (Cons x xs)
  have "distinct (map f (filter P xs))"
  proof (rule Cons.IH)
    fix i j assume "i < length xs" "j < length xs" "P (xs ! i)" "P (xs ! j)" "f (xs ! i) = f (xs ! j)"
    with Cons.prems [of "Suc i" "Suc j"] show "i = j" by simp
  qed
  moreover have "f x \<notin> f ` set (filter P xs)" if "P x"
  proof
    assume "f x \<in> f ` set (filter P xs)"
    then obtain y where "y \<in> set xs" "P y" "f y = f x" by auto
    then obtain j where "j < length xs" "xs ! j = y" by (auto simp: in_set_conv_nth)
    with Cons.prems [of 0 "Suc j"] that \<open>P y\<close> \<open>f y = f x\<close> show False by simp
  qed
  ultimately show ?case by simp
qed simp

lemma indexed_distinct: "indexed seen out \<Longrightarrow> distinct (map rel_triple (filter is_rel out))"
proof (rule distinct_map_filterI)
  fix i j assume ix: "indexed seen out" and ij: "i < length out" "j < length out" "is_rel (out ! i)" "is_rel (out ! j)"
    "rel_triple (out ! i) = rel_triple (out ! j)"
  from indexed_has [OF ix ij(1,3)] obtain k where k: "seen (rel_triple (out ! i)) = Some (k, i)" ..
  from indexed_has [OF ix ij(2,4)] obtain l where "seen (rel_triple (out ! j)) = Some (l, j)" ..
  with k ij(5) show "i = j" by simp
qed

lemma indexed_triples: "indexed seen out \<Longrightarrow> rel_triple ` set (filter is_rel out) = dom seen"
proof (rule set_eqI)
  fix t assume ix: "indexed seen out"
  show "t \<in> rel_triple ` set (filter is_rel out) \<longleftrightarrow> t \<in> dom seen"
  proof
    assume "t \<in> rel_triple ` set (filter is_rel out)"
    then obtain i where "i < length out" "is_rel (out ! i)" "t = rel_triple (out ! i)"
      by (auto simp: in_set_conv_nth)
    with indexed_has [OF ix] show "t \<in> dom seen" by blast
  next
    assume "t \<in> dom seen"
    then obtain p where "seen t = Some p" unfolding dom_def by blast
    then have "seen t = Some (fst p, snd p)" by simp
    from indexed_at [OF ix this] have "snd p < length out \<and> is_rel (out ! snd p) \<and> rel_triple (out ! snd p) = t" .
    then show "t \<in> rel_triple ` set (filter is_rel out)" by (auto intro!: image_eqI [of _ _ "out ! snd p"])
  qed
qed

lemma indexed_keep:
  assumes "indexed seen out" "\<not> is_rel x"
  shows "indexed seen (out @ [x])"
proof (rule indexedI)
  fix key kept k assume "seen key = Some (kept, k)"
  from indexed_at [OF assms(1) this] show "k < length (out @ [x]) \<and> is_rel ((out @ [x]) ! k) \<and> rel_triple ((out @ [x]) ! k) = key"
    by (simp add: nth_append)
next
  fix i assume "i < length (out @ [x])" "is_rel ((out @ [x]) ! i)"
  with assms(2) have "i < length out" "is_rel (out ! i)" by (auto simp: nth_append less_Suc_eq split: if_splits)
  with indexed_has [OF assms(1)] show "\<exists>kept. seen (rel_triple ((out @ [x]) ! i)) = Some (kept, i)"
    by (simp add: nth_append)
qed

lemma indexed_new:
  assumes "indexed seen out" "is_rel y" "rel_triple y \<notin> dom seen"
  shows "indexed (seen(rel_triple y \<mapsto> (i, length out))) (out @ [y])"
proof (rule indexedI)
  fix key kept k assume k: "(seen(rel_triple y \<mapsto> (i, length out))) key = Some (kept, k)"
  show "k < length (out @ [y]) \<and> is_rel ((out @ [y]) ! k) \<and> rel_triple ((out @ [y]) ! k) = key"
  proof (cases "key = rel_triple y")
    case False
    with k have "seen key = Some (kept, k)" by simp
    from indexed_at [OF assms(1) this] show ?thesis by (simp add: nth_append)
  next
    case True
    with k have "k = length out" by simp
    with True assms(2) show ?thesis by simp
  qed
next
  fix j assume j: "j < length (out @ [y])" "is_rel ((out @ [y]) ! j)"
  show "\<exists>kept. (seen(rel_triple y \<mapsto> (i, length out))) (rel_triple ((out @ [y]) ! j)) = Some (kept, j)"
  proof (cases "j < length out")
    case True
    then have k: "\<exists>kept. seen (rel_triple (out ! j)) = Some (kept, j)"
      using indexed_has [OF assms(1) True] j by (simp add: nth_append)
    then have "rel_triple (out ! j) \<noteq> rel_triple y" using assms(3) by (metis domI)
    with k True show ?thesis by (simp add: nth_append)
  next
    case False
    with j have "j = length out" by simp
    then show ?thesis by simp
  qed
qed

lemma indexed_update:
  assumes "indexed seen out" "is_rel m" "rel_triple m = rel_triple (out ! k)" "is_rel (out ! k)"
  shows "indexed seen (out[k := m])"
proof (rule indexedI)
  fix key kept l assume "seen key = Some (kept, l)"
  from indexed_at [OF assms(1) this] show "l < length (out[k := m]) \<and> is_rel (out[k := m] ! l) \<and> rel_triple (out[k := m] ! l) = key"
    using assms(2-4) by (cases "l = k") simp_all
next
  fix i assume i: "i < length (out[k := m])" "is_rel (out[k := m] ! i)"
  then have "is_rel (out ! i)" using assms(4) by (cases "i = k") simp_all
  then have "\<exists>kept. seen (rel_triple (out ! i)) = Some (kept, i)" using indexed_has [OF assms(1)] i(1) by simp
  then show "\<exists>kept. seen (rel_triple (out[k := m] ! i)) = Some (kept, i)"
    using assms(3) i(1) by (cases "i = k") simp_all
qed

lemma filter_update: "\<not> P (xs ! k) \<Longrightarrow> \<not> P y \<Longrightarrow> filter P (xs[k := y]) = filter P xs"
  by (induction xs arbitrary: k) (auto split: nat.splits)

lemma map_filter_update: "P (xs ! k) \<Longrightarrow> P y \<Longrightarrow> f y = f (xs ! k) \<Longrightarrow> map f (filter P (xs[k := y])) = map f (filter P xs)"
  by (induction xs arbitrary: k) (auto split: nat.splits)

lemma with_merged_times_same:
  "with_merged_times kept dup mode = Inr (Some m) \<Longrightarrow>
   rel_triple m = rel_triple kept \<and> is_rel m = is_rel kept \<and> o_id m = o_id kept"
  by (auto simp: with_merged_times_def Let_def and_then_Inr rel_triple_def is_rel_def split: if_splits)

text \<open>The kept edge after a duplicate: with the merged dates, or as it was.\<close>

lemma indexed_duplicate:
  assumes "indexed seen out" "seen key = Some (kept, k)" "with_merged_times (out ! k) x mode = Inr merged"
  shows "indexed seen (case merged of None \<Rightarrow> out | Some m \<Rightarrow> out[k := m]) \<and>
    filter (\<lambda>x. \<not> is_rel x) (case merged of None \<Rightarrow> out | Some m \<Rightarrow> out[k := m]) = filter (\<lambda>x. \<not> is_rel x) out \<and>
    map o_id (filter is_rel (case merged of None \<Rightarrow> out | Some m \<Rightarrow> out[k := m])) = map o_id (filter is_rel out)"
proof (cases merged)
  case (Some m)
  with assms(3) have m: "rel_triple m = rel_triple (out ! k)" "is_rel m = is_rel (out ! k)" "o_id m = o_id (out ! k)"
    using with_merged_times_same by blast+
  have r: "is_rel (out ! k)" using assms(1,2) unfolding indexed_def by blast
  show ?thesis using Some m r
    by (simp add: indexed_update [OF assms(1)] filter_update map_filter_update)
qed (use assms in simp)

lemma rewrite_loop_ok:
  assumes "rewrite_loop remap mode xs seen out st = (st', Inr out')" "indexed seen out"
  shows "\<exists>seen' rm. indexed seen' out' \<and> dom seen' = dom seen \<union> rewired remap xs \<and>
    filter (\<lambda>x. \<not> is_rel x) out' = filter (\<lambda>x. \<not> is_rel x) out @ filter (\<lambda>x. \<not> is_rel x) xs \<and>
    removed_relationships st' = removed_relationships st @ rm \<and> merged_ids st' = merged_ids st \<and>
    mset (map o_id (filter is_rel out')) + mset (map rm_id rm) =
      mset (map o_id (filter is_rel out)) + mset (map o_id (filter is_rel xs))"
  using assms
proof (induction remap mode xs seen out st rule: rewrite_loop.induct)
  case (1 remap mode seen out st)
  then show ?case by (auto simp: rewired_def)
next
  case (2 remap mode x xs seen out st)
  let ?src = "remap_id remap (o_source_ref x)" let ?tgt = "remap_id remap (o_target_ref x)"
  consider (keep) "\<not> is_rel x" | (loop) "is_rel x" "?src = ?tgt"
    | (dup) kept k where "is_rel x" "?src \<noteq> ?tgt" "seen (remap_triple remap x) = Some (kept, k)"
    | (new) "is_rel x" "?src \<noteq> ?tgt" "seen (remap_triple remap x) = None" by fastforce
  then show ?case
  proof cases
    case keep
    with 2(1) [OF keep] 2(5) indexed_keep [OF 2(6) keep] show ?thesis
      by (simp add: rewired_Cons)
  next
    case loop
    have run: "rewrite_loop remap mode xs seen out (st\<lparr>removed_relationships := removed_relationships st @
           [\<lparr>rm_id = o_id x, rm_reason = ''self_loop_after_alias_merge'', rm_kept = None\<rparr>]\<rparr>) = (st', Inr out')"
      using 2(5) loop by simp
    have IH: "\<exists>seen' rm. indexed seen' out' \<and> dom seen' = dom seen \<union> rewired remap xs \<and>
      filter (\<lambda>x. \<not> is_rel x) out' = filter (\<lambda>x. \<not> is_rel x) out @ filter (\<lambda>x. \<not> is_rel x) xs \<and>
      removed_relationships st' = (removed_relationships st @ [\<lparr>rm_id = o_id x, rm_reason = ''self_loop_after_alias_merge'', rm_kept = None\<rparr>]) @ rm \<and>
      merged_ids st' = merged_ids st \<and>
      mset (map o_id (filter is_rel out')) + mset (map rm_id rm) = mset (map o_id (filter is_rel out)) + mset (map o_id (filter is_rel xs))"
      using 2(2) [OF _ refl refl loop(2) run 2(6)] loop(1) by simp
    then obtain seen' rm where r: "indexed seen' out'" "dom seen' = dom seen \<union> rewired remap xs"
      "filter (\<lambda>x. \<not> is_rel x) out' = filter (\<lambda>x. \<not> is_rel x) out @ filter (\<lambda>x. \<not> is_rel x) xs"
      "removed_relationships st' = removed_relationships st @ (\<lparr>rm_id = o_id x, rm_reason = ''self_loop_after_alias_merge'', rm_kept = None\<rparr> # rm)"
      "merged_ids st' = merged_ids st"
      "mset (map o_id (filter is_rel out')) + mset (map rm_id rm) = mset (map o_id (filter is_rel out)) + mset (map o_id (filter is_rel xs))"
      by auto
    show ?thesis
      by (intro exI [of _ seen'] exI [of _ "\<lparr>rm_id = o_id x, rm_reason = ''self_loop_after_alias_merge'', rm_kept = None\<rparr> # rm"] conjI)
        (use r loop in \<open>simp_all add: rewired_Cons\<close>)
  next
    case dup
    from dup have s: "seen (?src, o_rel_type x, ?tgt) = Some (kept, k)" by (simp add: remap_triple_def)
    from 2(5) dup s obtain merged where w: "with_merged_times (out ! k) x mode = Inr merged"
      by (auto split: sum.splits)
    let ?o = "case merged of None \<Rightarrow> out | Some m \<Rightarrow> out[k := m]"
    note d = indexed_duplicate [OF 2(6) s w]
    let ?e = "\<lparr>rm_id = o_id x, rm_reason = ''duplicate_after_alias_merge'', rm_kept = Some kept\<rparr>"
    have run: "rewrite_loop remap mode xs seen ?o (st\<lparr>removed_relationships := removed_relationships st @ [?e]\<rparr>) = (st', Inr out')"
      using 2(5) dup s w by simp
    have ixo: "indexed seen ?o" and fo: "filter (\<lambda>x. \<not> is_rel x) ?o = filter (\<lambda>x. \<not> is_rel x) out"
      and mo: "map o_id (filter is_rel ?o) = map o_id (filter is_rel out)" using d by blast+
    have "\<exists>seen' rm. indexed seen' out' \<and> dom seen' = dom seen \<union> rewired remap xs \<and>
      filter (\<lambda>x. \<not> is_rel x) out' = filter (\<lambda>x. \<not> is_rel x) ?o @ filter (\<lambda>x. \<not> is_rel x) xs \<and>
      removed_relationships st' = removed_relationships (st\<lparr>removed_relationships := removed_relationships st @ [?e]\<rparr>) @ rm \<and>
      merged_ids st' = merged_ids (st\<lparr>removed_relationships := removed_relationships st @ [?e]\<rparr>) \<and>
      mset (map o_id (filter is_rel out')) + mset (map rm_id rm) = mset (map o_id (filter is_rel ?o)) + mset (map o_id (filter is_rel xs))"
      using 2(4) [OF _ refl refl dup(2) refl s refl w run ixo] dup(1) by simp
    then obtain seen' rm where r: "indexed seen' out'" "dom seen' = dom seen \<union> rewired remap xs"
      "filter (\<lambda>x. \<not> is_rel x) out' = filter (\<lambda>x. \<not> is_rel x) ?o @ filter (\<lambda>x. \<not> is_rel x) xs"
      "removed_relationships st' = removed_relationships st @ (?e # rm)" "merged_ids st' = merged_ids st"
      "mset (map o_id (filter is_rel out')) + mset (map rm_id rm) = mset (map o_id (filter is_rel ?o)) + mset (map o_id (filter is_rel xs))"
      by auto
    have in_dom: "remap_triple remap x \<in> dom seen" using dup by auto
    have un: "dom seen' = dom seen \<union> rewired remap (x # xs)"
      using r(2) in_dom dup(1,2) by (auto simp: rewired_Cons)
    show ?thesis
      by (intro exI [of _ seen'] exI [of _ "?e # rm"] conjI)
        (use r un dup(1,2) fo mo in \<open>simp_all del: mset_map\<close>)
  next
    case new
    from new have s: "seen (?src, o_rel_type x, ?tgt) = None" by (simp add: remap_triple_def)
    let ?c = "?src \<noteq> o_source_ref x \<or> ?tgt \<noteq> o_target_ref x"
    let ?y = "if ?c then x\<lparr>o_source_ref := ?src, o_target_ref := ?tgt\<rparr> else x"
    let ?s = "if ?c then st\<lparr>remapped_relationships := dset (o_id x) (?src, ?tgt) (remapped_relationships st)\<rparr> else st"
    have y: "is_rel ?y" "rel_triple ?y = (?src, o_rel_type x, ?tgt)" "o_id ?y = o_id x"
      using new(1) by (auto simp: is_rel_def rel_triple_def)
    have run: "rewrite_loop remap mode xs (seen((?src, o_rel_type x, ?tgt) \<mapsto> (o_id x, length out))) (out @ [?y]) ?s = (st', Inr out')"
      using 2(5) new s by (simp add: Let_def)
    have ixn: "indexed (seen((?src, o_rel_type x, ?tgt) \<mapsto> (o_id x, length out))) (out @ [?y])"
      using indexed_new [OF 2(6) y(1), of "o_id x", unfolded y(2) domIff] s by blast
    have st: "removed_relationships ?s = removed_relationships st" "merged_ids ?s = merged_ids st" by simp_all
    note IH = 2(3) [OF _ refl refl new(2) refl s refl refl refl run ixn, unfolded st]
    then obtain seen' rm where r: "indexed seen' out'"
      "dom seen' = dom (seen((?src, o_rel_type x, ?tgt) \<mapsto> (o_id x, length out))) \<union> rewired remap xs"
      "filter (\<lambda>x. \<not> is_rel x) out' = filter (\<lambda>x. \<not> is_rel x) (out @ [?y]) @ filter (\<lambda>x. \<not> is_rel x) xs"
      "removed_relationships st' = removed_relationships st @ rm" "merged_ids st' = merged_ids st"
      "mset (map o_id (filter is_rel out')) + mset (map rm_id rm) = mset (map o_id (filter is_rel (out @ [?y]))) + mset (map o_id (filter is_rel xs))"
      using new(1) by blast
    have ids: "map o_id (filter is_rel (out @ [?y])) = map o_id (filter is_rel out) @ [o_id x]"
      using y by simp
    have un: "dom seen' = dom seen \<union> rewired remap (x # xs)"
      using r(2) new(1,2) by (auto simp: rewired_Cons remap_triple_def)
    have m6: "mset (map o_id (filter is_rel out')) + mset (map rm_id rm) =
        mset (map o_id (filter is_rel out)) + mset (map o_id (filter is_rel (x # xs)))"
      using r(6) unfolding ids using new(1) by simp
    have m3: "filter (\<lambda>x. \<not> is_rel x) out' = filter (\<lambda>x. \<not> is_rel x) out @ filter (\<lambda>x. \<not> is_rel x) (x # xs)"
      using r(3) y(1) new(1) by simp
    have keep: "filter (\<lambda>x. \<not> is_rel x) (out @ [?y]) = filter (\<lambda>x. \<not> is_rel x) out" using y by simp
    show ?thesis
      by (intro exI [of _ seen'] exI [of _ rm] conjI)
        (use r(1,4,5) un m6 m3 new(1,2) in simp_all)
  qed
qed

end
