(* ===== verification/Completion.thy ===== *)
theory Completion
  imports AliasMerge
begin

text \<open>
  The engines that add edges (pipeline/stage4b_graph_completion.py): reference grounding,
  transitive inference, long-distance prediction, and \<open>complete_graph\<close> which runs the alias
  merge and the three in order.
  Arguments stand for what the module reads or calls outside itself: the alias index and the
  ATT\&CK pairs (data files), the inferer (an injected language model), \<open>gen_id\<close> (UUIDs),
  \<open>set_order\<close> (the order in which Python walks a set). A confidence is held in hundredths,
  rounded down: \<open>int(min(a, b) / 100.0 * 0.9 * 100)\<close> is \<open>min a b * 9 div 10\<close> on the STIX
  range 0..100.
\<close>

section \<open>ATT\&CK ids of report objects\<close>

definition own_names :: "stix_obj \<Rightarrow> string list" where
  "own_names x = filter (\<lambda>n. strip n \<noteq> [])
     (o_name x # (case o_aliases x of AliasList xs \<Rightarrow> xs | AliasText s \<Rightarrow> [s]))"

text \<open>\<open>next((f(x) for x in xs if f(x)), None)\<close>.\<close>

fun first_some :: "('a \<Rightarrow> 'b option) \<Rightarrow> 'a list \<Rightarrow> 'b option" where
  "first_some f [] = None"
| "first_some f (x # xs) = (case f x of None \<Rightarrow> first_some f xs | Some y \<Rightarrow> Some y)"

definition truthy :: "string option \<Rightarrow> string option" where
  "truthy s = (if s = Some [] then None else s)"

definition attack_id_for :: "alias_index \<Rightarrow> stix_obj \<Rightarrow> string option" where
  "attack_id_for ix x =
    (if o_type x = ''attack-pattern'' then
       first_some (\<lambda>(source, ext). if source = ''mitre-attack'' then truthy (Some ext) else None) (o_external x)
     else if o_type x \<notin> {''threat-actor'', ''intrusion-set'', ''malware'', ''tool'', ''campaign''} then None
     else first_some (\<lambda>nm. truthy (mitre_id_for ix nm (Some (o_type x)))) (own_names x))"

section \<open>May this edge be added?\<close>

text \<open>
  The test the two deterministic engines share: the pin, the suggested-relationship guard, the
  edges already there, the forbidden triples, the budget, in this order.
\<close>

datatype verdict = Skip | Stop | Add string

definition admit :: "(string, policy_rule) dict \<Rightarrow> config \<Rightarrow> (triple \<rightharpoonup> string) \<Rightarrow> triple set \<Rightarrow>
    stix_obj \<Rightarrow> string \<Rightarrow> stix_obj \<Rightarrow> string \<Rightarrow> string list \<Rightarrow> stats \<Rightarrow> verdict \<times> stats" where
  "admit idx cfg fb existing a verb0 b rule premises st =
    (let verb = apply_pin verb0 (o_type a) (o_type b) idx in
     if \<not> rel_is_suggested (o_type a) verb (o_type b)
     then (Skip, st\<lparr>skipped_not_suggested := skipped_not_suggested st + 1\<rparr>)
     else let key = (o_id a, verb, o_id b) in
       if key \<in> existing then (Skip, st)
       else let (refused, st) = refuse key rule premises fb st in
         if refused then (Skip, st)
         else if int (total_added st) \<ge> c_max_new_edges cfg then (Stop, st\<lparr>capped := True\<rparr>)
         else (Add verb, st))"

section \<open>Reference grounding\<close>

text \<open>With no pairs at all (a missing index) there is no candidate and nothing happens.\<close>

definition resolved :: "alias_index \<Rightarrow> stix_obj list \<Rightarrow> (stix_obj \<times> string) list" where
  "resolved ix objs = concat (map (\<lambda>x. case attack_id_for ix x of None \<Rightarrow> [] | Some aid \<Rightarrow> [(x, aid)])
     (filter (\<lambda>x. \<not> is_rel x) objs))"

text \<open>The nested loop: each resolved object with each, the pairs MITRE relates.\<close>

definition reference_candidates :: "(string \<times> string \<rightharpoonup> string) \<Rightarrow> (stix_obj \<times> string) list \<Rightarrow>
    (stix_obj \<times> string \<times> stix_obj \<times> string) list" where
  "reference_candidates pairs rs = concat (map (\<lambda>(a, aid_a). concat (map (\<lambda>(b, aid_b).
     if o_id a = o_id b then []
     else (case truthy (pairs (aid_a, aid_b)) of None \<Rightarrow> []
           | Some verb \<Rightarrow> [(a, verb, b, ''attack-reference:'' @ aid_a @ ''>'' @ aid_b)])) rs)) rs)"

fun reference_loop :: "(nat \<Rightarrow> string) \<Rightarrow> (string, policy_rule) dict \<Rightarrow> config \<Rightarrow> (triple \<rightharpoonup> string) \<Rightarrow>
    (stix_obj \<times> string \<times> stix_obj \<times> string) list \<Rightarrow> triple set \<Rightarrow> stix_obj list \<Rightarrow> stats \<Rightarrow>
    stix_obj list \<times> stats" where
  "reference_loop gen idx cfg fb [] existing objs st = (objs, st)"
| "reference_loop gen idx cfg fb ((a, verb, b, rule) # cs) existing objs st =
    (case admit idx cfg fb existing a verb b rule [] st of
       (Skip, st) \<Rightarrow> reference_loop gen idx cfg fb cs existing objs st
     | (Stop, st) \<Rightarrow> (objs, st)
     | (Add v, st) \<Rightarrow>
         reference_loop gen idx cfg fb cs (insert (o_id a, v, o_id b) existing)
           (objs @ [make_inferred_rel (gen (total_added st)) a v b 85 rule [] [] EXTERNAL_REFERENCE])
           (st\<lparr>reference_added := reference_added st + 1\<rparr>))"

definition ground_reference :: "(nat \<Rightarrow> string) \<Rightarrow> alias_index \<Rightarrow> (string \<times> string \<rightharpoonup> string) \<Rightarrow>
    (string, policy_rule) dict \<Rightarrow> config \<Rightarrow> (triple \<rightharpoonup> string) \<Rightarrow> stix_obj list \<Rightarrow> stats \<Rightarrow>
    stix_obj list \<times> stats" where
  "ground_reference gen ix pairs idx cfg fb objs st =
    (let rs = resolved ix objs in
     if length rs < 2 then (objs, st)
     else reference_loop gen idx cfg fb (reference_candidates pairs rs) (existing_edges objs) objs st)"

section \<open>Transitive inference\<close>

text \<open>\<open>{o.id: o for o in objects}\<close>: the last object of an id.\<close>

definition by_id :: "stix_obj list \<Rightarrow> (string \<rightharpoonup> stix_obj)" where
  "by_id objs = map_of (rev (map (\<lambda>x. (o_id x, x)) objs))"

definition out_edges :: "stix_obj list \<Rightarrow> (string, stix_obj list) dict" where
  "out_edges rels = group_by o_source_ref rels"

definition premise_confidence :: "stix_obj \<Rightarrow> int" where
  "premise_confidence r = or_default (o_confidence r) 50"

type_synonym composition = "stix_obj \<times> string \<times> stix_obj \<times> stix_obj \<times> stix_obj"

definition compose :: "(string \<rightharpoonup> stix_obj) \<Rightarrow> string \<Rightarrow> stix_obj \<Rightarrow> stix_obj \<Rightarrow> stix_obj \<Rightarrow> composition list" where
  "compose ids ai a r_ab r_bc =
    (if o_target_ref r_bc = ai then []
     else (case TRANSITIVE_RULES (o_rel_type r_ab, o_rel_type r_bc) of None \<Rightarrow> []
       | Some v \<Rightarrow> (case ids (o_target_ref r_bc) of None \<Rightarrow> []
         | Some c \<Rightarrow> [(a, v, c, r_ab, r_bc)])))"

text \<open>The three nested loops: the pairs of edges a rule composes, with their endpoints.\<close>

definition transitive_candidates :: "stix_obj list \<Rightarrow> composition list" where
  "transitive_candidates objs =
    (let ids = by_id (filter (\<lambda>x. \<not> is_rel x) objs); out = out_edges (filter is_rel objs) in
     concat (map (\<lambda>(ai, ab_list). case ids ai of None \<Rightarrow> []
       | Some a \<Rightarrow> concat (map (\<lambda>r_ab. concat (map (compose ids ai a r_ab) (dget out (o_target_ref r_ab) []))) ab_list))
       out))"

fun transitive_loop :: "(nat \<Rightarrow> string) \<Rightarrow> (string, policy_rule) dict \<Rightarrow> config \<Rightarrow> (triple \<rightharpoonup> string) \<Rightarrow>
    composition list \<Rightarrow> triple set \<Rightarrow> stix_obj list \<Rightarrow> stats \<Rightarrow> stix_obj list \<times> stats" where
  "transitive_loop gen idx cfg fb [] existing new_objs st = (new_objs, st)"
| "transitive_loop gen idx cfg fb ((a, verb, c, r_ab, r_bc) # cs) existing new_objs st =
    (let rule = ''transitive:'' @ o_rel_type r_ab @ ''+'' @ o_rel_type r_bc;
         premises = [o_id r_ab, o_id r_bc] in
     case admit idx cfg fb existing a verb c rule premises st of
       (Skip, st) \<Rightarrow> transitive_loop gen idx cfg fb cs existing new_objs st
     | (Stop, st) \<Rightarrow> (new_objs, st)
     | (Add v, st) \<Rightarrow>
         transitive_loop gen idx cfg fb cs (insert (o_id a, v, o_id c) existing)
           (new_objs @ [make_inferred_rel (gen (total_added st)) a v c
              (min (premise_confidence r_ab) (premise_confidence r_bc) * 9 div 10) rule premises [] ''inferred''])
           (st\<lparr>transitive_added := transitive_added st + 1\<rparr>))"

definition infer_transitive :: "(nat \<Rightarrow> string) \<Rightarrow> (string, policy_rule) dict \<Rightarrow> config \<Rightarrow> (triple \<rightharpoonup> string) \<Rightarrow>
    stix_obj list \<Rightarrow> stats \<Rightarrow> stix_obj list \<times> stats" where
  "infer_transitive gen idx cfg fb objs st =
    (let (new_objs, st) = transitive_loop gen idx cfg fb (transitive_candidates objs) (existing_edges objs) [] st
     in (objs @ new_objs, st))"

section \<open>Long-distance prediction\<close>

record inferred_edge =
  ie_source_id :: string
  ie_verb :: string
  ie_target_id :: string
  ie_confidence :: int
  ie_evidence_text :: string

definition NOT_AN_SDO :: string where "NOT_AN_SDO = ''not_an_sdo''"

definition connected_components :: "string list \<Rightarrow> stix_obj list \<Rightarrow> string list list option" where
  "connected_components node_ids rels =
    (case unions component_union (map_of (map (\<lambda>n. (n, n)) node_ids))
        (filter (\<lambda>(s, t). s \<in> set node_ids \<and> t \<in> set node_ids)
           (map (\<lambda>r. (o_source_ref r, o_target_ref r)) rels)) of
       None \<Rightarrow> None
     | Some p \<Rightarrow> (case roots find_halving p node_ids of None \<Rightarrow> None
       | Some (rs, _) \<Rightarrow> Some (map snd (group_pairs (zip rs node_ids)))))"

definition central :: "(string, nat) dict \<Rightarrow> string list \<Rightarrow> string" where
  "central deg ns = max_by (\<lambda>n. (dget deg n 0, n)) (hd ns) (tl ns)"

text \<open>\<open>id_to_obj\<close>: the objects that may be endpoints, by id.\<close>

definition sdo_by_id :: "stix_obj list \<Rightarrow> string \<Rightarrow> stix_obj option" where
  "sdo_by_id nodes i = (case by_id nodes i of None \<Rightarrow> None
     | Some x \<Rightarrow> if o_type x \<in> set LONG_DISTANCE_TYPES then Some x else None)"

type_synonym inferer = "stix_obj \<Rightarrow> stix_obj \<Rightarrow> string \<Rightarrow> string + inferred_edge option"

text \<open>What becomes of the edge the inferer proposes.\<close>

definition place_edge :: "(nat \<Rightarrow> string) \<Rightarrow> (string \<rightharpoonup> stix_obj) \<Rightarrow> (string, policy_rule) dict \<Rightarrow> (triple \<rightharpoonup> string) \<Rightarrow>
    inferred_edge \<Rightarrow> triple set \<times> stix_obj list \<times> stats \<Rightarrow> triple set \<times> stix_obj list \<times> stats" where
  "place_edge gen all_objs idx fb e = (\<lambda>(existing, objs, st).
    if ie_verb e \<notin> set STIX_RELATIONSHIP_TYPES then (existing, objs, st)
    else case (all_objs (ie_source_id e), all_objs (ie_target_id e)) of
      (Some s, Some t) \<Rightarrow>
        if o_id s = o_id t then (existing, objs, st)
        else let verb = apply_pin (ie_verb e) (o_type s) (o_type t) idx in
          if \<not> rel_is_suggested (o_type s) verb (o_type t)
          then (existing, objs, st\<lparr>skipped_not_suggested := skipped_not_suggested st + 1\<rparr>)
          else let key = (o_id s, verb, o_id t) in
            if key \<in> existing then (existing, objs, st)
            else if o_type s \<notin> set LONG_DISTANCE_TYPES \<or> o_type t \<notin> set LONG_DISTANCE_TYPES
            then (existing, objs, snd (refuse key ''long-distance'' [] [key \<mapsto> NOT_AN_SDO] st))
            else let (refused, st) = refuse key ''long-distance'' [] fb st in
              if refused then (existing, objs, st)
              else (insert key existing,
                    objs @ [make_inferred_rel (gen (total_added st)) s verb t (ie_confidence e) ''long-distance'' []
                       (ie_evidence_text e) ''inferred''],
                    st\<lparr>long_distance_added := long_distance_added st + 1\<rparr>)
    | _ \<Rightarrow> (existing, objs, st))"

fun long_distance_loop :: "(nat \<Rightarrow> string) \<Rightarrow> inferer \<Rightarrow> string \<Rightarrow> (string \<rightharpoonup> stix_obj) \<Rightarrow> (string \<rightharpoonup> stix_obj) \<Rightarrow>
    string \<Rightarrow> (string, policy_rule) dict \<Rightarrow> config \<Rightarrow> (triple \<rightharpoonup> string) \<Rightarrow> string list \<Rightarrow>
    triple set \<times> stix_obj list \<times> stats \<Rightarrow> stix_obj list \<times> stats" where
  "long_distance_loop gen infer text all_objs ids topic idx cfg fb [] (existing, objs, st) = (objs, st)"
| "long_distance_loop gen infer text all_objs ids topic idx cfg fb (cnode # cs) (existing, objs, st) =
    (if cnode = topic then long_distance_loop gen infer text all_objs ids topic idx cfg fb cs (existing, objs, st)
     else if int (total_added st) \<ge> c_max_new_edges cfg then (objs, st\<lparr>capped := True\<rparr>)
     else case (ids cnode, ids topic) of
       (Some src, Some tgt) \<Rightarrow>
         (case infer src tgt text of
            Inl err \<Rightarrow> long_distance_loop gen infer text all_objs ids topic idx cfg fb cs
              (existing, objs, st\<lparr>st_notes := st_notes st @ [InfererError err]\<rparr>)
          | Inr None \<Rightarrow> long_distance_loop gen infer text all_objs ids topic idx cfg fb cs (existing, objs, st)
          | Inr (Some e) \<Rightarrow> long_distance_loop gen infer text all_objs ids topic idx cfg fb cs
              (place_edge gen all_objs idx fb e (existing, objs, st)))
     | _ \<Rightarrow> (objs, st))"

definition infer_long_distance :: "(nat \<Rightarrow> string) \<Rightarrow> (string set \<Rightarrow> string list) \<Rightarrow> inferer \<Rightarrow> string \<Rightarrow>
    (string, policy_rule) dict \<Rightarrow> config \<Rightarrow> (triple \<rightharpoonup> string) \<Rightarrow> stix_obj list \<Rightarrow> stats \<Rightarrow>
    (stix_obj list \<times> stats) option" where
  "infer_long_distance gen set_order infer text idx cfg fb objs st =
    (let nodes = filter (\<lambda>x. \<not> is_rel x) objs;
         all_objs = by_id nodes;
         ids = sdo_by_id nodes;
         node_ids = set_order (set (filter (\<lambda>i. ids i \<noteq> None) (map o_id nodes)));
         rels = filter is_rel objs;
         deg = degree objs in
     case connected_components node_ids rels of None \<Rightarrow> None
     | Some comps \<Rightarrow>
        if length comps < 2 then Some (objs, st)
        else let centrals = map (central deg) comps;
                 topic = central deg centrals
             in Some (long_distance_loop gen infer text all_objs ids topic idx cfg fb centrals
                  (existing_edges objs, objs, st)))"

section \<open>complete_graph\<close>

record world =
  w_alias_index :: alias_index
  w_attack_pairs :: "string \<times> string \<rightharpoonup> string"
  w_fuzz :: "(string \<Rightarrow> string \<Rightarrow> rat) option"
  w_embedder :: embedding
  w_gen_id :: "nat \<Rightarrow> string"
  w_set_order :: "string set \<Rightarrow> string list"

text \<open>The alias step: the objects, the statistics and the forbidden triples after it.\<close>

definition alias_step :: "world \<Rightarrow> config \<Rightarrow> forbidden \<Rightarrow> stix_obj list \<Rightarrow>
    (stix_obj list \<times> stats \<times> forbidden) option" where
  "alias_step w cfg fb objs =
    (if \<not> c_alias cfg then Some (objs, new_stats, fb)
     else case merge_aliases (w_fuzz w) (w_embedder w) cfg objs new_stats of
       None \<Rightarrow> None
     | Some (objs, st, raised) \<Rightarrow>
         let st = (case raised of None \<Rightarrow> st
                   | Some e \<Rightarrow> st\<lparr>st_notes := st_notes st @ [AliasMergeFailed e]\<rparr>)
         in Some (objs, st, if merged_ids st = [] then fb else moved_forbidden (map_of (merged_ids st)) fb))"

definition complete_graph :: "world \<Rightarrow> policy option \<Rightarrow> string \<Rightarrow> inferer option \<Rightarrow> forbidden \<Rightarrow> stix_obj list \<Rightarrow>
    (stix_obj list \<times> stats) option" where
  "complete_graph w pol text infer forbidden objs =
    (let cfg = completion_cfg pol; idx = pol_index pol; gen = w_gen_id w in
     case alias_step w cfg forbidden objs of None \<Rightarrow> None
     | Some (objs, st, fb) \<Rightarrow>
       let fb = map_of (both_directions fb);
           (objs, st) = (if c_reference cfg
              then ground_reference gen (w_alias_index w) (w_attack_pairs w) idx cfg fb objs st else (objs, st));
           (objs, st) = (if c_transitive cfg then infer_transitive gen idx cfg fb objs st else (objs, st))
       in (case infer of
             Some f \<Rightarrow> if c_long_distance cfg
               then infer_long_distance gen (w_set_order w) f text idx cfg fb objs st else Some (objs, st)
           | None \<Rightarrow> Some (objs, st)))"

end
