(* ===== verification/AliasSound.thy ===== *)
theory AliasSound
  imports AliasMerge
begin

text \<open>
  What the alias merge of graph completion does to a bundle: which objects are absorbed, by
  which node, what the surviving node remembers of them, and what becomes of the edges.
\<close>

section \<open>The pairs\<close>

definition usable_names :: "stix_obj \<Rightarrow> string list" where
  "usable_names x = filter usable_name (o_name x # alias_items (o_aliases x))"

text \<open>Two objects the passes may join: same type, neither known by IoC-shaped names only.\<close>

definition mergeable :: "stix_obj \<Rightarrow> stix_obj \<Rightarrow> bool" where
  "mergeable x y \<longleftrightarrow> o_type x = o_type y \<and> usable_names x \<noteq> [] \<and> usable_names y \<noteq> []"

definition pair_ok :: "stix_obj list \<Rightarrow> string \<times> string \<Rightarrow> bool" where
  "pair_ok sdos p \<longleftrightarrow> (\<exists>x \<in> set sdos. \<exists>y \<in> set sdos. p = (o_id x, o_id y) \<and> mergeable x y)"

lemma pair_okI: "x \<in> set sdos \<Longrightarrow> y \<in> set sdos \<Longrightarrow> mergeable x y \<Longrightarrow> pair_ok sdos (o_id x, o_id y)"
  unfolding pair_ok_def by blast

lemma name_tokens_usable: "k \<in> set (name_tokens x) \<Longrightarrow> fst k = o_type x \<and> usable_names x \<noteq> []"
  by (auto simp: name_tokens_def usable_names_def filter_empty_conv split: if_splits)

lemma later_pairs_in: "(x, y) \<in> set (later_pairs xs) \<Longrightarrow> x \<in> set xs \<and> y \<in> set xs"
  by (induction xs) auto

lemma token_owner: "(k, owners) \<in> set (token_owners sdos) \<Longrightarrow> i \<in> set owners \<Longrightarrow>
    \<exists>x \<in> set sdos. o_id x = i \<and> k \<in> set (name_tokens x)"
  unfolding token_owners_def group_pairs_entry by auto

lemma token_pairs_ok: "p \<in> set (token_pairs sdos) \<Longrightarrow> pair_ok sdos p"
proof -
  assume "p \<in> set (token_pairs sdos)"
  then obtain k owners where o: "(k, owners) \<in> set (token_owners sdos)" "p \<in> set (with_first owners)"
    by (auto simp: token_pairs_def)
  obtain a b where p: "p = (a, b)" by (cases p)
  have "a \<in> set owners" "b \<in> set owners" using with_first_set [of a b owners] o(2) p by simp_all
  with token_owner [OF o(1)] obtain x y where
    xy: "x \<in> set sdos" "o_id x = a" "k \<in> set (name_tokens x)" "y \<in> set sdos" "o_id y = b" "k \<in> set (name_tokens y)"
    by blast
  have "mergeable x y" unfolding mergeable_def
    using name_tokens_usable [OF xy(3)] name_tokens_usable [OF xy(6)] by simp
  from pair_okI [OF xy(1,4) this] show ?thesis using xy(2,5) p by simp
qed

lemma usable_own_name: "usable_name (o_name x) \<Longrightarrow> usable_names x \<noteq> []"
  by (simp add: usable_names_def)

lemma fuzzy_pairs_ok: "p \<in> set (fuzzy_pairs ratio sdos) \<Longrightarrow> pair_ok sdos p"
proof -
  assume "p \<in> set (fuzzy_pairs ratio sdos)"
  then obtain t g x y where g: "(t, g) \<in> set (group_by o_type sdos)" "(x, y) \<in> set (later_pairs g)"
    "usable_name (o_name x)" "usable_name (o_name y)" "p = (o_id x, o_id y)"
    unfolding fuzzy_pairs_def by auto
  from later_pairs_in [OF g(2)] g(1) have "x \<in> set sdos" "y \<in> set sdos" "o_type x = o_type y"
    unfolding group_by_entry by auto
  with g(3-5) show ?thesis using pair_okI [of x sdos y] by (simp add: mergeable_def usable_own_name)
qed

lemma semantic_pairs_ok: "p \<in> set (semantic_pairs sims sdos) \<Longrightarrow> pair_ok sdos p"
proof -
  assume "p \<in> set (semantic_pairs sims sdos)"
  then obtain t g i x j y where
    g: "(t, g) \<in> set (group_by o_type (filter (\<lambda>x. usable_name (o_name x)) sdos))"
    "((i, x), (j, y)) \<in> set (later_pairs (zip [0..<length g] g))" "p = (o_id x, o_id y)"
    unfolding semantic_pairs_def by (auto split: if_splits)
  from later_pairs_in [OF g(2)] have "x \<in> set g" "y \<in> set g" by (auto dest: set_zip_rightD)
  with g(1) have "x \<in> set sdos" "y \<in> set sdos" "o_type x = o_type y" "usable_name (o_name x)" "usable_name (o_name y)"
    unfolding group_by_entry by auto
  with g(3) show ?thesis using pair_okI [of x sdos y] by (simp add: mergeable_def usable_own_name)
qed

lemma alias_pairs_ok: "p \<in> set (fst (alias_pairs fuzz embedder cfg sdos)) \<Longrightarrow> pair_ok sdos p"
  by (auto simp: alias_pairs_def Let_def split: if_splits option.splits embedding.splits
      dest: token_pairs_ok fuzzy_pairs_ok semantic_pairs_ok)

section \<open>The clusters\<close>

lemma setdefault_fold:
  "fold (\<lambda>x p. setdefault p (o_id x)) sdos (\<lambda>i. if i \<in> A then Some i else None) =
   (\<lambda>i. if i \<in> A \<union> o_id ` set sdos then Some i else None)"
proof (induction sdos arbitrary: A)
  case (Cons x xs)
  have "setdefault (\<lambda>i. if i \<in> A then Some i else None) (o_id x) = (\<lambda>i. if i \<in> insert (o_id x) A then Some i else None)"
    by (auto simp: setdefault_def fun_eq_iff)
  with Cons.IH [of "insert (o_id x) A"] show ?case by simp
qed simp

lemma group_zip: "group_pairs (zip (map f xs) xs) = group_by f xs"
  by (simp add: group_by_def zip_map1 zip_same_conv_map o_def)

lemma pairs_closure_Id:
  "({(u, v). u \<in> A \<and> v \<in> A \<and> u = v} \<union> P \<union> P\<inverse>)\<^sup>* = (P \<union> P\<inverse>)\<^sup>*"
  by (rule rtrancl_subset_antisym) auto

text \<open>The union-find of the alias pass partitions the objects by the closure of the pairs.\<close>

lemma alias_clusters_closure:
  assumes "\<And>p. p \<in> set pairs \<Longrightarrow> pair_ok sdos p"
  shows "\<exists>f. alias_clusters sdos pairs = Some (group_by (f \<circ> o_id) sdos) \<and>
    (\<forall>x \<in> set sdos. \<forall>y \<in> set sdos. f (o_id x) = f (o_id y) \<longleftrightarrow>
      (o_id x, o_id y) \<in> (set pairs \<union> (set pairs)\<inverse>)\<^sup>*)"
proof -
  define A where "A = o_id ` set sdos"
  define p where "p = (\<lambda>i. if i \<in> A then Some i else None :: string option)"
  have e: "(\<lambda>i. if i \<in> {} then Some i else None :: string option) = Map.empty" by simp
  have fp: "fold (\<lambda>x p. setdefault p (o_id x)) sdos Map.empty = p"
    using setdefault_fold [of sdos "{}"] unfolding e p_def A_def by simp
  have d: "dom p = A" unfolding p_def by (auto split: if_splits)
  have f: "forest p" unfolding p_def by (rule forest_identity)
  have rp: "x \<in> A \<Longrightarrow> rep p x = x" for x unfolding p_def by (rule rep_identity)
  have ends: "fst ` set pairs \<union> snd ` set pairs \<subseteq> dom p"
  proof -
    have "fst e \<in> A \<and> snd e \<in> A" if "e \<in> set pairs" for e
      using assms [OF that] unfolding pair_ok_def A_def by auto
    then show ?thesis unfolding d by blast
  qed
  obtain q where q: "unions alias_union p pairs = Some q" "forest q" "dom q = dom p"
    and cl: "\<forall>x \<in> dom p. \<forall>y \<in> dom p. rep q x = rep q y \<longleftrightarrow>
        (x, y) \<in> ({(u, v). u \<in> dom p \<and> v \<in> dom p \<and> rep p u = rep p v} \<union> set pairs \<union> (set pairs)\<inverse>)\<^sup>*"
    using alias_uf.unions_ok [OF f ends] by blast
  have "{(u, v). u \<in> A \<and> v \<in> A \<and> rep p u = rep p v} = {(u, v). u \<in> A \<and> v \<in> A \<and> u = v}"
    using rp by auto
  with cl have cl': "x \<in> A \<Longrightarrow> y \<in> A \<Longrightarrow> rep q x = rep q y \<longleftrightarrow> (x, y) \<in> (set pairs \<union> (set pairs)\<inverse>)\<^sup>*" for x y
    unfolding d by (simp add: pairs_closure_Id)
  have sub: "set (map o_id sdos) \<subseteq> dom q" unfolding q(3) d A_def by simp
  obtain r where r: "roots alias_find q (map o_id sdos) = Some (map (rep q) (map o_id sdos), r)"
    using alias_uf.roots_ok [OF q(2) sub] by blast
  have z: "group_pairs (zip (map (rep q) (map o_id sdos)) sdos) = group_by (rep q \<circ> o_id) sdos"
    unfolding group_zip [symmetric] by simp
  have "alias_clusters sdos pairs = Some (group_by (rep q \<circ> o_id) sdos)"
    unfolding alias_clusters_def fp by (simp only: q(1) r z option.case prod.case)
  moreover have "\<forall>x \<in> set sdos. \<forall>y \<in> set sdos. rep q (o_id x) = rep q (o_id y) \<longleftrightarrow>
      (o_id x, o_id y) \<in> (set pairs \<union> (set pairs)\<inverse>)\<^sup>*"
    using cl' unfolding A_def by blast
  ultimately show ?thesis by blast
qed

section \<open>One cluster\<close>

definition same_but_aliases :: "stix_obj \<Rightarrow> stix_obj \<Rightarrow> bool" where
  "same_but_aliases a b \<longleftrightarrow> a\<lparr>o_aliases := AliasList []\<rparr> = b\<lparr>o_aliases := AliasList []\<rparr>"

lemma same_but_aliases_fields:
  assumes "same_but_aliases a b"
  shows "o_id a = o_id b" "o_type a = o_type b" "o_name a = o_name b" "is_rel a = is_rel b" "rel_triple a = rel_triple b"
proof -
  have e: "a\<lparr>o_aliases := AliasList []\<rparr> = b\<lparr>o_aliases := AliasList []\<rparr>" using assms by (simp add: same_but_aliases_def)
  from arg_cong [OF e, of o_id] arg_cong [OF e, of o_type] arg_cong [OF e, of o_name] arg_cong [OF e, of o_source_ref]
    arg_cong [OF e, of o_rel_type] arg_cong [OF e, of o_target_ref]
  show "o_id a = o_id b" "o_type a = o_type b" "o_name a = o_name b" "is_rel a = is_rel b" "rel_triple a = rel_triple b"
    by (simp_all add: is_rel_def rel_triple_def)
qed

lemma same_but_aliases_refl [simp]: "same_but_aliases a a"
  by (simp add: same_but_aliases_def)

lemma replace_obj_all2:
  assumes "list_all2 same_but_aliases os0 os" "c \<in> set os0" "same_but_aliases c x" "distinct (map o_id os0)"
  shows "list_all2 same_but_aliases os0 (replace_obj (o_id c) x os)"
  using assms
proof (induction os0 arbitrary: os)
  case (Cons a as)
  then obtain b bs where os: "os = b # bs" and hyps: "same_but_aliases a b" "list_all2 same_but_aliases as bs"
    by (auto simp: list_all2_Cons1)
  have ab: "o_id a = o_id b" using same_but_aliases_fields(1) [OF hyps(1)] .
  show ?case
  proof (cases "o_id b = o_id c")
    case True
    then have "c = a" using Cons.prems(2,4) ab by (auto simp: rev_image_eqI)
    with True Cons.prems(3) os hyps show ?thesis by simp
  next
    case False
    then have "c \<in> set as" using Cons.prems(2) ab by auto
    from Cons.IH [OF hyps(2) this Cons.prems(3)] Cons.prems(4) os hyps(1) False show ?thesis by simp
  qed
qed simp

lemma replace_obj_in: "i \<in> o_id ` set os \<Longrightarrow> x \<in> set (replace_obj i x os)"
  by (induction os) auto

lemma replace_obj_other: "y \<in> set os \<Longrightarrow> o_id y \<noteq> i \<Longrightarrow> y \<in> set (replace_obj i x os)"
  by (induction os) auto

lemma replace_obj_set: "set (replace_obj i x os) \<subseteq> insert x (set os)"
  by (induction os) auto

lemma canonical_in: "ms \<noteq> [] \<Longrightarrow> canonical_of deg ms \<in> set ms"
  unfolding canonical_of_def using max_by_in [of _ "hd ms" "tl ms"] by (cases ms) auto

definition absorbed :: "(string, nat) dict \<Rightarrow> stix_obj list \<Rightarrow> stix_obj list" where
  "absorbed deg ms = filter (\<lambda>m. o_id m \<noteq> o_id (canonical_of deg ms)) ms"

lemma absorbed_two: "absorbed deg ms \<noteq> [] \<Longrightarrow> 2 \<le> length ms"
proof (cases ms)
  case (Cons m ns)
  then show "absorbed deg ms \<noteq> [] \<Longrightarrow> 2 \<le> length ms"
    by (cases ns) (auto simp: absorbed_def canonical_of_def)
qed (simp add: absorbed_def)

lemma absorbed_short: "length ms < 2 \<Longrightarrow> absorbed deg ms = []"
  using absorbed_two [of deg ms] by linarith

lemma keys_dset_fold: "fst ` set (fold (\<lambda>m. dset (f m) (g m)) ms d) = fst ` set d \<union> f ` set ms"
  by (induction ms arbitrary: d) (auto simp: keys_dset)

lemma map_of_dset_fold:
  "map_of (fold (\<lambda>m. dset (f m) c) ms d) i = (if i \<in> f ` set ms then Some c else map_of d i)"
  by (induction ms arbitrary: d) (auto simp: map_of_dset)

definition with_aliases :: "stix_obj \<Rightarrow> string list \<Rightarrow> stix_obj" where
  "with_aliases c names = c\<lparr>o_aliases := AliasList (sort (remdups (filter (\<lambda>a. a \<noteq> []) names)))\<rparr>"

lemma merge_cluster_step:
  assumes "merge_cluster deg ms (objs, remap, st) = (objs', remap', st')"
  shows "remap' = fold (\<lambda>m. dset (o_id m) (o_id (canonical_of deg ms))) (absorbed deg ms) remap \<and>
    merged_ids st' = merged_ids st \<and> removed_relationships st' = removed_relationships st"
proof (cases "length ms < 2")
  case True
  with assms absorbed_short [OF True, of deg] show ?thesis by (simp add: merge_cluster_def)
next
  case False
  with assms show ?thesis by (auto simp: merge_cluster_def Let_def absorbed_def)
qed

lemma merge_cluster_remap:
  assumes "merge_cluster deg ms (objs, remap, st) = (objs', remap', st')"
  shows "map_of remap' i = (if i \<in> o_id ` set (absorbed deg ms) then Some (o_id (canonical_of deg ms)) else map_of remap i)"
    and "fst ` set remap' = fst ` set remap \<union> o_id ` set (absorbed deg ms)"
    and "merged_ids st' = merged_ids st" "removed_relationships st' = removed_relationships st"
  using merge_cluster_step [OF assms] by (simp_all add: map_of_dset_fold keys_dset_fold)

lemma merge_cluster_objs:
  assumes "merge_cluster deg ms (objs, remap, st) = (objs', remap', st')"
  shows "objs' = objs \<or> (ms \<noteq> [] \<and>
    objs' = replace_obj (o_id (canonical_of deg ms))
      (with_aliases (canonical_of deg ms) (merged_aliases (canonical_of deg ms) (absorbed deg ms))) objs)"
  using assms by (auto simp: merge_cluster_def Let_def absorbed_def with_aliases_def split: if_splits)

lemma with_aliases_same [simp]: "same_but_aliases c (with_aliases c names)" "o_id (with_aliases c names) = o_id c"
  "o_name (with_aliases c names) = o_name c"
  by (simp_all add: same_but_aliases_def with_aliases_def)

text \<open>The node that survives keeps every name it absorbed.\<close>

definition knows :: "stix_obj \<Rightarrow> string \<Rightarrow> bool" where
  "knows y nm \<longleftrightarrow> nm = [] \<or> nm = o_name y \<or> nm \<in> set (alias_items (o_aliases y))"

lemma merge_cluster_knows:
  assumes "merge_cluster deg ms (objs, remap, st) = (objs', remap', st')" "m \<in> set (absorbed deg ms)"
    and "b \<in> set objs" "o_id b = o_id (canonical_of deg ms)" "o_name b = o_name (canonical_of deg ms)"
  shows "\<exists>y \<in> set objs'. o_id y = o_id (canonical_of deg ms) \<and> (\<forall>nm \<in> set (o_name m # alias_items (o_aliases m)). knows y nm)"
proof -
  let ?c = "canonical_of deg ms" let ?n = "merged_aliases ?c (absorbed deg ms)"
  have two: "2 \<le> length ms" using assms(2) by (intro absorbed_two [of deg]) auto
  have in_n: "nm \<in> set ?n" if "nm \<in> set (o_name m # alias_items (o_aliases m))" "nm \<noteq> o_name ?c" for nm
    using that assms(2) by (auto simp: merged_aliases_def)
  show ?thesis
  proof (cases "?n = []")
    case False
    with two assms(1) have "objs' = replace_obj (o_id ?c) (with_aliases ?c ?n) objs"
      by (auto simp: merge_cluster_def Let_def absorbed_def with_aliases_def)
    then have "with_aliases ?c ?n \<in> set objs'" using replace_obj_in [of "o_id ?c" objs] assms(3,4) by (metis image_eqI)
    moreover have "knows (with_aliases ?c ?n) nm" if "nm \<in> set (o_name m # alias_items (o_aliases m))" for nm
      using in_n [OF that] by (auto simp: knows_def with_aliases_def alias_items_def)
    ultimately show ?thesis by (intro bexI [of _ "with_aliases ?c ?n"]) auto
  next
    case True
    with two assms(1) have "objs' = objs" by (auto simp: merge_cluster_def Let_def absorbed_def)
    moreover have "nm = o_name ?c" if "nm \<in> set (o_name m # alias_items (o_aliases m))" for nm
      using in_n [OF that] True by auto
    ultimately show ?thesis using assms(3-5) by (intro bexI [of _ b]) (auto simp: knows_def)
  qed
qed

section \<open>All clusters\<close>

abbreviation "run_clusters deg cs s \<equiv> fold (\<lambda>(_, ms). merge_cluster deg ms) cs s"

lemma run_clusters_remap:
  assumes "run_clusters deg cs (objs, remap, st) = (objs', remap', st')"
  shows "fst ` set remap' = fst ` set remap \<union> (\<Union>(k, ms) \<in> set cs. o_id ` set (absorbed deg ms)) \<and>
    (\<forall>i c. map_of remap' i = Some c \<longrightarrow> map_of remap i = Some c \<or>
      (\<exists>(k, ms) \<in> set cs. i \<in> o_id ` set (absorbed deg ms) \<and> c = o_id (canonical_of deg ms))) \<and>
    merged_ids st' = merged_ids st \<and> removed_relationships st' = removed_relationships st"
  using assms
proof (induction cs arbitrary: objs remap st)
  case (Cons c cs)
  obtain k ms where c: "c = (k, ms)" by (cases c)
  obtain o1 r1 s1 where m: "merge_cluster deg ms (objs, remap, st) = (o1, r1, s1)" by (metis prod_cases3)
  with Cons.prems c have run: "run_clusters deg cs (o1, r1, s1) = (objs', remap', st')" by simp
  note step = merge_cluster_remap [OF m]
  show ?case
    using Cons.IH [OF run] unfolding step(2-4) c by (auto simp: step(1) split: if_splits)
qed simp

lemma run_clusters_objs:
  assumes "run_clusters deg cs (objs, remap, st) = (objs', remap', st')"
    and "list_all2 same_but_aliases os0 objs" "distinct (map o_id os0)" "\<And>k ms. (k, ms) \<in> set cs \<Longrightarrow> set ms \<subseteq> set os0"
  shows "list_all2 same_but_aliases os0 objs'"
  using assms
proof (induction cs arbitrary: objs remap st)
  case (Cons c cs)
  obtain k ms where c: "c = (k, ms)" by (cases c)
  obtain o1 r1 s1 where m: "merge_cluster deg ms (objs, remap, st) = (o1, r1, s1)" by (metis prod_cases3)
  with Cons.prems c have run: "run_clusters deg cs (o1, r1, s1) = (objs', remap', st')" by simp
  have sub: "set ms \<subseteq> set os0" using Cons.prems(4) [of k ms] c by simp
  have all1: "list_all2 same_but_aliases os0 o1"
  proof (rule disjE [OF merge_cluster_objs [OF m]])
    assume r: "ms \<noteq> [] \<and> o1 = replace_obj (o_id (canonical_of deg ms))
      (with_aliases (canonical_of deg ms) (merged_aliases (canonical_of deg ms) (absorbed deg ms))) objs"
    then have "canonical_of deg ms \<in> set os0" using canonical_in [of ms deg] sub by blast
    from replace_obj_all2 [OF Cons.prems(2) this with_aliases_same(1) Cons.prems(3)] r show ?thesis by simp
  qed (use Cons.prems(2) in simp)
  show ?case
  proof (rule Cons.IH [OF run all1 Cons.prems(3)])
    show "set ns \<subseteq> set os0" if "(j, ns) \<in> set cs" for j ns
      using Cons.prems(4) [of j ns] that by simp
  qed
qed simp

lemma run_clusters_keeps:
  assumes "run_clusters deg cs (objs, remap, st) = (objs', remap', st')" "y \<in> set objs"
    and "\<And>k ms. (k, ms) \<in> set cs \<Longrightarrow> ms \<noteq> [] \<Longrightarrow> o_id (canonical_of deg ms) \<noteq> o_id y"
  shows "y \<in> set objs'"
  using assms
proof (induction cs arbitrary: objs remap st)
  case (Cons c cs)
  obtain k ms where c: "c = (k, ms)" by (cases c)
  obtain o1 r1 s1 where m: "merge_cluster deg ms (objs, remap, st) = (o1, r1, s1)" by (metis prod_cases3)
  with Cons.prems c have run: "run_clusters deg cs (o1, r1, s1) = (objs', remap', st')" by simp
  have "y \<in> set o1" using merge_cluster_objs [OF m]
    using Cons.prems(2,3) c replace_obj_other [of y objs] by (metis list.set_intros(1))
  from Cons.IH [OF run this] Cons.prems(3) show ?case by (metis list.set_intros(2))
qed simp

lemma run_clusters_knows:
  assumes "run_clusters deg cs (objs, remap, st) = (objs', remap', st')" "distinct (map fst cs)"
    and "\<And>k ms x. (k, ms) \<in> set cs \<Longrightarrow> x \<in> set ms \<Longrightarrow> x \<in> set os0 \<and> f (o_id x) = k"
    and "list_all2 same_but_aliases os0 objs" "distinct (map o_id os0)"
    and "(k, ms) \<in> set cs" "m \<in> set (absorbed deg ms)"
  shows "\<exists>y \<in> set objs'. o_id y = o_id (canonical_of deg ms) \<and> (\<forall>nm \<in> set (o_name m # alias_items (o_aliases m)). knows y nm)"
  using assms
proof (induction cs arbitrary: objs remap st)
  case (Cons c cs)
  obtain k1 ms1 where c: "c = (k1, ms1)" by (cases c)
  obtain o1 r1 s1 where m1: "merge_cluster deg ms1 (objs, remap, st) = (o1, r1, s1)" by (metis prod_cases3)
  with Cons.prems(1) c have run: "run_clusters deg cs (o1, r1, s1) = (objs', remap', st')" by simp
  have sub: "set ms1 \<subseteq> set os0" using Cons.prems(3) [of k1 ms1] c by auto
  have same1: "list_all2 same_but_aliases os0 o1"
    by (rule run_clusters_objs [of deg "[(k1, ms1)]" objs remap st o1 r1 s1]) (use m1 sub Cons.prems(4,5) in auto)
  show ?case
  proof (cases "(k, ms) = c")
    case False
    then have "(k, ms) \<in> set cs" using Cons.prems(6) by auto
    from Cons.IH [OF run _ _ same1 Cons.prems(5) this Cons.prems(7)] Cons.prems(2,3) show ?thesis
      by (metis distinct.simps(2) list.set_intros(2) list.simps(9))
  next
    case True
    with c have e: "k1 = k" "ms1 = ms" by simp_all
    have ne: "ms \<noteq> []" using Cons.prems(7) by (auto simp: absorbed_def)
    have cin: "canonical_of deg ms \<in> set os0" using canonical_in [OF ne] sub e by blast
    then obtain b where b: "b \<in> set objs" "same_but_aliases (canonical_of deg ms) b"
      using Cons.prems(4) by (metis list_all2_conv_all_nth in_set_conv_nth)
    note bf = same_but_aliases_fields(1,3) [OF b(2), symmetric]
    obtain y where y: "y \<in> set o1" "o_id y = o_id (canonical_of deg ms)"
      "\<forall>nm \<in> set (o_name m # alias_items (o_aliases m)). knows y nm"
      using merge_cluster_knows [OF m1 [unfolded e] Cons.prems(7) b(1) bf] by blast
    have "y \<in> set objs'"
    proof (rule run_clusters_keeps [OF run y(1)])
      fix k2 ms2 assume k2: "(k2, ms2) \<in> set cs" "ms2 \<noteq> []"
      then have "f (o_id (canonical_of deg ms2)) = k2"
        using Cons.prems(3) [of k2 ms2 "canonical_of deg ms2"] canonical_in [of ms2] by simp
      moreover have "f (o_id y) = k"
        using Cons.prems(3) [of k ms "canonical_of deg ms"] canonical_in [OF ne] y(2) Cons.prems(6) by simp
      moreover have "k2 \<noteq> k" using Cons.prems(2) k2(1) c e by (auto simp: rev_image_eqI)
      ultimately show "o_id (canonical_of deg ms2) \<noteq> o_id y" by auto
    qed
    with y show ?thesis by blast
  qed
qed simp

section \<open>The whole merge\<close>

text \<open>
  What a merge from \<open>objs\<close> to \<open>out\<close> along \<open>remap\<close> promises. An absorbed object goes to a node of
  its type that is itself kept, both are known by some name that is not an IoC, and the node
  knows every name the object had. Only absorbed objects leave. The edges are the images of the
  edges, without self-loops, each triple once; when nothing is merged they are as they were.
\<close>

definition alias_merge_spec :: "stix_obj list \<Rightarrow> stix_obj list \<Rightarrow> (string, string) dict \<Rightarrow> bool" where
  "alias_merge_spec objs out remap \<longleftrightarrow>
    (\<forall>i c. map_of remap i = Some c \<longrightarrow> i \<noteq> c \<and> map_of remap c = None \<and>
      (\<exists>x \<in> set objs. \<exists>y \<in> set objs. o_id x = i \<and> o_id y = c \<and> is_aliasable x \<and> is_aliasable y \<and> mergeable x y \<and>
        (\<exists>z \<in> set out. o_id z = c \<and> (\<forall>nm \<in> set (o_name x # alias_items (o_aliases x)). knows z nm)))) \<and>
    map o_id (filter (\<lambda>x. \<not> is_rel x) out) =
      filter (\<lambda>i. map_of remap i = None) (map o_id (filter (\<lambda>x. \<not> is_rel x) objs)) \<and>
    (if remap = [] then map (\<lambda>r. (o_id r, rel_triple r)) (filter is_rel out) = map (\<lambda>r. (o_id r, rel_triple r)) (filter is_rel objs)
     else distinct (map rel_triple (filter is_rel out)) \<and> rel_triple ` set (filter is_rel out) = rewired remap objs)"

definition obj_sig :: "stix_obj \<Rightarrow> string \<times> bool \<times> triple" where
  "obj_sig x = (o_id x, is_rel x, rel_triple x)"

lemma same_sig: "list_all2 same_but_aliases xs ys \<Longrightarrow> map obj_sig xs = map obj_sig ys"
  by (induction xs ys rule: list_all2_induct) (simp_all add: obj_sig_def same_but_aliases_fields)

lemma map_filter_sig:
  assumes "map obj_sig xs = map obj_sig ys" "\<And>x. P x = Q (obj_sig x)" "\<And>x. f x = g (obj_sig x)"
  shows "map f (filter P xs) = map f (filter P ys)"
proof -
  have "map f (filter P zs) = map g (filter Q (map obj_sig zs))" for zs :: "stix_obj list"
    by (induction zs) (simp_all add: assms(2,3))
  with assms(1) show ?thesis by simp
qed

lemma rewired_image: "rewired remap xs =
    (\<lambda>(s, v, t). (remap_id remap s, v, remap_id remap t)) ` rel_triple ` set (filter is_rel xs) \<inter> {t. fst t \<noteq> snd (snd t)}"
  by (force simp: rewired_def remap_triple_def rel_triple_def)

lemma rewired_sig:
  assumes "map rel_triple (filter is_rel xs) = map rel_triple (filter is_rel ys)"
  shows "rewired remap xs = rewired remap ys"
  using arg_cong [OF assms, of set] by (simp add: rewired_image)

lemma not_rel_aliasable: "is_aliasable x \<Longrightarrow> \<not> is_rel x"
  by (auto simp: is_aliasable_def is_rel_def ALIASABLE_TYPES_def)

lemma closure_mergeable:
  assumes "(i, j) \<in> (set pairs \<union> (set pairs)\<inverse>)\<^sup>*" "i \<noteq> j"
    and "\<And>p. p \<in> set pairs \<Longrightarrow> pair_ok sdos p" "distinct (map o_id sdos)"
  shows "\<exists>x \<in> set sdos. \<exists>y \<in> set sdos. o_id x = i \<and> o_id y = j \<and> mergeable x y"
  using assms(1,2)
proof (induction rule: rtrancl_induct)
  case (step j k)
  have "pair_ok sdos (j, k) \<or> pair_ok sdos (k, j)" using step.hyps(2) assms(3) by auto
  then obtain u v where u: "u \<in> set sdos" "v \<in> set sdos" "o_id u = j" "o_id v = k" "mergeable u v"
    by (auto simp: pair_ok_def mergeable_def)
  show ?case
  proof (cases "i = j")
    case True
    with u show ?thesis by blast
  next
    case False
    with step.IH obtain x y where x: "x \<in> set sdos" "y \<in> set sdos" "o_id x = i" "o_id y = j" "mergeable x y" by blast
    then have "y = u" using assms(4) u by (metis distinct_map inj_onD)
    with x u show ?thesis by (metis mergeable_def)
  qed
qed simp

text \<open>The steps of a run, with the remap it builds.\<close>

lemma merge_run:
  assumes d: "distinct (map o_id objs)" and sd: "sdos = filter is_aliasable objs"
    and ps: "\<And>p. p \<in> set pairs \<Longrightarrow> pair_ok sdos p"
    and cs: "alias_clusters sdos pairs = Some cs"
    and run: "run_clusters deg cs (objs, [], st) = (objs', remap, st')"
  shows "map obj_sig objs' = map obj_sig objs \<and> merged_ids st' = merged_ids st \<and>
    (\<forall>i c. map_of remap i = Some c \<longrightarrow> i \<noteq> c \<and> map_of remap c = None \<and>
      (\<exists>x \<in> set objs. \<exists>y \<in> set objs. o_id x = i \<and> o_id y = c \<and> is_aliasable x \<and> is_aliasable y \<and> mergeable x y \<and>
        (\<exists>z \<in> set objs'. o_id z = c \<and> (\<forall>nm \<in> set (o_name x # alias_items (o_aliases x)). knows z nm))))"
proof -
  obtain f where c: "cs = group_by (f \<circ> o_id) sdos"
    and cl: "\<And>x y. x \<in> set sdos \<Longrightarrow> y \<in> set sdos \<Longrightarrow> f (o_id x) = f (o_id y) \<longleftrightarrow>
      (o_id x, o_id y) \<in> (set pairs \<union> (set pairs)\<inverse>)\<^sup>*"
  proof -
    obtain f where f: "alias_clusters sdos pairs = Some (group_by (f \<circ> o_id) sdos)"
      "\<forall>x \<in> set sdos. \<forall>y \<in> set sdos. f (o_id x) = f (o_id y) \<longleftrightarrow>
        (o_id x, o_id y) \<in> (set pairs \<union> (set pairs)\<inverse>)\<^sup>*"
      using alias_clusters_closure [of pairs sdos, OF ps] by blast
    show ?thesis by (rule that [of f]) (use f cs in \<open>simp, blast\<close>)
  qed
  have ds: "distinct (map o_id sdos)" unfolding sd using d by (simp add: distinct_map inj_on_def)
  have members: "x \<in> set sdos \<and> f (o_id x) = k" if "(k, ms) \<in> set cs" "x \<in> set ms" for k ms x
    using that unfolding c group_by_entry by auto
  have inobjs: "x \<in> set objs \<and> f (o_id x) = k" if "(k, ms) \<in> set cs" "x \<in> set ms" for k ms x
    using members [OF that] unfolding sd by simp
  have all: "list_all2 same_but_aliases objs objs"
    by (simp add: list_all2_conv_all_nth)
  have objs': "list_all2 same_but_aliases objs objs'"
    by (rule run_clusters_objs [OF run all d]) (use inobjs in blast)
  note R = run_clusters_remap [OF run]
  have keys: "map_of remap i = Some c \<Longrightarrow> \<exists>k ms. (k, ms) \<in> set cs \<and> i \<in> o_id ` set (absorbed deg ms) \<and>
      c = o_id (canonical_of deg ms)" for i c
    using R by fastforce
  have canon: "(\<exists>k ms. (k, ms) \<in> set cs \<and> canonical_of deg ms \<in> set ms \<and> c = o_id (canonical_of deg ms)) \<Longrightarrow>
      map_of remap c = None" for c
  proof (elim exE conjE)
    fix k ms assume k: "(k, ms) \<in> set cs" "canonical_of deg ms \<in> set ms" "c = o_id (canonical_of deg ms)"
    show "map_of remap c = None"
    proof (rule ccontr)
      assume "map_of remap c \<noteq> None"
      then obtain c2 where "map_of remap c = Some c2" by auto
      from keys [OF this] obtain k2 ms2 m where k2: "(k2, ms2) \<in> set cs" "m \<in> set (absorbed deg ms2)" "o_id m = c"
        by auto
      then have m: "m \<in> set ms2" "c \<noteq> o_id (canonical_of deg ms2)" by (auto simp: absorbed_def)
      have "k = k2" using members [OF k(1,2)] members [OF k2(1) m(1)] k2(3) k(3) by simp
      then have "ms = ms2" using k(1) k2(1) unfolding c group_by_entry by simp
      with m(2) k(3) show False by simp
    qed
  qed
  have each: "i \<noteq> c \<and> map_of remap c = None \<and>
      (\<exists>x \<in> set objs. \<exists>y \<in> set objs. o_id x = i \<and> o_id y = c \<and> is_aliasable x \<and> is_aliasable y \<and> mergeable x y \<and>
        (\<exists>z \<in> set objs'. o_id z = c \<and> (\<forall>nm \<in> set (o_name x # alias_items (o_aliases x)). knows z nm)))"
    if mc: "map_of remap i = Some c" for i c
  proof -
    obtain k ms m where k: "(k, ms) \<in> set cs" "m \<in> set (absorbed deg ms)" "o_id m = i" "c = o_id (canonical_of deg ms)"
      using keys [OF mc] by auto
    then have m: "m \<in> set ms" "i \<noteq> c" by (auto simp: absorbed_def)
    then have cin: "canonical_of deg ms \<in> set ms" by (intro canonical_in) auto
    note mm = members [OF k(1) m(1)] members [OF k(1) cin]
    then have "f (o_id m) = f (o_id (canonical_of deg ms))" by simp
    then have "(i, c) \<in> (set pairs \<union> (set pairs)\<inverse>)\<^sup>*" using cl [of m "canonical_of deg ms"] mm k(3,4) by simp
    from closure_mergeable [OF this m(2) ps ds] obtain x y where
      x: "x \<in> set sdos" "y \<in> set sdos" "o_id x = i" "o_id y = c" "mergeable x y" by blast
    have "x = m" using x(1,3) k(3) mm ds by (metis distinct_map inj_onD)
    have dist: "distinct (map fst cs)" unfolding c by simp
    have "\<exists>y \<in> set objs'. o_id y = o_id (canonical_of deg ms) \<and>
        (\<forall>nm \<in> set (o_name m # alias_items (o_aliases m)). knows y nm)"
    proof (rule run_clusters_knows [OF run dist _ all d k(1,2)])
      show "u \<in> set objs \<and> f (o_id u) = l" if "(l, ns) \<in> set cs" "u \<in> set ns" for l ns u
        using inobjs [OF that] .
    qed
    then obtain z where
      "z \<in> set objs'" "o_id z = c" "\<forall>nm \<in> set (o_name m # alias_items (o_aliases m)). knows z nm"
      using k(4) by blast
    with x \<open>x = m\<close> m(2) canon [of c] k(1,4) cin show ?thesis unfolding sd by auto
  qed
  show ?thesis using same_sig [OF objs'] R each by auto
qed

lemma alias_spec_unmerged:
  assumes "map obj_sig objs' = map obj_sig objs"
  shows "alias_merge_spec objs objs' []"
proof -
  have "map o_id (filter (\<lambda>x. \<not> is_rel x) objs') = map o_id (filter (\<lambda>x. \<not> is_rel x) objs)"
    by (rule map_filter_sig [OF assms, of _ "\<lambda>(_, r, _). \<not> r" o_id fst]) (simp_all add: obj_sig_def)
  moreover have "map (\<lambda>r. (o_id r, rel_triple r)) (filter is_rel objs') = map (\<lambda>r. (o_id r, rel_triple r)) (filter is_rel objs)"
    by (rule map_filter_sig [OF assms, of _ "\<lambda>(_, r, _). r" _ "\<lambda>(i, _, t). (i, t)"]) (simp_all add: obj_sig_def)
  ultimately show ?thesis unfolding alias_merge_spec_def by simp
qed

lemma alias_spec_merged:
  assumes sig: "map obj_sig objs' = map obj_sig objs" and d: "distinct (map o_id objs)" and ne: "remap \<noteq> []"
    and each: "\<forall>i c. map_of remap i = Some c \<longrightarrow> i \<noteq> c \<and> map_of remap c = None \<and>
      (\<exists>x \<in> set objs. \<exists>y \<in> set objs. o_id x = i \<and> o_id y = c \<and> is_aliasable x \<and> is_aliasable y \<and> mergeable x y \<and>
        (\<exists>z \<in> set objs'. o_id z = c \<and> (\<forall>nm \<in> set (o_name x # alias_items (o_aliases x)). knows z nm)))"
    and rw: "rewrite_refs (drop_ids (fst ` set remap) objs') remap st mode = (st', Inr out)"
  shows "alias_merge_spec objs out remap"
proof -
  let ?kept = "drop_ids (fst ` set remap) objs'"
  have K: "i \<in> fst ` set remap \<longleftrightarrow> map_of remap i \<noteq> None" for i
    by (simp add: map_of_eq_None_iff)
  have empty: "indexed Map.empty []" by (simp add: indexed_def)
  obtain seen' where ix: "indexed seen' out" "dom seen' = rewired remap ?kept"
    and nr: "filter (\<lambda>x. \<not> is_rel x) out = filter (\<lambda>x. \<not> is_rel x) ?kept"
    using rewrite_loop_ok [OF rw [unfolded rewrite_refs_def] empty] by auto
  have norel: "is_rel x \<Longrightarrow> o_id x \<notin> fst ` set remap" if "x \<in> set objs'" for x
  proof
    assume r: "is_rel x" "o_id x \<in> fst ` set remap"
    then obtain c where "map_of remap (o_id x) = Some c" using K by auto
    with each obtain y where y: "y \<in> set objs" "o_id y = o_id x" "is_aliasable y" by blast
    from that sig obtain x0 where x0: "x0 \<in> set objs" "obj_sig x0 = obj_sig x"
      by (metis (no_types, lifting) in_set_conv_nth length_map nth_map)
    then have "x0 = y" using y d by (metis (no_types, lifting) distinct_map fst_conv inj_onD obj_sig_def)
    with x0 r not_rel_aliasable [OF y(3)] show False by (simp add: obj_sig_def)
  qed
  have rels: "filter is_rel ?kept = filter is_rel objs'"
    unfolding drop_ids_def filter_filter by (rule filter_cong) (use norel in auto)
  have "map rel_triple (filter is_rel objs') = map rel_triple (filter is_rel objs)"
    by (rule map_filter_sig [OF sig, of is_rel "\<lambda>(_, r, _). r" rel_triple "\<lambda>(_, _, t). t"]) (simp_all add: obj_sig_def)
  then have rwk: "rewired remap ?kept = rewired remap objs"
    by (intro rewired_sig) (simp add: rels)
  have "map o_id (filter (\<lambda>x. \<not> is_rel x) ?kept) = map o_id (filter (\<lambda>x. \<not> is_rel x \<and> map_of remap (o_id x) = None) objs')"
    unfolding drop_ids_def filter_filter using K by (intro arg_cong [of _ _ "map o_id"] filter_cong) auto
  also have "\<dots> = map o_id (filter (\<lambda>x. \<not> is_rel x \<and> map_of remap (o_id x) = None) objs)"
    by (rule map_filter_sig [OF sig, of _ "\<lambda>(i, r, _). \<not> r \<and> map_of remap i = None" o_id fst]) (simp_all add: obj_sig_def)
  also have "\<dots> = filter (\<lambda>i. map_of remap i = None) (map o_id (filter (\<lambda>x. \<not> is_rel x) objs))"
    by (simp add: filter_map o_def conj_commute)
  finally have ids: "map o_id (filter (\<lambda>x. \<not> is_rel x) out) = filter (\<lambda>i. map_of remap i = None) (map o_id (filter (\<lambda>x. \<not> is_rel x) objs))"
    unfolding nr .
  have stay: "z \<in> set out" if "z \<in> set objs'" "map_of remap (o_id z) = None" "\<not> is_rel z" for z
  proof -
    have "z \<in> set (filter (\<lambda>x. \<not> is_rel x) out)" unfolding nr drop_ids_def using that K by simp
    then show ?thesis by simp
  qed
  have knows: "\<exists>z \<in> set out. o_id z = c \<and> (\<forall>nm \<in> set (o_name x # alias_items (o_aliases x)). knows z nm)"
    if "map_of remap i = Some c" "x \<in> set objs" "o_id x = i" for i c x
  proof -
    from each that(1) obtain x' y z where x': "x' \<in> set objs" "y \<in> set objs" "o_id x' = i" "o_id y = c" "is_aliasable y"
        "map_of remap c = None" "z \<in> set objs'" "o_id z = c"
        "\<forall>nm \<in> set (o_name x' # alias_items (o_aliases x')). knows z nm" by blast
    have "x' = x" using x'(1,3) that(2,3) d by (metis distinct_map inj_onD)
    obtain z0 where z0: "z0 \<in> set objs" "obj_sig z0 = obj_sig z" using x'(7) sig
      by (metis (no_types, lifting) in_set_conv_nth length_map nth_map)
    then have "z0 = y" using x'(2,4,8) d by (metis (no_types, lifting) distinct_map fst_conv inj_onD obj_sig_def)
    then have "\<not> is_rel z" using z0 not_rel_aliasable [OF x'(5)] by (simp add: obj_sig_def)
    moreover have "map_of remap (o_id z) = None" using x'(6,8) by simp
    ultimately have "z \<in> set out" using stay [OF x'(7)] by simp
    with x'(8,9) show ?thesis unfolding \<open>x' = x\<close> by blast
  qed
  have "distinct (map rel_triple (filter is_rel out))" "rel_triple ` set (filter is_rel out) = rewired remap objs"
    using indexed_distinct [OF ix(1)] indexed_triples [OF ix(1)] unfolding ix(2) rwk by blast+
  then have edges: "if remap = [] then map (\<lambda>r. (o_id r, rel_triple r)) (filter is_rel out) = map (\<lambda>r. (o_id r, rel_triple r)) (filter is_rel objs)
     else distinct (map rel_triple (filter is_rel out)) \<and> rel_triple ` set (filter is_rel out) = rewired remap objs"
    using ne by (simp only: if_False simp_thms)
  show ?thesis unfolding alias_merge_spec_def
  proof (intro conjI [OF _ conjI [OF ids edges]] allI impI)
    fix i c assume mc: "map_of remap i = Some c"
    from each mc obtain x y where x: "i \<noteq> c" "map_of remap c = None" "x \<in> set objs" "y \<in> set objs" "o_id x = i" "o_id y = c"
      "is_aliasable x" "is_aliasable y" "mergeable x y" by blast
    show "i \<noteq> c \<and> map_of remap c = None \<and>
      (\<exists>x \<in> set objs. \<exists>y \<in> set objs. o_id x = i \<and> o_id y = c \<and> is_aliasable x \<and> is_aliasable y \<and> mergeable x y \<and>
        (\<exists>z \<in> set out. o_id z = c \<and> (\<forall>nm \<in> set (o_name x # alias_items (o_aliases x)). knows z nm)))"
      by (intro conjI bexI [OF _ x(3)] bexI [OF _ x(4)] x(1,2,5-9) knows [OF mc x(3,5)])
  qed
qed

lemma dset_fresh: "k \<notin> fst ` set d \<Longrightarrow> dset k v d = d @ [(k, v)]"
  by (induction d) auto

lemma dupdate_fresh: "distinct (map fst (d @ e)) \<Longrightarrow> dupdate d e = d @ e"
proof (induction e arbitrary: d)
  case (Cons p e)
  obtain k v where p: "p = (k, v)" by (cases p)
  with Cons.prems have "k \<notin> fst ` set d" by auto
  then have "dupdate d (p # e) = dupdate (d @ [(k, v)]) e" by (simp add: dupdate_def p dset_fresh)
  with Cons.IH [of "d @ [(k, v)]"] Cons.prems p show ?case by simp
qed (simp add: dupdate_def)

lemma dset_fold_distinct: "distinct (map fst d) \<Longrightarrow> distinct (map fst (fold (\<lambda>m. dset (f m) (g m)) ms d))"
  by (induction ms arbitrary: d) auto

lemma run_clusters_distinct:
  "run_clusters deg cs (objs, remap, st) = (objs', remap', st') \<Longrightarrow> distinct (map fst remap) \<Longrightarrow> distinct (map fst remap')"
proof (induction cs arbitrary: objs remap st)
  case (Cons c cs)
  obtain k ms where c: "c = (k, ms)" by (cases c)
  obtain o1 r1 s1 where m: "merge_cluster deg ms (objs, remap, st) = (o1, r1, s1)" by (metis prod_cases3)
  with Cons.prems c have run: "run_clusters deg cs (o1, r1, s1) = (objs', remap', st')" by simp
  have "distinct (map fst r1)" using merge_cluster_step [OF m] dset_fold_distinct [OF Cons.prems(2)] by simp
  from Cons.IH [OF run this] show ?case .
qed simp

lemma run_clusters_reports:
  "run_clusters deg cs (objs, remap, st) = (objs', remap', st') \<Longrightarrow>
   removed_relationships st' = removed_relationships st \<and> remapped_relationships st' = remapped_relationships st"
proof (induction cs arbitrary: objs remap st)
  case (Cons c cs)
  obtain k ms where c: "c = (k, ms)" by (cases c)
  obtain o1 r1 s1 where m: "merge_cluster deg ms (objs, remap, st) = (o1, r1, s1)" by (metis prod_cases3)
  with Cons.prems c have run: "run_clusters deg cs (o1, r1, s1) = (objs', remap', st')" by simp
  have "removed_relationships s1 = removed_relationships st \<and> remapped_relationships s1 = remapped_relationships st"
    using m by (auto simp: merge_cluster_def Let_def split: if_splits)
  with Cons.IH [OF run] show ?case by simp
qed simp

text \<open>What a merge is: the clusters applied to the bundle, then the rewiring unless nothing was absorbed.\<close>

lemma merge_aliases_run:
  assumes d: "distinct (map o_id objs)"
  shows "\<exists>objs' remap st1. map obj_sig objs' = map obj_sig objs \<and>
    (\<forall>i c. map_of remap i = Some c \<longrightarrow> i \<noteq> c \<and> map_of remap c = None \<and>
      (\<exists>x \<in> set objs. \<exists>y \<in> set objs. o_id x = i \<and> o_id y = c \<and> is_aliasable x \<and> is_aliasable y \<and> mergeable x y \<and>
        (\<exists>z \<in> set objs'. o_id z = c \<and> (\<forall>nm \<in> set (o_name x # alias_items (o_aliases x)). knows z nm)))) \<and>
    distinct (map fst remap) \<and>
    merged_ids st1 = [] \<and> removed_relationships st1 = [] \<and> remapped_relationships st1 = [] \<and>
    merge_aliases fuzz embedder cfg objs new_stats =
      (if remap = [] then Some (objs', st1, None)
       else case rewrite_refs (drop_ids (fst ` set remap) objs') remap (st1\<lparr>merged_ids := remap\<rparr>) (c_temporal_mode cfg) of
         (st, Inr out) \<Rightarrow> Some (out, st, None)
       | (st, Inl e) \<Rightarrow> Some (drop_ids (fst ` set remap) objs', st, Some e))"
proof (cases "length (filter is_aliasable objs) < 2")
  case True
  then show ?thesis
    by (intro exI [of _ objs] exI [of _ "[]"] exI [of _ new_stats]) (simp add: merge_aliases_def new_stats_def)
next
  case False
  define sdos where "sdos = filter is_aliasable objs"
  obtain pairs ns where pn: "alias_pairs fuzz embedder cfg sdos = (pairs, ns)" by (cases "alias_pairs fuzz embedder cfg sdos")
  have ps: "p \<in> set pairs \<Longrightarrow> pair_ok sdos p" for p using alias_pairs_ok [of p fuzz embedder cfg sdos] pn by simp
  obtain cs where cs: "alias_clusters sdos pairs = Some cs" using alias_clusters_closure [of pairs sdos, OF ps] by blast
  let ?st = "new_stats\<lparr>st_notes := st_notes new_stats @ ns\<rparr>"
  obtain objs' remap st1 where run: "run_clusters (degree objs) cs (objs, [], ?st) = (objs', remap, st1)" by (metis prod_cases3)
  note M = merge_run [OF d sdos_def ps cs run]
  have m0: "merged_ids st1 = []" using M by (simp add: new_stats_def)
  have md: "distinct (map fst remap)" by (rule run_clusters_distinct [OF run]) simp
  then have du: "dupdate (merged_ids st1) remap = remap" unfolding m0 by (simp add: dupdate_fresh)
  have st: "st_notes new_stats @ ns = ns" by (simp add: new_stats_def)
  have "merge_aliases fuzz embedder cfg objs new_stats =
      (if remap = [] then Some (objs', st1, None)
       else case rewrite_refs (drop_ids (fst ` set remap) objs') remap (st1\<lparr>merged_ids := remap\<rparr>) (c_temporal_mode cfg) of
         (st, Inr out) \<Rightarrow> Some (out, st, None)
       | (st, Inl e) \<Rightarrow> Some (drop_ids (fst ` set remap) objs', st, Some e))"
    unfolding merge_aliases_def Let_def sdos_def [symmetric]
    using False by (simp add: pn cs run du sdos_def [symmetric])
  with M md m0 run_clusters_reports [OF run] show ?thesis
    by (intro exI [of _ objs'] exI [of _ remap] exI [of _ st1]) (simp add: new_stats_def)
qed


definition bare_obj :: "string \<Rightarrow> string \<Rightarrow> string \<Rightarrow> stix_obj" where
  "bare_obj i t nm = \<lparr>o_id = i, o_type = t, o_name = nm, o_aliases = AliasList [], o_external = [],
     o_source_ref = [], o_rel_type = [], o_target_ref = [], o_confidence = None, o_evidence_label = None,
     o_inference_rule = None, o_inferred_from = [], o_evidence_text = None, o_start_time = None,
     o_stop_time = None, o_times = []\<rparr>"

definition bare_rel :: "string \<Rightarrow> string \<Rightarrow> string \<Rightarrow> string \<Rightarrow> stix_obj" where
  "bare_rel i s v t = (bare_obj i ''relationship'' [])\<lparr>o_source_ref := s, o_rel_type := v, o_target_ref := t,
     o_confidence := Some 80\<rparr>"

definition example_bundle :: "stix_obj list" where
  "example_bundle = [bare_obj ''i1'' ''intrusion-set'' ''Fancy Bear'', bare_obj ''m1'' ''malware'' ''X-Agent'',
     (bare_obj ''m2'' ''malware'' ''Chopstick'')\<lparr>o_aliases := AliasList [''xagent'']\<rparr>,
     bare_rel ''r1'' ''i1'' ''uses'' ''m1'', bare_rel ''r2'' ''i1'' ''uses'' ''m2'', bare_rel ''r3'' ''m2'' ''variant-of'' ''m1'']"


end
