(* ===== verification/CompletionSound.thy ===== *)
theory CompletionSound
  imports Completion AliasSound
begin

text \<open>
  What graph completion may and may not do: it returns, it only appends, every edge it appends
  joins two objects of the bundle by a suggested verb, is labelled, new and not forbidden in
  either direction, the budget holds; a composed edge rests on two edges of the bundle, and no
  composition is missed while the budget lasts.
\<close>

section \<open>One edge\<close>

lemmas refuse_simps = refuse_def Let_def

lemma refuse_cases:
  "refuse key rule ps fb st = (b, st') \<Longrightarrow> b = (fb key \<noteq> None) \<and> total_added st' = total_added st \<and> capped st' = capped st \<and>
     skipped_not_suggested st' = skipped_not_suggested st \<and> (fb key = None \<longrightarrow> st' = st)"
  by (auto simp: refuse_def total_added_def split: option.splits if_splits)

lemma admit_Add:
  assumes "admit idx cfg fb existing a verb b rule ps st = (Add v, st')"
  shows "st' = st \<and> v = apply_pin verb (o_type a) (o_type b) idx \<and> rel_is_suggested (o_type a) v (o_type b) \<and>
    (o_id a, v, o_id b) \<notin> existing \<and> fb (o_id a, v, o_id b) = None \<and> int (total_added st) < c_max_new_edges cfg"
  using assms refuse_cases [of "(o_id a, apply_pin verb (o_type a) (o_type b) idx, o_id b)" rule ps fb st]
  by (auto simp: admit_def Let_def split: if_splits prod.splits)

lemma admit_Skip:
  assumes "admit idx cfg fb existing a verb b rule ps st = (Skip, st')"
  shows "total_added st' = total_added st \<and> capped st' = capped st \<and>
    (let v = apply_pin verb (o_type a) (o_type b) idx in
      \<not> rel_is_suggested (o_type a) v (o_type b) \<or> (o_id a, v, o_id b) \<in> existing \<or> fb (o_id a, v, o_id b) \<noteq> None)"
  using assms refuse_cases [of "(o_id a, apply_pin verb (o_type a) (o_type b) idx, o_id b)" rule ps fb st]
  by (auto simp: admit_def Let_def total_added_def split: if_splits prod.splits)

lemma admit_Stop:
  assumes "admit idx cfg fb existing a verb b rule ps st = (Stop, st')"
  shows "total_added st' = total_added st \<and> capped st'"
  using assms refuse_cases [of "(o_id a, apply_pin verb (o_type a) (o_type b) idx, o_id b)" rule ps fb st]
  by (auto simp: admit_def Let_def total_added_def split: if_splits prod.splits)

text \<open>An edge a completion engine may add to a bundle with objects \<open>base\<close>.\<close>

definition warranted :: "stix_obj list \<Rightarrow> (triple \<rightharpoonup> string) \<Rightarrow> stix_obj \<Rightarrow> bool" where
  "warranted base fb r \<longleftrightarrow> is_rel r \<and> fb (rel_triple r) = None \<and>
    (\<exists>a \<in> set base. \<exists>b \<in> set base. \<not> is_rel a \<and> \<not> is_rel b \<and> o_id a \<noteq> o_id b \<and>
      o_source_ref r = o_id a \<and> o_target_ref r = o_id b \<and> rel_is_suggested (o_type a) (o_rel_type r) (o_type b)) \<and>
    o_evidence_label r \<in> {Some ''inferred'', Some EXTERNAL_REFERENCE} \<and> o_inference_rule r \<noteq> None \<and>
    (\<exists>c. o_confidence r = Some c \<and> 0 \<le> c \<and> c \<le> 100)"

lemma make_inferred_rel_fields [simp]:
  "is_rel (make_inferred_rel i a v b c rule ps txt lab)"
  "rel_triple (make_inferred_rel i a v b c rule ps txt lab) = (o_id a, v, o_id b)"
  "o_inferred_from (make_inferred_rel i a v b c rule ps txt lab) = ps"
  "o_confidence (make_inferred_rel i a v b c rule ps txt lab) = Some (clamp_confidence c)"
  "o_inference_rule (make_inferred_rel i a v b c rule ps txt lab) = Some rule"
  by (simp_all add: make_inferred_rel_def is_rel_def rel_triple_def)

lemma make_warranted:
  assumes "a \<in> set base" "b \<in> set base" "\<not> is_rel a" "\<not> is_rel b" "o_id a \<noteq> o_id b"
    "rel_is_suggested (o_type a) v (o_type b)" "fb (o_id a, v, o_id b) = None" "lab \<in> {''inferred'', EXTERNAL_REFERENCE}"
  shows "warranted base fb (make_inferred_rel i a v b c rule ps txt lab)"
proof -
  let ?r = "make_inferred_rel i a v b c rule ps txt lab"
  have f: "o_source_ref ?r = o_id a" "o_target_ref ?r = o_id b" "o_rel_type ?r = v" "o_evidence_label ?r = Some lab"
    by (simp_all add: make_inferred_rel_def)
  have c: "0 \<le> clamp_confidence c" "clamp_confidence c \<le> 100" by (simp_all add: clamp_confidence_def)
  show ?thesis unfolding warranted_def f make_inferred_rel_fields
    by (intro conjI bexI [OF _ assms(1)] bexI [OF _ assms(2)] exI) (use assms c in simp_all)
qed

text \<open>The edges an engine appends to \<open>objs\<close>, with the counters around it.\<close>

definition added_ok :: "stix_obj list \<Rightarrow> (triple \<rightharpoonup> string) \<Rightarrow> config \<Rightarrow> triple set \<Rightarrow> stats \<Rightarrow> stix_obj list \<Rightarrow> stats \<Rightarrow> bool" where
  "added_ok base fb cfg existing st new st' \<longleftrightarrow>
    (\<forall>r \<in> set new. warranted base fb r) \<and> distinct (map rel_triple new) \<and> rel_triple ` set new \<inter> existing = {} \<and>
    total_added st' = total_added st + length new \<and> (new \<noteq> [] \<longrightarrow> int (total_added st') \<le> c_max_new_edges cfg)"

lemma added_ok_Nil: "total_added st' = total_added st \<Longrightarrow> added_ok base fb cfg existing st [] st'"
  by (simp add: added_ok_def)

lemma added_ok_step: "total_added st1 = total_added st \<Longrightarrow> added_ok base fb cfg existing st1 new st' \<Longrightarrow> added_ok base fb cfg existing st new st'"
  unfolding added_ok_def by (elim conjE, intro conjI) simp_all

lemma added_ok_Cons:
  assumes "warranted base fb r" "rel_triple r \<notin> existing" "total_added st1 = total_added st + 1"
    "int (total_added st) < c_max_new_edges cfg" "added_ok base fb cfg (insert (rel_triple r) existing) st1 new st'"
  shows "added_ok base fb cfg existing st (r # new) st'"
  using assms by (cases "new = []") (auto simp: added_ok_def)

lemma added_ok_trans:
  assumes "added_ok base fb cfg existing st new st1" "added_ok base fb cfg (existing \<union> rel_triple ` set new) st1 new2 st2"
  shows "added_ok base fb cfg existing st (new @ new2) st2"
  using assms by (cases "new2 = []") (auto simp: added_ok_def)

section \<open>The engines\<close>

definition endpoints_ok :: "stix_obj list \<Rightarrow> stix_obj \<Rightarrow> stix_obj \<Rightarrow> bool" where
  "endpoints_ok base a b \<longleftrightarrow> a \<in> set base \<and> b \<in> set base \<and> \<not> is_rel a \<and> \<not> is_rel b \<and> o_id a \<noteq> o_id b"

lemma admit_make:
  assumes "admit idx cfg fb existing a verb b rule ps st = (Add v, st1)" "endpoints_ok base a b"
    "lab \<in> {''inferred'', EXTERNAL_REFERENCE}"
  shows "warranted base fb (make_inferred_rel i a v b c rule2 ps2 txt lab)"
  using admit_Add [OF assms(1)] assms(2,3) by (intro make_warranted) (auto simp: endpoints_ok_def)

lemma reference_loop_ok:
  assumes "reference_loop gen idx cfg fb cs existing objs st = (objs', st')"
    and "\<forall>c \<in> set cs. endpoints_ok base (fst c) (fst (snd (snd c)))"
  shows "\<exists>new. objs' = objs @ new \<and> added_ok base fb cfg existing st new st'"
  using assms
proof (induction gen idx cfg fb cs existing objs st rule: reference_loop.induct)
  case (1 gen idx cfg fb existing objs st)
  then show ?case by (auto intro: added_ok_Nil)
next
  case (2 gen idx cfg fb a verb b rule cs existing objs st)
  have ends: "endpoints_ok base a b" using 2(4) by simp
  have rest: "\<forall>c \<in> set cs. endpoints_ok base (fst c) (fst (snd (snd c)))" using 2(4) by simp
  obtain d st1 where d: "admit idx cfg fb existing a verb b rule [] st = (d, st1)" by fastforce
  show ?case
  proof (cases d)
    case Skip
    with 2(3) d have run: "reference_loop gen idx cfg fb cs existing objs st1 = (objs', st')" by simp
    have same: "total_added st1 = total_added st" using admit_Skip [OF d [unfolded Skip]] by simp
    obtain new where "objs' = objs @ new" "added_ok base fb cfg existing st1 new st'"
      using 2(1) [OF d [symmetric] Skip run rest] by blast
    with added_ok_step [OF same] show ?thesis by blast
  next
    case Stop
    with 2(3) d show ?thesis using admit_Stop [OF d [unfolded Stop]] by (auto intro: added_ok_Nil)
  next
    case (Add v)
    let ?r = "make_inferred_rel (gen (total_added st1)) a v b 85 rule [] [] EXTERNAL_REFERENCE"
    let ?st = "st1\<lparr>reference_added := reference_added st1 + 1\<rparr>"
    from 2(3) d Add have run: "reference_loop gen idx cfg fb cs (insert (o_id a, v, o_id b) existing) (objs @ [?r]) ?st = (objs', st')"
      by simp
    obtain new where new: "objs' = (objs @ [?r]) @ new" "added_ok base fb cfg (insert (o_id a, v, o_id b) existing) ?st new st'"
      using 2(2) [OF d [symmetric] Add run rest] by blast
    have A: "st1 = st" "(o_id a, v, o_id b) \<notin> existing" "int (total_added st) < c_max_new_edges cfg"
      using admit_Add [OF d [unfolded Add]] by blast+
    have "added_ok base fb cfg existing st (?r # new) st'"
      by (rule added_ok_Cons [OF admit_make [OF d [unfolded Add] ends]])
        (use A new(2) in \<open>simp_all add: total_added_def\<close>)
    with new(1) show ?thesis by (intro exI [of _ "?r # new"]) simp
  qed
qed

lemma transitive_loop_ok:
  assumes "transitive_loop gen idx cfg fb cs existing objs st = (objs', st')"
    and "\<forall>c \<in> set cs. endpoints_ok base (fst c) (fst (snd (snd c)))"
  shows "\<exists>new. objs' = objs @ new \<and> added_ok base fb cfg existing st new st'"
  using assms
proof (induction gen idx cfg fb cs existing objs st rule: transitive_loop.induct)
  case (1 gen idx cfg fb existing objs st)
  then show ?case by (auto intro: added_ok_Nil)
next
  case (2 gen idx cfg fb a verb c r_ab r_bc cs existing objs st)
  let ?rule = "''transitive:'' @ o_rel_type r_ab @ ''+'' @ o_rel_type r_bc" let ?ps = "[o_id r_ab, o_id r_bc]"
  have ends: "endpoints_ok base a c" using 2(4) by simp
  have rest: "\<forall>c \<in> set cs. endpoints_ok base (fst c) (fst (snd (snd c)))" using 2(4) by simp
  obtain d st1 where d: "admit idx cfg fb existing a verb c ?rule ?ps st = (d, st1)" by fastforce
  show ?case
  proof (cases d)
    case Skip
    with 2(3) d have run: "transitive_loop gen idx cfg fb cs existing objs st1 = (objs', st')" by simp
    have same: "total_added st1 = total_added st" using admit_Skip [OF d [unfolded Skip]] by simp
    obtain new where "objs' = objs @ new" "added_ok base fb cfg existing st1 new st'"
      using 2(1) [OF refl refl d [symmetric] Skip run rest] by blast
    with added_ok_step [OF same] show ?thesis by blast
  next
    case Stop
    with 2(3) d show ?thesis using admit_Stop [OF d [unfolded Stop]] by (auto intro: added_ok_Nil)
  next
    case (Add v)
    let ?r = "make_inferred_rel (gen (total_added st1)) a v c
              (min (premise_confidence r_ab) (premise_confidence r_bc) * 9 div 10) ?rule ?ps [] ''inferred''"
    let ?st = "st1\<lparr>transitive_added := transitive_added st1 + 1\<rparr>"
    from 2(3) d Add have run: "transitive_loop gen idx cfg fb cs (insert (o_id a, v, o_id c) existing) (objs @ [?r]) ?st = (objs', st')"
      by simp
    obtain new where new: "objs' = (objs @ [?r]) @ new" "added_ok base fb cfg (insert (o_id a, v, o_id c) existing) ?st new st'"
      using 2(2) [OF refl refl d [symmetric] Add run rest] by blast
    have A: "st1 = st" "(o_id a, v, o_id c) \<notin> existing" "int (total_added st) < c_max_new_edges cfg"
      using admit_Add [OF d [unfolded Add]] by blast+
    have "added_ok base fb cfg existing st (?r # new) st'"
      by (rule added_ok_Cons [OF admit_make [OF d [unfolded Add] ends]])
        (use A new(2) in \<open>simp_all add: total_added_def\<close>)
    with new(1) show ?thesis by (intro exI [of _ "?r # new"]) simp
  qed
qed

lemma first_some_in: "first_some f xs = Some y \<Longrightarrow> \<exists>x \<in> set xs. f x = Some y"
  by (induction xs) (auto split: option.splits)

lemma reference_candidates_ok:
  "\<forall>c \<in> set (reference_candidates pairs (resolved ix objs)). endpoints_ok objs (fst c) (fst (snd (snd c)))"
  by (auto simp: reference_candidates_def resolved_def endpoints_ok_def split: option.splits if_splits)

lemma by_id_in: "by_id xs i = Some x \<Longrightarrow> x \<in> set xs \<and> o_id x = i"
  unfolding by_id_def by (drule map_of_SomeD) auto

lemma transitive_candidate:
  assumes "(a, v, c, r1, r2) \<in> set (transitive_candidates objs)"
  shows "by_id (filter (\<lambda>x. \<not> is_rel x) objs) (o_source_ref r1) = Some a \<and>
    by_id (filter (\<lambda>x. \<not> is_rel x) objs) (o_target_ref r2) = Some c \<and>
    r1 \<in> set objs \<and> r2 \<in> set objs \<and> is_rel r1 \<and> is_rel r2 \<and> o_target_ref r1 = o_source_ref r2 \<and>
    o_source_ref r1 \<noteq> o_target_ref r2 \<and> TRANSITIVE_RULES (o_rel_type r1, o_rel_type r2) = Some v"
proof -
  let ?ids = "by_id (filter (\<lambda>x. \<not> is_rel x) objs)" let ?out = "out_edges (filter is_rel objs)"
  from assms obtain a_id ab where o: "(a_id, ab) \<in> set ?out" "?ids a_id = Some a" "r1 \<in> set ab"
    "r2 \<in> set (dget ?out (o_target_ref r1) [])" "o_target_ref r2 \<noteq> a_id"
    "TRANSITIVE_RULES (o_rel_type r1, o_rel_type r2) = Some v" "?ids (o_target_ref r2) = Some c"
    by (auto simp: transitive_candidates_def compose_def Let_def split: option.splits if_splits)
  then have "a_id = o_source_ref r1" "r1 \<in> set (filter is_rel objs)" "r2 \<in> set (filter is_rel objs)" "o_source_ref r2 = o_target_ref r1"
    by (auto simp: out_edges_def group_by_entry dget_group_by)
  with o show ?thesis by auto
qed

lemma in_concat_map: "x \<in> set xs \<Longrightarrow> y \<in> set (f x) \<Longrightarrow> y \<in> set (concat (map f xs))"
  by auto

lemma transitive_candidate_exists:
  assumes "by_id (filter (\<lambda>x. \<not> is_rel x) objs) (o_source_ref r1) = Some a"
    "by_id (filter (\<lambda>x. \<not> is_rel x) objs) (o_target_ref r2) = Some c"
    "r1 \<in> set objs" "r2 \<in> set objs" "is_rel r1" "is_rel r2" "o_target_ref r1 = o_source_ref r2"
    "o_source_ref r1 \<noteq> o_target_ref r2" "TRANSITIVE_RULES (o_rel_type r1, o_rel_type r2) = Some v"
  shows "(a, v, c, r1, r2) \<in> set (transitive_candidates objs)"
proof -
  let ?out = "out_edges (filter is_rel objs)" let ?ids = "by_id (filter (\<lambda>x. \<not> is_rel x) objs)"
  let ?i = "o_source_ref r1"
  let ?ab = "filter (\<lambda>x. o_source_ref x = ?i) (filter is_rel objs)"
  have g: "(?i, ?ab) \<in> set ?out" unfolding out_edges_def group_by_entry using assms(3,5) by auto
  have b: "r2 \<in> set (dget ?out (o_target_ref r1) [])" unfolding out_edges_def dget_group_by using assms by simp
  have "(a, v, c, r1, r2) \<in> set (compose ?ids ?i a r1 r2)"
    using assms(2,8,9) by (simp add: compose_def)
  from in_concat_map [where f = "compose ?ids ?i a r1", OF b this] have step: "(a, v, c, r1, r2) \<in> set (concat (map (compose ?ids ?i a r1) (dget ?out (o_target_ref r1) [])))" .
  have r1: "r1 \<in> set ?ab" using assms(3,5) by simp
  from in_concat_map [where f = "\<lambda>r. concat (map (compose ?ids ?i a r) (dget ?out (o_target_ref r) []))", OF r1 step]
  have "(a, v, c, r1, r2) \<in> set (concat (map (\<lambda>r. concat (map (compose ?ids ?i a r) (dget ?out (o_target_ref r) []))) ?ab))" .
  then have "(a, v, c, r1, r2) \<in> set ((\<lambda>(ai, ab_list). case ?ids ai of None \<Rightarrow> []
       | Some a \<Rightarrow> concat (map (\<lambda>r_ab. concat (map (compose ?ids ai a r_ab) (dget ?out (o_target_ref r_ab) []))) ab_list)) (?i, ?ab))"
    by (simp only: prod.case assms(1) option.case)
  from in_concat_map [where f = "\<lambda>(ai, ab_list). case ?ids ai of None \<Rightarrow> []
       | Some a \<Rightarrow> concat (map (\<lambda>r_ab. concat (map (compose ?ids ai a r_ab) (dget ?out (o_target_ref r_ab) []))) ab_list)", OF g this]
  show ?thesis unfolding transitive_candidates_def Let_def .
qed

lemma transitive_candidates_ok:
  "\<forall>c \<in> set (transitive_candidates objs). endpoints_ok objs (fst c) (fst (snd (snd c)))"
proof
  fix e assume e: "e \<in> set (transitive_candidates objs)"
  obtain a v c r1 r2 where p: "e = (a, v, c, r1, r2)" by (metis prod.exhaust)
  from transitive_candidate [OF e [unfolded p]] have "by_id (filter (\<lambda>x. \<not> is_rel x) objs) (o_source_ref r1) = Some a"
    "by_id (filter (\<lambda>x. \<not> is_rel x) objs) (o_target_ref r2) = Some c" "o_source_ref r1 \<noteq> o_target_ref r2" by blast+
  from by_id_in [OF this(1)] by_id_in [OF this(2)] this(3) show "endpoints_ok objs (fst e) (fst (snd (snd e)))"
    by (simp add: p endpoints_ok_def)
qed

lemma ground_reference_ok:
  assumes "ground_reference gen ix pairs idx cfg fb objs st = (objs', st')"
  shows "\<exists>new. objs' = objs @ new \<and> added_ok objs fb cfg (existing_edges objs) st new st'"
  using assms reference_loop_ok [OF _ reference_candidates_ok]
  by (auto simp: ground_reference_def Let_def added_ok_Nil split: if_splits)

lemma infer_transitive_ok:
  assumes "infer_transitive gen idx cfg fb objs st = (objs', st')"
  shows "\<exists>new. objs' = objs @ new \<and> added_ok objs fb cfg (existing_edges objs) st new st'"
proof -
  obtain new st1 where t: "transitive_loop gen idx cfg fb (transitive_candidates objs) (existing_edges objs) [] st = (new, st1)"
    by fastforce
  from transitive_loop_ok [OF t transitive_candidates_ok] show ?thesis
    using assms t by (auto simp: infer_transitive_def)
qed

section \<open>Long-distance edges\<close>

lemma place_edge_ok:
  assumes "place_edge gen ids idx fb e (existing, objs, st) = (existing', objs', st')"
    and "int (total_added st) < c_max_new_edges cfg" "\<And>i x. ids i = Some x \<Longrightarrow> x \<in> set base \<and> \<not> is_rel x"
  shows "\<exists>new. objs' = objs @ new \<and> existing' = existing \<union> rel_triple ` set new \<and> added_ok base fb cfg existing st new st'"
proof -
  have skip: "objs' = objs \<Longrightarrow> existing' = existing \<Longrightarrow> total_added st' = total_added st \<Longrightarrow> ?thesis"
    using added_ok_Nil by fastforce
  show ?thesis
  proof (cases "ie_verb e \<in> set STIX_RELATIONSHIP_TYPES \<and> ids (ie_source_id e) \<noteq> None \<and> ids (ie_target_id e) \<noteq> None")
    case False
    then show ?thesis using assms(1) by (intro skip) (auto simp: place_edge_def split: if_splits option.splits)
  next
    case True
    then obtain s t where st: "ids (ie_source_id e) = Some s" "ids (ie_target_id e) = Some t" by auto
    let ?v = "apply_pin (ie_verb e) (o_type s) (o_type t) idx" let ?k = "(o_id s, ?v, o_id t)"
    obtain b1 s1 where r1: "refuse ?k ''long-distance'' [] [?k \<mapsto> NOT_AN_SDO] st = (b1, s1)" by fastforce
    obtain b2 s2 where r2: "refuse ?k ''long-distance'' [] fb st = (b2, s2)" by fastforce
    note R = refuse_cases [OF r1] refuse_cases [OF r2]
    let ?bad = "o_type s \<notin> set LONG_DISTANCE_TYPES \<or> o_type t \<notin> set LONG_DISTANCE_TYPES"
    show ?thesis
    proof (cases "o_id s = o_id t \<or> \<not> rel_is_suggested (o_type s) ?v (o_type t) \<or> ?k \<in> existing \<or> ?bad \<or> b2")
      case skipped: True
      show ?thesis
        by (rule skip) (use assms(1) True st r1 r2 R skipped in
            \<open>auto simp: place_edge_def Let_def total_added_def split: if_splits\<close>)
    next
      case False
      then have "s2 = st" "fb ?k = None" using R by auto
      let ?r = "make_inferred_rel (gen (total_added st)) s ?v t (ie_confidence e) ''long-distance'' [] (ie_evidence_text e) ''inferred''"
      from assms(1) True st r2 False \<open>s2 = st\<close> have out: "existing' = insert ?k existing" "objs' = objs @ [?r]"
        "st' = st\<lparr>long_distance_added := long_distance_added st + 1\<rparr>"
        by (auto simp: place_edge_def Let_def)
      have "warranted base fb ?r"
        by (rule make_warranted) (use assms(3) [OF st(1)] assms(3) [OF st(2)] False \<open>fb ?k = None\<close> in simp_all)
      then have "added_ok base fb cfg existing st [?r] st'"
        by (rule added_ok_Cons [OF _ _ _ assms(2) added_ok_Nil [OF refl]]) (use False out in \<open>simp_all add: total_added_def\<close>)
      with out show ?thesis by (intro exI [of _ "[?r]"]) simp
    qed
  qed
qed

lemma long_distance_loop_ok:
  assumes "long_distance_loop gen infer text all_objs ids topic idx cfg fb cs (existing, objs, st) = (objs', st')"
    and "\<forall>i x. all_objs i = Some x \<longrightarrow> x \<in> set base \<and> \<not> is_rel x"
  shows "\<exists>new. objs' = objs @ new \<and> added_ok base fb cfg existing st new st'"
  using assms(1)
proof (induction cs arbitrary: existing objs st)
  case Nil
  then show ?case by (auto intro: added_ok_Nil)
next
  case (Cons c cs)
  let ?loop = "long_distance_loop gen infer text all_objs ids topic idx cfg fb cs"
  consider (topic) "c = topic" | (cap) "c \<noteq> topic" "int (total_added st) \<ge> c_max_new_edges cfg"
    | (lost) "c \<noteq> topic" "\<not> int (total_added st) \<ge> c_max_new_edges cfg" "ids c = None \<or> ids topic = None"
    | (ask) src tgt where "c \<noteq> topic" "\<not> int (total_added st) \<ge> c_max_new_edges cfg" "ids c = Some src" "ids topic = Some tgt"
    by (cases "ids c"; cases "ids topic") auto
  then show ?case
  proof cases
    case topic
    with Cons show ?thesis by simp
  next
    case cap
    with Cons.prems show ?thesis by (auto intro!: added_ok_Nil simp: total_added_def)
  next
    case lost
    with Cons.prems have "objs' = objs" "st' = st" by (auto split: option.splits)
    then show ?thesis by (auto intro: added_ok_Nil)
  next
    case ask
    show ?thesis
    proof (cases "infer src tgt text")
      case (Inl err)
      with ask Cons.prems have run: "?loop (existing, objs, st\<lparr>st_notes := st_notes st @ [InfererError err]\<rparr>) = (objs', st')" by simp
      from Cons.IH [OF run] show ?thesis using added_ok_step [of "st\<lparr>st_notes := st_notes st @ [InfererError err]\<rparr>" st]
        by (auto simp: total_added_def)
    next
      case (Inr a)
      show ?thesis
      proof (cases a)
        case None
        with Inr ask Cons show ?thesis by simp
      next
        case (Some e)
        obtain ex1 o1 s1 where p: "place_edge gen all_objs idx fb e (existing, objs, st) = (ex1, o1, s1)" by (metis prod_cases3)
        with Some Inr ask Cons.prems have run: "?loop (ex1, o1, s1) = (objs', st')" by simp
        have cap: "int (total_added st) < c_max_new_edges cfg" using ask(2) by simp
        obtain n1 where n1: "o1 = objs @ n1" "ex1 = existing \<union> rel_triple ` set n1" "added_ok base fb cfg existing st n1 s1"
          using place_edge_ok [OF p cap] assms(2) by blast
        obtain n2 where n2: "objs' = o1 @ n2" "added_ok base fb cfg ex1 s1 n2 st'" using Cons.IH [OF run] by blast
        from added_ok_trans [OF n1(3) n2(2) [unfolded n1(2)]] n1(1) n2(1) show ?thesis by (intro exI [of _ "n1 @ n2"]) simp
      qed
    qed
  qed
qed

section \<open>The whole completion\<close>

lemma total_added_update:
  "total_added (st\<lparr>removed_relationships := x\<rparr>) = total_added st"
  "total_added (st\<lparr>remapped_relationships := y\<rparr>) = total_added st"
  by (simp_all add: total_added_def)

lemma rewrite_loop_total: "total_added (fst (rewrite_loop remap mode xs seen out st)) = total_added st"
  by (induction xs arbitrary: seen out st) (auto simp: Let_def total_added_update split: option.splits sum.splits)

lemma merge_cluster_total: "total_added (snd (snd (merge_cluster deg ms s))) = total_added (snd (snd s))"
  by (auto simp: merge_cluster_def total_added_def Let_def split: prod.splits)

lemma run_clusters_total: "total_added (snd (snd (run_clusters deg cs s))) = total_added (snd (snd s))"
  by (induction cs arbitrary: s) (auto simp: merge_cluster_total split: prod.splits)

lemma merge_aliases_total:
  assumes "merge_aliases fuzz embedder cfg objs st = Some (out, st', raised)"
  shows "total_added st' = total_added st"
proof -
  have t: "total_added st2 = total_added st"
    if "run_clusters deg cs (objs, [], st\<lparr>st_notes := ns\<rparr>) = (o2, r2, st2)" for deg cs ns o2 r2 st2
    using run_clusters_total [of deg cs "(objs, [], st\<lparr>st_notes := ns\<rparr>)"] that by (simp add: total_added_def)
  have r: "total_added st4 = total_added st3" if "rewrite_refs ks rm st3 mode = (st4, res)" for ks rm st3 mode st4 res
    using rewrite_loop_total [of rm mode ks Map.empty "[]" st3] that by (simp add: rewrite_refs_def)
  have m: "total_added (s\<lparr>merged_ids := d\<rparr>) = total_added s" for s d by (simp add: total_added_def)
  from assms show ?thesis
    unfolding merge_aliases_def Let_def
    by (auto split: if_splits prod.splits option.splits sum.splits dest!: t r simp: m)
qed

lemma alias_step_ok:
  "\<exists>objs' st' fb'. alias_step w cfg fb objs = Some (objs', st', fb') \<and> total_added st' = 0"
proof (cases "c_alias cfg")
  case True
  obtain out st' raised where m: "merge_aliases (w_fuzz w) (w_embedder w) cfg objs new_stats = Some (out, st', raised)"
  proof (cases "length (filter is_aliasable objs) < 2")
    case True
    then show ?thesis using that by (simp add: merge_aliases_def)
  next
    case False
    let ?s = "filter is_aliasable objs"
    obtain pairs ns where pn: "alias_pairs (w_fuzz w) (w_embedder w) cfg ?s = (pairs, ns)" by fastforce
    have "p \<in> set pairs \<Longrightarrow> pair_ok ?s p" for p using alias_pairs_ok [of p "w_fuzz w" "w_embedder w" cfg ?s] pn by simp
    then obtain cs where "alias_clusters ?s pairs = Some cs" using alias_clusters_closure [of pairs ?s] by blast
    with False pn have "merge_aliases (w_fuzz w) (w_embedder w) cfg objs new_stats \<noteq> None"
      by (auto simp: merge_aliases_def Let_def split: prod.splits sum.splits)
    with that show ?thesis by (metis not_None_eq prod_cases3)
  qed
  have "total_added st' = 0" using merge_aliases_total [OF m] by (simp add: new_stats_def total_added_def)
  with True m show ?thesis by (auto simp: alias_step_def Let_def total_added_def split: option.splits)
qed (simp add: alias_step_def new_stats_def total_added_def)

lemma connected_components_returns: "\<exists>cs. connected_components ns rels = Some cs"
proof -
  let ?p = "map_of (map (\<lambda>n. (n, n)) ns)"
  let ?es = "filter (\<lambda>(s, t). s \<in> set ns \<and> t \<in> set ns) (map (\<lambda>r. (o_source_ref r, o_target_ref r)) rels)"
  have p: "?p = (\<lambda>i. if i \<in> set ns then Some i else None)"
    by (rule ext) (auto simp: map_of_map_restrict restrict_map_def)
  have f: "forest ?p" unfolding p by (rule forest_identity)
  have d: "dom ?p = set ns" unfolding p by (auto split: if_splits)
  have e: "fst ` set ?es \<union> snd ` set ?es \<subseteq> dom ?p" unfolding d by auto
  from component_uf.unions_ok [OF f e] obtain q where q: "unions component_union ?p ?es = Some q" "forest q" "dom q = dom ?p"
    by blast
  from component_uf.roots_ok [OF q(2), of ns] d q(3) obtain r where "roots find_halving q ns = Some (map (rep q) ns, r)"
    by blast
  with q(1) show ?thesis by (simp add: connected_components_def)
qed

lemma infer_long_distance_ok:
  "\<exists>new st'. infer_long_distance gen so f text idx cfg fb objs st = Some (objs @ new, st') \<and>
     added_ok objs fb cfg (existing_edges objs) st new st'"
proof -
  let ?nodes = "filter (\<lambda>x. \<not> is_rel x) objs"
  let ?ids = "sdo_by_id ?nodes"
  define ns where "ns = so (set (filter (\<lambda>i. ?ids i \<noteq> None) (map o_id ?nodes)))"
  obtain cs where cs: "connected_components ns (filter is_rel objs) = Some cs" using connected_components_returns by blast
  have base: "\<forall>i x. by_id ?nodes i = Some x \<longrightarrow> x \<in> set objs \<and> \<not> is_rel x" using by_id_in by fastforce
  define centrals where "centrals = map (central (degree objs)) cs"
  obtain out st' where l: "long_distance_loop gen f text (by_id ?nodes) ?ids (central (degree objs) centrals) idx cfg fb centrals
      (existing_edges objs, objs, st) = (out, st')" by fastforce
  have e: "infer_long_distance gen so f text idx cfg fb objs st = (if length cs < 2 then Some (objs, st) else Some (out, st'))"
    unfolding infer_long_distance_def Let_def
    unfolding ns_def [symmetric] cs option.case centrals_def [symmetric] l ..
  show ?thesis
  proof (cases "length cs < 2")
    case True
    with e show ?thesis by (intro exI [of _ "[]"] exI [of _ st]) (simp add: added_ok_Nil)
  next
    case False
    from long_distance_loop_ok [OF l base] obtain new where "out = objs @ new" "added_ok objs fb cfg (existing_edges objs) st new st'"
      by blast
    with e False show ?thesis by simp
  qed
qed

lemma warranted_mono: "warranted base fb r \<Longrightarrow> set base \<subseteq> set base' \<Longrightarrow> warranted base' fb r"
  unfolding warranted_def by blast

lemma warranted_append: "warranted (base @ new) fb r \<Longrightarrow> \<forall>n \<in> set new. is_rel n \<Longrightarrow> warranted base fb r"
  unfolding warranted_def by (elim conjE, intro conjI) (simp_all, blast)

lemma existing_append: "\<forall>n \<in> set new. is_rel n \<Longrightarrow> existing_edges (objs @ new) = existing_edges objs \<union> rel_triple ` set new"
  by (auto simp: existing_edges_def)

lemma added_ok_append:
  assumes "added_ok objs fb cfg (existing_edges objs) st n1 st1" "added_ok (objs @ n1) fb cfg (existing_edges (objs @ n1)) st1 n2 st2"
  shows "added_ok objs fb cfg (existing_edges objs) st (n1 @ n2) st2"
proof (rule added_ok_trans [OF assms(1)])
  have r: "\<forall>n \<in> set n1. is_rel n" using assms(1) by (auto simp: added_ok_def warranted_def)
  have "\<forall>r \<in> set n2. warranted objs fb r" using assms(2) warranted_append [OF _ r] by (auto simp: added_ok_def)
  with assms(2) show "added_ok objs fb cfg (existing_edges objs \<union> rel_triple ` set n1) st1 n2 st2"
    unfolding added_ok_def existing_append [OF r] by blast
qed

text \<open>A forbidden triple stays forbidden whichever way an undirected verb is read.\<close>

definition reverses :: "triple set \<Rightarrow> triple set" where
  "reverses F = {(t, v, s) | s v t. (s, v, t) \<in> F \<and> v \<in> set UNDIRECTED_VERBS}"

lemma reverses_insert: "reverses (insert (s, v, t) F) =
    (if v \<in> set UNDIRECTED_VERBS then insert (t, v, s) (reverses F) else reverses F)"
  by (auto simp: reverses_def)

lemma both_directions_fold:
  fixes fb :: forbidden
  shows "fst ` set (fold (\<lambda>((s, v, t), why) out. if v \<in> set UNDIRECTED_VERBS \<and> map_of out (t, v, s) \<noteq> Some REJECTED_BY_ANALYST
     then dset (t, v, s) why out else out) fb acc) = fst ` set acc \<union> reverses (fst ` set fb)"
proof (induction fb arbitrary: acc)
  case (Cons e fb)
  obtain s v t why where e: "e = ((s, v, t), why)" by (metis prod.exhaust)
  let ?acc = "if v \<in> set UNDIRECTED_VERBS \<and> map_of acc (t, v, s) \<noteq> Some REJECTED_BY_ANALYST then dset (t, v, s) why acc else acc"
  have old: "(t, v, s) \<in> fst ` set acc" if "map_of acc (t, v, s) = Some REJECTED_BY_ANALYST"
    using that by (metis map_of_eq_None_iff option.simps(3))
  have keys: "fst ` set ?acc = (if v \<in> set UNDIRECTED_VERBS then insert (t, v, s) (fst ` set acc) else fst ` set acc)"
    using old by (simp add: keys_dset insert_absorb)
  have f: "fst ` set (e # fb) = insert (s, v, t) (fst ` set fb)" by (simp add: e)
  show ?case unfolding f reverses_insert fold_Cons comp_apply unfolding e prod.case Cons.IH keys by simp
qed (simp add: reverses_def)

lemma both_directions_keys:
  "fst ` set (both_directions fb) = fst ` set fb \<union> reverses (fst ` set fb)"
  unfolding both_directions_def by (rule both_directions_fold)

lemma map_of_None_keys: "map_of d k = None \<longleftrightarrow> k \<notin> fst ` set d"
  by (rule map_of_eq_None_iff)


section \<open>What is composed\<close>

text \<open>The edge a composition yields, and the reasons it may be left out.\<close>

definition composed :: "(string, policy_rule) dict \<Rightarrow> composition \<Rightarrow> stix_obj \<Rightarrow> bool" where
  "composed idx = (\<lambda>(a, v, c, r1, r2) r.
     rel_triple r = (o_id a, apply_pin v (o_type a) (o_type c) idx, o_id c) \<and>
     o_inferred_from r = [o_id r1, o_id r2] \<and>
     o_confidence r = Some (clamp_confidence (min (premise_confidence r1) (premise_confidence r2) * 9 div 10)))"

definition settled :: "(string, policy_rule) dict \<Rightarrow> (triple \<rightharpoonup> string) \<Rightarrow> triple set \<Rightarrow> composition \<Rightarrow> bool" where
  "settled idx fb edges = (\<lambda>(a, v, c, r1, r2). let v' = apply_pin v (o_type a) (o_type c) idx in
     \<not> rel_is_suggested (o_type a) v' (o_type c) \<or> (o_id a, v', o_id c) \<in> edges \<or> fb (o_id a, v', o_id c) \<noteq> None)"

lemma settled_mono: "settled idx fb edges e \<Longrightarrow> edges \<subseteq> edges' \<Longrightarrow> settled idx fb edges' e"
  by (auto simp: settled_def Let_def split: prod.splits)

lemma transitive_loop_covers:
  assumes "transitive_loop gen idx cfg fb cs existing objs st = (objs', st')"
  shows "\<exists>new. objs' = objs @ new \<and> (\<forall>r \<in> set new. \<exists>e \<in> set cs. composed idx e r) \<and>
    (capped st' \<or> (\<forall>e \<in> set cs. settled idx fb (existing \<union> rel_triple ` set new) e))"
  using assms
proof (induction gen idx cfg fb cs existing objs st rule: transitive_loop.induct)
  case (2 gen idx cfg fb a verb c r_ab r_bc cs existing objs st)
  let ?rule = "''transitive:'' @ o_rel_type r_ab @ ''+'' @ o_rel_type r_bc" let ?ps = "[o_id r_ab, o_id r_bc]"
  let ?e = "(a, verb, c, r_ab, r_bc)"
  obtain d st1 where d: "admit idx cfg fb existing a verb c ?rule ?ps st = (d, st1)" by fastforce
  show ?case
  proof (cases d)
    case Skip
    with 2(3) d have run: "transitive_loop gen idx cfg fb cs existing objs st1 = (objs', st')" by simp
    obtain new where n: "objs' = objs @ new" "\<forall>r \<in> set new. \<exists>e \<in> set cs. composed idx e r"
      "capped st' \<or> (\<forall>e \<in> set cs. settled idx fb (existing \<union> rel_triple ` set new) e)"
      using 2(1) [OF refl refl d [symmetric] Skip run] by blast
    have "settled idx fb existing ?e" using admit_Skip [OF d [unfolded Skip]] by (simp add: settled_def Let_def)
    then have "settled idx fb (existing \<union> rel_triple ` set new) ?e" by (rule settled_mono) blast
    with n show ?thesis by (intro exI [of _ new]) auto
  next
    case Stop
    with 2(3) d show ?thesis using admit_Stop [OF d [unfolded Stop]] by auto
  next
    case (Add v)
    let ?r = "make_inferred_rel (gen (total_added st1)) a v c
              (min (premise_confidence r_ab) (premise_confidence r_bc) * 9 div 10) ?rule ?ps [] ''inferred''"
    let ?st = "st1\<lparr>transitive_added := transitive_added st1 + 1\<rparr>"
    from 2(3) d Add have run: "transitive_loop gen idx cfg fb cs (insert (o_id a, v, o_id c) existing) (objs @ [?r]) ?st = (objs', st')"
      by simp
    obtain new where n: "objs' = (objs @ [?r]) @ new" "\<forall>r \<in> set new. \<exists>e \<in> set cs. composed idx e r"
      "capped st' \<or> (\<forall>e \<in> set cs. settled idx fb (insert (o_id a, v, o_id c) existing \<union> rel_triple ` set new) e)"
      using 2(2) [OF refl refl d [symmetric] Add run] by blast
    have v: "v = apply_pin verb (o_type a) (o_type c) idx" using admit_Add [OF d [unfolded Add]] by blast
    have "composed idx ?e ?r" "settled idx fb (insert (o_id a, v, o_id c) existing \<union> rel_triple ` set new) ?e"
      by (simp_all add: composed_def settled_def Let_def v)
    moreover have "existing \<union> rel_triple ` set (?r # new) = insert (o_id a, v, o_id c) existing \<union> rel_triple ` set new" by simp
    ultimately have "composed idx ?e ?r" "capped st' \<or> (\<forall>e \<in> set (?e # cs). settled idx fb (existing \<union> rel_triple ` set (?r # new)) e)"
      using n(3) by simp_all
    moreover have "objs' = objs @ (?r # new)" using n(1) by simp
    ultimately show ?thesis using n(2) by (intro exI [of _ "?r # new"] conjI) auto
  qed
qed (auto)

lemma nine_tenths:
  "10 * clamp_confidence (min p q * 9 div 10) \<le> 9 * max 0 p" "10 * clamp_confidence (min p q * 9 div 10) \<le> 9 * max 0 q"
proof -
  have "10 * (min p q * 9 div 10) \<le> min p q * 9" by simp
  then show "10 * clamp_confidence (min p q * 9 div 10) \<le> 9 * max 0 p" "10 * clamp_confidence (min p q * 9 div 10) \<le> 9 * max 0 q"
    unfolding clamp_confidence_def by linarith+
qed

text \<open>C10. Composition rests on the bundle and misses nothing: every edge the transitive engine adds goes
  from the source of one edge of the bundle to the target of another that starts where the first
  ends, by the verb the rule table (or the analyst's pin) gives, with both premises cited and a
  confidence below theirs. And unless the budget ran out, every composable pair of edges between
  two objects of the bundle has its edge, or one the specification does not suggest, or a
  forbidden one.\<close>

lemma transitive_sound_complete:
  assumes "infer_transitive gen idx cfg fb objs st = (out, st')"
  shows "\<exists>new. out = objs @ new \<and>
    (\<forall>r \<in> set new. \<exists>r1 \<in> set objs. \<exists>r2 \<in> set objs. \<exists>a v c. is_rel r1 \<and> is_rel r2 \<and> o_target_ref r1 = o_source_ref r2 \<and>
       rel_triple r = (o_source_ref r1, apply_pin v (o_type a) (o_type c) idx, o_target_ref r2) \<and>
       TRANSITIVE_RULES (o_rel_type r1, o_rel_type r2) = Some v \<and> a \<in> set objs \<and> o_id a = o_source_ref r1 \<and>
       c \<in> set objs \<and> o_id c = o_target_ref r2 \<and> o_inferred_from r = [o_id r1, o_id r2] \<and>
       (\<exists>k. o_confidence r = Some k \<and> 10 * k \<le> 9 * max 0 (premise_confidence r1) \<and> 10 * k \<le> 9 * max 0 (premise_confidence r2))) \<and>
    (capped st' \<or> (\<forall>r1 r2 a c v.
       by_id (filter (\<lambda>x. \<not> is_rel x) objs) (o_source_ref r1) = Some a \<and>
       by_id (filter (\<lambda>x. \<not> is_rel x) objs) (o_target_ref r2) = Some c \<and>
       r1 \<in> set objs \<and> r2 \<in> set objs \<and> is_rel r1 \<and> is_rel r2 \<and> o_target_ref r1 = o_source_ref r2 \<and>
       o_source_ref r1 \<noteq> o_target_ref r2 \<and> TRANSITIVE_RULES (o_rel_type r1, o_rel_type r2) = Some v \<longrightarrow>
       settled idx fb (existing_edges out) (a, v, c, r1, r2)))"
proof -
  obtain n st1 where t: "transitive_loop gen idx cfg fb (transitive_candidates objs) (existing_edges objs) [] st = (n, st1)"
    by fastforce
  have out: "out = objs @ n" "st' = st1" using assms t by (simp_all add: infer_transitive_def)
  have cov: "\<forall>r \<in> set n. \<exists>e \<in> set (transitive_candidates objs). composed idx e r"
    "capped st1 \<or> (\<forall>e \<in> set (transitive_candidates objs). settled idx fb (existing_edges objs \<union> rel_triple ` set n) e)"
    using transitive_loop_covers [OF t] by auto
  have rel: "\<forall>r \<in> set n. is_rel r"
    using transitive_loop_ok [OF t transitive_candidates_ok] by (auto simp: added_ok_def warranted_def)
  have edges: "existing_edges out = existing_edges objs \<union> rel_triple ` set n" unfolding out by (rule existing_append [OF rel])
  have sound: "\<exists>r1 \<in> set objs. \<exists>r2 \<in> set objs. \<exists>a v c. is_rel r1 \<and> is_rel r2 \<and> o_target_ref r1 = o_source_ref r2 \<and>
       rel_triple r = (o_source_ref r1, apply_pin v (o_type a) (o_type c) idx, o_target_ref r2) \<and>
       TRANSITIVE_RULES (o_rel_type r1, o_rel_type r2) = Some v \<and> a \<in> set objs \<and> o_id a = o_source_ref r1 \<and>
       c \<in> set objs \<and> o_id c = o_target_ref r2 \<and> o_inferred_from r = [o_id r1, o_id r2] \<and>
       (\<exists>k. o_confidence r = Some k \<and> 10 * k \<le> 9 * max 0 (premise_confidence r1) \<and> 10 * k \<le> 9 * max 0 (premise_confidence r2))"
    if "r \<in> set n" for r
  proof -
    from cov(1) that obtain e where e: "e \<in> set (transitive_candidates objs)" "composed idx e r" by blast
    obtain a v c r1 r2 where p: "e = (a, v, c, r1, r2)" by (metis prod.exhaust)
    note C = transitive_candidate [OF e(1) [unfolded p]]
    have r: "r1 \<in> set objs" "r2 \<in> set objs" using C by blast+
    have a: "a \<in> set objs" "o_id a = o_source_ref r1" and c: "c \<in> set objs" "o_id c = o_target_ref r2"
      using C by_id_in [of _ "o_source_ref r1" a] by_id_in [of _ "o_target_ref r2" c] by fastforce+
    define k where "k = clamp_confidence (min (premise_confidence r1) (premise_confidence r2) * 9 div 10)"
    have k: "10 * k \<le> 9 * max 0 (premise_confidence r1)" "10 * k \<le> 9 * max 0 (premise_confidence r2)"
      unfolding k_def by (rule nine_tenths)+
    have x: "rel_triple r = (o_source_ref r1, apply_pin v (o_type a) (o_type c) idx, o_target_ref r2)"
      "o_inferred_from r = [o_id r1, o_id r2]" "o_confidence r = Some k"
      using e(2) a c by (simp_all add: composed_def p k_def)
    show ?thesis
      by (rule bexI [OF _ r(1)], rule bexI [OF _ r(2)], intro exI conjI) (use C a c x k in auto)
  qed
  show ?thesis
  proof (intro exI [of _ n] conjI ballI out sound)
    show "capped st' \<or> (\<forall>r1 r2 a c v.
       by_id (filter (\<lambda>x. \<not> is_rel x) objs) (o_source_ref r1) = Some a \<and>
       by_id (filter (\<lambda>x. \<not> is_rel x) objs) (o_target_ref r2) = Some c \<and>
       r1 \<in> set objs \<and> r2 \<in> set objs \<and> is_rel r1 \<and> is_rel r2 \<and> o_target_ref r1 = o_source_ref r2 \<and>
       o_source_ref r1 \<noteq> o_target_ref r2 \<and> TRANSITIVE_RULES (o_rel_type r1, o_rel_type r2) = Some v \<longrightarrow>
       settled idx fb (existing_edges out) (a, v, c, r1, r2))"
    proof (cases "capped st'")
      case False
      then have all: "\<forall>e \<in> set (transitive_candidates objs). settled idx fb (existing_edges out) e"
        using cov(2) out(2) edges by simp
      show ?thesis by (intro disjI2 allI impI bspec [OF all] transitive_candidate_exists) blast+
    qed simp
  qed
qed

definition chain_bundle :: "stix_obj list" where
  "chain_bundle = [bare_obj ''i1'' ''intrusion-set'' ''Fancy Bear'', bare_obj ''m1'' ''malware'' ''X-Agent'',
     bare_obj ''t1'' ''attack-pattern'' ''Phishing'', bare_rel ''r1'' ''i1'' ''uses'' ''m1'', bare_rel ''r2'' ''m1'' ''uses'' ''t1'']"

definition new_rel_id :: "nat \<Rightarrow> string" where
  "new_rel_id k = ''relationship--'' @ pad 4 k"

lemma transitive_sound_complete_witness:
  "\<exists>out st' new. infer_transitive new_rel_id [] completion_defaults Map.empty chain_bundle new_stats = (out, st') \<and>
     out = chain_bundle @ new \<and> map rel_triple new = [(''i1'', ''uses'', ''t1'')] \<and> map o_confidence new = [Some 72] \<and>
     settled [] Map.empty (existing_edges out) (bare_obj ''i1'' ''intrusion-set'' ''Fancy Bear'', ''uses'',
       bare_obj ''t1'' ''attack-pattern'' ''Phishing'', bare_rel ''r1'' ''i1'' ''uses'' ''m1'', bare_rel ''r2'' ''m1'' ''uses'' ''t1'')"
proof -
  obtain out st' where r: "infer_transitive new_rel_id [] completion_defaults Map.empty chain_bundle new_stats = (out, st')"
    by fastforce
  have e: "(\<lambda>(out, st). (map rel_triple (drop 5 out), map o_confidence (drop 5 out), capped st))
      (infer_transitive new_rel_id [] completion_defaults Map.empty chain_bundle new_stats) =
    ([(''i1'', ''uses'', ''t1'')], [Some 72], False)" by code_simp
  have l: "length chain_bundle = 5" by (simp add: chain_bundle_def)
  note T = transitive_sound_complete [OF r]
  from T obtain new where new: "out = chain_bundle @ new" by blast
  have c: "\<not> capped st'" using e r by simp
  have facts: "by_id (filter (\<lambda>x. \<not> is_rel x) chain_bundle) (o_source_ref (bare_rel ''r1'' ''i1'' ''uses'' ''m1'')) = Some (bare_obj ''i1'' ''intrusion-set'' ''Fancy Bear'')"
    "by_id (filter (\<lambda>x. \<not> is_rel x) chain_bundle) (o_target_ref (bare_rel ''r2'' ''m1'' ''uses'' ''t1'')) = Some (bare_obj ''t1'' ''attack-pattern'' ''Phishing'')"
    by code_simp+
  have more: "bare_rel ''r1'' ''i1'' ''uses'' ''m1'' \<in> set chain_bundle" "bare_rel ''r2'' ''m1'' ''uses'' ''t1'' \<in> set chain_bundle"
    "is_rel (bare_rel ''r1'' ''i1'' ''uses'' ''m1'')" "is_rel (bare_rel ''r2'' ''m1'' ''uses'' ''t1'')"
    "o_target_ref (bare_rel ''r1'' ''i1'' ''uses'' ''m1'') = o_source_ref (bare_rel ''r2'' ''m1'' ''uses'' ''t1'')"
    "o_source_ref (bare_rel ''r1'' ''i1'' ''uses'' ''m1'') \<noteq> o_target_ref (bare_rel ''r2'' ''m1'' ''uses'' ''t1'')"
    "TRANSITIVE_RULES (o_rel_type (bare_rel ''r1'' ''i1'' ''uses'' ''m1''), o_rel_type (bare_rel ''r2'' ''m1'' ''uses'' ''t1'')) = Some ''uses''"
    by (simp_all add: chain_bundle_def bare_rel_def bare_obj_def is_rel_def TRANSITIVE_RULES_def)
  have "settled [] Map.empty (existing_edges out) (bare_obj ''i1'' ''intrusion-set'' ''Fancy Bear'', ''uses'',
       bare_obj ''t1'' ''attack-pattern'' ''Phishing'', bare_rel ''r1'' ''i1'' ''uses'' ''m1'', bare_rel ''r2'' ''m1'' ''uses'' ''t1'')"
    using T c facts more by blast
  with new e r l show ?thesis by auto
qed

end
