(* ===== verification/JobQueue.thy ===== *)
theory JobQueue
  imports Prelude
begin

text \<open>
  The job queue: api/queue_loop.py (claim, lease, heartbeat, the worker loop), the parts of
  api/worker.py it relies on (\<open>_finalize_job\<close>, \<open>_spawn_job\<close>, \<open>_upload_path_for\<close>,
  \<open>run_pipeline_async\<close>) and the retention sweep of api/routes/jobs.py.
  A table is the list of its rows, an UPDATE a map over them; one SQL statement is one atomic
  step, and the second half of the theory interleaves the statements of any number of workers.
  Timestamps are microseconds (the code stores ISO strings of UTC times, which sort alike); the
  database answers (the code's handlers log an error and return 0 or None).
\<close>

section \<open>The store\<close>

datatype jstatus = Uploaded | Queued | Processing | ForReview | Completed | Failed

record built =
  bt_json :: string
  bt_ledger :: "string option"
  bt_validation :: "string option"
  bt_errors :: "string list option"
  bt_build :: "string option"
  bt_revision :: int

record qjob =
  q_id :: string
  q_filename :: string
  q_status :: jstatus
  q_worker :: "string option"
  q_heartbeat :: "int option"
  q_created :: int
  q_updated :: int
  q_review_revision :: int
  q_built :: "built option"

datatype progress = StageLabel string | Done jstatus string | InQueue nat

record beat =
  bw_id :: string
  bw_role :: string
  bw_max :: int
  bw_started :: int
  bw_heartbeat :: int

text \<open>Of the tables job_baselines, entities and relationships only the job of each row matters here.\<close>

record qstore =
  jobs :: "qjob list"
  events :: "(string \<times> progress) list"
  beats :: "beat list"
  baselines :: "string list"
  entity_jobs :: "string list"
  relationship_jobs :: "string list"

record qconfig =
  lease_us :: int
  worker_row_retention_us :: int
  heartbeat_us :: int
  retention_sweep_us :: int
  queue_max_depth :: int

text \<open>\<open>UPDATE jobs SET ... WHERE ...\<close> and its rowcount.\<close>

definition update_where :: "(qjob \<Rightarrow> bool) \<Rightarrow> (qjob \<Rightarrow> qjob) \<Rightarrow> qstore \<Rightarrow> qstore \<times> nat" where
  "update_where P f s = (s\<lparr>jobs := map (\<lambda>r. if P r then f r else r) (jobs s)\<rparr>, length (filter P (jobs s)))"

definition emit_progress :: "string \<Rightarrow> progress \<Rightarrow> qstore \<Rightarrow> qstore" where
  "emit_progress jid p s = s\<lparr>events := events s @ [(jid, p)]\<rparr>"

definition set_job_status :: "int \<Rightarrow> string \<Rightarrow> jstatus \<Rightarrow> qstore \<Rightarrow> qstore" where
  "set_job_status now jid st s = fst (update_where (\<lambda>r. q_id r = jid) (\<lambda>r. r\<lparr>q_status := st, q_updated := now\<rparr>) s)"

definition count_queued :: "qstore \<Rightarrow> nat" where
  "count_queued s = length (filter (\<lambda>r. q_status r = Queued) (jobs s))"

definition queue_role :: "string \<Rightarrow> string" where
  "queue_role env = (let raw = lower (strip env) in
     if raw = [] then ''all'' else if raw \<notin> {''all'', ''api'', ''worker''} then ''all'' else raw)"

section \<open>Uploads\<close>

text \<open>\<open>Path.suffix\<close>: from the last dot, unless that starts or ends the name.\<close>

definition path_suffix :: "string \<Rightarrow> string" where
  "path_suffix nm = (let ext = rev (takeWhile (\<lambda>c. c \<noteq> CHR ''.'') (rev nm)) in
     if CHR ''.'' \<notin> set nm \<or> ext = [] \<or> length ext + 1 = length nm then [] else CHR ''.'' # ext)"

definition upload_path_for :: "string list \<Rightarrow> string \<Rightarrow> string option" where
  "upload_path_for names jid =
    (let matches = sort (filter (\<lambda>n. starts_with n (jid @ ''.'')) names);
         texts = filter (\<lambda>n. path_suffix n = ''.txt'') matches in
     if list_ex (\<lambda>n. path_suffix n = ''.pdf'') matches \<and> texts \<noteq> [] then Some (hd texts)
     else if matches \<noteq> [] then Some (hd matches) else None)"

section \<open>Claiming\<close>

text \<open>\<open>SELECT ... WHERE status='queued' ORDER BY created_at ASC LIMIT 1\<close>.\<close>

definition waiting :: "qstore \<Rightarrow> qjob list" where
  "waiting s = sort_key q_created (filter (\<lambda>r. q_status r = Queued) (jobs s))"

definition oldest_queued :: "qstore \<Rightarrow> qjob option" where
  "oldest_queued s = (case waiting s of [] \<Rightarrow> None | r # _ \<Rightarrow> Some r)"

definition claim_row :: "string \<Rightarrow> int \<Rightarrow> string \<Rightarrow> qstore \<Rightarrow> qstore \<times> nat" where
  "claim_row w now jid = update_where (\<lambda>r. q_id r = jid \<and> q_status r = Queued)
     (\<lambda>r. r\<lparr>q_status := Processing, q_worker := Some w, q_heartbeat := Some now, q_updated := now\<rparr>)"

text \<open>
  The loop of at most ten attempts. \<open>env\<close> is what other processes do to the store between the
  SELECT and the UPDATE of an attempt.
\<close>

fun claim_loop :: "nat \<Rightarrow> string \<Rightarrow> int \<Rightarrow> (nat \<Rightarrow> qstore \<Rightarrow> qstore) \<Rightarrow> string list \<Rightarrow> qstore \<Rightarrow>
    qstore \<times> (string \<times> string \<times> string) option" where
  "claim_loop 0 w now env names s = (s, None)"
| "claim_loop (Suc n) w now env names s =
    (case oldest_queued s of None \<Rightarrow> (s, None)
     | Some row \<Rightarrow>
        (let jid = q_id row; (s, rowcount) = claim_row w now jid (env n s) in
         if rowcount \<noteq> 1 then claim_loop n w now env names s
         else (case upload_path_for names jid of
             None \<Rightarrow> claim_loop n w now env names
               (emit_progress jid (Done Failed ''uploaded file is missing'') (set_job_status now jid Failed s))
           | Some file_path \<Rightarrow>
               (emit_progress jid (StageLabel ''Processing started'') s, Some (jid, file_path, q_filename row)))))"

definition claim_next_queued :: "string \<Rightarrow> int \<Rightarrow> (nat \<Rightarrow> qstore \<Rightarrow> qstore) \<Rightarrow> string list \<Rightarrow> qstore \<Rightarrow>
    qstore \<times> (string \<times> string \<times> string) option" where
  "claim_next_queued = claim_loop 10"

section \<open>Leases\<close>

definition lease_cutoff :: "qconfig \<Rightarrow> int \<Rightarrow> int" where
  "lease_cutoff c now = now - lease_us c"

definition orphaned :: "qconfig \<Rightarrow> int \<Rightarrow> bool \<Rightarrow> qjob \<Rightarrow> bool" where
  "orphaned c now unconditional r \<longleftrightarrow> q_status r = Processing \<and>
     (unconditional \<or> (case q_heartbeat r of None \<Rightarrow> True | Some h \<Rightarrow> h < lease_cutoff c now))"

definition back_to_queue :: "int \<Rightarrow> qjob \<Rightarrow> qjob" where
  "back_to_queue now r = r\<lparr>q_status := Queued, q_worker := None, q_heartbeat := None, q_updated := now\<rparr>"

definition requeue_orphans :: "qconfig \<Rightarrow> int \<Rightarrow> bool \<Rightarrow> qstore \<Rightarrow> qstore \<times> nat" where
  "requeue_orphans c now unconditional s =
    (let ids = map q_id (filter (orphaned c now unconditional) (jobs s));
         s = fst (update_where (orphaned c now unconditional) (back_to_queue now) s)
     in (fold (\<lambda>jid. emit_progress jid (StageLabel ''Requeued after a restart'')) ids s, length ids))"

definition heartbeat :: "string list \<Rightarrow> string \<Rightarrow> int \<Rightarrow> qstore \<Rightarrow> qstore \<times> nat" where
  "heartbeat ids w now s =
    (if ids = [] then (s, 0)
     else update_where (\<lambda>r. q_status r = Processing \<and> q_worker r = Some w \<and> q_id r \<in> set ids)
       (\<lambda>r. r\<lparr>q_heartbeat := Some now\<rparr>) s)"

text \<open>\<open>INSERT ... ON CONFLICT (worker_id) DO UPDATE SET heartbeat_at\<close>, then the old rows go.\<close>

definition stamp_worker :: "qconfig \<Rightarrow> string \<Rightarrow> string \<Rightarrow> int \<Rightarrow> int \<Rightarrow> int \<Rightarrow> qstore \<Rightarrow> qstore" where
  "stamp_worker c w role mx started now s =
    (let bs = (if list_ex (\<lambda>b. bw_id b = w) (beats s)
               then map (\<lambda>b. if bw_id b = w then b\<lparr>bw_heartbeat := now\<rparr> else b) (beats s)
               else beats s @ [\<lparr>bw_id = w, bw_role = role, bw_max = mx, bw_started = started, bw_heartbeat = now\<rparr>])
     in s\<lparr>beats := filter (\<lambda>b. \<not> bw_heartbeat b < now - worker_row_retention_us c) bs\<rparr>)"

definition forget_worker :: "string \<Rightarrow> qstore \<Rightarrow> qstore" where
  "forget_worker w s = s\<lparr>beats := filter (\<lambda>b. bw_id b \<noteq> w) (beats s)\<rparr>"

section \<open>Finalising\<close>

definition MAX_VALIDATION_ERRORS :: nat where "MAX_VALIDATION_ERRORS = 20"
definition MAX_VALIDATION_ERROR_CHARS :: nat where "MAX_VALIDATION_ERROR_CHARS = 500"

definition stored_validation_errors :: "string list option \<Rightarrow> string list" where
  "stored_validation_errors errors = map (take MAX_VALIDATION_ERROR_CHARS)
     (take MAX_VALIDATION_ERRORS (case errors of None \<Rightarrow> [] | Some es \<Rightarrow> es))"

text \<open>The columns written with a bundle: NULL errors for none, the job's revision as the build's.\<close>

definition validation_errors_column :: "string list option \<Rightarrow> string list option" where
  "validation_errors_column errors = (case errors of None \<Rightarrow> None
     | Some es \<Rightarrow> if es = [] then None else Some (stored_validation_errors errors))"

definition write_build :: "built \<Rightarrow> qjob \<Rightarrow> qjob" where
  "write_build b r = r\<lparr>q_built := Some (b\<lparr>bt_errors := validation_errors_column (bt_errors b),
     bt_revision := q_review_revision r\<rparr>)\<rparr>"

definition finalize_row :: "int \<Rightarrow> jstatus \<Rightarrow> built option \<Rightarrow> qjob \<Rightarrow> qjob" where
  "finalize_row now st bundle r =
    (case bundle of None \<Rightarrow> r | Some b \<Rightarrow> write_build b r)\<lparr>q_status := st, q_updated := now\<rparr>"

definition finalize_job :: "int \<Rightarrow> string \<Rightarrow> jstatus \<Rightarrow> string option \<Rightarrow> built option \<Rightarrow> qstore \<Rightarrow> qstore \<times> bool" where
  "finalize_job now jid st owner bundle s =
    (case owner of
       None \<Rightarrow> (fst (update_where (\<lambda>r. q_id r = jid) (finalize_row now st bundle) s), True)
     | Some w \<Rightarrow> (let (s, rowcount) = update_where (\<lambda>r. q_id r = jid \<and> q_worker r = Some w) (finalize_row now st bundle) s
                  in (s, rowcount > 0)))"

definition current_owner :: "string \<Rightarrow> qstore \<Rightarrow> string option" where
  "current_owner jid s = (case List.find (\<lambda>r. q_id r = jid) (jobs s) of None \<Rightarrow> None | Some r \<Rightarrow> q_worker r)"

section \<open>Submitting\<close>

datatype answer = Started | InLine | Rejected

text \<open>\<open>run_pipeline_async\<close> up to the role test: the job is refused or waits.\<close>

definition submit :: "qconfig \<Rightarrow> int \<Rightarrow> string \<Rightarrow> qstore \<Rightarrow> qstore \<times> answer" where
  "submit c now jid s =
    (if queue_max_depth c > 0 \<and> int (count_queued s) \<ge> queue_max_depth c
     then (let s = set_job_status now jid Failed s; s = s\<lparr>baselines := filter (\<lambda>i. i \<noteq> jid) (baselines s)\<rparr>
           in (emit_progress jid (Done Failed ''Queue is full'') s, Rejected))
     else let s = set_job_status now jid Queued s
          in (emit_progress jid (InQueue (count_queued s)) s, InLine))"

section \<open>The worker loop\<close>

record wloop =
  wl_id :: string
  wl_role :: string
  wl_max :: int
  wl_started :: int
  handles :: "string list"
  stopping :: bool
  last_heartbeat :: "int option"
  stamp_ok :: bool
  last_sweep :: int

text \<open>What starting a subprocess gives: a handle, a process whose exit the watcher reported before
  \<open>start\<close> returned, or an exception.\<close>

datatype spawned = Runs | DiedAtOnce | CannotStart

definition has_slot :: "wloop \<Rightarrow> bool" where
  "has_slot l \<longleftrightarrow> wl_max l \<le> 0 \<or> int (length (handles l)) < wl_max l"

definition add_handle :: "string \<Rightarrow> wloop \<Rightarrow> wloop" where
  "add_handle jid l = (if jid \<in> set (handles l) then l else l\<lparr>handles := handles l @ [jid]\<rparr>)"

definition pop_handle :: "string \<Rightarrow> wloop \<Rightarrow> wloop" where
  "pop_handle jid l = l\<lparr>handles := filter (\<lambda>i. i \<noteq> jid) (handles l)\<rparr>"

definition no_interference :: "nat \<Rightarrow> qstore \<Rightarrow> qstore" where
  "no_interference k s = s"

definition started_job :: "int \<Rightarrow> (string \<Rightarrow> spawned) \<Rightarrow> string \<Rightarrow> wloop \<times> qstore \<Rightarrow> wloop \<times> qstore \<times> nat" where
  "started_job now spawn jid = (\<lambda>(l, s). let l = add_handle jid l in
     (case spawn jid of
        Runs \<Rightarrow> (l, s, 1)
      | DiedAtOnce \<Rightarrow> (pop_handle jid l, s, 1)
      | CannotStart \<Rightarrow> (pop_handle jid l,
          emit_progress jid (Done Failed ''could not start the pipeline process'') (set_job_status now jid Failed s), 0)))"

lemma update_where_count: "length (filter (\<lambda>r. q_status r = Queued) (jobs (fst (update_where P f s)))) \<le>
    length (filter (\<lambda>r. q_status r = Queued) (jobs s))"
  if "\<And>r. q_status (f r) = Queued \<Longrightarrow> q_status r = Queued"
proof -
  have "length (filter (\<lambda>r. q_status r = Queued) (map (\<lambda>r. if P r then f r else r) xs)) \<le>
      length (filter (\<lambda>r. q_status r = Queued) xs)" for xs
    by (induction xs) (use that in auto)
  then show ?thesis by (simp add: update_where_def)
qed

lemma count_set_status: "st \<noteq> Queued \<Longrightarrow> count_queued (set_job_status now jid st s) \<le> count_queued s"
  unfolding count_queued_def set_job_status_def by (rule update_where_count) simp

lemma count_emit [simp]: "count_queued (emit_progress jid p s) = count_queued s"
  by (simp add: count_queued_def emit_progress_def)

lemma count_claim:
  "claim_row w now jid s = (s', n) \<Longrightarrow> count_queued s' + n = count_queued s"
proof -
  assume "claim_row w now jid s = (s', n)"
  moreover have "length (filter (\<lambda>r. q_status r = Queued) (map (\<lambda>r. if q_id r = jid \<and> q_status r = Queued
        then r\<lparr>q_status := Processing, q_worker := Some w, q_heartbeat := Some now, q_updated := now\<rparr> else r) xs)) +
      length (filter (\<lambda>r. q_id r = jid \<and> q_status r = Queued) xs) = length (filter (\<lambda>r. q_status r = Queued) xs)" for xs
    by (induction xs) auto
  ultimately show ?thesis by (auto simp: claim_row_def update_where_def count_queued_def)
qed

lemma count_claim_loop:
  "claim_loop n w now no_interference names s = (s', r) \<Longrightarrow>
   count_queued s' \<le> count_queued s \<and> (r \<noteq> None \<longrightarrow> count_queued s' < count_queued s)"
proof (induction n w now "no_interference :: nat \<Rightarrow> qstore \<Rightarrow> qstore" names s rule: claim_loop.induct)
  case (2 n w now names s)
  obtain row where o: "oldest_queued s = Some row \<or> oldest_queued s = None" by (cases "oldest_queued s") auto
  show ?case
  proof (cases "oldest_queued s")
    case (Some row)
    obtain s1 k where c: "claim_row w now (q_id row) s = (s1, k)" by fastforce
    note cc = count_claim [OF c]
    show ?thesis
    proof (cases "k \<noteq> 1")
      case True
      then have "claim_loop n w now no_interference names s1 = (s', r)"
        using 2(3) Some c by (simp add: no_interference_def)
      from 2(1) [OF Some refl _ refl True this] c cc show ?thesis by (auto simp: no_interference_def)
    next
      case False
      show ?thesis
      proof (cases "upload_path_for names (q_id row)")
        case None
        let ?s2 = "emit_progress (q_id row) (Done Failed ''uploaded file is missing'') (set_job_status now (q_id row) Failed s1)"
        have run: "claim_loop n w now no_interference names ?s2 = (s', r)"
          using 2(3) Some c False None by (simp add: no_interference_def Let_def)
        have "count_queued ?s2 \<le> count_queued s1" by (simp add: count_set_status)
        with 2(2) [OF Some refl _ refl _ None run] c cc False show ?thesis by (auto simp: no_interference_def)
      next
        case (Some p)
        with 2(3) \<open>oldest_queued s = Some row\<close> c cc False show ?thesis by (auto simp: no_interference_def Let_def)
      qed
    qed
  qed (use 2(3) in simp)
qed simp

lemma count_started:
  "started_job now spawn jid (l, s) = (l', s', k) \<Longrightarrow> count_queued s' \<le> count_queued s"
  by (auto simp: started_job_def Let_def count_set_status split: spawned.splits)

lemma kick_decreases:
  assumes "(s1, Some (jid, rest)) = claim_next_queued w now no_interference names s"
    "(l2, s2, k) = started_job now spawn jid (l, s1)"
  shows "count_queued s2 < count_queued s"
proof -
  have "count_queued s1 < count_queued s"
    using count_claim_loop [of 10 w now names s s1 "Some (jid, rest)"] assms(1) by (simp add: claim_next_queued_def)
  moreover have "count_queued s2 \<le> count_queued s1" by (rule count_started [OF assms(2) [symmetric]])
  ultimately show ?thesis by simp
qed

text \<open>\<open>_kick_locked\<close>: each claimed job leaves the queue, so the loop ends.\<close>

function kick :: "int \<Rightarrow> (string \<Rightarrow> spawned) \<Rightarrow> string list \<Rightarrow> wloop \<Rightarrow> qstore \<Rightarrow> wloop \<times> qstore \<times> nat" where
  "kick now spawn names l s =
    (if \<not> has_slot l \<or> stopping l then (l, s, 0)
     else (case claim_next_queued (wl_id l) now no_interference names s of
         (s1, None) \<Rightarrow> (l, s1, 0)
       | (s1, Some (jid, path, filename)) \<Rightarrow>
           (case started_job now spawn jid (l, s1) of
              (l2, s2, k) \<Rightarrow> (case kick now spawn names l2 s2 of (l3, s3, m) \<Rightarrow> (l3, s3, k + m)))))"
  by pat_completeness auto

termination
  by (relation "measure (\<lambda>(now, spawn, names, l, s). count_queued s)") (auto dest: kick_decreases)

text \<open>\<open>_on_exit\<close>: the slot is freed, and filled again unless the loop is stopping.\<close>

definition on_exit :: "int \<Rightarrow> (string \<Rightarrow> spawned) \<Rightarrow> string list \<Rightarrow> string \<Rightarrow> wloop \<Rightarrow> qstore \<Rightarrow> wloop \<times> qstore" where
  "on_exit now spawn names jid l s =
    (let l = pop_handle jid l in
     if stopping l then (l, s) else case kick now spawn names l s of (l, s, _) \<Rightarrow> (l, s))"

text \<open>\<open>heartbeat_if_due\<close>; \<open>db\<close> tells whether the stamp reaches the database. A loop that never
  stamped has the last heartbeat minus infinity.\<close>

definition heartbeat_if_due :: "qconfig \<Rightarrow> bool \<Rightarrow> int \<Rightarrow> int \<Rightarrow> wloop \<Rightarrow> qstore \<Rightarrow> wloop \<times> qstore \<times> bool" where
  "heartbeat_if_due c db tick now l s =
    (if \<not> stamp_ok l \<or> (case last_heartbeat l of None \<Rightarrow> True | Some h \<Rightarrow> tick - h \<ge> heartbeat_us c) then
       (let s = fst (heartbeat (handles l) (wl_id l) now s);
            (l, s) = (if stopping l then (l, s)
              else if db then (l\<lparr>stamp_ok := True\<rparr>, stamp_worker c (wl_id l) (wl_role l) (wl_max l) (wl_started l) now s)
              else (l\<lparr>stamp_ok := False\<rparr>, s));
            l = (if stamp_ok l \<or> stopping l then l\<lparr>last_heartbeat := Some tick\<rparr> else l)
        in (l, s, True))
     else (l, s, False))"

text \<open>\<open>_delete_job\<close>: \<open>env\<close> is what other processes do between the SELECT and the transaction. The
  guarded DELETE of the jobs row decides; when it matches nothing the children come back with it.\<close>

datatype conflict = StillProcessing

definition delete_rows :: "string \<Rightarrow> qstore \<Rightarrow> qstore \<times> nat" where
  "delete_rows jid s =
    (s\<lparr>entity_jobs := filter (\<lambda>i. i \<noteq> jid) (entity_jobs s),
       relationship_jobs := filter (\<lambda>i. i \<noteq> jid) (relationship_jobs s),
       events := filter (\<lambda>e. fst e \<noteq> jid) (events s),
       baselines := filter (\<lambda>i. i \<noteq> jid) (baselines s),
       jobs := filter (\<lambda>r. \<not> (q_id r = jid \<and> q_status r \<noteq> Processing)) (jobs s)\<rparr>,
     length (filter (\<lambda>r. q_id r = jid \<and> q_status r \<noteq> Processing) (jobs s)))"

definition delete_job :: "(qstore \<Rightarrow> qstore) \<Rightarrow> string \<Rightarrow> qstore \<Rightarrow> qstore \<times> (conflict + bool)" where
  "delete_job env jid s =
    (case List.find (\<lambda>r. q_id r = jid) (jobs s) of None \<Rightarrow> (s, Inr False)
     | Some row \<Rightarrow>
        if q_status row = Processing then (s, Inl StillProcessing)
        else let s = env s; (s', rowcount) = delete_rows jid s in
          if rowcount = 0 then (s, if list_ex (\<lambda>r. q_id r = jid) (jobs s) then Inl StillProcessing else Inr False)
          else (s', Inr True))"

text \<open>\<open>sweep_expired_jobs\<close>: the list of expired ids, then one deletion each; an exception of one
  is logged and the next is tried.\<close>

definition expired :: "int \<Rightarrow> int \<Rightarrow> qjob \<Rightarrow> bool" where
  "expired days now r \<longleftrightarrow> q_status r \<notin> {Queued, Processing} \<and> q_updated r < now - days * 86400000000"

fun sweep_ids :: "string list \<Rightarrow> qstore \<Rightarrow> qstore \<times> nat" where
  "sweep_ids [] s = (s, 0)"
| "sweep_ids (jid # ids) s =
    (case delete_job (\<lambda>x. x) jid s of (s, res) \<Rightarrow>
      (case sweep_ids ids s of (s, n) \<Rightarrow> (s, (if res = Inr True then 1 else 0) + n)))"

definition sweep_expired :: "int \<Rightarrow> int \<Rightarrow> qstore \<Rightarrow> qstore \<times> nat" where
  "sweep_expired days now s =
    (if days \<le> 0 then (s, 0) else sweep_ids (map q_id (filter (expired days now) (jobs s))) s)"

text \<open>\<open>sweep_if_due\<close>.\<close>

definition sweep_if_due :: "qconfig \<Rightarrow> int \<Rightarrow> int \<Rightarrow> int \<Rightarrow> wloop \<Rightarrow> qstore \<Rightarrow> wloop \<times> qstore \<times> nat" where
  "sweep_if_due c days tick now l s =
    (if tick - last_sweep l < retention_sweep_us c then (l, s, 0)
     else case sweep_expired days now s of (s, n) \<Rightarrow> (l\<lparr>last_sweep := tick\<rparr>, s, n))"

text \<open>\<open>run_once\<close>: orphans first, then the free slots, the heartbeat and the sweep; the last
  component tells whether the liveness file is touched.\<close>

definition run_once :: "qconfig \<Rightarrow> bool \<Rightarrow> int \<Rightarrow> int \<Rightarrow> int \<Rightarrow> (string \<Rightarrow> spawned) \<Rightarrow> string list \<Rightarrow> wloop \<Rightarrow> qstore \<Rightarrow>
    wloop \<times> qstore \<times> nat \<times> bool" where
  "run_once c db days tick now spawn names l s =
    (let s = fst (requeue_orphans c now False s);
         (l, s, n) = kick now spawn names l s;
         (l, s, _) = heartbeat_if_due c db tick now l s;
         (l, s, _) = sweep_if_due c days tick now l s
     in (l, s, n, stamp_ok l))"

text \<open>\<open>terminate_and_requeue\<close> at the store: only rows this loop still owns go back.\<close>

definition requeue_owned :: "string \<Rightarrow> int \<Rightarrow> string \<Rightarrow> qstore \<Rightarrow> qstore \<times> nat" where
  "requeue_owned w now jid = update_where (\<lambda>r. q_id r = jid \<and> q_status r = Processing \<and> q_worker r = Some w) (back_to_queue now)"

fun terminate_and_requeue :: "int \<Rightarrow> string list \<Rightarrow> wloop \<Rightarrow> qstore \<Rightarrow> wloop \<times> qstore \<times> nat" where
  "terminate_and_requeue now [] l s = (l, s, 0)"
| "terminate_and_requeue now (jid # ids) l s =
    (case requeue_owned (wl_id l) now jid s of (s, rowcount) \<Rightarrow>
       (case terminate_and_requeue now ids (pop_handle jid l) s of (l, s, n) \<Rightarrow>
          (l, s, (if rowcount > 0 then 1 else 0) + n)))"

text \<open>\<open>run_pipeline_async\<close>: in role all the loop of this process is kicked, and the row tells whether it
  started the job.\<close>

definition run_pipeline_async :: "qconfig \<Rightarrow> string \<Rightarrow> int \<Rightarrow> (string \<Rightarrow> spawned) \<Rightarrow> string list \<Rightarrow> string \<Rightarrow> wloop \<Rightarrow> qstore \<Rightarrow>
    wloop \<times> qstore \<times> answer" where
  "run_pipeline_async c env now spawn names jid l s =
    (case submit c now jid s of
       (s, InLine) \<Rightarrow>
         if queue_role env \<noteq> ''all'' then (l, s, InLine)
         else (case kick now spawn names l s of (l, s, _) \<Rightarrow>
           (l, s, case List.find (\<lambda>r. q_id r = jid) (jobs s) of
              Some row \<Rightarrow> if q_status row = Processing then Started else InLine
            | None \<Rightarrow> InLine))
     | (s, a) \<Rightarrow> (l, s, a))"

end
