(* ===== verification/QueueSteps.thy ===== *)
theory QueueSteps
  imports JobQueue
begin

text \<open>
  The job queue under concurrency: any number of worker loops, request threads and pipeline
  subprocesses, interleaved at the granularity of the SQL statements of api/queue_loop.py and
  api/worker.py. A worker between the claim and the start of its subprocess holds a claim; a
  subprocess carries the owner \<open>_spawn_job\<close> read for it. Invariants are by rule induction over
  the reachable states.
\<close>

section \<open>The step relation\<close>

record qsys =
  store :: qstore
  clock :: int
  claims :: "(string \<times> string) list"
  procs :: "(string \<times> string option) list"

definition terminal :: "jstatus set" where
  "terminal = {ForReview, Completed, Failed}"

definition new_job :: "string \<Rightarrow> string \<Rightarrow> int \<Rightarrow> qjob" where
  "new_job jid filename now = \<lparr>q_id = jid, q_filename = filename, q_status = Uploaded, q_worker = None,
     q_heartbeat = None, q_created = now, q_updated = now, q_review_revision = 0, q_built = None\<rparr>"

inductive qstep :: "qconfig \<Rightarrow> qsys \<Rightarrow> qsys \<Rightarrow> bool" for c where
  Tick: "0 \<le> d \<Longrightarrow> qstep c s (s\<lparr>clock := clock s + d\<rparr>)"
| Upload: "jid \<notin> q_id ` set (jobs (store s)) \<Longrightarrow>
    qstep c s (s\<lparr>store := (store s)\<lparr>jobs := jobs (store s) @ [new_job jid filename (clock s)]\<rparr>\<rparr>)"
| Submit: "r \<in> set (jobs (store s)) \<Longrightarrow> q_id r = jid \<Longrightarrow> q_status r = Uploaded \<Longrightarrow>
    qstep c s (s\<lparr>store := fst (submit c (clock s) jid (store s))\<rparr>)"
| Claim: "claim_row w (clock s) jid (store s) = (st, 1) \<Longrightarrow>
    qstep c s (s\<lparr>store := st, claims := (w, jid) # claims s\<rparr>)"
| Lost_race: "claim_row w (clock s) jid (store s) = (st, 0) \<Longrightarrow> qstep c s (s\<lparr>store := st\<rparr>)"
| Give_up: "(w, jid) \<in> set (claims s) \<Longrightarrow>
    qstep c s (s\<lparr>store := set_job_status (clock s) jid Failed (store s), claims := remove1 (w, jid) (claims s)\<rparr>)"
| Spawn: "(w, jid) \<in> set (claims s) \<Longrightarrow>
    qstep c s (s\<lparr>claims := remove1 (w, jid) (claims s), procs := (jid, current_owner jid (store s)) # procs s\<rparr>)"
| Beat: "qstep c s (s\<lparr>store := fst (heartbeat ids w (clock s) (store s))\<rparr>)"
| Orphans: "qstep c s (s\<lparr>store := fst (requeue_orphans c (clock s) False (store s))\<rparr>)"
| Drain: "qstep c s (s\<lparr>store := fst (requeue_owned w (clock s) jid (store s))\<rparr>)"
| Finish: "(jid, owner) \<in> set (procs s) \<Longrightarrow> st \<in> terminal \<Longrightarrow>
    qstep c s (s\<lparr>store := fst (finalize_job (clock s) jid st owner bundle (store s))\<rparr>)"
| Exit: "p \<in> set (procs s) \<Longrightarrow> qstep c s (s\<lparr>procs := remove1 p (procs s)\<rparr>)"

definition start_sys :: "int \<Rightarrow> qsys" where
  "start_sys now = \<lparr>store = \<lparr>jobs = [], events = [], beats = [], baselines = [], entity_jobs = [], relationship_jobs = []\<rparr>, clock = now, claims = [], procs = []\<rparr>"

inductive reachable :: "qconfig \<Rightarrow> qsys \<Rightarrow> bool" for c where
  start: "reachable c (start_sys now)"
| step: "reachable c s \<Longrightarrow> qstep c s s' \<Longrightarrow> reachable c s'"

section \<open>Rows after a statement\<close>

lemma jobs_emit [simp]: "jobs (emit_progress j p s) = jobs s"
  by (simp add: emit_progress_def)

lemma jobs_emit_all [simp]: "jobs (fold (\<lambda>j. emit_progress j (p j)) ids s) = jobs s"
  by (induction ids arbitrary: s) simp_all

lemma jobs_update [simp]: "jobs (fst (update_where P f s)) = map (\<lambda>r. if P r then f r else r) (jobs s)"
  by (simp add: update_where_def)

lemma jobs_set_status: "jobs (set_job_status now jid st s) =
    map (\<lambda>r. if q_id r = jid then r\<lparr>q_status := st, q_updated := now\<rparr> else r) (jobs s)"
  by (simp add: set_job_status_def)

lemma jobs_claim: "claim_row w now jid s = (s', n) \<Longrightarrow> jobs s' =
    map (\<lambda>r. if q_id r = jid \<and> q_status r = Queued
      then r\<lparr>q_status := Processing, q_worker := Some w, q_heartbeat := Some now, q_updated := now\<rparr> else r) (jobs s)"
  by (auto simp: claim_row_def update_where_def)

lemma jobs_orphans: "jobs (fst (requeue_orphans c now u s)) =
    map (\<lambda>r. if orphaned c now u r then back_to_queue now r else r) (jobs s)"
  by (simp add: requeue_orphans_def Let_def)

lemma jobs_heartbeat: "jobs (fst (heartbeat ids w now s)) =
    map (\<lambda>r. if q_status r = Processing \<and> q_worker r = Some w \<and> q_id r \<in> set ids then r\<lparr>q_heartbeat := Some now\<rparr> else r) (jobs s)"
  by (cases "ids = []") (simp_all add: heartbeat_def)

lemma jobs_drain: "jobs (fst (requeue_owned w now jid s)) =
    map (\<lambda>r. if q_id r = jid \<and> q_status r = Processing \<and> q_worker r = Some w then back_to_queue now r else r) (jobs s)"
  by (simp add: requeue_owned_def)

lemma jobs_finalize: "jobs (fst (finalize_job now jid st owner bundle s)) =
    map (\<lambda>r. if q_id r = jid \<and> (owner = None \<or> q_worker r = owner) then finalize_row now st bundle r else r) (jobs s)"
  by (auto simp: finalize_job_def update_where_def Let_def split: option.splits)

lemma jobs_submit: "jobs (fst (submit c now jid s)) =
    map (\<lambda>r. if q_id r = jid then r\<lparr>q_status := (if snd (submit c now jid s) = Rejected then Failed else Queued), q_updated := now\<rparr> else r) (jobs s)"
  by (simp add: submit_def jobs_set_status Let_def)

lemmas jobs_after = jobs_set_status jobs_claim jobs_orphans jobs_heartbeat jobs_drain jobs_finalize jobs_submit

text \<open>Every statement is a map over the rows: the change of one row.\<close>

inductive row_change :: "qconfig \<Rightarrow> qsys \<Rightarrow> string option \<Rightarrow> qjob \<Rightarrow> qjob \<Rightarrow> bool" for c s d where
  Same: "row_change c s d r r"
| Submitted: "q_status r = Uploaded \<Longrightarrow> st \<in> {Queued, Failed} \<Longrightarrow>
    row_change c s d r (r\<lparr>q_status := st, q_updated := clock s\<rparr>)"
| Claimed: "q_status r = Queued \<Longrightarrow>
    row_change c s d r (r\<lparr>q_status := Processing, q_worker := Some w, q_heartbeat := Some (clock s), q_updated := clock s\<rparr>)"
| Given_up: "(w, q_id r) \<in> set (claims s) \<Longrightarrow> row_change c s d r (r\<lparr>q_status := Failed, q_updated := clock s\<rparr>)"
| Beaten: "q_status r = Processing \<Longrightarrow> row_change c s d r (r\<lparr>q_heartbeat := Some (clock s)\<rparr>)"
| Orphaned: "orphaned c (clock s) False r \<Longrightarrow> row_change c s d r (back_to_queue (clock s) r)"
| Drained: "q_status r = Processing \<Longrightarrow> d = Some w \<Longrightarrow> q_worker r = Some w \<Longrightarrow> row_change c s d r (back_to_queue (clock s) r)"
| Finished: "(q_id r, owner) \<in> set (procs s) \<Longrightarrow> owner = None \<or> q_worker r = owner \<Longrightarrow> st \<in> terminal \<Longrightarrow>
    row_change c s d r (finalize_row (clock s) st bundle r)"

inductive_cases row_changeE: "row_change c s d r r'"

lemma finalize_row_fields [simp]:
  "q_id (finalize_row now st b r) = q_id r" "q_status (finalize_row now st b r) = st"
  "q_worker (finalize_row now st b r) = q_worker r" "q_heartbeat (finalize_row now st b r) = q_heartbeat r"
  by (simp_all add: finalize_row_def write_build_def split: option.splits)

lemma row_change_id: "row_change c s d r r' \<Longrightarrow> q_id r' = q_id r"
  by (erule row_changeE) (simp_all add: back_to_queue_def)

lemma map_rows: "(\<And>r. r \<in> set rs \<Longrightarrow> R r (f r)) \<Longrightarrow> list_all2 R rs (map f rs)"
  by (simp add: list_all2_conv_all_nth)

definition sys_ids :: "qsys \<Rightarrow> string list" where
  "sys_ids s = map q_id (jobs (store s))"

lemma unique_row: "distinct (sys_ids s) \<Longrightarrow> r \<in> set (jobs (store s)) \<Longrightarrow> r' \<in> set (jobs (store s)) \<Longrightarrow> q_id r = q_id r' \<Longrightarrow> r = r'"
  by (auto simp: sys_ids_def distinct_map dest: inj_onD)

lemma rows_same: "list_all2 (row_change c s d) (jobs (store s)) (jobs (store s))"
  by (simp add: list_all2_conv_all_nth row_change.Same)

lemma store_update: "store (x\<lparr>store := y\<rparr>) = y" "store (x\<lparr>store := y, claims := z\<rparr>) = y"
  by simp_all

text \<open>What one step does to the table: each row changes in one of the ways above, and at most one
  fresh row is added.\<close>

definition table_change :: "qconfig \<Rightarrow> qsys \<Rightarrow> qsys \<Rightarrow> bool" where
  "table_change c s s' \<longleftrightarrow> (\<exists>d rs new. jobs (store s') = rs @ new \<and>
     list_all2 (row_change c s d) (jobs (store s)) rs \<and>
     (new = [] \<or> (\<exists>jid f. new = [new_job jid f (clock s)] \<and> jid \<notin> set (sys_ids s))) \<and>
     (d = None \<or> (\<exists>w jid. d = Some w \<and> s' = s\<lparr>store := fst (requeue_owned w (clock s) jid (store s))\<rparr>)))"

lemma table_changeI: "list_all2 (row_change c s None) (jobs (store s)) (jobs (store s')) \<Longrightarrow> table_change c s s'"
  unfolding table_change_def
  by (rule exI [of _ None], rule exI [of _ "jobs (store s')"], rule exI [of _ "[]"]) simp

lemma table_change_same: "store s' = store s \<Longrightarrow> table_change c s s'"
  by (rule table_changeI) (simp add: rows_same)

lemma table_changeE:
  assumes "table_change c s s'"
  obtains d rs new where "jobs (store s') = rs @ new" "list_all2 (row_change c s d) (jobs (store s)) rs"
    "new = [] \<or> (\<exists>jid f. new = [new_job jid f (clock s)] \<and> jid \<notin> set (sys_ids s))"
    "d = None \<or> (\<exists>w jid. d = Some w \<and> s' = s\<lparr>store := fst (requeue_owned w (clock s) jid (store s))\<rparr>)"
  using assms unfolding table_change_def by blast

lemma qstep_rows:
  assumes "qstep c s s'" "distinct (sys_ids s)"
  shows "table_change c s s'"
  using assms(1)
proof cases
  case (Upload jid filename)
  have "jobs (store s') = jobs (store s) @ [new_job jid filename (clock s)]" by (simp add: Upload(1))
  moreover have "jid \<notin> set (sys_ids s)" using Upload(2) by (simp add: sys_ids_def)
  ultimately show ?thesis unfolding table_change_def using rows_same [of c s None] by blast
next
  case (Submit r jid)
  have "list_all2 (row_change c s None) (jobs (store s)) (jobs (store s'))"
    unfolding Submit(1) store_update jobs_submit
  proof (rule map_rows)
    fix x assume x: "x \<in> set (jobs (store s))"
    show "row_change c s None x (if q_id x = jid then x\<lparr>q_status := (if snd (submit c (clock s) jid (store s)) = Rejected then Failed else Queued),
        q_updated := clock s\<rparr> else x)"
      using unique_row [OF assms(2) x Submit(2)] Submit(3,4) by (auto intro: row_change.intros)
  qed
  then show ?thesis by (rule table_changeI)
next
  case (Claim w jid st)
  have "list_all2 (row_change c s None) (jobs (store s)) (jobs (store s'))"
    unfolding Claim(1) store_update jobs_claim [OF Claim(2)] by (rule map_rows) (auto intro: row_change.intros)
  then show ?thesis by (rule table_changeI)
next
  case (Lost_race w jid st)
  have "list_all2 (row_change c s None) (jobs (store s)) (jobs (store s'))"
    unfolding Lost_race(1) store_update jobs_claim [OF Lost_race(2)] by (rule map_rows) (auto intro: row_change.intros)
  then show ?thesis by (rule table_changeI)
next
  case (Give_up w jid)
  have "list_all2 (row_change c s None) (jobs (store s)) (jobs (store s'))"
    unfolding Give_up(1) store_update jobs_set_status using Give_up(2) by (intro map_rows) (auto intro: row_change.intros)
  then show ?thesis by (rule table_changeI)
next
  case (Beat ids w)
  have "list_all2 (row_change c s None) (jobs (store s)) (jobs (store s'))"
    unfolding Beat store_update jobs_heartbeat by (intro map_rows) (auto intro: row_change.intros)
  then show ?thesis by (rule table_changeI)
next
  case Orphans
  have "list_all2 (row_change c s None) (jobs (store s)) (jobs (store s'))"
    unfolding Orphans store_update jobs_orphans by (intro map_rows) (auto intro: row_change.intros)
  then show ?thesis by (rule table_changeI)
next
  case (Drain w jid)
  have "list_all2 (row_change c s (Some w)) (jobs (store s)) (jobs (store s'))"
    unfolding Drain store_update jobs_drain by (intro map_rows) (auto intro: row_change.intros)
  then show ?thesis unfolding table_change_def using Drain
    by (intro exI [of _ "Some w"] exI [of _ "jobs (store s')"] exI [of _ "[]"]) auto
next
  case (Finish jid owner st bt)
  have "list_all2 (row_change c s None) (jobs (store s)) (jobs (store s'))"
    unfolding Finish(1) store_update jobs_finalize using Finish(2,3) by (intro map_rows) (auto intro: row_change.intros)
  then show ?thesis by (rule table_changeI)
next
  case (Tick d)
  then show ?thesis by (intro table_change_same) simp
next
  case (Spawn w jid)
  then show ?thesis by (intro table_change_same) simp
next
  case (Exit p)
  then show ?thesis by (intro table_change_same) simp
qed

section \<open>Invariants\<close>

text \<open>A waiting row has no owner and no heartbeat, a running one has both, and no heartbeat is later
  than the clock.\<close>

definition row_ok :: "int \<Rightarrow> qjob \<Rightarrow> bool" where
  "row_ok now r \<longleftrightarrow> (q_status r \<in> {Uploaded, Queued} \<longrightarrow> q_worker r = None \<and> q_heartbeat r = None) \<and>
     (q_status r = Processing \<longrightarrow> q_worker r \<noteq> None \<and> q_heartbeat r \<noteq> None) \<and>
     (case q_heartbeat r of None \<Rightarrow> True | Some h \<Rightarrow> h \<le> now)"

definition sys_ok :: "qsys \<Rightarrow> bool" where
  "sys_ok s \<longleftrightarrow> distinct (sys_ids s) \<and> (\<forall>r \<in> set (jobs (store s)). row_ok (clock s) r)"

lemma row_change_ok: "row_change c s d r r' \<Longrightarrow> row_ok (clock s) r \<Longrightarrow> row_ok (clock s) r'"
  by (erule row_changeE) (auto simp: row_ok_def back_to_queue_def terminal_def)

lemma row_ok_later: "row_ok now r \<Longrightarrow> now \<le> later \<Longrightarrow> row_ok later r"
  by (auto simp: row_ok_def split: option.splits)

lemma new_job_ok: "row_ok now (new_job jid f now)"
  by (simp add: row_ok_def new_job_def)

lemma qstep_clock: "qstep c s s' \<Longrightarrow> clock s \<le> clock s'"
  by (cases rule: qstep.cases) auto

lemma rows_ids: "list_all2 (row_change c s d) rs rs' \<Longrightarrow> map q_id rs' = map q_id rs"
  by (induction rs rs' rule: list_all2_induct) (simp_all add: row_change_id)

lemma qstep_ok:
  assumes "qstep c s s'" "sys_ok s"
  shows "sys_ok s'"
proof -
  from assms(2) have d: "distinct (sys_ids s)" by (simp add: sys_ok_def)
  obtain dr rs new where r: "jobs (store s') = rs @ new" "list_all2 (row_change c s dr) (jobs (store s)) rs"
    "new = [] \<or> (\<exists>jid f. new = [new_job jid f (clock s)] \<and> jid \<notin> set (sys_ids s))"
    using qstep_rows [OF assms(1) d] by (rule table_changeE)
  have ids: "map q_id rs = sys_ids s" using rows_ids [OF r(2)] by (simp add: sys_ids_def)
  have "distinct (sys_ids s')" unfolding sys_ids_def r(1)
    using r(3) d by (auto simp: ids new_job_def)
  moreover have "row_ok (clock s) x" if "x \<in> set rs" for x
  proof -
    from that obtain i where i: "i < length rs" "x = rs ! i" by (auto simp: in_set_conv_nth)
    with r(2) have "row_change c s dr (jobs (store s) ! i) x" "jobs (store s) ! i \<in> set (jobs (store s))"
      by (auto simp: list_all2_conv_all_nth)
    with assms(2) row_change_ok show ?thesis unfolding sys_ok_def by blast
  qed
  moreover have "row_ok (clock s) x" if "x \<in> set new" for x using that r(3) new_job_ok by auto
  ultimately show ?thesis unfolding sys_ok_def r(1) using row_ok_later [OF _ qstep_clock [OF assms(1)]] by auto
qed

lemma reachable_ok: "reachable c s \<Longrightarrow> sys_ok s"
proof (induction rule: reachable.induct)
  case (start now)
  show ?case by (simp add: sys_ok_def sys_ids_def start_sys_def)
next
  case (step s s')
  then show ?case using qstep_ok by blast
qed

text \<open>The row of a job after a step.\<close>

lemma qstep_row:
  assumes "qstep c s s'" "sys_ok s" "r \<in> set (jobs (store s))" "r' \<in> set (jobs (store s'))" "q_id r' = q_id r"
  shows "\<exists>d. row_change c s d r r' \<and>
    (d = None \<or> (\<exists>w jid. d = Some w \<and> s' = s\<lparr>store := fst (requeue_owned w (clock s) jid (store s))\<rparr>))"
proof -
  from assms(2) have dist: "distinct (sys_ids s)" by (simp add: sys_ok_def)
  obtain d rs new where R: "jobs (store s') = rs @ new" "list_all2 (row_change c s d) (jobs (store s)) rs"
    "new = [] \<or> (\<exists>jid f. new = [new_job jid f (clock s)] \<and> jid \<notin> set (sys_ids s))"
    and D: "d = None \<or> (\<exists>w jid. d = Some w \<and> s' = s\<lparr>store := fst (requeue_owned w (clock s) jid (store s))\<rparr>)"
    using qstep_rows [OF assms(1) dist] by (rule table_changeE)
  have "r' \<notin> set new" using R(3) assms(3,5) by (auto simp: sys_ids_def new_job_def)
  then obtain i where i: "i < length rs" "r' = rs ! i" using assms(4) R(1) by (auto simp: in_set_conv_nth)
  then have ch: "row_change c s d (jobs (store s) ! i) r'" "i < length (jobs (store s))"
    using R(2) by (auto simp: list_all2_conv_all_nth)
  then have "jobs (store s) ! i = r"
    using unique_row [OF dist _ assms(3)] assms(5) row_change_id [OF ch(1)] by simp
  with ch(1) D show ?thesis by blast
qed

lemma qstep_row_exists:
  assumes "qstep c s s'" "sys_ok s" "r \<in> set (jobs (store s))"
  shows "\<exists>r' \<in> set (jobs (store s')). q_id r' = q_id r"
proof -
  from assms(2) have dist: "distinct (sys_ids s)" by (simp add: sys_ok_def)
  obtain d rs new where R: "jobs (store s') = rs @ new" "list_all2 (row_change c s d) (jobs (store s)) rs"
    using qstep_rows [OF assms(1) dist] by (rule table_changeE)
  have "q_id r \<in> q_id ` set rs" using rows_ids [OF R(2)] assms(3) by (metis image_eqI set_map)
  with R(1) show ?thesis by auto
qed


text \<open>A finished job is never run again: once a job is for review, completed or failed, no sequence
  of steps of any workers puts it back in the queue or lets one claim it, and a bundle once stored
  stays stored.\<close>

lemma finished_stays:
  assumes "reachable c s" "(qstep c)\<^sup>*\<^sup>* s s'" "r \<in> set (jobs (store s))" "q_status r \<in> terminal"
  shows "\<exists>r' \<in> set (jobs (store s')). q_id r' = q_id r \<and> q_status r' \<in> terminal \<and> q_worker r' = q_worker r \<and>
    (q_built r \<noteq> None \<longrightarrow> q_built r' \<noteq> None)"
  using assms(2)
proof (induction rule: rtranclp_induct)
  case base
  then show ?case using assms(3,4) by auto
next
  case (step s1 s2)
  from step.hyps(1) assms(1) have r1: "reachable c s1" by (induction rule: rtranclp_induct) (auto intro: reachable.step)
  from step.IH obtain x where x: "x \<in> set (jobs (store s1))" "q_id x = q_id r" "q_status x \<in> terminal"
    "q_worker x = q_worker r" "q_built r \<noteq> None \<longrightarrow> q_built x \<noteq> None" by blast
  note ok = reachable_ok [OF r1]
  obtain y where y: "y \<in> set (jobs (store s2))" "q_id y = q_id x" using qstep_row_exists [OF step.hyps(2) ok x(1)] by blast
  obtain d where "row_change c s1 d x y" using qstep_row [OF step.hyps(2) ok x(1) y] by blast
  then have "q_status y \<in> terminal \<and> q_worker y = q_worker x \<and> (q_built x \<noteq> None \<longrightarrow> q_built y \<noteq> None)"
    using x(3) by (cases rule: row_change.cases)
      (auto simp: terminal_def orphaned_def finalize_row_def write_build_def split: option.splits)
  with x y show ?case by auto
qed

section \<open>Concrete runs\<close>

definition demo_config :: qconfig where
  "demo_config = \<lparr>lease_us = 180, worker_row_retention_us = 3600, heartbeat_us = 30, retention_sweep_us = 3600, queue_max_depth = 0\<rparr>"

definition demo_row :: "jstatus \<Rightarrow> string option \<Rightarrow> int option \<Rightarrow> int \<Rightarrow> qjob" where
  "demo_row st w h u = \<lparr>q_id = ''j'', q_filename = ''r.pdf'', q_status = st, q_worker = w, q_heartbeat = h,
     q_created = 0, q_updated = u, q_review_revision = 0, q_built = None\<rparr>"

definition demo_sys :: "int \<Rightarrow> qjob \<Rightarrow> (string \<times> progress) list \<Rightarrow> (string \<times> string) list \<Rightarrow> (string \<times> string option) list \<Rightarrow> qsys" where
  "demo_sys now r es cl ps = \<lparr>store = \<lparr>jobs = [r], events = es, beats = [], baselines = [], entity_jobs = [], relationship_jobs = []\<rparr>, clock = now, claims = cl, procs = ps\<rparr>"

lemma demo_queued: "reachable demo_config (demo_sys 0 (demo_row Queued None None 0) [(''j'', InQueue 1)] [] [])"
proof -
  have "reachable demo_config (demo_sys 0 (demo_row Uploaded None None 0) [] [] [])"
    using reachable.step [OF reachable.start [of demo_config 0] qstep.Upload [of "''j''" "start_sys 0" demo_config "''r.pdf''"]]
    by (simp add: start_sys_def demo_sys_def demo_row_def new_job_def)
  from reachable.step [OF this qstep.Submit [of "demo_row Uploaded None None 0" _ "''j''"]]
  show ?thesis by (simp add: demo_sys_def demo_row_def submit_def demo_config_def set_job_status_def update_where_def
      emit_progress_def count_queued_def)
qed

text \<open>One claim and start by worker \<open>w\<close>, from a queued row.\<close>

lemma demo_run:
  assumes "reachable demo_config (demo_sys now (demo_row Queued None None u) es [] ps)"
  shows "reachable demo_config (demo_sys now (demo_row Processing (Some ''w'') (Some now) now) es [] ((''j'', Some ''w'') # ps))"
proof -
  let ?q = "demo_sys now (demo_row Queued None None u) es [] ps"
  let ?c = "demo_sys now (demo_row Processing (Some ''w'') (Some now) now) es [(''w'', ''j'')] ps"
  have "claim_row ''w'' (clock ?q) ''j'' (store ?q) = (store ?c, 1)"
    by (simp add: demo_sys_def demo_row_def claim_row_def update_where_def)
  from reachable.step [OF assms qstep.Claim [OF this]] have "reachable demo_config ?c"
    by (simp add: demo_sys_def)
  from reachable.step [OF this qstep.Spawn [of "''w''" "''j''"]] show ?thesis
    by (simp add: demo_sys_def demo_row_def current_owner_def)
qed

definition demo_running :: qsys where
  "demo_running = demo_sys 0 (demo_row Processing (Some ''w'') (Some 0) 0) [(''j'', InQueue 1)] [] [(''j'', Some ''w'')]"

lemma demo_running: "reachable demo_config demo_running"
  unfolding demo_running_def by (rule demo_run [OF demo_queued])


lemma finished_stays_witness:
  "\<exists>r' \<in> set (jobs (store (demo_sys 0 (demo_row Failed (Some ''w'') (Some 0) 0) [(''j'', InQueue 1)] [] [(''j'', Some ''w'')]))).
     q_id r' = ''j'' \<and> q_status r' \<in> terminal"
proof -
  let ?f = "demo_sys 0 (demo_row Failed (Some ''w'') (Some 0) 0) [(''j'', InQueue 1)] [] [(''j'', Some ''w'')]"
  have "reachable demo_config ?f"
    using reachable.step [OF demo_running qstep.Finish [of "''j''" "Some ''w''" _ Failed demo_config None]]
    by (simp add: demo_running_def demo_sys_def demo_row_def finalize_job_def update_where_def finalize_row_def terminal_def)
  from finished_stays [OF this rtranclp.rtrancl_refl, of "demo_row Failed (Some ''w'') (Some 0) 0"]
  show ?thesis by (simp add: demo_sys_def demo_row_def terminal_def)
qed


end
