(* ===== verification/QueueLoop.thy ===== *)
theory QueueLoop
  imports JobQueue
begin

text \<open>
  One worker loop by itself (api/queue_loop.py): what a claim returns and changes when no other
  process interferes, and what a kick leaves in the queue.
\<close>

section \<open>A claim\<close>

definition taken :: "string \<Rightarrow> int \<Rightarrow> qjob \<Rightarrow> qjob" where
  "taken w now r = r\<lparr>q_status := Processing, q_worker := Some w, q_heartbeat := Some now, q_updated := now\<rparr>"

definition has_upload :: "string list \<Rightarrow> qjob \<Rightarrow> bool" where
  "has_upload names r \<longleftrightarrow> upload_path_for names (q_id r) \<noteq> None"

text \<open>The reference: walk the waiting jobs in order of creation, skip those without a file.\<close>

definition claim_answer :: "string list \<Rightarrow> qjob list \<Rightarrow> (string \<times> string \<times> string) option" where
  "claim_answer names ws = map_option (\<lambda>r. (q_id r, the (upload_path_for names (q_id r)), q_filename r))
     (List.find (has_upload names) ws)"

definition claim_effect :: "string \<Rightarrow> int \<Rightarrow> string list \<Rightarrow> qjob list \<Rightarrow> qjob \<Rightarrow> qjob" where
  "claim_effect w now names ws r =
    (if r \<in> set (takeWhile (\<lambda>x. \<not> has_upload names x) ws) then (taken w now r)\<lparr>q_status := Failed\<rparr>
     else if List.find (has_upload names) ws = Some r then taken w now r else r)"

lemma waiting_set: "r \<in> set (waiting s) \<longleftrightarrow> r \<in> set (jobs s) \<and> q_status r = Queued"
  by (auto simp: waiting_def)

lemma length_waiting: "length (waiting s) = count_queued s"
  by (simp add: waiting_def count_queued_def)

lemma distinct_waiting: "distinct (map q_id (jobs s)) \<Longrightarrow> distinct (waiting s)"
  by (simp add: waiting_def distinct_map)

lemma row_by_id: "distinct (map q_id rs) \<Longrightarrow> r \<in> set rs \<Longrightarrow> x \<in> set rs \<Longrightarrow> q_id x = q_id r \<Longrightarrow> x = r"
  by (auto simp: distinct_map dest: inj_onD)

lemma filter_one: "distinct (map q_id rs) \<Longrightarrow> r \<in> set rs \<Longrightarrow> length (filter (\<lambda>x. x = r) rs) = 1"
  by (induction rs) (auto simp: filter_empty_conv)

lemma claim_row_one:
  assumes "distinct (map q_id (jobs s))" "r \<in> set (jobs s)" "q_status r = Queued"
  shows "claim_row w now (q_id r) s = (s\<lparr>jobs := map (\<lambda>x. if x = r then taken w now x else x) (jobs s)\<rparr>, 1)"
proof -
  have eq: "(q_id x = q_id r \<and> q_status x = Queued) = (x = r)" if "x \<in> set (jobs s)" for x
    using row_by_id [OF assms(1,2) that] assms(3) by auto
  have "map (\<lambda>x. if q_id x = q_id r \<and> q_status x = Queued then taken w now x else x) (jobs s) =
      map (\<lambda>x. if x = r then taken w now x else x) (jobs s)" using eq by simp
  moreover have "filter (\<lambda>x. q_id x = q_id r \<and> q_status x = Queued) (jobs s) = filter (\<lambda>x. x = r) (jobs s)"
    using eq by (rule filter_cong [OF refl])
  ultimately show ?thesis using filter_one [OF assms(1,2)]
    unfolding claim_row_def update_where_def taken_def [symmetric] by simp
qed

text \<open>A claimed or failed row leaves the waiting list, and nothing else does.\<close>

lemma waiting_without:
  assumes "distinct (map q_id (jobs s))" "waiting s = r # ws" "\<And>x. q_status (f x) \<noteq> Queued"
  shows "waiting (s\<lparr>jobs := map (\<lambda>x. if x = r then f x else x) (jobs s)\<rparr>) = ws"
proof -
  have "filter (\<lambda>x. q_status x = Queued) (map (\<lambda>x. if x = r then f x else x) rs) =
      filter (\<lambda>x. x \<noteq> r) (filter (\<lambda>x. q_status x = Queued) rs)" for rs
    by (induction rs) (use assms(3) in auto)
  then have "waiting (s\<lparr>jobs := map (\<lambda>x. if x = r then f x else x) (jobs s)\<rparr>) = filter (\<lambda>x. x \<noteq> r) (waiting s)"
    by (simp add: waiting_def filter_sort)
  also have "\<dots> = ws"
    using assms(2) distinct_waiting [OF assms(1)] by (auto simp: filter_id_conv)
  finally show ?thesis .
qed

lemma jobs_emit_progress [simp]: "jobs (emit_progress j p s) = jobs s"
  by (simp add: emit_progress_def)

lemma waiting_jobs: "jobs s = jobs s' \<Longrightarrow> waiting s = waiting s'"
  by (simp add: waiting_def)

lemma fail_taken:
  assumes "distinct (map q_id (jobs s))" "r \<in> set (jobs s)"
  shows "set_job_status now (q_id r) Failed (s\<lparr>jobs := map (\<lambda>x. if x = r then taken w now x else x) (jobs s)\<rparr>) =
    s\<lparr>jobs := map (\<lambda>x. if x = r then (taken w now x)\<lparr>q_status := Failed\<rparr> else x) (jobs s)\<rparr>"
proof -
  have "(q_id (if x = r then taken w now x else x) = q_id r) = (x = r)" if "x \<in> set (jobs s)" for x
    using row_by_id [OF assms that] by (auto simp: taken_def)
  then show ?thesis by (simp add: set_job_status_def update_where_def taken_def)
qed

lemma claim_loop_reference:
  assumes "distinct (map q_id (jobs s))"
  shows "snd (claim_loop n w now no_interference names s) = claim_answer names (take n (waiting s)) \<and>
    jobs (fst (claim_loop n w now no_interference names s)) = map (claim_effect w now names (take n (waiting s))) (jobs s)"
  using assms
proof (induction n arbitrary: s)
  case 0
  then show ?case by (simp add: claim_answer_def claim_effect_def)
next
  case (Suc n)
  show ?case
  proof (cases "waiting s")
    case Nil
    then show ?thesis by (simp add: oldest_queued_def claim_answer_def claim_effect_def)
  next
    case (Cons r ws)
    have r: "r \<in> set (jobs s)" "q_status r = Queued" using waiting_set [of r s] Cons by auto
    note cr = claim_row_one [OF Suc.prems r, of w now]
    show ?thesis
    proof (cases "upload_path_for names (q_id r)")
      case (Some p)
      then show ?thesis using Cons cr
        by (auto simp: oldest_queued_def no_interference_def claim_answer_def claim_effect_def has_upload_def Let_def)
    next
      case None
      let ?f = "\<lambda>x. if x = r then (taken w now x)\<lparr>q_status := Failed\<rparr> else x"
      let ?s = "emit_progress (q_id r) (Done Failed ''uploaded file is missing'') (s\<lparr>jobs := map ?f (jobs s)\<rparr>)"
      have step: "claim_loop (Suc n) w now no_interference names s = claim_loop n w now no_interference names ?s"
        using Cons cr None fail_taken [OF Suc.prems r(1), of now w] by (simp add: oldest_queued_def no_interference_def Let_def)
      have ids: "map q_id (jobs ?s) = map q_id (jobs s)" by (simp add: taken_def)
      have ws: "waiting ?s = ws"
        using waiting_without [OF Suc.prems Cons, of "\<lambda>x. (taken w now x)\<lparr>q_status := Failed\<rparr>"]
          waiting_jobs [of ?s "s\<lparr>jobs := map ?f (jobs s)\<rparr>"] by simp
      note IH = Suc.IH [of ?s, unfolded ids ws, OF Suc.prems]
      have dist: "r \<notin> set ws" using distinct_waiting [OF Suc.prems] Cons by simp
      have fr: "(taken w now r)\<lparr>q_status := Failed\<rparr> \<notin> set ws"
        using waiting_set [of "(taken w now r)\<lparr>q_status := Failed\<rparr>" s] Cons by auto
      have found: "List.find (has_upload names) (take n ws) = Some x \<Longrightarrow> x \<in> set ws" for x
        by (auto simp: find_Some_iff dest!: nth_mem in_set_takeD)
      have eff: "claim_effect w now names (take n ws) (?f x) = claim_effect w now names (r # take n ws) x" for x
        using None fr dist found
        by (auto simp: claim_effect_def has_upload_def dest!: set_takeWhileD in_set_takeD)
      have "map (claim_effect w now names (take n ws)) (jobs ?s) = map (claim_effect w now names (r # take n ws)) (jobs s)"
        using eff by simp
      moreover have "claim_answer names (take (Suc n) (waiting s)) = claim_answer names (take n ws)"
        using Cons None by (simp add: claim_answer_def has_upload_def)
      ultimately show ?thesis unfolding step using IH Cons by simp
    qed
  qed
qed

text \<open>With no other process at work, a claim looks at the ten oldest queued jobs in order of creation:
  it fails those whose upload is gone, up to the first that has its file, and takes that one for
  the worker; every other row is untouched, and when none of the ten has a file nothing is taken.\<close>

lemma claim_takes_oldest:
  assumes "distinct (map q_id (jobs s))" "claim_next_queued w now no_interference names s = (s', ret)"
  shows "ret = claim_answer names (take 10 (waiting s)) \<and>
    jobs s' = map (claim_effect w now names (take 10 (waiting s))) (jobs s)"
  using claim_loop_reference [OF assms(1), of 10 w now names] assms(2) by (simp add: claim_next_queued_def)

definition example_job :: "string \<Rightarrow> int \<Rightarrow> qjob" where
  "example_job jid t = \<lparr>q_id = jid, q_filename = ''report.pdf'', q_status = Queued, q_worker = None, q_heartbeat = None,
     q_created = t, q_updated = t, q_review_revision = 0, q_built = None\<rparr>"

definition example_store :: qstore where
  "example_store = \<lparr>jobs = [example_job ''b'' 2, example_job ''a'' 1], events = [], beats = [], baselines = [], entity_jobs = [], relationship_jobs = []\<rparr>"

lemma example_waiting: "waiting example_store = [example_job ''a'' 1, example_job ''b'' 2]"
  by (simp add: waiting_def example_store_def example_job_def)

lemma claim_takes_oldest_witness:
  "snd (claim_next_queued ''w'' 9 no_interference [''b.pdf''] example_store) =
     claim_answer [''b.pdf''] (take 10 (waiting example_store)) \<and>
   claim_answer [''b.pdf''] (take 10 (waiting example_store)) = Some (''b'', ''b.pdf'', ''report.pdf'')"
proof
  have d: "distinct (map q_id (jobs example_store))" by (simp add: example_store_def example_job_def)
  show "snd (claim_next_queued ''w'' 9 no_interference [''b.pdf''] example_store) = claim_answer [''b.pdf''] (take 10 (waiting example_store))"
    using claim_takes_oldest [OF d, of "''w''" 9 "[''b.pdf'']"] by (metis prod.collapse)
  show "claim_answer [''b.pdf''] (take 10 (waiting example_store)) = Some (''b'', ''b.pdf'', ''report.pdf'')"
    unfolding example_waiting
    by (simp add: claim_answer_def has_upload_def upload_path_for_def example_job_def path_suffix_def Let_def)
qed

section \<open>A kick\<close>

text \<open>What a claim or a start may do to the table: no row becomes queued, no row comes or goes.\<close>

definition only_leaves :: "qstore \<Rightarrow> qstore \<Rightarrow> bool" where
  "only_leaves s s' \<longleftrightarrow> map q_id (jobs s') = map q_id (jobs s) \<and>
     (\<forall>r \<in> set (jobs s'). q_status r = Queued \<longrightarrow> r \<in> set (jobs s))"

lemma only_leaves_trans: "only_leaves s s1 \<Longrightarrow> only_leaves s1 s2 \<Longrightarrow> only_leaves s s2"
  by (auto simp: only_leaves_def)

lemma claim_only_leaves:
  assumes "distinct (map q_id (jobs s))" "claim_next_queued w now no_interference names s = (s', ret)"
  shows "only_leaves s s'"
proof -
  have "jobs s' = map (claim_effect w now names (take 10 (waiting s))) (jobs s)"
    using claim_loop_reference [OF assms(1), of 10 w now names] assms(2) by (simp add: claim_next_queued_def)
  then show ?thesis by (auto simp: only_leaves_def claim_effect_def taken_def split: if_splits)
qed

lemma started_only_leaves: "started_job now spawn jid (l, s) = (l', s', k) \<Longrightarrow> only_leaves s s'"
  by (auto simp: started_job_def Let_def only_leaves_def set_job_status_def update_where_def split: spawned.splits if_splits)

lemma started_loop:
  assumes "started_job now spawn jid (l, s) = (l', s', k)"
  shows "stopping l' = stopping l" "wl_max l' = wl_max l" "wl_id l' = wl_id l"
    "length (handles l') \<le> Suc (length (handles l))" "spawn jid = Runs \<Longrightarrow> set (handles l') = insert jid (set (handles l))"
  using assms length_filter_le [of "\<lambda>i. i \<noteq> jid" "handles l"]
  by (auto simp: started_job_def Let_def add_handle_def pop_handle_def split: spawned.splits if_splits intro: le_SucI)

lemma claim_none_empty:
  assumes "distinct (map q_id (jobs s))" "claim_next_queued w now no_interference names s = (s', None)"
    "\<forall>r \<in> set (jobs s). q_status r = Queued \<longrightarrow> has_upload names r"
  shows "waiting s' = []"
proof -
  have "claim_answer names (take 10 (waiting s)) = None"
    and j: "jobs s' = map (claim_effect w now names (take 10 (waiting s))) (jobs s)"
    using claim_loop_reference [OF assms(1), of 10 w now names] assms(2) by (simp_all add: claim_next_queued_def)
  then have "\<not> (\<exists>x. x \<in> set (take 10 (waiting s)) \<and> has_upload names x)"
    by (simp add: claim_answer_def find_None_iff)
  moreover have "has_upload names x" if "x \<in> set (take 10 (waiting s))" for x
    using assms(3) waiting_set [of x s] in_set_takeD [OF that] by auto
  ultimately have w: "waiting s = []" by (cases "waiting s") auto
  have "claim_effect w now names [] = id" by (rule ext) (simp add: claim_effect_def)
  with w j have "jobs s' = jobs s" by simp
  with w show ?thesis using waiting_jobs by metis
qed

text \<open>A kick keeps the concurrency bound, and stops only for a reason: unless the loop is stopping,
  afterwards every slot is taken or no job waits (when the waiting jobs have their uploads).\<close>

lemma kick_fills_slots:
  assumes "kick now spawn names l s = (l', s', n)" "distinct (map q_id (jobs s))"
    and "\<forall>r \<in> set (jobs s). q_status r = Queued \<longrightarrow> has_upload names r"
  shows "(0 < wl_max l \<longrightarrow> int (length (handles l)) \<le> wl_max l \<longrightarrow> int (length (handles l')) \<le> wl_max l) \<and>
    (stopping l \<or> \<not> has_slot l' \<or> count_queued s' = 0)"
  using assms
proof (induction now spawn names l s arbitrary: l' s' n rule: kick.induct)
  case (1 now spawn names l s)
  show ?case
  proof (cases "\<not> has_slot l \<or> stopping l")
    case True
    then show ?thesis using 1(2) by (auto simp: kick.simps [of now spawn names l s])
  next
    case False
    obtain s1 ret where c: "claim_next_queued (wl_id l) now no_interference names s = (s1, ret)" by fastforce
    show ?thesis
    proof (cases ret)
      case None
      then have "l' = l" "s' = s1" using 1(2) False c by (auto simp: kick.simps [of now spawn names l s])
      moreover have "waiting s1 = []" using claim_none_empty [OF 1(3) _ 1(4)] c None by blast
      ultimately show ?thesis using length_waiting [of s1] by simp
    next
      case (Some claimed)
      obtain jid path filename where cl: "claimed = (jid, path, filename)" by (cases claimed) auto
      obtain l2 s2 k where st: "started_job now spawn jid (l, s1) = (l2, s2, k)" by (cases "started_job now spawn jid (l, s1)") auto
      obtain m where rest: "kick now spawn names l2 s2 = (l', s', m)"
        using 1(2) False c Some cl st by (auto simp: kick.simps [of now spawn names l s] split: prod.splits)
      have leaves: "only_leaves s s2"
        using only_leaves_trans [OF claim_only_leaves [OF 1(3) c] started_only_leaves [OF st]] .
      then have d2: "distinct (map q_id (jobs s2))" and up2: "\<forall>r \<in> set (jobs s2). q_status r = Queued \<longrightarrow> has_upload names r"
        using 1(3,4) by (auto simp: only_leaves_def)
      have IH: "(0 < wl_max l2 \<longrightarrow> int (length (handles l2)) \<le> wl_max l2 \<longrightarrow> int (length (handles l')) \<le> wl_max l2) \<and>
          (stopping l2 \<or> \<not> has_slot l' \<or> count_queued s' = 0)"
        using 1(1) [OF False c [symmetric] Some cl [symmetric] refl st [symmetric] refl rest d2 up2] .
      note sl = started_loop(1-4) [OF st]
      have "0 < wl_max l \<Longrightarrow> int (length (handles l2)) \<le> wl_max l" using False sl(4) by (simp add: has_slot_def)
      with IH sl show ?thesis by simp
    qed
  qed
qed

definition example_loop :: wloop where
  "example_loop = \<lparr>wl_id = ''w'', wl_role = ''worker'', wl_max = 1, wl_started = 0, handles = [], stopping = False,
     last_heartbeat = None, stamp_ok = True, last_sweep = 0\<rparr>"

lemma kick_fills_slots_witness:
  "stopping example_loop \<or> \<not> has_slot (fst (kick 9 (\<lambda>_. Runs) [''a.pdf'', ''b.pdf''] example_loop example_store)) \<or>
   count_queued (fst (snd (kick 9 (\<lambda>_. Runs) [''a.pdf'', ''b.pdf''] example_loop example_store))) = 0"
proof -
  let ?k = "kick 9 (\<lambda>_. Runs) [''a.pdf'', ''b.pdf''] example_loop example_store"
  have k: "?k = (fst ?k, fst (snd ?k), snd (snd ?k))" by simp
  have d: "distinct (map q_id (jobs example_store))" by (simp add: example_store_def example_job_def)
  have u: "\<forall>r \<in> set (jobs example_store). q_status r = Queued \<longrightarrow> has_upload [''a.pdf'', ''b.pdf''] r"
    by (simp add: example_store_def example_job_def has_upload_def upload_path_for_def path_suffix_def Let_def)
  from kick_fills_slots [OF k d u] show ?thesis by (rule conjunct2)
qed

section \<open>Draining\<close>

text \<open>Pipelines end in any order (\<open>pick\<close> names the one of the running jobs that ends next), each end
  followed by the loop's own \<open>on_exit\<close>.\<close>

fun ends :: "int \<Rightarrow> (string \<Rightarrow> spawned) \<Rightarrow> string list \<Rightarrow> (string list \<Rightarrow> string) \<Rightarrow> nat \<Rightarrow> wloop \<times> qstore \<Rightarrow> wloop \<times> qstore" where
  "ends now spawn names pick 0 ls = ls"
| "ends now spawn names pick (Suc n) ls =
    (if handles (fst ls) = [] then ls
     else ends now spawn names pick n (on_exit now spawn names (pick (handles (fst ls))) (fst ls) (snd ls)))"

definition uploads_there :: "string list \<Rightarrow> qstore \<Rightarrow> bool" where
  "uploads_there names s \<longleftrightarrow> distinct (map q_id (jobs s)) \<and> (\<forall>r \<in> set (jobs s). q_status r = Queued \<longrightarrow> has_upload names r)"

lemma uploads_only_leaves: "uploads_there names s \<Longrightarrow> only_leaves s s' \<Longrightarrow> uploads_there names s'"
  by (auto simp: uploads_there_def only_leaves_def)

text \<open>A kick keeps what the drain needs and never adds to the queue.\<close>

lemma kick_keeps:
  assumes "kick now spawn names l s = (l', s', n)" "uploads_there names s"
  shows "uploads_there names s' \<and> count_queued s' \<le> count_queued s \<and> stopping l' = stopping l \<and> wl_max l' = wl_max l"
  using assms
proof (induction now spawn names l s arbitrary: l' s' n rule: kick.induct)
  case (1 now spawn names l s)
  show ?case
  proof (cases "\<not> has_slot l \<or> stopping l")
    case True
    then show ?thesis using 1(2,3) by (auto simp: kick.simps [of now spawn names l s])
  next
    case False
    have d: "distinct (map q_id (jobs s))" using 1(3) by (simp add: uploads_there_def)
    obtain s1 ret where c: "claim_next_queued (wl_id l) now no_interference names s = (s1, ret)" by fastforce
    have le: "count_queued s1 \<le> count_queued s"
      using count_claim_loop [of 10 "wl_id l" now names s s1 ret] c by (simp add: claim_next_queued_def)
    show ?thesis
    proof (cases ret)
      case None
      then have "l' = l" "s' = s1" using 1(2) False c by (auto simp: kick.simps [of now spawn names l s])
      with uploads_only_leaves [OF 1(3) claim_only_leaves [OF d c]] le show ?thesis by simp
    next
      case (Some claimed)
      obtain jid path filename where cl: "claimed = (jid, path, filename)" by (cases claimed) auto
      obtain l2 s2 k where st: "started_job now spawn jid (l, s1) = (l2, s2, k)" by (cases "started_job now spawn jid (l, s1)") auto
      obtain m where rest: "kick now spawn names l2 s2 = (l', s', m)"
        using 1(2) False c Some cl st by (auto simp: kick.simps [of now spawn names l s] split: prod.splits)
      have "only_leaves s s2" by (rule only_leaves_trans [OF claim_only_leaves [OF d c] started_only_leaves [OF st]])
      then have u2: "uploads_there names s2" by (rule uploads_only_leaves [OF 1(3)])
      note IH = 1(1) [OF False c [symmetric] Some cl [symmetric] refl st [symmetric] refl rest u2]
      from IH count_started [OF st] le started_loop(1,2) [OF st] show ?thesis by simp
    qed
  qed
qed

lemma kick_progress:
  assumes "kick now spawn names l s = (l', s', n)" "uploads_there names s" "has_slot l" "\<not> stopping l" "0 < count_queued s"
  shows "count_queued s' < count_queued s"
proof -
  have d: "distinct (map q_id (jobs s))" "\<forall>r \<in> set (jobs s). q_status r = Queued \<longrightarrow> has_upload names r"
    using assms(2) by (simp_all add: uploads_there_def)
  obtain s1 ret where c: "claim_next_queued (wl_id l) now no_interference names s = (s1, ret)" by fastforce
  have one: "count_queued s1 < count_queued s"
  proof (cases ret)
    case None
    then have "count_queued s1 = 0" using claim_none_empty [OF d(1) _ d(2)] c length_waiting [of s1] by simp
    with assms(5) show ?thesis by simp
  next
    case (Some claimed)
    then show ?thesis using count_claim_loop [of 10 "wl_id l" now names s s1 ret] c by (simp add: claim_next_queued_def)
  qed
  show ?thesis
  proof (cases ret)
    case None
    with assms(1,3,4) c one show ?thesis by (auto simp: kick.simps [of now spawn names l s])
  next
    case (Some claimed)
    obtain jid path filename where cl: "claimed = (jid, path, filename)" by (cases claimed) auto
    obtain l2 s2 k where st: "started_job now spawn jid (l, s1) = (l2, s2, k)" by (cases "started_job now spawn jid (l, s1)") auto
    obtain m where rest: "kick now spawn names l2 s2 = (l', s', m)"
      using assms(1,3,4) c Some cl st by (auto simp: kick.simps [of now spawn names l s] split: prod.splits)
    have "only_leaves s s2" by (rule only_leaves_trans [OF claim_only_leaves [OF d(1) c] started_only_leaves [OF st]])
    then have u2: "uploads_there names s2" by (rule uploads_only_leaves [OF assms(2)])
    from kick_keeps [OF rest u2] count_started [OF st] one show ?thesis by simp
  qed
qed

definition full_or_empty :: "wloop \<Rightarrow> qstore \<Rightarrow> bool" where
  "full_or_empty l s \<longleftrightarrow> \<not> stopping l \<and> (0 < wl_max l \<longrightarrow> int (length (handles l)) \<le> wl_max l) \<and> (\<not> has_slot l \<or> count_queued s = 0)"

lemma kick_full:
  assumes "kick now spawn names l s = (l', s', n)" "uploads_there names s" "\<not> stopping l"
    "0 < wl_max l \<longrightarrow> int (length (handles l)) \<le> wl_max l"
  shows "full_or_empty l' s'"
  using kick_fills_slots [OF assms(1)] kick_keeps [OF assms(1,2)] assms(2-4) by (auto simp: full_or_empty_def uploads_there_def)

lemma pop_shorter: "jid \<in> set (handles l) \<Longrightarrow> length (handles (pop_handle jid l)) < length (handles l)"
  unfolding pop_handle_def by (simp add: length_filter_less [of jid])

lemma end_progress:
  assumes "full_or_empty l s" "uploads_there names s" "jid \<in> set (handles l)" "on_exit now spawn names jid l s = (l', s')"
  shows "full_or_empty l' s' \<and> uploads_there names s' \<and> count_queued s' \<le> count_queued s - 1"
proof -
  let ?l = "pop_handle jid l"
  have l: "\<not> stopping ?l" "wl_max ?l = wl_max l" using assms(1) by (simp_all add: full_or_empty_def pop_handle_def)
  obtain n where k: "kick now spawn names ?l s = (l', s', n)"
    using assms(4) l(1) by (auto simp: on_exit_def Let_def split: prod.splits)
  have shorter: "length (handles ?l) < length (handles l)" by (rule pop_shorter [OF assms(3)])
  then have b: "0 < wl_max ?l \<longrightarrow> int (length (handles ?l)) \<le> wl_max ?l"
    using assms(1) unfolding l(2) full_or_empty_def by linarith
  have "count_queued s' \<le> count_queued s - 1"
  proof (cases "count_queued s = 0")
    case True
    then show ?thesis using kick_keeps [OF k assms(2)] by simp
  next
    case False
    have "has_slot ?l" using shorter assms(1) by (auto simp: has_slot_def l(2) full_or_empty_def)
    from kick_progress [OF k assms(2) this l(1)] False show ?thesis by simp
  qed
  with kick_full [OF k assms(2) l(1) b] kick_keeps [OF k assms(2)] show ?thesis by simp
qed

text \<open>C21. The queue drains: once a loop that is not stopping has been kicked, however long each pipeline
  takes, in whatever order they end and however many of them die at once or cannot start, after
  at most as many ends as jobs were waiting no job waits any more (when the waiting jobs have
  their uploads and nothing else writes the table).\<close>

lemma queue_drains:
  assumes "uploads_there names s" "\<not> stopping l" "0 < wl_max l \<longrightarrow> int (length (handles l)) \<le> wl_max l"
    "kick now spawn names l s = (l', s', n)" "\<forall>hs. hs \<noteq> [] \<longrightarrow> pick hs \<in> set hs"
  shows "count_queued (snd (ends now spawn names pick (count_queued s) (l', s'))) = 0"
proof -
  have drain: "count_queued (snd (ends now spawn names pick m (l, s))) = 0"
    if "full_or_empty l s" "uploads_there names s" "count_queued s \<le> m" for m l s
    using that
  proof (induction m arbitrary: l s)
    case (Suc m)
    show ?case
    proof (cases "handles l = []")
      case True
      then have "count_queued s = 0" using Suc.prems(1) by (auto simp: full_or_empty_def has_slot_def)
      with True show ?thesis by simp
    next
      case False
      then have j: "pick (handles l) \<in> set (handles l)" using assms(5) by blast
      obtain l1 s1 where e: "on_exit now spawn names (pick (handles l)) l s = (l1, s1)" by fastforce
      note E = end_progress [OF Suc.prems(1,2) j e]
      have "count_queued (snd (ends now spawn names pick m (l1, s1))) = 0"
        by (rule Suc.IH) (use E Suc.prems(3) in auto)
      with False e show ?thesis by simp
    qed
  qed simp
  from kick_keeps [OF assms(4,1)] show ?thesis by (intro drain kick_full [OF assms(4,1-3)]) auto
qed

lemma queue_drains_witness:
  "(case kick 9 (\<lambda>_. Runs) [''a.pdf'', ''b.pdf''] example_loop example_store of (l, s, n) \<Rightarrow>
     count_queued s = 1 \<and> count_queued (snd (ends 9 (\<lambda>_. Runs) [''a.pdf'', ''b.pdf''] hd 2 (l, s))) = 0)"
proof -
  let ?k = "kick 9 (\<lambda>_. Runs) [''a.pdf'', ''b.pdf''] example_loop example_store"
  obtain l s n where k: "?k = (l, s, n)" by (cases ?k) auto
  have one: "count_queued (fst (snd ?k)) = 1" by code_simp
  have "uploads_there [''a.pdf'', ''b.pdf''] example_store" by code_simp
  moreover have "\<not> stopping example_loop" "0 < wl_max example_loop \<longrightarrow> int (length (handles example_loop)) \<le> wl_max example_loop"
    by (simp_all add: example_loop_def)
  moreover have "\<forall>hs. hs \<noteq> [] \<longrightarrow> hd hs \<in> set (hs :: string list)" by simp
  ultimately have "count_queued (snd (ends 9 (\<lambda>_. Runs) [''a.pdf'', ''b.pdf''] hd (count_queued example_store) (l, s))) = 0"
    using k by (intro queue_drains [OF _ _ _ k]) auto
  moreover have "count_queued example_store = 2" by code_simp
  moreover have "count_queued s = 1" using one unfolding k by simp
  ultimately show ?thesis unfolding k by simp
qed

section \<open>The retention sweep\<close>

definition without_jobs :: "string set \<Rightarrow> qstore \<Rightarrow> qstore" where
  "without_jobs ids s = s\<lparr>entity_jobs := filter (\<lambda>i. i \<notin> ids) (entity_jobs s),
     relationship_jobs := filter (\<lambda>i. i \<notin> ids) (relationship_jobs s),
     events := filter (\<lambda>e. fst e \<notin> ids) (events s), baselines := filter (\<lambda>i. i \<notin> ids) (baselines s),
     jobs := filter (\<lambda>r. q_id r \<notin> ids) (jobs s)\<rparr>"

lemma delete_job_gone:
  assumes "distinct (map q_id (jobs s))" "r \<in> set (jobs s)" "q_status r \<noteq> Processing"
  shows "delete_job (\<lambda>x. x) (q_id r) s = (without_jobs {q_id r} s, Inr True)"
proof -
  have eq: "(q_id x = q_id r \<and> q_status x \<noteq> Processing) = (x = r)" if "x \<in> set (jobs s)" for x
    using row_by_id [OF assms(1,2) that] assms(3) by auto
  have eq2: "(q_id x \<noteq> q_id r) = (x \<noteq> r)" if "x \<in> set (jobs s)" for x
    using row_by_id [OF assms(1,2) that] by auto
  have f: "List.find (\<lambda>x. q_id x = q_id r) (jobs s) = Some r"
  proof (cases "List.find (\<lambda>x. q_id x = q_id r) (jobs s)")
    case None
    then show ?thesis using assms(2) by (auto simp: find_None_iff)
  next
    case (Some x)
    then have "x \<in> set (jobs s)" "q_id x = q_id r" by (auto simp: find_Some_iff)
    with row_by_id [OF assms(1,2)] Some show ?thesis by simp
  qed
  have n: "length (filter (\<lambda>x. q_id x = q_id r \<and> q_status x \<noteq> Processing) (jobs s)) = 1"
    using filter_one [OF assms(1,2)] filter_cong [OF refl eq, of "jobs s"] by simp
  have "filter (\<lambda>x. \<not> (q_id x = q_id r \<and> q_status x \<noteq> Processing)) (jobs s) = filter (\<lambda>x. q_id x \<noteq> q_id r) (jobs s)"
    using eq eq2 by (intro filter_cong [OF refl]) simp
  with n have "delete_rows (q_id r) s = (without_jobs {q_id r} s, 1)"
    unfolding delete_rows_def without_jobs_def by (simp only: singleton_iff)
  then show ?thesis using assms(3) by (simp add: delete_job_def f)
qed

lemma without_jobs_twice: "without_jobs A (without_jobs B s) = without_jobs (A \<union> B) s"
  by (simp add: without_jobs_def conj_commute)

lemma sweep_ids_all:
  assumes "distinct (map q_id (jobs s))" "distinct ids"
    and "\<And>i. i \<in> set ids \<Longrightarrow> \<exists>r \<in> set (jobs s). q_id r = i \<and> q_status r \<noteq> Processing"
  shows "sweep_ids ids s = (without_jobs (set ids) s, length ids)"
  using assms
proof (induction ids arbitrary: s)
  case Nil
  then show ?case by (simp add: without_jobs_def)
next
  case (Cons i ids)
  obtain r where r: "r \<in> set (jobs s)" "q_id r = i" "q_status r \<noteq> Processing" using Cons.prems(3) [of i] by auto
  let ?s = "without_jobs {i} s"
  have d: "distinct (map q_id (jobs ?s))" using Cons.prems(1) by (simp add: without_jobs_def distinct_map_filter)
  have "\<exists>r \<in> set (jobs ?s). q_id r = j \<and> q_status r \<noteq> Processing" if "j \<in> set ids" for j
  proof -
    obtain x where "x \<in> set (jobs s)" "q_id x = j" "q_status x \<noteq> Processing" using Cons.prems(3) [of j] \<open>j \<in> set ids\<close> by auto
    moreover have "j \<noteq> i" using Cons.prems(2) that by auto
    ultimately show ?thesis by (auto simp: without_jobs_def)
  qed
  from Cons.IH [OF d _ this] Cons.prems(2) have IH: "sweep_ids ids ?s = (without_jobs (set ids) ?s, length ids)" by simp
  have "delete_job (\<lambda>x. x) i s = (?s, Inr True)" using delete_job_gone [OF Cons.prems(1) r(1,3)] r(2) by simp
  then show ?case by (simp add: IH without_jobs_twice Un_commute)
qed

text \<open>The retention sweep deletes exactly the expired jobs, each with its events, entities,
  relationships and baseline, and reports how many; a queued or running job is never deleted, nor
  is one updated within the window, nor anything when retention is off.\<close>

lemma sweep_exact:
  assumes "distinct (map q_id (jobs s))"
  shows "sweep_expired days now s =
    (if days \<le> 0 then (s, 0)
     else (without_jobs (q_id ` {r \<in> set (jobs s). expired days now r}) s, length (filter (expired days now) (jobs s)))) \<and>
    (\<forall>r \<in> set (jobs s). q_status r \<in> {Queued, Processing} \<or> now - days * 86400000000 \<le> q_updated r \<longrightarrow>
       r \<in> set (jobs (fst (sweep_expired days now s))))"
proof -
  let ?ids = "map q_id (filter (expired days now) (jobs s))"
  have "distinct ?ids" using assms by (rule distinct_map_filter)
  moreover have "\<exists>r \<in> set (jobs s). q_id r = i \<and> q_status r \<noteq> Processing" if "i \<in> set ?ids" for i
    using that by (auto simp: expired_def)
  moreover have "set ?ids = q_id ` {r \<in> set (jobs s). expired days now r}" by simp
  ultimately have eq: "sweep_expired days now s = (if days \<le> 0 then (s, 0)
     else (without_jobs (q_id ` {r \<in> set (jobs s). expired days now r}) s, length (filter (expired days now) (jobs s))))"
    using sweep_ids_all [OF assms, of ?ids] by (simp add: sweep_expired_def)
  have "r \<in> set (jobs (fst (sweep_expired days now s)))"
    if "r \<in> set (jobs s)" "q_status r \<in> {Queued, Processing} \<or> now - days * 86400000000 \<le> q_updated r" for r
  proof -
    have "\<not> expired days now r" using that(2) by (auto simp: expired_def)
    then have "q_id r \<notin> q_id ` {r \<in> set (jobs s). expired days now r}" using row_by_id [OF assms that(1)] by auto
    with that(1) show ?thesis by (simp add: eq without_jobs_def)
  qed
  with eq show ?thesis by blast
qed

lemma sweep_exact_witness:
  "snd (sweep_expired 1 (10 ^ 12) \<lparr>jobs = [(example_job ''a'' 1)\<lparr>q_status := Failed\<rparr>, example_job ''b'' 2], events = [], beats = [],
     baselines = [''a''], entity_jobs = [], relationship_jobs = []\<rparr>) = 1"
proof -
  let ?s = "\<lparr>jobs = [(example_job ''a'' 1)\<lparr>q_status := Failed\<rparr>, example_job ''b'' 2], events = [], beats = [],
     baselines = [''a''], entity_jobs = [], relationship_jobs = []\<rparr>"
  have "distinct (map q_id (jobs ?s))" by (simp add: example_job_def)
  from sweep_exact [OF this, of 1 "10 ^ 12"] show ?thesis by (simp add: expired_def example_job_def)
qed

end
