(* ===== verification/Decisions.thy ===== *)
theory Decisions
  imports Prelude Complex_Main "HOL-Library.Product_Lexorder"
begin

text \<open>
  Who decided a row was right (pipeline/decisions.py): the one statement that writes \<open>accepted\<close> and
  its journal, the auto-accept policy with its control sample, and the audit of that sample.
  The tables are lists of rows; an UPDATE maps over them. A confidence is a float: the finite ones
  are rationals here, and a comparison orders the others as PostgreSQL does (NaN last). The first
  eight bytes of the SHA-256 of a row id, as an integer, are an argument (\<open>digest8\<close>).
\<close>

section \<open>Origins and rows\<close>

definition HUMAN :: string where "HUMAN = ''human''"
definition HUMAN_BULK :: string where "HUMAN_BULK = ''human_bulk''"
definition AUTO_POLICY :: string where "AUTO_POLICY = ''auto_policy''"
definition DEFAULT_ORIGIN :: string where "DEFAULT_ORIGIN = ''default''"
definition LEGACY :: string where "LEGACY = ''legacy''"

definition CLIENT_ORIGINS :: "string set" where "CLIENT_ORIGINS = {HUMAN, HUMAN_BULK}"
definition HUMAN_ORIGINS :: "string list" where "HUMAN_ORIGINS = [HUMAN, HUMAN_BULK]"
definition AUTO_ACCEPT_LEVEL :: rat where "AUTO_ACCEPT_LEVEL = 9 / 10"

lemmas origin_defs = HUMAN_def HUMAN_BULK_def AUTO_POLICY_def DEFAULT_ORIGIN_def LEGACY_def

datatype score = Fin rat | PosInf | NegInf | NotANumber

fun score_ge :: "score \<Rightarrow> rat \<Rightarrow> bool" where
  "score_ge (Fin x) y = (x \<ge> y)"
| "score_ge PosInf y = True"
| "score_ge NegInf y = False"
| "score_ge NotANumber y = True"

record review_row =
  rr_id :: string
  rr_job :: string
  rr_source :: string
  rr_type :: string
  rr_confidence :: "score option"
  rr_accepted :: "bool option"
  rr_held :: "string option"
  rr_origin :: "string option"
  rr_decided_at :: "string option"
  rr_policy :: "string option"
  rr_control :: bool

datatype target_kind = EntityKind | RelationshipKind

record journal_row =
  jr_job :: string
  jr_kind :: target_kind
  jr_id :: string
  jr_previous :: "bool option"
  jr_accepted :: "bool option"
  jr_origin :: string
  jr_actor :: "string option"
  jr_policy :: "string option"
  jr_created_at :: string

record rstore =
  entity_rows :: "review_row list"
  relationship_rows :: "review_row list"
  review_decisions :: "journal_row list"

definition ships :: "review_row \<Rightarrow> bool" where
  "ships r \<longleftrightarrow> rr_accepted r = Some True \<or> (rr_accepted r = None \<and> rr_held r = None)"

definition withheld :: "review_row \<Rightarrow> bool" where
  "withheld r \<longleftrightarrow> rr_accepted r = Some False \<or> (rr_accepted r = None \<and> rr_held r \<noteq> None)"

lemma ships_or_withheld: "ships r \<noteq> withheld r"
  by (cases "rr_accepted r"; cases "rr_held r") (auto simp: ships_def withheld_def)

definition held_from_bulk_accept :: "review_row \<Rightarrow> bool option \<Rightarrow> string \<Rightarrow> bool" where
  "held_from_bulk_accept row accepted origin \<longleftrightarrow>
     accepted = Some True \<and> origin = HUMAN_BULK \<and> rr_held row \<noteq> None \<and> rr_accepted row = None"

section \<open>Recording a decision\<close>

definition table_of :: "target_kind \<Rightarrow> rstore \<Rightarrow> review_row list" where
  "table_of kind s = (case kind of EntityKind \<Rightarrow> entity_rows s | RelationshipKind \<Rightarrow> relationship_rows s)"

definition with_table :: "target_kind \<Rightarrow> review_row list \<Rightarrow> rstore \<Rightarrow> rstore" where
  "with_table kind rows s = (case kind of EntityKind \<Rightarrow> s\<lparr>entity_rows := rows\<rparr> | RelationshipKind \<Rightarrow> s\<lparr>relationship_rows := rows\<rparr>)"

definition decide_row :: "bool option \<Rightarrow> string \<Rightarrow> string \<Rightarrow> string option \<Rightarrow> review_row \<Rightarrow> review_row" where
  "decide_row accepted origin decided_at policy r =
    r\<lparr>rr_accepted := accepted, rr_origin := Some origin, rr_decided_at := Some decided_at, rr_policy := policy\<rparr>"

definition journal_of :: "target_kind \<Rightarrow> bool option \<Rightarrow> string \<Rightarrow> string \<Rightarrow> string option \<Rightarrow> string option \<Rightarrow> review_row \<Rightarrow> journal_row" where
  "journal_of kind accepted origin decided_at policy actor r =
    \<lparr>jr_job = rr_job r, jr_kind = kind, jr_id = rr_id r, jr_previous = rr_accepted r, jr_accepted = accepted,
     jr_origin = origin, jr_actor = actor, jr_policy = policy, jr_created_at = decided_at\<rparr>"

text \<open>\<open>record\<close>: the CTE locks and reads the matching rows, updates them and journals what it read.\<close>

definition record_decision :: "target_kind \<Rightarrow> (review_row \<Rightarrow> bool) \<Rightarrow> bool option \<Rightarrow> string \<Rightarrow> string \<Rightarrow> string option \<Rightarrow>
    string option \<Rightarrow> rstore \<Rightarrow> rstore \<times> nat" where
  "record_decision kind match accepted origin decided_at policy actor s =
    (let old = filter match (table_of kind s);
         s = with_table kind (map (\<lambda>r. if match r then decide_row accepted origin decided_at policy r else r) (table_of kind s)) s
     in (s\<lparr>review_decisions := review_decisions s @ map (journal_of kind accepted origin decided_at policy actor) old\<rparr>, length old))"

section \<open>The auto-accept policy\<close>

definition control_sample_rate :: "rat \<Rightarrow> rat" where
  "control_sample_rate env = min (max env 0) 1"

text \<open>\<open>f"{x:.2f}"\<close> and \<open>round(x, 4)\<close>: to the nearest, a tie to the even neighbour.\<close>

definition round_half_even :: "rat \<Rightarrow> int" where
  "round_half_even x = (let f = \<lfloor>x\<rfloor>; d = x - of_int f in
     if d < 1 / 2 then f else if 1 / 2 < d then f + 1 else if even f then f else f + 1)"

definition round4 :: "rat \<Rightarrow> rat" where
  "round4 x = of_int (round_half_even (x * 10000)) / 10000"

definition fixed2 :: "rat \<Rightarrow> string" where
  "fixed2 x = (let n = nat (round_half_even (x * 100)) in
     show_nat (n div 100) @ ''.'' @ show_nat (n div 10 mod 10) @ show_nat (n mod 10))"

definition policy_version :: "rat \<Rightarrow> rat \<Rightarrow> string" where
  "policy_version level rate = ''auto-accept/1 level='' @ fixed2 level @ '' control='' @ fixed2 rate"

definition in_control_sample :: "(string \<Rightarrow> nat) \<Rightarrow> string \<Rightarrow> rat \<Rightarrow> bool" where
  "in_control_sample digest8 row_id rate \<longleftrightarrow>
    (if rate \<le> 0 then False else if rate \<ge> 1 then True else of_nat (digest8 row_id) / 2 ^ 64 < rate)"

definition auto_eligible :: "string \<Rightarrow> rat \<Rightarrow> review_row \<Rightarrow> bool" where
  "auto_eligible jid level r \<longleftrightarrow> rr_job r = jid \<and> rr_accepted r = None \<and> rr_held r = None \<and> rr_origin r = None \<and>
     \<not> rr_control r \<and> (case rr_confidence r of None \<Rightarrow> False | Some c \<Rightarrow> score_ge c level)"

text \<open>The UPDATE in batches of five hundred ids.\<close>

function mark_control :: "string list \<Rightarrow> review_row list \<Rightarrow> review_row list" where
  "mark_control ids rows =
    (if ids = [] then rows
     else mark_control (drop 500 ids)
       (map (\<lambda>r. if rr_id r \<in> set (take 500 ids) then r\<lparr>rr_control := True\<rparr> else r) rows))"
  by pat_completeness auto
termination by (relation "measure (\<lambda>(ids, rows). length ids)") auto

declare mark_control.simps [simp del]

definition apply_auto_accept :: "(string \<Rightarrow> nat) \<Rightarrow> string \<Rightarrow> string \<Rightarrow> rat \<Rightarrow> rat \<Rightarrow> rstore \<Rightarrow> rstore \<times> nat \<times> nat" where
  "apply_auto_accept digest8 jid decided_at level rate s =
    (let control = filter (\<lambda>i. in_control_sample digest8 i rate) (map rr_id (filter (auto_eligible jid level) (entity_rows s)));
         s = s\<lparr>entity_rows := mark_control control (entity_rows s)\<rparr>;
         (s, accepted) = record_decision EntityKind (auto_eligible jid level) (Some True) AUTO_POLICY decided_at
            (Some (policy_version level rate)) None s
     in (s, accepted, length control))"

section \<open>The audit\<close>

record audit_row =
  au_source :: string
  au_type :: string
  au_sampled :: nat
  au_decided :: nat
  au_confirmed :: nat
  au_precision :: "rat option"

definition audit_group :: "(string \<times> string) \<times> review_row list \<Rightarrow> audit_row" where
  "audit_group = (\<lambda>((source, etype), rows).
     let decided = length (filter (\<lambda>r. rr_origin r = Some HUMAN \<and> rr_accepted r \<noteq> None) rows);
         confirmed = length (filter (\<lambda>r. rr_origin r = Some HUMAN \<and> rr_accepted r = Some True) rows)
     in \<lparr>au_source = source, au_type = etype, au_sampled = length rows, au_decided = decided, au_confirmed = confirmed,
         au_precision = (if decided = 0 then None else Some (round4 (of_nat confirmed / of_nat decided)))\<rparr>)"

definition auto_accept_audit :: "rstore \<Rightarrow> audit_row list" where
  "auto_accept_audit s = map audit_group
     (sort_key fst (group_by (\<lambda>r. (rr_source r, rr_type r)) (filter rr_control (entity_rows s))))"

section \<open>Lemmas\<close>

lemma mark_control_all:
  "mark_control ids rows = map (\<lambda>r. if rr_id r \<in> set ids then r\<lparr>rr_control := True\<rparr> else r) rows"
proof (induction ids rows rule: mark_control.induct)
  case (1 ids rows)
  show ?case
  proof (cases "ids = []")
    case True
    then show ?thesis by (simp add: mark_control.simps)
  next
    case False
    have split: "set ids = set (take 500 ids) \<union> set (drop 500 ids)" by (metis append_take_drop_id set_append)
    have "mark_control ids rows = mark_control (drop 500 ids)
        (map (\<lambda>r. if rr_id r \<in> set (take 500 ids) then r\<lparr>rr_control := True\<rparr> else r) rows)"
      using False by (simp add: mark_control.simps [of ids rows])
    also have "\<dots> = map (\<lambda>r. if rr_id r \<in> set ids then r\<lparr>rr_control := True\<rparr> else r) rows"
      unfolding 1 [OF False] by (auto simp: split)
    finally show ?thesis .
  qed
qed

lemma entity_rows_record: "entity_rows (fst (record_decision EntityKind P a orig now pol actor s)) =
    map (\<lambda>r. if P r then decide_row a orig now pol r else r) (entity_rows s)"
  by (simp add: record_decision_def table_of_def with_table_def Let_def)

text \<open>What the policy does to one row.\<close>

definition auto_row :: "(string \<Rightarrow> nat) \<Rightarrow> string \<Rightarrow> string \<Rightarrow> rat \<Rightarrow> rat \<Rightarrow> review_row \<Rightarrow> review_row" where
  "auto_row digest8 jid now level rate r =
    (if \<not> auto_eligible jid level r then r
     else if in_control_sample digest8 (rr_id r) rate then r\<lparr>rr_control := True\<rparr>
     else decide_row (Some True) AUTO_POLICY now (Some (policy_version level rate)) r)"

lemma same_id: "distinct (map rr_id rows) \<Longrightarrow> x \<in> set rows \<Longrightarrow> y \<in> set rows \<Longrightarrow> rr_id x = rr_id y \<Longrightarrow> x = y"
  by (auto simp: distinct_map dest: inj_onD)

lemma auto_accept_rows:
  assumes "distinct (map rr_id (entity_rows s))" "apply_auto_accept digest8 jid now level rate s = (s', a, k)"
  shows "entity_rows s' = map (auto_row digest8 jid now level rate) (entity_rows s)"
    "k = length (filter (\<lambda>r. auto_eligible jid level r \<and> in_control_sample digest8 (rr_id r) rate) (entity_rows s))"
    "a = length (filter (\<lambda>r. auto_eligible jid level r \<and> \<not> in_control_sample digest8 (rr_id r) rate) (entity_rows s))"
    "relationship_rows s' = relationship_rows s"
    "review_decisions s' = review_decisions s @ map (journal_of EntityKind (Some True) AUTO_POLICY now (Some (policy_version level rate)) None)
       (filter (\<lambda>r. auto_eligible jid level r \<and> \<not> in_control_sample digest8 (rr_id r) rate) (entity_rows s))"
proof -
  let ?rows = "entity_rows s"
  let ?E = "auto_eligible jid level" and ?C = "\<lambda>r. in_control_sample digest8 (rr_id r) rate"
  define ids where "ids = filter (\<lambda>i. in_control_sample digest8 i rate) (map rr_id (filter ?E ?rows))"
  let ?m = "\<lambda>r. if rr_id r \<in> set ids then r\<lparr>rr_control := True\<rparr> else r"
  have mem: "(rr_id r \<in> set ids) = (?E r \<and> ?C r)" if "r \<in> set ?rows" for r
    using same_id [OF assms(1) that] that by (auto simp: ids_def)
  have el: "?E (?m r) = (?E r \<and> \<not> ?C r)" if "r \<in> set ?rows" for r
    using mem [OF that] by (auto simp: auto_eligible_def)
  have res: "(s', a, k) = (let (t, a) = record_decision EntityKind ?E (Some True) AUTO_POLICY now
      (Some (policy_version level rate)) None (s\<lparr>entity_rows := map ?m ?rows\<rparr>) in (t, a, length ids))"
    using assms(2) unfolding apply_auto_accept_def Let_def mark_control_all ids_def by simp
  have fil: "filter ?E (map ?m ?rows) = filter (\<lambda>r. ?E r \<and> \<not> ?C r) ?rows"
  proof -
    have "filter ?E (map ?m ?rows) = map ?m (filter (\<lambda>r. ?E (?m r)) ?rows)" by (simp add: filter_map o_def)
    also have "\<dots> = map ?m (filter (\<lambda>r. ?E r \<and> \<not> ?C r) ?rows)" using el by (simp cong: filter_cong)
    also have "\<dots> = filter (\<lambda>r. ?E r \<and> \<not> ?C r) ?rows" using mem by (intro map_idI) auto
    finally show ?thesis .
  qed
  have "entity_rows s' = map (\<lambda>r. if ?E r then decide_row (Some True) AUTO_POLICY now (Some (policy_version level rate)) r else r) (map ?m ?rows)"
    using res by (auto simp: record_decision_def table_of_def with_table_def Let_def)
  also have "\<dots> = map (auto_row digest8 jid now level rate) ?rows"
    using el mem by (auto simp: auto_row_def)
  finally show "entity_rows s' = map (auto_row digest8 jid now level rate) ?rows" .
  show "relationship_rows s' = relationship_rows s"
    using res by (auto simp: record_decision_def table_of_def with_table_def Let_def)
  show "a = length (filter (\<lambda>r. ?E r \<and> \<not> ?C r) ?rows)"
    using res fil by (auto simp: record_decision_def table_of_def with_table_def Let_def)
  show "k = length (filter (\<lambda>r. ?E r \<and> ?C r) ?rows)"
    using res by (simp add: split_def ids_def filter_map o_def conj_commute)
  show "review_decisions s' = review_decisions s @ map (journal_of EntityKind (Some True) AUTO_POLICY now (Some (policy_version level rate)) None)
       (filter (\<lambda>r. ?E r \<and> \<not> ?C r) ?rows)"
    using res fil by (auto simp: record_decision_def table_of_def with_table_def Let_def)
qed

section \<open>The journal\<close>

text \<open>The entries of one row, in order, and what it means that they tell its story.\<close>

definition entries_of :: "rstore \<Rightarrow> target_kind \<Rightarrow> string \<Rightarrow> journal_row list" where
  "entries_of s kind i = filter (\<lambda>j. jr_kind j = kind \<and> jr_id j = i) (review_decisions s)"

fun chained :: "bool option \<Rightarrow> journal_row list \<Rightarrow> bool" where
  "chained v [] = True"
| "chained v (j # js) = (jr_previous j = v \<and> chained (jr_accepted j) js)"

definition told :: "journal_row list \<Rightarrow> review_row \<Rightarrow> bool" where
  "told js r \<longleftrightarrow> (js \<noteq> [] \<longrightarrow> chained (jr_previous (hd js)) js \<and> jr_accepted (last js) = rr_accepted r \<and>
     Some (jr_origin (last js)) = rr_origin r \<and> Some (jr_created_at (last js)) = rr_decided_at r)"

definition journal_agrees :: "rstore \<Rightarrow> bool" where
  "journal_agrees s \<longleftrightarrow> (\<forall>kind. \<forall>r \<in> set (table_of kind s). told (entries_of s kind (rr_id r)) r)"

lemma chained_append: "chained v (js @ [j]) \<longleftrightarrow> chained v js \<and> jr_previous j = (if js = [] then v else jr_accepted (last js))"
  by (induction js arbitrary: v) auto

lemma told_append:
  assumes "told js r" "jr_previous j = rr_accepted r" "jr_accepted j = rr_accepted r'"
    "Some (jr_origin j) = rr_origin r'" "Some (jr_created_at j) = rr_decided_at r'"
  shows "told (js @ [j]) r'"
proof (cases "js = []")
  case True
  then show ?thesis using assms(2-5) by (simp add: told_def)
next
  case False
  then show ?thesis using assms by (simp add: told_def chained_append)
qed

lemma filter_id_one:
  assumes "distinct (map rr_id rows)" "r \<in> set rows"
  shows "filter (\<lambda>x. P x \<and> rr_id x = rr_id r) rows = (if P r then [r] else [])"
proof -
  have "filter (\<lambda>x. P x \<and> rr_id x = rr_id r) rows = filter (\<lambda>x. x = r \<and> P r) rows"
    using same_id [OF assms(1) _ assms(2)] assms(2) by (intro filter_cong [OF refl]) auto
  moreover have "distinct rows" using assms(1) by (simp add: distinct_map)
  then have "filter (\<lambda>x. x = r) rows = [r]"
    using assms(2) by (intro distinct_singleton_list) auto
  ultimately show ?thesis by simp
qed

text \<open>Every decision is journalled and the journal never disagrees with the rows: when the entries of
  each row form a chain (each entry's previous verdict is the verdict before it) that ends in the
  row's verdict, origin and time, so they do after any call of record, which also reports the
  number of rows it decided and leaves the other table alone.\<close>

lemma record_keeps_journal:
  assumes "journal_agrees s" "distinct (map rr_id (table_of kind s))"
    "record_decision kind match accepted origin now policy actor s = (s', n)"
  shows "journal_agrees s' \<and> n = length (filter match (table_of kind s)) \<and>
    (\<forall>kind'. kind' \<noteq> kind \<longrightarrow> table_of kind' s' = table_of kind' s)"
proof -
  let ?d = "\<lambda>r. if match r then decide_row accepted origin now policy r else r"
  let ?j = "journal_of kind accepted origin now policy actor"
  have rows: "table_of kind s' = map ?d (table_of kind s)"
    and other: "\<And>k. k \<noteq> kind \<Longrightarrow> table_of k s' = table_of k s"
    and jr: "review_decisions s' = review_decisions s @ map ?j (filter match (table_of kind s))"
    and n: "n = length (filter match (table_of kind s))"
    using assms(3) by (auto simp: record_decision_def table_of_def with_table_def Let_def split: target_kind.splits)
  have old: "told (entries_of s k (rr_id r)) r" if "r \<in> set (table_of k s)" for k r
    using assms(1) that by (auto simp: journal_agrees_def)
  have "journal_agrees s'" unfolding journal_agrees_def
  proof (intro allI ballI)
    fix k r' assume r': "r' \<in> set (table_of k s')"
    show "told (entries_of s' k (rr_id r')) r'"
    proof (cases "k = kind")
      case False
      then have "entries_of s' k (rr_id r') = entries_of s k (rr_id r')"
        by (auto simp: entries_of_def jr journal_of_def filter_empty_conv)
      with old r' other [OF False] show ?thesis by simp
    next
      case True
      with r' rows obtain r where r: "r \<in> set (table_of kind s)" "r' = ?d r" by auto
      have id: "rr_id r' = rr_id r" using r(2) by (simp add: decide_row_def)
      have "entries_of s' k (rr_id r') = entries_of s k (rr_id r) @ map ?j (filter (\<lambda>x. match x \<and> rr_id x = rr_id r) (table_of kind s))"
        unfolding entries_of_def jr id True by (simp add: filter_map o_def journal_of_def conj_commute)
      also have "\<dots> = entries_of s k (rr_id r) @ (if match r then [?j r] else [])"
        by (simp add: filter_id_one [OF assms(2) r(1)])
      finally have e: "entries_of s' k (rr_id r') = entries_of s k (rr_id r) @ (if match r then [?j r] else [])" .
      show ?thesis
      proof (cases "match r")
        case True
        then show ?thesis unfolding e
          using told_append [OF old [OF r(1)], of "?j r" r'] r(2) \<open>k = kind\<close> by (simp add: journal_of_def decide_row_def)
      next
        case False
        then show ?thesis using old [OF r(1)] e r(2) \<open>k = kind\<close> by simp
      qed
    qed
  qed
  with n other show ?thesis by blast
qed

definition example_row :: "string \<Rightarrow> score \<Rightarrow> review_row" where
  "example_row i c = \<lparr>rr_id = i, rr_job = ''j'', rr_source = ''gliner'', rr_type = ''malware'', rr_confidence = Some c,
     rr_accepted = None, rr_held = None, rr_origin = None, rr_decided_at = None, rr_policy = None, rr_control = False\<rparr>"

definition example_rstore :: rstore where
  "example_rstore = \<lparr>entity_rows = [example_row ''a'' (Fin (19 / 20)), example_row ''b'' (Fin (1 / 2))],
     relationship_rows = [], review_decisions = []\<rparr>"

lemma record_keeps_journal_witness:
  "journal_agrees (fst (record_decision EntityKind (\<lambda>r. rr_id r = ''b'') (Some False) HUMAN ''now'' None None example_rstore)) \<and>
   snd (record_decision EntityKind (\<lambda>r. rr_id r = ''b'') (Some False) HUMAN ''now'' None None example_rstore) = 1"
proof -
  let ?r = "record_decision EntityKind (\<lambda>r. rr_id r = ''b'') (Some False) HUMAN ''now'' None None example_rstore"
  have a: "journal_agrees example_rstore" by (simp add: journal_agrees_def entries_of_def told_def example_rstore_def)
  have d: "distinct (map rr_id (table_of EntityKind example_rstore))"
    by (simp add: table_of_def example_rstore_def example_row_def)
  have e: "?r = (fst ?r, snd ?r)" by simp
  show ?thesis using record_keeps_journal [OF a d e]
    by (simp add: table_of_def example_rstore_def example_row_def)
qed

section \<open>Auto-accept\<close>

lemma auto_row_settles: "\<not> auto_eligible jid level (auto_row digest8 jid now level rate r)"
  by (auto simp: auto_row_def auto_eligible_def decide_row_def)

text \<open>Auto-accept decides exactly the job's rows nobody has decided, held or sampled and whose
  confidence reaches the level: each is drawn into the control sample and stays pending, or is
  accepted by the policy and journalled; no other row changes, and a second run changes nothing.\<close>

lemma auto_accept_exact:
  assumes "distinct (map rr_id (entity_rows s))" "apply_auto_accept digest8 jid now level rate s = (s', a, k)"
  shows "entity_rows s' = map (auto_row digest8 jid now level rate) (entity_rows s) \<and>
    a + k = length (filter (auto_eligible jid level) (entity_rows s)) \<and>
    length (review_decisions s') = length (review_decisions s) + a \<and>
    apply_auto_accept digest8 jid later level rate s' = (s', 0, 0)"
proof -
  note A = auto_accept_rows [OF assms]
  let ?E = "auto_eligible jid level" and ?C = "\<lambda>r. in_control_sample digest8 (rr_id r) rate"
  have "length (filter ?E rows) = length (filter (\<lambda>r. ?E r \<and> \<not> ?C r) rows) + length (filter (\<lambda>r. ?E r \<and> ?C r) rows)" for rows
    by (induction rows) auto
  then have sum: "a + k = length (filter ?E (entity_rows s))" using A(2,3) by simp
  have none: "filter ?E (entity_rows s') = []" unfolding A(1) using auto_row_settles by (auto simp: filter_empty_conv)
  then have "map (\<lambda>r. if ?E r then decide_row (Some True) AUTO_POLICY later (Some (policy_version level rate)) r else r) (entity_rows s') = entity_rows s'"
    by (intro map_idI) (auto simp: filter_empty_conv)
  with none have again: "apply_auto_accept digest8 jid later level rate s' = (s', 0, 0)"
    by (simp add: apply_auto_accept_def record_decision_def table_of_def with_table_def Let_def mark_control.simps [of "[]"])
  show ?thesis using A sum again by simp
qed

lemma auto_accept_exact_witness:
  "apply_auto_accept (\<lambda>_. 0) ''j'' ''later'' AUTO_ACCEPT_LEVEL 0 (fst (apply_auto_accept (\<lambda>_. 0) ''j'' ''now'' AUTO_ACCEPT_LEVEL 0 example_rstore)) =
     (fst (apply_auto_accept (\<lambda>_. 0) ''j'' ''now'' AUTO_ACCEPT_LEVEL 0 example_rstore), 0, 0)"
proof -
  let ?r = "apply_auto_accept (\<lambda>_. 0) ''j'' ''now'' AUTO_ACCEPT_LEVEL 0 example_rstore"
  have "?r = (fst ?r, fst (snd ?r), snd (snd ?r))" by simp
  moreover have "distinct (map rr_id (entity_rows example_rstore))" by (simp add: example_rstore_def example_row_def)
  ultimately show ?thesis using auto_accept_exact by metis
qed

end
