(* ===== verification/Calibration.thy ===== *)
theory Calibration
  imports Decisions Schemas
begin

text \<open>
  Calibrated cutoffs (pipeline/calibration.py) and where they are read back (pipeline/thresholds.py):
  the pool-adjacent-violators fit over analyst decisions, the proposal of a cutoff with its guards,
  and the table of overrides. Scores, rates and targets are rationals: the comparisons the code
  makes are exact on the floats it holds, and a quotient of two counts is compared with a decimal
  target as the rationals are.
\<close>

section \<open>The isotonic fit\<close>

type_synonym points = "(rat \<times> bool) list"

record block =
  b_lo :: rat
  b_hi :: rat
  b_n :: nat
  b_acc :: nat

definition block_rate :: "block \<Rightarrow> rat" where
  "block_rate b = of_nat (b_acc b) / of_nat (b_n b)"

text \<open>\<open>tied\<close>: score to [n, accepted].\<close>

definition tally :: "points \<Rightarrow> (rat, nat \<times> nat) dict" where
  "tally pts = fold (\<lambda>(s, ok) d. dset s (case dget d s (0, 0) of (n, a) \<Rightarrow> (n + 1, a + (if ok then 1 else 0))) d) pts []"

text \<open>The blocks so far are held last first, so that the two the loop compares are in front.\<close>

fun pool :: "block list \<Rightarrow> block list" where
  "pool (l # p # bs) =
    (if b_acc p * b_n l \<le> b_acc l * b_n p then l # p # bs
     else pool (\<lparr>b_lo = b_lo p, b_hi = b_hi l, b_n = b_n p + b_n l, b_acc = b_acc p + b_acc l\<rparr> # bs))"
| "pool bs = bs"

definition push :: "rat \<times> nat \<times> nat \<Rightarrow> block list \<Rightarrow> block list" where
  "push t bs = (case t of (s, n, a) \<Rightarrow> pool (\<lparr>b_lo = s, b_hi = s, b_n = n, b_acc = a\<rparr> # bs))"

definition ties :: "points \<Rightarrow> (rat \<times> nat \<times> nat) list" where
  "ties pts = (let tied = tally pts in map (\<lambda>s. (s, dget tied s (0, 0))) (sort (map fst tied)))"

definition isotonic_blocks :: "points \<Rightarrow> block list" where
  "isotonic_blocks pts = rev (fold push (ties pts) [])"

definition calibrated_rate :: "block list \<Rightarrow> rat \<Rightarrow> rat option" where
  "calibrated_rate bs score =
    (if bs = [] then None
     else case List.find (\<lambda>b. score \<le> b_hi b) bs of
       Some b \<Rightarrow> Some (block_rate b) | None \<Rightarrow> Some (block_rate (last bs)))"

section \<open>The proposal\<close>

definition DEFAULT_TARGET_PRECISION :: rat where "DEFAULT_TARGET_PRECISION = 9 / 10"
definition DEFAULT_MIN_SAMPLES :: nat where "DEFAULT_MIN_SAMPLES = 200"
definition DEFAULT_MIN_BLOCK_SAMPLES :: nat where "DEFAULT_MIN_BLOCK_SAMPLES = 20"
definition CALIBRATED_SOURCES :: "string list" where "CALIBRATED_SOURCES = [''cyner'', ''gliner'']"

datatype calib_status = InsufficientSamples | TargetUnreachable | AboveAutoAccept | Unchanged | Proposed

record proposal =
  p_source :: string
  p_type :: string
  p_current :: rat
  p_target :: rat
  p_sample_size :: nat
  p_accepted :: nat
  p_rejected :: nat
  p_min_score :: "rat option"
  p_max_score :: "rat option"
  p_status :: calib_status
  p_proposed :: "rat option"
  p_unclamped :: "rat option"
  p_precision_at_current :: "rat option"
  p_recall_at_current :: "rat option"
  p_precision_at_proposed :: "rat option"
  p_recall_at_proposed :: "rat option"
  p_curve :: "(rat \<times> rat \<times> nat \<times> rat) list"

definition accepted_count :: "points \<Rightarrow> nat" where
  "accepted_count pts = length (filter snd pts)"

definition precision_recall :: "points \<Rightarrow> rat \<Rightarrow> rat option \<times> rat option" where
  "precision_recall pts cutoff =
    (let kept = filter (\<lambda>p. fst p \<ge> cutoff) pts; total_ok = accepted_count pts in
     if kept = [] then (None, if total_ok \<noteq> 0 then Some 0 else None)
     else let kept_ok = accepted_count kept in
       (Some (of_nat kept_ok / of_nat (length kept)), if total_ok \<noteq> 0 then Some (of_nat kept_ok / of_nat total_ok) else None))"

definition new_proposal :: "string \<Rightarrow> string \<Rightarrow> rat \<Rightarrow> rat \<Rightarrow> points \<Rightarrow> proposal" where
  "new_proposal source etype current target pts =
    \<lparr>p_source = source, p_type = etype, p_current = current, p_target = target, p_sample_size = length pts,
     p_accepted = accepted_count pts, p_rejected = length pts - accepted_count pts, p_min_score = None, p_max_score = None,
     p_status = InsufficientSamples, p_proposed = None, p_unclamped = None, p_precision_at_current = None,
     p_recall_at_current = None, p_precision_at_proposed = None, p_recall_at_proposed = None, p_curve = []\<rparr>"

definition propose :: "string \<Rightarrow> string \<Rightarrow> rat \<Rightarrow> points \<Rightarrow> rat \<Rightarrow> nat \<Rightarrow> nat \<Rightarrow> rat \<Rightarrow> proposal" where
  "propose source etype current pts target min_samples min_block level =
    (let p = new_proposal source etype current target pts in
     if pts = [] then p
     else
       let scores = map fst pts;
           p = p\<lparr>p_min_score := Some (Min (set scores)), p_max_score := Some (Max (set scores))\<rparr>;
           p = p\<lparr>p_precision_at_current := fst (precision_recall pts current), p_recall_at_current := snd (precision_recall pts current)\<rparr>;
           bs = isotonic_blocks pts;
           p = p\<lparr>p_curve := map (\<lambda>b. (b_lo b, b_hi b, b_n b, round4 (block_rate b))) bs\<rparr>
       in if length pts < min_samples then p\<lparr>p_status := InsufficientSamples\<rparr>
       else case List.find (\<lambda>b. block_rate b \<ge> target) bs of
         None \<Rightarrow> p\<lparr>p_status := TargetUnreachable\<rparr>
       | Some first_ok \<Rightarrow>
           if b_lo first_ok \<ge> level then p\<lparr>p_unclamped := Some (b_lo first_ok), p_status := AboveAutoAccept\<rparr>
           else if length (filter (\<lambda>q. b_lo first_ok \<le> fst q \<and> fst q < level) pts) < min_block
           then p\<lparr>p_status := TargetUnreachable\<rparr>
           else p\<lparr>p_unclamped := Some (b_lo first_ok), p_proposed := Some (b_lo first_ok),
                  p_precision_at_proposed := fst (precision_recall pts (b_lo first_ok)),
                  p_recall_at_proposed := snd (precision_recall pts (b_lo first_ok)),
                  p_status := (if \<bar>b_lo first_ok - current\<bar> < 1 / 10 ^ 9 then Unchanged else Proposed)\<rparr>)"

section \<open>Database side\<close>

record override_row =
  ov_source :: string
  ov_type :: string
  ov_threshold :: rat
  ov_sample_size :: nat
  ov_target :: "rat option"
  ov_precision :: "rat option"
  ov_recall :: "rat option"
  ov_origin :: string
  ov_updated :: string

datatype calib_error = NoCalibratedStage string

text \<open>\<open>gliner\<close> is \<open>_GLINER_THRESHOLD\<close>, read from the environment.\<close>

definition stage_default :: "rat \<Rightarrow> string \<Rightarrow> calib_error + rat" where
  "stage_default gliner source = (if source = ''gliner'' then Inr gliner
     else if source = ''cyner'' then Inr (7 / 10) else Inl (NoCalibratedStage source))"

definition decision_origins :: "bool \<Rightarrow> bool \<Rightarrow> string list" where
  "decision_origins include_bulk include_legacy =
    [HUMAN] @ (if include_bulk then [HUMAN_BULK] else []) @ (if include_legacy then [LEGACY] else [])"

definition decided_rows :: "string list \<Rightarrow> rstore \<Rightarrow> review_row list" where
  "decided_rows sources s = filter (\<lambda>r. rr_accepted r \<noteq> None \<and> rr_confidence r \<noteq> None \<and> rr_source r \<in> set sources) (entity_rows s)"

text \<open>The point of a row: none for a confidence that is not finite.\<close>

definition row_point :: "review_row \<Rightarrow> ((string \<times> string) \<times> rat \<times> bool) list" where
  "row_point r = (case rr_confidence r of
     Some (Fin c) \<Rightarrow> [((rr_source r, rr_type r), c, rr_accepted r = Some True)] | _ \<Rightarrow> [])"

definition load_decisions :: "string list \<Rightarrow> string list \<Rightarrow> rstore \<Rightarrow> (string \<times> string, points) dict" where
  "load_decisions sources origins s =
    (if sources = [] \<or> origins = [] then []
     else group_pairs (concat (map row_point
       (filter (\<lambda>r. case rr_origin r of None \<Rightarrow> False | Some og \<Rightarrow> og \<in> set origins) (decided_rows sources s)))))"

definition origin_name :: "review_row \<Rightarrow> string" where
  "origin_name r = (case rr_origin r of None \<Rightarrow> ''none'' | Some og \<Rightarrow> og)"

definition excluded_decisions :: "string list \<Rightarrow> string list \<Rightarrow> rstore \<Rightarrow> (string \<times> nat) list" where
  "excluded_decisions sources origins s =
    (if sources = [] then []
     else filter (\<lambda>(og, n). og \<notin> set origins)
       (map (\<lambda>(og, rows). (og, length rows)) (group_by origin_name (decided_rows sources s))))"

definition list_overrides :: "override_row list \<Rightarrow> override_row list" where
  "list_overrides t = sort_key (\<lambda>o'. (ov_source o', ov_type o')) t"

definition ov_key :: "override_row \<Rightarrow> string \<times> string" where
  "ov_key r = (ov_source r, ov_type r)"

definition calibrate_one :: "rat \<Rightarrow> rat \<Rightarrow> nat \<Rightarrow> (string \<times> string \<rightharpoonup> rat) \<Rightarrow> (string \<times> string) \<times> points \<Rightarrow> calib_error + proposal" where
  "calibrate_one gliner target min_samples overrides e =
    (case e of ((source, etype), pts) \<Rightarrow> and_then (stage_default gliner source) (\<lambda>dflt.
       Inr (propose source etype (case overrides (source, etype) of None \<Rightarrow> dflt | Some v \<Rightarrow> v) pts
         target min_samples DEFAULT_MIN_BLOCK_SAMPLES AUTO_ACCEPT_LEVEL)))"

definition calibrate :: "rat \<Rightarrow> rat \<Rightarrow> nat \<Rightarrow> string list \<Rightarrow> string list \<Rightarrow> override_row list \<Rightarrow> rstore \<Rightarrow>
    calib_error + proposal list" where
  "calibrate gliner target min_samples sources origins t s =
    (let overrides = map_of (rev (map (\<lambda>r. (ov_key r, ov_threshold r)) (list_overrides t))) in
     map_raise (calibrate_one gliner target min_samples overrides) (sort_key fst (load_decisions sources origins s)))"

text \<open>\<open>_UPSERT\<close>: the row of a (source, entity_type) is replaced where it is, or added.\<close>

definition upsert :: "override_row \<Rightarrow> override_row list \<Rightarrow> override_row list" where
  "upsert r t = (if list_ex (\<lambda>x. ov_key x = ov_key r) t then map (\<lambda>x. if ov_key x = ov_key r then r else x) t else t @ [r])"

definition override_of :: "string \<Rightarrow> proposal \<Rightarrow> rat \<Rightarrow> override_row" where
  "override_of now p c = \<lparr>ov_source = p_source p, ov_type = p_type p, ov_threshold = c, ov_sample_size = p_sample_size p,
     ov_target = Some (p_target p), ov_precision = p_precision_at_proposed p, ov_recall = p_recall_at_proposed p,
     ov_origin = ''calibrated'', ov_updated = now\<rparr>"

fun apply_proposals :: "proposal list \<Rightarrow> string \<Rightarrow> override_row list \<Rightarrow> override_row list \<times> nat" where
  "apply_proposals [] now t = (t, 0)"
| "apply_proposals (p # ps) now t =
    (case p_proposed p of None \<Rightarrow> apply_proposals ps now t
     | Some c \<Rightarrow> if \<not> (0 \<le> c \<and> c \<le> 1) then apply_proposals ps now t
         else (case apply_proposals ps now (upsert (override_of now p c) t) of (t, n) \<Rightarrow> (t, n + 1)))"

definition set_override :: "string \<Rightarrow> string \<Rightarrow> rat \<Rightarrow> string \<Rightarrow> override_row list \<Rightarrow> override_row list" where
  "set_override source etype c now = upsert \<lparr>ov_source = source, ov_type = etype, ov_threshold = c, ov_sample_size = 0,
     ov_target = None, ov_precision = None, ov_recall = None, ov_origin = ''manual'', ov_updated = now\<rparr>"

definition clear_override :: "string \<Rightarrow> string \<Rightarrow> override_row list \<Rightarrow> override_row list \<times> bool" where
  "clear_override source etype t =
    (filter (\<lambda>x. ov_key x \<noteq> (source, etype)) t, list_ex (\<lambda>x. ov_key x = (source, etype)) t)"

section \<open>Reading a cutoff back\<close>

text \<open>The process-wide cache of \<open>_load_all\<close>: \<open>None\<close> until the first read and after \<open>reload\<close>.\<close>

type_synonym threshold_cache = "(string \<times> string, rat) dict option"

definition load_all :: "bool \<Rightarrow> override_row list option \<Rightarrow> threshold_cache \<Rightarrow> (string \<times> string, rat) dict" where
  "load_all enabled store cache = (case cache of Some d \<Rightarrow> d
     | None \<Rightarrow> if \<not> enabled then []
         else (case store of None \<Rightarrow> [] | Some t \<Rightarrow> fold (\<lambda>r d. dset (ov_key r) (ov_threshold r) d) t []))"

definition get_threshold :: "bool \<Rightarrow> override_row list option \<Rightarrow> string \<Rightarrow> string \<Rightarrow> rat \<Rightarrow> threshold_cache \<Rightarrow> rat \<times> threshold_cache" where
  "get_threshold enabled store source etype dflt cache =
    (let d = load_all enabled store cache in (dget d (source, etype) dflt, Some d))"

definition overrides_for :: "bool \<Rightarrow> override_row list option \<Rightarrow> string \<Rightarrow> threshold_cache \<Rightarrow> (string, rat) dict" where
  "overrides_for enabled store source cache =
    map (\<lambda>((s, t), v). (t, v)) (filter (\<lambda>((s, t), v). s = source) (load_all enabled store cache))"

definition reload_thresholds :: "threshold_cache \<Rightarrow> threshold_cache" where
  "reload_thresholds cache = None"

section \<open>The routes\<close>

text \<open>api/routes/thresholds.py: the answers of the handlers, \<open>Inl\<close> an HTTPException.\<close>

datatype http_error = BadRequest string | NotFoundHere string | Internal calib_error

definition check_key :: "string \<Rightarrow> string \<Rightarrow> http_error + unit" where
  "check_key source etype =
    (if source \<notin> set CALIBRATED_SOURCES then Inl (BadRequest ''source'')
     else if etype \<notin> set (map etype_value entity_types) then Inl (BadRequest ''Unknown entity_type'') else Inr ())"

record recalibrate_in =
  ri_target :: rat
  ri_min_samples :: int
  ri_apply :: bool
  ri_bulk :: bool
  ri_legacy :: bool

record recalibrate_out =
  ro_applied :: bool
  ro_written :: nat
  ro_origins :: "string list"
  ro_excluded :: "(string \<times> nat) list"
  ro_proposals :: "proposal list"

definition recalibrate :: "rat \<Rightarrow> string \<Rightarrow> recalibrate_in \<Rightarrow> rstore \<Rightarrow> override_row list \<Rightarrow> threshold_cache \<Rightarrow>
    override_row list \<times> threshold_cache \<times> (http_error + recalibrate_out)" where
  "recalibrate gliner now body s t cache =
    (if \<not> (0 < ri_target body \<and> ri_target body \<le> 1) then (t, cache, Inl (BadRequest ''target_precision''))
     else if ri_min_samples body < 1 then (t, cache, Inl (BadRequest ''min_samples''))
     else let origins = decision_origins (ri_bulk body) (ri_legacy body) in
       case calibrate gliner (ri_target body) (nat (ri_min_samples body)) CALIBRATED_SOURCES origins t s of
         Inl e \<Rightarrow> (t, cache, Inl (Internal e))
       | Inr proposals \<Rightarrow>
           let excluded = excluded_decisions CALIBRATED_SOURCES origins s;
               (t, written) = (if ri_apply body then apply_proposals proposals now t else (t, 0));
               cache = (if written \<noteq> 0 then reload_thresholds cache else cache)
           in (t, cache, Inr \<lparr>ro_applied = ri_apply body, ro_written = written, ro_origins = origins,
                 ro_excluded = excluded, ro_proposals = proposals\<rparr>))"

definition put_threshold :: "string \<Rightarrow> string \<Rightarrow> string \<Rightarrow> rat \<Rightarrow> override_row list \<Rightarrow> threshold_cache \<Rightarrow>
    override_row list \<times> threshold_cache \<times> (http_error + rat)" where
  "put_threshold now source etype c t cache =
    (case check_key source etype of Inl e \<Rightarrow> (t, cache, Inl e)
     | Inr _ \<Rightarrow> if \<not> (0 \<le> c \<and> c \<le> 1) then (t, cache, Inl (BadRequest ''threshold''))
         else (set_override source etype c now t, reload_thresholds cache, Inr c))"

definition delete_threshold :: "rat \<Rightarrow> string \<Rightarrow> string \<Rightarrow> override_row list \<Rightarrow> threshold_cache \<Rightarrow>
    override_row list \<times> threshold_cache \<times> (http_error + rat)" where
  "delete_threshold gliner source etype t cache =
    (case check_key source etype of Inl e \<Rightarrow> (t, cache, Inl e)
     | Inr _ \<Rightarrow> (case clear_override source etype t of (t, removed) \<Rightarrow>
         if \<not> removed then (t, cache, Inl (NotFoundHere ''No override stored for that source and entity_type''))
         else (t, reload_thresholds cache, case stage_default gliner source of Inl e \<Rightarrow> Inl (Internal e) | Inr d \<Rightarrow> Inr d)))"

end
