(* ===== verification/CalibrationFit.thy ===== *)
theory CalibrationFit
  imports Calibration "HOL-Library.Multiset"
begin

text \<open>
  The isotonic fit of pipeline/calibration.py is the least-squares fit: each block stands for a
  segment of the tied scores whose every prefix accepts at least at the rate of the whole, the
  rates of the blocks rise, and by summation by parts no non-decreasing function is closer to the
  decisions. The proposal's guards follow from it.
\<close>

section \<open>The tally\<close>

lemma distinct_tally: "distinct (map fst (tally pts))"
proof -
  have "distinct (map fst d) \<Longrightarrow> distinct (map fst (fold (\<lambda>(s, ok) d. dset s
      (case dget d s (0, 0) of (n, a) \<Rightarrow> (n + 1, a + (if ok then 1 else 0))) d) pts d))"
    for d :: "(rat, nat \<times> nat) dict"
    by (induction pts arbitrary: d) (auto split: prod.split)
  then show ?thesis by (simp add: tally_def)
qed

text \<open>A sum over the points is the sum over the tally.\<close>

definition tally_sum :: "(rat \<Rightarrow> rat) \<Rightarrow> (rat \<Rightarrow> rat) \<Rightarrow> (rat \<times> nat \<times> nat) list \<Rightarrow> rat" where
  "tally_sum F G d = (\<Sum>(s, n, a) \<leftarrow> d. of_nat n * G s + of_nat a * (F s - G s))"

lemma tally_sum_append: "tally_sum F G (xs @ ys) = tally_sum F G xs + tally_sum F G ys"
  by (simp add: tally_sum_def)

lemma tally_sum_Cons: "tally_sum F G ((s, n, a) # ys) = of_nat n * G s + of_nat a * (F s - G s) + tally_sum F G ys"
  by (simp add: tally_sum_def)

lemma tally_sum_perm: "mset xs = mset ys \<Longrightarrow> tally_sum F G xs = tally_sum F G ys"
  unfolding tally_sum_def sum_mset_sum_list [symmetric] by simp

lemma dget_absent: "k \<notin> fst ` set d \<Longrightarrow> dget d k v = v"
  using map_of_eq_None_iff [of d k] by (simp add: dget_def)

lemma tally_sum_bump:
  "distinct (map fst d) \<Longrightarrow> tally_sum F G (dset s (case dget d s (0, 0) of (n, a) \<Rightarrow> (n + 1, a + (if ok then 1 else 0))) d) =
    tally_sum F G d + (if ok then F s else G s)"
proof (induction d)
  case Nil
  then show ?case by (simp add: tally_sum_def)
next
  case (Cons e d)
  obtain k n a where e: "e = (k, n, a)" by (cases e) auto
  show ?case
  proof (cases "k = s")
    case True
    then have "dget (e # d) s (0, 0) = (n, a)" by (simp add: e dget_def)
    then show ?thesis using True by (auto simp: e tally_sum_Cons algebra_simps)
  next
    case False
    then have "dget (e # d) s (0, 0) = dget d s (0, 0)" by (simp add: e dget_def)
    then show ?thesis using False Cons by (simp add: e tally_sum_Cons)
  qed
qed

lemma tally_sum_points: "tally_sum F G (tally pts) = (\<Sum>(s, ok) \<leftarrow> pts. if ok then F s else G s)"
proof -
  have "distinct (map fst d) \<Longrightarrow> tally_sum F G (fold (\<lambda>(s, ok) d. dset s
      (case dget d s (0, 0) of (n, a) \<Rightarrow> (n + 1, a + (if ok then 1 else 0))) d) pts d) =
      tally_sum F G d + (\<Sum>(s, ok) \<leftarrow> pts. if ok then F s else G s)" for d
  proof (induction pts arbitrary: d)
    case (Cons p pts)
    obtain s ok where p: "p = (s, ok)" by (cases p)
    let ?d = "dset s (case dget d s (0, 0) of (n, a) \<Rightarrow> (n + 1, a + (if ok then 1 else 0))) d"
    have "distinct (map fst ?d)" using Cons.prems by simp
    from Cons.IH [OF this] tally_sum_bump [OF Cons.prems, of F G s ok] show ?case by (simp add: p)
  qed simp
  from this [of "[]"] show ?thesis by (simp add: tally_def tally_sum_def)
qed

lemma keys_tally: "fst ` set (tally pts) = fst ` set pts"
proof -
  have "fst ` set (fold (\<lambda>(s, ok) d. dset s
      (case dget d s (0, 0) of (n, a) \<Rightarrow> (n + 1, a + (if ok then 1 else 0))) d) pts d) = fst ` set d \<union> fst ` set pts"
    for d :: "(rat, nat \<times> nat) dict"
  proof (induction pts arbitrary: d)
    case (Cons p pts)
    then show ?case by (cases p) (auto simp: keys_dset)
  qed simp
  then show ?thesis by (simp add: tally_def)
qed

lemma tally_counts:
  "map_of (tally pts) s = (if s \<in> fst ` set pts
    then Some (length (filter (\<lambda>p. fst p = s) pts), length (filter (\<lambda>p. fst p = s \<and> snd p) pts)) else None)"
proof -
  have "dget (fold (\<lambda>(s, ok) d. dset s
      (case dget d s (0, 0) of (n, a) \<Rightarrow> (n + 1, a + (if ok then 1 else 0))) d) pts d) s (0, 0) =
      (fst (dget d s (0, 0)) + length (filter (\<lambda>p. fst p = s) pts),
       snd (dget d s (0, 0)) + length (filter (\<lambda>p. fst p = s \<and> snd p) pts))"
    for d :: "(rat, nat \<times> nat) dict"
    by (induction pts arbitrary: d) (auto simp: dget_dset split: prod.splits)
  then have g: "dget (tally pts) s (0, 0) = (length (filter (\<lambda>p. fst p = s) pts), length (filter (\<lambda>p. fst p = s \<and> snd p) pts))"
    by (simp add: tally_def)
  have "map_of (tally pts) s = None \<longleftrightarrow> s \<notin> fst ` set pts" by (simp add: map_of_eq_None_iff keys_tally)
  with g show ?thesis by (auto simp: dget_def split: option.splits)
qed

lemma ties_keys: "map fst (ties pts) = sort (map fst (tally pts))"
  by (simp add: ties_def Let_def o_def)

lemma sorted_ties: "sorted_wrt (<) (map fst (ties pts))"
  unfolding ties_keys strict_sorted_iff using distinct_tally by simp

lemma set_ties: "set (ties pts) = set (tally pts)"
proof -
  have "(s, dget (tally pts) s (0, 0)) \<in> set (tally pts)" if "s \<in> fst ` set (tally pts)" for s
  proof -
    from that obtain v where "(s, v) \<in> set (tally pts)" by auto
    with distinct_tally have "map_of (tally pts) s = Some v" by simp
    with \<open>(s, v) \<in> set (tally pts)\<close> show ?thesis by (simp add: dget_def)
  qed
  moreover have "e \<in> set (ties pts)" if "e \<in> set (tally pts)" for e
  proof -
    from that distinct_tally have "map_of (tally pts) (fst e) = Some (snd e)" by simp
    with that show ?thesis by (auto simp: ties_def Let_def dget_def intro!: image_eqI [of _ _ "fst e"])
  qed
  moreover have "e \<in> set (tally pts)" if "e \<in> set (ties pts)" for e
    using that \<open>\<And>s. s \<in> fst ` set (tally pts) \<Longrightarrow> (s, dget (tally pts) s (0, 0)) \<in> set (tally pts)\<close>
    unfolding ties_def Let_def set_map set_sort by blast
  ultimately show ?thesis by blast
qed

lemma mset_ties: "mset (ties pts) = mset (tally pts)"
proof -
  have "distinct (ties pts)" using sorted_ties [of pts] by (metis distinct_map strict_sorted_iff)
  moreover have "distinct (tally pts)" using distinct_tally [of pts] by (metis distinct_map)
  ultimately show ?thesis using set_ties [of pts] set_eq_iff_mset_eq_distinct by blast
qed

lemma ties_positive: "(s, n, a) \<in> set (ties pts) \<Longrightarrow> 0 < n \<and> a \<le> n \<and> s \<in> fst ` set pts"
proof -
  assume "(s, n, a) \<in> set (ties pts)"
  then have "(s, n, a) \<in> set (tally pts)" by (simp only: set_ties)
  with distinct_tally [of pts] have m: "map_of (tally pts) s = Some (n, a)" by (rule map_of_is_SomeI)
  then have s: "s \<in> fst ` set pts" and n: "n = length (filter (\<lambda>p. fst p = s) pts)"
    and a: "a = length (filter (\<lambda>p. fst p = s \<and> snd p) pts)"
    by (auto simp: tally_counts split: if_splits)
  have "length (filter (\<lambda>p. fst p = s \<and> snd p) pts) \<le> length (filter (\<lambda>p. fst p = s) pts)"
    by (induction pts) auto
  moreover from s have "filter (\<lambda>p. fst p = s) pts \<noteq> []" by (auto simp: filter_empty_conv)
  ultimately show ?thesis unfolding n a using s by simp
qed

lemma ties_order: "mset pts = mset pts' \<Longrightarrow> ties pts = ties pts'"
proof -
  assume m: "mset pts = mset pts'"
  then have "set pts = set pts'" by (rule mset_eq_setD)
  moreover have "length (filter P pts) = length (filter P pts')" for P
    using m by (metis mset_filter size_mset)
  ultimately have eq: "map_of (tally pts) = map_of (tally pts')" by (simp add: fun_eq_iff tally_counts)
  have "set (map fst (tally pts)) = set (map fst (tally pts'))" using \<open>set pts = set pts'\<close> by (simp add: keys_tally)
  then have "mset (map fst (tally pts)) = mset (map fst (tally pts'))"
    using distinct_tally set_eq_iff_mset_eq_distinct by blast
  then have "sort (map fst (tally pts)) = sort (map fst (tally pts'))" by (intro properties_for_sort) simp_all
  with eq show ?thesis by (simp add: ties_def Let_def dget_def)
qed

section \<open>Segments and blocks\<close>

type_synonym seg = "(rat \<times> nat \<times> nat) list"

definition seg_n :: "seg \<Rightarrow> nat" where "seg_n g = (\<Sum>(s, n, a) \<leftarrow> g. n)"
definition seg_a :: "seg \<Rightarrow> nat" where "seg_a g = (\<Sum>(s, n, a) \<leftarrow> g. a)"

lemma seg_simps [simp]:
  "seg_n [] = 0" "seg_a [] = 0" "seg_n ((s, n, a) # g) = n + seg_n g" "seg_a ((s, n, a) # g) = a + seg_a g"
  "seg_n (g @ h) = seg_n g + seg_n h" "seg_a (g @ h) = seg_a g + seg_a h"
  by (simp_all add: seg_n_def seg_a_def)

text \<open>No prefix accepts at a lower rate than the whole.\<close>

definition good :: "seg \<Rightarrow> bool" where
  "good g \<longleftrightarrow> 0 < seg_n g \<and> (\<forall>p q. g = p @ q \<longrightarrow> seg_a g * seg_n p \<le> seg_a p * seg_n g)"

lemma good_single: "0 < n \<Longrightarrow> good [(s, n, a)]"
  by (auto simp: good_def Cons_eq_append_conv)

lemma good_merge:
  assumes "good A" "good B" "seg_a B * seg_n A < seg_a A * seg_n B"
  shows "good (A @ B)"
proof -
  from assms(1,2) have nA: "0 < seg_n A" and nB: "0 < seg_n B" by (auto simp: good_def)
  have "seg_a (A @ B) * seg_n p \<le> seg_a p * seg_n (A @ B)" if pq: "A @ B = p @ q" for p q
  proof (cases "length p \<le> length A")
    case True
    then obtain r where r: "A = p @ r" using pq by (auto simp: append_eq_append_conv2)
    then have 1: "seg_a A * seg_n p \<le> seg_a p * seg_n A" using assms(1) by (auto simp: good_def)
    have "seg_a B * seg_n p * seg_n A \<le> seg_a A * seg_n B * seg_n p"
      using assms(3) mult_le_mono1 [of "seg_a B * seg_n A" "seg_a A * seg_n B" "seg_n p"] by (simp add: ac_simps)
    also have "\<dots> \<le> seg_a p * seg_n B * seg_n A"
      using 1 mult_le_mono1 [OF 1, of "seg_n B"] by (simp add: ac_simps)
    finally have "seg_a B * seg_n p \<le> seg_a p * seg_n B" using nA by simp
    with 1 show ?thesis by (simp add: algebra_simps)
  next
    case False
    then obtain r where r: "p = A @ r" "B = r @ q" using pq by (auto simp: append_eq_append_conv2)
    have 1: "seg_a B * seg_n r \<le> seg_a r * seg_n B" using assms(2) r(2) by (auto simp: good_def)
    have B: "seg_n B = seg_n r + seg_n q" "seg_a B = seg_a r + seg_a q" using r(2) by simp_all
    have 2: "seg_a q * seg_n B \<le> seg_a B * seg_n q" using 1 B by (simp add: algebra_simps)
    have "seg_a q * seg_n A * seg_n B \<le> seg_a B * seg_n A * seg_n q"
      using mult_le_mono1 [OF 2, of "seg_n A"] by (simp add: ac_simps)
    also have "\<dots> \<le> seg_a A * seg_n q * seg_n B"
      using mult_le_mono1 [OF less_imp_le [OF assms(3)], of "seg_n q"] by (simp add: ac_simps)
    finally have "seg_a q * seg_n A \<le> seg_a A * seg_n q" using nB by simp
    with 1 show ?thesis unfolding r(1) by (simp add: B algebra_simps)
  qed
  with nA show ?thesis by (simp add: good_def)
qed

definition covers :: "block \<Rightarrow> seg \<Rightarrow> bool" where
  "covers b g \<longleftrightarrow> g \<noteq> [] \<and> good g \<and> b_lo b = fst (hd g) \<and> b_hi b = fst (last g) \<and> b_n b = seg_n g \<and> b_acc b = seg_a g"

text \<open>Rates fall along the reversed list the loop holds.\<close>

fun falling :: "block list \<Rightarrow> bool" where
  "falling (l # p # bs) = (b_acc p * b_n l \<le> b_acc l * b_n p \<and> falling (p # bs))"
| "falling bs = True"

lemma falling_tl: "falling (b # bs) \<Longrightarrow> falling bs"
  by (cases bs) auto

lemma covers_merge:
  "covers p A \<Longrightarrow> covers l B \<Longrightarrow> \<not> b_acc p * b_n l \<le> b_acc l * b_n p \<Longrightarrow>
   covers \<lparr>b_lo = b_lo p, b_hi = b_hi l, b_n = b_n p + b_n l, b_acc = b_acc p + b_acc l\<rparr> (A @ B)"
  by (auto simp: covers_def intro: good_merge)

lemma pool_covers:
  "list_all2 covers (b # bs) (g # gs) \<Longrightarrow> falling bs \<Longrightarrow>
   \<exists>gs'. list_all2 covers (pool (b # bs)) gs' \<and> concat (rev gs') = concat (rev (g # gs)) \<and> falling (pool (b # bs))"
proof (induction "b # bs" arbitrary: b bs g gs rule: pool.induct [case_names two none one])
  case (two l p bs)
  then obtain g' gs' where gs: "gs = g' # gs'" by (auto simp: list_all2_Cons1)
  show ?case
  proof (cases "b_acc p * b_n l \<le> b_acc l * b_n p")
    case True
    with two(2,3) show ?thesis by (intro exI [of _ "g # gs"]) auto
  next
    case False
    let ?m = "\<lparr>b_lo = b_lo p, b_hi = b_hi l, b_n = b_n p + b_n l, b_acc = b_acc p + b_acc l\<rparr>"
    have "list_all2 covers (?m # bs) ((g' @ g) # gs')"
      using two(2) covers_merge [OF _ _ False] unfolding gs by auto
    from two(1) [OF False this falling_tl [OF two(3)]] show ?thesis unfolding gs using False by auto
  qed
next
  case (one v)
  then show ?case by (intro exI [of _ "[g]"]) auto
qed

lemma push_covers:
  assumes "list_all2 covers bs gs" "falling bs" "0 < n"
  shows "\<exists>gs'. list_all2 covers (push (s, n, a) bs) gs' \<and> concat (rev gs') = concat (rev gs) @ [(s, n, a)] \<and> falling (push (s, n, a) bs)"
proof -
  have "covers \<lparr>b_lo = s, b_hi = s, b_n = n, b_acc = a\<rparr> [(s, n, a)]" using good_single [OF assms(3)] by (simp add: covers_def)
  with assms(1) have "list_all2 covers (\<lparr>b_lo = s, b_hi = s, b_n = n, b_acc = a\<rparr> # bs) ([(s, n, a)] # gs)" by simp
  from pool_covers [OF this assms(2)] show ?thesis by (simp add: push_def)
qed

lemma fold_push_covers:
  "(\<And>s n a. (s, n, a) \<in> set ts \<Longrightarrow> 0 < n) \<Longrightarrow> list_all2 covers bs gs \<Longrightarrow> falling bs \<Longrightarrow>
   \<exists>gs'. list_all2 covers (fold push ts bs) gs' \<and> concat (rev gs') = concat (rev gs) @ ts \<and> falling (fold push ts bs)"
proof (induction ts arbitrary: bs gs)
  case (Cons t ts)
  obtain s n a where t: "t = (s, n, a)" by (cases t)
  have "0 < n" using Cons.prems(1) t by (metis list.set_intros(1))
  from push_covers [OF Cons.prems(2,3) this, of s a] obtain gs1 where
    g: "list_all2 covers (push t bs) gs1" "concat (rev gs1) = concat (rev gs) @ [t]" "falling (push t bs)" unfolding t by blast
  from Cons.IH [OF _ g(1,3)] Cons.prems(1) obtain gs2 where
    "list_all2 covers (fold push ts (push t bs)) gs2" "concat (rev gs2) = concat (rev gs1) @ ts" "falling (fold push ts (push t bs))"
    by (metis list.set_intros(2))
  with g(2) show ?case by auto
qed auto

text \<open>The blocks in the order of the result: one segment of the ties each, with rising rates.\<close>

lemma falling_le: "falling (b # bs) \<Longrightarrow> \<forall>x \<in> set (b # bs). 0 < b_n x \<Longrightarrow> x \<in> set bs \<Longrightarrow> b_acc x * b_n b \<le> b_acc b * b_n x"
proof (induction bs arbitrary: b)
  case (Cons c bs)
  from Cons.prems(1) have cb: "b_acc c * b_n b \<le> b_acc b * b_n c" and f: "falling (c # bs)" by auto
  show ?case
  proof (cases "x = c")
    case True
    with cb show ?thesis by simp
  next
    case False
    with Cons.prems(3) have "x \<in> set bs" by simp
    with Cons.IH [OF f] Cons.prems(2) have xc: "b_acc x * b_n c \<le> b_acc c * b_n x" by simp
    have "b_acc x * b_n b * b_n c \<le> b_acc c * b_n x * b_n b" using mult_le_mono1 [OF xc, of "b_n b"] by (simp add: ac_simps)
    also have "\<dots> \<le> b_acc b * b_n x * b_n c" using mult_le_mono1 [OF cb, of "b_n x"] by (simp add: ac_simps)
    finally show ?thesis using Cons.prems(2) by simp
  qed
qed simp

lemma falling_sorted: "falling bs \<Longrightarrow> \<forall>x \<in> set bs. 0 < b_n x \<Longrightarrow> sorted_wrt (\<lambda>l p. block_rate p \<le> block_rate l) bs"
proof (induction bs)
  case (Cons b bs)
  have "block_rate p \<le> block_rate b" if p: "p \<in> set bs" for p
  proof -
    have "b_acc p * b_n b \<le> b_acc b * b_n p" by (rule falling_le [OF Cons.prems p])
    then have "rat_of_nat (b_acc p) * of_nat (b_n b) \<le> of_nat (b_acc b) * of_nat (b_n p)"
      by (metis of_nat_le_iff of_nat_mult)
    moreover have "0 < b_n p" "0 < b_n b" using Cons.prems(2) p by auto
    ultimately show ?thesis by (simp add: block_rate_def divide_simps mult.commute)
  qed
  with Cons falling_tl [OF Cons.prems(1)] show ?case by simp
qed simp

lemma isotonic_segments:
  obtains gs where "list_all2 covers (isotonic_blocks pts) gs" "concat gs = ties pts"
    "sorted_wrt (\<lambda>b c. block_rate b \<le> block_rate c) (isotonic_blocks pts)"
proof -
  have "\<exists>gs'. list_all2 covers (fold push (ties pts) []) gs' \<and> concat (rev gs') = concat (rev []) @ ties pts \<and>
      falling (fold push (ties pts) [])"
  proof (rule fold_push_covers)
    show "0 < n" if "(s, n, a) \<in> set (ties pts)" for s n a using ties_positive [OF that] by simp
  qed simp_all
  then obtain gs where
    gs: "list_all2 covers (fold push (ties pts) []) gs" "concat (rev gs) = ties pts" "falling (fold push (ties pts) [])" by auto
  have "\<forall>x \<in> set (fold push (ties pts) []). 0 < b_n x"
    using gs(1) by (auto simp: list_all2_conv_all_nth in_set_conv_nth covers_def good_def)
  from falling_sorted [OF gs(3) this] have "sorted_wrt (\<lambda>b c. block_rate b \<le> block_rate c) (isotonic_blocks pts)"
    by (simp add: isotonic_blocks_def sorted_wrt_rev)
  moreover have "list_all2 covers (isotonic_blocks pts) (rev gs)" using gs(1) by (simp add: isotonic_blocks_def list_all2_rev1 list_all2_rev)
  ultimately show ?thesis using that gs(2) by blast
qed

section \<open>Least squares\<close>

definition sq_error :: "(rat \<Rightarrow> rat) \<Rightarrow> points \<Rightarrow> rat" where
  "sq_error f pts = (\<Sum>(s, ok) \<leftarrow> pts. ((if ok then 1 else 0) - f s)\<^sup>2)"

definition seg_error :: "(rat \<Rightarrow> rat) \<Rightarrow> seg \<Rightarrow> rat" where
  "seg_error f = tally_sum (\<lambda>s. (1 - f s)\<^sup>2) (\<lambda>s. (f s)\<^sup>2)"

lemma sq_error_ties: "sq_error f pts = seg_error f (ties pts)"
proof -
  have "seg_error f (ties pts) = tally_sum (\<lambda>s. (1 - f s)\<^sup>2) (\<lambda>s. (f s)\<^sup>2) (tally pts)"
    unfolding seg_error_def by (rule tally_sum_perm [OF mset_ties])
  also have "\<dots> = sq_error f pts"
    unfolding tally_sum_points sq_error_def by (intro arg_cong [where f = sum_list] map_cong) auto
  finally show ?thesis by simp
qed

text \<open>Summation by parts: weights whose prefix sums are not negative, against a rising function.\<close>

lemma parts_bound:
  fixes w g :: "'a \<Rightarrow> rat"
  assumes "sorted_wrt (\<lambda>x y. g x \<le> g y) xs" "\<And>p q. xs = p @ q \<Longrightarrow> 0 \<le> sum_list (map w p)" "xs \<noteq> []"
  shows "(\<Sum>x \<leftarrow> xs. w x * g x) \<le> sum_list (map w xs) * g (last xs)"
  using assms
proof (induction xs rule: rev_induct)
  case (snoc x xs)
  show ?case
  proof (cases "xs = []")
    case False
    have pre: "0 \<le> sum_list (map w p)" if "xs = p @ q" for p q using snoc.prems(2) [of p "q @ [x]"] that by simp
    have "(\<Sum>y \<leftarrow> xs. w y * g y) \<le> sum_list (map w xs) * g (last xs)"
      using snoc.IH [OF _ pre False] snoc.prems(1) by (simp add: sorted_wrt_append)
    also have "\<dots> \<le> sum_list (map w xs) * g x"
    proof (rule mult_left_mono)
      show "g (last xs) \<le> g x" using snoc.prems(1) False by (simp add: sorted_wrt_append)
      show "0 \<le> sum_list (map w xs)" using pre [of xs "[]"] by simp
    qed
    finally show ?thesis by (simp add: algebra_simps)
  qed simp
qed simp

lemma sum_seg: "(\<Sum>(s, n, a) \<leftarrow> g. rat_of_nat a * c - of_nat n * d) = of_nat (seg_a g) * c - of_nat (seg_n g) * d"
  by (induction g) (auto simp: algebra_simps)

lemma good_least:
  assumes "good g" "sorted_wrt (<) (map fst g)" "mono f"
  defines "m \<equiv> rat_of_nat (seg_a g) / of_nat (seg_n g)"
  shows "seg_error (\<lambda>_. m) g \<le> seg_error f g"
proof -
  let ?w = "\<lambda>(s :: rat, n, a). rat_of_nat a - of_nat n * m"
  have N: "0 < seg_n g" using assms(1) by (simp add: good_def)
  then have ne: "g \<noteq> []" by auto
  have wsum: "sum_list (map ?w p) = of_nat (seg_a p) - of_nat (seg_n p) * m" for p
    using sum_seg [of 1 m p] by simp
  have total: "sum_list (map ?w g) = 0" unfolding wsum using N by (simp add: m_def)
  have prefix: "0 \<le> sum_list (map ?w p)" if "g = p @ q" for p q
  proof -
    have "seg_a g * seg_n p \<le> seg_a p * seg_n g" using assms(1) that by (auto simp: good_def)
    then have "rat_of_nat (seg_a g) * of_nat (seg_n p) \<le> of_nat (seg_a p) * of_nat (seg_n g)"
      by (metis of_nat_le_iff of_nat_mult)
    then have "0 \<le> rat_of_nat (seg_a p) - of_nat (seg_n p) * m" unfolding m_def using N by (simp add: field_simps)
    then show ?thesis by (simp only: wsum)
  qed
  have "sorted_wrt (\<lambda>x y. f (fst x) \<le> f (fst y)) g"
    using assms(2) unfolding sorted_wrt_map
    by (rule sorted_wrt_mono_rel [rotated]) (rule monoD [OF assms(3)], rule less_imp_le)
  from parts_bound [of "\<lambda>x. f (fst x)" g ?w, OF this prefix ne] total
  have 1: "(\<Sum>x \<leftarrow> g. ?w x * f (fst x)) \<le> 0" by simp
  have 2: "(\<Sum>x \<leftarrow> g. ?w x * m) = 0" using total by (simp add: sum_list_mult_const)
  have diff: "seg_error f h - seg_error (\<lambda>_. m) h =
      (\<Sum>(s, n, a) \<leftarrow> h. of_nat n * (f s - m)\<^sup>2) - 2 * (\<Sum>x \<leftarrow> h. ?w x * f (fst x)) + 2 * (\<Sum>x \<leftarrow> h. ?w x * m)" for h
    by (induction h) (auto simp: seg_error_def tally_sum_def power2_eq_square algebra_simps)
  have "0 \<le> (\<Sum>(s, n, a) \<leftarrow> g. rat_of_nat n * (f s - m)\<^sup>2)" by (rule sum_list_nonneg) auto
  with 1 2 diff [of g] show ?thesis by linarith
qed

section \<open>The fit\<close>

lemma covers_rate: "covers b g \<Longrightarrow> block_rate b = rat_of_nat (seg_a g) / of_nat (seg_n g)"
  by (simp add: covers_def block_rate_def)

text \<open>The lookup finds the block of a tied score.\<close>

lemma last_max: "sorted_wrt (<) (map fst g) \<Longrightarrow> t \<in> set g \<Longrightarrow> fst t \<le> fst (last g)" for g :: seg
  by (induction g) (auto split: if_splits simp: less_imp_le)

lemma find_block:
  assumes "list_all2 covers bs gs" "sorted_wrt (<) (map fst (concat gs))" "i < length gs" "t \<in> set (gs ! i)"
  shows "List.find (\<lambda>b. fst t \<le> b_hi b) bs = Some (bs ! i)"
  using assms
proof (induction bs gs arbitrary: i rule: list_all2_induct)
  case (Cons b bs g gs)
  have sg: "sorted_wrt (<) (map fst g)" using Cons.prems(1) by (simp add: sorted_wrt_append)
  have hi: "b_hi b = fst (last g)" "g \<noteq> []" using Cons.hyps(1) by (auto simp: covers_def)
  show ?case
  proof (cases i)
    case 0
    with Cons.prems(3) last_max [OF sg, of t] hi show ?thesis by simp
  next
    case (Suc j)
    with Cons.prems have j: "j < length gs" "t \<in> set (gs ! j)" by auto
    then have "t \<in> set (concat gs)" by (auto intro: nth_mem)
    with Cons.prems(1) hi(2) have "fst (last g) < fst t" by (auto simp: sorted_wrt_append)
    with hi Cons.IH [OF _ j] Cons.prems(1) Suc show ?thesis by (simp add: sorted_wrt_append)
  qed
qed simp

lemma rate_at:
  assumes "list_all2 covers (isotonic_blocks pts) gs" "concat gs = ties pts" "i < length gs" "t \<in> set (gs ! i)"
  shows "calibrated_rate (isotonic_blocks pts) (fst t) = Some (block_rate (isotonic_blocks pts ! i))"
proof -
  have "sorted_wrt (<) (map fst (concat gs))" using sorted_ties assms(2) by simp
  from find_block [OF assms(1) this assms(3,4)]
  have "List.find (\<lambda>b. fst t \<le> b_hi b) (isotonic_blocks pts) = Some (isotonic_blocks pts ! i)" .
  moreover have "isotonic_blocks pts \<noteq> []" using assms(1,3) by auto
  ultimately show ?thesis by (simp add: calibrated_rate_def)
qed

lemma find_member: "List.find P xs = Some d \<Longrightarrow> d \<in> set xs \<and> P d"
  by (induction xs) (auto split: if_splits)

lemma find_later:
  "sorted_wrt (\<lambda>b c. block_rate b \<le> block_rate c) bs \<Longrightarrow> s \<le> t \<Longrightarrow> List.find (\<lambda>b. s \<le> b_hi b) bs = Some b \<Longrightarrow>
   block_rate b \<le> (case List.find (\<lambda>b. t \<le> b_hi b) bs of Some c \<Rightarrow> block_rate c | None \<Rightarrow> block_rate (last bs))"
proof (induction bs)
  case (Cons c bs)
  show ?case
  proof (cases "s \<le> b_hi c")
    case True
    then have b: "b = c" using Cons.prems(3) by simp
    show ?thesis
    proof (cases "List.find (\<lambda>b. t \<le> b_hi b) (c # bs)")
      case None
      have "last (c # bs) \<in> set (c # bs)" by (rule last_in_set) simp
      then have "last (c # bs) = c \<or> last (c # bs) \<in> set bs" by auto
      then show ?thesis using Cons.prems(1) None b by auto
    next
      case (Some d)
      then have "d \<in> set (c # bs)" using find_member by metis
      with Some Cons.prems(1) b show ?thesis by auto
    qed
  next
    case False
    with Cons.prems have "List.find (\<lambda>b. s \<le> b_hi b) bs = Some b" "\<not> t \<le> b_hi c" "bs \<noteq> []" by auto
    with Cons show ?thesis by (auto split: option.splits)
  qed
qed simp

lemma rate_mono: "s \<le> t \<Longrightarrow> the (calibrated_rate (isotonic_blocks pts) s) \<le> the (calibrated_rate (isotonic_blocks pts) t)"
proof -
  assume st: "s \<le> t"
  obtain gs where "sorted_wrt (\<lambda>b c. block_rate b \<le> block_rate c) (isotonic_blocks pts)" by (rule isotonic_segments)
  note later = find_later [OF this st]
  let ?bs = "isotonic_blocks pts"
  show ?thesis
  proof (cases "List.find (\<lambda>b. s \<le> b_hi b) ?bs")
    case None
    then have "\<And>b. b \<in> set ?bs \<Longrightarrow> \<not> t \<le> b_hi b" using st by (auto simp: find_None_iff)
    then have "List.find (\<lambda>b. t \<le> b_hi b) ?bs = None" by (simp add: find_None_iff)
    with None show ?thesis by (simp add: calibrated_rate_def)
  next
    case (Some b)
    from later [OF this] Some show ?thesis by (auto simp: calibrated_rate_def split: option.splits)
  qed
qed

text \<open>C13. The fit is the isotonic regression of the decisions: the calibrated rate never falls as the score
  rises, no non-decreasing function of the score is closer to the decisions in least squares, and
  the order in which the rows came back plays no part.\<close>

lemma isotonic_least_squares:
  assumes "mono g" "mset pts' = mset pts"
  shows "mono (\<lambda>s. the (calibrated_rate (isotonic_blocks pts) s)) \<and>
    sq_error (\<lambda>s. the (calibrated_rate (isotonic_blocks pts) s)) pts \<le> sq_error g pts \<and>
    isotonic_blocks pts' = isotonic_blocks pts"
proof (intro conjI)
  let ?f = "\<lambda>s. the (calibrated_rate (isotonic_blocks pts) s)"
  show "mono ?f" by (rule monoI) (rule rate_mono)
  show "isotonic_blocks pts' = isotonic_blocks pts" using ties_order [OF assms(2)] by (simp add: isotonic_blocks_def)
  obtain gs where gs: "list_all2 covers (isotonic_blocks pts) gs" "concat gs = ties pts" by (rule isotonic_segments)
  have sorted: "sorted_wrt (<) (map fst (concat gs))" using sorted_ties gs(2) by simp
  have each: "seg_error ?f (gs ! i) \<le> seg_error g (gs ! i)" if i: "i < length gs" for i
  proof -
    have c: "covers (isotonic_blocks pts ! i) (gs ! i)" using gs(1) i by (simp add: list_all2_conv_all_nth)
    let ?m = "rat_of_nat (seg_a (gs ! i)) / of_nat (seg_n (gs ! i))"
    have "?f (fst t) = ?m" if "t \<in> set (gs ! i)" for t using rate_at [OF gs i that] covers_rate [OF c] by simp
    then have "seg_error ?f (gs ! i) = seg_error (\<lambda>_. ?m) (gs ! i)"
      unfolding seg_error_def tally_sum_def by (intro arg_cong [where f = sum_list] map_cong) force+
    also have "\<dots> \<le> seg_error g (gs ! i)"
    proof (rule good_least)
      show "good (gs ! i)" using c by (simp add: covers_def)
      have "gs = take i gs @ gs ! i # drop (Suc i) gs" using i by (rule id_take_nth_drop)
      then have "concat gs = concat (take i gs) @ gs ! i @ concat (drop (Suc i) gs)" by (metis concat.simps(2) concat_append)
      then show "sorted_wrt (<) (map fst (gs ! i))" using sorted by (simp add: sorted_wrt_append)
      show "mono g" by (rule assms(1))
    qed
    finally show ?thesis .
  qed
  have "seg_error h (concat xs) = (\<Sum>x \<leftarrow> xs. seg_error h x)" for h xs
    by (induction xs) (simp_all add: seg_error_def tally_sum_append, simp add: tally_sum_def)
  moreover have "(\<Sum>x \<leftarrow> gs. seg_error ?f x) \<le> (\<Sum>x \<leftarrow> gs. seg_error g x)"
    using each by (intro sum_list_mono) (metis in_set_conv_nth)
  ultimately show "sq_error ?f pts \<le> sq_error g pts" unfolding sq_error_ties gs(2) [symmetric] by simp
qed

lemma isotonic_least_squares_witness:
  "mono (\<lambda>s. the (calibrated_rate (isotonic_blocks [(1 / 2, False), (3 / 5, True), (4 / 5, False)]) s)) \<and>
   sq_error (\<lambda>s. the (calibrated_rate (isotonic_blocks [(1 / 2, False), (3 / 5, True), (4 / 5, False)]) s))
     [(1 / 2, False), (3 / 5, True), (4 / 5, False)] \<le> sq_error (\<lambda>s. s) [(1 / 2, False), (3 / 5, True), (4 / 5, False)]"
proof -
  have "mono (\<lambda>s :: rat. s)" by (simp add: mono_def)
  from isotonic_least_squares [OF this refl, of "[(1 / 2, False), (3 / 5, True), (4 / 5, False)]"] show ?thesis by blast
qed

end
