(* ===== verification/CalibrationSound.thy ===== *)
theory CalibrationSound
  imports CalibrationFit
begin

text \<open>
  What a proposed cutoff promises (pipeline/calibration.py), that the model never learns from its own
  verdicts (with pipeline/decisions.py), and that a stored cutoff is the one read back
  (pipeline/thresholds.py).
\<close>

section \<open>The lowest safe cutoff\<close>

lemma find_index:
  assumes "List.find P xs = Some x"
  obtains i where "i < length xs" "xs ! i = x" "P x" "\<forall>j < i. \<not> P (xs ! j)"
  using assms by (auto simp: find_Some_iff)

lemma concat_nth: "i < length gs \<Longrightarrow> concat gs = concat (take i gs) @ gs ! i @ concat (drop (Suc i) gs)"
  by (metis append.assoc concat.simps(2) concat_append id_take_nth_drop)

text \<open>Where a tied score lies relative to the first score of a segment.\<close>

lemma segment_order:
  fixes gs :: "seg list"
  assumes "sorted_wrt (<) (map fst (concat gs))" "i < length gs" "k < length gs" "gs ! i \<noteq> []" "t \<in> set (gs ! k)"
  shows "fst (hd (gs ! i)) \<le> fst t \<longleftrightarrow> i \<le> k"
proof -
  have split: "sorted_wrt (<) (map fst (concat (take i gs) @ gs ! i @ concat (drop (Suc i) gs)))"
    using assms(1) concat_nth [OF assms(2)] by simp
  obtain h r where hr: "gs ! i = h # r" using assms(4) by (cases "gs ! i") auto
  consider "k < i" | "k = i" | "i < k" by linarith
  then show ?thesis
  proof cases
    case 1
    then have "gs ! k \<in> set (take i gs)" using assms(2) by (metis in_set_conv_nth length_take min.absorb4 nth_take)
    then have "t \<in> set (concat (take i gs))" using assms(5) by auto
    with split hr have "fst t < fst h" by (auto simp: sorted_wrt_append)
    with 1 hr show ?thesis by (simp add: not_le)
  next
    case 2
    with split hr have "\<forall>x \<in> set r. fst h < fst x" by (simp add: sorted_wrt_append)
    with 2 hr assms(5) have "fst h \<le> fst t" by (auto simp: less_imp_le)
    with 2 hr show ?thesis by simp
  next
    case 3
    then have "gs ! k = drop (Suc i) gs ! (k - Suc i)" "k - Suc i < length (drop (Suc i) gs)" using assms(3) by auto
    then have "gs ! k \<in> set (drop (Suc i) gs)" by (metis nth_mem)
    then have "t \<in> set (concat (drop (Suc i) gs))" using assms(5) by auto
    with split hr have "fst h < fst t" by (auto simp: sorted_wrt_append)
    with 3 hr show ?thesis by auto
  qed
qed

lemma tie_segment: "concat gs = ties pts \<Longrightarrow> s \<in> fst ` set pts \<Longrightarrow> \<exists>k < length gs. \<exists>t \<in> set (gs ! k). fst t = s"
proof -
  assume c: "concat gs = ties pts" and s: "s \<in> fst ` set pts"
  have "s \<in> fst ` set (ties pts)" using s by (simp add: set_ties keys_tally)
  then obtain t where "t \<in> set (concat gs)" "fst t = s" unfolding c by auto
  then obtain g where "g \<in> set gs" "t \<in> set g" by auto
  with \<open>fst t = s\<close> show ?thesis by (metis in_set_conv_nth)
qed

text \<open>How far the kept decisions exceed the target.\<close>

definition excess :: "rat \<Rightarrow> rat \<Rightarrow> points \<Rightarrow> rat" where
  "excess c target pts = (\<Sum>(s, ok) \<leftarrow> pts. if ok then (if c \<le> s then 1 - target else 0) else (if c \<le> s then - target else 0))"

lemma excess_counts: "excess c target pts =
    of_nat (accepted_count (filter (\<lambda>p. c \<le> fst p) pts)) - target * of_nat (length (filter (\<lambda>p. c \<le> fst p) pts))"
  by (induction pts) (auto simp: excess_def accepted_count_def algebra_simps)

lemma excess_segment:
  "(\<And>t. t \<in> set g \<Longrightarrow> (c \<le> fst t) = b) \<Longrightarrow>
   tally_sum (\<lambda>s. if c \<le> s then 1 - target else 0) (\<lambda>s. if c \<le> s then - target else 0) g =
     (if b then of_nat (seg_a g) - target * of_nat (seg_n g) else 0)"
proof (induction g)
  case (Cons t g)
  obtain s n a where t: "t = (s, n, a)" by (cases t)
  have "(c \<le> s) = b" using Cons.prems [of t] t by simp
  moreover have "tally_sum (\<lambda>s. if c \<le> s then 1 - target else 0) (\<lambda>s. if c \<le> s then - target else 0) g =
     (if b then of_nat (seg_a g) - target * of_nat (seg_n g) else 0)" by (rule Cons.IH) (rule Cons.prems, simp)
  ultimately show ?case by (auto simp: t tally_sum_Cons algebra_simps)
qed (simp add: tally_sum_def)

lemma tally_sum_concat: "tally_sum F G (concat gs) = (\<Sum>g \<leftarrow> gs. tally_sum F G g)"
  by (induction gs) (simp_all add: tally_sum_append, simp add: tally_sum_def)

lemma cutoff_safe:
  assumes "List.find (\<lambda>b. target \<le> block_rate b) (isotonic_blocks pts) = Some b"
  shows "b_lo b \<in> fst ` set pts"
    and "s \<in> fst ` set pts \<Longrightarrow> b_lo b \<le> s \<longleftrightarrow> target \<le> the (calibrated_rate (isotonic_blocks pts) s)"
    and "0 \<le> excess (b_lo b) target pts"
proof -
  let ?bs = "isotonic_blocks pts"
  obtain gs where gs: "list_all2 covers ?bs gs" "concat gs = ties pts"
    and rising: "sorted_wrt (\<lambda>b c. block_rate b \<le> block_rate c) ?bs" by (rule isotonic_segments)
  have sorted: "sorted_wrt (<) (map fst (concat gs))" using sorted_ties gs(2) by simp
  have len: "length gs = length ?bs" using gs(1) by (simp add: list_all2_lengthD)
  obtain i where i: "i < length ?bs" "?bs ! i = b" "target \<le> block_rate b" "\<forall>j < i. \<not> target \<le> block_rate (?bs ! j)"
    by (rule find_index [OF assms])
  have cov: "covers (?bs ! k) (gs ! k)" if "k < length gs" for k using gs(1) that by (simp add: list_all2_conv_all_nth)
  have ci: "gs ! i \<noteq> []" "b_lo b = fst (hd (gs ! i))" using cov [of i] i(1,2) len by (auto simp: covers_def)
  have rates: "target \<le> block_rate (?bs ! k) \<longleftrightarrow> i \<le> k" if k: "k < length ?bs" for k
  proof (cases "i \<le> k")
    case True
    then have "block_rate (?bs ! i) \<le> block_rate (?bs ! k)"
      using rising k by (cases "i = k") (auto simp: sorted_wrt_iff_nth_less)
    with i(2,3) True show ?thesis by simp
  qed (use i(4) in auto)
  have order: "b_lo b \<le> fst t \<longleftrightarrow> i \<le> k" if "k < length gs" "t \<in> set (gs ! k)" for k t
    unfolding ci(2) using segment_order [OF sorted _ that(1) ci(1) that(2)] i(1) len by simp
  have "gs ! i \<in> set gs" using i(1) len by simp
  with ci(1) have "hd (gs ! i) \<in> set (concat gs)" unfolding set_concat by (meson UN_I hd_in_set)
  then have h: "hd (gs ! i) \<in> set (ties pts)" by (simp only: gs(2))
  obtain s n a where "hd (gs ! i) = (s, n, a)" by (cases "hd (gs ! i)")
  with h ties_positive [of s n a pts] show "b_lo b \<in> fst ` set pts" unfolding ci(2) by simp
  show "b_lo b \<le> s \<longleftrightarrow> target \<le> the (calibrated_rate ?bs s)" if s: "s \<in> fst ` set pts" for s
  proof -
    obtain k t where k: "k < length gs" "t \<in> set (gs ! k)" "fst t = s" using tie_segment [OF gs(2) s] by blast
    have "calibrated_rate ?bs s = Some (block_rate (?bs ! k))" using rate_at [OF gs k(1,2)] k(3) by simp
    then show ?thesis using order [OF k(1,2)] rates [of k] k len by simp
  qed
  have "excess (b_lo b) target pts =
      tally_sum (\<lambda>s. if b_lo b \<le> s then 1 - target else 0) (\<lambda>s. if b_lo b \<le> s then - target else 0) (ties pts)"
    unfolding excess_def tally_sum_perm [OF mset_ties] tally_sum_points ..
  also have "\<dots> = (\<Sum>g \<leftarrow> gs. tally_sum (\<lambda>s. if b_lo b \<le> s then 1 - target else 0) (\<lambda>s. if b_lo b \<le> s then - target else 0) g)"
    unfolding gs(2) [symmetric] by (rule tally_sum_concat)
  also have "0 \<le> \<dots>"
  proof (rule sum_list_nonneg)
    fix x assume "x \<in> set (map (tally_sum (\<lambda>s. if b_lo b \<le> s then 1 - target else 0) (\<lambda>s. if b_lo b \<le> s then - target else 0)) gs)"
    then obtain k where k: "k < length gs"
      "x = tally_sum (\<lambda>s. if b_lo b \<le> s then 1 - target else 0) (\<lambda>s. if b_lo b \<le> s then - target else 0) (gs ! k)"
      by (auto simp: in_set_conv_nth)
    have x: "x = (if i \<le> k then of_nat (seg_a (gs ! k)) - target * of_nat (seg_n (gs ! k)) else 0)"
      unfolding k(2) by (rule excess_segment) (rule order [OF k(1)])
    have "0 < seg_n (gs ! k)" using cov [OF k(1)] by (simp add: covers_def good_def)
    then have "i \<le> k \<Longrightarrow> target * of_nat (seg_n (gs ! k)) \<le> of_nat (seg_a (gs ! k))"
      using rates [of k] covers_rate [OF cov [OF k(1)]] k(1) len by (simp add: pos_le_divide_eq)
    with x show "0 \<le> x" by simp
  qed
  finally show "0 \<le> excess (b_lo b) target pts" .
qed

lemma propose_some:
  assumes "p_proposed (propose source etype current pts target min_samples min_block level) = Some c"
  obtains b where "List.find (\<lambda>b. target \<le> block_rate b) (isotonic_blocks pts) = Some b" "c = b_lo b" "pts \<noteq> []"
    "min_samples \<le> length pts" "b_lo b < level" "min_block \<le> length (filter (\<lambda>q. b_lo b \<le> fst q \<and> fst q < level) pts)"
    "p_precision_at_proposed (propose source etype current pts target min_samples min_block level) = fst (precision_recall pts c)"
  using assms by (auto simp: propose_def new_proposal_def Let_def not_le not_less split: if_splits option.splits)

text \<open>C14. A proposed cutoff is a score analysts have seen, below the auto-accept level, and it rests on
  enough decisions: on the whole, and between itself and that level. It is the lowest safe one:
  among the observed scores exactly those at or above it have a calibrated rate that reaches the
  target. And the decisions it keeps are accepted at least at the target rate.\<close>

lemma proposal_is_safe:
  assumes "p_proposed (propose source etype current pts target min_samples min_block level) = Some c"
  shows "c \<in> fst ` set pts \<and> c < level \<and> min_samples \<le> length pts \<and>
    min_block \<le> length (filter (\<lambda>q. c \<le> fst q \<and> fst q < level) pts) \<and>
    (\<forall>s \<in> fst ` set pts. c \<le> s \<longleftrightarrow> target \<le> the (calibrated_rate (isotonic_blocks pts) s)) \<and>
    (\<exists>pr. p_precision_at_proposed (propose source etype current pts target min_samples min_block level) = Some pr \<and> target \<le> pr)"
proof -
  from assms obtain b where b: "List.find (\<lambda>b. target \<le> block_rate b) (isotonic_blocks pts) = Some b" "c = b_lo b"
    "min_samples \<le> length pts" "b_lo b < level" "min_block \<le> length (filter (\<lambda>q. b_lo b \<le> fst q \<and> fst q < level) pts)"
    "p_precision_at_proposed (propose source etype current pts target min_samples min_block level) = fst (precision_recall pts c)"
    by (rule propose_some)
  note safe = cutoff_safe [OF b(1), folded b(2)]
  let ?k = "filter (\<lambda>p. c \<le> fst p) pts"
  have ne: "?k \<noteq> []" using safe(1) by (auto simp: filter_empty_conv)
  then have "target \<le> of_nat (accepted_count ?k) / of_nat (length ?k)"
    using safe(3) unfolding excess_counts by (simp add: pos_le_divide_eq)
  moreover have "fst (precision_recall pts c) = Some (of_nat (accepted_count ?k) / of_nat (length ?k))"
    using ne by (auto simp: precision_recall_def Let_def)
  ultimately show ?thesis using safe(1,2) b by auto
qed

text \<open>A run on twenty-two decisions: the two at 0.5 are refused, the twenty from 0.6 on are accepted.\<close>

definition example_points :: points where
  "example_points = replicate 20 (3 / 5, True) @ [(1 / 2, False), (1 / 2, False)]"

lemma example_blocks: "isotonic_blocks example_points =
    [\<lparr>b_lo = 1 / 2, b_hi = 1 / 2, b_n = 2, b_acc = 0\<rparr>, \<lparr>b_lo = 3 / 5, b_hi = 3 / 5, b_n = 20, b_acc = 20\<rparr>]"
proof -
  have "tally example_points = [(3 / 5, 20, 20), (1 / 2, 2, 0)]"
    by (simp add: tally_def example_points_def dget_def numeral_eq_Suc)
  then have "ties example_points = [(1 / 2, 2, 0), (3 / 5, 20, 20)]" by (simp add: ties_def dget_def)
  then show ?thesis by (simp add: isotonic_blocks_def push_def)
qed

lemma proposal_is_safe_witness:
  "p_proposed (propose ''gliner'' ''malware'' (2 / 5) example_points (9 / 10) 20 20 (9 / 10)) = Some (3 / 5) \<and>
   (\<exists>pr. p_precision_at_proposed (propose ''gliner'' ''malware'' (2 / 5) example_points (9 / 10) 20 20 (9 / 10)) = Some pr \<and> 9 / 10 \<le> pr)"
proof -
  have p: "p_proposed (propose ''gliner'' ''malware'' (2 / 5) example_points (9 / 10) 20 20 (9 / 10)) = Some (3 / 5)"
    by (simp add: propose_def example_blocks Let_def block_rate_def) (simp add: example_points_def numeral_eq_Suc)
  with proposal_is_safe [OF p] show ?thesis by blast
qed

section \<open>The model does not grade itself\<close>

text \<open>Rows calibration may read: decided, with an origin among those asked for.\<close>

lemma load_decisions_filter: "load_decisions sources origins s =
    (if sources = [] \<or> origins = [] then [] else group_pairs (concat (map row_point (filter
      (\<lambda>r. rr_accepted r \<noteq> None \<and> rr_confidence r \<noteq> None \<and> rr_source r \<in> set sources \<and> rr_origin r \<in> Some ` set origins) (entity_rows s)))))"
proof -
  have "filter (\<lambda>r. case rr_origin r of None \<Rightarrow> False | Some og \<Rightarrow> og \<in> set origins) (decided_rows sources s) =
      filter (\<lambda>r. rr_accepted r \<noteq> None \<and> rr_confidence r \<noteq> None \<and> rr_source r \<in> set sources \<and> rr_origin r \<in> Some ` set origins) (entity_rows s)"
    unfolding decided_rows_def filter_filter by (rule filter_cong) (auto split: option.splits)
  then show ?thesis by (simp add: load_decisions_def)
qed

lemma filter_map_same:
  "(\<And>x. x \<in> set xs \<Longrightarrow> P (f x) = P x) \<Longrightarrow> (\<And>x. x \<in> set xs \<Longrightarrow> P x \<Longrightarrow> f x = x) \<Longrightarrow> filter P (map f xs) = filter P xs"
  by (induction xs) auto

text \<open>Auto-accept feeds nothing back into calibration: with the origins calibration can be asked to read
  (an analyst's, in bulk, or legacy), the cutoffs proposed after the policy has run over any job
  are the ones proposed before.\<close>

lemma no_self_grading:
  assumes "distinct (map rr_id (entity_rows s))" "apply_auto_accept digest8 jid now level rate s = (s', a, k)"
  shows "calibrate gliner target min_samples sources (decision_origins include_bulk include_legacy) t s' =
    calibrate gliner target min_samples sources (decision_origins include_bulk include_legacy) t s"
proof -
  let ?og = "decision_origins include_bulk include_legacy"
  have og: "AUTO_POLICY \<notin> set ?og" by (simp add: decision_origins_def origin_defs)
  have rows: "entity_rows s' = map (auto_row digest8 jid now level rate) (entity_rows s)"
    using auto_accept_exact [OF assms] by blast
  have "filter (\<lambda>r. rr_accepted r \<noteq> None \<and> rr_confidence r \<noteq> None \<and> rr_source r \<in> set sources \<and> rr_origin r \<in> Some ` set ?og) (entity_rows s') =
      filter (\<lambda>r. rr_accepted r \<noteq> None \<and> rr_confidence r \<noteq> None \<and> rr_source r \<in> set sources \<and> rr_origin r \<in> Some ` set ?og) (entity_rows s)"
    unfolding rows by (rule filter_map_same) (use og in \<open>auto simp: auto_row_def auto_eligible_def decide_row_def\<close>)
  then have "load_decisions sources ?og s' = load_decisions sources ?og s" by (simp add: load_decisions_filter)
  then show ?thesis by (simp add: calibrate_def)
qed

lemma no_self_grading_witness:
  "calibrate (2 / 5) (9 / 10) 200 CALIBRATED_SOURCES (decision_origins True True) []
     (fst (apply_auto_accept (\<lambda>_. 0) ''j'' ''now'' AUTO_ACCEPT_LEVEL 0 example_rstore)) =
   calibrate (2 / 5) (9 / 10) 200 CALIBRATED_SOURCES (decision_origins True True) [] example_rstore"
proof -
  let ?r = "apply_auto_accept (\<lambda>_. 0) ''j'' ''now'' AUTO_ACCEPT_LEVEL 0 example_rstore"
  have d: "distinct (map rr_id (entity_rows example_rstore))" by (simp add: example_rstore_def example_row_def)
  have e: "?r = (fst ?r, fst (snd ?r), snd (snd ?r))" by simp
  show ?thesis by (rule no_self_grading [OF d e])
qed

section \<open>Stored cutoffs\<close>

definition stored :: "override_row list \<Rightarrow> (string \<times> string \<rightharpoonup> rat)" where
  "stored t = map_of (map (\<lambda>r. (ov_key r, ov_threshold r)) t)"

lemma map_of_replace:
  fixes k :: "'r \<Rightarrow> 'k"
  shows "k r \<in> k ` set t \<Longrightarrow> map_of (map (\<lambda>x. (k x, v x)) (map (\<lambda>x. if k x = k r then r else x) t)) =
    (map_of (map (\<lambda>x. (k x, v x)) t))(k r \<mapsto> v r)"
proof (induction t)
  case (Cons x t)
  show ?case
  proof (cases "k r \<in> k ` set t")
    case True
    then have "map_of (map (\<lambda>x. (k x, v x)) (map (\<lambda>x. if k x = k r then r else x) t)) = (map_of (map (\<lambda>x. (k x, v x)) t))(k r \<mapsto> v r)"
      by (rule Cons.IH)
    then show ?thesis by (cases "k x = k r") (auto simp: fun_eq_iff)
  next
    case False
    then have t: "map (\<lambda>x. if k x = k r then r else x) t = t" by (intro map_idI) (auto simp: rev_image_eqI)
    from False Cons.prems have "k x = k r" by auto
    then show ?thesis by (simp add: t [unfolded list.map_comp] fun_eq_iff)
  qed
qed simp

lemma map_of_added: "k r \<notin> k ` set t \<Longrightarrow> map_of (map (\<lambda>x. (k x, v x)) (t @ [r])) = (map_of (map (\<lambda>x. (k x, v x)) t))(k r \<mapsto> v r)"
  for k :: "'r \<Rightarrow> 'k"
proof -
  assume "k r \<notin> k ` set t"
  then have "map_of (map (\<lambda>x. (k x, v x)) t) (k r) = None" by (simp add: map_of_eq_None_iff image_image)
  then show ?thesis by (auto simp: map_add_def fun_eq_iff split: option.splits)
qed

lemma has_key: "list_ex (\<lambda>x. ov_key x = ov_key r) t \<longleftrightarrow> ov_key r \<in> ov_key ` set t"
  unfolding list_ex_iff image_iff by metis

lemma keys_upsert: "distinct (map ov_key t) \<Longrightarrow> distinct (map ov_key (upsert r t))"
proof -
  assume d: "distinct (map ov_key t)"
  have "map ov_key (map (\<lambda>x. if ov_key x = ov_key r then r else x) t) = map ov_key t" by (induction t) auto
  with d show ?thesis by (simp add: upsert_def has_key del: map_map)
qed

lemma stored_upsert: "stored (upsert r t) = (stored t)(ov_key r \<mapsto> ov_threshold r)"
  unfolding stored_def upsert_def has_key using map_of_replace [of ov_key r t ov_threshold] map_of_added [of ov_key r t ov_threshold]
  by (cases "ov_key r \<in> ov_key ` set t") simp_all

lemma stored_absent: "k \<notin> ov_key ` set t \<Longrightarrow> stored t k = None"
  by (simp add: stored_def map_of_eq_None_iff image_image)

lemma loaded: "distinct (map ov_key t) \<Longrightarrow> map_of (load_all True (Some t) None) = stored t"
proof -
  assume d: "distinct (map ov_key t)"
  have "map_of (fold (\<lambda>r d. dset (ov_key r) (ov_threshold r) d) t d) = map_of d ++ stored t"
    if "distinct (map ov_key t)" for d
    using that
  proof (induction t arbitrary: d)
    case (Cons r t)
    then have "stored t (ov_key r) = None" by (intro stored_absent) simp
    then have "(map_of d)(ov_key r \<mapsto> ov_threshold r) ++ stored t = map_of d ++ (stored t)(ov_key r \<mapsto> ov_threshold r)"
      by (intro ext) (simp add: map_add_def split: option.split)
    moreover have "(stored t)(ov_key r \<mapsto> ov_threshold r) = stored (r # t)" by (simp add: stored_def)
    ultimately show ?case using Cons by (simp add: map_of_dset)
  qed (simp add: stored_def)
  from this [OF d, of "[]"] show ?thesis by (simp add: load_all_def)
qed

lemma apply_stored: "apply_proposals ps now t = (t', n) \<Longrightarrow> distinct (map ov_key t) \<Longrightarrow>
    distinct (map ov_key t') \<and>
    (\<forall>key. stored t' key = stored t key \<or>
       (\<exists>p \<in> set ps. \<exists>c. p_proposed p = Some c \<and> 0 \<le> c \<and> c \<le> 1 \<and> key = (p_source p, p_type p) \<and> stored t' key = Some c))"
proof (induction ps arbitrary: t n)
  case (Cons p ps)
  show ?case
  proof (cases "\<exists>c. p_proposed p = Some c \<and> 0 \<le> c \<and> c \<le> 1")
    case True
    then obtain c where c: "p_proposed p = Some c" "0 \<le> c" "c \<le> 1" by blast
    let ?t = "upsert (override_of now p c) t"
    obtain m where m: "apply_proposals ps now ?t = (t', m)" using Cons.prems(1) c by (auto split: prod.splits)
    note IH = Cons.IH [OF m keys_upsert [OF Cons.prems(2)]]
    have st: "stored ?t = (stored t)((p_source p, p_type p) \<mapsto> c)"
      by (simp add: stored_upsert) (simp add: override_of_def ov_key_def)
    have "stored t' key = stored t key \<or>
       (\<exists>q \<in> set (p # ps). \<exists>v. p_proposed q = Some v \<and> 0 \<le> v \<and> v \<le> 1 \<and> key = (p_source q, p_type q) \<and> stored t' key = Some v)" for key
    proof -
      from IH have "stored t' key = stored ?t key \<or>
         (\<exists>q \<in> set ps. \<exists>v. p_proposed q = Some v \<and> 0 \<le> v \<and> v \<le> 1 \<and> key = (p_source q, p_type q) \<and> stored t' key = Some v)" by blast
      then show ?thesis
      proof
        assume eq: "stored t' key = stored ?t key"
        show ?thesis
        proof (cases "key = (p_source p, p_type p)")
          case True
          with eq c st show ?thesis by (intro disjI2 bexI [of _ p] exI [of _ c]) auto
        next
          case False
          with eq st show ?thesis by simp
        qed
      next
        assume "\<exists>q \<in> set ps. \<exists>v. p_proposed q = Some v \<and> 0 \<le> v \<and> v \<le> 1 \<and> key = (p_source q, p_type q) \<and> stored t' key = Some v"
        then show ?thesis by (intro disjI2) (meson list.set_intros(2))
      qed
    qed
    with IH show ?thesis by blast
  next
    case False
    then have "apply_proposals ps now t = (t', n)" using Cons.prems(1) by (auto split: option.splits if_splits)
    from Cons.IH [OF this Cons.prems(2)] show ?thesis by auto
  qed
qed auto

text \<open>A cutoff is read back as it was stored. After a manual override and a reload every key reads the
  new value or what it read before; clearing it gives the stage's default back; and applying
  proposals changes a key only to a proposed cutoff of that key, in [0, 1].\<close>

lemma thresholds_roundtrip:
  assumes "distinct (map ov_key t)" "apply_proposals ps now t = (t', n)"
  shows "fst (get_threshold True (Some (set_override source etype c now t)) src ty dflt (reload_thresholds cache)) =
      (if (src, ty) = (source, etype) then c else fst (get_threshold True (Some t) src ty dflt None)) \<and>
    fst (get_threshold True (Some (fst (clear_override source etype t))) source etype dflt (reload_thresholds cache)) = dflt \<and>
    (fst (get_threshold True (Some t') src ty dflt None) = fst (get_threshold True (Some t) src ty dflt None) \<or>
     (\<exists>p \<in> set ps. \<exists>v. p_proposed p = Some v \<and> 0 \<le> v \<and> v \<le> 1 \<and> (src, ty) = (p_source p, p_type p) \<and>
        fst (get_threshold True (Some t') src ty dflt None) = v))"
proof (intro conjI)
  have get: "fst (get_threshold True (Some u) src ty dflt None) = (case stored u (src, ty) of None \<Rightarrow> dflt | Some v \<Rightarrow> v)"
    if "distinct (map ov_key u)" for u src ty
    using loaded [OF that] by (simp add: get_threshold_def dget_def Let_def)
  show "fst (get_threshold True (Some (set_override source etype c now t)) src ty dflt (reload_thresholds cache)) =
      (if (src, ty) = (source, etype) then c else fst (get_threshold True (Some t) src ty dflt None))"
    unfolding reload_thresholds_def set_override_def get [OF keys_upsert [OF assms(1)]] get [OF assms(1)] stored_upsert
    by (simp add: ov_key_def)
  have "distinct (map ov_key (fst (clear_override source etype t)))"
    using assms(1) by (simp add: clear_override_def distinct_map_filter)
  moreover have "stored (fst (clear_override source etype t)) (source, etype) = None"
    by (rule stored_absent) (auto simp: clear_override_def)
  ultimately show "fst (get_threshold True (Some (fst (clear_override source etype t))) source etype dflt (reload_thresholds cache)) = dflt"
    by (simp add: reload_thresholds_def get)
  have a: "distinct (map ov_key t')"
    "stored t' (src, ty) = stored t (src, ty) \<or>
       (\<exists>p \<in> set ps. \<exists>v. p_proposed p = Some v \<and> 0 \<le> v \<and> v \<le> 1 \<and> (src, ty) = (p_source p, p_type p) \<and> stored t' (src, ty) = Some v)"
    using apply_stored [OF assms(2,1)] by blast+
  show "fst (get_threshold True (Some t') src ty dflt None) = fst (get_threshold True (Some t) src ty dflt None) \<or>
     (\<exists>p \<in> set ps. \<exists>v. p_proposed p = Some v \<and> 0 \<le> v \<and> v \<le> 1 \<and> (src, ty) = (p_source p, p_type p) \<and>
        fst (get_threshold True (Some t') src ty dflt None) = v)"
    unfolding get [OF a(1)] get [OF assms(1)] using a(2)
  proof
    assume "\<exists>p \<in> set ps. \<exists>v. p_proposed p = Some v \<and> 0 \<le> v \<and> v \<le> 1 \<and> (src, ty) = (p_source p, p_type p) \<and> stored t' (src, ty) = Some v"
    then show "(case stored t' (src, ty) of None \<Rightarrow> dflt | Some v \<Rightarrow> v) = (case stored t (src, ty) of None \<Rightarrow> dflt | Some v \<Rightarrow> v) \<or>
        (\<exists>p \<in> set ps. \<exists>v. p_proposed p = Some v \<and> 0 \<le> v \<and> v \<le> 1 \<and> (src, ty) = (p_source p, p_type p) \<and>
          (case stored t' (src, ty) of None \<Rightarrow> dflt | Some v \<Rightarrow> v) = v)"
      by (intro disjI2) force
  qed simp
qed

lemma thresholds_roundtrip_witness:
  "fst (get_threshold True (Some (set_override ''gliner'' ''malware'' (3 / 5) ''now'' [])) ''gliner'' ''malware'' (2 / 5) (reload_thresholds (Some []))) = 3 / 5"
  using thresholds_roundtrip [of "[]" "[]" "''now''" "[]" 0 "''gliner''" "''malware''" "3 / 5" "''gliner''" "''malware''" "2 / 5" "Some []"] by simp

section \<open>The routes\<close>

definition overrides_ok :: "override_row list \<Rightarrow> bool" where
  "overrides_ok t \<longleftrightarrow> distinct (map ov_key t) \<and> (\<forall>r \<in> set t. 0 \<le> ov_threshold r \<and> ov_threshold r \<le> 1 \<and>
     ov_source r \<in> set CALIBRATED_SOURCES)"

lemma set_upsert: "x \<in> set (upsert r t) \<Longrightarrow> x = r \<or> x \<in> set t"
  by (auto simp: upsert_def split: if_splits)

lemma apply_ok: "apply_proposals ps now t = (t', n) \<Longrightarrow> overrides_ok t \<Longrightarrow>
    \<forall>p \<in> set ps. p_source p \<in> set CALIBRATED_SOURCES \<Longrightarrow> overrides_ok t'"
proof (induction ps arbitrary: t n)
  case (Cons p ps)
  show ?case
  proof (cases "\<exists>c. p_proposed p = Some c \<and> 0 \<le> c \<and> c \<le> 1")
    case True
    then obtain c where c: "p_proposed p = Some c" "0 \<le> c" "c \<le> 1" by blast
    let ?t = "upsert (override_of now p c) t"
    obtain m where m: "apply_proposals ps now ?t = (t', m)" using Cons.prems(1) c by (auto split: prod.splits)
    have "overrides_ok ?t" using Cons.prems(2,3) c keys_upsert
      by (auto simp: overrides_ok_def override_of_def dest!: set_upsert)
    from Cons.IH [OF m this] Cons.prems(3) show ?thesis by simp
  next
    case False
    then have "apply_proposals ps now t = (t', n)" using Cons.prems(1) by (auto split: option.splits if_splits)
    from Cons.IH [OF this Cons.prems(2)] Cons.prems(3) show ?thesis by auto
  qed
qed auto

lemma propose_source: "p_source (propose source etype current pts target min_samples min_block level) = source"
  by (simp add: propose_def new_proposal_def Let_def split: option.splits)

lemma map_raise_source: "map_raise f xs = Inr ys \<Longrightarrow> y \<in> set ys \<Longrightarrow> \<exists>x \<in> set xs. f x = Inr y"
  by (induction xs arbitrary: ys) (auto simp: and_then_Inr)

lemma calibrate_sources:
  assumes "calibrate gliner target min_samples sources origins t s = Inr ps" "p \<in> set ps"
  shows "p_source p \<in> set sources"
proof -
  obtain d where e: "d \<in> set (sort_key fst (load_decisions sources origins s))"
    "calibrate_one gliner target min_samples (map_of (rev (map (\<lambda>r. (ov_key r, ov_threshold r)) (list_overrides t)))) d = Inr p"
    using map_raise_source [OF assms(1) [unfolded calibrate_def Let_def] assms(2)] by (rule bexE)
  obtain src etype pts where d3: "d = ((src, etype), pts)" by (cases d) auto
  with e(2) have "p_source p = fst (fst d)" by (auto simp: calibrate_one_def and_then_Inr propose_source)
  with e(1) have d: "d \<in> set (load_decisions sources origins s)" "p_source p = fst (fst d)" by simp_all
  have "fst d \<in> fst ` set (load_decisions sources origins s)" using d(1) by simp
  then have "fst (fst d) \<in> set sources"
    by (auto simp: load_decisions_def keys_group_pairs row_point_def decided_rows_def split: if_splits option.splits score.splits)
  with d(2) show ?thesis by simp
qed

text \<open>No route stores a cutoff outside [0, 1] or for a stage that is not calibrated: the table of
  overrides stays well-formed, with one row per key, through every call, an error answer leaves it
  and the cache as they were unless a row was deleted, and a recalibration that is not asked to
  apply writes nothing.\<close>

lemma routes_keep_overrides:
  assumes "overrides_ok t"
  shows "(case recalibrate gliner now body s t cache of (t', cache', res) \<Rightarrow>
      overrides_ok t' \<and> (ri_apply body \<or> t' = t \<and> cache' = cache) \<and> (isl res \<longrightarrow> t' = t \<and> cache' = cache)) \<and>
    (case put_threshold now source etype c t cache of (t', cache', res) \<Rightarrow>
      overrides_ok t' \<and> (isl res \<longrightarrow> t' = t \<and> cache' = cache) \<and> (\<not> isl res \<longrightarrow> stored t' (source, etype) = Some c)) \<and>
    (case delete_threshold gliner source etype t cache of (t', cache', res) \<Rightarrow>
      overrides_ok t' \<and> (isl res \<longrightarrow> t' = t \<and> cache' = cache) \<and> (\<not> isl res \<longrightarrow> stored t' (source, etype) = None))"
proof (intro conjI)
  show "case recalibrate gliner now body s t cache of (t', cache', res) \<Rightarrow>
      overrides_ok t' \<and> (ri_apply body \<or> t' = t \<and> cache' = cache) \<and> (isl res \<longrightarrow> t' = t \<and> cache' = cache)"
  proof (cases "calibrate gliner (ri_target body) (nat (ri_min_samples body)) CALIBRATED_SOURCES (decision_origins (ri_bulk body) (ri_legacy body)) t s")
    case (Inl e)
    with assms show ?thesis by (simp add: recalibrate_def Let_def)
  next
    case (Inr ps)
    have src: "\<forall>p \<in> set ps. p_source p \<in> set CALIBRATED_SOURCES" using calibrate_sources [OF Inr] by blast
    obtain t' n where a: "apply_proposals ps now t = (t', n)" by fastforce
    have "overrides_ok t'" by (rule apply_ok [OF a assms src])
    with assms Inr a show ?thesis by (auto simp: recalibrate_def Let_def)
  qed
  show "case put_threshold now source etype c t cache of (t', cache', res) \<Rightarrow>
      overrides_ok t' \<and> (isl res \<longrightarrow> t' = t \<and> cache' = cache) \<and> (\<not> isl res \<longrightarrow> stored t' (source, etype) = Some c)"
  proof (cases "check_key source etype")
    case (Inl e)
    with assms show ?thesis by (simp add: put_threshold_def)
  next
    case (Inr u)
    then have src: "source \<in> set CALIBRATED_SOURCES" by (auto simp: check_key_def split: if_splits)
    let ?r = "\<lparr>ov_source = source, ov_type = etype, ov_threshold = c, ov_sample_size = 0, ov_target = None, ov_precision = None,
      ov_recall = None, ov_origin = ''manual'', ov_updated = now\<rparr>"
    have "overrides_ok (upsert ?r t)" if "0 \<le> c" "c \<le> 1"
      using assms keys_upsert src that by (auto simp: overrides_ok_def dest!: set_upsert)
    moreover have "stored (upsert ?r t) (source, etype) = Some c" by (simp add: stored_upsert) (simp add: ov_key_def)
    ultimately show ?thesis using assms Inr by (auto simp: put_threshold_def set_override_def)
  qed
  show "case delete_threshold gliner source etype t cache of (t', cache', res) \<Rightarrow>
      overrides_ok t' \<and> (isl res \<longrightarrow> t' = t \<and> cache' = cache) \<and> (\<not> isl res \<longrightarrow> stored t' (source, etype) = None)"
  proof (cases "check_key source etype")
    case (Inl e)
    with assms show ?thesis by (simp add: delete_threshold_def)
  next
    case (Inr u)
    then have "source \<in> {''cyner'', ''gliner''}" by (auto simp: check_key_def CALIBRATED_SOURCES_def split: if_splits)
    then obtain d where d: "stage_default gliner source = Inr d" by (cases "stage_default gliner source") (auto simp: stage_default_def)
    let ?t = "filter (\<lambda>x. ov_key x \<noteq> (source, etype)) t"
    have ok: "overrides_ok ?t" using assms by (auto simp: overrides_ok_def distinct_map_filter)
    have none: "stored ?t (source, etype) = None" by (rule stored_absent) auto
    have same: "?t = t" if "\<not> list_ex (\<lambda>x. ov_key x = (source, etype)) t"
      using that by (intro filter_True) (auto simp: list_ex_iff)
    show ?thesis
    proof (cases "list_ex (\<lambda>x. ov_key x = (source, etype)) t")
      case True
      with Inr d ok none show ?thesis by (simp add: delete_threshold_def clear_override_def)
    next
      case False
      with Inr same [OF False] assms show ?thesis by (simp add: delete_threshold_def clear_override_def)
    qed
  qed
qed

lemma routes_keep_overrides_witness:
  "overrides_ok (fst (put_threshold ''now'' ''gliner'' ''malware'' (1 / 2) [] None)) \<and>
   stored (fst (put_threshold ''now'' ''gliner'' ''malware'' (1 / 2) [] None)) (''gliner'', ''malware'') = Some (1 / 2)"
proof -
  have ok: "overrides_ok []" by (simp add: overrides_ok_def)
  have "check_key ''gliner'' ''malware'' = Inr ()" by (simp add: check_key_def CALIBRATED_SOURCES_def entity_types_def)
  then have p: "put_threshold ''now'' ''gliner'' ''malware'' (1 / 2) [] None =
      (set_override ''gliner'' ''malware'' (1 / 2) ''now'' [], None, Inr (1 / 2))"
    by (simp add: put_threshold_def reload_thresholds_def)
  note R = routes_keep_overrides [OF ok, where now = "''now''" and cache = None and source = "''gliner''" and etype = "''malware''" and c = "1 / 2"]
  have "case put_threshold ''now'' ''gliner'' ''malware'' (1 / 2) [] None of (t', cache', res) \<Rightarrow>
      overrides_ok t' \<and> (isl res \<longrightarrow> t' = [] \<and> cache' = None) \<and> (\<not> isl res \<longrightarrow> stored t' (''gliner'', ''malware'') = Some (1 / 2))" by (rule R [THEN conjunct2, THEN conjunct1])
  then show ?thesis unfolding p by simp
qed

end
