(* ===== verification/BodyLimit.thy ===== *)
theory BodyLimit
  imports Prelude
begin

text \<open>
  The most a request body may weigh (api/body_limit.py): the middleware in front of the
  application. The application is an argument, a (possibly endless) process that receives
  messages, sends messages and ends by returning or raising; a run is cut after a given number of
  its actions, and what is shown holds at every cut. The server's \<open>receive\<close> is the list of the
  messages still to come, then a disconnect. A body is its list of bytes. The router's patterns
  (starlette) and the JSON text of an answer are arguments.
\<close>

section \<open>Messages and the application\<close>

datatype incoming = Request "char list" bool | Disconnect | OtherIn

datatype outgoing = Start nat | Body string | OtherOut

codatatype app = Receive "incoming \<Rightarrow> app" | Send outgoing app | Return | Raise

record connection =
  inbox :: "incoming list"
  outbox :: "outgoing list"
  to_app :: "incoming list"
  received :: nat
  cut :: bool
  answered :: bool
  started :: bool

text \<open>\<open>to_app\<close> only observes the run: what the application has been given.\<close>

definition open_connection :: "incoming list \<Rightarrow> connection" where
  "open_connection ms = \<lparr>inbox = ms, outbox = [], to_app = [], received = 0, cut = False, answered = False, started = False\<rparr>"

definition receive :: "connection \<Rightarrow> incoming \<times> connection" where
  "receive s = (case inbox s of [] \<Rightarrow> (Disconnect, s) | m # ms \<Rightarrow> (m, s\<lparr>inbox := ms\<rparr>))"

definition send :: "outgoing list \<Rightarrow> connection \<Rightarrow> connection" where
  "send ms s = s\<lparr>outbox := outbox s @ ms\<rparr>"

section \<open>Budgets\<close>

definition ENVELOPE_BYTES :: nat where "ENVELOPE_BYTES = 64 * 1024"
definition DEFAULT_BUDGET_BYTES :: nat where "DEFAULT_BUDGET_BYTES = 1024 * 1024"

record scope =
  sc_http :: bool
  sc_method :: string
  sc_path :: string
  sc_root_path :: string
  sc_content_length :: "string option"

definition route_path :: "scope \<Rightarrow> string" where
  "route_path sc = (let path = sc_path sc; root = sc_root_path sc in
     if root \<noteq> [] \<and> starts_with path (root @ ''/'') then drop (length root) path else path)"

definition size_text :: "nat \<Rightarrow> string" where
  "size_text n = (if n \<ge> 1024 * 1024 then show_nat (n div (1024 * 1024)) @ '' MB'' else show_nat (n div 1024) @ '' KB'')"

type_synonym routes = "(string \<times> (string \<Rightarrow> bool) \<times> nat) list"

definition compiled_routes :: "(string \<Rightarrow> string \<Rightarrow> bool) \<Rightarrow> ((string \<times> string) \<times> nat) list \<Rightarrow> routes" where
  "compiled_routes compile_path budgets = map (\<lambda>((meth, path), budget). (meth, compile_path path, budget)) budgets"

fun budget_of :: "routes \<Rightarrow> nat option \<Rightarrow> string \<Rightarrow> string \<Rightarrow> nat option" where
  "budget_of [] dflt meth path = dflt"
| "budget_of ((route_method, pattern, budget) # rs) dflt meth path =
    (if route_method = meth \<and> pattern path then Some budget else budget_of rs dflt meth path)"

section \<open>Answers\<close>

definition hex_digit :: "nat \<Rightarrow> char" where
  "hex_digit n = (if n < 10 then char_of (48 + n) else char_of (55 + n))"

definition percent :: "nat \<Rightarrow> string" where
  "percent n = [CHR ''%'', hex_digit (n div 16), hex_digit (n mod 16)]"

text \<open>\<open>urllib.parse.quote\<close>: the UTF-8 bytes of everything but letters, digits and \<open>_.-~/\<close>.\<close>

definition quote_char :: "char \<Rightarrow> string" where
  "quote_char c = (let n = (of_char c :: nat) in
     if n < 128 \<and> (is_word_char c \<or> c \<in> set ''.-~/'') then [c]
     else if n < 128 then percent n
     else percent (192 + n div 64) @ percent (128 + n mod 64))"

definition quote_path :: "string \<Rightarrow> string" where
  "quote_path s = concat (map quote_char s)"

definition too_large :: "string \<Rightarrow> nat \<Rightarrow> string" where
  "too_large path budget = ''Request too large. '' @ quote_path path @ '' accepts at most '' @ size_text budget @ ''.''"

text \<open>\<open>JSONResponse({"detail": ...}, status)\<close>: a start and a body; \<open>json\<close> renders the detail.\<close>

definition answer_messages :: "(string \<Rightarrow> string) \<Rightarrow> nat \<Rightarrow> string \<Rightarrow> outgoing list" where
  "answer_messages json code detail = [Start code, Body (json detail)]"

section \<open>The declared length\<close>

definition lstrip_zeros :: "string \<Rightarrow> string" where
  "lstrip_zeros ds = dropWhile (\<lambda>c. c = CHR ''0'') ds"

datatype length_verdict = Absent | Invalid | Over | Within

definition declared_length :: "nat \<Rightarrow> string option \<Rightarrow> length_verdict" where
  "declared_length budget declared = (case declared of None \<Rightarrow> Absent
     | Some text_ \<Rightarrow>
        (let digits = strip text_ in
         if \<not> (digits \<noteq> [] \<and> list_all is_digit digits) then Invalid
         else let digits = (if lstrip_zeros digits = [] then ''0'' else lstrip_zeros digits) in
           if length digits > length (show_nat budget) \<or> decimal digits > budget then Over else Within))"

section \<open>The two wrappers\<close>

definition counted_receive :: "(string \<Rightarrow> string) \<Rightarrow> string \<Rightarrow> nat \<Rightarrow> connection \<Rightarrow> incoming \<times> connection" where
  "counted_receive json detail budget s =
    (if cut s then (Disconnect, s)
     else case receive s of
       (Request body more_body, s) \<Rightarrow>
         let s = s\<lparr>received := received s + length body\<rparr> in
         if received s > budget then
           let s = s\<lparr>cut := True\<rparr>;
               s = (if \<not> started s then send (answer_messages json 413 detail) (s\<lparr>answered := True\<rparr>) else s)
           in (Disconnect, s)
         else (Request body more_body, s)
     | (m, s) \<Rightarrow> (m, s))"

definition guarded_send :: "outgoing \<Rightarrow> connection \<Rightarrow> connection" where
  "guarded_send m s =
    (if answered s then s
     else send [m] (case m of Start _ \<Rightarrow> s\<lparr>started := True\<rparr> | _ \<Rightarrow> s))"

datatype ending = Running | Done | Raised

definition given :: "incoming \<Rightarrow> connection \<Rightarrow> connection" where
  "given m s = s\<lparr>to_app := to_app s @ [m]\<rparr>"

text \<open>The application between the wrappers, and the exception that is dropped after the answer.\<close>

fun guarded_run :: "nat \<Rightarrow> (string \<Rightarrow> string) \<Rightarrow> string \<Rightarrow> nat \<Rightarrow> app \<Rightarrow> connection \<Rightarrow> connection \<times> ending" where
  "guarded_run 0 json detail budget a s = (s, Running)"
| "guarded_run (Suc n) json detail budget a s = (case a of
     Receive k \<Rightarrow> (case counted_receive json detail budget s of (m, s) \<Rightarrow> guarded_run n json detail budget (k m) (given m s))
   | Send m a \<Rightarrow> guarded_run n json detail budget a (guarded_send m s)
   | Return \<Rightarrow> (s, Done)
   | Raise \<Rightarrow> (s, if \<not> answered s then Raised else Done))"

fun direct_run :: "nat \<Rightarrow> app \<Rightarrow> connection \<Rightarrow> connection \<times> ending" where
  "direct_run 0 a s = (s, Running)"
| "direct_run (Suc n) a s = (case a of
     Receive k \<Rightarrow> (case receive s of (m, s) \<Rightarrow> direct_run n (k m) (given m s))
   | Send m a \<Rightarrow> direct_run n a (send [m] s)
   | Return \<Rightarrow> (s, Done)
   | Raise \<Rightarrow> (s, Raised))"

definition middleware :: "nat \<Rightarrow> (string \<Rightarrow> string) \<Rightarrow> routes \<Rightarrow> nat option \<Rightarrow> scope \<Rightarrow> app \<Rightarrow> connection \<Rightarrow> connection \<times> ending" where
  "middleware n json rs dflt sc a s =
    (let path = (if sc_http sc then route_path sc else []) in
     case (if path \<noteq> [] then budget_of rs dflt (sc_method sc) path else None) of
       None \<Rightarrow> direct_run n a s
     | Some budget \<Rightarrow>
        (case declared_length budget (sc_content_length sc) of
           Invalid \<Rightarrow> (send (answer_messages json 400 ''Invalid Content-Length header.'') s, Done)
         | Over \<Rightarrow> (send (answer_messages json 413 (too_large path budget)) s, Done)
         | _ \<Rightarrow> guarded_run n json (too_large path budget) budget a s))"

section \<open>The declared length, by its value\<close>

lemma lstrip_zeros_decimal: "decimal (lstrip_zeros ds) = decimal ds"
proof (induction ds)
  case (Cons d ds)
  have "decimal (CHR ''0'' # ds) = decimal ds"
    using decimal_append [of "[CHR ''0'']" ds] by (simp add: decimal_def)
  with Cons show ?case by (simp add: lstrip_zeros_def)
qed (simp add: lstrip_zeros_def)

lemma decimal_leading:
  assumes "list_all is_digit (d # ds)" "d \<noteq> CHR ''0''"
  shows "10 ^ length ds \<le> decimal (d # ds)"
proof -
  have "(of_char d :: nat) \<noteq> 48" 
  proof
    assume "(of_char d :: nat) = 48"
    then have "(of_char d :: nat) = of_char CHR ''0''" by simp
    then have "d = CHR ''0''" by (simp only: of_char_eq_iff)
    with assms(2) show False by simp
  qed
  with assms(1) have "1 \<le> (of_char d :: nat) - 48" by (auto simp: is_digit_def Let_def)
  then have "1 \<le> decimal [d]" by (simp add: decimal_def)
  then have "1 * 10 ^ length ds \<le> decimal [d] * 10 ^ length ds" by (rule mult_le_mono1)
  moreover have "decimal (d # ds) = decimal [d] * 10 ^ length ds + decimal ds" using decimal_append [of "[d]" ds] by simp
  ultimately show ?thesis by linarith
qed

lemma declared_length_value:
  "declared_length b (Some t) = (if \<not> (strip t \<noteq> [] \<and> list_all is_digit (strip t)) then Invalid
     else if decimal (strip t) > b then Over else Within)"
proof (cases "strip t \<noteq> [] \<and> list_all is_digit (strip t)")
  case True
  let ?z = "lstrip_zeros (strip t)"
  have v: "decimal ?z = decimal (strip t)" by (rule lstrip_zeros_decimal)
  show ?thesis
  proof (cases ?z)
    case Nil
    have "0 < length (show_nat b)" by (subst show_nat.simps) simp
    with True Nil v show ?thesis by (simp add: declared_length_def Let_def) (simp add: decimal_def)
  next
    case (Cons d ds)
    have "list_all is_digit ?z" using True by (auto simp: lstrip_zeros_def list_all_iff dest: set_dropWhileD)
    moreover have "d \<noteq> CHR ''0''" using Cons hd_dropWhile [of "\<lambda>c. c = CHR ''0''" "strip t"] by (simp add: lstrip_zeros_def)
    ultimately have low: "10 ^ length ds \<le> decimal (d # ds)" using decimal_leading Cons by simp
    have up: "b < 10 ^ length (show_nat b)" using decimal_less [of "show_nat b"] show_nat_digits [of b] by simp
    have "b < decimal (d # ds)" if "length (show_nat b) < length (d # ds)"
    proof -
      from that have "(10 :: nat) ^ length (show_nat b) \<le> 10 ^ length ds" by (intro power_increasing) auto
      with low up show ?thesis by linarith
    qed
    with True Cons v show ?thesis by (auto simp: declared_length_def Let_def)
  qed
qed (auto simp: declared_length_def)

section \<open>Invariant of a guarded run\<close>

definition body_bytes :: "incoming list \<Rightarrow> nat" where
  "body_bytes ms = (\<Sum>m \<leftarrow> ms. case m of Request body _ \<Rightarrow> length body | _ \<Rightarrow> 0)"

definition no_start :: "outgoing list \<Rightarrow> bool" where
  "no_start ms \<longleftrightarrow> (\<forall>m \<in> set ms. \<not> (\<exists>code. m = Start code))"

lemma body_bytes_simps [simp]:
  "body_bytes [] = 0" "body_bytes (m # ms) = (case m of Request body _ \<Rightarrow> length body | _ \<Rightarrow> 0) + body_bytes ms"
  "body_bytes (xs @ ys) = body_bytes xs + body_bytes ys"
  by (simp_all add: body_bytes_def)

definition conn_ok :: "outgoing list \<Rightarrow> nat \<Rightarrow> incoming list \<Rightarrow> connection \<Rightarrow> bool" where
  "conn_ok answer b ms s \<longleftrightarrow> (\<exists>c. ms = c @ inbox s \<and> received s = body_bytes c) \<and> cut s = (b < received s) \<and>
     body_bytes (to_app s) \<le> b \<and> (\<not> cut s \<longrightarrow> \<not> answered s \<and> body_bytes (to_app s) = received s) \<and>
     (cut s \<longrightarrow> started s \<or> answered s) \<and>
     (if answered s then (\<exists>pre. outbox s = pre @ answer \<and> no_start pre) else started s = (\<not> no_start (outbox s)))"

lemma conn_ok_open: "conn_ok answer b ms (open_connection ms)"
  by (simp add: conn_ok_def open_connection_def no_start_def)

lemma conn_ok_send: "conn_ok answer b ms s \<Longrightarrow> conn_ok answer b ms (guarded_send m s)"
  by (auto simp: conn_ok_def guarded_send_def send_def no_start_def split: outgoing.splits)

lemma conn_ok_receive:
  assumes "conn_ok (answer_messages json 413 detail) b ms s" "counted_receive json detail b s = (m, s')"
  shows "conn_ok (answer_messages json 413 detail) b ms (given m s')"
proof (cases "cut s")
  case True
  with assms show ?thesis by (auto simp: counted_receive_def conn_ok_def given_def)
next
  case False
  obtain c where c: "ms = c @ inbox s" "received s = body_bytes c" using assms(1) by (auto simp: conn_ok_def)
  show ?thesis
  proof (cases "inbox s")
    case Nil
    with False assms show ?thesis by (auto simp: counted_receive_def receive_def conn_ok_def given_def)
  next
    case (Cons x xs)
    show ?thesis
    proof (cases x)
      case (Request body more_body)
      have c': "ms = (c @ [x]) @ xs" "received s + length body = body_bytes (c @ [x])" using c Cons Request by simp_all
      show ?thesis
      proof (cases "b < received s + length body")
        case True
        with False assms Cons Request c' show ?thesis
          by (auto simp: counted_receive_def receive_def conn_ok_def given_def send_def Let_def intro!: exI [of _ "c @ [x]"])
      next
        case nocut: False
        with False assms Cons Request c' show ?thesis
          by (auto simp: counted_receive_def receive_def conn_ok_def given_def send_def Let_def intro!: exI [of _ "c @ [x]"])
      qed
    next
      case Disconnect
      with False assms Cons c show ?thesis
        by (auto simp: counted_receive_def receive_def conn_ok_def given_def intro!: exI [of _ "c @ [x]"])
    next
      case OtherIn
      with False assms Cons c show ?thesis
        by (auto simp: counted_receive_def receive_def conn_ok_def given_def intro!: exI [of _ "c @ [x]"])
    qed
  qed
qed

lemma guarded_run_ok:
  "conn_ok (answer_messages json 413 detail) b ms s \<Longrightarrow> guarded_run n json detail b a s = (s', e) \<Longrightarrow>
   conn_ok (answer_messages json 413 detail) b ms s' \<and> (e = Raised \<longrightarrow> \<not> answered s')"
proof (induction n arbitrary: a s)
  case (Suc n)
  show ?case
  proof (cases a)
    case (Receive k)
    obtain m t where t: "counted_receive json detail b s = (m, t)" by fastforce
    from Suc.IH [OF conn_ok_receive [OF Suc.prems(1) t], of "k m"] Suc.prems(2) Receive t show ?thesis by simp
  next
    case (Send m a')
    from Suc.IH [OF conn_ok_send [OF Suc.prems(1)], of a' m] Suc.prems(2) Send show ?thesis by simp
  qed (use Suc.prems in auto)
qed auto

text \<open>Against the unguarded run: while the whole body fits, nothing is cut.\<close>

definition same_view :: "connection \<Rightarrow> connection \<Rightarrow> bool" where
  "same_view s t \<longleftrightarrow> inbox s = inbox t \<and> outbox s = outbox t \<and> to_app s = to_app t"

lemma guarded_transparent:
  "same_view s t \<Longrightarrow> \<not> cut s \<Longrightarrow> \<not> answered s \<Longrightarrow> received s + body_bytes (inbox s) \<le> b \<Longrightarrow>
   same_view (fst (guarded_run n json detail b a s)) (fst (direct_run n a t)) \<and>
   snd (guarded_run n json detail b a s) = snd (direct_run n a t)"
proof (induction n arbitrary: a s t)
  case (Suc n)
  show ?case
  proof (cases a)
    case (Receive k)
    obtain m s' where s': "counted_receive json detail b s = (m, s')" by fastforce
    obtain m' t' where t': "receive t = (m', t')" by fastforce
    have "m = m' \<and> same_view (given m s') (given m t') \<and> \<not> cut s' \<and> \<not> answered s' \<and> received s' + body_bytes (inbox s') \<le> b"
      using Suc.prems s' t'
      by (auto simp: counted_receive_def receive_def same_view_def given_def Let_def split: list.splits incoming.splits if_splits)
    with Suc.IH [of "given m s'" "given m t'" "k m"] Receive s' t' show ?thesis by (auto simp: given_def)
  next
    case (Send m a')
    have "same_view (guarded_send m s) (send [m] t)" "\<not> cut (guarded_send m s)" "\<not> answered (guarded_send m s)"
      "received (guarded_send m s) + body_bytes (inbox (guarded_send m s)) \<le> b"
      using Suc.prems by (auto simp: same_view_def guarded_send_def send_def split: outgoing.splits)
    with Suc.IH Send show ?thesis by simp
  qed (use Suc.prems in \<open>auto simp: same_view_def\<close>)
qed (simp add: same_view_def)

section \<open>Properties\<close>

text \<open>C15. On a route with a budget the application is never given more body than the budget, whatever it
  does and whatever the client sends. Once the body has passed it, either the application's
  response had begun or the client's answer is the 413, with no other response start before it and
  nothing after it, and an exception of the application is not raised over it; a declared length
  that is not a number or is over the budget is refused before a byte is read.\<close>

lemma body_limit_enforced:
  assumes "sc_http sc" "route_path sc \<noteq> []" "budget_of rs dflt (sc_method sc) (route_path sc) = Some b"
    and "middleware n json rs dflt sc a (open_connection ms) = (s, e)"
  shows "body_bytes (to_app s) \<le> b \<and>
    (cut s \<longrightarrow> b < body_bytes ms \<and> (started s \<or> answered s)) \<and>
    (answered s \<longrightarrow> e \<noteq> Raised \<and>
      (\<exists>pre. outbox s = pre @ answer_messages json 413 (too_large (route_path sc) b) \<and> no_start pre)) \<and>
    (declared_length b (sc_content_length sc) = Over \<longrightarrow>
      inbox s = ms \<and> outbox s = answer_messages json 413 (too_large (route_path sc) b)) \<and>
    (declared_length b (sc_content_length sc) = Invalid \<longrightarrow>
      inbox s = ms \<and> outbox s = answer_messages json 400 ''Invalid Content-Length header.'')"
proof (cases "declared_length b (sc_content_length sc) \<in> {Over, Invalid}")
  case True
  with assms show ?thesis by (auto simp: middleware_def open_connection_def send_def Let_def)
next
  case False
  then have "guarded_run n json (too_large (route_path sc) b) b a (open_connection ms) = (s, e)"
    using assms by (cases "declared_length b (sc_content_length sc)") (auto simp: middleware_def Let_def)
  from guarded_run_ok [OF conn_ok_open this] False show ?thesis
    by (auto simp: conn_ok_def)
qed

text \<open>The middleware is invisible to a request within its budget: when the body weighs at most the
  budget and the declared length, read as a number, does too (or there is none), the application
  receives, sends and ends as it would without it. A route without a budget is never touched.\<close>

lemma body_limit_transparent:
  assumes "case sc_content_length sc of None \<Rightarrow> True
      | Some t \<Rightarrow> strip t \<noteq> [] \<and> list_all is_digit (strip t) \<and>
          (\<forall>b. budget_of rs dflt (sc_method sc) (route_path sc) = Some b \<longrightarrow> decimal (strip t) \<le> b)"
    and "\<forall>b. budget_of rs dflt (sc_method sc) (route_path sc) = Some b \<longrightarrow> body_bytes ms \<le> b"
  shows "same_view (fst (middleware n json rs dflt sc a (open_connection ms))) (fst (direct_run n a (open_connection ms))) \<and>
    snd (middleware n json rs dflt sc a (open_connection ms)) = snd (direct_run n a (open_connection ms))"
proof (cases "sc_http sc \<and> route_path sc \<noteq> [] \<and> budget_of rs dflt (sc_method sc) (route_path sc) \<noteq> None")
  case True
  then obtain b where b: "budget_of rs dflt (sc_method sc) (route_path sc) = Some b" by auto
  have "declared_length b (sc_content_length sc) \<in> {Absent, Within}"
    using assms(1) b by (cases "sc_content_length sc") (auto simp: declared_length_value declared_length_def [of _ None])
  then have m: "middleware n json rs dflt sc a (open_connection ms) =
      guarded_run n json (too_large (route_path sc) b) b a (open_connection ms)"
    using True b by (auto simp: middleware_def Let_def)
  have "body_bytes ms \<le> b" using assms(2) b by blast
  then show ?thesis unfolding m by (intro guarded_transparent) (simp_all add: same_view_def open_connection_def)
next
  case False
  then have "middleware n json rs dflt sc a (open_connection ms) = direct_run n a (open_connection ms)"
    by (auto simp: middleware_def Let_def)
  then show ?thesis by (simp add: same_view_def)
qed

text \<open>An application that reads once and answers 200.\<close>

definition example_app :: app where
  "example_app = Receive (\<lambda>m. case m of Request body more_body \<Rightarrow> Send (Start 200) Return | _ \<Rightarrow> Raise)"

definition example_scope :: scope where
  "example_scope = \<lparr>sc_http = True, sc_method = ''POST'', sc_path = ''/u'', sc_root_path = [], sc_content_length = Some ''002''\<rparr>"

definition example_routes :: routes where
  "example_routes = compiled_routes (\<lambda>p q. p = q) [((''POST'', ''/u''), 2)]"

lemma example_budget: "budget_of example_routes None (sc_method example_scope) (route_path example_scope) = Some 2"
  by (simp add: example_routes_def compiled_routes_def example_scope_def route_path_def)

lemma body_limit_enforced_witness:
  "body_bytes (to_app (fst (middleware 9 id example_routes None example_scope example_app (open_connection [Request ''abc'' False])))) \<le> 2 \<and>
   snd (middleware 9 id example_routes None example_scope example_app (open_connection [Request ''abc'' False])) \<noteq> Raised"
proof -
  let ?m = "middleware 9 id example_routes None example_scope example_app (open_connection [Request ''abc'' False])"
  have h: "sc_http example_scope" "route_path example_scope \<noteq> []" by (simp_all add: example_scope_def route_path_def)
  have e: "?m = (fst ?m, snd ?m)" by simp
  have d: "declared_length 2 (Some ''002'') = Within"
    by (simp add: declared_length_value strip_def strip_by_def is_space_def is_digit_def decimal_def Let_def)
  then have "?m = guarded_run 9 id (too_large (route_path example_scope) 2) 2 example_app (open_connection [Request ''abc'' False])"
    using h example_budget by (simp add: middleware_def) (simp add: example_scope_def)
  then have "answered (fst ?m)"
    by (simp add: numeral_eq_Suc example_app_def counted_receive_def receive_def open_connection_def send_def given_def Let_def)
  with body_limit_enforced [OF h example_budget e] show ?thesis by blast
qed

lemma body_limit_transparent_witness:
  "snd (middleware 9 id example_routes None example_scope example_app (open_connection [Request ''ab'' False])) =
   snd (direct_run 9 example_app (open_connection [Request ''ab'' False]))"
proof -
  have 1: "case sc_content_length example_scope of None \<Rightarrow> True
      | Some t \<Rightarrow> strip t \<noteq> [] \<and> list_all is_digit (strip t) \<and>
          (\<forall>b. budget_of example_routes None (sc_method example_scope) (route_path example_scope) = Some b \<longrightarrow> decimal (strip t) \<le> b)"
    unfolding example_budget
    by (simp add: example_scope_def strip_def strip_by_def is_space_def is_digit_def decimal_def Let_def)
  have 2: "\<forall>b. budget_of example_routes None (sc_method example_scope) (route_path example_scope) = Some b \<longrightarrow>
      body_bytes [Request ''ab'' False] \<le> b" by (simp add: example_budget)
  from body_limit_transparent [OF 1 2] show ?thesis by blast
qed

end
