(* ===== verification/Ledger.thy ===== *)
theory Ledger
  imports StixGraph
begin

text \<open>
  The mapping ledger (pipeline/bundle_ledger.py): what Stage 4 did with each input, carried through
  the alias merge and the baseline merge. An entry is the dict the code keeps, its values a sum of
  the Python values that occur in it; a refused edge, whose three key fields are always there, is a
  record with a dict for the rest. \<open>relationship\<close> returns the entry for its caller to amend: the
  model returns its index.
\<close>

section \<open>Values and entries\<close>

datatype pyval = NoneV | StrV string | BoolV bool | IntV int | ListV "pyval list" | DictV "(string \<times> pyval) list"

type_synonym entry = "(string, pyval) dict"

fun truthy_val :: "pyval \<Rightarrow> bool" where
  "truthy_val NoneV = False"
| "truthy_val (StrV s) = (s \<noteq> [])"
| "truthy_val (BoolV b) = b"
| "truthy_val (IntV i) = (i \<noteq> 0)"
| "truthy_val (ListV xs) = (xs \<noteq> [])"
| "truthy_val (DictV d) = (d \<noteq> [])"

definition clean :: "entry \<Rightarrow> entry" where
  "clean info = filter (\<lambda>(k, v). v \<noteq> NoneV) info"

definition opt_val :: "string option \<Rightarrow> pyval" where
  "opt_val s = (case s of None \<Rightarrow> NoneV | Some t \<Rightarrow> StrV t)"

text \<open>What the ledger reads of a STIX object.\<close>

record ledger_obj =
  lo_id :: "string option"
  lo_type :: string
  lo_name :: "string option"
  lo_inference_rule :: "pyval option"
  lo_policy_rule :: "pyval option"

record refused_edge =
  rf_source :: string
  rf_verb :: string
  rf_target :: string
  rf_info :: entry

record ledger =
  lg_objects :: "(string, entry) dict"
  lg_entities :: "entry list"
  lg_relationships :: "entry list"
  lg_removed :: "entry list"
  lg_refused :: "refused_edge list"

definition LEDGER_VERSION :: nat where "LEDGER_VERSION = 1"

definition new_ledger :: ledger where
  "new_ledger = \<lparr>lg_objects = [], lg_entities = [], lg_relationships = [], lg_removed = [], lg_refused = []\<rparr>"

section \<open>Origins\<close>

definition inference_origin :: "pyval option \<Rightarrow> string option" where
  "inference_origin rule = (case rule of
     Some (StrV r) \<Rightarrow>
       if starts_with r ''attack-reference'' then Some ''completion_reference''
       else if starts_with r ''transitive'' then Some ''completion_transitive''
       else if r = ''long-distance'' then Some ''completion_long_distance''
       else None
   | _ \<Rightarrow> None)"

definition rel_origin_from_props :: "ledger_obj \<Rightarrow> string" where
  "rel_origin_from_props rel = (case inference_origin (lo_inference_rule rel) of
     Some origin \<Rightarrow> origin
   | None \<Rightarrow> (case lo_policy_rule rel of
        Some v \<Rightarrow> if truthy_val v then ''policy_pin'' else ''unknown''
      | None \<Rightarrow> ''unknown''))"

section \<open>Recording\<close>

definition record_object :: "ledger_obj \<Rightarrow> string \<Rightarrow> entry \<Rightarrow> ledger \<Rightarrow> ledger" where
  "record_object obj origin info L = (case lo_id obj of
     Some oid \<Rightarrow>
       if oid \<noteq> [] \<and> map_of (lg_objects L) oid = None
       then L\<lparr>lg_objects := dset oid ((''origin'', StrV origin) # clean info) (lg_objects L)\<rparr> else L
   | None \<Rightarrow> L)"

definition annotate :: "string option \<Rightarrow> entry \<Rightarrow> ledger \<Rightarrow> ledger" where
  "annotate stix_id info L = (case stix_id of None \<Rightarrow> L
     | Some i \<Rightarrow> (case map_of (lg_objects L) i of None \<Rightarrow> L
         | Some e \<Rightarrow> L\<lparr>lg_objects := dset i (dupdate e (clean info)) (lg_objects L)\<rparr>))"

definition left_out :: "string \<Rightarrow> string \<Rightarrow> string \<Rightarrow> entry \<Rightarrow> ledger \<Rightarrow> ledger" where
  "left_out stix_id kind reason info L =
    L\<lparr>lg_removed := lg_removed L @
      [dupdate [(''stix_id'', StrV stix_id), (''kind'', StrV kind), (''reason'', StrV reason)] (clean info)]\<rparr>"

definition ledger_entity :: "string \<Rightarrow> string \<Rightarrow> string \<Rightarrow> ledger_obj option \<Rightarrow> string option \<Rightarrow> entry \<Rightarrow> ledger \<Rightarrow> ledger" where
  "ledger_entity val entity_type outcome obj reason info L =
    (let e = [(''value'', StrV val), (''entity_type'', StrV entity_type), (''outcome'', StrV outcome)];
         e = (case obj of None \<Rightarrow> e
              | Some x \<Rightarrow> e @ [(''stix_id'', opt_val (lo_id x)), (''stix_type'', StrV (lo_type x))] @
                  (case lo_name x of Some (c # cs) \<Rightarrow> [(''stix_name'', StrV (c # cs))] | _ \<Rightarrow> []));
         e = (case reason of Some (c # cs) \<Rightarrow> dset ''reason'' (StrV (c # cs)) e | _ \<Rightarrow> e)
     in L\<lparr>lg_entities := lg_entities L @ [dupdate e (clean info)]\<rparr>)"

definition ledger_relationship :: "triple \<Rightarrow> string \<Rightarrow> entry \<Rightarrow> ledger \<Rightarrow> nat \<times> ledger" where
  "ledger_relationship rel_in outcome info L = (case rel_in of (source_value, relationship_type, target_value) \<Rightarrow>
     (let e = [(''source_value'', StrV source_value), (''relationship_type'', StrV relationship_type),
               (''target_value'', StrV target_value), (''outcome'', StrV outcome), (''changes'', ListV [])]
      in (length (lg_relationships L), L\<lparr>lg_relationships := lg_relationships L @ [dupdate e (clean info)]\<rparr>)))"

definition names_id :: "string \<Rightarrow> entry \<Rightarrow> bool" where
  "names_id i e \<longleftrightarrow> map_of e ''stix_id'' = Some (StrV i)"

text \<open>\<open>e["outcome"] = "merged"; e["merged_with"] = e["stix_id"] = new_id\<close>\<close>

definition merged_with :: "string \<Rightarrow> entry \<Rightarrow> entry" where
  "merged_with new_id e =
    dset ''stix_id'' (StrV new_id) (dset ''merged_with'' (StrV new_id) (dset ''outcome'' (StrV ''merged'') e))"

definition replace_relationship :: "string \<Rightarrow> string \<Rightarrow> ledger \<Rightarrow> ledger" where
  "replace_relationship old_id new_id L =
    (let rels = map (\<lambda>e. if names_id old_id e then merged_with new_id e else e) (lg_relationships L);
         objects = (case map_of (lg_objects L) old_id of
            None \<Rightarrow> lg_objects L
          | Some origin \<Rightarrow> dset new_id origin (dpop old_id (lg_objects L)))
     in L\<lparr>lg_relationships := rels, lg_objects := objects\<rparr>)"

section \<open>Merging\<close>

definition merged_as :: "string \<Rightarrow> entry \<Rightarrow> entry" where
  "merged_as reason e =
    (let e = (case map_of e ''reason'' of
           Some previous \<Rightarrow>
             if map_of e ''outcome'' = Some (StrV ''merged'') \<and> truthy_val previous \<and> previous \<noteq> StrV reason
             then let via = (case map_of e ''merged_via'' of Some (ListV vs) \<Rightarrow> vs | _ \<Rightarrow> []) in
               (if previous \<notin> set via then dset ''merged_via'' (ListV (via @ [previous])) e
                else e)
             else e
         | None \<Rightarrow> e)
     in dset ''reason'' (StrV reason) (dset ''outcome'' (StrV ''merged'') e))"

text \<open>An entry on an absorbed id moves to the node that absorbed it.\<close>

definition absorb :: "string \<Rightarrow> string \<times> string \<Rightarrow> entry \<Rightarrow> entry" where
  "absorb reason = (\<lambda>(dup, canon) e. if names_id dup e then dset ''stix_id'' (StrV canon) (merged_as reason e) else e)"

text \<open>An entry on an edge a merge removed: merged with the edge kept, or dropped.\<close>

definition drop_edge :: "removed_rel \<Rightarrow> entry \<Rightarrow> entry" where
  "drop_edge r e =
    (if \<not> names_id (rm_id r) e then e
     else case rm_kept r of
       Some (c # cs) \<Rightarrow> merged_with (c # cs) e
     | _ \<Rightarrow> dpop ''stix_id'' (dset ''reason'' (StrV (rm_reason r)) (dset ''outcome'' (StrV ''dropped'') e)))"

definition removed_edge :: "removed_rel \<Rightarrow> entry" where
  "removed_edge r = [(''stix_id'', StrV (rm_id r)), (''kind'', StrV ''relationship''), (''reason'', StrV (rm_reason r)),
     (''replaced_by'', opt_val (rm_kept r))]"

definition remove_edges :: "removed_rel list \<Rightarrow> ledger \<Rightarrow> ledger" where
  "remove_edges rs L = fold (\<lambda>r L. L\<lparr>lg_removed := lg_removed L @ [removed_edge r],
     lg_objects := dpop (rm_id r) (lg_objects L), lg_relationships := map (drop_edge r) (lg_relationships L)\<rparr>) rs L"

definition set_ends :: "string \<times> string \<times> string \<Rightarrow> entry \<Rightarrow> entry" where
  "set_ends = (\<lambda>(rid, src, tgt) e. if names_id rid e
     then dset ''target_ref'' (StrV tgt) (dset ''source_ref'' (StrV src) e) else e)"

definition rewire_edges :: "(string, string \<times> string) dict \<Rightarrow> ledger \<Rightarrow> ledger" where
  "rewire_edges remapped L = fold (\<lambda>p L. L\<lparr>lg_relationships := map (set_ends p) (lg_relationships L)\<rparr>) remapped L"

definition follow_end :: "(string, string) dict \<Rightarrow> string \<Rightarrow> entry \<Rightarrow> entry" where
  "follow_end remap key e = (case map_of e key of
     Some (StrV i) \<Rightarrow> (case map_of remap i of Some c \<Rightarrow> dset key (StrV c) e | None \<Rightarrow> e)
   | _ \<Rightarrow> e)"

definition follow_refs :: "(string, string) dict \<Rightarrow> ledger \<Rightarrow> ledger" where
  "follow_refs remap L = L\<lparr>lg_relationships :=
     map (\<lambda>e. follow_end remap ''target_ref'' (follow_end remap ''source_ref'' e)) (lg_relationships L)\<rparr>"

type_synonym refused_id = "string \<times> string \<times> string \<times> pyval option \<times> pyval option"

definition refused_key :: "refused_edge \<Rightarrow> refused_id" where
  "refused_key e = (rf_source e, rf_verb e, rf_target e, map_of (rf_info e) ''origin'', map_of (rf_info e) ''rule'')"

definition move_refused :: "(string, string) dict \<Rightarrow> refused_edge \<Rightarrow> refused_edge" where
  "move_refused remap e = e\<lparr>rf_source := dget remap (rf_source e) (rf_source e), rf_target := dget remap (rf_target e) (rf_target e)\<rparr>"

definition follow_refused :: "(string, string) dict \<Rightarrow> ledger \<Rightarrow> ledger" where
  "follow_refused remap L =
    (let kept = fold (\<lambda>e kept. let e = move_refused remap e in dsetdefault (refused_key e) e kept) (lg_refused L) []
     in L\<lparr>lg_refused := map snd kept\<rparr>)"

definition absorbed_by_alias :: "(string, string) dict \<Rightarrow> string \<times> string \<Rightarrow> entry" where
  "absorbed_by_alias names = (\<lambda>(dup, canon). clean [(''stix_id'', StrV dup), (''kind'', StrV ''object''),
     (''reason'', StrV ''alias_merge''), (''replaced_by'', StrV canon), (''name'', opt_val (map_of names dup))])"

definition alias_absorptions :: "(string, string) dict \<Rightarrow> (string, string) dict \<Rightarrow> ledger \<Rightarrow> ledger" where
  "alias_absorptions remap names L = fold (\<lambda>p L. L\<lparr>lg_removed := lg_removed L @ [absorbed_by_alias names p],
     lg_objects := dpop (fst p) (lg_objects L), lg_entities := map (absorb ''alias_merge'' p) (lg_entities L)\<rparr>) remap L"

definition apply_alias_merge :: "(string, string) dict \<Rightarrow> removed_rel list \<Rightarrow> (string, string \<times> string) dict \<Rightarrow>
    (string, string) dict \<Rightarrow> ledger \<Rightarrow> ledger" where
  "apply_alias_merge merged removed_rels remapped names L =
    follow_refused merged (follow_refs merged (rewire_edges remapped (remove_edges removed_rels
      (alias_absorptions merged names L))))"

record baseline_result =
  br_remap :: "(string, string) dict"
  br_removed :: "removed_rel list"
  br_rejected :: "string list"
  br_remapped :: "(string, string \<times> string) dict"
  br_dropped :: "(string, string) dict"

text \<open>\<open>br_rejected\<close> is a set in the code, a list of its elements here: it is sorted before use.\<close>

definition baseline_absorptions :: "(string, string) dict \<Rightarrow> ledger \<Rightarrow> ledger" where
  "baseline_absorptions remap L = fold (\<lambda>p L. L\<lparr>lg_removed := lg_removed L @
       [[(''stix_id'', StrV (fst p)), (''kind'', StrV ''object''), (''reason'', StrV ''baseline_match''), (''replaced_by'', StrV (snd p))]],
     lg_entities := map (absorb ''baseline_match'' p) (lg_entities L),
     lg_relationships := map (absorb ''baseline_match'' p) (lg_relationships L),
     lg_objects := dpop (fst p) (lg_objects L)\<rparr>) remap L"

definition reject_entity :: "string \<Rightarrow> entry \<Rightarrow> entry" where
  "reject_entity rid e = (if names_id rid e
     then dpop ''stix_id'' (dset ''reason'' (StrV ''baseline_rejected'') (dset ''outcome'' (StrV ''dropped'') e)) else e)"

definition reject_id :: "(string, string) dict \<Rightarrow> string \<Rightarrow> ledger \<Rightarrow> ledger" where
  "reject_id dropped rid L =
    (let L = (if map_of dropped rid = None
              then L\<lparr>lg_removed := lg_removed L @ [[(''stix_id'', StrV rid), (''kind'', StrV ''object''), (''reason'', StrV ''baseline_rejected'')]]\<rparr>
              else L)
     in L\<lparr>lg_objects := dpop rid (lg_objects L), lg_entities := map (reject_entity rid) (lg_entities L)\<rparr>)"

definition baseline_rejections :: "(string, string) dict \<Rightarrow> string list \<Rightarrow> ledger \<Rightarrow> ledger" where
  "baseline_rejections dropped rejected L = fold (reject_id dropped) (sort (remdups rejected)) L"

definition apply_baseline_merge :: "baseline_result \<Rightarrow> ledger \<Rightarrow> ledger" where
  "apply_baseline_merge res L =
    (let L = baseline_absorptions (br_remap res) L;
         L = remove_edges (br_removed res) L;
         L = baseline_rejections (br_dropped res) (br_rejected res) L;
         L = rewire_edges (br_remapped res) L;
         L = follow_refs (br_remap res) L;
         L = follow_refused (br_remap res) L
     in fold (\<lambda>(bid, reason). left_out bid ''baseline'' reason []) (br_dropped res) L)"

definition baseline_object :: "ledger_obj \<Rightarrow> string \<Rightarrow> ledger \<Rightarrow> ledger" where
  "baseline_object obj state L = (case lo_id obj of
     Some (c # cs) \<Rightarrow>
       let oid = c # cs;
           old = dget (lg_objects L) oid [];
           mark = (\<lambda>e. if names_id oid e then merged_as ''baseline_match'' e else e)
       in L\<lparr>lg_objects := dset oid (dset ''status'' (StrV state) (dset ''origin'' (StrV ''baseline'') old)) (lg_objects L),
            lg_entities := map mark (lg_entities L), lg_relationships := map mark (lg_relationships L)\<rparr>
   | _ \<Rightarrow> L)"

section \<open>Refusals\<close>

definition ledger_refuse :: "string \<Rightarrow> string \<Rightarrow> string \<Rightarrow> string \<Rightarrow> string \<Rightarrow> entry \<Rightarrow> ledger \<Rightarrow> ledger" where
  "ledger_refuse source verb target origin reason info L =
    (let e = \<lparr>rf_source = source, rf_verb = verb, rf_target = target,
               rf_info = clean (dupdate [(''origin'', StrV origin), (''reason'', StrV reason)] info)\<rparr>
     in if list_all (\<lambda>x. refused_key x \<noteq> refused_key e) (lg_refused L) then L\<lparr>lg_refused := lg_refused L @ [e]\<rparr> else L)"

definition inferred_refusal :: "refused_edge \<Rightarrow> refused_edge" where
  "inferred_refusal r = r\<lparr>rf_info := clean (dset ''origin'' (opt_val (inference_origin (map_of (rf_info r) ''rule''))) (rf_info r))\<rparr>"

definition refused_inferences :: "refused_edge list \<Rightarrow> ledger \<Rightarrow> ledger" where
  "refused_inferences rs L = L\<lparr>lg_refused := lg_refused L @ map inferred_refusal rs\<rparr>"

section \<open>Finishing\<close>

definition outside_report :: "ledger_obj \<Rightarrow> string \<Rightarrow> ledger \<Rightarrow> ledger" where
  "outside_report obj oid L =
    (let objects = dsetdefault oid [(''origin'', StrV (rel_origin_from_props obj))] (lg_objects L)
     in L\<lparr>lg_objects := dset oid (dset ''outside_report'' (BoolV True) (dget objects oid [])) objects\<rparr>)"

definition finalize_one :: "ledger_obj \<times> string \<Rightarrow> ledger \<Rightarrow> ledger" where
  "finalize_one = (\<lambda>(x, oid) L. if lo_type x \<noteq> ''relationship'' then L
     else if map_of (lg_objects L) oid = None
       then L\<lparr>lg_objects := dset oid [(''origin'', StrV (rel_origin_from_props x))] (lg_objects L)\<rparr> else L)"

definition ledger_finalize :: "(ledger_obj \<times> string) list \<Rightarrow> ledger \<Rightarrow> ledger" where
  "ledger_finalize objs L = fold finalize_one objs L"

datatype ledger_part = Version nat | Objects "(string, entry) dict" | Entries "entry list" | Refusals "refused_edge list"

definition ledger_dict :: "ledger \<Rightarrow> (string, ledger_part) dict" where
  "ledger_dict L = [(''version'', Version LEDGER_VERSION), (''objects'', Objects (lg_objects L)),
     (''entities'', Entries (lg_entities L)), (''relationships'', Entries (lg_relationships L)),
     (''removed'', Entries (lg_removed L))] @
     (if lg_refused L \<noteq> [] then [(''refused'', Refusals (lg_refused L))] else [])"

end
