(* ===== verification/LedgerSound.thy ===== *)
theory LedgerSound
  imports Ledger AliasSound
begin

text \<open>
  What the ledger promises: after a merge its entries name only what still ships, every input keeps
  its entry, and whatever was absorbed or removed is listed. The locale \<open>ledger_step\<close> states what
  the alias merge and the baseline merge share; the property on references is closed with the
  specification of the alias merge itself.
\<close>

section \<open>Folds over entries\<close>

lemma fold_map_each: "fold (\<lambda>p. map (f p)) ps xs = map (fold f ps) xs"
  by (induction ps arbitrary: xs) (simp_all add: o_def)

lemma alias_absorptions_fields:
  "lg_entities (alias_absorptions m names L) = map (fold (absorb ''alias_merge'') m) (lg_entities L)"
  "lg_relationships (alias_absorptions m names L) = lg_relationships L"
  "lg_refused (alias_absorptions m names L) = lg_refused L"
  "lg_objects (alias_absorptions m names L) = fold dpop (map fst m) (lg_objects L)"
  "lg_removed (alias_absorptions m names L) = lg_removed L @ map (absorbed_by_alias names) m"
  unfolding alias_absorptions_def by (induction m arbitrary: L) (simp_all add: o_def)

lemma baseline_absorptions_fields:
  "lg_entities (baseline_absorptions m L) = map (fold (absorb ''baseline_match'') m) (lg_entities L)"
  "lg_relationships (baseline_absorptions m L) = map (fold (absorb ''baseline_match'') m) (lg_relationships L)"
  "lg_refused (baseline_absorptions m L) = lg_refused L"
  "lg_objects (baseline_absorptions m L) = fold dpop (map fst m) (lg_objects L)"
  "lg_removed (baseline_absorptions m L) = lg_removed L @ map (\<lambda>p. [(''stix_id'', StrV (fst p)), (''kind'', StrV ''object''),
     (''reason'', StrV ''baseline_match''), (''replaced_by'', StrV (snd p))]) m"
  unfolding baseline_absorptions_def by (induction m arbitrary: L) (simp_all add: o_def)

lemma remove_edges_fields:
  "lg_entities (remove_edges rs L) = lg_entities L"
  "lg_relationships (remove_edges rs L) = map (fold drop_edge rs) (lg_relationships L)"
  "lg_refused (remove_edges rs L) = lg_refused L"
  "lg_objects (remove_edges rs L) = fold dpop (map rm_id rs) (lg_objects L)"
  "lg_removed (remove_edges rs L) = lg_removed L @ map removed_edge rs"
  unfolding remove_edges_def by (induction rs arbitrary: L) (simp_all add: o_def)

lemma rewire_edges_fields:
  "lg_entities (rewire_edges ps L) = lg_entities L"
  "lg_relationships (rewire_edges ps L) = map (fold set_ends ps) (lg_relationships L)"
  "lg_refused (rewire_edges ps L) = lg_refused L"
  "lg_objects (rewire_edges ps L) = lg_objects L"
  "lg_removed (rewire_edges ps L) = lg_removed L"
  unfolding rewire_edges_def by (induction ps arbitrary: L) (simp_all add: o_def)

lemma follow_refs_fields:
  "lg_entities (follow_refs m L) = lg_entities L" "lg_refused (follow_refs m L) = lg_refused L"
  "lg_objects (follow_refs m L) = lg_objects L" "lg_removed (follow_refs m L) = lg_removed L"
  by (simp_all add: follow_refs_def)

lemma follow_refused_fields:
  "lg_entities (follow_refused m L) = lg_entities L" "lg_relationships (follow_refused m L) = lg_relationships L"
  "lg_objects (follow_refused m L) = lg_objects L" "lg_removed (follow_refused m L) = lg_removed L"
  by (simp_all add: follow_refused_def Let_def)

lemma left_out_fields:
  "lg_entities (fold (\<lambda>(b, r). left_out b k r []) ds L) = lg_entities L"
  "lg_relationships (fold (\<lambda>(b, r). left_out b k r []) ds L) = lg_relationships L"
  "lg_refused (fold (\<lambda>(b, r). left_out b k r []) ds L) = lg_refused L"
  "lg_objects (fold (\<lambda>(b, r). left_out b k r []) ds L) = lg_objects L"
  "lg_removed (fold (\<lambda>(b, r). left_out b k r []) ds L) =
     lg_removed L @ map (\<lambda>(b, r). [(''stix_id'', StrV b), (''kind'', StrV k), (''reason'', StrV r)]) ds"
  by (induction ds arbitrary: L) (simp_all add: left_out_def clean_def dupdate_def split_beta)

lemmas ledger_fields = alias_absorptions_fields baseline_absorptions_fields remove_edges_fields rewire_edges_fields
  follow_refs_fields follow_refused_fields left_out_fields

lemma reject_ids_fields:
  "lg_entities (fold (reject_id d) rs L) = map (fold reject_entity rs) (lg_entities L)"
  "lg_relationships (fold (reject_id d) rs L) = lg_relationships L"
  "lg_refused (fold (reject_id d) rs L) = lg_refused L"
  "lg_objects (fold (reject_id d) rs L) = fold dpop rs (lg_objects L)"
  "lg_removed (fold (reject_id d) rs L) = lg_removed L @
     map (\<lambda>i. [(''stix_id'', StrV i), (''kind'', StrV ''object''), (''reason'', StrV ''baseline_rejected'')])
       (filter (\<lambda>i. map_of d i = None) rs)"
  by (induction rs arbitrary: L) (simp_all add: o_def reject_id_def Let_def)

lemma dpops_keys: "fst ` set (fold dpop ks d) = fst ` set d - set ks"
  by (induction ks arbitrary: d) (auto simp: set_map [symmetric] delete_keys simp del: set_map)

section \<open>The id an entry names\<close>

definition entry_id :: "entry \<Rightarrow> pyval option" where
  "entry_id e = map_of e ''stix_id''"

lemma names_id_iff: "names_id i e \<longleftrightarrow> entry_id e = Some (StrV i)"
  by (simp add: names_id_def entry_id_def)

lemma merged_as_get:
  "k \<notin> {''reason'', ''outcome'', ''merged_via''} \<Longrightarrow> map_of (merged_as r e) k = map_of e k"
  by (auto simp: merged_as_def Let_def dict_simps split: option.splits)

lemma absorb_get:
  "k \<notin> {''reason'', ''outcome'', ''merged_via'', ''stix_id''} \<Longrightarrow> map_of (absorb r p e) k = map_of e k"
  by (auto simp: absorb_def dict_simps merged_as_get split: prod.splits)

lemma drop_edge_get:
  "k \<notin> {''reason'', ''outcome'', ''merged_with'', ''stix_id''} \<Longrightarrow> map_of (drop_edge r e) k = map_of e k"
  by (auto simp: drop_edge_def merged_with_def dict_simps split: option.splits list.splits)

lemma set_ends_get: "k \<notin> {''source_ref'', ''target_ref''} \<Longrightarrow> map_of (set_ends p e) k = map_of e k"
  by (auto simp: set_ends_def dict_simps split: prod.splits)

lemma follow_end_get: "map_of (follow_end m k e) j = (if j = k then (case map_of e k of
     Some (StrV i) \<Rightarrow> Some (StrV (dget m i i)) | v \<Rightarrow> v) else map_of e j)"
  by (auto simp: follow_end_def dict_simps dget_def split: option.splits pyval.splits)

lemma reject_entity_get: "k \<notin> {''reason'', ''outcome'', ''stix_id''} \<Longrightarrow> map_of (reject_entity i e) k = map_of e k"
  by (auto simp: reject_entity_def dict_simps)

lemma fold_get:
  assumes "\<And>p e. map_of (f p e) k = map_of e k"
  shows "map_of (fold f ps e) k = map_of e k"
  using assms by (induction ps arbitrary: e) simp_all

lemma absorb_id: "entry_id (absorb r (d, c) e) = (if entry_id e = Some (StrV d) then Some (StrV c) else entry_id e)"
  by (simp add: absorb_def names_id_iff) (simp add: entry_id_def dict_simps)

lemma drop_edge_id: "entry_id (drop_edge r e) = (if entry_id e = Some (StrV (rm_id r))
     then (case rm_kept r of Some (c # cs) \<Rightarrow> Some (StrV (c # cs)) | _ \<Rightarrow> None) else entry_id e)"
  by (simp add: drop_edge_def names_id_iff) (auto simp: entry_id_def merged_with_def dict_simps split: option.splits list.splits)

lemma reject_entity_id: "entry_id (reject_entity i e) = (if entry_id e = Some (StrV i) then None else entry_id e)"
  by (simp add: reject_entity_def names_id_iff) (simp add: entry_id_def dict_simps)

lemma absorbs_id:
  assumes "snd ` set m \<inter> fst ` set m = {}"
  shows "entry_id (fold (absorb r) m e) = (case entry_id e of Some (StrV i) \<Rightarrow> Some (StrV (dget m i i)) | v \<Rightarrow> v)"
  using assms
proof (induction m arbitrary: e)
  case Nil
  then show ?case by (auto split: option.splits pyval.splits)
next
  case (Cons p m)
  obtain d c where p: "p = (d, c)" by (cases p)
  have sub: "snd ` set m \<inter> fst ` set m = {}" using Cons.prems by auto
  have "c \<notin> fst ` set m" using Cons.prems p by auto
  then have c: "dget m c c = c" by (simp add: dget_def map_of_eq_None_iff [THEN iffD2])
  note IH = Cons.IH [OF sub, of "absorb r (d, c) e", unfolded absorb_id]
  show ?case
  proof (cases "entry_id e = Some (StrV d)")
    case True
    then have "entry_id (fold (absorb r) m (absorb r (d, c) e)) = Some (StrV c)" using IH c by simp
    with True show ?thesis by (simp add: p dget_def)
  next
    case False
    then have "entry_id (fold (absorb r) m (absorb r (d, c) e)) = (case entry_id e of Some (StrV i) \<Rightarrow> Some (StrV (dget m i i)) | v \<Rightarrow> v)"
      using IH by simp
    moreover have "dget (p # m) i i = dget m i i" if "entry_id e = Some (StrV i)" for i
      using that False by (auto simp: p dget_def)
    ultimately show ?thesis by (simp add: p split: option.split pyval.split)
  qed
qed

text \<open>An entry on a removed edge ends on the edge kept, which is not removed itself, or on none.\<close>

lemma drop_edges_id:
  assumes "\<And>r k. r \<in> set rs \<Longrightarrow> rm_kept r = Some k \<Longrightarrow> k \<noteq> [] \<Longrightarrow> k \<in> S" "S \<inter> rm_id ` set rs = {}"
    "entry_id (fold drop_edge rs e) = Some (StrV j)"
  shows "j \<in> S \<or> entry_id e = Some (StrV j) \<and> j \<notin> rm_id ` set rs"
  using assms
proof (induction rs arbitrary: e)
  case (Cons r rs)
  have "j \<in> S \<or> entry_id (drop_edge r e) = Some (StrV j) \<and> j \<notin> rm_id ` set rs"
    by (rule Cons.IH) (use Cons.prems in auto)
  then show ?case using Cons.prems(1) [of r] Cons.prems(2)
    by (auto simp: drop_edge_id split: if_splits option.splits list.splits)
qed simp

section \<open>What an entry may name\<close>

text \<open>Of the objects \<open>N\<close> and the edges \<open>R\<close> of a bundle.\<close>

definition end_in :: "string set \<Rightarrow> string \<Rightarrow> entry \<Rightarrow> bool" where
  "end_in N k e \<longleftrightarrow> (\<forall>i. map_of e k = Some (StrV i) \<longrightarrow> i \<in> N)"

definition ledger_refers :: "string set \<Rightarrow> string set \<Rightarrow> ledger \<Rightarrow> bool" where
  "ledger_refers N R L \<longleftrightarrow>
    (\<forall>e \<in> set (lg_entities L). end_in N ''stix_id'' e) \<and>
    (\<forall>e \<in> set (lg_relationships L). end_in R ''stix_id'' e \<and> end_in N ''source_ref'' e \<and> end_in N ''target_ref'' e) \<and>
    (\<forall>e \<in> set (lg_refused L). rf_source e \<in> N \<and> rf_target e \<in> N) \<and> fst ` set (lg_objects L) \<subseteq> N \<union> R"

lemma end_in_id: "end_in N ''stix_id'' e \<longleftrightarrow> (\<forall>i. entry_id e = Some (StrV i) \<longrightarrow> i \<in> N)"
  by (simp add: end_in_def entry_id_def)

lemma remapped_in:
  assumes "snd ` set m \<inter> fst ` set m = {}" "snd ` set m \<subseteq> N" "i \<in> N"
  shows "dget m i i \<in> N - fst ` set m"
proof (cases "map_of m i")
  case None
  then have "i \<notin> fst ` set m" by (simp add: map_of_eq_None_iff)
  with None assms(3) show ?thesis by (simp add: dget_def)
next
  case (Some c)
  then have "c \<in> snd ` set m" by (force dest: map_of_SomeD)
  with Some assms show ?thesis by (auto simp: dget_def)
qed

lemma absorbs_in:
  assumes "snd ` set m \<inter> fst ` set m = {}" "snd ` set m \<subseteq> N" "end_in N ''stix_id'' e"
  shows "end_in (N - fst ` set m) ''stix_id'' (fold (absorb r) m e)"
  using assms(3) remapped_in [OF assms(1,2)]
  by (auto simp: end_in_id absorbs_id [OF assms(1)] split: option.splits pyval.splits)

lemma follow_end_in:
  assumes "snd ` set m \<inter> fst ` set m = {}" "snd ` set m \<subseteq> N" "end_in N k e"
  shows "end_in (N - fst ` set m) k (follow_end m k e)"
  using assms(3) remapped_in [OF assms(1,2)]
  by (auto simp: end_in_def follow_end_get split: option.splits pyval.splits)

lemma set_ends_in:
  assumes "\<And>rid src tgt. (rid, src, tgt) \<in> set ps \<Longrightarrow> src \<in> N \<and> tgt \<in> N"
    "k \<in> {''source_ref'', ''target_ref''}" "end_in N k e"
  shows "end_in N k (fold set_ends ps e)"
  using assms
proof (induction ps arbitrary: e)
  case (Cons p ps)
  obtain rid src tgt where p: "p = (rid, src, tgt)" by (cases p)
  have "end_in N k (set_ends p e)"
    using Cons.prems(1) [of rid src tgt] Cons.prems(2,3) by (auto simp: p end_in_def set_ends_def dict_simps)
  moreover have "src \<in> N \<and> tgt \<in> N" if "(rid, src, tgt) \<in> set ps" for rid src tgt
    using Cons.prems(1) [of rid src tgt] that by simp
  ultimately have "end_in N k (fold set_ends ps (set_ends p e))" using Cons.IH Cons.prems(2) by blast
  then show ?case by simp
qed simp

lemma refused_fold_keys:
  "set (map snd (fold (\<lambda>e kept. let e = g e in dsetdefault (h e) e kept) es d)) \<subseteq> set (map snd d) \<union> g ` set es"
  by (induction es arbitrary: d) (force simp: Let_def dsetdefault_def split: option.splits)+

lemma follow_refused_set: "set (lg_refused (follow_refused m L)) \<subseteq> move_refused m ` set (lg_refused L)"
  using refused_fold_keys [of "move_refused m" refused_key "lg_refused L" "[]"] by (simp add: follow_refused_def Let_def)

text \<open>Both merges: entries that named objects and edges of the bundle name what is left of them.\<close>

lemma apply_alias_refers:
  assumes L: "ledger_refers N R L" and m: "snd ` set m \<inter> fst ` set m = {}" "snd ` set m \<subseteq> N"
    and rs: "\<And>r k. r \<in> set rs \<Longrightarrow> rm_kept r = Some k \<Longrightarrow> k \<noteq> [] \<Longrightarrow> k \<in> R - rm_id ` set rs"
    and ps: "\<And>rid src tgt. (rid, src, tgt) \<in> set ps \<Longrightarrow> src \<in> N \<and> tgt \<in> N"
  shows "ledger_refers (N - fst ` set m) (R - rm_id ` set rs) (apply_alias_merge m rs ps names L)"
proof -
  let ?N = "N - fst ` set m" and ?R = "R - rm_id ` set rs" and ?L = "apply_alias_merge m rs ps names L"
  let ?e = "\<lambda>e. fold set_ends ps (fold drop_edge rs e)"
  have fields: "lg_entities ?L = map (fold (absorb ''alias_merge'') m) (lg_entities L)"
    "lg_relationships ?L = map (\<lambda>e. follow_end m ''target_ref'' (follow_end m ''source_ref'' (?e e))) (lg_relationships L)"
    "fst ` set (lg_objects ?L) = fst ` set (lg_objects L) - fst ` set m - rm_id ` set rs"
    "set (lg_refused ?L) \<subseteq> move_refused m ` set (lg_refused L)"
    using follow_refused_set [of m "follow_refs m (rewire_edges ps (remove_edges rs (alias_absorptions m names L)))"]
    by (simp_all add: apply_alias_merge_def ledger_fields follow_refs_def dpops_keys o_def)
  have "end_in ?N ''stix_id'' e" if "e \<in> set (lg_entities ?L)" for e
    using that L absorbs_in [OF m] by (auto simp: fields ledger_refers_def)
  moreover have "end_in ?R ''stix_id'' e \<and> end_in ?N ''source_ref'' e \<and> end_in ?N ''target_ref'' e"
    if e: "e \<in> set (lg_relationships ?L)" for e
  proof -
    obtain x where x: "x \<in> set (lg_relationships L)" "e = follow_end m ''target_ref'' (follow_end m ''source_ref'' (?e x))"
      using e by (auto simp: fields)
    with L have ends: "end_in R ''stix_id'' x" "end_in N ''source_ref'' x" "end_in N ''target_ref'' x"
      by (auto simp: ledger_refers_def)
    have kept: "map_of (fold drop_edge rs x) k = map_of x k" if "k \<in> {''source_ref'', ''target_ref''}" for k
      by (rule fold_get, rule drop_edge_get) (use that in auto)
    have "end_in N k (?e x)" if "k \<in> {''source_ref'', ''target_ref''}" for k
      by (rule set_ends_in [OF ps that]) (use that ends kept [OF that] in \<open>auto simp: end_in_def\<close>)
    then have s: "end_in N ''source_ref'' (?e x)" and t: "end_in N ''target_ref'' (?e x)" by simp_all
    have id: "entry_id e = entry_id (fold drop_edge rs x)"
      by (simp add: x(2) entry_id_def follow_end_get fold_get [of set_ends "''stix_id''", OF set_ends_get])
    have "i \<in> ?R" if "entry_id e = Some (StrV i)" for i
      using drop_edges_id [of rs ?R x i] rs that ends(1) by (auto simp: id end_in_id)
    then have "end_in ?R ''stix_id'' e" by (simp add: end_in_id)
    moreover have "end_in ?N ''source_ref'' e"
      using follow_end_in [OF m s] by (simp add: x(2) end_in_def follow_end_get)
    moreover have "end_in ?N ''target_ref'' (follow_end m ''target_ref'' (follow_end m ''source_ref'' (?e x)))"
      by (rule follow_end_in [OF m]) (use t in \<open>simp add: end_in_def follow_end_get\<close>)
    ultimately show ?thesis by (simp add: x(2))
  qed
  moreover have "rf_source e \<in> ?N \<and> rf_target e \<in> ?N" if "e \<in> set (lg_refused ?L)" for e
  proof -
    from that fields(4) obtain x where "x \<in> set (lg_refused L)" "e = move_refused m x" by blast
    with L remapped_in [OF m] show ?thesis by (auto simp: ledger_refers_def move_refused_def)
  qed
  moreover have "fst ` set (lg_objects ?L) \<subseteq> ?N \<union> ?R" using L by (auto simp: fields ledger_refers_def)
  ultimately show ?thesis by (simp add: ledger_refers_def)
qed

section \<open>The alias merge and its report\<close>

definition edge_ids :: "stix_obj list \<Rightarrow> string set" where
  "edge_ids objs = o_id ` set (filter is_rel objs)"

definition node_ids :: "stix_obj list \<Rightarrow> string set" where
  "node_ids objs = o_id ` set (filter (\<lambda>x. \<not> is_rel x) objs)"

definition kept_there :: "(triple \<rightharpoonup> string \<times> nat) \<Rightarrow> stix_obj list \<Rightarrow> bool" where
  "kept_there seen out \<longleftrightarrow> (\<forall>key kept k. seen key = Some (kept, k) \<longrightarrow> k < length out \<and> is_rel (out ! k) \<and> o_id (out ! k) = kept)"

text \<open>What \<open>rewrite_loop\<close> reports: the edges it kept in place of others are in its output, and the ends
  it rewrote are ends of an edge, remapped.\<close>

definition report_ok :: "(string, string) dict \<Rightarrow> stix_obj list \<Rightarrow> stats \<Rightarrow> stix_obj list \<Rightarrow> stats \<Rightarrow> bool" where
  "report_ok remap xs st out' st' \<longleftrightarrow>
    (\<forall>r \<in> set (removed_relationships st'). r \<in> set (removed_relationships st) \<or>
      (\<forall>k. rm_kept r = Some k \<longrightarrow> k \<in> edge_ids out')) \<and>
    (\<forall>p \<in> set (remapped_relationships st'). p \<in> set (remapped_relationships st) \<or>
      (\<exists>x \<in> set (filter is_rel xs). snd p = (remap_id remap (o_source_ref x), remap_id remap (o_target_ref x))))"

lemma kept_there_append: "kept_there seen out \<Longrightarrow> kept_there seen (out @ [y])"
  by (auto simp: kept_there_def nth_append less_Suc_eq)

lemma kept_there_new: "kept_there seen out \<Longrightarrow> is_rel y \<Longrightarrow> kept_there (seen(key \<mapsto> (o_id y, length out))) (out @ [y])"
  by (auto simp: kept_there_def nth_append less_Suc_eq)

lemma kept_there_merged:
  "kept_there seen out \<Longrightarrow> with_merged_times (out ! k) x mode = Inr merged \<Longrightarrow>
   kept_there seen (case merged of None \<Rightarrow> out | Some m \<Rightarrow> out[k := m])"
proof (cases merged)
  case (Some m)
  assume h: "kept_there seen out" "with_merged_times (out ! k) x mode = Inr merged"
  then have m: "is_rel m = is_rel (out ! k)" "o_id m = o_id (out ! k)" using with_merged_times_same Some by blast+
  have "is_rel (out[k := m] ! j) = is_rel (out ! j) \<and> o_id (out[k := m] ! j) = o_id (out ! j)" if "j < length out" for j
    using m that by (cases "j = k") simp_all
  with h(1) Some show ?thesis by (auto simp: kept_there_def)
qed simp

lemma report_ok_removed:
  assumes "report_ok remap xs (st\<lparr>removed_relationships := removed_relationships st @ [e]\<rparr>) out st'"
    "\<And>k. rm_kept e = Some k \<Longrightarrow> k \<in> edge_ids out"
  shows "report_ok remap (x # xs) st out st'"
proof -
  have "r \<in> set (removed_relationships st) \<or> (\<forall>k. rm_kept r = Some k \<longrightarrow> k \<in> edge_ids out)"
    if "r \<in> set (removed_relationships st')" for r
    using assms that by (cases "r = e") (auto simp: report_ok_def)
  with assms(1) show ?thesis by (auto simp: report_ok_def)
qed

lemma edge_ids_merged:
  assumes "kept_there seen out" "seen key = Some (kept, k)" "with_merged_times (out ! k) x mode = Inr merged"
  shows "edge_ids (case merged of None \<Rightarrow> out | Some m \<Rightarrow> out[k := m]) = edge_ids out"
proof (cases merged)
  case (Some m)
  have k: "is_rel (out ! k)" using assms(1,2) unfolding kept_there_def by blast
  have m: "is_rel m = is_rel (out ! k)" "o_id m = o_id (out ! k)" using with_merged_times_same assms(3) Some by blast+
  have "map o_id (filter is_rel (out[k := m])) = map o_id (filter is_rel out)"
    by (rule map_filter_update) (use k m in auto)
  then have "set (map o_id (filter is_rel (out[k := m]))) = set (map o_id (filter is_rel out))" by (rule arg_cong)
  then show ?thesis by (simp add: Some edge_ids_def)
qed simp

lemma dset_entry: "p \<in> set (dset k v d) \<Longrightarrow> p = (k, v) \<or> p \<in> set d"
  by (induction d) (auto split: if_splits)

lemma report_ok_rewired:
  assumes "report_ok remap xs s out st'" "removed_relationships s = removed_relationships st"
    "\<And>p. p \<in> set (remapped_relationships s) \<Longrightarrow> p \<in> set (remapped_relationships st) \<or>
       is_rel x \<and> snd p = (remap_id remap (o_source_ref x), remap_id remap (o_target_ref x))"
  shows "report_ok remap (x # xs) st out st'"
proof -
  have "p \<in> set (remapped_relationships st) \<or>
      (\<exists>y \<in> set (filter is_rel (x # xs)). snd p = (remap_id remap (o_source_ref y), remap_id remap (o_target_ref y)))"
    if "p \<in> set (remapped_relationships st')" for p
  proof -
    from assms(1) that have "p \<in> set (remapped_relationships s) \<or>
        (\<exists>y \<in> set (filter is_rel xs). snd p = (remap_id remap (o_source_ref y), remap_id remap (o_target_ref y)))"
      unfolding report_ok_def by blast
    then show ?thesis using assms(3) [of p] by auto
  qed
  with assms(1,2) show ?thesis unfolding report_ok_def by auto
qed

lemma rewrite_loop_report:
  assumes "rewrite_loop remap mode xs seen out st = (st', Inr out')" "kept_there seen out"
  shows "edge_ids out \<subseteq> edge_ids out' \<and> report_ok remap xs st out' st'"
  using assms
proof (induction remap mode xs seen out st rule: rewrite_loop.induct)
  case (2 remap mode x xs seen out st)
  let ?src = "remap_id remap (o_source_ref x)" let ?tgt = "remap_id remap (o_target_ref x)" let ?key = "(?src, o_rel_type x, ?tgt)"
  consider (keep) "\<not> is_rel x" | (loop) "is_rel x" "?src = ?tgt"
    | (dup) kept k where "is_rel x" "?src \<noteq> ?tgt" "seen ?key = Some (kept, k)"
    | (new) "is_rel x" "?src \<noteq> ?tgt" "seen ?key = None" by fastforce
  then show ?case
  proof cases
    case keep
    have "edge_ids (out @ [x]) \<subseteq> edge_ids out' \<and> report_ok remap xs st out' st'"
      by (rule 2(1) [OF keep]) (use 2(5,6) keep kept_there_append in auto)
    with keep show ?thesis by (auto simp: edge_ids_def report_ok_def)
  next
    case loop
    let ?e = "\<lparr>rm_id = o_id x, rm_reason = ''self_loop_after_alias_merge'', rm_kept = None\<rparr>"
    have run: "rewrite_loop remap mode xs seen out (st\<lparr>removed_relationships := removed_relationships st @ [?e]\<rparr>) = (st', Inr out')"
      using 2(5) loop by simp
    from 2(2) [OF _ refl refl loop(2) run 2(6)] loop(1)
    have "edge_ids out \<subseteq> edge_ids out' \<and> report_ok remap xs (st\<lparr>removed_relationships := removed_relationships st @ [?e]\<rparr>) out' st'" by blast
    then show ?thesis using report_ok_removed [of remap xs st ?e out' st' x] by simp
  next
    case dup
    from 2(5) dup obtain merged where w: "with_merged_times (out ! k) x mode = Inr merged"
      by (auto split: sum.splits)
    let ?o = "case merged of None \<Rightarrow> out | Some m \<Rightarrow> out[k := m]"
    let ?e = "\<lparr>rm_id = o_id x, rm_reason = ''duplicate_after_alias_merge'', rm_kept = Some kept\<rparr>"
    let ?st = "st\<lparr>removed_relationships := removed_relationships st @ [?e]\<rparr>"
    have run: "rewrite_loop remap mode xs seen ?o ?st = (st', Inr out')" using 2(5) dup w by simp
    have "edge_ids ?o \<subseteq> edge_ids out' \<and> report_ok remap xs ?st out' st'"
      using 2(4) [OF _ refl refl dup(2) refl dup(3) refl w run kept_there_merged [OF 2(6) w]] dup(1) by simp
    moreover have "edge_ids ?o = edge_ids out" by (rule edge_ids_merged [OF 2(6) dup(3) w])
    moreover have "kept \<in> edge_ids out"
      using 2(6) dup(3) by (force simp: kept_there_def edge_ids_def)
    ultimately show ?thesis using report_ok_removed [of remap xs st ?e out' st' x] by auto
  next
    case new
    let ?c = "?src \<noteq> o_source_ref x \<or> ?tgt \<noteq> o_target_ref x"
    let ?y = "if ?c then x\<lparr>o_source_ref := ?src, o_target_ref := ?tgt\<rparr> else x"
    let ?s = "if ?c then st\<lparr>remapped_relationships := dset (o_id x) (?src, ?tgt) (remapped_relationships st)\<rparr> else st"
    have y: "is_rel ?y" "o_id ?y = o_id x" using new(1) by (auto simp: is_rel_def)
    have run: "rewrite_loop remap mode xs (seen(?key \<mapsto> (o_id x, length out))) (out @ [?y]) ?s = (st', Inr out')"
      using 2(5) new by (simp add: Let_def)
    have k: "kept_there (seen(?key \<mapsto> (o_id x, length out))) (out @ [?y])"
      using kept_there_new [OF 2(6) y(1)] unfolding y(2) .
    have "edge_ids (out @ [?y]) \<subseteq> edge_ids out' \<and> report_ok remap xs ?s out' st'"
      using 2(3) [OF _ refl refl new(2) refl new(3) refl refl refl run k] new(1) by blast
    moreover have "report_ok remap (x # xs) st out' st'" if "report_ok remap xs ?s out' st'"
      by (rule report_ok_rewired [OF that]) (use new(1) dset_entry in \<open>force split: if_splits\<close>)+
    moreover have "edge_ids out \<subseteq> edge_ids (out @ [?y])" by (auto simp: edge_ids_def)
    ultimately show ?thesis by blast
  qed
qed (auto simp: report_ok_def)

lemma node_ids_edge_ids: "o_id ` set objs = node_ids objs \<union> edge_ids objs"
  by (auto simp: node_ids_def edge_ids_def)

definition ends_closed :: "stix_obj list \<Rightarrow> bool" where
  "ends_closed objs \<longleftrightarrow> (\<forall>x \<in> set (filter is_rel objs). o_source_ref x \<in> node_ids objs \<and> o_target_ref x \<in> node_ids objs)"

lemma ends_closed_sig:
  assumes "map obj_sig objs' = map obj_sig objs"
  shows "node_ids objs' = node_ids objs \<and> edge_ids objs' = edge_ids objs \<and> ends_closed objs' = ends_closed objs"
proof -
  have n: "map o_id (filter (\<lambda>x. \<not> is_rel x) objs') = map o_id (filter (\<lambda>x. \<not> is_rel x) objs)"
    by (rule map_filter_sig [OF assms, where Q = "\<lambda>s. \<not> fst (snd s)" and g = fst]) (simp_all add: obj_sig_def)
  have e: "map o_id (filter is_rel objs') = map o_id (filter is_rel objs)"
    by (rule map_filter_sig [OF assms, where Q = "\<lambda>s. fst (snd s)" and g = fst]) (simp_all add: obj_sig_def)
  have t: "map rel_triple (filter is_rel objs') = map rel_triple (filter is_rel objs)"
    by (rule map_filter_sig [OF assms, where Q = "\<lambda>s. fst (snd s)" and g = "\<lambda>s. snd (snd s)"]) (simp_all add: obj_sig_def)
  have N: "node_ids objs' = node_ids objs" using arg_cong [OF n, of set] by (simp add: node_ids_def)
  have ends: "ends_closed xs \<longleftrightarrow> (\<forall>t \<in> set (map rel_triple (filter is_rel xs)). fst t \<in> node_ids xs \<and> snd (snd t) \<in> node_ids xs)" for xs
    by (auto simp: ends_closed_def rel_triple_def)
  show ?thesis using N arg_cong [OF e, of set] by (simp add: ends edge_ids_def t del: set_map) (simp add: edge_ids_def)
qed

lemma mset_split_sets:
  assumes "mset A + mset B = mset K" "distinct K"
  shows "set A = set K - set B"
proof -
  have m: "mset (A @ B) = mset K" using assms(1) by simp
  then have "distinct (A @ B)" using assms(2) mset_eq_imp_distinct_iff by blast
  moreover have "set (A @ B) = set K" using m by (rule mset_eq_setD)
  ultimately show ?thesis by auto
qed

text \<open>The report of a merge that completed, in terms of the bundle before and after.\<close>

definition merge_reported :: "stix_obj list \<Rightarrow> stix_obj list \<Rightarrow> stats \<Rightarrow> bool" where
  "merge_reported objs out st \<longleftrightarrow>
    snd ` set (merged_ids st) \<inter> fst ` set (merged_ids st) = {} \<and> snd ` set (merged_ids st) \<subseteq> node_ids objs \<and>
    node_ids out = node_ids objs - fst ` set (merged_ids st) \<and>
    edge_ids out = edge_ids objs - rm_id ` set (removed_relationships st) \<and>
    (\<forall>r \<in> set (removed_relationships st). \<forall>k. rm_kept r = Some k \<longrightarrow> k \<in> edge_ids out) \<and>
    (\<forall>p \<in> set (remapped_relationships st). fst (snd p) \<in> node_ids objs \<and> snd (snd p) \<in> node_ids objs)"

lemma merge_report_rewritten:
  assumes d: "distinct (map o_id objs)" and cl: "ends_closed objs" and sig: "map obj_sig objs' = map obj_sig objs"
    and each: "\<And>i c. map_of remap i = Some c \<Longrightarrow> map_of remap c = None \<and> i \<in> node_ids objs \<and> c \<in> node_ids objs"
    and keys: "distinct (map fst remap)"
    and st: "removed_relationships st = []" "remapped_relationships st = []" "merged_ids st = remap"
    and run: "rewrite_loop remap mode (drop_ids (fst ` set remap) objs') Map.empty [] st = (st', Inr out)"
  shows "merge_reported objs out st'"
proof -
  let ?kept = "drop_ids (fst ` set remap) objs'"
  note same = ends_closed_sig [OF sig]
  have pair: "map_of remap i = Some c" if "(i, c) \<in> set remap" for i c using keys that by simp
  have in_remap: "c \<notin> fst ` set remap" "i \<in> node_ids objs" "c \<in> node_ids objs" if "(i, c) \<in> set remap" for i c
    using each [OF pair [OF that]] by (simp_all add: map_of_eq_None_iff)
  have "c \<notin> fst ` set remap \<and> c \<in> node_ids objs" if c: "c \<in> snd ` set remap" for c
  proof -
    from c obtain i where "(i, c) \<in> set remap" by auto
    then show ?thesis using in_remap by blast
  qed
  then have m: "snd ` set remap \<inter> fst ` set remap = {}" "snd ` set remap \<subseteq> node_ids objs" by blast+
  have k: "fst ` set remap \<subseteq> node_ids objs" using in_remap(2) by auto
  have d': "distinct (map o_id objs')"
  proof -
    have "map fst (map obj_sig objs') = map fst (map obj_sig objs)" using sig by simp
    with d show ?thesis by (simp add: obj_sig_def o_def)
  qed
  have apart: "node_ids objs \<inter> edge_ids objs = {}" using d by (force simp: node_ids_def edge_ids_def dest: map_of_SomeD inj_onD [OF distinct_map [THEN iffD1, THEN conjunct2]])
  obtain rm where nr: "filter (\<lambda>x. \<not> is_rel x) out = filter (\<lambda>x. \<not> is_rel x) ?kept"
    and rm: "removed_relationships st' = rm" "merged_ids st' = remap"
    and ms: "mset (map o_id (filter is_rel out)) + mset (map rm_id rm) = mset (map o_id (filter is_rel ?kept))"
    using rewrite_loop_ok [OF run] st by (auto simp: indexed_def)
  have "node_ids out = node_ids ?kept" by (simp add: node_ids_def nr)
  also have "\<dots> = node_ids objs' - fst ` set remap" by (auto simp: node_ids_def drop_ids_def)
  finally have nodes: "node_ids out = node_ids objs - fst ` set remap" using same by simp
  have "edge_ids ?kept = edge_ids objs' - fst ` set remap" by (auto simp: edge_ids_def drop_ids_def)
  then have ek: "edge_ids ?kept = edge_ids objs" using same k apart by auto
  have dk: "distinct (map o_id (filter is_rel ?kept))" using d' by (simp add: distinct_map drop_ids_def inj_on_def)
  have edges: "edge_ids out = edge_ids objs - rm_id ` set rm"
    using mset_split_sets [OF ms dk] ek by (simp add: edge_ids_def)
  have rep: "report_ok remap ?kept st out st'"
    using rewrite_loop_report [OF run] by (simp add: kept_there_def)
  have "rm_kept r = Some k \<Longrightarrow> k \<in> edge_ids out" if "r \<in> set rm" for r k
    using rep that by (auto simp: report_ok_def st rm)
  moreover have "fst (snd p) \<in> node_ids objs \<and> snd (snd p) \<in> node_ids objs" if p: "p \<in> set (remapped_relationships st')" for p
  proof -
    from rep p obtain x where x: "x \<in> set (filter is_rel ?kept)"
      "snd p = (remap_id remap (o_source_ref x), remap_id remap (o_target_ref x))" unfolding report_ok_def st by auto
    then have "o_source_ref x \<in> node_ids objs \<and> o_target_ref x \<in> node_ids objs"
      using cl same by (auto simp: ends_closed_def drop_ids_def)
    with x(2) remapped_in [OF m] show ?thesis by (simp add: remap_id_def)
  qed
  ultimately show ?thesis using m nodes edges by (simp add: merge_reported_def rm)
qed

lemma merge_report:
  assumes d: "distinct (map o_id objs)" and cl: "ends_closed objs"
    and run: "merge_aliases fuzz embedder cfg objs new_stats = Some (out, st', None)"
  shows "merge_reported objs out st'"
proof -
  obtain objs' remap st1 where sig: "map obj_sig objs' = map obj_sig objs"
    and each: "\<forall>i c. map_of remap i = Some c \<longrightarrow> i \<noteq> c \<and> map_of remap c = None \<and>
      (\<exists>x \<in> set objs. \<exists>y \<in> set objs. o_id x = i \<and> o_id y = c \<and> is_aliasable x \<and> is_aliasable y \<and> mergeable x y \<and>
        (\<exists>z \<in> set objs'. o_id z = c \<and> (\<forall>nm \<in> set (o_name x # alias_items (o_aliases x)). knows z nm)))"
    and keys: "distinct (map fst remap)"
    and st1: "merged_ids st1 = []" "removed_relationships st1 = []" "remapped_relationships st1 = []"
    and merged: "merge_aliases fuzz embedder cfg objs new_stats =
      (if remap = [] then Some (objs', st1, None)
       else case rewrite_refs (drop_ids (fst ` set remap) objs') remap (st1\<lparr>merged_ids := remap\<rparr>) (c_temporal_mode cfg) of
         (st, Inr out) \<Rightarrow> Some (out, st, None)
       | (st, Inl e) \<Rightarrow> Some (drop_ids (fst ` set remap) objs', st, Some e))"
    using merge_aliases_run [OF d, of fuzz embedder cfg] by blast
  have nodes: "map_of remap c = None \<and> i \<in> node_ids objs \<and> c \<in> node_ids objs" if h: "map_of remap i = Some c" for i c
  proof -
    from each h obtain x y where "map_of remap c = None" "x \<in> set objs" "y \<in> set objs" "o_id x = i" "o_id y = c" "is_aliasable x" "is_aliasable y"
      by blast
    then show ?thesis using not_rel_aliasable by (auto simp: node_ids_def)
  qed
  show ?thesis
  proof (cases "remap = []")
    case True
    with merged run st1 ends_closed_sig [OF sig] show ?thesis by (simp add: merge_reported_def)
  next
    case False
    then obtain st3 where rw: "rewrite_refs (drop_ids (fst ` set remap) objs') remap (st1\<lparr>merged_ids := remap\<rparr>) (c_temporal_mode cfg) = (st3, Inr out)"
      and "st3 = st'"
      using merged run by (auto split: prod.splits sum.splits)
    then show ?thesis
      using merge_report_rewritten [OF d cl sig nodes keys _ _ _ rw [unfolded rewrite_refs_def]] st1 by simp
  qed
qed


definition example_ledger :: ledger where
  "example_ledger = snd (ledger_relationship (''Fancy Bear'', ''uses'', ''Chopstick'') ''emitted''
     [(''stix_id'', StrV ''r2''), (''source_ref'', StrV ''i1''), (''target_ref'', StrV ''m2'')]
     (snd (ledger_relationship (''Fancy Bear'', ''uses'', ''X-Agent'') ''emitted''
       [(''stix_id'', StrV ''r1''), (''source_ref'', StrV ''i1''), (''target_ref'', StrV ''m1'')]
       (ledger_entity ''X-Agent'' ''malware'' ''emitted''
         (Some \<lparr>lo_id = Some ''m1'', lo_type = ''malware'', lo_name = Some ''X-Agent'', lo_inference_rule = None, lo_policy_rule = None\<rparr>)
         None [] new_ledger))))"


section \<open>Accounting\<close>

definition entity_input :: "entry \<Rightarrow> pyval option \<times> pyval option" where
  "entity_input e = (map_of e ''value'', map_of e ''entity_type'')"

definition relationship_input :: "entry \<Rightarrow> pyval option \<times> pyval option \<times> pyval option \<times> pyval option" where
  "relationship_input e = (map_of e ''source_value'', map_of e ''relationship_type'', map_of e ''target_value'', map_of e ''changes'')"

definition listed :: "ledger \<Rightarrow> string set" where
  "listed L = {i. \<exists>e \<in> set (lg_removed L). names_id i e}"

lemma listedI: "e \<in> set (lg_removed L) \<Longrightarrow> names_id i e \<Longrightarrow> i \<in> listed L"
  by (auto simp: listed_def)

definition origin_ids :: "ledger \<Rightarrow> string set" where
  "origin_ids L = fst ` set (lg_objects L)"

text \<open>What every merge owes the ledger.\<close>

locale ledger_step =
  fixes step :: "'r \<Rightarrow> ledger \<Rightarrow> ledger" and gone :: "'r \<Rightarrow> string set"
  assumes entities_kept: "map entity_input (lg_entities (step r L)) = map entity_input (lg_entities L)"
    and relationships_kept: "map relationship_input (lg_relationships (step r L)) = map relationship_input (lg_relationships L)"
    and removed_grow: "\<exists>new. lg_removed (step r L) = lg_removed L @ new"
    and gone_listed: "gone r \<subseteq> listed (step r L)"
    and objects_shrink: "origin_ids (step r L) \<subseteq> origin_ids L - gone r"
    and refused_once: "distinct (map refused_key (lg_refused (step r L)))"
begin

lemma listed_grows: "listed L \<subseteq> listed (step r L)"
proof -
  obtain new where "lg_removed (step r L) = lg_removed L @ new" using removed_grow by blast
  then show ?thesis by (auto simp: listed_def)
qed

lemma run_accounts:
  "map entity_input (lg_entities (fold step rs L)) = map entity_input (lg_entities L) \<and>
   map relationship_input (lg_relationships (fold step rs L)) = map relationship_input (lg_relationships L) \<and>
   listed L \<union> \<Union> (gone ` set rs) \<subseteq> listed (fold step rs L) \<and>
   origin_ids (fold step rs L) \<subseteq> origin_ids L - \<Union> (gone ` set rs)"
proof (induction rs arbitrary: L)
  case (Cons r rs)
  from Cons.IH [of "step r L", unfolded entities_kept relationships_kept]
  have IH: "map entity_input (lg_entities (fold step rs (step r L))) = map entity_input (lg_entities L)"
    "map relationship_input (lg_relationships (fold step rs (step r L))) = map relationship_input (lg_relationships L)"
    "listed (step r L) \<union> \<Union> (gone ` set rs) \<subseteq> listed (fold step rs (step r L))"
    "origin_ids (fold step rs (step r L)) \<subseteq> origin_ids (step r L) - \<Union> (gone ` set rs)" by simp_all
  have "listed L \<union> \<Union> (gone ` set (r # rs)) \<subseteq> listed (fold step rs (step r L))"
    using IH(3) gone_listed [of r L] listed_grows [of L r] by (simp only: list.set image_insert Union_insert) blast
  moreover have "origin_ids (fold step rs (step r L)) \<subseteq> origin_ids L - \<Union> (gone ` set (r # rs))"
    using IH(4) objects_shrink [of r L] by (simp only: list.set image_insert Union_insert) blast
  ultimately show ?case using IH(1,2) by (simp only: fold_simps)
qed simp

end

lemma map_after: "(\<And>e. h (f e) = h e) \<Longrightarrow> map h (map f xs) = map h xs"
  by simp

lemma fold_absorb_input: "entity_input (fold (absorb r) m e) = entity_input e"
  "relationship_input (fold (absorb r) m e) = relationship_input e"
  by (simp_all add: entity_input_def relationship_input_def fold_get [of "absorb r", OF absorb_get])

lemma fold_drop_edge_input: "relationship_input (fold drop_edge rs e) = relationship_input e"
  by (simp add: relationship_input_def fold_get [of drop_edge, OF drop_edge_get])

lemma fold_set_ends_input: "relationship_input (fold set_ends ps e) = relationship_input e"
  by (simp add: relationship_input_def fold_get [of set_ends, OF set_ends_get])

lemma fold_reject_input: "entity_input (fold reject_entity is e) = entity_input e"
  by (simp add: entity_input_def fold_get [of reject_entity, OF reject_entity_get])

lemma follow_end_input:
  "relationship_input (follow_end m ''target_ref'' (follow_end m ''source_ref'' e)) = relationship_input e"
  by (simp add: relationship_input_def follow_end_get)

lemmas input_simps = fold_absorb_input fold_drop_edge_input fold_set_ends_input fold_reject_input follow_end_input

lemma refused_fold_distinct:
  assumes "distinct (map fst d)" "\<forall>p \<in> set d. fst p = h (snd p)"
  shows "distinct (map h (map snd (fold (\<lambda>e kept. let e = g e in dsetdefault (h e) e kept) es d)))"
  using assms
proof (induction es arbitrary: d)
  case Nil
  then have "map h (map snd d) = map fst d" by simp
  with Nil show ?case by (simp del: map_map)
next
  case (Cons e es)
  show ?case
    unfolding fold_simps Let_def comp_apply
    by (rule Cons.IH [unfolded Let_def]) (use Cons.prems in \<open>auto simp: dsetdefault_def map_of_eq_None_iff split: option.splits\<close>)
qed

lemma follow_refused_distinct: "distinct (map refused_key (lg_refused (follow_refused m L)))"
  using refused_fold_distinct [of "[]" refused_key "move_refused m" "lg_refused L"]
  by (simp add: follow_refused_def Let_def)

type_synonym alias_report = "(string, string) dict \<times> removed_rel list \<times> (string, string \<times> string) dict \<times> (string, string) dict"

definition alias_update :: "alias_report \<Rightarrow> ledger \<Rightarrow> ledger" where
  "alias_update = (\<lambda>(m, rs, ps, names). apply_alias_merge m rs ps names)"

definition alias_gone :: "alias_report \<Rightarrow> string set" where
  "alias_gone = (\<lambda>(m, rs, _). fst ` set m \<union> rm_id ` set rs)"

definition baseline_gone :: "baseline_result \<Rightarrow> string set" where
  "baseline_gone res = fst ` set (br_remap res) \<union> rm_id ` set (br_removed res) \<union> set (br_rejected res)"

lemma names_absorbed: "names_id (fst p) (absorbed_by_alias names p)"
  by (cases p) (simp add: names_id_def absorbed_by_alias_def clean_def)

lemma names_removed: "names_id (rm_id r) (removed_edge r)"
  by (simp add: names_id_def removed_edge_def)

interpretation alias_ledger: ledger_step alias_update alias_gone
proof unfold_locales
  fix r :: alias_report and L
  obtain m rs ps names where r: "r = (m, rs, ps, names)" by (metis prod_cases4)
  note f = apply_alias_merge_def ledger_fields follow_refs_def
  show "map entity_input (lg_entities (alias_update r L)) = map entity_input (lg_entities L)"
    by (simp add: r alias_update_def f input_simps)
  show "map relationship_input (lg_relationships (alias_update r L)) = map relationship_input (lg_relationships L)"
    by (simp add: r alias_update_def f input_simps)
  have rem: "lg_removed (alias_update r L) = lg_removed L @ map (absorbed_by_alias names) m @ map removed_edge rs"
    by (simp add: r alias_update_def f)
  then show "\<exists>new. lg_removed (alias_update r L) = lg_removed L @ new" by blast
  show "alias_gone r \<subseteq> listed (alias_update r L)"
  proof
    fix i assume "i \<in> alias_gone r"
    then consider p where "p \<in> set m" "i = fst p" | e where "e \<in> set rs" "i = rm_id e" by (auto simp: r alias_gone_def)
    then show "i \<in> listed (alias_update r L)"
    proof cases
      case 1
      then show ?thesis by (intro listedI [of "absorbed_by_alias names p"]) (simp_all add: rem names_absorbed)
    next
      case 2
      then show ?thesis by (intro listedI [of "removed_edge e"]) (simp_all add: rem names_removed)
    qed
  qed
  show "origin_ids (alias_update r L) \<subseteq> origin_ids L - alias_gone r"
    by (simp add: r alias_update_def f dpops_keys alias_gone_def origin_ids_def) blast
  show "distinct (map refused_key (lg_refused (alias_update r L)))"
    by (simp add: r alias_update_def apply_alias_merge_def follow_refused_distinct del: map_map)
qed

interpretation baseline_ledger: ledger_step apply_baseline_merge baseline_gone
proof unfold_locales
  fix r L
  note f = apply_baseline_merge_def baseline_rejections_def Let_def ledger_fields reject_ids_fields follow_refs_def
  show "map entity_input (lg_entities (apply_baseline_merge r L)) = map entity_input (lg_entities L)"
    by (simp add: f input_simps)
  show "map relationship_input (lg_relationships (apply_baseline_merge r L)) = map relationship_input (lg_relationships L)"
    by (simp add: f input_simps)
  let ?rej = "\<lambda>i. [(''stix_id'', StrV i), (''kind'', StrV ''object''), (''reason'', StrV ''baseline_rejected'')]"
  let ?out = "\<lambda>(b, w). [(''stix_id'', StrV b), (''kind'', StrV ''baseline''), (''reason'', StrV w)]"
  obtain base where rem: "lg_removed (apply_baseline_merge r L) = lg_removed L @ base @ map removed_edge (br_removed r) @
      map ?rej (filter (\<lambda>i. map_of (br_dropped r) i = None) (sort (remdups (br_rejected r)))) @ map ?out (br_dropped r)"
    and base: "base = map (\<lambda>p. [(''stix_id'', StrV (fst p)), (''kind'', StrV ''object''),
     (''reason'', StrV ''baseline_match''), (''replaced_by'', StrV (snd p))]) (br_remap r)"
    by (simp add: f)
  then show "\<exists>new. lg_removed (apply_baseline_merge r L) = lg_removed L @ new" by blast
  have "i \<in> listed (apply_baseline_merge r L)" if i: "i \<in> set (br_rejected r)" for i
  proof (cases "map_of (br_dropped r) i")
    case None
    show ?thesis by (rule listedI [of "?rej i"]) (use None i in \<open>simp_all add: rem names_id_def\<close>)
  next
    case (Some w)
    then have "(i, w) \<in> set (br_dropped r)" by (rule map_of_SomeD)
    then have "?out (i, w) \<in> ?out ` set (br_dropped r)" by (rule imageI)
    then show ?thesis by (intro listedI [of "?out (i, w)"]) (simp_all add: rem names_id_def)
  qed
  moreover have "fst p \<in> listed (apply_baseline_merge r L)" if "p \<in> set (br_remap r)" for p
    by (rule listedI [of "[(''stix_id'', StrV (fst p)), (''kind'', StrV ''object''), (''reason'', StrV ''baseline_match''),
          (''replaced_by'', StrV (snd p))]"]) (use that in \<open>simp_all add: rem base names_id_def\<close>)
  moreover have "rm_id e \<in> listed (apply_baseline_merge r L)" if "e \<in> set (br_removed r)" for e
    by (rule listedI [of "removed_edge e"]) (use that in \<open>simp_all add: rem names_removed\<close>)
  ultimately show "baseline_gone r \<subseteq> listed (apply_baseline_merge r L)" by (auto simp: baseline_gone_def)
  show "origin_ids (apply_baseline_merge r L) \<subseteq> origin_ids L - baseline_gone r"
    by (simp add: f dpops_keys baseline_gone_def origin_ids_def) blast
  show "distinct (map refused_key (lg_refused (apply_baseline_merge r L)))"
    by (simp add: apply_baseline_merge_def Let_def left_out_fields follow_refused_distinct del: map_map)
qed


end
