(* ===== verification/Overrides.thy ===== *)
theory Overrides
  imports Prelude "HOL-Library.Product_Lexorder"
begin

text \<open>
  The deny and promote rules at run time (pipeline/overrides.py) and the vocabulary that may never
  be promoted (pipeline/stage2d_cyner.py). The rules are read once per process and kept in a cache;
  a failed read means no rule. The SHA-256 and the JSON text of the fingerprint are arguments.
\<close>

section \<open>Types and keys\<close>

definition NAMED_TYPES :: "string list" where
  "NAMED_TYPES = [''malware'', ''threat_actor'', ''intrusion_set'', ''tool'', ''campaign'', ''infrastructure'', ''identity'', ''location'']"

definition GAZETTEER_TYPES :: "string list" where
  "GAZETTEER_TYPES = [''malware'', ''threat_actor'', ''tool'']"

definition ACTIONS :: "string list" where "ACTIONS = [''deny'', ''promote'']"
definition STATUSES :: "string list" where "STATUSES = [''candidate'', ''active'', ''ignored'']"

definition normalise :: "string \<Rightarrow> string" where
  "normalise v = lower (strip v)"

section \<open>Generic vocabulary\<close>

definition GENERIC_TOKENS :: "string list" where
  "GENERIC_TOKENS =
   [''malware'', ''ransomware'', ''backdoor'', ''backdoors'', ''downloader'', ''downloaders'', ''dropper'',
    ''droppers'', ''rootkit'', ''rootkits'', ''webshell'', ''webshells'', ''wiper'', ''wipers'', ''payload'',
    ''payloads'', ''exploit'', ''exploits'', ''macro'', ''macros'', ''framework'', ''frameworks'', ''rat'',
    ''trojan'', ''trojans'', ''trojanized'', ''stealer'', ''stealers'', ''infostealer'', ''shellcode'',
    ''launcher'', ''launchers'', ''variant'', ''variants'', ''module'', ''modules'', ''tool'', ''tools'',
    ''tooling'', ''tunneler'', ''tunnelers'', ''utility'', ''utilities'', ''generator'', ''builder'',
    ''installer'', ''installers'', ''loader'', ''loaders'', ''boot'', ''interpreter'', ''binary'',
    ''software'', ''program'', ''code'', ''shell'', ''http'', ''apt'', ''actor'', ''actors'', ''operator'',
    ''operators'', ''operation'', ''operations'', ''campaign'', ''campaigns'', ''cluster'', ''clusters'',
    ''espionage'', ''group'', ''groups'', ''hacker'', ''hackers'', ''hack'', ''sponsor'', ''attacker'',
    ''attackers'', ''unit'', ''units'', ''attack'', ''attacks'', ''cyber'', ''state'', ''government'',
    ''agency'', ''army'', ''team'', ''teams'', ''threat'', ''threats'', ''cikr'', ''commodity'', ''custom'',
    ''destructive'', ''disruptive'', ''disruption'', ''malicious'', ''modular'', ''lightweight'', ''embedded'',
    ''based'', ''stage'', ''stager'', ''post'', ''exploitation'', ''only'', ''new'', ''serious'', ''primary'',
    ''information'', ''wartime'', ''military'', ''linked'', ''backed'', ''sponsored'', ''russian'', ''c++'',
    ''php'', ''python'', ''dll'', ''file'', ''family'', ''class'', ''delivery'', ''the'', ''a'', ''an'',
    ''this'', ''that'', ''we'', ''they'', ''he'', ''she'', ''it'', ''our'', ''their'', ''us'', ''you'',
    ''all'', ''some'', ''s'']"

text \<open>\<open>s.split()\<close>: the maximal runs without white space.\<close>

fun split_space :: "string \<Rightarrow> string \<Rightarrow> string list" where
  "split_space word [] = (if word = [] then [] else [rev word])"
| "split_space word (c # cs) =
    (if is_space c then (if word = [] then split_space [] cs else rev word # split_space [] cs)
     else split_space (c # word) cs)"

definition is_generic_fragment :: "string \<Rightarrow> string set \<Rightarrow> bool" where
  "is_generic_fragment fragment extra_denylist =
    (let tokens = split_space [] (map (\<lambda>c. if c = CHR ''-'' then CHR '' '' else c) (lower fragment));
         named_tokens = filter (\<lambda>t. length t \<ge> 3 \<and> t \<notin> set GENERIC_TOKENS \<and> t \<notin> extra_denylist) tokens
     in named_tokens = [])"

section \<open>The active rules\<close>

record override_rule =
  eo_id :: string
  eo_term :: string
  eo_type :: string
  eo_action :: string
  eo_status :: string
  eo_display :: "string option"
  eo_accepted :: nat
  eo_rejected :: nat
  eo_jobs :: nat
  eo_origin :: string
  eo_note :: "string option"
  eo_created :: string
  eo_updated :: string

record gazetteer_entry =
  ge_name :: string
  ge_canonical :: string
  ge_type :: string

type_synonym rules = "(string \<times> string) set \<times> gazetteer_entry list"

definition promoted_entry :: "override_rule \<Rightarrow> gazetteer_entry" where
  "promoted_entry r = \<lparr>ge_name = normalise (eo_term r),
     ge_canonical = (let d = strip (str_or (eo_display r) []) in if d = [] then eo_term r else d), ge_type = eo_type r\<rparr>"

definition read_active :: "bool \<Rightarrow> override_rule list option \<Rightarrow> rules" where
  "read_active enabled store =
    (if \<not> enabled then ({}, [])
     else case store of None \<Rightarrow> ({}, [])
     | Some table \<Rightarrow>
        let rows = filter (\<lambda>r. eo_status r = ''active'') table
        in (set (map (\<lambda>r. (normalise (eo_term r), eo_type r)) (filter (\<lambda>r. eo_action r = ''deny'') rows)),
            map promoted_entry (filter (\<lambda>r. eo_action r \<noteq> ''deny'' \<and> eo_action r = ''promote'' \<and> eo_type r \<in> set GAZETTEER_TYPES) rows)))"

text \<open>\<open>lru_cache(maxsize=1)\<close>: the first answer is kept until \<open>reload\<close>.\<close>

definition load_active :: "bool \<Rightarrow> override_rule list option \<Rightarrow> rules option \<Rightarrow> rules \<times> rules option" where
  "load_active enabled store cache = (case cache of Some r \<Rightarrow> (r, cache)
     | None \<Rightarrow> let r = read_active enabled store in (r, Some r))"

definition reload_rules :: "rules option \<Rightarrow> rules option" where
  "reload_rules cache = None"

definition denied_keys :: "rules \<Rightarrow> (string \<times> string) set" where "denied_keys R = fst R"
definition promoted_entries :: "rules \<Rightarrow> gazetteer_entry list" where "promoted_entries R = snd R"

text \<open>\<open>json\<close> renders one promoted entry; \<open>digest\<close> is the first sixteen characters of the hash of the payload.\<close>

definition overrides_fingerprint :: "(gazetteer_entry \<Rightarrow> string) \<Rightarrow> ((string \<times> string) list \<times> gazetteer_entry list \<Rightarrow> string) \<Rightarrow> rules \<Rightarrow> string" where
  "overrides_fingerprint json digest R = digest (sorted_list_of_set (denied_keys R), sort_key json (promoted_entries R))"

definition is_denied :: "rules \<Rightarrow> string \<Rightarrow> string \<Rightarrow> bool" where
  "is_denied R val entity_type \<longleftrightarrow> (normalise val, entity_type) \<in> denied_keys R"

definition drop_denied :: "rules \<Rightarrow> (string \<times> string) list \<Rightarrow> (string \<times> string) list" where
  "drop_denied R entities =
    (let keys = denied_keys R in
     if keys = {} then entities
     else filter (\<lambda>(val, entity_type). (normalise val, entity_type) \<notin> keys) entities)"

definition not_denied :: "rules \<Rightarrow> string \<Rightarrow> string list \<Rightarrow> string list" where
  "not_denied R entity_type ns = filter (\<lambda>n. \<not> is_denied R n entity_type) ns"

record llm_names =
  malware_families :: "string list"
  threat_actors :: "string list"
  llm_tools :: "string list"
  targeted_countries :: "string list"
  targeted_sectors :: "string list"
  campaign_name :: "string option"

definition DENIABLE_LISTS :: "((llm_names \<Rightarrow> string list) \<times> string) list" where
  "DENIABLE_LISTS = [(malware_families, ''malware''), (threat_actors, ''threat_actor''), (llm_tools, ''tool''),
     (targeted_countries, ''location''), (targeted_sectors, ''identity'')]"

definition denied_campaign :: "rules \<Rightarrow> llm_names \<Rightarrow> bool" where
  "denied_campaign R res = (case campaign_name res of Some (c # cs) \<Rightarrow> is_denied R (c # cs) ''campaign'' | _ \<Rightarrow> False)"

definition without_denied_listed :: "rules \<Rightarrow> llm_names \<Rightarrow> llm_names \<times> (string \<times> string) list" where
  "without_denied_listed R res =
    (if denied_keys R = {} then (res, [])
     else let removed = concat (map (\<lambda>(field, etype). map (\<lambda>n. (n, etype)) (filter (\<lambda>n. is_denied R n etype) (field res))) DENIABLE_LISTS);
              removed = (if denied_campaign R res then removed @ [(case campaign_name res of Some c \<Rightarrow> c | None \<Rightarrow> [], ''campaign'')] else removed);
              kept = res\<lparr>malware_families := not_denied R ''malware'' (malware_families res),
                threat_actors := not_denied R ''threat_actor'' (threat_actors res),
                llm_tools := not_denied R ''tool'' (llm_tools res),
                campaign_name := (if denied_campaign R res then None else campaign_name res),
                targeted_countries := not_denied R ''location'' (targeted_countries res),
                targeted_sectors := not_denied R ''identity'' (targeted_sectors res)\<rparr>
          in (kept, removed))"

definition without_denied :: "rules \<Rightarrow> llm_names \<Rightarrow> llm_names" where
  "without_denied R res = fst (without_denied_listed R res)"

end
