(* ===== verification/Promotion.thy ===== *)
theory Promotion
  imports Overrides Decisions
begin

text \<open>
  Growing the deny and promote lists from the analysts' decisions (pipeline/promotion.py) and the
  routes over them (api/routes/overrides.py). The entities table is the list of its rows in the
  order a query returns them, the table of rules a list of rows with a unique (term, type, action).
  A float count ratio is compared as a rational, new row ids come from a generator.
\<close>

section \<open>Decisions\<close>

definition MIN_TERM_LEN :: nat where "MIN_TERM_LEN = 4"
definition BASELINE_SOURCE :: string where "BASELINE_SOURCE = ''baseline_stix''"
definition DEFAULT_MIN_REJECTIONS :: int where "DEFAULT_MIN_REJECTIONS = 3"
definition DEFAULT_MIN_ACCEPTS :: int where "DEFAULT_MIN_ACCEPTS = 3"
definition DEFAULT_MIN_JOBS :: int where "DEFAULT_MIN_JOBS = 2"
definition DEFAULT_SHARE :: rat where "DEFAULT_SHARE = 8 / 10"

record entity_row =
  er_value :: string
  er_type :: string
  er_source :: "string option"
  er_accepted :: "bool option"
  er_origin :: "string option"
  er_job :: string

definition origin_in :: "string list \<Rightarrow> entity_row \<Rightarrow> bool" where
  "origin_in os r = (case er_origin r of None \<Rightarrow> False | Some origin \<Rightarrow> origin \<in> set os)"

definition promotion_decisions :: "entity_row list \<Rightarrow> entity_row list" where
  "promotion_decisions rows = filter (\<lambda>r. er_type r \<in> set NAMED_TYPES \<and> er_source r \<noteq> Some BASELINE_SOURCE \<and>
     (er_source r = Some ''manual''
      \<or> (er_accepted r = Some True \<and> origin_in HUMAN_ORIGINS r)
      \<or> (er_accepted r = Some False \<and> origin_in (HUMAN_ORIGINS @ [LEGACY]) r))) rows"

section \<open>Candidates\<close>

record floors =
  min_rejections :: int
  min_accepts :: int
  min_jobs :: int
  share :: rat

definition default_floors :: floors where
  "default_floors = \<lparr>min_rejections = DEFAULT_MIN_REJECTIONS, min_accepts = DEFAULT_MIN_ACCEPTS,
     min_jobs = DEFAULT_MIN_JOBS, share = DEFAULT_SHARE\<rparr>"

record vote_tally =
  vt_accepted :: nat
  vt_rejected :: nat
  vt_accepted_jobs :: "string list"
  vt_rejected_jobs :: "string list"
  vt_surface :: "(string, nat) dict"
  vt_sources :: "string list"

definition no_votes :: vote_tally where
  "no_votes = \<lparr>vt_accepted = 0, vt_rejected = 0, vt_accepted_jobs = [], vt_rejected_jobs = [], vt_surface = [], vt_sources = []\<rparr>"

record candidate =
  cd_term :: string
  cd_type :: string
  cd_action :: string
  cd_display :: string
  cd_accepted :: nat
  cd_rejected :: nat
  cd_jobs :: nat
  cd_existing :: "string option"
  cd_sources :: "string list"

definition vote :: "entity_row \<Rightarrow> vote_tally \<Rightarrow> vote_tally" where
  "vote r t =
    (let t = (case er_source r of Some (c # cs) \<Rightarrow> t\<lparr>vt_sources := List.insert (c # cs) (vt_sources t)\<rparr> | _ \<Rightarrow> t)
     in if er_accepted r = Some False
        then t\<lparr>vt_rejected := vt_rejected t + 1, vt_rejected_jobs := List.insert (er_job r) (vt_rejected_jobs t)\<rparr>
        else if er_accepted r = Some True \<or> er_source r = Some ''manual''
        then let surface = strip (er_value r) in
          t\<lparr>vt_accepted := vt_accepted t + 1, vt_accepted_jobs := List.insert (er_job r) (vt_accepted_jobs t),
            vt_surface := dset surface (dget (vt_surface t) surface 0 + 1) (vt_surface t)\<rparr>
        else t)"

definition vote_key :: "entity_row \<Rightarrow> string \<times> string" where
  "vote_key r = (normalise (er_value r), er_type r)"

definition countable :: "entity_row \<Rightarrow> bool" where
  "countable r \<longleftrightarrow> normalise (er_value r) \<noteq> [] \<and> er_type r \<in> set NAMED_TYPES"

definition tally_votes :: "entity_row list \<Rightarrow> (string \<times> string, vote_tally) dict" where
  "tally_votes rows = fold (\<lambda>r d. if \<not> countable r then d
     else let d = dsetdefault (vote_key r) no_votes d in dset (vote_key r) (vote r (dget d (vote_key r) no_votes)) d) rows []"

text \<open>\<open>most_common(1)\<close>: the first of the most frequent surface forms.\<close>

definition candidate_display :: "string \<Rightarrow> vote_tally \<Rightarrow> string" where
  "candidate_display trm t = (case vt_surface t of [] \<Rightarrow> trm | p # ps \<Rightarrow> fst (max_by snd p ps))"

definition share_reached :: "rat \<Rightarrow> nat \<Rightarrow> nat \<Rightarrow> bool" where
  "share_reached s n votes \<longleftrightarrow> of_nat n / of_nat votes \<ge> s"

definition deny_floor :: "floors \<Rightarrow> vote_tally \<Rightarrow> bool" where
  "deny_floor f t \<longleftrightarrow> int (vt_rejected t) \<ge> min_rejections f \<and> int (length (vt_rejected_jobs t)) \<ge> min_jobs f \<and>
     share_reached (share f) (vt_rejected t) (vt_accepted t + vt_rejected t)"

definition promote_floor :: "floors \<Rightarrow> string set \<Rightarrow> string \<Rightarrow> string \<Rightarrow> vote_tally \<Rightarrow> bool" where
  "promote_floor f known_terms trm etype t \<longleftrightarrow> etype \<in> set GAZETTEER_TYPES \<and> int (vt_accepted t) \<ge> min_accepts f \<and>
     int (length (vt_accepted_jobs t)) \<ge> min_jobs f \<and> share_reached (share f) (vt_accepted t) (vt_accepted t + vt_rejected t) \<and>
     trm \<notin> known_terms \<and> length trm \<ge> MIN_TERM_LEN \<and> \<not> is_generic_fragment trm {}"

definition new_candidate :: "string \<Rightarrow> string \<Rightarrow> vote_tally \<Rightarrow> string \<Rightarrow> nat \<Rightarrow> candidate" where
  "new_candidate trm etype t action jobs_n = \<lparr>cd_term = trm, cd_type = etype, cd_action = action,
     cd_display = candidate_display trm t, cd_accepted = vt_accepted t, cd_rejected = vt_rejected t, cd_jobs = jobs_n,
     cd_existing = None, cd_sources = sort (vt_sources t)\<rparr>"

definition tally_candidates :: "floors \<Rightarrow> string set \<Rightarrow> (string \<times> string) \<times> vote_tally \<Rightarrow> candidate list" where
  "tally_candidates f known_terms = (\<lambda>((trm, etype), t).
     if vt_accepted t + vt_rejected t = 0 then []
     else (if deny_floor f t then [new_candidate trm etype t ''deny'' (length (vt_rejected_jobs t))] else []) @
          (if promote_floor f known_terms trm etype t then [new_candidate trm etype t ''promote'' (length (vt_accepted_jobs t))] else []))"

definition compute_candidates :: "floors \<Rightarrow> string set \<Rightarrow> entity_row list \<Rightarrow> candidate list" where
  "compute_candidates f known_terms decisions = concat (map (tally_candidates f known_terms) (sort_key fst (tally_votes decisions)))"

section \<open>The table of rules\<close>

definition eo_key :: "override_rule \<Rightarrow> string \<times> string \<times> string" where
  "eo_key r = (eo_term r, eo_type r, eo_action r)"

definition cd_key :: "candidate \<Rightarrow> string \<times> string \<times> string" where
  "cd_key c = (cd_term c, cd_type c, cd_action c)"

text \<open>\<open>INSERT ... ON CONFLICT (term, entity_type, action) DO UPDATE\<close>.\<close>

definition upsert_rule :: "override_rule \<Rightarrow> (override_rule \<Rightarrow> override_rule) \<Rightarrow> override_rule list \<Rightarrow> override_rule list" where
  "upsert_rule new change table =
    (if list_ex (\<lambda>r. eo_key r = eo_key new) table then map (\<lambda>r. if eo_key r = eo_key new then change r else r) table
     else table @ [new])"

definition all_rules :: "string option \<Rightarrow> string option \<Rightarrow> override_rule list \<Rightarrow> override_rule list" where
  "all_rules state action table = sort_key (\<lambda>r. (eo_action r, eo_type r, eo_term r))
     (filter (\<lambda>r. (state \<in> {None, Some []} \<or> state = Some (eo_status r)) \<and> (action \<in> {None, Some []} \<or> action = Some (eo_action r))) table)"

text \<open>The index of the gazetteer with the active promotions after it, when it loads.\<close>

definition gazetteer_terms :: "string list option \<Rightarrow> string list \<Rightarrow> string set" where
  "gazetteer_terms loaded promoted = (case loaded of None \<Rightarrow> {} | Some names \<Rightarrow> set (fold remove1 promoted names))"

definition propose_rules :: "floors \<Rightarrow> string set \<Rightarrow> entity_row list \<Rightarrow> override_rule list \<Rightarrow> candidate list" where
  "propose_rules f known_terms rows table =
    (let existing = map (\<lambda>r. (eo_key r, eo_status r)) (all_rules None None table)
     in map (\<lambda>c. c\<lparr>cd_existing := map_of (rev existing) (cd_key c)\<rparr>) (compute_candidates f known_terms (promotion_decisions rows)))"

definition candidate_row :: "string \<Rightarrow> string \<Rightarrow> candidate \<Rightarrow> override_rule" where
  "candidate_row i now c = \<lparr>eo_id = i, eo_term = cd_term c, eo_type = cd_type c, eo_action = cd_action c, eo_status = ''candidate'',
     eo_display = Some (cd_display c), eo_accepted = cd_accepted c, eo_rejected = cd_rejected c, eo_jobs = cd_jobs c,
     eo_origin = ''auto'', eo_note = None, eo_created = now, eo_updated = now\<rparr>"

definition refresh_row :: "string \<Rightarrow> candidate \<Rightarrow> override_rule \<Rightarrow> override_rule" where
  "refresh_row now c r = r\<lparr>eo_accepted := cd_accepted c, eo_rejected := cd_rejected c, eo_jobs := cd_jobs c,
     eo_display := Some (cd_display c), eo_updated := now\<rparr>"

fun apply_candidates :: "(nat \<Rightarrow> string) \<Rightarrow> nat \<Rightarrow> candidate list \<Rightarrow> string \<Rightarrow> override_rule list \<Rightarrow> override_rule list \<times> nat" where
  "apply_candidates gen k [] now table = (table, 0)"
| "apply_candidates gen k (c # cs) now table =
    (case apply_candidates gen (k + 1) cs now (upsert_rule (candidate_row (gen k) now c) (refresh_row now c) table) of
       (table, n) \<Rightarrow> (table, n + 1))"

definition set_status :: "string \<Rightarrow> string \<Rightarrow> string \<Rightarrow> override_rule list \<Rightarrow> override_rule list \<times> override_rule option" where
  "set_status i state now table =
    (let table = map (\<lambda>r. if eo_id r = i then r\<lparr>eo_status := state, eo_updated := now\<rparr> else r) table
     in (table, List.find (\<lambda>r. eo_id r = i) table))"

definition activate_all_candidates :: "string \<Rightarrow> override_rule list \<Rightarrow> override_rule list \<times> nat" where
  "activate_all_candidates now table =
    (map (\<lambda>r. if eo_status r = ''candidate'' then r\<lparr>eo_status := ''active'', eo_updated := now\<rparr> else r) table,
     length (filter (\<lambda>r. eo_status r = ''candidate'') table))"

datatype promote_refusal = TooShort | Generic

definition validate_promote_term :: "string \<Rightarrow> promote_refusal option" where
  "validate_promote_term trm =
    (let stripped = normalise trm in
     if length stripped < MIN_TERM_LEN then Some TooShort
     else if is_generic_fragment stripped {} then Some Generic
     else None)"

definition manual_row :: "string \<Rightarrow> string \<Rightarrow> string \<Rightarrow> string \<Rightarrow> string \<Rightarrow> string \<Rightarrow> string option \<Rightarrow> override_rule" where
  "manual_row i key etype action shown now note = \<lparr>eo_id = i, eo_term = key, eo_type = etype, eo_action = action, eo_status = ''active'',
     eo_display = Some shown, eo_accepted = 0, eo_rejected = 0, eo_jobs = 0, eo_origin = ''manual'', eo_note = note,
     eo_created = now, eo_updated = now\<rparr>"

definition add_manual :: "string \<Rightarrow> string \<Rightarrow> string \<Rightarrow> string \<Rightarrow> string \<Rightarrow> string option \<Rightarrow> string option \<Rightarrow> override_rule list \<Rightarrow>
    promote_refusal + override_rule list \<times> override_rule option" where
  "add_manual i trm etype action now display note table =
    (case (if action = ''promote'' then validate_promote_term trm else None) of
       Some reason \<Rightarrow> Inl reason
     | None \<Rightarrow>
        let key = normalise trm; shown = strip (str_or display trm);
            table = upsert_rule (manual_row i key etype action shown now note)
              (\<lambda>r. r\<lparr>eo_status := ''active'', eo_origin := ''manual'', eo_display := Some shown, eo_note := note, eo_updated := now\<rparr>) table
        in Inr (table, List.find (\<lambda>r. eo_key r = (key, etype, action)) table))"

definition delete_override :: "string \<Rightarrow> override_rule list \<Rightarrow> override_rule list \<times> bool" where
  "delete_override i table = (filter (\<lambda>r. eo_id r \<noteq> i) table, list_ex (\<lambda>r. eo_id r = i) table)"

section \<open>Routes\<close>

datatype route_error = BadRequest | NotFound | Unprocessable

text \<open>The model validator: PostgreSQL text holds no NUL byte (a lone surrogate is no Latin-1 character).\<close>

definition no_nul :: "string option \<Rightarrow> bool" where
  "no_nul v \<longleftrightarrow> (case v of None \<Rightarrow> True | Some s \<Rightarrow> CHR 0x00 \<notin> set s)"

definition check_rule :: "string \<Rightarrow> string \<Rightarrow> route_error + unit" where
  "check_rule etype action =
    (if action \<notin> set ACTIONS then Inl BadRequest
     else if etype \<notin> set (if action = ''promote'' then GAZETTEER_TYPES else NAMED_TYPES) then Inl BadRequest
     else Inr ())"

definition get_overrides :: "string option \<Rightarrow> string option \<Rightarrow> override_rule list \<Rightarrow> route_error + override_rule list" where
  "get_overrides state action table =
    (if (case state of None \<Rightarrow> False | Some s \<Rightarrow> s \<notin> set STATUSES) then Inl BadRequest
     else if (case action of None \<Rightarrow> False | Some a \<Rightarrow> a \<notin> set ACTIONS) then Inl BadRequest
     else Inr (all_rules state action table))"

definition promote_route :: "(nat \<Rightarrow> string) \<Rightarrow> floors \<Rightarrow> bool \<Rightarrow> string \<Rightarrow> string set \<Rightarrow> entity_row list \<Rightarrow> override_rule list \<Rightarrow>
    route_error + override_rule list \<times> nat \<times> candidate list" where
  "promote_route gen f apply_it now known_terms rows table =
    (if min (min_rejections f) (min (min_accepts f) (min_jobs f)) < 1 then Inl BadRequest
     else if \<not> (0 < share f \<and> share f \<le> 1) then Inl BadRequest
     else let candidates = propose_rules f known_terms rows table;
              (table, written) = (if apply_it then apply_candidates gen 0 candidates now table else (table, 0))
          in Inr (table, written, candidates))"

definition create_override :: "string \<Rightarrow> string \<Rightarrow> string \<Rightarrow> string \<Rightarrow> string \<Rightarrow> string option \<Rightarrow> string option \<Rightarrow> override_rule list \<Rightarrow>
    route_error + override_rule list \<times> override_rule option" where
  "create_override i trm etype action now display note table =
    (if \<not> (no_nul (Some trm) \<and> no_nul display \<and> no_nul note) then Inl Unprocessable
     else and_then (check_rule etype action) (\<lambda>_.
      if strip trm = [] then Inl BadRequest
      else case add_manual i trm etype action now display note table of Inl _ \<Rightarrow> Inl BadRequest | Inr r \<Rightarrow> Inr r))"

definition patch_override :: "string \<Rightarrow> string \<Rightarrow> string \<Rightarrow> override_rule list \<Rightarrow> route_error + override_rule list \<times> override_rule" where
  "patch_override i state now table =
    (if state \<notin> set STATUSES then Inl BadRequest
     else case set_status i state now table of (table, Some row) \<Rightarrow> Inr (table, row) | (_, None) \<Rightarrow> Inl NotFound)"

definition remove_override :: "string \<Rightarrow> override_rule list \<Rightarrow> route_error + override_rule list" where
  "remove_override i table =
    (case delete_override i table of (table, removed) \<Rightarrow> if removed then Inr table else Inl NotFound)"

end
