(* ===== verification/PromotionSound.thy ===== *)
theory PromotionSound
  imports Promotion
begin

text \<open>
  The promotion job: its candidates against a reference that counts the decisions directly, what it
  may and may not change in the table of rules, and the invariant of that table under the routes.
\<close>

section \<open>Counting\<close>

definition votes_for :: "entity_row list \<Rightarrow> string \<times> string \<Rightarrow> entity_row list" where
  "votes_for rows k = filter (\<lambda>r. countable r \<and> vote_key r = k) rows"

definition rejects :: "entity_row list \<Rightarrow> entity_row list" where
  "rejects rs = filter (\<lambda>r. er_accepted r = Some False) rs"

definition accepts :: "entity_row list \<Rightarrow> entity_row list" where
  "accepts rs = filter (\<lambda>r. er_accepted r = Some True \<or> er_accepted r = None \<and> er_source r = Some ''manual'') rs"

lemma vote_fields:
  "vt_rejected (vote r t) = vt_rejected t + length (rejects [r])"
  "vt_accepted (vote r t) = vt_accepted t + length (accepts [r])"
  "vt_rejected_jobs (vote r t) = (if er_accepted r = Some False then List.insert (er_job r) (vt_rejected_jobs t) else vt_rejected_jobs t)"
  "vt_accepted_jobs (vote r t) = (if er_accepted r = Some True \<or> er_accepted r = None \<and> er_source r = Some ''manual''
     then List.insert (er_job r) (vt_accepted_jobs t) else vt_accepted_jobs t)"
  by (auto simp: vote_def Let_def rejects_def accepts_def split: option.split list.split)

lemma counted_Cons:
  "rejects (r # rs) = rejects [r] @ rejects rs" "accepts (r # rs) = accepts [r] @ accepts rs"
  "set (rejects [r]) = (if er_accepted r = Some False then {r} else {})"
  "set (accepts [r]) = (if er_accepted r = Some True \<or> er_accepted r = None \<and> er_source r = Some ''manual'' then {r} else {})"
  by (simp_all add: rejects_def accepts_def)

lemma fold_vote:
  "vt_rejected (fold vote rs t) = vt_rejected t + length (rejects rs) \<and>
   vt_accepted (fold vote rs t) = vt_accepted t + length (accepts rs) \<and>
   set (vt_rejected_jobs (fold vote rs t)) = set (vt_rejected_jobs t) \<union> er_job ` set (rejects rs) \<and>
   set (vt_accepted_jobs (fold vote rs t)) = set (vt_accepted_jobs t) \<union> er_job ` set (accepts rs) \<and>
   (distinct (vt_rejected_jobs t) \<longrightarrow> distinct (vt_rejected_jobs (fold vote rs t))) \<and>
   (distinct (vt_accepted_jobs t) \<longrightarrow> distinct (vt_accepted_jobs (fold vote rs t)))"
proof (induction rs arbitrary: t)
  case Nil
  then show ?case by (simp add: rejects_def accepts_def)
next
  case (Cons r rs)
  show ?case
    using Cons.IH [of "vote r t"]
    unfolding fold_simps counted_Cons(1,2) [of r rs] vote_fields set_append length_append image_Un counted_Cons(3,4)
    by (auto split: if_splits)
qed

lemma length_distinct_card: "distinct xs \<Longrightarrow> set xs = A \<Longrightarrow> length xs = card A"
  by (drule distinct_card) simp

lemma vote_counts:
  "vt_rejected (fold vote rs no_votes) = length (rejects rs)" "vt_accepted (fold vote rs no_votes) = length (accepts rs)"
  "length (vt_rejected_jobs (fold vote rs no_votes)) = card (er_job ` set (rejects rs))"
  "length (vt_accepted_jobs (fold vote rs no_votes)) = card (er_job ` set (accepts rs))"
proof -
  note F = fold_vote [of rs no_votes]
  show "vt_rejected (fold vote rs no_votes) = length (rejects rs)" "vt_accepted (fold vote rs no_votes) = length (accepts rs)"
    using F by (simp_all add: no_votes_def)
  show "length (vt_rejected_jobs (fold vote rs no_votes)) = card (er_job ` set (rejects rs))"
    by (rule length_distinct_card) (use F in \<open>simp_all add: no_votes_def\<close>)
  show "length (vt_accepted_jobs (fold vote rs no_votes)) = card (er_job ` set (accepts rs))"
    by (rule length_distinct_card) (use F in \<open>simp_all add: no_votes_def\<close>)
qed

lemma tally_fold:
  assumes "distinct (map fst d)"
  defines "step \<equiv> \<lambda>r d. if \<not> countable r then d
     else let d = dsetdefault (vote_key r) no_votes d in dset (vote_key r) (vote r (dget d (vote_key r) no_votes)) d"
  shows "distinct (map fst (fold step rs d)) \<and> fst ` set (fold step rs d) = fst ` set d \<union> vote_key ` set (filter countable rs) \<and>
    dget (fold step rs d) k no_votes = fold vote (votes_for rs k) (dget d k no_votes)"
  using assms(1)
proof (induction rs arbitrary: d)
  case Nil
  then show ?case by (simp add: votes_for_def)
next
  case (Cons r rs)
  show ?case
  proof (cases "countable r")
    case False
    with Cons show ?thesis by (simp add: step_def votes_for_def)
  next
    case True
    let ?d = "dsetdefault (vote_key r) no_votes d"
    have d: "distinct (map fst ?d)" using Cons.prems by (auto simp: dsetdefault_def map_of_eq_None_iff split: option.splits)
    have k: "fst ` set ?d = insert (vote_key r) (fst ` set d)"
      by (auto simp: dsetdefault_def map_of_eq_None_iff split: option.splits dest: map_of_SomeD intro: rev_image_eqI)
    have g: "dget ?d j no_votes = dget d j no_votes" for j by (simp add: dget_def dict_simps split: option.split)
    have s: "step r d = dset (vote_key r) (vote r (dget d (vote_key r) no_votes)) ?d" using True by (simp add: step_def g)
    have "distinct (map fst (step r d))" using d by (simp add: s)
    from Cons.IH [OF this] show ?thesis using True
      by (auto simp: s keys_dset k dget_dset g votes_for_def)
  qed
qed

lemma tally_votes_spec:
  "distinct (map fst (tally_votes rows))" "fst ` set (tally_votes rows) = vote_key ` set (filter countable rows)"
  "(k, t) \<in> set (tally_votes rows) \<Longrightarrow> t = fold vote (votes_for rows k) no_votes"
proof -
  note F = tally_fold [of "[]", folded tally_votes_def, simplified]
  show d: "distinct (map fst (tally_votes rows))" and "fst ` set (tally_votes rows) = vote_key ` set (filter countable rows)"
    using F [of rows] by auto
  assume "(k, t) \<in> set (tally_votes rows)"
  with d have "map_of (tally_votes rows) k = Some t" by simp
  with F [of rows k] show "t = fold vote (votes_for rows k) no_votes" by (simp add: dget_def)
qed

text \<open>A dict sorted by its keys.\<close>

lemma sort_dict:
  fixes d :: "('k :: linorder, 'v) dict"
  assumes "distinct (map fst d)" "\<And>k v. (k, v) \<in> set d \<Longrightarrow> v = g k"
  shows "sort_key fst d = map (\<lambda>k. (k, g k)) (sorted_list_of_set (fst ` set d))"
proof -
  let ?s = "sort_key fst d"
  have keys: "map fst ?s = sorted_list_of_set (fst ` set d)"
  proof (rule sorted_distinct_set_unique)
    show "sorted (map fst ?s)" by simp
    show "distinct (map fst ?s)" using assms(1) by (simp add: distinct_map)
  qed simp_all
  have "p = (fst p, g (fst p))" if "p \<in> set ?s" for p using that assms(2) [of "fst p" "snd p"] by (simp add: prod_eq_iff)
  then have "?s = map (\<lambda>p. (fst p, g (fst p))) ?s" by (metis (no_types, lifting) map_idI)
  then have "?s = map (\<lambda>k. (k, g k)) (map fst ?s)" by (simp add: o_def)
  with keys show ?thesis by simp
qed

section \<open>The reference\<close>

type_synonym summary = "(string \<times> string \<times> string) \<times> nat \<times> nat \<times> nat"

definition summary_of :: "candidate \<Rightarrow> summary" where
  "summary_of c = (cd_key c, cd_accepted c, cd_rejected c, cd_jobs c)"

text \<open>Of the decisions on one value under one type: how often it was accepted and rejected, and in how
  many reports.\<close>

definition reference_for :: "floors \<Rightarrow> string set \<Rightarrow> entity_row list \<Rightarrow> string \<times> string \<Rightarrow> summary list" where
  "reference_for f known_terms rows = (\<lambda>(trm, etype).
    (let vs = votes_for rows (trm, etype); a = length (accepts vs); r = length (rejects vs);
         aj = card (er_job ` set (accepts vs)); rj = card (er_job ` set (rejects vs))
     in (if a + r \<noteq> 0 \<and> min_rejections f \<le> int r \<and> min_jobs f \<le> int rj \<and> share f \<le> of_nat r / of_nat (a + r)
         then [((trm, etype, ''deny''), a, r, rj)] else []) @
        (if a + r \<noteq> 0 \<and> etype \<in> set GAZETTEER_TYPES \<and> min_accepts f \<le> int a \<and> min_jobs f \<le> int aj \<and>
            share f \<le> of_nat a / of_nat (a + r) \<and> trm \<notin> known_terms \<and> 4 \<le> length trm \<and> \<not> is_generic_fragment trm {}
         then [((trm, etype, ''promote''), a, r, aj)] else [])))"

definition reference_candidates :: "floors \<Rightarrow> string set \<Rightarrow> entity_row list \<Rightarrow> summary list" where
  "reference_candidates f known_terms rows =
     concat (map (reference_for f known_terms rows) (sorted_list_of_set (vote_key ` set (filter countable rows))))"

text \<open>C18. The candidates are exactly what the thresholds ask for: read in order, they are the values
  with enough rejections (or accepts) in enough reports and by a large enough share, counted
  directly on the decisions, each with those counts, whatever the order the decisions came in.\<close>

lemma candidates_exact:
  "map summary_of (compute_candidates f known_terms rows) = reference_candidates f known_terms rows"
proof -
  let ?t = "\<lambda>k. fold vote (votes_for rows k) no_votes"
  have "sort_key fst (tally_votes rows) = map (\<lambda>k. (k, ?t k)) (sorted_list_of_set (vote_key ` set (filter countable rows)))"
    using sort_dict [of "tally_votes rows" ?t, OF tally_votes_spec(1)] tally_votes_spec(3) unfolding tally_votes_spec(2) by blast
  moreover have "map summary_of (tally_candidates f known_terms (k, ?t k)) = reference_for f known_terms rows k" for k
    by (cases k) (auto simp: tally_candidates_def reference_for_def Let_def deny_floor_def promote_floor_def share_reached_def
        vote_counts new_candidate_def summary_of_def cd_key_def MIN_TERM_LEN_def)
  ultimately show ?thesis
    by (simp add: compute_candidates_def reference_candidates_def map_concat o_def)
qed

section \<open>What the job may change\<close>

lemma upsert_keys:
  assumes "\<And>r. eo_key r = eo_key new \<Longrightarrow> eo_key (change r) = eo_key new" "distinct (map eo_key t)"
  shows "distinct (map eo_key (upsert_rule new change t))"
proof -
  have "map eo_key (map (\<lambda>r. if eo_key r = eo_key new then change r else r) t) = map eo_key t"
    using assms(1) by simp
  with assms(2) show ?thesis by (auto simp: upsert_rule_def list_ex_iff simp del: map_map)
qed

lemma upsert_set: "x \<in> set (upsert_rule new change t) \<Longrightarrow> x = new \<or> x \<in> set t \<or> (\<exists>r \<in> set t. eo_key r = eo_key new \<and> x = change r)"
  by (auto simp: upsert_rule_def split: if_splits)

lemma upsert_there:
  assumes "\<And>r. eo_key (change r) = eo_key r"
  shows "\<exists>r \<in> set (upsert_rule new change t). eo_key r = eo_key new"
proof (cases "list_ex (\<lambda>r. eo_key r = eo_key new) t")
  case True
  then obtain r where "r \<in> set t" "eo_key r = eo_key new" by (auto simp: list_ex_iff)
  with assms [of r] True show ?thesis by (intro bexI [of _ "change r"]) (auto simp: upsert_rule_def)
qed (simp add: upsert_rule_def)

lemma upsert_at:
  "r \<in> set (upsert_rule new change t) \<Longrightarrow> eo_key r = eo_key new \<Longrightarrow> r = new \<or> (\<exists>r0 \<in> set t. r = change r0)"
  by (auto simp: upsert_rule_def list_ex_iff split: if_splits)

definition standing :: "override_rule \<Rightarrow> string \<times> (string \<times> string \<times> string) \<times> string \<times> string \<times> string option \<times> string" where
  "standing r = (eo_id r, eo_key r, eo_status r, eo_origin r, eo_note r, eo_created r)"

lemma refresh_standing: "standing (refresh_row now c r) = standing r"
  by (simp add: refresh_row_def standing_def eo_key_def)

lemma apply_standing:
  "\<exists>new. map standing (fst (apply_candidates gen k cs now t)) = map standing t @ map standing new \<and>
     set (map eo_status new) \<subseteq> {''candidate''}"
proof (induction cs arbitrary: k t)
  case Nil
  then show ?case by (intro exI [of _ "[]"]) simp
next
  case (Cons c cs)
  let ?t = "upsert_rule (candidate_row (gen k) now c) (refresh_row now c) t"
  obtain new where new: "map standing (fst (apply_candidates gen (k + 1) cs now ?t)) = map standing ?t @ map standing new"
    "set (map eo_status new) \<subseteq> {''candidate''}"
    using Cons.IH by blast
  have step: "fst (apply_candidates gen k (c # cs) now t) = fst (apply_candidates gen (k + 1) cs now ?t)"
    by (simp split: prod.split)
  have "\<exists>more. map standing ?t = map standing t @ map standing more \<and> set (map eo_status more) \<subseteq> {''candidate''}"
  proof (cases "list_ex (\<lambda>r. eo_key r = eo_key (candidate_row (gen k) now c)) t")
    case True
    then show ?thesis by (intro exI [of _ "[]"]) (simp add: upsert_rule_def refresh_standing)
  next
    case False
    then show ?thesis
      by (intro exI [of _ "[candidate_row (gen k) now c]"]) (simp add: upsert_rule_def candidate_row_def)
  qed
  then obtain more where "map standing ?t = map standing t @ map standing more" "set (map eo_status more) \<subseteq> {''candidate''}" by blast
  with new show ?case unfolding step by (intro exI [of _ "more @ new"]) auto
qed

lemma apply_written: "snd (apply_candidates gen k cs now t) = length cs"
proof (induction cs arbitrary: k t)
  case (Cons c cs)
  have "snd (apply_candidates gen k (c # cs) now t) =
      snd (apply_candidates gen (k + 1) cs now (upsert_rule (candidate_row (gen k) now c) (refresh_row now c) t)) + 1"
    by (simp split: prod.split)
  then show ?case using Cons by simp
qed simp

text \<open>What a rule does when it is read back, apart from the name it is shown under.\<close>

definition effect_of :: "rules \<Rightarrow> (string \<times> string) set \<times> (string \<times> string) list" where
  "effect_of R = (denied_keys R, map (\<lambda>e. (ge_name e, ge_type e)) (promoted_entries R))"

definition effect_row :: "string \<times> (string \<times> string \<times> string) \<times> string \<times> string \<times> string option \<times> string \<Rightarrow> bool \<times> string \<times> string \<times> string" where
  "effect_row = (\<lambda>(i, (trm, etype, action), state, _). (state = ''active'', normalise trm, etype, action))"

definition effect_rows :: "(bool \<times> string \<times> string \<times> string) list \<Rightarrow> (string \<times> string) set \<times> (string \<times> string) list" where
  "effect_rows rs = ((\<lambda>(_, n, e, _). (n, e)) ` {x \<in> set rs. fst x \<and> snd (snd (snd x)) = ''deny''},
     map (\<lambda>(_, n, e, _). (n, e)) (filter (\<lambda>(act, n, e, a). act \<and> a = ''promote'' \<and> e \<in> set GAZETTEER_TYPES) rs))"

lemma effect_read: "effect_of (read_active True (Some t)) = effect_rows (map (effect_row \<circ> standing) t)"
proof -
  have "denied_keys (read_active True (Some t)) = fst (effect_rows (map (effect_row \<circ> standing) t))"
    by (force simp: effect_rows_def read_active_def Let_def denied_keys_def effect_row_def standing_def eo_key_def image_iff)
  moreover have "map (\<lambda>e. (ge_name e, ge_type e)) (promoted_entries (read_active True (Some t))) =
      snd (effect_rows (map (effect_row \<circ> standing) t))"
    by (induction t) (auto simp: effect_rows_def read_active_def Let_def promoted_entries_def promoted_entry_def
      effect_row_def standing_def eo_key_def)
  ultimately show ?thesis by (simp add: effect_of_def)
qed

lemma effect_rows_inactive:
  assumes "\<forall>y \<in> set ys. \<not> fst y"
  shows "effect_rows (xs @ ys) = effect_rows xs"
proof -
  have "{x \<in> set (xs @ ys). fst x \<and> snd (snd (snd x)) = ''deny''} = {x \<in> set xs. fst x \<and> snd (snd (snd x)) = ''deny''}"
    using assms by auto
  moreover have "filter (\<lambda>(act, n, e, a). act \<and> a = ''promote'' \<and> e \<in> set GAZETTEER_TYPES) ys = []"
    using assms by (auto simp: filter_empty_conv)
  ultimately show ?thesis unfolding effect_rows_def filter_append by simp
qed

text \<open>The job never activates: storing candidates leaves the id, key, status, origin, note and
  creation of every rule as they were, appends only rules in status candidate, one row is reported
  per candidate, and what the stages then drop and the gazetteer then learns is what it was before.\<close>

lemma apply_never_activates:
  "(\<exists>new. map standing (fst (apply_candidates gen k cs now t)) = map standing t @ map standing new \<and>
      set (map eo_status new) \<subseteq> {''candidate''}) \<and>
   snd (apply_candidates gen k cs now t) = length cs \<and>
   effect_of (read_active enabled (Some (fst (apply_candidates gen k cs now t)))) = effect_of (read_active enabled (Some t))"
proof -
  obtain new where new: "map standing (fst (apply_candidates gen k cs now t)) = map standing t @ map standing new"
    "set (map eo_status new) \<subseteq> {''candidate''}"
    using apply_standing by blast
  have c: "\<forall>y \<in> set (map (effect_row \<circ> standing) new). \<not> fst y"
    using new(2) by (auto simp: effect_row_def standing_def eo_key_def)
  have "map (effect_row \<circ> standing) (fst (apply_candidates gen k cs now t)) =
      map (effect_row \<circ> standing) t @ map (effect_row \<circ> standing) new"
    using arg_cong [OF new(1), of "map effect_row"] by simp
  moreover have "effect_rows (xs @ map (effect_row \<circ> standing) new) = effect_rows xs" for xs
    by (rule effect_rows_inactive [OF c])
  ultimately have "effect_of (read_active True (Some (fst (apply_candidates gen k cs now t)))) = effect_of (read_active True (Some t))"
    by (simp add: effect_read)
  then show ?thesis using apply_standing apply_written by (cases enabled) (simp_all add: read_active_def)
qed

section \<open>Keys are normalised\<close>

lemma is_space_lower: "is_space (lower_char c) = is_space c"
proof (cases "is_upper_letter c")
  case True
  then have n: "(of_char c :: nat) + 32 < 256" by (auto simp: is_upper_letter_def Let_def)
  then have "(of_char (char_of ((of_char c :: nat) + 32) :: char) :: nat) = of_char c + 32"
    by (subst of_char_of) simp
  with True show ?thesis by (auto simp: lower_char_def is_space_def is_upper_letter_def Let_def)
qed (simp add: lower_char_def)

lemma strip_lower: "strip (lower s) = lower (strip s)"
  by (simp add: strip_def strip_by_def lower_def dropWhile_map o_def is_space_lower rev_map)

lemma strip_fixed: "s = [] \<or> (\<not> is_space (hd s) \<and> \<not> is_space (last s)) \<Longrightarrow> strip s = s"
  by (cases "s = []") (simp_all add: strip_def strip_by_def dropWhile_eq_self_iff [THEN iffD2] hd_rev)

lemma strip_idem: "strip (strip s) = strip s"
  using strip_by_ends [of is_space s] by (intro strip_fixed) (auto simp: strip_def)

lemma normalise_idem [simp]: "normalise (normalise v) = normalise v"
  by (simp add: normalise_def strip_lower strip_idem)

lemma normalise_empty: "normalise v = [] \<longleftrightarrow> strip v = []"
  by (simp add: normalise_def)

section \<open>The invariant of the table\<close>

definition rule_ok :: "override_rule \<Rightarrow> bool" where
  "rule_ok r \<longleftrightarrow> eo_action r \<in> set ACTIONS \<and> eo_status r \<in> set STATUSES \<and>
     eo_type r \<in> set (if eo_action r = ''promote'' then GAZETTEER_TYPES else NAMED_TYPES) \<and>
     eo_term r = normalise (eo_term r) \<and> eo_term r \<noteq> [] \<and>
     (eo_action r = ''promote'' \<longrightarrow> validate_promote_term (eo_term r) = None)"

definition rules_ok :: "override_rule list \<Rightarrow> bool" where
  "rules_ok t \<longleftrightarrow> list_all rule_ok t \<and> distinct (map eo_key t)"

lemma tally_candidate_ok:
  assumes "c \<in> set (tally_candidates f known_terms ((normalise v, e), t))" "normalise v \<noteq> []" "e \<in> set NAMED_TYPES"
  shows "rule_ok (candidate_row i now c)"
  using assms
  by (auto simp: tally_candidates_def deny_floor_def promote_floor_def new_candidate_def rule_ok_def candidate_row_def ACTIONS_def
      STATUSES_def validate_promote_term_def split: if_splits)

lemma candidates_ok:
  assumes "c \<in> set (compute_candidates f known_terms rows)"
  shows "rule_ok (candidate_row i now c)"
proof -
  obtain k t where kt: "(k, t) \<in> set (tally_votes rows)" "c \<in> set (tally_candidates f known_terms (k, t))"
    using assms by (auto simp: compute_candidates_def)
  then have "k \<in> fst ` set (tally_votes rows)" by force
  then obtain r where "countable r" "k = vote_key r" using tally_votes_spec(2) by auto
  with kt(2) show ?thesis by (auto simp: countable_def vote_key_def intro: tally_candidate_ok)
qed

lemma rule_ok_cong:
  "eo_action r' = eo_action r \<Longrightarrow> eo_type r' = eo_type r \<Longrightarrow> eo_term r' = eo_term r \<Longrightarrow> eo_status r' \<in> set STATUSES \<Longrightarrow>
   rule_ok r \<Longrightarrow> rule_ok r'"
  by (simp add: rule_ok_def)

lemma upsert_ok:
  assumes "rules_ok t" "rule_ok new" "\<And>r. rule_ok r \<Longrightarrow> rule_ok (change r)" "\<And>r. eo_key (change r) = eo_key r"
  shows "rules_ok (upsert_rule new change t)"
  using upsert_keys [of new change t] upsert_set [of _ new change t] assms by (auto simp: rules_ok_def list_all_iff)

lemma apply_candidates_ok:
  "rules_ok t \<Longrightarrow> (\<And>c i. c \<in> set cs \<Longrightarrow> rule_ok (candidate_row i now c)) \<Longrightarrow> rules_ok (fst (apply_candidates gen k cs now t))"
proof (induction cs arbitrary: k t)
  case (Cons c cs)
  have "rules_ok (upsert_rule (candidate_row (gen k) now c) (refresh_row now c) t)"
    by (rule upsert_ok) (use Cons.prems in \<open>auto simp: refresh_row_def eo_key_def rule_ok_def\<close>)
  from Cons.IH [OF this] Cons.prems(2) show ?case by (simp split: prod.split) (metis fst_conv)
qed simp

lemma rules_ok_map:
  assumes "rules_ok t" "\<And>r. rule_ok r \<Longrightarrow> rule_ok (g r)" "\<And>r. eo_key (g r) = eo_key r"
  shows "rules_ok (map g t)"
  using assms by (simp add: rules_ok_def list_all_iff o_def)

lemma promote_route_ok:
  assumes "rules_ok t" "promote_route gen f b now known_terms rows t = Inr (t', n, cs)"
  shows "rules_ok t'"
proof -
  have "rules_ok (fst (apply_candidates gen 0 (propose_rules f known_terms rows t) now t))"
    by (rule apply_candidates_ok [OF assms(1)])
      (auto simp: propose_rules_def Let_def candidate_row_def rule_ok_def dest!: candidates_ok [unfolded candidate_row_def rule_ok_def])
  with assms show ?thesis by (auto simp: promote_route_def Let_def split: if_splits prod.splits)
qed

lemma create_override_ok:
  assumes "rules_ok t" "create_override i trm etype action now display note t = Inr (t', row)"
  shows "rules_ok t' \<and> (\<exists>r. row = Some r \<and> r \<in> set t' \<and> eo_key r = (normalise trm, etype, action) \<and> eo_status r = ''active'')"
proof -
  let ?shown = "strip (str_or display trm)"
  let ?new = "manual_row i (normalise trm) etype action ?shown now note"
  let ?change = "\<lambda>r. r\<lparr>eo_status := ''active'', eo_origin := ''manual'', eo_display := Some ?shown, eo_note := note, eo_updated := now\<rparr>"
  have ok: "check_rule etype action = Inr ()" "strip trm \<noteq> []" "action = ''promote'' \<longrightarrow> validate_promote_term trm = None"
    and t': "t' = upsert_rule ?new ?change t" "row = List.find (\<lambda>r. eo_key r = (normalise trm, etype, action)) t'"
    using assms(2) by (auto simp: create_override_def and_then_Inr add_manual_def Let_def split: if_splits sum.splits option.splits)
  have "rule_ok ?new" using ok
    by (auto simp: rule_ok_def manual_row_def check_rule_def STATUSES_def normalise_empty validate_promote_term_def Let_def split: if_splits)
  then have "rules_ok t'" unfolding t'(1)
    by (rule upsert_ok [OF assms(1)]) (auto simp: eo_key_def rule_ok_def STATUSES_def)
  moreover have key: "eo_key ?new = (normalise trm, etype, action)" by (simp add: manual_row_def eo_key_def)
  then have st: "\<exists>r \<in> set t'. eo_key r = (normalise trm, etype, action)"
    using upsert_there [of ?change ?new t] by (simp add: t'(1) eo_key_def)
  have act: "eo_status r = ''active''" if "r \<in> set t'" "eo_key r = (normalise trm, etype, action)" for r
    using upsert_at [of r ?new ?change t] that unfolding t'(1) key by (auto simp: manual_row_def)
  obtain r where "row = Some r"
    using st unfolding t'(2) by (metis (mono_tags, lifting) find_None_iff option.exhaust)
  moreover from this have "r \<in> set t' \<and> eo_key r = (normalise trm, etype, action)"
    unfolding t'(2) by (auto simp: find_Some_iff)
  ultimately show ?thesis using act by blast
qed

text \<open>Whatever the routes are asked, the table stays well formed: one rule per term, type and
  action, every term normalised and not empty, every action, status and type one of its kind, and no
  promote rule for a type the gazetteer does not hold, for a term under four characters or for
  generic vocabulary, so the gazetteer is never taught such a name; an accepted new rule is active at once.\<close>

lemma routes_keep_rules:
  assumes "rules_ok t"
  shows "(promote_route gen f b now known_terms rows t = Inr (t1, n, cs) \<longrightarrow> rules_ok t1) \<and>
    (create_override i trm etype action now display note t = Inr (t2, row) \<longrightarrow> rules_ok t2 \<and>
       (\<exists>r. row = Some r \<and> r \<in> set t2 \<and> eo_key r = (normalise trm, etype, action) \<and> eo_status r = ''active'')) \<and>
    (patch_override i state now t = Inr (t3, r3) \<longrightarrow> rules_ok t3) \<and>
    (remove_override i t = Inr t4 \<longrightarrow> rules_ok t4) \<and>
    (\<forall>e \<in> set (promoted_entries (read_active enabled (Some t))).
       4 \<le> length (ge_name e) \<and> \<not> is_generic_fragment (ge_name e) {} \<and> ge_type e \<in> set GAZETTEER_TYPES)"
proof (intro conjI impI)
  assume "promote_route gen f b now known_terms rows t = Inr (t1, n, cs)"
  with assms show "rules_ok t1" by (rule promote_route_ok)
next
  assume "create_override i trm etype action now display note t = Inr (t2, row)"
  note C = create_override_ok [OF assms this]
  then show "rules_ok t2" by blast
  from C show "\<exists>r. row = Some r \<and> r \<in> set t2 \<and> eo_key r = (normalise trm, etype, action) \<and> eo_status r = ''active''" by blast
next
  assume "patch_override i state now t = Inr (t3, r3)"
  then have s: "state \<in> set STATUSES" "t3 = map (\<lambda>r. if eo_id r = i then r\<lparr>eo_status := state, eo_updated := now\<rparr> else r) t"
    by (auto simp: patch_override_def set_status_def Let_def split: if_splits option.splits)
  show "rules_ok t3" unfolding s(2)
    by (rule rules_ok_map [OF assms]) (auto simp: rule_ok_def eo_key_def s(1))
next
  assume "remove_override i t = Inr t4"
  then have "t4 = filter (\<lambda>r. eo_id r \<noteq> i) t" by (auto simp: remove_override_def delete_override_def split: if_splits)
  with assms show "rules_ok t4" by (auto simp: rules_ok_def list_all_iff distinct_map_filter)
next
  show "\<forall>e \<in> set (promoted_entries (read_active enabled (Some t))).
       4 \<le> length (ge_name e) \<and> \<not> is_generic_fragment (ge_name e) {} \<and> ge_type e \<in> set GAZETTEER_TYPES"
  proof
    fix e assume "e \<in> set (promoted_entries (read_active enabled (Some t)))"
    then obtain r where r: "r \<in> set t" "eo_action r = ''promote''" "e = promoted_entry r"
      by (auto simp: read_active_def Let_def promoted_entries_def split: if_splits)
    with assms have "rule_ok r" by (simp add: rules_ok_def list_all_iff)
    with r show "4 \<le> length (ge_name e) \<and> \<not> is_generic_fragment (ge_name e) {} \<and> ge_type e \<in> set GAZETTEER_TYPES"
      by (auto simp: rule_ok_def promoted_entry_def validate_promote_term_def Let_def MIN_TERM_LEN_def split: if_splits)
  qed
qed

text \<open>A table of two rules, and the requests that would break it.\<close>

definition example_rules :: "override_rule list" where
  "example_rules = [\<lparr>eo_id = ''1'', eo_term = ''rig'', eo_type = ''malware'', eo_action = ''deny'', eo_status = ''ignored'',
     eo_display = Some ''RIG'', eo_accepted = 0, eo_rejected = 4, eo_jobs = 2, eo_origin = ''auto'', eo_note = None,
     eo_created = ''t0'', eo_updated = ''t0''\<rparr>,
     (manual_row ''2'' ''plugx'' ''malware'' ''promote'' ''PlugX RAT'' ''t0'' None)]"

definition example_decisions :: "entity_row list" where
  "example_decisions = map (\<lambda>(v, j). \<lparr>er_value = v, er_type = ''malware'', er_source = Some ''llm'', er_accepted = Some True,
     er_origin = Some HUMAN, er_job = j\<rparr>) [(''plugx'', ''j1''), ('' PLUGX'', ''j2''), (''plugx'', ''j3'')]"

lemma routes_keep_rules_witness:
  "create_override ''3'' '' The Malware '' ''malware'' ''promote'' ''t1'' None None example_rules = Inl BadRequest \<and>
   create_override ''3'' '' Rig '' ''malware'' ''deny'' ''t1'' None None example_rules =
     Inr ([(hd example_rules)\<lparr>eo_status := ''active'', eo_origin := ''manual'', eo_display := Some ''Rig'', eo_updated := ''t1''\<rparr>, example_rules ! 1],
       Some ((hd example_rules)\<lparr>eo_status := ''active'', eo_origin := ''manual'', eo_display := Some ''Rig'', eo_updated := ''t1''\<rparr>)) \<and>
   rules_ok [(hd example_rules)\<lparr>eo_status := ''active'', eo_origin := ''manual'', eo_display := Some ''Rig'', eo_updated := ''t1''\<rparr>, example_rules ! 1]"
proof -
  have ok: "rules_ok example_rules" by code_simp
  have e: "create_override ''3'' '' Rig '' ''malware'' ''deny'' ''t1'' None None example_rules =
     Inr ([(hd example_rules)\<lparr>eo_status := ''active'', eo_origin := ''manual'', eo_display := Some ''Rig'', eo_updated := ''t1''\<rparr>, example_rules ! 1],
       Some ((hd example_rules)\<lparr>eo_status := ''active'', eo_origin := ''manual'', eo_display := Some ''Rig'', eo_updated := ''t1''\<rparr>))" by code_simp
  have "create_override ''3'' '' The Malware '' ''malware'' ''promote'' ''t1'' None None example_rules = Inl BadRequest" by code_simp
  with e routes_keep_rules [OF ok, THEN conjunct2, THEN conjunct1, rule_format, OF e] show ?thesis by blast
qed

text \<open>Storing candidates rewrites the display of a rule that is already there: the canonical name an
  analyst gave an active promotion is replaced by the commonest surface form.\<close>

lemma apply_rewrites_display:
  "map ge_canonical (promoted_entries (read_active True (Some example_rules))) = [''PlugX RAT''] \<and>
   map ge_canonical (promoted_entries (read_active True (Some (fst (apply_candidates (\<lambda>_. ''9'') 0
     (propose_rules default_floors {} example_decisions example_rules) ''t1'' example_rules))))) = [''plugx'']"
  by code_simp

end
