(* ===== verification/Migrate.thy ===== *)
theory Migrate
  imports Overrides Dates
begin

text \<open>
  Bringing the database to the code's schema version (api/migrate.py), the registry of migrations
  (api/migrations/__init__.py) and the record of the cluster a database was on (api/db_identity.py).
  What PostgreSQL does with a statement is an argument (\<open>exec\<close>) on an abstract content \<open>'d\<close>, as are
  the data step and the check of each migration, the hash and the source text the checksum reads,
  the clock and the revision. The record of versions and the connection's lock are the model's own.
\<close>

section \<open>Migrations\<close>

record 'd migration =
  mg_version :: nat
  mg_name :: string
  mg_store :: string
  mg_statements :: "string list"
  mg_is_applied :: "'d \<Rightarrow> bool"
  mg_data :: "(string \<times> ('d \<Rightarrow> string + 'd)) option"
  mg_snapshot_tables :: "string list"

text \<open>\<open>mg_data\<close> carries the source of the step beside the step: the checksum is over the source.\<close>

definition join_with :: "string \<Rightarrow> string list \<Rightarrow> string" where
  "join_with sep xs = (case xs of [] \<Rightarrow> [] | y # ys \<Rightarrow> y @ concat (map (\<lambda>z. sep @ z) ys))"

definition normal_space :: "string \<Rightarrow> string" where
  "normal_space s = join_with '' '' (split_space [] s)"

definition checksum :: "(string \<Rightarrow> string) \<Rightarrow> 'd migration \<Rightarrow> string" where
  "checksum sha256 mg = sha256 (join_with [CHR 0x0A] (map normal_space (mg_statements mg) @
     (case mg_data mg of None \<Rightarrow> [] | Some (source, _) \<Rightarrow> [normal_space source])))"

text \<open>\<open>^v(\d{4})_[a-z0-9_]+$\<close> on a module name.\<close>

definition module_number :: "string \<Rightarrow> nat option" where
  "module_number name =
    (if length name \<ge> 7 \<and> name ! 0 = CHR ''v'' \<and> list_all is_digit (take 4 (drop 1 name)) \<and> name ! 5 = CHR ''_'' \<and>
        list_all (\<lambda>c. is_lower_alpha c \<or> is_digit c \<or> c = CHR ''_'') (drop 6 name)
     then Some (decimal (take 4 (drop 1 name))) else None)"

datatype history_error = WrongVersion string | BrokenHistory "nat list"

definition load_history :: "(string \<times> 'd migration) list \<Rightarrow> history_error + 'd migration list" where
  "load_history modules =
    and_then (map_raise (\<lambda>(name, mg). if module_number name = Some (mg_version mg) then Inr mg else Inl (WrongVersion name))
      (filter (\<lambda>(name, _). module_number name \<noteq> None) modules)) (\<lambda>found.
    let found = sort_key mg_version found in
    if map mg_version found \<noteq> [1..<length found + 1] then Inl (BrokenHistory (map mg_version found)) else Inr found)"

definition latest_version :: "'d migration list \<Rightarrow> nat" where
  "latest_version known = length known"

definition store_statements :: "string \<Rightarrow> 'd migration list \<Rightarrow> string list" where
  "store_statements st known = concat (map mg_statements (filter (\<lambda>mg. mg_store mg = st) known))"

section \<open>The database\<close>

record version_row =
  vr_version :: nat
  vr_name :: string
  vr_checksum :: string
  vr_how :: string
  vr_applied_at :: string
  vr_duration :: nat
  vr_revision :: "string option"

record seen_cluster =
  sn_system :: "string option"
  sn_version :: nat

text \<open>The connection: the content, \<open>schema_migrations\<close> when it exists, the session's lock timeout and
  the advisory lock; and the state file, unreadable or missing when \<open>None\<close>, an entry \<open>None\<close> when it is
  no dict.\<close>

record 'd mdb =
  md_data :: 'd
  md_versions :: "version_row list option"
  md_timeout :: bool
  md_locked :: bool
  md_seen :: "(string, seen_cluster option) dict option"

record 'd env =
  en_exec :: "string \<Rightarrow> 'd \<Rightarrow> string + 'd"
  en_sha256 :: "string \<Rightarrow> string"
  en_table :: "'d \<Rightarrow> string \<Rightarrow> bool"
  en_now :: string
  en_duration :: "nat \<Rightarrow> nat"
  en_revision :: "string option"
  en_cluster :: "string option"
  en_address :: string
  en_lock_free :: bool
  en_file_writable :: bool

datatype migration_error = DatabaseNewerThanCode nat | ChecksumMismatch nat | VerificationFailed nat
  | ClusterChanged | LockNotAvailable | DatabaseError string

record report =
  rp_before :: nat
  rp_after :: nat
  rp_target :: nat
  rp_applied :: "nat list"
  rp_recognised :: "nat list"

definition OWN_TABLES :: "string list" where "OWN_TABLES = [''jobs'', ''detection_rules'']"

definition records :: "'d mdb \<Rightarrow> (nat, version_row) dict" where
  "records db = (case md_versions db of None \<Rightarrow> [] | Some rows \<Rightarrow> map (\<lambda>r. (vr_version r, r)) (sort_key vr_version rows))"

definition max_version :: "(nat, version_row) dict \<Rightarrow> nat" where
  "max_version recs = fold max (map fst recs) 0"

definition verify_records :: "'d env \<Rightarrow> (nat, version_row) dict \<Rightarrow> 'd migration list \<Rightarrow> migration_error + unit" where
  "verify_records E recs known =
    (let newer = sort (filter (\<lambda>v. v > length known) (map fst recs)) in
     if newer \<noteq> [] then Inl (DatabaseNewerThanCode (last newer))
     else case List.find (\<lambda>mg. case map_of recs (mg_version mg) of None \<Rightarrow> False | Some row \<Rightarrow> vr_checksum row \<noteq> checksum (en_sha256 E) mg) known of
       Some mg \<Rightarrow> Inl (ChecksumMismatch (mg_version mg))
     | None \<Rightarrow> Inr ())"

text \<open>\<open>_record\<close>: \<open>version\<close> is the primary key.\<close>

definition record_version :: "'d env \<Rightarrow> 'd migration \<Rightarrow> string \<Rightarrow> nat \<Rightarrow> string option \<Rightarrow> 'd mdb \<Rightarrow> migration_error + 'd mdb" where
  "record_version E mg how duration revision db = (case md_versions db of
     None \<Rightarrow> Inl (DatabaseError ''no schema_migrations'')
   | Some rows \<Rightarrow>
       if list_ex (\<lambda>r. vr_version r = mg_version mg) rows then Inl (DatabaseError ''duplicate version'')
       else Inr (db\<lparr>md_versions := Some (rows @ [\<lparr>vr_version = mg_version mg, vr_name = mg_name mg,
         vr_checksum = checksum (en_sha256 E) mg, vr_how = how, vr_applied_at = en_now E, vr_duration = duration, vr_revision = revision\<rparr>])\<rparr>))"

fun run_statements :: "'d env \<Rightarrow> string list \<Rightarrow> 'd \<Rightarrow> migration_error + 'd" where
  "run_statements E [] d = Inr d"
| "run_statements E (s # ss) d = (case en_exec E s d of Inl e \<Rightarrow> Inl (DatabaseError e) | Inr d \<Rightarrow> run_statements E ss d)"

definition snapshot_statements :: "'d migration \<Rightarrow> string list" where
  "snapshot_statements mg = concat (map (\<lambda>table.
     let snapshot = ''_pre_v'' @ pad 4 (mg_version mg) @ ''_'' @ table in
     [''DROP TABLE IF EXISTS \"'' @ snapshot @ ''\"'', ''CREATE TABLE \"'' @ snapshot @ ''\" AS TABLE \"'' @ table @ ''\"''])
     (mg_snapshot_tables mg))"

text \<open>\<open>with transaction(conn)\<close>: a raise rolls back and goes on.\<close>

definition transaction :: "('s \<Rightarrow> 'e + 's) \<Rightarrow> 's \<Rightarrow> 's \<times> ('e + unit)" where
  "transaction f db = (case f db of Inl e \<Rightarrow> (db, Inl e) | Inr db' \<Rightarrow> (db', Inr ()))"

definition migration_body :: "'d env \<Rightarrow> string option \<Rightarrow> 'd migration \<Rightarrow> 'd mdb \<Rightarrow> migration_error + 'd mdb" where
  "migration_body E revision mg db =
    and_then (run_statements E (snapshot_statements mg) (md_data db)) (\<lambda>d.
    and_then (run_statements E (mg_statements mg) d) (\<lambda>d.
    and_then (case mg_data mg of None \<Rightarrow> Inr d | Some (_, data_step) \<Rightarrow> map_sum DatabaseError id (data_step d)) (\<lambda>d.
      if \<not> mg_is_applied mg d then Inl (VerificationFailed (mg_version mg))
      else record_version E mg ''applied'' (en_duration E (mg_version mg)) revision (db\<lparr>md_data := d\<rparr>))))"

definition apply_migration :: "'d env \<Rightarrow> string option \<Rightarrow> 'd migration \<Rightarrow> 'd mdb \<Rightarrow> 'd mdb \<times> (migration_error + unit)" where
  "apply_migration E revision mg = transaction (migration_body E revision mg)"

fun migrate_loop :: "'d env \<Rightarrow> (nat, version_row) dict \<Rightarrow> bool \<Rightarrow> string option \<Rightarrow> 'd migration list \<Rightarrow> 'd mdb \<Rightarrow> report \<Rightarrow>
    'd mdb \<times> (migration_error + report)" where
  "migrate_loop E recs unversioned revision [] db rp = (db, Inr rp)"
| "migrate_loop E recs unversioned revision (mg # mgs) db rp =
    (if map_of recs (mg_version mg) \<noteq> None then migrate_loop E recs unversioned revision mgs db rp
     else if unversioned \<and> mg_is_applied mg (md_data db) then
       (case record_version E mg ''recognised'' 0 revision db of
          Inl e \<Rightarrow> (db, Inl e)
        | Inr db \<Rightarrow> migrate_loop E recs unversioned revision mgs db (rp\<lparr>rp_recognised := rp_recognised rp @ [mg_version mg]\<rparr>))
     else (case apply_migration E revision mg db of
          (db, Inl e) \<Rightarrow> (db, Inl e)
        | (db, Inr _) \<Rightarrow> migrate_loop E recs unversioned revision mgs db (rp\<lparr>rp_applied := rp_applied rp @ [mg_version mg]\<rparr>)))"

section \<open>The cluster a database was on\<close>

definition seen_file :: "'d mdb \<Rightarrow> (string, seen_cluster option) dict" where
  "seen_file db = (case md_seen db of None \<Rightarrow> [] | Some d \<Rightarrow> d)"

definition cluster_refusal :: "'d env \<Rightarrow> bool \<Rightarrow> 'd mdb \<Rightarrow> bool" where
  "cluster_refusal E is_empty db =
    (if \<not> is_empty then False
     else case map_of (seen_file db) (en_address E) of
       Some (Some seen) \<Rightarrow>
         if sn_version seen = 0 then False
         else (case en_cluster E of None \<Rightarrow> False | Some now \<Rightarrow> Some now \<noteq> sn_system seen)
     | _ \<Rightarrow> False)"

definition record_cluster :: "'d env \<Rightarrow> nat \<Rightarrow> 'd mdb \<Rightarrow> 'd mdb" where
  "record_cluster E version db = (case en_cluster E of
     None \<Rightarrow> db
   | Some sid \<Rightarrow>
       if en_file_writable E
       then db\<lparr>md_seen := Some (dset (en_address E) (Some \<lparr>sn_system = Some sid, sn_version = version\<rparr>) (seen_file db))\<rparr>
       else db)"

section \<open>Upgrade\<close>

definition under_lock :: "'d env \<Rightarrow> 'd migration list \<Rightarrow> 'd mdb \<Rightarrow> 'd mdb \<times> (migration_error + report)" where
  "under_lock E known db =
    (let db = db\<lparr>md_versions := Some (case md_versions db of None \<Rightarrow> [] | Some rows \<Rightarrow> rows)\<rparr>;
         recs = records db
     in case verify_records E recs known of
       Inl e \<Rightarrow> (db, Inl e)
     | Inr _ \<Rightarrow>
         let rp = \<lparr>rp_before = max_version recs, rp_after = 0, rp_target = length known, rp_applied = [], rp_recognised = []\<rparr>;
             unversioned = (recs = [] \<and> list_ex (en_table E (md_data db)) OWN_TABLES)
         in if cluster_refusal E (recs = [] \<and> \<not> unversioned) db then (db, Inl ClusterChanged)
            else let revision = (if length recs < length known then en_revision E else None)
            in (case migrate_loop E recs unversioned revision known db rp of
                  (db, Inl e) \<Rightarrow> (db, Inl e)
                | (db, Inr rp) \<Rightarrow>
                    let rp = rp\<lparr>rp_after := rp_target rp\<rparr>
                    in (record_cluster E (rp_after rp) db, Inr rp)))"

definition upgrade :: "'d env \<Rightarrow> 'd migration list \<Rightarrow> 'd mdb \<Rightarrow> 'd mdb \<times> (migration_error + report)" where
  "upgrade E known db =
    (let db = db\<lparr>md_timeout := True\<rparr> in
     if \<not> en_lock_free E then (db\<lparr>md_timeout := False\<rparr>, Inl LockNotAvailable)
     else let db = db\<lparr>md_locked := True, md_timeout := False\<rparr>
     in (case under_lock E known db of (db, res) \<Rightarrow> (db\<lparr>md_locked := False\<rparr>, res)))"

section \<open>Status\<close>

record migration_status =
  ms_current :: nat
  ms_target :: nat
  ms_unversioned :: bool
  ms_pending :: "nat list"
  ms_newer :: "nat list"
  ms_edited :: "nat list"
  ms_history :: "(nat \<times> string \<times> string) list"

definition migration_state :: "'d env \<Rightarrow> 'd migration list \<Rightarrow> 'd mdb \<Rightarrow> migration_status" where
  "migration_state E known db =
    (let recs = records db in
     \<lparr>ms_current = max_version recs, ms_target = length known,
      ms_unversioned = (recs = [] \<and> list_ex (en_table E (md_data db)) OWN_TABLES),
      ms_pending = map mg_version (filter (\<lambda>mg. map_of recs (mg_version mg) = None) known),
      ms_newer = sort (filter (\<lambda>v. v > length known) (map fst recs)),
      ms_edited = map mg_version (filter (\<lambda>mg. case map_of recs (mg_version mg) of None \<Rightarrow> False
        | Some row \<Rightarrow> vr_checksum row \<noteq> checksum (en_sha256 E) mg) known),
      ms_history = map (\<lambda>mg. (mg_version mg, mg_name mg, case map_of recs (mg_version mg) of None \<Rightarrow> ''pending'' | Some row \<Rightarrow> vr_how row)) known\<rparr>)"

definition check_command :: "'d env \<Rightarrow> 'd migration list \<Rightarrow> 'd mdb \<Rightarrow> bool" where
  "check_command E known db =
    (let st = migration_state E known db in
     ms_current st = ms_target st \<and> ms_pending st = [] \<and> ms_newer st = [] \<and> ms_edited st = [])"

text \<open>\<open>_span\<close>: runs of consecutive versions, the current one last and kept in order.\<close>

definition add_to_runs :: "nat \<Rightarrow> nat list list \<Rightarrow> nat list list" where
  "add_to_runs v runs =
    (if runs \<noteq> [] \<and> v = last (last runs) + 1 then butlast runs @ [last runs @ [v]] else runs @ [[v]])"

definition version_span :: "nat list \<Rightarrow> string" where
  "version_span versions = join_with '', '' (map (\<lambda>r.
     if length r > 1 then show_nat (hd r) @ ''-'' @ show_nat (last r) else show_nat (hd r))
     (fold add_to_runs versions []))"

end
