(* ===== verification/MigrateSound.thy ===== *)
theory MigrateSound
  imports Migrate
begin

text \<open>
  An upgrade is all or nothing per version, in order, and leaves the lock free; one that succeeds
  leaves a database the check accepts and the next upgrade does not touch.
\<close>

section \<open>Rows and records\<close>

definition rows_of :: "'d mdb \<Rightarrow> version_row list" where
  "rows_of db = (case md_versions db of None \<Rightarrow> [] | Some rows \<Rightarrow> rows)"

lemma rows_of_Some [simp]: "md_versions db = Some rows \<Longrightarrow> rows_of db = rows"
  by (simp add: rows_of_def)

lemma records_rows: "records db = map (\<lambda>r. (vr_version r, r)) (sort_key vr_version (rows_of db))"
  by (simp add: records_def rows_of_def split: option.split)

lemma records_keys: "fst ` set (records db) = vr_version ` set (rows_of db)"
  by (force simp: records_rows)

lemma records_None: "map_of (records db) v = None \<longleftrightarrow> v \<notin> vr_version ` set (rows_of db)"
  by (simp add: map_of_eq_None_iff records_keys)

lemma records_Some:
  assumes "distinct (map vr_version (rows_of db))"
  shows "map_of (records db) v = Some r \<longleftrightarrow> r \<in> set (rows_of db) \<and> vr_version r = v"
proof -
  have "distinct (map vr_version (sort_key vr_version (rows_of db)))" using assms by (simp add: distinct_map)
  then have "distinct (map fst (records db))" by (simp add: records_rows o_def)
  then have "map_of (records db) v = Some r \<longleftrightarrow> (v, r) \<in> set (records db)" by (simp add: map_of_eq_Some_iff)
  then show ?thesis by (auto simp: records_rows)
qed

lemma records_cong: "rows_of db' = rows_of db \<Longrightarrow> records db' = records db"
  by (simp add: records_rows)

lemma records_empty: "records db = [] \<longleftrightarrow> rows_of db = []"
  by (simp add: records_rows) (metis length_0_conv length_sort)

section \<open>One version\<close>

text \<open>What a version does to the content.\<close>

definition content_step :: "'d env \<Rightarrow> 'd migration \<Rightarrow> 'd \<Rightarrow> migration_error + 'd" where
  "content_step E mg d =
    and_then (run_statements E (snapshot_statements mg) d) (\<lambda>d.
    and_then (run_statements E (mg_statements mg) d) (\<lambda>d.
    and_then (case mg_data mg of None \<Rightarrow> Inr d | Some (_, data_step) \<Rightarrow> map_sum DatabaseError id (data_step d)) (\<lambda>d.
      if \<not> mg_is_applied mg d then Inl (VerificationFailed (mg_version mg)) else Inr d)))"

definition run_content :: "'d env \<Rightarrow> bool \<Rightarrow> 'd migration \<Rightarrow> 'd \<Rightarrow> 'd" where
  "run_content E unversioned mg d =
    (if unversioned \<and> mg_is_applied mg d then d else case content_step E mg d of Inr d' \<Rightarrow> d' | Inl _ \<Rightarrow> d)"

lemma migration_body_eq: "migration_body E revision mg db = and_then (content_step E mg (md_data db)) (\<lambda>d.
    record_version E mg ''applied'' (en_duration E (mg_version mg)) revision (db\<lparr>md_data := d\<rparr>))"
  by (auto simp: migration_body_def content_step_def and_then_def split: sum.splits option.splits)

lemma content_step_checked: "content_step E mg d = Inr d' \<Longrightarrow> mg_is_applied mg d'"
  by (auto simp: content_step_def and_then_Inr split: if_splits)

definition version_id :: "'d env \<Rightarrow> 'd migration \<Rightarrow> nat \<times> string \<times> string" where
  "version_id E mg = (mg_version mg, mg_name mg, checksum (en_sha256 E) mg)"

definition row_id :: "version_row \<Rightarrow> nat \<times> string \<times> string" where
  "row_id r = (vr_version r, vr_name r, vr_checksum r)"

lemma record_version_new:
  assumes "md_versions db = Some rows" "mg_version mg \<notin> vr_version ` set rows"
  shows "\<exists>r. record_version E mg how t revision db = Inr (db\<lparr>md_versions := Some (rows @ [r])\<rparr>) \<and> row_id r = version_id E mg \<and> vr_how r = how"
proof -
  have "\<not> list_ex (\<lambda>r. vr_version r = mg_version mg) rows" using assms(2) by (force simp: list_ex_iff)
  with assms(1) show ?thesis
    by (intro exI [of _ "\<lparr>vr_version = mg_version mg, vr_name = mg_name mg, vr_checksum = checksum (en_sha256 E) mg,
      vr_how = how, vr_applied_at = en_now E, vr_duration = t, vr_revision = revision\<rparr>"])
      (simp add: record_version_def row_id_def version_id_def)
qed

text \<open>A new version is recorded with its effect, or nothing of it is left.\<close>

lemma apply_migration_cases:
  assumes "md_versions db = Some rows" "mg_version mg \<notin> vr_version ` set rows"
  shows "(\<exists>e. apply_migration E revision mg db = (db, Inl e) \<and> content_step E mg (md_data db) = Inl e) \<or>
    (\<exists>d r. apply_migration E revision mg db = (db\<lparr>md_data := d, md_versions := Some (rows @ [r])\<rparr>, Inr ()) \<and>
       content_step E mg (md_data db) = Inr d \<and> row_id r = version_id E mg \<and> vr_how r = ''applied'')"
proof (cases "content_step E mg (md_data db)")
  case (Inl e)
  then show ?thesis by (simp add: apply_migration_def transaction_def migration_body_eq)
next
  case (Inr d)
  obtain r where "record_version E mg ''applied'' (en_duration E (mg_version mg)) revision (db\<lparr>md_data := d\<rparr>) =
      Inr (db\<lparr>md_data := d, md_versions := Some (rows @ [r])\<rparr>)" "row_id r = version_id E mg" "vr_how r = ''applied''"
    using record_version_new [of "db\<lparr>md_data := d\<rparr>" rows mg E "''applied''" "en_duration E (mg_version mg)" revision] assms by auto
  with Inr show ?thesis
    by (intro disjI2 exI [of _ d] exI [of _ r]) (simp add: apply_migration_def transaction_def migration_body_eq)
qed

section \<open>The loop\<close>

definition unrecorded :: "(nat, version_row) dict \<Rightarrow> 'd migration list \<Rightarrow> 'd migration list" where
  "unrecorded recs mgs = filter (\<lambda>mg. map_of recs (mg_version mg) = None) mgs"

definition loop_outcome :: "nat \<Rightarrow> 'd migration list \<Rightarrow> version_row list \<Rightarrow> report \<Rightarrow> migration_error + report \<Rightarrow> bool" where
  "loop_outcome k pending new rp res \<longleftrightarrow> (case res of Inl _ \<Rightarrow> k < length pending
     | Inr rp' \<Rightarrow> k = length pending \<and>
         rp' = rp\<lparr>rp_applied := rp_applied rp @ map vr_version (filter (\<lambda>r. vr_how r = ''applied'') new),
                  rp_recognised := rp_recognised rp @ map vr_version (filter (\<lambda>r. vr_how r = ''recognised'') new)\<rparr> \<and>
         set (map vr_how new) \<subseteq> {''applied'', ''recognised''})"

definition loop_result :: "'d env \<Rightarrow> bool \<Rightarrow> 'd migration list \<Rightarrow> version_row list \<Rightarrow> 'd mdb \<Rightarrow> report \<Rightarrow>
    'd mdb \<Rightarrow> migration_error + report \<Rightarrow> bool" where
  "loop_result E unversioned pending rows db rp db' res \<longleftrightarrow>
    (\<exists>k new. db' = db\<lparr>md_data := fold (run_content E unversioned) (take k pending) (md_data db), md_versions := Some (rows @ new)\<rparr> \<and>
       map row_id new = map (version_id E) (take k pending) \<and> k \<le> length pending \<and> loop_outcome k pending new rp res)"

lemma loop_outcome_Cons:
  assumes "loop_outcome k pending new
      (rp\<lparr>rp_applied := rp_applied rp @ (if vr_how r = ''applied'' then [mg_version mg] else []),
          rp_recognised := rp_recognised rp @ (if vr_how r = ''recognised'' then [mg_version mg] else [])\<rparr>) res"
    "vr_version r = mg_version mg" "vr_how r \<in> {''applied'', ''recognised''}"
  shows "loop_outcome (Suc k) (mg # pending) (r # new) rp res"
  using assms by (cases res) (auto simp: loop_outcome_def)

lemma loop_result_Cons:
  assumes "loop_result E unv pending (rows @ [r]) (db\<lparr>md_data := d, md_versions := Some (rows @ [r])\<rparr>)
      (rp\<lparr>rp_applied := rp_applied rp @ (if vr_how r = ''applied'' then [mg_version mg] else []),
          rp_recognised := rp_recognised rp @ (if vr_how r = ''recognised'' then [mg_version mg] else [])\<rparr>) db' res"
    and d: "d = run_content E unv mg (md_data db)" and r: "row_id r = version_id E mg" "vr_how r \<in> {''applied'', ''recognised''}"
  shows "loop_result E unv (mg # pending) rows db rp db' res"
proof -
  obtain k new where h: "db' = (db\<lparr>md_data := d, md_versions := Some (rows @ [r])\<rparr>)\<lparr>md_data := fold (run_content E unv) (take k pending) d,
      md_versions := Some ((rows @ [r]) @ new)\<rparr>"
    "map row_id new = map (version_id E) (take k pending)" "k \<le> length pending"
    and out: "loop_outcome k pending new
      (rp\<lparr>rp_applied := rp_applied rp @ (if vr_how r = ''applied'' then [mg_version mg] else []),
          rp_recognised := rp_recognised rp @ (if vr_how r = ''recognised'' then [mg_version mg] else [])\<rparr>) res"
    using assms(1) unfolding loop_result_def by auto
  have v: "vr_version r = mg_version mg" using r(1) by (simp add: row_id_def version_id_def)
  show ?thesis
    unfolding loop_result_def
    by (intro exI [of _ "Suc k"] exI [of _ "r # new"] conjI loop_outcome_Cons [OF out v r(2)]) (use h d r in simp_all)
qed

lemma migrate_loop_result:
  assumes "migrate_loop E recs unv revision mgs db rp = (db', res)" "md_versions db = Some rows"
    "distinct (map mg_version mgs)" "\<forall>mg \<in> set (unrecorded recs mgs). mg_version mg \<notin> vr_version ` set rows"
  shows "loop_result E unv (unrecorded recs mgs) rows db rp db' res"
  using assms
proof (induction mgs arbitrary: db rp rows)
  case Nil
  then show ?case by (auto simp: loop_result_def loop_outcome_def unrecorded_def intro!: exI [of _ "[]"])
next
  case (Cons mg mgs)
  show ?case
  proof (cases "map_of recs (mg_version mg) = None")
    case False
    then have "unrecorded recs (mg # mgs) = unrecorded recs mgs" by (simp add: unrecorded_def)
    moreover have "loop_result E unv (unrecorded recs mgs) rows db rp db' res"
      by (rule Cons.IH) (use Cons.prems False in \<open>auto simp: unrecorded_def\<close>)
    ultimately show ?thesis by simp
  next
    case new: True
    then have p: "unrecorded recs (mg # mgs) = mg # unrecorded recs mgs" by (simp add: unrecorded_def)
    have fresh: "mg_version mg \<notin> vr_version ` set rows" using Cons.prems(4) p by simp
    have later: "\<forall>m \<in> set (unrecorded recs mgs). mg_version m \<notin> vr_version ` set (rows @ [r])" if "vr_version r = mg_version mg" for r
    proof
      fix m assume m: "m \<in> set (unrecorded recs mgs)"
      then have "mg_version m \<in> mg_version ` set mgs" by (simp add: unrecorded_def)
      moreover have "mg_version mg \<notin> mg_version ` set mgs" using Cons.prems(3) by simp
      ultimately have "mg_version m \<noteq> mg_version mg" by metis
      with that m Cons.prems(4) p show "mg_version m \<notin> vr_version ` set (rows @ [r])" by auto
    qed
    show ?thesis
    proof (cases "unv \<and> mg_is_applied mg (md_data db)")
      case True
      obtain r where r: "record_version E mg ''recognised'' 0 revision db = Inr (db\<lparr>md_versions := Some (rows @ [r])\<rparr>)"
        "row_id r = version_id E mg" "vr_how r = ''recognised''"
        using record_version_new [OF Cons.prems(2) fresh] by blast
      then have v: "vr_version r = mg_version mg" by (simp add: row_id_def version_id_def)
      have run: "migrate_loop E recs unv revision mgs (db\<lparr>md_versions := Some (rows @ [r])\<rparr>)
          (rp\<lparr>rp_recognised := rp_recognised rp @ [mg_version mg]\<rparr>) = (db', res)"
        using Cons.prems(1) new True r by simp
      have "loop_result E unv (unrecorded recs mgs) (rows @ [r]) (db\<lparr>md_versions := Some (rows @ [r])\<rparr>)
          (rp\<lparr>rp_recognised := rp_recognised rp @ [mg_version mg]\<rparr>) db' res"
        by (rule Cons.IH [OF run]) (use Cons.prems(3) later [OF v] in simp_all)
      then have "loop_result E unv (unrecorded recs mgs) (rows @ [r]) (db\<lparr>md_data := md_data db, md_versions := Some (rows @ [r])\<rparr>)
          (rp\<lparr>rp_applied := rp_applied rp @ (if vr_how r = ''applied'' then [mg_version mg] else []),
              rp_recognised := rp_recognised rp @ (if vr_how r = ''recognised'' then [mg_version mg] else [])\<rparr>) db' res"
        by (simp add: r(3))
      from loop_result_Cons [OF this _ r(2)] True r(3) show ?thesis by (simp add: p run_content_def)
    next
      case todo: False
      show ?thesis
      proof (rule disjE [OF apply_migration_cases [OF Cons.prems(2) fresh, of E revision]])
        assume "\<exists>e. apply_migration E revision mg db = (db, Inl e) \<and> content_step E mg (md_data db) = Inl e"
        with Cons.prems(1,2) new todo show ?thesis
          by (auto simp: loop_result_def loop_outcome_def p intro!: exI [of _ "0 :: nat"] exI [of _ "[]"])
      next
        assume "\<exists>d r. apply_migration E revision mg db = (db\<lparr>md_data := d, md_versions := Some (rows @ [r])\<rparr>, Inr ()) \<and>
          content_step E mg (md_data db) = Inr d \<and> row_id r = version_id E mg \<and> vr_how r = ''applied''"
        then obtain d r where r: "apply_migration E revision mg db = (db\<lparr>md_data := d, md_versions := Some (rows @ [r])\<rparr>, Inr ())"
          "content_step E mg (md_data db) = Inr d" "row_id r = version_id E mg" "vr_how r = ''applied''" by blast
        then have v: "vr_version r = mg_version mg" by (simp add: row_id_def version_id_def)
        have run: "migrate_loop E recs unv revision mgs (db\<lparr>md_data := d, md_versions := Some (rows @ [r])\<rparr>)
            (rp\<lparr>rp_applied := rp_applied rp @ [mg_version mg]\<rparr>) = (db', res)"
          using Cons.prems(1) new todo r(1) by simp
        have "loop_result E unv (unrecorded recs mgs) (rows @ [r]) (db\<lparr>md_data := d, md_versions := Some (rows @ [r])\<rparr>)
            (rp\<lparr>rp_applied := rp_applied rp @ [mg_version mg]\<rparr>) db' res"
          by (rule Cons.IH [OF run]) (use Cons.prems(3) later [OF v] in simp_all)
        then have L: "loop_result E unv (unrecorded recs mgs) (rows @ [r]) (db\<lparr>md_data := d, md_versions := Some (rows @ [r])\<rparr>)
            (rp\<lparr>rp_applied := rp_applied rp @ (if vr_how r = ''applied'' then [mg_version mg] else []),
                rp_recognised := rp_recognised rp @ (if vr_how r = ''recognised'' then [mg_version mg] else [])\<rparr>) db' res"
          by (simp add: r(4))
        have "d = run_content E unv mg (md_data db)" using r(2) todo by (auto simp: run_content_def)
        from loop_result_Cons [OF L this r(3)] r(4) show ?thesis by (simp add: p)
      qed
    qed
  qed
qed

section \<open>Upgrades\<close>

lemma load_history_versions:
  assumes "load_history modules = Inr known"
  shows "map mg_version known = [1..<length known + 1]"
  using assms by (auto simp: load_history_def and_then_Inr Let_def split: if_splits)

definition unversioned_db :: "'d env \<Rightarrow> 'd mdb \<Rightarrow> bool" where
  "unversioned_db E db \<longleftrightarrow> rows_of db = [] \<and> list_ex (en_table E (md_data db)) OWN_TABLES"

definition pending_of :: "'d migration list \<Rightarrow> 'd mdb \<Rightarrow> 'd migration list" where
  "pending_of known db = unrecorded (records db) known"

lemma pending_fresh: "mg \<in> set (pending_of known db) \<Longrightarrow> mg_version mg \<notin> vr_version ` set (rows_of db)"
  by (simp add: pending_of_def unrecorded_def records_None)

lemma migrate_all:
  assumes run: "migrate_loop E (records db) unv revision known db rp = (db', res)" and rows: "md_versions db = Some (rows_of db)"
    and known: "map mg_version known = [1..<length known + 1]"
  shows "loop_result E unv (pending_of known db) (rows_of db) db rp db' res"
  unfolding pending_of_def
  by (rule migrate_loop_result [OF run rows])
    (use known pending_fresh in \<open>auto simp: pending_of_def simp del: upt_Suc\<close>)

definition first_report :: "'d migration list \<Rightarrow> 'd mdb \<Rightarrow> report" where
  "first_report known db = \<lparr>rp_before = max_version (records db), rp_after = 0, rp_target = length known,
     rp_applied = [], rp_recognised = []\<rparr>"

definition with_table :: "'d mdb \<Rightarrow> 'd mdb" where
  "with_table db = db\<lparr>md_versions := Some (rows_of db)\<rparr>"

lemma with_table_fields [simp]:
  "rows_of (with_table db) = rows_of db" "md_data (with_table db) = md_data db" "md_locked (with_table db) = md_locked db"
  "md_timeout (with_table db) = md_timeout db" "md_versions (with_table db) = Some (rows_of db)" "records (with_table db) = records db"
  by (simp_all add: with_table_def rows_of_def records_def split: option.split)

lemma under_lock_eq: "under_lock E known db =
    (case verify_records E (records db) known of
       Inl e \<Rightarrow> (with_table db, Inl e)
     | Inr _ \<Rightarrow>
         if cluster_refusal E (rows_of db = [] \<and> \<not> unversioned_db E db) (with_table db) then (with_table db, Inl ClusterChanged)
         else (case migrate_loop E (records db) (unversioned_db E db) (if length (records db) < length known then en_revision E else None)
                 known (with_table db) (first_report known db) of
               (db, Inl e) \<Rightarrow> (db, Inl e)
             | (db, Inr rp) \<Rightarrow> (record_cluster E (rp_target rp) db, Inr (rp\<lparr>rp_after := rp_target rp\<rparr>))))"
proof -
  have T: "db\<lparr>md_versions := Some (case md_versions db of None \<Rightarrow> [] | Some rows \<Rightarrow> rows)\<rparr> = with_table db"
    by (simp add: with_table_def rows_of_def)
  show ?thesis
    unfolding under_lock_def Let_def T with_table_fields unversioned_db_def records_empty first_report_def
    by (simp cong: sum.case_cong prod.case_cong if_cong)
qed

text \<open>Every outcome of an upgrade: refused before anything ran, or the loop's result.\<close>

lemma under_lock_cases:
  assumes run: "under_lock E known db = (db', res)" and known: "map mg_version known = [1..<length known + 1]"
  obtains (refused) "db' = with_table db" "isl res"
  | (ran) db1 res1 where "verify_records E (records db) known = Inr ()"
      "loop_result E (unversioned_db E db) (pending_of known db) (rows_of db) (with_table db) (first_report known db) db1 res1"
      "case res1 of Inl e \<Rightarrow> db' = db1 \<and> res = Inl e
        | Inr rp' \<Rightarrow> db' = record_cluster E (length known) db1 \<and> res = Inr (rp'\<lparr>rp_after := length known\<rparr>)"
proof -
  let ?rev = "if length (records db) < length known then en_revision E else None"
  obtain db1 res1 where loop: "migrate_loop E (records db) (unversioned_db E db) ?rev known (with_table db) (first_report known db) = (db1, res1)"
    by fastforce
  have p: "pending_of known (with_table db) = pending_of known db" by (simp add: pending_of_def)
  have L: "loop_result E (unversioned_db E db) (pending_of known db) (rows_of db) (with_table db) (first_report known db) db1 res1"
    using migrate_all [of E "with_table db" "unversioned_db E db" ?rev known "first_report known db" db1 res1] loop known by (simp add: p)
  have t: "rp_target rp' = length known" if "res1 = Inr rp'" for rp'
    using L that by (auto simp: loop_result_def loop_outcome_def first_report_def)
  show thesis
  proof (cases "verify_records E (records db) known = Inr () \<and> \<not> cluster_refusal E (rows_of db = [] \<and> \<not> unversioned_db E db) (with_table db)")
    case True
    then have "case res1 of Inl e \<Rightarrow> db' = db1 \<and> res = Inl e
        | Inr rp' \<Rightarrow> db' = record_cluster E (length known) db1 \<and> res = Inr (rp'\<lparr>rp_after := length known\<rparr>)"
      using run [unfolded under_lock_eq loop] t by (cases res1) auto
    with L True show thesis by (blast intro: ran)
  next
    case False
    then show thesis
      using run [unfolded under_lock_eq] by (auto intro: refused split: sum.splits if_splits)
  qed
qed

lemma record_cluster_fields [simp]:
  "rows_of (record_cluster E n db) = rows_of db" "md_data (record_cluster E n db) = md_data db"
  "md_locked (record_cluster E n db) = md_locked db" "md_timeout (record_cluster E n db) = md_timeout db"
  by (auto simp: record_cluster_def rows_of_def split: option.splits)

lemma upgrade_locked: "en_lock_free E \<Longrightarrow> upgrade E known db =
    (case under_lock E known (db\<lparr>md_locked := True, md_timeout := False\<rparr>) of (db, res) \<Rightarrow> (db\<lparr>md_locked := False\<rparr>, res))"
  by (simp add: upgrade_def)

lemma upgrade_refused: "\<not> en_lock_free E \<Longrightarrow> upgrade E known db = (db\<lparr>md_timeout := False\<rparr>, Inl LockNotAvailable)"
  by (simp add: upgrade_def)


section \<open>After a success\<close>

lemma verify_ok_iff: "verify_records E (records db) known = Inr () \<longleftrightarrow>
    (\<forall>v \<in> vr_version ` set (rows_of db). v \<le> length known) \<and>
    (\<forall>mg \<in> set known. \<forall>r. map_of (records db) (mg_version mg) = Some r \<longrightarrow> vr_checksum r = checksum (en_sha256 E) mg)"
proof -
  let ?newer = "sort (filter (\<lambda>v. v > length known) (map fst (records db)))"
  have "?newer = [] \<longleftrightarrow> set ?newer = {}" by (rule set_empty [symmetric])
  also have "\<dots> \<longleftrightarrow> (\<forall>v \<in> vr_version ` set (rows_of db). v \<le> length known)"
    by (simp add: records_keys [symmetric]) fastforce
  finally have n: "?newer = [] \<longleftrightarrow> (\<forall>v \<in> vr_version ` set (rows_of db). v \<le> length known)" .
  let ?P = "\<lambda>mg. case map_of (records db) (mg_version mg) of None \<Rightarrow> False | Some row \<Rightarrow> vr_checksum row \<noteq> checksum (en_sha256 E) mg"
  have "List.find ?P known = None \<longleftrightarrow> (\<forall>mg \<in> set known. \<not> ?P mg)" by (auto simp: find_None_iff)
  then have "verify_records E (records db) known = Inr () \<longleftrightarrow> ?newer = [] \<and> (\<forall>mg \<in> set known. \<not> ?P mg)"
    unfolding verify_records_def Let_def by (auto split: option.splits)
  also have "(\<forall>mg \<in> set known. \<not> ?P mg) \<longleftrightarrow>
      (\<forall>mg \<in> set known. \<forall>r. map_of (records db) (mg_version mg) = Some r \<longrightarrow> vr_checksum r = checksum (en_sha256 E) mg)"
    by (auto split: option.splits)
  finally show ?thesis unfolding n .
qed

lemma max_version_eq:
  assumes "\<forall>v \<in> vr_version ` set (rows_of db). v \<le> n" "n \<in> vr_version ` set (rows_of db)"
  shows "max_version (records db) = n"
proof -
  have f: "fold max xs a \<le> m" if "a \<le> m" "\<forall>x \<in> set xs. x \<le> m" for xs a and m :: nat
    using that by (induction xs arbitrary: a) auto
  have m: "a \<le> fold max xs a" for xs and a :: nat
  proof (induction xs arbitrary: a)
    case (Cons x xs)
    have "a \<le> max x a" by simp
    also have "\<dots> \<le> fold max xs (max x a)" by (rule Cons)
    finally show ?case by simp
  qed simp
  have g: "x \<le> fold max xs a" if "x \<in> set xs" for xs and a x :: nat
    using that m by (induction xs arbitrary: a) (auto intro: order_trans [OF _ m])
  have k: "set (map fst (records db)) = vr_version ` set (rows_of db)" using records_keys [of db] by simp
  show ?thesis unfolding max_version_def
  proof (rule order_antisym)
    show "fold max (map fst (records db)) 0 \<le> n" by (rule f) (use assms(1) in \<open>simp_all only: k zero_le\<close>)
    show "n \<le> fold max (map fst (records db)) 0" by (rule g) (use assms(2) in \<open>simp only: k\<close>)
  qed
qed

lemma migrate_loop_settled: "unrecorded recs mgs = [] \<Longrightarrow> migrate_loop E recs unv revision mgs db rp = (db, Inr rp)"
  by (induction mgs) (auto simp: unrecorded_def split: if_splits)

lemma checked_settles:
  assumes "verify_records E (records db) known = Inr ()" "pending_of known db = []" "rows_of db \<noteq> []" "en_lock_free E"
  shows "\<exists>db' rp. upgrade E known db = (db', Inr rp) \<and> rp_applied rp = [] \<and> rp_recognised rp = [] \<and>
    rows_of db' = rows_of db \<and> md_data db' = md_data db"
proof -
  let ?db = "db\<lparr>md_locked := True, md_timeout := False\<rparr>"
  have same: "records ?db = records db" "rows_of ?db = rows_of db" by (simp_all add: records_def rows_of_def)
  have loop: "migrate_loop E (records db) u rev known (with_table ?db) (first_report known ?db) = (with_table ?db, Inr (first_report known ?db))" for u rev
    by (rule migrate_loop_settled) (use assms(2) in \<open>simp add: pending_of_def\<close>)
  have "under_lock E known ?db = (record_cluster E (length known) (with_table ?db), Inr ((first_report known ?db)\<lparr>rp_after := length known\<rparr>))"
    unfolding under_lock_eq same assms(1) loop using assms(3)
    by (simp add: cluster_refusal_def first_report_def)
  moreover have "rows_of (d\<lparr>md_locked := False\<rparr>) = rows_of d" for d :: "'a mdb" by (simp add: rows_of_def)
  ultimately show ?thesis using same(2) by (simp add: upgrade_locked [OF assms(4)] first_report_def)
qed

text \<open>C20. A successful upgrade settles the database: the versions it reports as applied or recognised
  are exactly those that were missing, \<open>check\<close> accepts the result, and running it again succeeds
  without applying or recognising anything, touching neither the content nor the record.\<close>

lemma upgrade_settles:
  assumes "load_history modules = Inr known" "known \<noteq> []" "distinct (map vr_version (rows_of db))"
    "upgrade E known db = (db', Inr rp)"
  shows "set (rp_applied rp) \<union> set (rp_recognised rp) = set (map mg_version (pending_of known db)) \<and>
    check_command E known db' \<and>
    (\<exists>db2 rp2. upgrade E known db' = (db2, Inr rp2) \<and> rp_applied rp2 = [] \<and> rp_recognised rp2 = [] \<and>
       rows_of db2 = rows_of db' \<and> md_data db2 = md_data db')"
proof -
  let ?db = "db\<lparr>md_locked := True, md_timeout := False\<rparr>"
  have free: "en_lock_free E" using assms(4) upgrade_refused [of E known db] by (cases "en_lock_free E") auto
  obtain db1 where run: "under_lock E known ?db = (db1, Inr rp)" and db': "db' = db1\<lparr>md_locked := False\<rparr>"
    using assms(4) free by (auto simp: upgrade_locked split: prod.splits)
  have same: "rows_of ?db = rows_of db" "pending_of known ?db = pending_of known db" "records ?db = records db"
    by (simp_all add: rows_of_def pending_of_def records_def)
  note versions = load_history_versions [OF assms(1)]
  then have dv: "distinct (map mg_version known)" by (metis distinct_upt)
  obtain new db2 rp' where ok: "verify_records E (records db) known = Inr ()"
    and n: "rows_of db' = rows_of db @ new" "map row_id new = map (version_id E) (pending_of known db)"
    and rp': "rp_applied rp = map vr_version (filter (\<lambda>r. vr_how r = ''applied'') new)"
      "rp_recognised rp = map vr_version (filter (\<lambda>r. vr_how r = ''recognised'') new)"
      "set (map vr_how new) \<subseteq> {''applied'', ''recognised''}"
  proof (rule under_lock_cases [OF run versions, unfolded same])
    fix db2 res2
    assume v: "verify_records E (records db) known = Inr ()"
      and L: "loop_result E (unversioned_db E ?db) (pending_of known db) (rows_of db) (with_table ?db) (first_report known ?db) db2 res2"
      and e: "case res2 of Inl e \<Rightarrow> db1 = db2 \<and> Inr rp = Inl e
        | Inr rp' \<Rightarrow> db1 = record_cluster E (length known) db2 \<and> Inr rp = Inr (rp'\<lparr>rp_after := length known\<rparr>)"
    obtain k new where h: "db2 = (with_table ?db)\<lparr>md_data := fold (run_content E (unversioned_db E ?db)) (take k (pending_of known db)) (md_data ?db),
        md_versions := Some (rows_of db @ new)\<rparr>"
      "map row_id new = map (version_id E) (take k (pending_of known db))" "loop_outcome k (pending_of known db) new (first_report known ?db) res2"
      using L unfolding loop_result_def by auto
    obtain rp1 where r: "res2 = Inr rp1" "db1 = record_cluster E (length known) db2" "rp = rp1\<lparr>rp_after := length known\<rparr>"
      using e by (auto split: sum.splits)
    have "rows_of db2 = rows_of db @ new" using h(1) by (simp add: rows_of_def)
    then have "rows_of db' = rows_of db @ new" using r(2) by (simp add: db' rows_of_def) (metis record_cluster_fields(1) rows_of_def)
    then show ?thesis
      by (rule that [OF v]) (use h(2,3) r in \<open>auto simp: loop_outcome_def first_report_def\<close>)
  qed simp
  have nv: "map vr_version new = map mg_version (pending_of known db)"
    using arg_cong [OF n(2), of "map fst"] by (simp add: row_id_def version_id_def o_def)
  have "set (rp_applied rp) \<union> set (rp_recognised rp) = set (map vr_version new)" using rp' by auto
  with nv have report: "set (rp_applied rp) \<union> set (rp_recognised rp) = set (map mg_version (pending_of known db))" by simp
  have pend: "pending_of known db' = []"
  proof -
    have "mg_version mg \<in> vr_version ` set (rows_of db')" if "mg \<in> set known" for mg
    proof (cases "mg_version mg \<in> vr_version ` set (rows_of db)")
      case False
      with that have "mg \<in> set (pending_of known db)" by (simp add: pending_of_def unrecorded_def records_None)
      then have "mg_version mg \<in> set (map vr_version new)" unfolding nv by simp
      then show ?thesis by (auto simp: n(1))
    qed (auto simp: n(1))
    then show ?thesis by (simp add: pending_of_def unrecorded_def records_None filter_empty_conv)
  qed
  have kv: "set (map mg_version known) = {1..length known}" using arg_cong [OF versions, of set] by auto
  have sub: "set (map mg_version (pending_of known db)) \<subseteq> {1..length known}"
    using kv by (auto simp: pending_of_def unrecorded_def)
  have d': "distinct (map vr_version (rows_of db'))"
  proof -
    have "distinct (map mg_version (pending_of known db))" using dv by (simp add: pending_of_def unrecorded_def distinct_map_filter)
    moreover have "set (map mg_version (pending_of known db)) \<inter> vr_version ` set (rows_of db) = {}"
      using pending_fresh [of _ known db] by auto
    ultimately show ?thesis using assms(3) by (auto simp: n(1) nv)
  qed
  have ok': "verify_records E (records db') known = Inr ()"
    unfolding verify_ok_iff
  proof (intro conjI ballI allI impI)
    fix v assume "v \<in> vr_version ` set (rows_of db')"
    then have "v \<in> vr_version ` set (rows_of db) \<or> v \<in> set (map vr_version new)" by (auto simp: n(1))
    then show "v \<le> length known" using ok sub unfolding verify_ok_iff nv by auto
  next
    fix mg r assume mg: "mg \<in> set known" "map_of (records db') (mg_version mg) = Some r"
    then have r: "r \<in> set (rows_of db')" "vr_version r = mg_version mg" using records_Some [OF d'] by auto
    show "vr_checksum r = checksum (en_sha256 E) mg"
    proof (cases "r \<in> set (rows_of db)")
      case True
      with r(2) have "map_of (records db) (mg_version mg) = Some r" using records_Some [OF assms(3)] by auto
      with ok mg(1) show ?thesis unfolding verify_ok_iff by blast
    next
      case False
      with r(1) have "row_id r \<in> set (map row_id new)" by (auto simp: n(1))
      then obtain m where m: "m \<in> set (pending_of known db)" "row_id r = version_id E m" unfolding n(2) by auto
      then have "m \<in> set known" "mg_version m = mg_version mg" using r(2) by (auto simp: pending_of_def unrecorded_def row_id_def version_id_def)
      with dv mg(1) have "m = mg" by (auto simp: distinct_map dest: inj_onD)
      with m(2) show ?thesis by (simp add: row_id_def version_id_def)
    qed
  qed
  have all_in: "mg_version mg \<in> vr_version ` set (rows_of db')" if "mg \<in> set known" for mg
    using pend that by (auto simp: pending_of_def unrecorded_def records_None filter_empty_conv)
  have "length known \<in> set (map mg_version known)" unfolding kv using assms(2) by (cases known) auto
  then have top: "length known \<in> vr_version ` set (rows_of db')" using all_in by auto
  then have ne: "rows_of db' \<noteq> []" by auto
  have "max_version (records db') = length known"
    by (rule max_version_eq [OF _ top]) (use ok' in \<open>simp add: verify_ok_iff\<close>)
  moreover have "sort (filter (\<lambda>v. v > length known) (map fst (records db'))) = []"
    using ok' unfolding verify_records_def Let_def by (auto split: if_splits)
  moreover have "\<not> (case map_of (records db') (mg_version mg) of None \<Rightarrow> False | Some row \<Rightarrow> vr_checksum row \<noteq> checksum (en_sha256 E) mg)"
    if "mg \<in> set known" for mg
    using ok' that unfolding verify_ok_iff by (auto split: option.splits)
  ultimately have "check_command E known db'"
    using pend by (auto simp: check_command_def migration_state_def Let_def pending_of_def unrecorded_def filter_empty_conv)
  with report checked_settles [OF ok' pend ne free] show ?thesis by blast
qed

section \<open>An example history\<close>

text \<open>Two versions on a content that is the list of the statements run; the second has a check that
  fails when its statement is missing.\<close>

definition example_env :: "string list env" where
  "example_env = \<lparr>en_exec = (\<lambda>s d. if s = ''BAD'' then Inl ''syntax error'' else Inr (d @ [s])), en_sha256 = id,
     en_table = (\<lambda>d t. False), en_now = ''t'', en_duration = (\<lambda>_. 1), en_revision = None, en_cluster = Some ''c1'',
     en_address = ''db'', en_lock_free = True, en_file_writable = True\<rparr>"

definition example_modules :: "string \<Rightarrow> (string \<times> string list migration) list" where
  "example_modules second = [(''v0002_add'', \<lparr>mg_version = 2, mg_name = ''add'', mg_store = ''jobs'', mg_statements = [''ALTER b'', second],
       mg_is_applied = (\<lambda>d. ''ALTER b'' \<in> set d), mg_data = None, mg_snapshot_tables = []\<rparr>),
     (''conftest'', \<lparr>mg_version = 9, mg_name = [], mg_store = [], mg_statements = [], mg_is_applied = (\<lambda>_. True), mg_data = None, mg_snapshot_tables = []\<rparr>),
     (''v0001_base'', \<lparr>mg_version = 1, mg_name = ''base'', mg_store = ''jobs'', mg_statements = [''CREATE  a''],
       mg_is_applied = (\<lambda>d. ''CREATE  a'' \<in> set d), mg_data = None, mg_snapshot_tables = []\<rparr>)]"

definition example_known :: "string \<Rightarrow> string list migration list" where
  "example_known second = (case load_history (example_modules second) of Inr known \<Rightarrow> known | Inl _ \<Rightarrow> [])"

definition fresh_db :: "string list mdb" where
  "fresh_db = \<lparr>md_data = [], md_versions = None, md_timeout = False, md_locked = False, md_seen = None\<rparr>"

lemma example_load: "load_history (example_modules s) = Inr (example_known s)"
proof -
  have m: "module_number ''v0002_add'' = Some 2" "module_number ''v0001_base'' = Some 1" "module_number ''conftest'' = None" by code_simp+
  have "\<exists>known. load_history (example_modules s) = Inr known"
    by (simp add: load_history_def example_modules_def m)
  then show ?thesis by (auto simp: example_known_def)
qed


lemma upgrade_settles_witness:
  "(case upgrade example_env (example_known ''GRANT'') fresh_db of (db, res) \<Rightarrow>
     (\<exists>rp. res = Inr rp \<and> rp_applied rp = [1, 2]) \<and> check_command example_env (example_known ''GRANT'') db)"
proof -
  obtain db res where run: "upgrade example_env (example_known ''GRANT'') fresh_db = (db, res)" by fastforce
  have e: "(case upgrade example_env (example_known ''GRANT'') fresh_db of (db, Inr rp) \<Rightarrow> rp_applied rp | _ \<Rightarrow> []) = [1, 2]" by code_simp
  then obtain rp where rp: "res = Inr rp" "rp_applied rp = [1, 2]" by (auto simp: run split: sum.splits)
  have "length (example_known ''GRANT'') = 2" by code_simp
  then have "example_known ''GRANT'' \<noteq> []" by auto
  moreover have "distinct (map vr_version (rows_of fresh_db))" by (simp add: rows_of_def fresh_db_def)
  ultimately have "check_command example_env (example_known ''GRANT'') db"
    using upgrade_settles [OF example_load _ _ run [unfolded rp(1)]] by blast
  with rp show ?thesis by (simp add: run)
qed

end
