(* ===== verification/Regex.thy ===== *)
theory Regex
  imports TimeText
begin

text \<open>
  The regular expressions the extraction patterns of Stage 2 are written in, with the matching
  that Python's \<open>re\<close> and RE2 share on them: alternatives in order, greedy repetition,
  leftmost match first. \<open>ends r s p\<close> lists the positions where a match of \<open>r\<close> begun at \<open>p\<close> may
  end, the preferred one first, so that the first element is the match the engine returns.
  \<open>Test\<close> is a zero-width assertion (word boundary, look-around). A repetition without an upper
  bound is tried at most once per remaining character, which is all a body that consumes
  something can use.
\<close>

datatype rx =
    Cls "char \<Rightarrow> bool"
  | Eps
  | Seq rx rx
  | Alt rx rx
  | Rep rx nat "nat option"
  | Test "string \<Rightarrow> nat \<Rightarrow> bool"

primrec rep_ends :: "(nat \<Rightarrow> nat list) \<Rightarrow> nat \<Rightarrow> nat \<Rightarrow> nat \<Rightarrow> nat list" where
  "rep_ends f 0 lo p = (if lo = 0 then [p] else [])"
| "rep_ends f (Suc m) lo p =
     concat (map (rep_ends f m (lo - 1)) (f p)) @ (if lo = 0 then [p] else [])"

primrec ends :: "rx \<Rightarrow> string \<Rightarrow> nat \<Rightarrow> nat list" where
  "ends (Cls P) s p = (if p < length s \<and> P (s ! p) then [Suc p] else [])"
| "ends Eps s p = [p]"
| "ends (Seq a b) s p = concat (map (ends b s) (ends a s p))"
| "ends (Alt a b) s p = ends a s p @ ends b s p"
| "ends (Rep r lo hi) s p =
     rep_ends (ends r s) (case hi of None \<Rightarrow> length s - p | Some h \<Rightarrow> h) lo p"
| "ends (Test t) s p = (if t s p then [p] else [])"

text \<open>Shorthands for the syntax of patterns.\<close>

fun seqs :: "rx list \<Rightarrow> rx" where
  "seqs [] = Eps" | "seqs [r] = r" | "seqs (r # rs) = Seq r (seqs rs)"

fun alts :: "rx list \<Rightarrow> rx" where
  "alts [] = Test (\<lambda>_ _. False)" | "alts [r] = r" | "alts (r # rs) = Alt r (alts rs)"

definition lit :: "string \<Rightarrow> rx" where
  "lit w = seqs (map (\<lambda>c. Cls (\<lambda>d. d = c)) w)"

definition ilit :: "string \<Rightarrow> rx" where
  "ilit w = seqs (map (\<lambda>c. Cls (\<lambda>d. lower_char d = lower_char c)) w)"

definition opt :: "rx \<Rightarrow> rx" where
  "opt r = Rep r 0 (Some 1)"

definition star :: "rx \<Rightarrow> rx" where
  "star r = Rep r 0 None"

definition plus1 :: "rx \<Rightarrow> rx" where
  "plus1 r = Rep r 1 None"

definition times_rx :: "nat \<Rightarrow> rx \<Rightarrow> rx" where
  "times_rx n r = Rep r n (Some n)"

text \<open>ASCII classes, the boundary \<open>\b\<close> of \<open>re.ASCII\<close>, and the negative look-arounds.\<close>

definition is_ascii_alpha :: "char \<Rightarrow> bool" where
  "is_ascii_alpha c \<longleftrightarrow> (let n = (of_char c :: nat) in (65 \<le> n \<and> n \<le> 90) \<or> (97 \<le> n \<and> n \<le> 122))"

definition is_ascii_alnum :: "char \<Rightarrow> bool" where
  "is_ascii_alnum c \<longleftrightarrow> is_digit c \<or> is_ascii_alpha c"

definition is_ascii_word :: "char \<Rightarrow> bool" where
  "is_ascii_word c \<longleftrightarrow> is_ascii_alnum c \<or> c = CHR ''_''"

definition is_hex :: "char \<Rightarrow> bool" where
  "is_hex c \<longleftrightarrow> (let n = (of_char c :: nat) in is_digit c \<or> (65 \<le> n \<and> n \<le> 70) \<or> (97 \<le> n \<and> n \<le> 102))"

definition before_is :: "(char \<Rightarrow> bool) \<Rightarrow> string \<Rightarrow> nat \<Rightarrow> bool" where
  "before_is P s p \<longleftrightarrow> 0 < p \<and> p \<le> length s \<and> P (s ! (p - 1))"

definition after_is :: "(char \<Rightarrow> bool) \<Rightarrow> string \<Rightarrow> nat \<Rightarrow> bool" where
  "after_is P s p \<longleftrightarrow> p < length s \<and> P (s ! p)"

definition word_boundary :: rx where
  "word_boundary = Test (\<lambda>s p. before_is is_ascii_word s p \<noteq> after_is is_ascii_word s p)"

definition not_before :: "(char \<Rightarrow> bool) \<Rightarrow> rx" where
  "not_before P = Test (\<lambda>s p. \<not> before_is P s p)"

definition not_after :: "(char \<Rightarrow> bool) \<Rightarrow> rx" where
  "not_after P = Test (\<lambda>s p. \<not> after_is P s p)"

definition looking_at :: "rx \<Rightarrow> rx" where
  "looking_at r = Test (\<lambda>s p. ends r s p \<noteq> [])"

definition not_looking_at :: "rx \<Rightarrow> rx" where
  "not_looking_at r = Test (\<lambda>s p. ends r s p = [])"

text \<open>
  \<open>pattern.finditer(text)\<close>: the spans of the matches, each search resuming where the last match
  ended.
\<close>

function finditer_from :: "rx \<Rightarrow> string \<Rightarrow> nat \<Rightarrow> (nat \<times> nat) list" where
  "finditer_from r s p =
     (if length s < p then []
      else case ends r s p of
        [] \<Rightarrow> finditer_from r s (Suc p)
      | e # _ \<Rightarrow> (p, e) # finditer_from r s (max (Suc p) e))"
  by pat_completeness auto
termination by (relation "measure (\<lambda>(r, s, p). Suc (length s) - p)") auto

declare finditer_from.simps [simp del]

definition finditer :: "rx \<Rightarrow> string \<Rightarrow> (nat \<times> nat) list" where
  "finditer r s = finditer_from r s 0"

text \<open>\<open>s[b:e]\<close>, \<open>pattern.search(s)\<close>, \<open>pattern.fullmatch(s)\<close>.\<close>

definition slice :: "string \<Rightarrow> nat \<Rightarrow> nat \<Rightarrow> string" where
  "slice s b e = take (e - b) (drop b s)"

definition search :: "rx \<Rightarrow> string \<Rightarrow> (nat \<times> nat) option" where
  "search r s = (case finditer r s of [] \<Rightarrow> None | m # _ \<Rightarrow> Some m)"

definition fullmatch :: "rx \<Rightarrow> string \<Rightarrow> bool" where
  "fullmatch r s \<longleftrightarrow> length s \<in> set (ends r s 0)"

text \<open>\<open>pattern.sub(repl, text)\<close>, where the replacement reads the text and the span.\<close>

fun sub_spans :: "(string \<Rightarrow> nat \<Rightarrow> nat \<Rightarrow> string) \<Rightarrow> string \<Rightarrow> nat \<Rightarrow> (nat \<times> nat) list \<Rightarrow> string" where
  "sub_spans repl s pos [] = drop pos s"
| "sub_spans repl s pos ((b, e) # ms) = slice s pos b @ repl s b e @ sub_spans repl s e ms"

definition rx_sub :: "rx \<Rightarrow> (string \<Rightarrow> nat \<Rightarrow> nat \<Rightarrow> string) \<Rightarrow> string \<Rightarrow> string" where
  "rx_sub r repl s = sub_spans repl s 0 (finditer r s)"

text \<open>\<open>s.split()\<close>: the maximal runs of characters satisfying \<open>P\<close>.\<close>

function runs :: "(char \<Rightarrow> bool) \<Rightarrow> string \<Rightarrow> string list" where
  "runs P s = (case dropWhile (\<lambda>c. \<not> P c) s of
      [] \<Rightarrow> []
    | t \<Rightarrow> takeWhile P t # runs P (dropWhile P t))"
  by pat_completeness auto
termination
proof (relation "measure (length \<circ> snd)")
  fix P :: "char \<Rightarrow> bool" and s c u
  assume h: "dropWhile (\<lambda>c. \<not> P c) s = c # u"
  then have "P c" by (metis hd_dropWhile list.distinct(1) list.sel(1))
  then have "length (dropWhile P (c # u)) \<le> length u" by (simp add: length_dropWhile_le)
  also have "length u < length s" using length_dropWhile_le [of "\<lambda>c. \<not> P c" s] h by simp
  finally show "((P, dropWhile P (c # u)), (P, s)) \<in> measure (length \<circ> snd)" by simp
qed simp

declare runs.simps [simp del]

definition split_ws :: "string \<Rightarrow> string list" where
  "split_ws s = runs (\<lambda>c. \<not> is_space c) s"

section \<open>Where matches end\<close>

lemma rep_ends_mono:
  assumes f: "\<And>q e. e \<in> set (f q) \<Longrightarrow> q \<le> e"
  shows "e \<in> set (rep_ends f m lo p) \<Longrightarrow> p \<le> e"
proof (induction m arbitrary: lo p)
  case (Suc m)
  show ?case
  proof (cases "e = p")
    case False
    with Suc.prems obtain q where "q \<in> set (f p)" "e \<in> set (rep_ends f m (lo - 1) q)"
      by (auto split: if_splits)
    then show ?thesis using Suc.IH [of "lo - 1" q] f [of e p] f [of q p] by simp
  qed simp
qed (simp split: if_splits)

lemma rep_ends_bound:
  assumes f: "\<And>q e. q \<le> n \<Longrightarrow> e \<in> set (f q) \<Longrightarrow> e \<le> n"
  shows "p \<le> n \<Longrightarrow> e \<in> set (rep_ends f m lo p) \<Longrightarrow> e \<le> (n :: nat)"
proof (induction m arbitrary: lo p)
  case (Suc m)
  show ?case
  proof (cases "e = p")
    case False
    with Suc.prems obtain q where "q \<in> set (f p)" "e \<in> set (rep_ends f m (lo - 1) q)"
      by (auto split: if_splits)
    with Suc.IH [of q "lo - 1"] Suc.prems(1) f [of p q] show ?thesis by simp
  qed (use Suc.prems in simp)
qed (simp split: if_splits)

lemma ends_ge: "e \<in> set (ends r s p) \<Longrightarrow> p \<le> e"
proof (induction r arbitrary: p e)
  case (Seq a b)
  then obtain m where m: "m \<in> set (ends a s p)" "e \<in> set (ends b s m)" by auto
  from Seq.IH(1) [OF m(1)] Seq.IH(2) [OF m(2)] show ?case by simp
next
  case (Rep r lo hi)
  show ?case by (rule rep_ends_mono [where f = "ends r s", OF Rep.IH Rep.prems [unfolded ends.simps]])
qed (auto split: if_splits)

lemma ends_le: "p \<le> length s \<Longrightarrow> e \<in> set (ends r s p) \<Longrightarrow> e \<le> length s"
proof (induction r arbitrary: p e)
  case (Seq a b)
  from Seq.prems(2) obtain m where m: "m \<in> set (ends a s p)" "e \<in> set (ends b s m)" by auto
  show ?case by (rule Seq.IH(2) [OF Seq.IH(1) [OF Seq.prems(1) m(1)] m(2)])
next
  case (Rep r lo hi)
  show ?case by (rule rep_ends_bound [where f = "ends r s", OF Rep.IH Rep.prems(1) Rep.prems(2) [unfolded ends.simps]])
next
  case (Alt a b)
  from Alt.prems(2) have "e \<in> set (ends a s p) \<or> e \<in> set (ends b s p)" by simp
  then show ?case using Alt.IH(1) [OF Alt.prems(1)] Alt.IH(2) [OF Alt.prems(1)] by blast
qed (auto split: if_splits)

lemma ends_Seq: "e \<in> set (ends (Seq a b) s p) \<longleftrightarrow> (\<exists>m \<in> set (ends a s p). e \<in> set (ends b s m))"
  by auto

lemma ends_lit_Cons: "ends (lit (c # w)) s p = (if p < length s \<and> s ! p = c then ends (lit w) s (Suc p) else [])"
  by (cases w) (auto simp: lit_def)

lemma slice_Suc: "p < length s \<Longrightarrow> slice s p (p + Suc n) = s ! p # slice s (Suc p) (Suc p + n)"
  by (simp add: slice_def Cons_nth_drop_Suc [symmetric])

lemma ends_lit: "ends (lit w) s p =
    (if w = [] \<or> p + length w \<le> length s \<and> slice s p (p + length w) = w then [p + length w] else [])"
proof (induction w arbitrary: p)
  case (Cons c w)
  show ?case
  proof (cases "p < length s \<and> s ! p = c")
    case True
    then have "slice s p (p + length (c # w)) = c # slice s (Suc p) (Suc p + length w)"
      using slice_Suc [of p s "length w"] by simp
    moreover have "w = [] \<longrightarrow> slice s (Suc p) (Suc p + length w) = w" by (simp add: slice_def)
    ultimately show ?thesis using True by (auto simp: ends_lit_Cons Cons)
  next
    case False
    have "slice s p (p + length (c # w)) \<noteq> c # w" if "p < length s"
      using False that slice_Suc [of p s "length w"] by simp
    with False show ?thesis by (auto simp: ends_lit_Cons)
  qed
qed (simp add: lit_def)

text \<open>The least number of characters a match consumes.\<close>

primrec min_len :: "rx \<Rightarrow> nat" where
  "min_len (Cls P) = 1"
| "min_len Eps = 0"
| "min_len (Seq a b) = min_len a + min_len b"
| "min_len (Alt a b) = min (min_len a) (min_len b)"
| "min_len (Rep r lo hi) = lo * min_len r"
| "min_len (Test t) = 0"

lemma rep_ends_min:
  assumes f: "\<And>q e. e \<in> set (f q) \<Longrightarrow> q + k \<le> e"
  shows "e \<in> set (rep_ends f m lo p) \<Longrightarrow> p + lo * k \<le> e"
proof (induction m arbitrary: lo p)
  case (Suc m)
  show ?case
  proof (cases "lo = 0")
    case True
    then show ?thesis using rep_ends_mono [of f e "Suc m" lo p] f Suc.prems by (metis add_leD1 mult_0 add_0_right)
  next
    case False
    with Suc.prems obtain q where "q \<in> set (f p)" "e \<in> set (rep_ends f m (lo - 1) q)" by auto
    then show ?thesis using Suc.IH [of "lo - 1" q] f [of q p] False by (cases lo) auto
  qed
qed (simp split: if_splits)

lemma ends_min_len: "e \<in> set (ends r s p) \<Longrightarrow> p + min_len r \<le> e"
proof (induction r arbitrary: p e)
  case (Seq a b)
  then obtain m where m: "m \<in> set (ends a s p)" "e \<in> set (ends b s m)" by auto
  from Seq.IH(1) [OF m(1)] Seq.IH(2) [OF m(2)] show ?case by simp
next
  case (Rep r lo hi)
  show ?case unfolding min_len.simps
    by (rule rep_ends_min [where f = "ends r s", OF Rep.IH Rep.prems [unfolded ends.simps]])
next
  case (Alt a b)
  from Alt.prems have "e \<in> set (ends a s p) \<or> e \<in> set (ends b s p)" by simp
  then show ?case using Alt.IH(1) [of e p] Alt.IH(2) [of e p] by auto
qed (auto split: if_splits)

text \<open>A repeated class: all shorter runs, longest first.\<close>

lemma rep_ends_Cls: "e \<in> set (rep_ends (ends (Cls P) s) m lo p) \<longleftrightarrow>
    p + lo \<le> e \<and> e \<le> p + m \<and> (e \<le> length s \<or> e = p) \<and> (\<forall>i. p \<le> i \<and> i < e \<longrightarrow> P (s ! i))"
proof (induction m arbitrary: lo p e)
  case (Suc m)
  show ?case
  proof (cases "e = p")
    case True
    have "\<not> p \<in> set (rep_ends (ends (Cls P) s) m (lo - 1) (Suc p))" unfolding Suc by simp
    with True show ?thesis by (simp del: ends.simps) auto
  next
    case False
    then have "e \<in> set (rep_ends (ends (Cls P) s) (Suc m) lo p) \<longleftrightarrow>
        p < length s \<and> P (s ! p) \<and> e \<in> set (rep_ends (ends (Cls P) s) m (lo - 1) (Suc p))" by auto
    also have "\<dots> \<longleftrightarrow> p < length s \<and> P (s ! p) \<and> Suc p + (lo - 1) \<le> e \<and> e \<le> Suc p + m \<and>
        (e \<le> length s \<or> e = Suc p) \<and> (\<forall>i. Suc p \<le> i \<and> i < e \<longrightarrow> P (s ! i))" by (simp only: Suc)
    also have "\<dots> \<longleftrightarrow> p + lo \<le> e \<and> e \<le> p + Suc m \<and> (e \<le> length s \<or> e = p) \<and> (\<forall>i. p \<le> i \<and> i < e \<longrightarrow> P (s ! i))"
      using False by (auto simp: Suc_le_eq) (metis le_neq_implies_less less_or_eq_imp_le)+
    finally show ?thesis .
  qed
qed auto

lemma rep_ends_longest:
  assumes f: "\<And>q. f q = (if Q q then [Suc q] else [])"
  shows "e \<in> set (rep_ends f m lo p) \<Longrightarrow> e \<le> hd (rep_ends f m lo p)"
proof (induction m arbitrary: lo p)
  case (Suc m)
  let ?R = "rep_ends f m (lo - 1) (Suc p)"
  have eq: "rep_ends f (Suc m) lo p = (if Q p then ?R else []) @ (if lo = 0 then [p] else [])"
    by (simp add: f)
  have fq: "\<And>q e. e \<in> set (f q) \<Longrightarrow> q \<le> e" by (auto simp: f split: if_splits)
  show ?case
  proof (cases "Q p \<and> ?R \<noteq> []")
    case True
    then have "Suc p \<le> hd ?R" using rep_ends_mono [of f "hd ?R" m "lo - 1" "Suc p"] fq by simp
    moreover have "e \<in> set ?R \<or> e = p" using Suc.prems unfolding eq by (auto split: if_splits)
    ultimately show ?thesis using True Suc.IH [of "lo - 1" "Suc p"] unfolding eq by auto
  next
    case False
    with Suc.prems show ?thesis unfolding eq by (auto split: if_splits)
  qed
qed (simp split: if_splits)

lemma rep_ends_Cls_hd:
  "e \<in> set (rep_ends (ends (Cls P) s) m lo p) \<Longrightarrow> e \<le> hd (rep_ends (ends (Cls P) s) m lo p)"
  by (rule rep_ends_longest [where Q = "\<lambda>q. q < length s \<and> P (s ! q)"]) simp_all

section \<open>Searching\<close>

lemma finditer_sound: "(b, e) \<in> set (finditer_from r s p) \<Longrightarrow>
    p \<le> b \<and> b \<le> length s \<and> (\<exists>es. ends r s b = e # es)"
proof (induction r s p rule: finditer_from.induct)
  case (1 r s p)
  have p: "\<not> length s < p" using 1(3) by (subst (asm) finditer_from.simps) (auto split: if_splits)
  show ?case
  proof (cases "ends r s p")
    case Nil
    with p 1(3) have "(b, e) \<in> set (finditer_from r s (Suc p))" by (subst (asm) finditer_from.simps) simp
    with 1(1) [OF p Nil] show ?thesis by simp
  next
    case (Cons e' es)
    with p 1(3) have "(b, e) = (p, e') \<or> (b, e) \<in> set (finditer_from r s (max (Suc p) e'))"
      by (subst (asm) finditer_from.simps) simp
    then show ?thesis using 1(2) [OF p Cons] Cons p by auto
  qed
qed

lemma finditer_bounds:
  assumes "(b, e) \<in> set (finditer r s)"
  shows "b \<le> e" "e \<le> length s"
proof -
  obtain es where "ends r s b = e # es" and b: "b \<le> length s"
    using finditer_sound [of b e r s 0] assms by (auto simp: finditer_def)
  then have e: "e \<in> set (ends r s b)" by simp
  show "b \<le> e" by (rule ends_ge [OF e])
  show "e \<le> length s" by (rule ends_le [OF b e])
qed

lemma finditer_match: "(b, e) \<in> set (finditer r s) \<Longrightarrow> e \<in> set (ends r s b)"
  using finditer_sound [of b e r s 0] by (auto simp: finditer_def)

lemma finditer_covers_from:
  assumes "p \<le> q" "q \<le> length s" "ends r s q \<noteq> []" "\<And>b. [] \<noteq> ends r s b \<Longrightarrow> b < hd (ends r s b)"
  shows "\<exists>b e. (b, e) \<in> set (finditer_from r s p) \<and> b \<le> q \<and> q < e"
  using assms
proof (induction r s p rule: finditer_from.induct)
  case (1 r s p)
  show ?case
  proof (cases "ends r s p")
    case Nil
    with 1(3,5) have "p \<noteq> q" by metis
    with 1(3) have "Suc p \<le> q" by simp
    with 1 Nil show ?thesis by (subst finditer_from.simps) auto
  next
    case (Cons e es)
    with 1(6) [of p] have "p < e" by simp
    show ?thesis
    proof (cases "q < e")
      case True
      with Cons 1(3,4) show ?thesis by (subst finditer_from.simps) auto
    next
      case False
      with \<open>p < e\<close> have "max (Suc p) e \<le> q" by simp
      with 1 Cons have "\<exists>b e'. (b, e') \<in> set (finditer_from r s (max (Suc p) e)) \<and> b \<le> q \<and> q < e'" by auto
      with Cons 1(3,4) show ?thesis by (subst finditer_from.simps) (auto split: if_splits)
    qed
  qed
qed

lemma finditer_covers:
  assumes "q \<le> length s" "ends r s q \<noteq> []" "\<And>b. [] \<noteq> ends r s b \<Longrightarrow> b < hd (ends r s b)"
  shows "\<exists>b e. (b, e) \<in> set (finditer r s) \<and> b \<le> q \<and> q < e"
  using finditer_covers_from [of 0 q s r] assms by (simp add: finditer_def)

text \<open>The spans are in order and do not overlap.\<close>

fun spans_from :: "nat \<Rightarrow> (nat \<times> nat) list \<Rightarrow> bool" where
  "spans_from p [] = True"
| "spans_from p ((b, e) # ms) = (p \<le> b \<and> b \<le> e \<and> spans_from e ms)"

lemma spans_from_mono: "p \<le> q \<Longrightarrow> spans_from q ms \<Longrightarrow> spans_from p ms"
  by (cases ms) (auto split: prod.splits)

lemma finditer_spans_from: "spans_from p (finditer_from r s p)"
proof (induction r s p rule: finditer_from.induct)
  case (1 r s p)
  show ?case
  proof (cases "length s < p")
    case False
    show ?thesis
    proof (cases "ends r s p")
      case Nil
      with 1(1) [OF False Nil] show ?thesis
        by (subst finditer_from.simps) (simp add: False spans_from_mono [of p "Suc p"])
    next
      case (Cons e es)
      then have "p \<le> e" using ends_ge [of e r s p] by simp
      moreover have "spans_from e (finditer_from r s (max (Suc p) e))"
        using 1(2) [OF False Cons] by (rule spans_from_mono [rotated]) simp
      ultimately show ?thesis by (subst finditer_from.simps) (simp add: False Cons)
    qed
  qed (simp add: finditer_from.simps)
qed

lemma finditer_spans: "spans_from 0 (finditer r s)"
  by (simp add: finditer_def finditer_spans_from)

lemma spans_le: "spans_from p ms \<Longrightarrow> (b, e) \<in> set ms \<Longrightarrow> p \<le> b"
  by (induction ms arbitrary: p) force+

lemma spans_disjoint:
  "spans_from p ms \<Longrightarrow> (b, e) \<in> set ms \<Longrightarrow> (b', e') \<in> set ms \<Longrightarrow>
    (b, e) = (b', e') \<or> e \<le> b' \<or> e' \<le> b"
proof (induction p ms rule: spans_from.induct)
  case (2 p b0 e0 ms)
  then show ?case using spans_le [of e0 ms] by auto
qed simp

text \<open>
  A pattern \<open>[P]+\<close> finds exactly the maximal runs of \<open>P\<close>.
\<close>

definition maximal_run :: "(char \<Rightarrow> bool) \<Rightarrow> string \<Rightarrow> nat \<Rightarrow> nat \<Rightarrow> bool" where
  "maximal_run P s b e \<longleftrightarrow> b < e \<and> e \<le> length s \<and> (\<forall>i. b \<le> i \<and> i < e \<longrightarrow> P (s ! i)) \<and>
     \<not> before_is P s b \<and> \<not> after_is P s e"

lemma ends_plus1: "e \<in> set (ends (plus1 (Cls P)) s p) \<longleftrightarrow>
    p < e \<and> e \<le> length s \<and> (\<forall>i. p \<le> i \<and> i < e \<longrightarrow> P (s ! i))"
  unfolding plus1_def ends.simps(5) option.case rep_ends_Cls by auto

lemma ends_plus1_hd: "e \<in> set (ends (plus1 (Cls P)) s p) \<Longrightarrow> e \<le> hd (ends (plus1 (Cls P)) s p)"
  unfolding plus1_def ends.simps(5) option.case by (rule rep_ends_Cls_hd)

lemma plus1_progress: "[] \<noteq> ends (plus1 (Cls P)) s b \<Longrightarrow> b < hd (ends (plus1 (Cls P)) s b)"
  using ends_plus1 [of "hd (ends (plus1 (Cls P)) s b)" P s b] by (metis hd_in_set)

lemma finditer_plus1_span:
  assumes "(b, e) \<in> set (finditer (plus1 (Cls P)) s)"
  shows "b < e \<and> e \<le> length s \<and> (\<forall>i. b \<le> i \<and> i < e \<longrightarrow> P (s ! i)) \<and> \<not> after_is P s e"
proof -
  let ?r = "plus1 (Cls P)"
  from assms obtain es where es: "ends ?r s b = e # es" using finditer_sound by (fastforce simp: finditer_def)
  then have e: "b < e \<and> e \<le> length s \<and> (\<forall>i. b \<le> i \<and> i < e \<longrightarrow> P (s ! i))"
    using ends_plus1 [of e P s b] by simp
  have "\<not> after_is P s e"
  proof
    assume "after_is P s e"
    with e have "Suc e \<in> set (ends ?r s b)" by (auto simp: ends_plus1 after_is_def less_Suc_eq)
    with ends_plus1_hd [OF this] es show False by simp
  qed
  with e show ?thesis by blast
qed

lemma plus1_cover:
  assumes "b < length s" "P (s ! b)"
  shows "\<exists>b' e'. (b', e') \<in> set (finditer (plus1 (Cls P)) s) \<and> b' \<le> b \<and> b < e'"
proof -
  have "Suc b \<in> set (ends (plus1 (Cls P)) s b)" using assms by (auto simp: ends_plus1 less_Suc_eq)
  then have "ends (plus1 (Cls P)) s b \<noteq> []" by auto
  then show ?thesis using finditer_covers [of b s "plus1 (Cls P)"] plus1_progress assms(1) by (simp add: less_imp_le)
qed

lemma finditer_plus1: "(b, e) \<in> set (finditer (plus1 (Cls P)) s) \<longleftrightarrow> maximal_run P s b e"
proof
  assume m: "(b, e) \<in> set (finditer (plus1 (Cls P)) s)"
  note be = finditer_plus1_span [OF m]
  have "\<not> before_is P s b"
  proof
    assume p: "before_is P s b"
    then have "b - 1 < length s" "P (s ! (b - 1))" by (auto simp: before_is_def)
    then obtain b' e' where m': "(b', e') \<in> set (finditer (plus1 (Cls P)) s)" "b' \<le> b - 1" "b - 1 < e'"
      using plus1_cover by blast
    have "e' \<le> b" using spans_disjoint [OF finditer_spans m m'(1)] be m'(2) p by (auto simp: before_is_def)
    with m'(3) have "e' = b" by simp
    with finditer_plus1_span [OF m'(1)] be show False by (auto simp: after_is_def)
  qed
  with be show "maximal_run P s b e" by (simp add: maximal_run_def)
next
  assume r: "maximal_run P s b e"
  then have "b < length s" "P (s ! b)" by (auto simp: maximal_run_def)
  then obtain b' e' where m: "(b', e') \<in> set (finditer (plus1 (Cls P)) s)" "b' \<le> b" "b < e'"
    using plus1_cover by blast
  note be = finditer_plus1_span [OF m(1)]
  have "b' = b"
  proof (rule ccontr)
    assume "b' \<noteq> b"
    with m have "b' \<le> b - 1" "b - 1 < e'" "0 < b" by auto
    with be have "before_is P s b" by (auto simp: before_is_def)
    with r show False by (simp add: maximal_run_def)
  qed
  moreover have "e' = e"
    using r be m by (auto simp: maximal_run_def after_is_def) (metis leI less_le_trans nat_less_le order_refl)
  ultimately show "(b, e) \<in> set (finditer (plus1 (Cls P)) s)" using m by simp
qed

section \<open>Runs\<close>

lemma runs_Nil: "dropWhile (\<lambda>c. \<not> P c) s = [] \<Longrightarrow> runs P s = []"
  by (subst runs.simps) (simp only: list.case)

lemma runs_step: "dropWhile (\<lambda>c. \<not> P c) s = c # u \<Longrightarrow>
    runs P s = takeWhile P (c # u) # runs P (dropWhile P (c # u))"
  by (subst runs.simps) (simp del: takeWhile.simps dropWhile.simps)

lemma runs_in: "r \<in> set (runs P s) \<Longrightarrow> r \<noteq> [] \<and> list_all P r \<and> (\<exists>u v. s = u @ r @ v)"
proof (induction P s rule: runs.induct)
  case (1 P s)
  define t where "t = dropWhile (\<lambda>c. \<not> P c) s"
  show ?case
  proof (cases t)
    case Nil
    with 1(2) show ?thesis by (simp add: t_def runs_Nil)
  next
    case (Cons c u)
    then have c: "P c" by (metis hd_dropWhile list.distinct(1) list.sel(1) t_def)
    have s: "s = takeWhile (\<lambda>c. \<not> P c) s @ t" by (simp add: t_def)
    have t: "t = takeWhile P t @ dropWhile P t" by simp
    from 1(2) have "r = takeWhile P t \<or> r \<in> set (runs P (dropWhile P t))"
      unfolding runs_step [OF Cons [unfolded t_def]] Cons by (simp del: takeWhile.simps dropWhile.simps)
    then show ?thesis
    proof
      assume r: "r = takeWhile P t"
      with Cons c have "r \<noteq> []" by simp
      moreover have "list_all P r" using r by (auto simp: list_all_iff dest: set_takeWhileD)
      ultimately show ?thesis using s t r by metis
    next
      assume "r \<in> set (runs P (dropWhile P t))"
      with 1(1) Cons have "r \<noteq> [] \<and> list_all P r \<and> (\<exists>u v. dropWhile P t = u @ r @ v)"
        by (simp add: t_def)
      then show ?thesis using s t by (metis append.assoc)
    qed
  qed
qed

lemma concat_runs: "concat (runs P s) = filter P s"
proof (induction P s rule: runs.induct)
  case (1 P s)
  define t where "t = dropWhile (\<lambda>c. \<not> P c) s"
  have s: "filter P s = filter P t"
    by (metis (no_types, lifting) append_Nil filter_False filter_append set_takeWhileD takeWhile_dropWhile_id t_def)
  have t: "filter P t = takeWhile P t @ filter P (dropWhile P t)"
    by (metis (no_types, lifting) filter_True filter_append set_takeWhileD takeWhile_dropWhile_id)
  show ?case
  proof (cases t)
    case Nil
    then show ?thesis using s by (simp add: t_def [symmetric] runs_Nil)
  next
    case (Cons c u)
    with 1 have "concat (runs P (dropWhile P t)) = filter P (dropWhile P t)" by (simp add: t_def)
    then show ?thesis unfolding runs_step [OF Cons [unfolded t_def]] using s t Cons by simp
  qed
qed

text \<open>Splitting around a gap.\<close>

lemma runs_all: "s \<noteq> [] \<Longrightarrow> list_all P s \<Longrightarrow> runs P s = [s]"
proof -
  assume s: "s \<noteq> []" "list_all P s"
  then obtain c u where cu: "s = c # u" "P c" by (cases s) auto
  then have d: "dropWhile (\<lambda>c. \<not> P c) s = c # u" by simp
  have "takeWhile P s = s" "dropWhile P s = []" using s by (simp_all add: list_all_iff)
  moreover have "runs P [] = []" by (rule runs_Nil) simp
  ultimately show ?thesis unfolding runs_step [OF d] cu(1) [symmetric] by (simp only:)
qed

lemma runs_append_gap: "g \<noteq> [] \<Longrightarrow> list_all (\<lambda>c. \<not> P c) g \<Longrightarrow> runs P (u @ g @ t) = runs P u @ runs P t"
proof (induction P u rule: runs.induct)
  case (1 P u)
  have gap: "runs P (v @ t) = runs P t" if "list_all (\<lambda>c. \<not> P c) v" for v
    by (subst (1 2) runs.simps) (use that in \<open>simp add: list_all_iff dropWhile_append\<close>)
  show ?case
  proof (cases "dropWhile (\<lambda>c. \<not> P c) u")
    case Nil
    then have "list_all (\<lambda>c. \<not> P c) (u @ g)" using 1(3) by (auto simp: list_all_iff)
    with gap [of "u @ g"] show ?thesis by (simp add: runs_Nil [OF Nil])
  next
    case (Cons c v)
    have d: "dropWhile (\<lambda>c. \<not> P c) (u @ g @ t) = c # v @ g @ t"
      using Cons by (metis append_Cons dropWhile_append3 dropWhile_eq_Nil_conv list.distinct(1) dropWhile_append1)
    obtain g0 g' where g: "g = g0 # g'" "\<not> P g0" using 1(2,3) by (cases g) auto
    have tk: "takeWhile P (w @ g @ t) = takeWhile P w" "dropWhile P (w @ g @ t) = dropWhile P w @ g @ t" for w
      by (induction w) (use g in auto)
    have "runs P (dropWhile P (c # v) @ g @ t) = runs P (dropWhile P (c # v)) @ runs P t"
      by (rule 1(1) [OF Cons 1(2,3)])
    then show ?thesis
      unfolding runs_step [OF d] runs_step [OF Cons] using tk [of "c # v"] by (simp del: takeWhile.simps dropWhile.simps)
  qed
qed

section \<open>Counted repetition\<close>

lemma ends_opt: "ends (opt r) s p = ends r s p @ [p]"
proof -
  have "rep_ends (ends r s) 0 0 = (\<lambda>x. [x])" by (rule ext) simp
  moreover have "concat (map (\<lambda>x. [x]) xs) = xs" for xs :: "nat list" by (induction xs) auto
  ultimately show ?thesis by (simp add: opt_def)
qed

lemma ends_times_0: "ends (times_rx 0 r) s p = [p]"
  by (simp add: times_rx_def)

lemma ends_times_Suc: "ends (times_rx (Suc n) r) s p = concat (map (ends (times_rx n r) s) (ends r s p))"
proof -
  have "ends (times_rx n r) s = rep_ends (ends r s) n n" by (rule ext) (simp add: times_rx_def)
  then show ?thesis by (simp add: times_rx_def)
qed

lemma ends_times_Cls: "ends (times_rx n (Cls P)) s p =
    (if n = 0 \<or> p + n \<le> length s \<and> list_all P (slice s p (p + n)) then [p + n] else [])"
proof (induction n arbitrary: p)
  case (Suc n)
  have z: "n = 0 \<longrightarrow> list_all P (slice s (Suc p) (Suc p + n))" by (simp add: slice_def)
  show ?case using slice_Suc [of p s n] z by (auto simp: ends_times_Suc Suc)
qed (simp add: ends_times_0)

lemma ends_seqs_Cons: "rs \<noteq> [] \<Longrightarrow> ends (seqs (r # rs)) s p = concat (map (ends (seqs rs) s) (ends r s p))"
  by (cases rs) auto

lemma ends_alts_Cons: "rs \<noteq> [] \<Longrightarrow> ends (alts (r # rs)) s p = ends r s p @ ends (alts rs) s p"
  by (cases rs) auto

lemma slice_length: "e \<le> length s \<Longrightarrow> length (slice s b e) = e - b"
  by (simp add: slice_def)

lemma slice_nth: "i < e - b \<Longrightarrow> e \<le> length s \<Longrightarrow> slice s b e ! i = s ! (b + i)"
  by (simp add: slice_def)

lemma slice_empty [simp]: "slice s b b = []"
  by (simp add: slice_def)

lemma slice_split: "a \<le> b \<Longrightarrow> b \<le> c \<Longrightarrow> slice s a c = slice s a b @ slice s b c"
proof -
  assume "a \<le> b" "b \<le> c"
  then have "c - a = (b - a) + (c - b)" by simp
  then have "take (c - a) (drop a s) = take (b - a) (drop a s) @ take (c - b) (drop (b - a) (drop a s))"
    by (metis take_add)
  then show ?thesis using \<open>a \<le> b\<close> by (simp add: slice_def)
qed

lemma slice_append:
  assumes "slice s b e = u @ v" "b \<le> e" "e \<le> length s"
  shows "slice s b (b + length u) = u" "slice s (b + length u) e = v" "b + length u \<le> e"
proof -
  have "e - b = length u + length v" using slice_length [OF assms(3), of b] assms(1) by simp
  then show le: "b + length u \<le> e" using assms(2) by simp
  have "u @ v = slice s b (b + length u) @ slice s (b + length u) e"
    using slice_split [of b "b + length u" e s] le assms(1) by simp
  moreover have "length (slice s b (b + length u)) = length u" using le assms(3) by (simp add: slice_length)
  ultimately show "slice s b (b + length u) = u" "slice s (b + length u) e = v" by simp_all
qed

end
