(* ===== verification/Refang.thy ===== *)
theory Refang
  imports Regex
begin

text \<open>
  The refanging of report text (pipeline/stage2_extraction.py): \<open>_DEFANG_PATTERN\<close> and its
  replacement, the half-bracketed dot, \<open>refang\<close>, and \<open>refang_with_offsets\<close>, which carries for
  each character of the result the offset in the report it came from.
\<close>

section \<open>Patterns\<close>

text \<open>\<open>[_WS]{1,16}\[.\][_WS]+\<close>, and the same with parentheses.\<close>

definition spaced_dot :: "string \<Rightarrow> rx" where
  "spaced_dot dot = seqs [Rep (Cls is_space) 1 (Some 16), lit dot, plus1 (Cls is_space)]"

definition DEFANG_PATTERN :: rx where
  "DEFANG_PATTERN = alts [
     seqs [ilit ''hxxp'', opt (ilit ''s''), alts [lit ''://'', lit ''[:]//'', lit ''[://]'', lit ''[.]//'']],
     seqs [ilit ''h[tt]p'', opt (ilit ''s''), alts [lit ''://'', lit ''[:]//'']],
     seqs [ilit ''http'', opt (ilit ''s''), ilit ''[s]://''],
     seqs [ilit ''http'', opt (ilit ''s''), lit ''[:]://''],
     ilit ''meow://'',
     seqs [ilit ''fx'', opt (ilit ''x''), ilit ''p'', opt (ilit ''s''), lit ''://''],
     spaced_dot ''[.]'', spaced_dot ''(.)'',
     lit ''[.]'', lit ''(.)'', lit ''{.}'', ilit ''[dot]'', ilit ''(dot)'',
     lit ''[:]'', lit ''(:)'',
     lit ''[//]'', lit ''[/]'',
     lit ''[@]'', lit ''(@)'', lit ''{@}'', ilit ''[at]'', ilit ''(at)'']"

definition HALF_BRACKET_DOT :: rx where
  "HALF_BRACKET_DOT = alts [lit ''.]'', lit ''[.'']"

section \<open>Replacements\<close>

text \<open>\<open>sub in s\<close> and \<open>s.endswith(p)\<close>.\<close>

definition has_sub :: "string \<Rightarrow> string \<Rightarrow> bool" where
  "has_sub s sub \<longleftrightarrow> find_from sub s 0 \<noteq> None"

definition ends_with :: "string \<Rightarrow> string \<Rightarrow> bool" where
  "ends_with s p \<longleftrightarrow> starts_with (rev s) (rev p)"

definition half_bracket_repl :: "string \<Rightarrow> nat \<Rightarrow> nat \<Rightarrow> string" where
  "half_bracket_repl s b e =
    (if 0 < b \<and> e < length s \<and> is_ascii_alnum (s ! (b - 1)) \<and> is_ascii_alnum (s ! e) then ''.''
     else slice s b e)"

definition AT_SPELLINGS :: "string list" where
  "AT_SPELLINGS = [''@'', ''[@]'', ''(@)'', ''{@}'', ''[at]'', ''(at)'']"

definition beside_at :: "string \<Rightarrow> nat \<Rightarrow> nat \<Rightarrow> bool" where
  "beside_at s b e =
    (let pre = lower (slice s (b - 4) b); post = lower (slice s e (e + 4)) in
     list_ex (ends_with pre) AT_SPELLINGS \<or> list_ex (starts_with post) AT_SPELLINGS)"

definition defang_repl :: "string \<Rightarrow> nat \<Rightarrow> nat \<Rightarrow> string" where
  "defang_repl s b e =
    (let m = lower (slice s b e) in
     if starts_with m ''meow'' then ''http://''
     else if starts_with m ''h'' \<or> starts_with m ''f'' then
       (if starts_with m ''f'' then ''ftp://''
        else if has_sub m ''s'' \<and> m \<noteq> ''http[:]//'' \<and> m \<noteq> ''hxxp://'' \<and> m \<noteq> ''h[tt]p://'' then ''https://''
        else ''http://'')
     else if has_sub m ''at'' \<or> has_sub m ''@'' then ''@''
     else if has_sub m ''dot'' \<or> has_sub m ''.'' \<or> has_sub m ''{'' then
       (if beside_at s b e then '''' else ''.'')
     else if has_sub m ''//'' then ''//''
     else if has_sub m ''/'' then ''/''
     else if has_sub m '':'' then '':''
     else m)"

definition refang :: "string \<Rightarrow> string" where
  "refang s = (if s = [] then s else rx_sub HALF_BRACKET_DOT half_bracket_repl (rx_sub DEFANG_PATTERN defang_repl s))"

section \<open>Offsets\<close>

text \<open>The loop of \<open>_sub_with_offsets\<close>, with the two output lists and the position.\<close>

fun offsets_loop :: "(string \<Rightarrow> nat \<Rightarrow> nat \<Rightarrow> string) \<Rightarrow> string \<Rightarrow> nat list \<Rightarrow> (nat \<times> nat) list \<Rightarrow>
    string \<Rightarrow> nat list \<Rightarrow> nat \<Rightarrow> string \<times> nat list" where
  "offsets_loop repl s offs [] outs out_offs pos = (outs @ drop pos s, out_offs @ drop pos offs)"
| "offsets_loop repl s offs ((b, e) # ms) outs out_offs pos =
     (let r = repl s b e in
      offsets_loop repl s offs ms (outs @ slice s pos b @ r)
        (out_offs @ take (b - pos) (drop pos offs) @ replicate (length r) (offs ! b)) e)"

definition sub_with_offsets :: "rx \<Rightarrow> (string \<Rightarrow> nat \<Rightarrow> nat \<Rightarrow> string) \<Rightarrow> string \<Rightarrow> nat list \<Rightarrow> string \<times> nat list" where
  "sub_with_offsets r repl s offs = offsets_loop repl s offs (finditer r s) [] [] 0"

definition refang_with_offsets :: "string \<Rightarrow> string \<times> nat list" where
  "refang_with_offsets s =
    (if s = [] then (s, [])
     else case sub_with_offsets DEFANG_PATTERN defang_repl s [0..<length s] of
       (once, offs) \<Rightarrow> sub_with_offsets HALF_BRACKET_DOT half_bracket_repl once offs)"

section \<open>What the offsets are\<close>

text \<open>Every pattern here consumes something: its matches are not empty.\<close>

lemma finditer_nonempty: "0 < min_len r \<Longrightarrow> (b, e) \<in> set (finditer r s) \<Longrightarrow> b < e \<and> e \<le> length s"
  using finditer_match [of b e r s] finditer_bounds(2) [of b e r s] ends_min_len [of e r s b] by simp

lemma min_len_DEFANG: "0 < min_len DEFANG_PATTERN"
  by code_simp

lemma min_len_HALF: "0 < min_len HALF_BRACKET_DOT"
  by code_simp

lemma offsets_loop_fst: "fst (offsets_loop repl s offs ms outs oo pos) = outs @ sub_spans repl s pos ms"
  by (induction repl s offs ms outs oo pos rule: offsets_loop.induct) (simp_all add: Let_def)

lemma sub_with_offsets_fst: "fst (sub_with_offsets r repl s offs) = rx_sub r repl s"
  by (simp add: sub_with_offsets_def rx_sub_def offsets_loop_fst)

text \<open>
  A relation between characters and offsets that holds of the input, and of every replacement at
  the offset of its match, holds of the output.
\<close>

lemma list_all2_slice: "list_all2 R s offs \<Longrightarrow> list_all2 R (slice s b e) (take (e - b) (drop b offs))"
  by (simp add: slice_def list_all2_dropI list_all2_takeI)

lemma list_all2_replicate_offs: "(\<And>c. c \<in> set w \<Longrightarrow> R c k) \<Longrightarrow> list_all2 R w (replicate (length w) k)"
  by (induction w) auto

lemma offsets_loop_related:
  assumes "list_all2 R s offs"
    and "\<And>b e c. (b, e) \<in> set ms \<Longrightarrow> c \<in> set (repl s b e) \<Longrightarrow> R c (offs ! b)"
    and "list_all2 R outs oo"
  shows "list_all2 R (fst (offsets_loop repl s offs ms outs oo pos)) (snd (offsets_loop repl s offs ms outs oo pos))"
  using assms
proof (induction repl s offs ms outs oo pos rule: offsets_loop.induct)
  case (1 repl s offs outs oo pos)
  then show ?case by (simp add: list_all2_appendI list_all2_dropI)
next
  case (2 repl s offs b e ms outs oo pos)
  let ?r = "repl s b e"
  have "list_all2 R ?r (replicate (length ?r) (offs ! b))"
    by (rule list_all2_replicate_offs) (rule 2(3) [of b e], simp_all)
  then have "list_all2 R (outs @ slice s pos b @ ?r)
      (oo @ take (b - pos) (drop pos offs) @ replicate (length ?r) (offs ! b))"
    by (intro list_all2_appendI list_all2_slice 2)
  moreover have "R c (offs ! b')" if "(b', e') \<in> set ms" "c \<in> set (repl s b' e')" for b' e' c
    using that by (intro 2(3) [of b' e']) simp_all
  ultimately show ?case using 2(1) [OF refl 2(2)] by (simp add: Let_def)
qed

lemma sub_with_offsets_related:
  assumes "list_all2 R s offs"
    and "\<And>b e c. (b, e) \<in> set (finditer r s) \<Longrightarrow> c \<in> set (repl s b e) \<Longrightarrow> R c (offs ! b)"
  shows "list_all2 R (fst (sub_with_offsets r repl s offs)) (snd (sub_with_offsets r repl s offs))"
  unfolding sub_with_offsets_def by (rule offsets_loop_related [OF assms]) auto

text \<open>Offsets in order stay in order.\<close>

lemma offsets_loop_sorted:
  assumes "sorted offs" "spans_from pos ms" "\<forall>(b, e) \<in> set ms. b < length offs"
    and "sorted oo" "\<forall>x \<in> set oo. \<forall>j. pos \<le> j \<and> j < length offs \<longrightarrow> x \<le> offs ! j"
  shows "sorted (snd (offsets_loop repl s offs ms outs oo pos))"
  using assms
proof (induction repl s offs ms outs oo pos rule: offsets_loop.induct)
  case (1 repl s offs outs oo pos)
  have "x \<le> y" if x: "x \<in> set oo" and y: "y \<in> set (drop pos offs)" for x y
  proof -
    from y obtain k where "y = offs ! (pos + k)" "pos + k < length offs" by (auto simp: in_set_conv_nth)
    with 1(5) x show ?thesis by simp
  qed
  with 1(1,4) show ?case by (simp add: sorted_append sorted_wrt_drop)
next
  case (2 repl s offs b e ms outs oo pos)
  define mid where "mid = take (b - pos) (drop pos offs)"
  define rep where "rep = replicate (length (repl s b e)) (offs ! b)"
  from 2(3,4) have be: "pos \<le> b" "b \<le> e" "b < length offs" "spans_from e ms" by auto
  have nth: "offs ! i \<le> offs ! j" if "i \<le> j" "j < length offs" for i j
    using 2(2) that by (simp add: sorted_iff_nth_mono)
  have mid_in: "\<exists>i. pos \<le> i \<and> i < b \<and> x = offs ! i" if x: "x \<in> set mid" for x
  proof -
    from x obtain k where "k < length mid" "x = mid ! k" by (auto simp: in_set_conv_nth)
    then have "pos + k < b" "x = offs ! (pos + k)" using be by (auto simp: mid_def)
    then show ?thesis by (metis le_add1)
  qed
  have smid: "sorted mid" using 2(2) by (simp add: mid_def sorted_wrt_take sorted_wrt_drop)
  have "sorted (oo @ mid @ rep)"
    unfolding sorted_append using 2(5,6) smid be mid_in nth
    by (auto simp: rep_def) (metis le_less_trans less_or_eq_imp_le)+
  moreover have "x \<le> offs ! j" if "x \<in> set (oo @ mid @ rep)" "e \<le> j" "j < length offs" for x j
    using that 2(6) be mid_in nth by (auto simp: rep_def) (metis le_less_trans less_or_eq_imp_le order.trans)+
  ultimately show ?case
    using 2(1) [OF refl 2(2) be(4)] 2(4) by (simp add: Let_def mid_def rep_def)
qed

lemma sub_with_offsets_sorted:
  assumes "sorted offs" "length offs = length s" "0 < min_len r"
  shows "sorted (snd (sub_with_offsets r repl s offs))"
proof -
  have "b < length offs" if "(b, e) \<in> set (finditer r s)" for b e
    using finditer_nonempty [OF assms(3) that] assms(2) by simp
  then show ?thesis unfolding sub_with_offsets_def
    by (intro offsets_loop_sorted finditer_spans assms) auto
qed

lemma half_bracket_chars:
  assumes "(b, e) \<in> set (finditer HALF_BRACKET_DOT s)" "c \<in> set (half_bracket_repl s b e)"
  shows "c \<in> set ''[.]''"
proof -
  have "e \<in> set (ends HALF_BRACKET_DOT s b)" by (rule finditer_match [OF assms(1)])
  then have "slice s b e = ''.]'' \<or> slice s b e = ''[.''"
    by (auto simp: HALF_BRACKET_DOT_def ends_lit split: if_splits)
  with assms(2) show ?thesis by (auto simp: half_bracket_repl_def split: if_splits)
qed


end
