(* ===== verification/Hashes.thy ===== *)
theory Hashes
  imports Refang Schemas
begin

text \<open>
  File hashes in report text (pipeline/stage2_extraction.py): the blocks of hex fragments
  \<open>_hash_blocks\<close>, the algorithm label before a block \<open>_labelled_hash_len\<close>, and
  \<open>_extract_hashes_regex\<close>, which reads a block as one wrapped hash or as stacked hashes.
\<close>

section \<open>Entities of the regex stage\<close>

text \<open>\<open>RawEntity(value=v, entity_type=t)\<close> with the defaults of the other fields.\<close>

definition ioc_entity :: "string \<Rightarrow> entity_type \<Rightarrow> raw_entity" where
  "ioc_entity v t = \<lparr>ent_value = v, ent_type = t, ent_context = '''', ent_confidence = 1,
     ent_mitre_id = None, ent_source = ''ioc'', ent_evidence_text = None,
     ent_evidence_label = None, ent_evidence_start = None\<rparr>"

lemma ioc_entity_simps [simp]:
  "ent_value (ioc_entity v t) = v" "ent_type (ioc_entity v t) = t" "ent_mitre_id (ioc_entity v t) = None"
  by (simp_all add: ioc_entity_def)

section \<open>Blocks\<close>

definition ALNUM_RUN_PATTERN :: rx where
  "ALNUM_RUN_PATTERN = plus1 (Cls is_ascii_alnum)"

text \<open>\<open>s.isspace()\<close>.\<close>

definition all_space :: "string \<Rightarrow> bool" where
  "all_space s \<longleftrightarrow> s \<noteq> [] \<and> list_all is_space s"

definition hex_token :: "string \<Rightarrow> nat \<Rightarrow> nat \<Rightarrow> bool" where
  "hex_token s b e \<longleftrightarrow> 2 \<le> e - b \<and> list_all is_hex (slice s b e)"

text \<open>The generator's loop; the open block is \<open>Some (start, end)\<close>.\<close>

fun blocks_loop :: "string \<Rightarrow> (nat \<times> nat) option \<Rightarrow> (nat \<times> nat) list \<Rightarrow> (nat \<times> string) list" where
  "blocks_loop s None [] = []"
| "blocks_loop s (Some (start, stop)) [] = [(start, slice s start stop)]"
| "blocks_loop s None ((b, e) # ms) =
     (if hex_token s b e then blocks_loop s (Some (b, e)) ms else blocks_loop s None ms)"
| "blocks_loop s (Some (start, stop)) ((b, e) # ms) =
     (if hex_token s b e then
        (if all_space (slice s stop b) then blocks_loop s (Some (start, e)) ms
         else (start, slice s start stop) # blocks_loop s (Some (b, e)) ms)
      else (start, slice s start stop) # blocks_loop s None ms)"

definition hash_blocks :: "string \<Rightarrow> (nat \<times> string) list" where
  "hash_blocks s = blocks_loop s None (finditer ALNUM_RUN_PATTERN s)"

section \<open>Labels\<close>

definition HASH_TYPE_BY_LEN :: "nat \<Rightarrow> entity_type option" where
  "HASH_TYPE_BY_LEN n = (if n = 64 then Some SHA256 else if n = 40 then Some SHA1 else if n = 32 then Some MD5 else None)"

definition label_sep :: rx where
  "label_sep = star (Cls (\<lambda>c. is_space c \<or> c \<in> set ''-_''))"

definition HASH_LABEL_PATTERNS :: "(nat \<times> rx \<times> bool) list" where
  "HASH_LABEL_PATTERNS =
    [(64, seqs [ilit ''sha'', label_sep, lit ''256''], False),
     (40, seqs [ilit ''sha'', label_sep, lit ''1''], True),
     (32, seqs [ilit ''md'', label_sep, lit ''5''], True)]"

definition HASH_LABEL_WINDOW :: nat where
  "HASH_LABEL_WINDOW = 200"

definition last_label :: "string \<Rightarrow> rx \<Rightarrow> bool \<Rightarrow> nat option" where
  "last_label window pattern no_digit_after =
    fold (\<lambda>(b, e) found. if no_digit_after \<and> after_is is_digit window e then found else Some b)
      (finditer pattern window) None"

definition labelled_hash_len :: "string \<Rightarrow> nat \<Rightarrow> nat option" where
  "labelled_hash_len s block_start =
    (let window = slice s (block_start - HASH_LABEL_WINDOW) block_start in
     snd (fold (\<lambda>(hash_len, pattern, no_digit_after) (best_pos, best_len).
         case last_label window pattern no_digit_after of
           None \<Rightarrow> (best_pos, best_len)
         | Some p \<Rightarrow> if best_pos < int p then (int p, Some hash_len) else (best_pos, best_len))
       HASH_LABEL_PATTERNS (- 1, None)))"

section \<open>Hashes\<close>

text \<open>\<open>emit(v)\<close>, on the pair of \<open>seen_values\<close> and \<open>results\<close>.\<close>

definition emit_hash :: "string \<Rightarrow> string set \<times> raw_entity list \<Rightarrow> string set \<times> raw_entity list" where
  "emit_hash v0 st =
    (let v = lower v0 in
     if v \<in> fst st then st
     else case HASH_TYPE_BY_LEN (length v) of
       None \<Rightarrow> st
     | Some et \<Rightarrow> (insert v (fst st), snd st @ [ioc_entity v et]))"

definition is_hash_len :: "nat \<Rightarrow> bool" where
  "is_hash_len n \<longleftrightarrow> HASH_TYPE_BY_LEN n \<noteq> None"

text \<open>The strings the loop body emits for one block.\<close>

definition block_readings :: "string \<Rightarrow> nat \<times> string \<Rightarrow> string list" where
  "block_readings s blk = (case blk of (block_start, block) \<Rightarrow>
    let fragments = split_ws block in
    if length fragments = 1 then [block]
    else
      let joined = concat fragments;
          complete = filter (\<lambda>f. is_hash_len (length f)) fragments;
          join_is_hash = is_hash_len (length joined);
          label_len = labelled_hash_len s block_start in
      if length complete = length fragments then
        (if join_is_hash \<and> label_len = Some (length joined) then [joined] else fragments)
      else if join_is_hash \<and>
        \<not> (label_len \<noteq> None \<and> label_len \<noteq> Some (length joined) \<and> list_ex (\<lambda>f. Some (length f) = label_len) complete)
      then [joined]
      else complete)"

definition extract_hashes_regex :: "string \<Rightarrow> raw_entity list" where
  "extract_hashes_regex s =
    snd (fold (\<lambda>blk st. fold emit_hash (block_readings s blk) st) (hash_blocks s) ({}, []))"

section \<open>What a block is\<close>

text \<open>
  A hex run is a maximal run of alphanumerics, all of them hex, of two characters or more;
  a chain is a list of hex runs separated by white space only.
\<close>

definition hex_run :: "string \<Rightarrow> nat \<times> nat \<Rightarrow> bool" where
  "hex_run s m \<longleftrightarrow> (case m of (b, e) \<Rightarrow> maximal_run is_ascii_alnum s b e \<and> hex_token s b e)"

fun chain :: "string \<Rightarrow> (nat \<times> nat) list \<Rightarrow> bool" where
  "chain s [] = True"
| "chain s [m] = hex_run s m"
| "chain s (m # n # ms) = (hex_run s m \<and> snd m \<le> fst n \<and> all_space (slice s (snd m) (fst n)) \<and> chain s (n # ms))"

definition words :: "string \<Rightarrow> (nat \<times> nat) list \<Rightarrow> string list" where
  "words s ms = map (\<lambda>(b, e). slice s b e) ms"

lemma chain_runs: "chain s ms \<Longrightarrow> m \<in> set ms \<Longrightarrow> hex_run s m"
  by (induction s ms rule: chain.induct) auto

lemma chain_snoc: "ms \<noteq> [] \<Longrightarrow> chain s (ms @ [n]) \<longleftrightarrow>
    chain s ms \<and> hex_run s n \<and> snd (last ms) \<le> fst n \<and> all_space (slice s (snd (last ms)) (fst n))"
  by (induction s ms rule: chain.induct) auto

lemma hex_not_space: "is_hex c \<Longrightarrow> \<not> is_space c"
  by (auto simp: is_hex_def is_digit_def is_space_def Let_def)

lemma hex_run_word: "hex_run s (b, e) \<Longrightarrow> b < e \<and> e \<le> length s \<and> slice s b e \<noteq> [] \<and>
    length (slice s b e) = e - b \<and> list_all (\<lambda>c. \<not> is_space c) (slice s b e)"
  by (auto simp: hex_run_def maximal_run_def hex_token_def slice_def list_all_iff hex_not_space)

text \<open>A block's text splits into the words of its chain.\<close>

lemma chain_bounds: "ms \<noteq> [] \<Longrightarrow> chain s ms \<Longrightarrow> fst (hd ms) < snd (last ms)"
proof (induction ms rule: rev_nonempty_induct)
  case (single m)
  then show ?case using hex_run_word [of s "fst m" "snd m"] by simp
next
  case (snoc n ms)
  then have "fst (hd ms) < snd (last ms)" "snd (last ms) \<le> fst n" "hex_run s n" by (simp_all add: chain_snoc)
  moreover from this(3) have "fst n < snd n" using hex_run_word [of s "fst n" "snd n"] by simp
  ultimately show ?case using snoc(1) by simp
qed

lemma chain_words: "ms \<noteq> [] \<Longrightarrow> chain s ms \<Longrightarrow>
    split_ws (slice s (fst (hd ms)) (snd (last ms))) = words s ms"
proof (induction ms rule: rev_nonempty_induct)
  case (single m)
  then have "hex_run s (fst m, snd m)" by simp
  from hex_run_word [OF this] show ?case
    by (cases m) (simp add: split_ws_def words_def runs_all)
next
  case (snoc n ms)
  from snoc(1,3) have c: "chain s ms" "hex_run s n" "snd (last ms) \<le> fst n"
    "all_space (slice s (snd (last ms)) (fst n))" by (simp_all add: chain_snoc)
  have n: "fst n < snd n" "split_ws (slice s (fst n) (snd n)) = [slice s (fst n) (snd n)]"
    using hex_run_word [of s "fst n" "snd n"] c(2) by (simp_all add: split_ws_def runs_all)
  have "slice s (fst (hd ms)) (snd n) =
      slice s (fst (hd ms)) (snd (last ms)) @ slice s (snd (last ms)) (fst n) @ slice s (fst n) (snd n)"
    using chain_bounds [OF snoc(1) c(1)] c(3) n(1) by (simp add: slice_split [symmetric])
  then have "split_ws (slice s (fst (hd ms)) (snd n)) =
      split_ws (slice s (fst (hd ms)) (snd (last ms))) @ split_ws (slice s (fst n) (snd n))"
    using c(4) by (simp add: split_ws_def runs_append_gap all_space_def)
  also have "\<dots> = words s ms @ [slice s (fst n) (snd n)]" using snoc(2) [OF c(1)] n(2) by simp
  finally show ?case using snoc(1) by (simp add: words_def split_beta)
qed

text \<open>Each block is the text of a chain, and every hex run is in the chain of some block.\<close>

definition is_block :: "string \<Rightarrow> nat \<times> string \<Rightarrow> (nat \<times> nat) list \<Rightarrow> bool" where
  "is_block s blk ms \<longleftrightarrow> ms \<noteq> [] \<and> chain s ms \<and> blk = (fst (hd ms), slice s (fst (hd ms)) (snd (last ms)))"

definition open_chain :: "string \<Rightarrow> (nat \<times> nat) option \<Rightarrow> (nat \<times> nat) list \<Rightarrow> bool" where
  "open_chain s st os \<longleftrightarrow> (case st of None \<Rightarrow> os = []
    | Some (a, z) \<Rightarrow> os \<noteq> [] \<and> chain s os \<and> a = fst (hd os) \<and> z = snd (last os))"

lemma blocks_loop_chains:
  assumes "open_chain s st os" "spans_from (case st of None \<Rightarrow> 0 | Some (a, z) \<Rightarrow> z) ms"
    and "\<forall>(b, e) \<in> set ms. maximal_run is_ascii_alnum s b e"
  shows "(\<forall>blk \<in> set (blocks_loop s st ms). \<exists>cs. is_block s blk cs) \<and>
    (\<forall>m. m \<in> set os \<or> m \<in> set ms \<and> hex_run s m \<longrightarrow>
      (\<exists>blk \<in> set (blocks_loop s st ms). \<exists>cs. is_block s blk cs \<and> m \<in> set cs))"
  using assms
proof (induction s st ms arbitrary: os rule: blocks_loop.induct)
  case (1 s)
  then show ?case by (simp add: open_chain_def)
next
  case (2 s a z)
  then have "is_block s (a, slice s a z) os" by (simp add: open_chain_def is_block_def)
  then show ?case by auto
next
  case (3 s b e ms)
  show ?case
  proof (cases "hex_token s b e")
    case True
    with 3(5) have "open_chain s (Some (b, e)) [(b, e)]" by (simp add: open_chain_def hex_run_def)
    from 3(1) [OF True this] 3(3-5) True show ?thesis by (auto simp: open_chain_def)
  next
    case False
    then have "\<not> hex_run s (b, e)" by (simp add: hex_run_def)
    moreover have "spans_from 0 ms" using 3(4) spans_from_mono [of 0 e ms] by simp
    ultimately show ?thesis using 3(2) [OF False, of os] 3(3-5) False by auto
  qed
next
  case (4 s a z b e ms)
  from 4(4) have os: "os \<noteq> []" "chain s os" "a = fst (hd os)" "z = snd (last os)" by (simp_all add: open_chain_def)
  then have blk: "is_block s (a, slice s a z) os" by (simp add: is_block_def)
  from 4(5) have zb: "z \<le> b" "spans_from e ms" by auto
  show ?case
  proof (cases "hex_token s b e")
    case True
    with 4(6) have run: "hex_run s (b, e)" by (simp add: hex_run_def)
    show ?thesis
    proof (cases "all_space (slice s z b)")
      case sp: True
      have "open_chain s (Some (a, e)) (os @ [(b, e)])"
        using os run zb sp by (simp add: open_chain_def chain_snoc)
      from 4(1) [OF True sp this] zb(2) 4(6) True sp show ?thesis by auto
    next
      case sp: False
      have "open_chain s (Some (b, e)) [(b, e)]" using run by (simp add: open_chain_def)
      from 4(2) [OF True sp this] zb(2) 4(6) True sp blk show ?thesis by auto
    qed
  next
    case False
    then have "\<not> hex_run s (b, e)" by (simp add: hex_run_def)
    moreover have "spans_from 0 ms" using zb(2) spans_from_mono [of 0 e ms] by simp
    ultimately show ?thesis using 4(3) [OF False, of "[]"] 4(6) False blk by (auto simp: open_chain_def)
  qed
qed

lemma hash_blocks_chains:
  shows "blk \<in> set (hash_blocks s) \<Longrightarrow> \<exists>cs. is_block s blk cs"
    and "hex_run s m \<Longrightarrow> \<exists>blk \<in> set (hash_blocks s). \<exists>cs. is_block s blk cs \<and> m \<in> set cs"
proof -
  let ?ms = "finditer ALNUM_RUN_PATTERN s"
  have mr: "(b, e) \<in> set ?ms \<longleftrightarrow> maximal_run is_ascii_alnum s b e" for b e
    by (simp add: ALNUM_RUN_PATTERN_def finditer_plus1)
  have all: "(\<forall>blk \<in> set (hash_blocks s). \<exists>cs. is_block s blk cs) \<and>
    (\<forall>m. m \<in> set [] \<or> m \<in> set ?ms \<and> hex_run s m \<longrightarrow>
      (\<exists>blk \<in> set (hash_blocks s). \<exists>cs. is_block s blk cs \<and> m \<in> set cs))"
    unfolding hash_blocks_def
    by (rule blocks_loop_chains) (auto simp: open_chain_def mr finditer_spans)
  then show "blk \<in> set (hash_blocks s) \<Longrightarrow> \<exists>cs. is_block s blk cs" by blast
  assume "hex_run s m"
  moreover from this have "m \<in> set ?ms" using mr [of "fst m" "snd m"] by (cases m) (simp add: hex_run_def)
  ultimately show "\<exists>blk \<in> set (hash_blocks s). \<exists>cs. is_block s blk cs \<and> m \<in> set cs" using all by blast
qed

section \<open>What is extracted\<close>

lemma HASH_TYPE_BY_LEN_lower: "HASH_TYPE_BY_LEN (length (lower v)) = HASH_TYPE_BY_LEN (length v)"
  by (simp add: lower_def)

lemma extract_hashes_emits:
  "extract_hashes_regex s = snd (fold emit_hash (concat (map (block_readings s) (hash_blocks s))) ({}, []))"
proof -
  have "fold (\<lambda>blk st. fold emit_hash (block_readings s blk) st) bs st =
      fold emit_hash (concat (map (block_readings s) bs)) st" for bs st
    by (induction bs arbitrary: st) auto
  then show ?thesis by (simp add: extract_hashes_regex_def)
qed

definition emitted :: "string set \<times> raw_entity list \<Rightarrow> bool" where
  "emitted st \<longleftrightarrow> fst st = ent_value ` set (snd st) \<and> distinct (map ent_value (snd st))"

lemma emit_hash_step:
  assumes "emitted st"
  shows "emitted (emit_hash v st)"
    and "set (snd (emit_hash v st)) \<subseteq> set (snd st) \<union> {ioc_entity (lower v) et | et. HASH_TYPE_BY_LEN (length v) = Some et}"
    and "set (snd st) \<subseteq> set (snd (emit_hash v st))"
    and "is_hash_len (length v) \<Longrightarrow> lower v \<in> ent_value ` set (snd (emit_hash v st))"
  using assms by (auto simp: emit_hash_def Let_def emitted_def is_hash_len_def HASH_TYPE_BY_LEN_lower split: option.splits)

lemma emit_hashes:
  assumes "emitted st"
  shows "emitted (fold emit_hash vs st) \<and>
    set (snd (fold emit_hash vs st)) \<subseteq>
      set (snd st) \<union> {ioc_entity (lower v) et | v et. v \<in> set vs \<and> HASH_TYPE_BY_LEN (length v) = Some et} \<and>
    set (snd st) \<subseteq> set (snd (fold emit_hash vs st)) \<and>
    (\<forall>v \<in> set vs. is_hash_len (length v) \<longrightarrow> lower v \<in> ent_value ` set (snd (fold emit_hash vs st)))"
  using assms
proof (induction vs arbitrary: st)
  case (Cons v vs)
  note step = emit_hash_step [OF Cons.prems, of v]
  let ?st = "emit_hash v st" and ?fin = "fold emit_hash vs (emit_hash v st)"
  from Cons.IH [OF step(1)] have i: "emitted ?fin"
    "set (snd ?fin) \<subseteq> set (snd ?st) \<union> {ioc_entity (lower v) et | v et. v \<in> set vs \<and> HASH_TYPE_BY_LEN (length v) = Some et}"
    "set (snd ?st) \<subseteq> set (snd ?fin)"
    "\<And>w. w \<in> set vs \<Longrightarrow> is_hash_len (length w) \<Longrightarrow> lower w \<in> ent_value ` set (snd ?fin)" by blast+
  have "set (snd ?fin) \<subseteq>
      set (snd st) \<union> {ioc_entity (lower w) et | w et. w \<in> set (v # vs) \<and> HASH_TYPE_BY_LEN (length w) = Some et}"
  proof
    fix x assume "x \<in> set (snd ?fin)"
    with i(2) step(2) show "x \<in> set (snd st) \<union> {ioc_entity (lower w) et | w et. w \<in> set (v # vs) \<and> HASH_TYPE_BY_LEN (length w) = Some et}"
      by fastforce
  qed
  moreover have "set (snd st) \<subseteq> set (snd ?fin)" using step(3) i(3) by blast
  moreover have "lower w \<in> ent_value ` set (snd ?fin)" if w: "w \<in> set (v # vs)" "is_hash_len (length w)" for w
  proof (cases "w = v")
    case True
    then show ?thesis using step(4) w(2) i(3) by blast
  next
    case False
    then show ?thesis using w i(4) by simp
  qed
  ultimately show ?case using i(1) by simp
qed simp

text \<open>Every reading of a block is one of its words or the join of them all.\<close>

definition joinable :: "string \<Rightarrow> (nat \<times> nat) list \<Rightarrow> bool" where
  "joinable s ms \<longleftrightarrow> (let ws = words s ms in
     (\<exists>w \<in> set ws. \<not> is_hash_len (length w)) \<or>
     labelled_hash_len s (fst (hd ms)) = Some (length (concat ws)))"

lemma block_readings_cases:
  assumes "is_block s blk ms" "v \<in> set (block_readings s blk)"
  shows "(\<exists>m \<in> set ms. v = slice s (fst m) (snd m)) \<or> (1 < length ms \<and> v = concat (words s ms) \<and> joinable s ms)"
proof -
  from assms(1) have ne: "ms \<noteq> []" and c: "chain s ms" and b: "blk = (fst (hd ms), slice s (fst (hd ms)) (snd (last ms)))"
    by (simp_all add: is_block_def)
  have ws: "split_ws (snd blk) = words s ms" using chain_words [OF ne c] b by simp
  have len: "length (words s ms) = length ms" by (simp add: words_def)
  show ?thesis
  proof (cases "length ms = 1")
    case True
    then obtain m where "ms = [m]" by (cases ms) auto
    with assms(2) b ws len True show ?thesis by (auto simp: block_readings_def Let_def)
  next
    case False
    with ne have len1: "1 < length ms" by (cases ms) auto
    have filt: "length (filter P ws) = length ws \<longleftrightarrow> (\<forall>w \<in> set ws. P w)" for P and ws :: "string list"
      by (metis filter_True length_filter_less less_irrefl)
    have "v \<in> set (words s ms) \<or> v = concat (words s ms) \<and> joinable s ms"
    proof (cases "\<forall>w \<in> set (words s ms). is_hash_len (length w)")
      case True
      then show ?thesis using assms(2) b ws len False
        by (auto simp: block_readings_def Let_def joinable_def filt split: if_splits)
    next
      case nall: False
      then show ?thesis using assms(2) b ws len False filt [of "\<lambda>f. is_hash_len (length f)" "words s ms"]
        by (auto simp: block_readings_def Let_def joinable_def split: if_splits)
    qed
    moreover have "\<exists>m \<in> set ms. v = slice s (fst m) (snd m)" if "v \<in> set (words s ms)"
      using that by (force simp: words_def)
    ultimately show ?thesis using len1 by blast
  qed
qed

text \<open>A block whose words include a hash is read as its hashes or as their join.\<close>

lemma block_readings_complete:
  assumes "is_block s blk ms" "m \<in> set ms" "is_hash_len (snd m - fst m)"
  shows "slice s (fst m) (snd m) \<in> set (block_readings s blk) \<or>
    (1 < length ms \<and> concat (words s ms) \<in> set (block_readings s blk) \<and> is_hash_len (length (concat (words s ms))))"
proof -
  from assms(1) have ne: "ms \<noteq> []" and c: "chain s ms" and b: "blk = (fst (hd ms), slice s (fst (hd ms)) (snd (last ms)))"
    by (simp_all add: is_block_def)
  have ws: "split_ws (snd blk) = words s ms" using chain_words [OF ne c] b by simp
  have len: "length (words s ms) = length ms" by (simp add: words_def)
  have m: "slice s (fst m) (snd m) \<in> set (words s ms)" "is_hash_len (length (slice s (fst m) (snd m)))"
    using assms(2,3) chain_runs [OF c assms(2)] hex_run_word [of s "fst m" "snd m"] by (auto simp: words_def split_beta)
  show ?thesis
  proof (cases "length ms = 1")
    case True
    then obtain n where "ms = [n]" by (cases ms) auto
    with assms(2) b ws len True show ?thesis by (auto simp: block_readings_def Let_def)
  next
    case False
    with ne have "1 < length ms" by (cases ms) auto
    with m b ws len False show ?thesis by (auto simp: block_readings_def Let_def)
  qed
qed

text \<open>C24. Nothing is fabricated: the values of \<open>_extract_hashes_regex\<close> are distinct, and each is the
  lower-cased text of hex runs of the report separated by white space only (whole alphanumeric runs,
  never part of one), with the length of its type. When more than one run is joined, one of them is
  not a hash by itself or a label of the joined length precedes them.\<close>

lemma hashes_sound:
  "distinct (map ent_value (extract_hashes_regex s)) \<and>
   list_all (\<lambda>e. \<exists>ms. ms \<noteq> [] \<and> chain s ms \<and> ent_value e = lower (concat (words s ms)) \<and>
       HASH_TYPE_BY_LEN (length (ent_value e)) = Some (ent_type e) \<and>
       (length ms = 1 \<or> joinable s ms)) (extract_hashes_regex s)"
proof -
  let ?vs = "concat (map (block_readings s) (hash_blocks s))"
  have f: "emitted (fold emit_hash ?vs ({}, []))"
    "set (extract_hashes_regex s) \<subseteq> {ioc_entity (lower v) et | v et. v \<in> set ?vs \<and> HASH_TYPE_BY_LEN (length v) = Some et}"
    using emit_hashes [of "({}, [])" ?vs] unfolding extract_hashes_emits by (simp_all add: emitted_def)
  have "\<exists>ms. ms \<noteq> [] \<and> chain s ms \<and> ent_value e = lower (concat (words s ms)) \<and>
       HASH_TYPE_BY_LEN (length (ent_value e)) = Some (ent_type e) \<and> (length ms = 1 \<or> joinable s ms)"
    if "e \<in> set (extract_hashes_regex s)" for e
  proof -
    from that f(2) obtain v et blk where e: "e = ioc_entity (lower v) et" "HASH_TYPE_BY_LEN (length v) = Some et"
      and blk: "blk \<in> set (hash_blocks s)" "v \<in> set (block_readings s blk)" by auto
    obtain ms where ms: "is_block s blk ms" using hash_blocks_chains(1) [OF blk(1)] by blast
    from block_readings_cases [OF ms blk(2)] show ?thesis
    proof
      assume "\<exists>m \<in> set ms. v = slice s (fst m) (snd m)"
      then obtain m where m: "m \<in> set ms" "v = slice s (fst m) (snd m)" by blast
      have "chain s ms" using ms by (simp add: is_block_def)
      from chain_runs [OF this m(1)] have "chain s [m]" by simp
      moreover from m have "concat (words s [m]) = v" using m(2) by (simp add: words_def split_beta)
      ultimately show ?thesis using e by (intro exI [of _ "[m]"]) (simp add: HASH_TYPE_BY_LEN_lower)
    next
      assume "1 < length ms \<and> v = concat (words s ms) \<and> joinable s ms"
      then show ?thesis using e ms by (intro exI [of _ ms]) (simp add: HASH_TYPE_BY_LEN_lower is_block_def)
    qed
  qed
  then show ?thesis using f(1) by (simp add: emitted_def extract_hashes_emits list_all_iff)
qed

text \<open>C25. No hash is missed: a maximal alphanumeric run of 32, 40 or 64 hex digits is extracted
  itself, or it is one of several runs whose join is extracted.\<close>

lemma hashes_complete:
  assumes "hex_run s m" "is_hash_len (snd m - fst m)"
  shows "\<exists>ms. chain s ms \<and> m \<in> set ms \<and> (ms = [m] \<or> 1 < length ms) \<and>
    lower (concat (words s ms)) \<in> ent_value ` set (extract_hashes_regex s)"
proof -
  let ?vs = "concat (map (block_readings s) (hash_blocks s))"
  have f: "\<forall>v \<in> set ?vs. is_hash_len (length v) \<longrightarrow> lower v \<in> ent_value ` set (extract_hashes_regex s)"
    using emit_hashes [of "({}, [])" ?vs] unfolding extract_hashes_emits by (simp add: emitted_def)
  obtain blk ms where blk: "blk \<in> set (hash_blocks s)" "is_block s blk ms" "m \<in> set ms"
    using hash_blocks_chains(2) [OF assms(1)] by blast
  from block_readings_complete [OF blk(2,3) assms(2)] show ?thesis
  proof
    assume v: "slice s (fst m) (snd m) \<in> set (block_readings s blk)"
    have "length (slice s (fst m) (snd m)) = snd m - fst m" using hex_run_word [of s "fst m" "snd m"] assms(1) by simp
    with v f blk(1) assms(2) have "lower (slice s (fst m) (snd m)) \<in> ent_value ` set (extract_hashes_regex s)" by auto
    with assms(1) show ?thesis by (intro exI [of _ "[m]"]) (simp add: words_def split_beta)
  next
    assume "1 < length ms \<and> concat (words s ms) \<in> set (block_readings s blk) \<and> is_hash_len (length (concat (words s ms)))"
    with f blk show ?thesis by (intro exI [of _ ms]) (auto simp: is_block_def)
  qed
qed

lemma hashes_complete_witness:
  "hex_run ''x 0123456789abcdef0123456789ABCDEF.'' (2, 34) \<and> is_hash_len (34 - 2) \<and>
   (\<exists>ms. chain ''x 0123456789abcdef0123456789ABCDEF.'' ms \<and> (2, 34) \<in> set ms \<and> (ms = [(2, 34)] \<or> 1 < length ms) \<and>
     lower (concat (words ''x 0123456789abcdef0123456789ABCDEF.'' ms)) \<in>
       ent_value ` set (extract_hashes_regex ''x 0123456789abcdef0123456789ABCDEF.''))"
proof -
  let ?s = "''x 0123456789abcdef0123456789ABCDEF.''"
  have "maximal_run is_ascii_alnum ?s 2 34"
    unfolding finditer_plus1 [symmetric] by code_simp
  moreover have "hex_token ?s 2 34" by code_simp
  ultimately have h: "hex_run ?s (2, 34)" by (simp add: hex_run_def)
  have l: "is_hash_len (34 - 2)" by code_simp
  from hashes_complete [OF h] l h show ?thesis by simp
qed

end
