(* ===== verification/NetworkIocs.thy ===== *)
theory NetworkIocs
  imports Hashes
begin

text \<open>
  Network indicators of a report (pipeline/stage2_extraction.py): IPv4 and IPv6 addresses, URLs,
  e-mail addresses, domains. What comes from outside the repository is an argument: the IPv6
  candidates of \<open>iocextract\<close> (empty when it is missing or fails) and the \<open>netloc\<close> of \<open>urlparse\<close>,
  whose check of bracketed hosts depends on the version of Python (\<open>None\<close> is its ValueError).
\<close>

section \<open>Words around a match\<close>

text \<open>\<open>regex_safety.continues_a_word\<close> (categories Lu, Ll, and the decimal digits) and
  \<open>glued_to_a_word\<close>.\<close>

definition continues_a_word :: "char \<Rightarrow> bool" where
  "continues_a_word c \<longleftrightarrow> (let n = (of_char c :: nat) in
     is_ascii_alnum c \<or> n = 181 \<or> (192 \<le> n \<and> n \<noteq> 215 \<and> n \<noteq> 247))"

definition glued_to_a_word :: "string \<Rightarrow> nat \<Rightarrow> nat \<Rightarrow> bool" where
  "glued_to_a_word s b e \<longleftrightarrow> before_is continues_a_word s b \<or> after_is continues_a_word s e"

section \<open>IPv4\<close>

definition octet :: rx where
  "octet = alts [
     seqs [lit ''25'', Cls (\<lambda>c. c \<in> set ''012345'')],
     seqs [lit ''2'', Cls (\<lambda>c. c \<in> set ''01234''), Cls is_digit],
     seqs [opt (Cls (\<lambda>c. c \<in> set ''01'')), Cls is_digit, opt (Cls is_digit)]]"

definition IPV4_PATTERN :: rx where
  "IPV4_PATTERN = Seq (times_rx 3 (Seq octet (lit ''.''))) octet"

definition ipv4_refused :: "string \<Rightarrow> nat \<Rightarrow> nat \<Rightarrow> bool" where
  "ipv4_refused s b e \<longleftrightarrow>
     before_is is_digit s b \<or> before_is (\<lambda>c. c = CHR ''.'') s b
     \<or> after_is is_digit s e \<or> (after_is (\<lambda>c. c = CHR ''.'') s e \<and> after_is is_digit s (Suc e))"

definition ipv4_spans :: "string \<Rightarrow> (nat \<times> nat) list" where
  "ipv4_spans s = filter (\<lambda>(b, e). \<not> ipv4_refused s b e) (finditer IPV4_PATTERN s)"

definition ipv4_matches :: "string \<Rightarrow> string list" where
  "ipv4_matches s = map (\<lambda>(b, e). slice s b e) (ipv4_spans s)"

section \<open>IPv6\<close>

text \<open>\<open>s.split(c)\<close>.\<close>

fun split_on :: "char \<Rightarrow> string \<Rightarrow> string list" where
  "split_on c [] = [[]]"
| "split_on c (d # ds) = (case split_on c ds of
     [] \<Rightarrow> [[d]] | w # ws \<Rightarrow> if d = c then [] # w # ws else (d # w) # ws)"

text \<open>\<open>ipaddress.IPv6Address(s)\<close> accepts \<open>s\<close>.\<close>

definition ipv4_part_ok :: "string \<Rightarrow> bool" where
  "ipv4_part_ok o4 \<longleftrightarrow> o4 \<noteq> [] \<and> list_all is_digit o4 \<and> length o4 \<le> 3
     \<and> (o4 = ''0'' \<or> hd o4 \<noteq> CHR ''0'') \<and> decimal o4 \<le> 255"

definition ipv4_valid :: "string \<Rightarrow> bool" where
  "ipv4_valid s \<longleftrightarrow> (let ps = split_on CHR ''.'' s in length ps = 4 \<and> list_all ipv4_part_ok ps)"

definition hextet_ok :: "string \<Rightarrow> bool" where
  "hextet_ok h \<longleftrightarrow> h \<noteq> [] \<and> list_all is_hex h \<and> length h \<le> 4"

definition ipv6_parts_ok :: "string list \<Rightarrow> bool" where
  "ipv6_parts_ok ps \<longleftrightarrow>
    (let n = length ps; gaps = filter (\<lambda>i. ps ! i = []) [1..<n - 1] in
     if 9 < n \<or> 1 < length gaps then False
     else case gaps of
       [] \<Rightarrow> n = 8 \<and> list_all hextet_ok ps
     | g # _ \<Rightarrow>
        (let hi0 = g; lo0 = n - g - 1;
             hi = (if hd ps = [] then hi0 - 1 else hi0); lo = (if last ps = [] then lo0 - 1 else lo0) in
         \<not> (hd ps = [] \<and> 0 < hi) \<and> \<not> (last ps = [] \<and> 0 < lo) \<and> hi + lo < 8
         \<and> list_all hextet_ok (take hi ps) \<and> list_all hextet_ok (drop (n - lo) ps)))"

definition ipv6_valid :: "string \<Rightarrow> bool" where
  "ipv6_valid s \<longleftrightarrow>
    (let (addr, rest) = (takeWhile (\<lambda>c. c \<noteq> CHR ''%'') s, dropWhile (\<lambda>c. c \<noteq> CHR ''%'') s);
         ps = split_on CHR '':'' addr in
     CHR ''/'' \<notin> set s
     \<and> (rest = [] \<or> (tl rest \<noteq> [] \<and> CHR ''%'' \<notin> set (tl rest)))
     \<and> addr \<noteq> [] \<and> 3 \<le> length ps
     \<and> (if CHR ''.'' \<in> set (last ps) then ipv4_valid (last ps) \<and> ipv6_parts_ok (butlast ps @ [''0'', ''0''])
        else ipv6_parts_ok ps))"

definition ipv6_literal :: "string \<Rightarrow> string option" where
  "ipv6_literal candidate =
    (if \<not> ipv6_valid candidate then None
     else let groups = filter (\<lambda>g. g \<noteq> []) (split_on CHR '':'' candidate) in
       if length groups < 3 then None
       else if \<not> has_sub candidate ''::'' \<and> list_all (\<lambda>g. length g = 2) groups then None
       else Some candidate)"

section \<open>URLs, e-mail addresses, domains\<close>

definition url_char :: "char \<Rightarrow> bool" where
  "url_char c \<longleftrightarrow> is_ascii_alnum c \<or> c \<in> set ''-._~:/?#[]@!$&'' \<or> of_char c = (39 :: nat) \<or> c \<in> set ''()*+,;=%''"

definition URL_PATTERN :: rx where
  "URL_PATTERN = seqs [ilit ''http'', opt (ilit ''s''), lit ''://'', plus1 (Cls url_char)]"

definition url_trailing :: "char \<Rightarrow> bool" where
  "url_trailing c \<longleftrightarrow> of_char c \<in> {34 :: nat, 39} \<or> c \<in> set ''.),;}''"

definition keeps_last :: "string \<Rightarrow> bool" where
  "keeps_last url \<longleftrightarrow> last url = CHR '')'' \<and> count_list url CHR '')'' \<le> count_list url CHR ''(''"

function trim_url :: "string \<Rightarrow> string" where
  "trim_url url = (if url \<noteq> [] \<and> url_trailing (last url) \<and> \<not> keeps_last url then trim_url (butlast url) else url)"
  by pat_completeness auto
termination by (relation "measure length") auto

declare trim_url.simps [simp del]

definition EMAIL_PATTERN :: rx where
  "EMAIL_PATTERN = seqs [word_boundary, plus1 (Cls (\<lambda>c. is_ascii_alnum c \<or> c \<in> set ''._%+-'')), lit ''@'',
     plus1 (Cls (\<lambda>c. is_ascii_alnum c \<or> c \<in> set ''.-'')), lit ''.'', Rep (Cls is_ascii_alpha) 2 None, word_boundary]"

fun email_start :: "string \<Rightarrow> nat \<Rightarrow> nat" where
  "email_start s 0 = 0"
| "email_start s (Suc k) = (if s ! k \<in> set ''._%+-'' then email_start s k else Suc k)"

definition extract_emails :: "string \<Rightarrow> raw_entity list" where
  "extract_emails s = map (\<lambda>(b, e). ioc_entity (lower (slice s b e)) EMAIL)
     (filter (\<lambda>(b, e). \<not> glued_to_a_word s (email_start s b) e) (finditer EMAIL_PATTERN s))"

definition url_host :: "(string \<Rightarrow> string option) \<Rightarrow> string \<Rightarrow> string" where
  "url_host urlparse url =
    (let netloc0 = (case urlparse url of
         Some n \<Rightarrow> n
       | None \<Rightarrow>
          (let rest = (case find_from ''://'' url 0 of None \<Rightarrow> url | Some k \<Rightarrow> drop (k + 3) url) in
           takeWhile (\<lambda>c. c \<noteq> CHR ''#'') (takeWhile (\<lambda>c. c \<noteq> CHR ''?'') (takeWhile (\<lambda>c. c \<noteq> CHR ''/'') rest))));
       netloc = strip (rev (takeWhile (\<lambda>c. c \<noteq> CHR ''@'') (rev netloc0))) in
     if starts_with netloc ''['' then lower (takeWhile (\<lambda>c. c \<noteq> CHR '']'') (tl netloc))
     else takeWhile (\<lambda>c. c \<noteq> CHR '':'') (lower netloc))"

definition MALWARE_FILE_EXTS :: "string list" where
  "MALWARE_FILE_EXTS =
    [''exe'', ''dll'', ''sys'', ''drv'', ''scr'', ''cpl'', ''ocx'', ''bin'', ''elf'', ''so'', ''ko'',
     ''ps1'', ''psm1'', ''psd1'', ''bat'', ''cmd'', ''vbs'', ''vbe'', ''js'', ''jse'', ''wsf'', ''wsh'', ''hta'', ''lnk'',
     ''sh'', ''bash'', ''zsh'', ''py'', ''pyc'', ''pyw'', ''pl'', ''rb'', ''php'', ''jar'', ''war'', ''apk'', ''dmg'', ''app'',
     ''msi'', ''iso'', ''img'']"

definition DOMAIN_EXTRA_NON_TLD_EXTS :: "rx list" where
  "DOMAIN_EXTRA_NON_TLD_EXTS =
     seqs [ilit ''doc'', opt (ilit ''x'')] # seqs [ilit ''xls'', opt (ilit ''x'')] #
     map ilit [''ts'', ''go'', ''zip'', ''tar'', ''gz'', ''pdf'', ''png'', ''jpg'', ''gif'', ''svg'', ''css'', ''json'', ''xml'',
       ''yml'', ''yaml'', ''log'', ''txt'', ''md'', ''cfg'', ''ini'', ''conf'']"

definition DOMAIN_NON_TLD_EXTS :: rx where
  "DOMAIN_NON_TLD_EXTS = alts (map ilit MALWARE_FILE_EXTS @ DOMAIN_EXTRA_NON_TLD_EXTS)"

definition LONG_TLDS :: "string list" where
  "LONG_TLDS = [''americanexpress'', ''americanfamily'', ''international'', ''kerryproperties'',
     ''lifeinsurance'', ''sandvikcoromant'', ''travelersinsurance'', ''weatherchannel'']"

definition IDN_TLD :: rx where
  "IDN_TLD = seqs [ilit ''xn--'', Rep (Cls is_ascii_alnum) 1 (Some 59),
     opt (seqs [lit ''-'', Rep (Cls is_ascii_alnum) 1 (Some 58)])]"

text \<open>The look-aheads make \<open>re\<close> compile this pattern: its \<open>\b\<close> is Unicode's.\<close>

definition unicode_boundary :: rx where
  "unicode_boundary = Test (\<lambda>s p. before_is word_char s p \<noteq> after_is word_char s p)"

definition domain_label :: rx where
  "domain_label = seqs [Cls is_ascii_alnum,
     opt (seqs [Rep (Cls (\<lambda>c. is_ascii_alnum c \<or> c = CHR ''-'')) 0 (Some 61), Cls is_ascii_alnum]), lit ''.'']"

definition DOMAIN_PATTERN :: rx where
  "DOMAIN_PATTERN = seqs [unicode_boundary, Rep domain_label 1 (Some 30),
     looking_at (times_rx 2 (Cls is_ascii_alpha)),
     not_looking_at (Seq DOMAIN_NON_TLD_EXTS unicode_boundary),
     alts (map ilit LONG_TLDS @ [IDN_TLD, Seq (not_looking_at (ilit ''xn--'')) (Rep (Cls is_ascii_alpha) 2 (Some 12))]),
     unicode_boundary]"

definition DOMAIN_MAX_LENGTH :: nat where
  "DOMAIN_MAX_LENGTH = 253"

definition domain_accepted :: "string \<Rightarrow> bool" where
  "domain_accepted d \<longleftrightarrow> length d \<le> DOMAIN_MAX_LENGTH"

definition known_hosts :: "(string \<Rightarrow> string option) \<Rightarrow> raw_entity list \<Rightarrow> string list" where
  "known_hosts urlparse results = concat (map (\<lambda>e.
     if ent_type e = URL then (let host = url_host urlparse (ent_value e) in if host \<noteq> [] then [host] else [])
     else if ent_type e = EMAIL then
       (let ps = split_on CHR ''@'' (ent_value e) in if length ps = 2 then [lower (ps ! 1)] else [])
     else []) results)"

definition extract_network_iocs :: "(string \<Rightarrow> string option) \<Rightarrow> (string \<Rightarrow> string list) \<Rightarrow> string \<Rightarrow> raw_entity list" where
  "extract_network_iocs urlparse ipv6s s =
    (let results = map (\<lambda>v. ioc_entity v IPV6) (List.map_filter (\<lambda>c. ipv6_literal (strip c)) (ipv6s s))
         @ map (\<lambda>v. ioc_entity v IPV4) (ipv4_matches s)
         @ map (\<lambda>(b, e). ioc_entity (trim_url (slice s b e)) URL) (finditer URL_PATTERN s)
         @ extract_emails s;
       hosts = known_hosts urlparse results in
     results @ map (\<lambda>d. ioc_entity d DOMAIN)
       (filter (\<lambda>d. domain_accepted d \<and> d \<notin> set hosts)
         (map (\<lambda>(b, e). lower (slice s b e)) (finditer DOMAIN_PATTERN s))))"

end
