(* ===== verification/Extract.thy ===== *)
theory Extract
  imports NetworkIocs Aliases
begin

text \<open>
  The rest of the regex stage (pipeline/stage2_extraction.py): MAC addresses, AS numbers, paths,
  file names, registry keys, CVE and ATT&CK ids, and \<open>extract_entities\<close>, which refangs the text,
  runs every extractor in order and removes duplicates. spaCy's entities are an argument. The
  zero-width characters and the dashes of the CVE pattern are not Latin-1, the soft hyphen excepted.
\<close>

text \<open>The collecting loops: the values whose key was not seen yet, in order.\<close>

fun first_by :: "('a \<Rightarrow> 'k) \<Rightarrow> 'k set \<Rightarrow> 'a list \<Rightarrow> 'a list" where
  "first_by key seen [] = []"
| "first_by key seen (v # vs) =
     (if key v \<in> seen then first_by key seen vs else v # first_by key (insert (key v) seen) vs)"

text \<open>\<open>s.rstrip(chars)\<close>, \<open>s.replace(c, d)\<close> for characters, \<open>s.rfind(c)\<close> for a character in \<open>s\<close>.\<close>

definition rstrip_by :: "(char \<Rightarrow> bool) \<Rightarrow> string \<Rightarrow> string" where
  "rstrip_by P s = rev (dropWhile P (rev s))"

definition replace_char :: "char \<Rightarrow> char \<Rightarrow> string \<Rightarrow> string" where
  "replace_char c d s = map (\<lambda>x. if x = c then d else x) s"

definition rfind_char :: "char \<Rightarrow> string \<Rightarrow> nat" where
  "rfind_char c s = length s - 1 - length (takeWhile (\<lambda>x. x \<noteq> c) (rev s))"

section \<open>MAC addresses and AS numbers\<close>

definition MAC_COLON_HYPHEN :: rx where
  "MAC_COLON_HYPHEN = seqs [word_boundary,
     times_rx 5 (seqs [times_rx 2 (Cls is_hex), Cls (\<lambda>c. c \<in> set '':-'')]), times_rx 2 (Cls is_hex), word_boundary]"

definition MAC_CISCO :: rx where
  "MAC_CISCO = seqs [word_boundary, times_rx 4 (Cls is_hex), lit ''.'', times_rx 4 (Cls is_hex), lit ''.'',
     times_rx 4 (Cls is_hex), word_boundary]"

text \<open>\<open>":".join(raw[i:i+2] for i in range(0, 12, 2))\<close>.\<close>

definition mac_pairs :: "string \<Rightarrow> string" where
  "mac_pairs raw = concat (map (\<lambda>i. (if i = 0 then '''' else '':'') @ slice raw (2 * i) (2 * i + 2)) [0..<6])"

definition extract_mac_addresses :: "string \<Rightarrow> raw_entity list" where
  "extract_mac_addresses s = map (\<lambda>v. ioc_entity v MAC_ADDR) (first_by id {}
     (map (\<lambda>(b, e). replace_char CHR ''-'' CHR '':'' (lower (slice s b e))) (finditer MAC_COLON_HYPHEN s)
      @ map (\<lambda>(b, e). mac_pairs (lower (filter (\<lambda>c. c \<noteq> CHR ''.'') (slice s b e)))) (finditer MAC_CISCO s)))"

definition ASN_PATTERN :: rx where
  "ASN_PATTERN = seqs [word_boundary, lit ''AS'', alts [Seq (lit ''N'') (star (Cls is_space)), star (Cls is_space)],
     Rep (Cls is_digit) 1 (Some 10), word_boundary]"

text \<open>\<open>m.group(1)\<close>: the digits that end the match.\<close>

definition asn_digits :: "string \<Rightarrow> string" where
  "asn_digits m = rev (takeWhile is_digit (rev m))"

definition extract_asns :: "string \<Rightarrow> raw_entity list" where
  "extract_asns s = map (\<lambda>v. ioc_entity v ASN) (first_by id {}
     (map (\<lambda>(b, e). ''AS'' @ asn_digits (slice s b e))
       (filter (\<lambda>(b, e). \<not> glued_to_a_word s b e) (finditer ASN_PATTERN s))))"

section \<open>Paths and file names\<close>

definition backslash :: char where
  "backslash = char_of (92 :: nat)"

definition path_char :: "char \<Rightarrow> bool" where
  "path_char c \<longleftrightarrow> c \<noteq> backslash \<and> \<not> is_space c \<and> of_char c > (31 :: nat) \<and> c \<notin> set ''<>:|?*'' \<and> of_char c \<noteq> (34 :: nat)"

definition WIN_PATH_PATTERN :: rx where
  "WIN_PATH_PATTERN =
    (let share = plus1 (Cls (\<lambda>c. c \<noteq> backslash \<and> \<not> is_space c)); sl = Cls (\<lambda>c. c = backslash) in
     seqs [alts [seqs [Cls is_ascii_alpha, lit '':'', sl], seqs [sl, sl, share, sl, share, sl]],
       star (Seq (plus1 (Cls path_char)) sl),
       plus1 (Cls path_char), lit ''.'', Rep (Cls is_ascii_alpha) 2 (Some 10), word_boundary])"

definition unix_char :: "char \<Rightarrow> bool" where
  "unix_char c \<longleftrightarrow> \<not> is_space c \<and> of_char c > (31 :: nat) \<and> of_char c \<notin> {34 :: nat, 39, 92, 96} \<and> c \<notin> set ''<>|&;()[]{}''"

definition UNIX_PATH_PATTERN :: rx where
  "UNIX_PATH_PATTERN = seqs [not_before word_char, lit ''/'',
     alts [lit ''bin'', lit ''boot'', lit ''dev'', lit ''etc'', lit ''home'', Seq (lit ''lib'') (opt (lit ''64'')), lit ''opt'',
       lit ''proc'', lit ''root'', lit ''run'', lit ''sbin'', lit ''srv'', lit ''sys'', lit ''tmp'', lit ''usr'', lit ''var''],
     plus1 (Seq (lit ''/'') (plus1 (Cls unix_char)))]"

definition path_value :: "string \<Rightarrow> string" where
  "path_value m = (let v = strip m in if starts_with v ''/'' then rstrip_by (\<lambda>c. c \<in> set ''.,:;!?'') v else v)"

definition extract_file_paths :: "string \<Rightarrow> raw_entity list" where
  "extract_file_paths s = map (\<lambda>v. ioc_entity v FILE) (first_by lower {}
     (map (\<lambda>(b, e). path_value (slice s b e))
       (filter (\<lambda>(b, e). \<not> after_is continues_a_word s e) (finditer WIN_PATH_PATTERN s) @ finditer UNIX_PATH_PATTERN s)))"

definition BARE_FILENAME_PATTERN :: rx where
  "BARE_FILENAME_PATTERN = seqs [not_before (\<lambda>c. word_char c \<or> c \<in> set ''./-'' \<or> c = backslash),
     Cls (\<lambda>c. is_ascii_alnum c \<or> c = CHR ''_''), star (Cls (\<lambda>c. word_char c \<or> c \<in> set ''.-'')), lit ''.'',
     alts (map ilit MALWARE_FILE_EXTS), not_after (\<lambda>c. word_char c \<or> c = CHR ''-'')]"

definition extract_bare_filenames :: "string \<Rightarrow> raw_entity list" where
  "extract_bare_filenames s = map (\<lambda>v. ioc_entity v FILE) (first_by lower {}
     (map (\<lambda>(b, e). strip (slice s b e)) (finditer BARE_FILENAME_PATTERN s)))"

section \<open>Registry keys\<close>

definition REG_HIVES :: "string list" where
  "REG_HIVES = [''HKEY_LOCAL_MACHINE'', ''HKEY_CURRENT_USER'', ''HKEY_CLASSES_ROOT'', ''HKEY_USERS'',
     ''HKEY_CURRENT_CONFIG'', ''HKLM'', ''HKCU'', ''HKCR'', ''HKU'', ''HKCC'']"

definition reg_char :: "char \<Rightarrow> bool" where
  "reg_char c \<longleftrightarrow> c \<noteq> backslash \<and> of_char c > (31 :: nat) \<and> c \<notin> set ''<>:|'' \<and> of_char c \<noteq> (34 :: nat)"

definition REG_KEY_PATTERN :: rx where
  "REG_KEY_PATTERN = seqs [word_boundary, alts (map ilit REG_HIVES),
     plus1 (Seq (Cls (\<lambda>c. c = backslash)) (plus1 (Cls reg_char)))]"

function trim_trailing_prose :: "string \<Rightarrow> string" where
  "trim_trailing_prose v =
    (if CHR '' '' \<in> set v then
       let k = rfind_char CHR '' '' v; fragment = drop (k + 1) v in
       if fragment = [] \<or> (\<not> is_upper_letter (hd fragment) \<and> \<not> is_py_digit (hd fragment))
       then trim_trailing_prose (take k v) else v
     else v)"
  by pat_completeness auto
termination by (relation "measure length") (auto simp: rfind_char_def dest: length_pos_if_in_set)

declare trim_trailing_prose.simps [simp del]

definition is_alpha :: "char \<Rightarrow> bool" where
  "is_alpha c \<longleftrightarrow> (let n = (of_char c :: nat) in
     is_ascii_alpha c \<or> n \<in> {170, 181, 186} \<or> (192 \<le> n \<and> n \<noteq> 215 \<and> n \<noteq> 247))"

definition trim_trailing_drive_letter :: "string \<Rightarrow> char option \<Rightarrow> string" where
  "trim_trailing_drive_letter v next_char =
    (if next_char = Some CHR '':'' \<and> CHR '' '' \<in> set v then
       let k = rfind_char CHR '' '' v; fragment = drop (k + 1) v in
       if length fragment = 1 \<and> is_alpha (hd fragment) then take k v else v
     else v)"

text \<open>\<open>v.upper()\<close> up to a renaming of the letters whose upper case is not Latin-1: equal keys are
  equal in the source. The sharp s becomes SS.\<close>

definition upper_key :: "string \<Rightarrow> string" where
  "upper_key v = concat (map (\<lambda>c. let n = (of_char c :: nat) in
     if n = 223 then ''SS''
     else if (97 \<le> n \<and> n \<le> 122) \<or> (224 \<le> n \<and> n \<le> 254 \<and> n \<noteq> 247) then [char_of (n - 32)] else [c]) v)"

definition SENTENCE_STOP :: rx where
  "SENTENCE_STOP = Seq (lit ''.'') (Cls is_space)"

definition reg_trailing :: "char \<Rightarrow> bool" where
  "reg_trailing c \<longleftrightarrow> c \<in> set ''.,;:!?)]} '' \<or> of_char c \<in> {34 :: nat, 39} \<or> c = backslash"

definition reg_value :: "string \<Rightarrow> nat \<Rightarrow> nat \<Rightarrow> string" where
  "reg_value s b e =
    (let v = strip (slice s b e);
         v = trim_trailing_drive_letter v (if e < length s then Some (s ! e) else None);
         v = trim_trailing_prose v;
         lst = rev (takeWhile (\<lambda>c. c \<noteq> backslash) (rev v));
         hd_sep = take (length v - length lst) v;
         v = (case search SENTENCE_STOP lst of None \<Rightarrow> v | Some (k, _) \<Rightarrow> hd_sep @ take k lst) in
     rstrip_by reg_trailing v)"

definition extract_registry_keys :: "string \<Rightarrow> raw_entity list" where
  "extract_registry_keys s = map (\<lambda>v. ioc_entity v REGISTRY_KEY) (first_by upper_key {}
     (filter (\<lambda>v. backslash \<in> set v) (map (\<lambda>(b, e). reg_value s b e) (finditer REG_KEY_PATTERN s))))"

section \<open>CVE and ATT&CK ids\<close>

definition cve_dash :: "char \<Rightarrow> bool" where
  "cve_dash c \<longleftrightarrow> c = CHR ''-'' \<or> of_char c = (173 :: nat)"

definition CVE_PATTERN :: rx where
  "CVE_PATTERN = seqs [ilit ''cve'', Cls cve_dash, times_rx 4 (Cls is_digit), Cls cve_dash, Rep (Cls is_digit) 4 (Some 12)]"

definition cve_value :: "string \<Rightarrow> string" where
  "cve_value m = upper (map (\<lambda>c. if cve_dash c then CHR ''-'' else c) m)"

definition extract_cves :: "string \<Rightarrow> raw_entity list" where
  "extract_cves s = map (\<lambda>v. ioc_entity v CVE) (first_by id {}
     (map (\<lambda>(b, e). cve_value (slice s b e))
       (filter (\<lambda>(b, e). \<not> glued_to_a_word s b e) (finditer CVE_PATTERN s))))"

definition MITRE_TTP_PATTERN :: rx where
  "MITRE_TTP_PATTERN = seqs [word_boundary, ilit ''t'', opt (ilit ''a''), times_rx 4 (Cls is_digit),
     opt (Seq (lit ''.'') (times_rx 3 (Cls is_digit))), word_boundary]"

definition extract_mitre_ttps :: "technique_index \<Rightarrow> string list \<Rightarrow> string \<Rightarrow> raw_entity list" where
  "extract_mitre_ttps ix tactic_ids s = map (\<lambda>v. (ioc_entity v TTP)\<lparr>ent_mitre_id := Some v\<rparr>) (first_by id {}
     (map upper (filter (\<lambda>m. upper m = m \<or> is_attack_id ix tactic_ids (upper m))
       (map (\<lambda>(b, e). slice s b e) (finditer MITRE_TTP_PATTERN s)))))"

section \<open>The stage\<close>

definition deduplicate :: "raw_entity list \<Rightarrow> raw_entity list" where
  "deduplicate es = first_by (\<lambda>e. (lower (ent_value e), ent_type e)) {} es"

text \<open>The regex extractors of \<open>extract_entities\<close>, on the refanged text; \<open>ner\<close> is \<open>_extract_ner_entities\<close>
  when spaCy is loaded.\<close>

definition extract_entities ::
  "(string \<Rightarrow> string option) \<Rightarrow> (string \<Rightarrow> string list) \<Rightarrow> technique_index \<Rightarrow> string list \<Rightarrow>
    (string \<Rightarrow> raw_entity list) option \<Rightarrow> string \<Rightarrow> raw_entity list" where
  "extract_entities urlparse ipv6s ix tactic_ids ner s0 =
    (let s = refang s0 in
     deduplicate (extract_hashes_regex s @ extract_network_iocs urlparse ipv6s s @ extract_cves s
       @ extract_mitre_ttps ix tactic_ids s @ extract_mac_addresses s @ extract_asns s
       @ extract_file_paths s @ extract_bare_filenames s @ extract_registry_keys s
       @ (case ner of None \<Rightarrow> [] | Some f \<Rightarrow> f s)))"

end
