(* ===== verification/ExtractSound.thy ===== *)
theory ExtractSound
  imports Extract
begin

text \<open>
  What the regex stage extracts: the IPv4 addresses are exactly the guarded dotted quads of the
  text, every value has the form of its type, and the stage keeps the first entity of each
  value and type.
\<close>

section \<open>IPv4 addresses\<close>

text \<open>The reference: one to three digits, at most 255; four of them separated by dots.\<close>

definition octet_ok :: "string \<Rightarrow> bool" where
  "octet_ok w \<longleftrightarrow> w \<noteq> [] \<and> length w \<le> 3 \<and> list_all is_digit w \<and> decimal w \<le> 255"

definition dotted_quad :: "string \<Rightarrow> bool" where
  "dotted_quad w \<longleftrightarrow> (\<exists>a b c d. w = a @ ''.'' @ b @ ''.'' @ c @ ''.'' @ d \<and>
     octet_ok a \<and> octet_ok b \<and> octet_ok c \<and> octet_ok d)"

lemma char_code: "c = d \<longleftrightarrow> (of_char c :: nat) = of_char d"
  by simp

lemma slice_codes:
  "e \<le> length s \<Longrightarrow> e = p + 1 \<Longrightarrow> slice s p e = [s ! p]"
  "e \<le> length s \<Longrightarrow> e = p + 2 \<Longrightarrow> slice s p e = [s ! p, s ! (p + 1)]"
  "e \<le> length s \<Longrightarrow> e = p + 3 \<Longrightarrow> slice s p e = [s ! p, s ! (p + 1), s ! (p + 2)]"
  by (auto intro!: nth_equalityI simp: slice_length slice_nth nth_Cons' less_Suc_eq numeral_2_eq_2 numeral_3_eq_3)

text \<open>The code of a character, 0 past the end; the pattern of an octet in those terms.\<close>

definition code :: "string \<Rightarrow> nat \<Rightarrow> nat" where
  "code s p = (if p < length s then of_char (s ! p) else 0)"

definition digit_code :: "nat \<Rightarrow> bool" where
  "digit_code n \<longleftrightarrow> 48 \<le> n \<and> n \<le> 57"

lemma char_codes:
  "c = CHR ''0'' \<longleftrightarrow> (of_char c :: nat) = 48" "c = CHR ''1'' \<longleftrightarrow> (of_char c :: nat) = 49"
  "c = CHR ''2'' \<longleftrightarrow> (of_char c :: nat) = 50" "c = CHR ''3'' \<longleftrightarrow> (of_char c :: nat) = 51"
  "c = CHR ''4'' \<longleftrightarrow> (of_char c :: nat) = 52" "c = CHR ''5'' \<longleftrightarrow> (of_char c :: nat) = 53"
  "c = CHR ''.'' \<longleftrightarrow> (of_char c :: nat) = 46"
  by (simp_all add: char_code)

lemma code_class:
  "p < length s \<and> s ! p = CHR ''2'' \<longleftrightarrow> code s p = 50"
  "p < length s \<and> s ! p = CHR ''5'' \<longleftrightarrow> code s p = 53"
  "p < length s \<and> s ! p = CHR ''.'' \<longleftrightarrow> code s p = 46"
  "p < length s \<and> is_digit (s ! p) \<longleftrightarrow> digit_code (code s p)"
  "p < length s \<and> s ! p \<in> set ''01'' \<longleftrightarrow> code s p \<in> {48, 49}"
  "p < length s \<and> s ! p \<in> set ''01234'' \<longleftrightarrow> code s p \<in> {48..52}"
  "p < length s \<and> s ! p \<in> set ''012345'' \<longleftrightarrow> code s p \<in> {48..53}"
  by (auto simp: code_def digit_code_def is_digit_def Let_def char_codes)

lemma ends_octet: "ends octet s p =
    (let a = code s p; b = code s (p + 1); c = code s (p + 2) in
     (if a = 50 \<and> b = 53 \<and> c \<in> {48..53} then [p + 3] else []) @
     (if a = 50 \<and> b \<in> {48..52} \<and> digit_code c then [p + 3] else []) @
     (if a \<in> {48, 49} \<and> digit_code b then (if digit_code c then [p + 3, p + 2] else [p + 2]) else []) @
     (if digit_code a then (if digit_code b then [p + 2, p + 1] else [p + 1]) else []))"
proof -
  have one: "concat (map f (if C then [x] else [])) = (if C then f x else [])" for f and C and x :: nat by simp
  have nest: "(if C then (if D then xs else []) else []) = (if C \<and> D then xs else [])" for C D and xs :: "nat list" by simp
  show ?thesis
    unfolding octet_def lit_def alts.simps seqs.simps list.map
    by (simp only: ends.simps ends_opt code_class one nest map_append concat_append list.map concat.simps append_Nil2
        Let_def Suc_eq_plus1 add.assoc one_add_one)
      (simp add: add.commute numeral_2_eq_2 numeral_3_eq_3)
qed

lemma digit_code_iff: "digit_code (code s p) \<longleftrightarrow> p < length s \<and> is_digit (s ! p)"
  using code_class(4) [of p s] by blast

lemma digit_code_char: "digit_code (of_char c) \<longleftrightarrow> is_digit c" "\<not> digit_code 0"
  by (simp_all add: digit_code_def is_digit_def Let_def)

lemma octet_codes:
  "p + 1 \<le> length s \<and> octet_ok (slice s p (p + 1)) \<longleftrightarrow> digit_code (code s p)"
  "p + 2 \<le> length s \<and> octet_ok (slice s p (p + 2)) \<longleftrightarrow> digit_code (code s p) \<and> digit_code (code s (p + 1))"
  "p + 3 \<le> length s \<and> octet_ok (slice s p (p + 3)) \<longleftrightarrow>
     digit_code (code s p) \<and> digit_code (code s (p + 1)) \<and> digit_code (code s (p + 2)) \<and>
     100 * (code s p - 48) + 10 * (code s (p + 1) - 48) + (code s (p + 2) - 48) \<le> 255"
proof -
  show "p + 1 \<le> length s \<and> octet_ok (slice s p (p + 1)) \<longleftrightarrow> digit_code (code s p)"
    by (auto simp: slice_codes octet_ok_def digit_code_iff decimal_def is_digit_def Let_def)
  show "p + 2 \<le> length s \<and> octet_ok (slice s p (p + 2)) \<longleftrightarrow> digit_code (code s p) \<and> digit_code (code s (p + 1))"
    by (cases "p + 2 \<le> length s")
      (auto simp: slice_codes octet_ok_def digit_code_iff decimal_def is_digit_def Let_def)
  show "p + 3 \<le> length s \<and> octet_ok (slice s p (p + 3)) \<longleftrightarrow>
     digit_code (code s p) \<and> digit_code (code s (p + 1)) \<and> digit_code (code s (p + 2)) \<and>
     100 * (code s p - 48) + 10 * (code s (p + 1) - 48) + (code s (p + 2) - 48) \<le> 255"
    by (cases "p + 3 \<le> length s")
      (auto simp: slice_codes octet_ok_def digit_code_char decimal_def code_def algebra_simps)
qed

lemma octet_lang: "e \<in> set (ends octet s p) \<longleftrightarrow> e \<le> length s \<and> p < e \<and> octet_ok (slice s p e)"
proof -
  have len: "e \<in> {p + 1, p + 2, p + 3}" if "e \<le> length s" "p < e" "octet_ok (slice s p e)"
    using that by (auto simp: octet_ok_def slice_length)
  have "p + 3 \<in> set (ends octet s p) \<longleftrightarrow> p + 3 \<le> length s \<and> octet_ok (slice s p (p + 3))"
    unfolding octet_codes(3) ends_octet Let_def by (auto simp: digit_code_def)
  moreover have "p + 2 \<in> set (ends octet s p) \<longleftrightarrow> p + 2 \<le> length s \<and> octet_ok (slice s p (p + 2))"
    unfolding octet_codes(2) ends_octet Let_def by (auto simp: digit_code_def)
  moreover have "p + 1 \<in> set (ends octet s p) \<longleftrightarrow> p + 1 \<le> length s \<and> octet_ok (slice s p (p + 1))"
    unfolding octet_codes(1) ends_octet Let_def by (auto simp: digit_code_def)
  moreover have "e \<in> {p + 1, p + 2, p + 3}" if "e \<in> set (ends octet s p)"
    using that unfolding ends_octet Let_def by (auto split: if_splits)
  ultimately show ?thesis using len by auto
qed

lemma octet_greedy: "e \<in> set (ends octet s p) \<Longrightarrow> e \<le> hd (ends octet s p)"
  unfolding ends_octet Let_def by (auto simp: digit_code_def split: if_splits)

lemma octet_digits: "octet_ok (slice s p e) \<Longrightarrow> e \<le> length s \<Longrightarrow> p \<le> i \<Longrightarrow> i < e \<Longrightarrow> is_digit (s ! i)"
proof -
  assume a: "octet_ok (slice s p e)" "e \<le> length s" "p \<le> i" "i < e"
  then have "slice s p e ! (i - p) \<in> set (slice s p e)" by (intro nth_mem) (simp add: slice_length)
  then have "is_digit (slice s p e ! (i - p))" using a(1) by (auto simp: octet_ok_def list_all_iff)
  with a show ?thesis by (simp add: slice_nth)
qed

text \<open>An octet and its dot end where the first dot is, so the three of them end in one place.\<close>

definition dotted :: rx where
  "dotted = Seq octet (lit ''.'')"

lemma dotted_lang: "m \<in> set (ends dotted s p) \<longleftrightarrow>
    0 < m \<and> m - 1 \<in> set (ends octet s p) \<and> m \<le> length s \<and> s ! (m - 1) = CHR ''.''"
  unfolding dotted_def ends_Seq ends_lit
  by (cases m) (auto simp: slice_codes Suc_le_eq split: if_splits)

lemma digit_not_dot: "\<not> is_digit CHR ''.''"
  by (simp add: is_digit_def Let_def)

lemma dotted_unique: "m \<in> set (ends dotted s p) \<Longrightarrow> n \<in> set (ends dotted s p) \<Longrightarrow> m = n"
proof -
  have "\<not> m < n" if m: "m \<in> set (ends dotted s p)" and n: "n \<in> set (ends dotted s p)" for m n
  proof
    assume "m < n"
    from m n have "0 < m" "p < m - 1" "s ! (m - 1) = CHR ''.''" "n - 1 \<le> length s" "octet_ok (slice s p (n - 1))"
      by (auto simp: dotted_lang octet_lang)
    moreover from this(1) \<open>m < n\<close> have "m - 1 < n - 1" by simp
    ultimately show False using octet_digits [of s p "n - 1" "m - 1"] digit_not_dot by simp
  qed
  then show "m \<in> set (ends dotted s p) \<Longrightarrow> n \<in> set (ends dotted s p) \<Longrightarrow> m = n"
    by (meson linorder_neqE_nat)
qed

lemma times_unique:
  assumes "\<And>p m n. m \<in> set (ends r s p) \<Longrightarrow> n \<in> set (ends r s p) \<Longrightarrow> m = n"
  shows "m \<in> set (ends (times_rx k r) s p) \<Longrightarrow> n \<in> set (ends (times_rx k r) s p) \<Longrightarrow> m = n"
proof (induction k arbitrary: p)
  case (Suc k)
  then obtain a b where "a \<in> set (ends r s p)" "m \<in> set (ends (times_rx k r) s a)"
    "b \<in> set (ends r s p)" "n \<in> set (ends (times_rx k r) s b)" by (auto simp: ends_times_Suc)
  with assms [of a p b] Suc.IH [of a] show ?case by simp
qed (simp add: ends_times_0)

lemma hd_concat_map_unique:
  assumes "\<And>x. x \<in> set xs \<Longrightarrow> x = a" "xs \<noteq> []" "f a \<noteq> []"
  shows "hd (concat (map f xs)) = hd (f a)"
proof -
  from assms(1,2) obtain ys where "xs = a # ys" by (cases xs) auto
  with assms(3) show ?thesis by simp
qed

lemma ipv4_hd:
  assumes "e \<in> set (ends IPV4_PATTERN s b)"
  shows "e \<le> hd (ends IPV4_PATTERN s b)"
proof -
  let ?D = "ends (times_rx 3 dotted) s b"
  have I: "ends IPV4_PATTERN s b = concat (map (ends octet s) ?D)"
    by (simp add: IPV4_PATTERN_def dotted_def)
  with assms obtain m where m: "m \<in> set ?D" "e \<in> set (ends octet s m)" by auto
  have "hd (ends IPV4_PATTERN s b) = hd (ends octet s m)"
    unfolding I by (rule hd_concat_map_unique) (use m times_unique [OF dotted_unique] in auto)
  with octet_greedy [OF m(2)] show ?thesis by simp
qed

lemma ends_ipv4: "e \<in> set (ends IPV4_PATTERN s b) \<longleftrightarrow>
    (\<exists>m1 \<in> set (ends dotted s b). \<exists>m2 \<in> set (ends dotted s m1). \<exists>m3 \<in> set (ends dotted s m2). e \<in> set (ends octet s m3))"
  unfolding IPV4_PATTERN_def dotted_def [symmetric] ends_Seq numeral_3_eq_3
  by (auto simp: ends_times_Suc ends_times_0)

lemma dotted_slice: "m \<in> set (ends dotted s p) \<Longrightarrow>
    p < m \<and> m \<le> length s \<and> (\<exists>a. octet_ok a \<and> slice s p m = a @ ''.'')"
proof -
  assume "m \<in> set (ends dotted s p)"
  then have m: "0 < m" "m \<le> length s" "s ! (m - 1) = CHR ''.''" "p < m - 1" "octet_ok (slice s p (m - 1))"
    by (auto simp: dotted_lang octet_lang)
  moreover have "slice s p m = slice s p (m - 1) @ slice s (m - 1) m" using m by (simp add: slice_split [symmetric])
  moreover have "slice s (m - 1) m = ''.''" using m by (simp add: slice_codes)
  ultimately show ?thesis by auto
qed

lemma slice_dotted:
  assumes "slice s b e = a @ ''.'' @ v" "octet_ok a" "b \<le> e" "e \<le> length s"
  shows "b + length a + 1 \<in> set (ends dotted s b) \<and> slice s (b + length a + 1) e = v \<and> b + length a + 1 \<le> e"
proof -
  note s1 = slice_append [OF assms(1,3,4)]
  have "slice s (b + length a) e = ''.'' @ v" using s1(2) .
  note s2 = slice_append [OF this s1(3) assms(4)]
  have "s ! (b + length a) = CHR ''.''" using s2 assms(4) by (simp add: slice_codes)
  moreover have "a \<noteq> []" using assms(2) by (simp add: octet_ok_def)
  ultimately show ?thesis using s1 s2 assms by (auto simp: dotted_lang octet_lang)
qed

lemma ipv4_lang: "e \<in> set (ends IPV4_PATTERN s b) \<longleftrightarrow> b \<le> e \<and> e \<le> length s \<and> dotted_quad (slice s b e)"
proof
  assume "e \<in> set (ends IPV4_PATTERN s b)"
  then obtain m1 m2 m3 where m: "m1 \<in> set (ends dotted s b)" "m2 \<in> set (ends dotted s m1)"
    "m3 \<in> set (ends dotted s m2)" "e \<in> set (ends octet s m3)" unfolding ends_ipv4 by blast
  obtain a1 a2 a3 where a: "octet_ok a1" "slice s b m1 = a1 @ ''.''" "octet_ok a2" "slice s m1 m2 = a2 @ ''.''"
    "octet_ok a3" "slice s m2 m3 = a3 @ ''.''" using dotted_slice m by metis
  have o: "b < m1" "m1 < m2" "m2 < m3" "m3 < e" "e \<le> length s" "octet_ok (slice s m3 e)"
    using dotted_slice [OF m(1)] dotted_slice [OF m(2)] dotted_slice [OF m(3)] m(4) by (auto simp: octet_lang)
  have "slice s b e = slice s b m1 @ slice s m1 e" "slice s m1 e = slice s m1 m2 @ slice s m2 e"
    "slice s m2 e = slice s m2 m3 @ slice s m3 e" using o by (auto intro: slice_split)
  then have "slice s b e = a1 @ ''.'' @ a2 @ ''.'' @ a3 @ ''.'' @ slice s m3 e" using a by simp
  then have "dotted_quad (slice s b e)" unfolding dotted_quad_def using a o(6) by blast
  then show "b \<le> e \<and> e \<le> length s \<and> dotted_quad (slice s b e)" using o by simp
next
  assume h: "b \<le> e \<and> e \<le> length s \<and> dotted_quad (slice s b e)"
  then obtain a1 a2 a3 a4 where w: "slice s b e = a1 @ ''.'' @ a2 @ ''.'' @ a3 @ ''.'' @ a4"
    and ok: "octet_ok a1" "octet_ok a2" "octet_ok a3" "octet_ok a4" by (auto simp: dotted_quad_def)
  have be: "b \<le> e" "e \<le> length s" using h by auto
  note d1 = slice_dotted [OF w ok(1) be]
  note d2 = slice_dotted [OF conjunct1 [OF conjunct2 [OF d1]] ok(2) conjunct2 [OF conjunct2 [OF d1]] be(2)]
  note d3 = slice_dotted [OF conjunct1 [OF conjunct2 [OF d2]] ok(3) conjunct2 [OF conjunct2 [OF d2]] be(2)]
  have "e \<in> set (ends octet s (b + length a1 + 1 + length a2 + 1 + length a3 + 1))"
    unfolding octet_lang using d3 ok(4) be(2) by (auto simp: octet_ok_def le_less)
  then show "e \<in> set (ends IPV4_PATTERN s b)" unfolding ends_ipv4 using d1 d2 d3 by blast
qed

lemma dotted_quad_count: "dotted_quad w \<Longrightarrow> count_list w CHR ''.'' = 3"
proof -
  have o: "count_list a CHR ''.'' = 0" if "octet_ok a" for a
    using that digit_not_dot by (auto simp: count_list_0_iff octet_ok_def list_all_iff)
  assume "dotted_quad w"
  then show ?thesis by (auto simp: dotted_quad_def o)
qed

text \<open>C26. The IPv4 addresses are found exactly: the spans kept by \<open>_ipv4_matches\<close> are those that spell
  four octets of at most 255 separated by dots, with no digit or dot before and no digit, and no dot
  and digit, after.\<close>

lemma ipv4_exact:
  "(b, e) \<in> set (ipv4_spans s) \<longleftrightarrow>
     b \<le> e \<and> e \<le> length s \<and> dotted_quad (slice s b e) \<and> \<not> ipv4_refused s b e"
proof
  assume "(b, e) \<in> set (ipv4_spans s)"
  then have "(b, e) \<in> set (finditer IPV4_PATTERN s)" "\<not> ipv4_refused s b e" by (auto simp: ipv4_spans_def)
  with finditer_match [of b e IPV4_PATTERN s] show "b \<le> e \<and> e \<le> length s \<and> dotted_quad (slice s b e) \<and> \<not> ipv4_refused s b e"
    by (simp add: ipv4_lang)
next
  assume h: "b \<le> e \<and> e \<le> length s \<and> dotted_quad (slice s b e) \<and> \<not> ipv4_refused s b e"
  then have e: "e \<in> set (ends IPV4_PATTERN s b)" by (simp add: ipv4_lang)
  have digit_dot: "is_digit (s ! i) \<or> s ! i = CHR ''.''" if "e' \<in> set (ends IPV4_PATTERN s b')" "b' \<le> i" "i < e'" for b' e' i
  proof -
    have q: "b' \<le> e'" "e' \<le> length s" "dotted_quad (slice s b' e')" using that(1) by (auto simp: ipv4_lang)
    then have "slice s b' e' ! (i - b') \<in> set (slice s b' e')" using that by (intro nth_mem) (simp add: slice_length)
    moreover have "\<forall>c \<in> set (slice s b' e'). is_digit c \<or> c = CHR ''.''"
      using q(3) by (auto simp: dotted_quad_def octet_ok_def list_all_iff)
    ultimately show ?thesis using that q by (auto simp: slice_nth)
  qed
  have prog: "p < hd (ends IPV4_PATTERN s p)" if "[] \<noteq> ends IPV4_PATTERN s p" for p
  proof -
    have "hd (ends IPV4_PATTERN s p) \<in> set (ends IPV4_PATTERN s p)" using that by (metis hd_in_set)
    then have "dotted_quad (slice s p (hd (ends IPV4_PATTERN s p)))" "p \<le> hd (ends IPV4_PATTERN s p)" by (auto simp: ipv4_lang)
    then show ?thesis by (cases "p = hd (ends IPV4_PATTERN s p)") (auto simp: dotted_quad_def)
  qed
  obtain b' e' where m: "(b', e') \<in> set (finditer IPV4_PATTERN s)" "b' \<le> b" "b < e'"
    using finditer_covers [of b s IPV4_PATTERN] prog e h by (metis empty_iff le_trans list.set(1))
  have e': "e' \<in> set (ends IPV4_PATTERN s b')" by (rule finditer_match [OF m(1)])
  have bb: "b' = b"
  proof (rule ccontr)
    assume "b' \<noteq> b"
    with m have "b' \<le> b - 1" "b - 1 < e'" "0 < b" by auto
    from digit_dot [OF e' this(1,2)] this(3) h show False by (auto simp: ipv4_refused_def before_is_def)
  qed
  obtain es where "ends IPV4_PATTERN s b' = e' # es" using finditer_sound [of b' e'] m(1) by (fastforce simp: finditer_def)
  then have "e \<le> e'" using ipv4_hd [OF e] bb by simp
  moreover have "\<not> e < e'"
  proof
    assume lt: "e < e'"
    have "is_digit (s ! e) \<or> s ! e = CHR ''.''" using digit_dot [OF e'] bb lt h by simp
    moreover have "\<not> is_digit (s ! e)" using h lt e' by (auto simp: ipv4_refused_def after_is_def ipv4_lang)
    ultimately have dot: "s ! e = CHR ''.''" by blast
    have q: "dotted_quad (slice s b e)" "dotted_quad (slice s b e')" "e' \<le> length s"
      using h e' bb by (auto simp: ipv4_lang)
    have "slice s b e' = slice s b e @ slice s e e'" using h lt by (intro slice_split) auto
    moreover have "CHR ''.'' \<in> set (slice s e e')"
      using dot lt q(3) by (metis le_add1 le_add_diff_inverse less_diff_conv less_imp_le nth_mem slice_length slice_nth zero_less_diff add_0_right)
    ultimately show False using dotted_quad_count [OF q(1)] dotted_quad_count [OF q(2)]
      by (simp add: count_list_0_iff)
  qed
  ultimately have "e' = e" by simp
  with m bb h show "(b, e) \<in> set (ipv4_spans s)" by (simp add: ipv4_spans_def)
qed

section \<open>The form of each value\<close>

definition mac_form :: "string \<Rightarrow> bool" where
  "mac_form w \<longleftrightarrow> length w = 17 \<and>
     list_all (\<lambda>i. if i mod 3 = 2 then w ! i = CHR '':'' else is_hex (w ! i) \<and> \<not> is_upper_letter (w ! i)) [0..<17]"

definition asn_form :: "string \<Rightarrow> bool" where
  "asn_form w \<longleftrightarrow> (\<exists>ds. w = ''AS'' @ ds \<and> ds \<noteq> [] \<and> length ds \<le> 10 \<and> list_all is_digit ds)"

definition cve_form :: "string \<Rightarrow> bool" where
  "cve_form w \<longleftrightarrow> (\<exists>y n. w = ''CVE-'' @ y @ ''-'' @ n \<and> length y = 4 \<and> 4 \<le> length n \<and> length n \<le> 12 \<and>
     list_all is_digit y \<and> list_all is_digit n)"

definition ttp_form :: "string \<Rightarrow> bool" where
  "ttp_form w \<longleftrightarrow> (\<exists>t d sub. w = t @ d @ sub \<and> t \<in> {''T'', ''TA''} \<and> length d = 4 \<and> list_all is_digit d \<and>
     (sub = [] \<or> (\<exists>x. sub = ''.'' @ x \<and> length x = 3 \<and> list_all is_digit x)))"

definition hash_form :: "nat \<Rightarrow> string \<Rightarrow> bool" where
  "hash_form n w \<longleftrightarrow> length w = n \<and> list_all (\<lambda>c. is_hex c \<and> \<not> is_upper_letter c) w"

fun ioc_form :: "entity_type \<Rightarrow> string \<Rightarrow> bool" where
  "ioc_form IPV4 w = dotted_quad w"
| "ioc_form IPV6 w = (ipv6_literal w = Some w)"
| "ioc_form URL w = (starts_with (lower w) ''http://'' \<or> starts_with (lower w) ''https://'')"
| "ioc_form EMAIL w = (count_list w CHR ''@'' = 1)"
| "ioc_form DOMAIN w = (length w \<le> 253)"
| "ioc_form MD5 w = hash_form 32 w"
| "ioc_form SHA1 w = hash_form 40 w"
| "ioc_form SHA256 w = hash_form 64 w"
| "ioc_form MAC_ADDR w = mac_form w"
| "ioc_form ASN w = asn_form w"
| "ioc_form REGISTRY_KEY w = (backslash \<in> set w \<and> \<not> reg_trailing (last w))"
| "ioc_form CVE w = cve_form w"
| "ioc_form TTP w = ttp_form w"
| "ioc_form t w = (t = FILE)"

definition well_formed :: "raw_entity \<Rightarrow> bool" where
  "well_formed e \<longleftrightarrow> ioc_form (ent_type e) (ent_value e) \<and>
     (ent_type e = TTP \<longrightarrow> ent_mitre_id e = Some (ent_value e))"

lemma well_formed_ioc: "ioc_form t v \<Longrightarrow> t \<noteq> TTP \<Longrightarrow> well_formed (ioc_entity v t)"
  by (simp add: well_formed_def)

lemma first_by_subset: "set (first_by key seen vs) \<subseteq> set vs"
  by (induction key seen vs rule: first_by.induct) auto

text \<open>Hashes.\<close>

lemma lower_char_code: "(of_char (lower_char c) :: nat) = (if is_upper_letter c then of_char c + 32 else of_char c)"
proof (cases "is_upper_letter c")
  case True
  then have "(of_char c :: nat) + 32 < 256" by (auto simp: is_upper_letter_def Let_def)
  then show ?thesis using True by (simp add: lower_char_def)
qed (simp add: lower_char_def)

lemma lower_not_upper: "\<not> is_upper_letter (lower_char c)"
  unfolding is_upper_letter_def lower_char_code Let_def by (auto simp: is_upper_letter_def Let_def)

lemma lower_hex: "is_hex c \<Longrightarrow> is_hex (lower_char c)"
  unfolding is_hex_def is_digit_def lower_char_code Let_def by (auto simp: is_upper_letter_def Let_def)

lemma hashes_form: "e \<in> set (extract_hashes_regex s) \<Longrightarrow> well_formed e"
proof -
  assume "e \<in> set (extract_hashes_regex s)"
  then obtain ms where ms: "chain s ms" "ent_value e = lower (concat (words s ms))"
    "HASH_TYPE_BY_LEN (length (ent_value e)) = Some (ent_type e)"
    using hashes_sound [of s] by (auto simp: list_all_iff)
  have "is_hex c" if "c \<in> set (concat (words s ms))" for c
    using that chain_runs [OF ms(1)] by (fastforce simp: words_def hex_run_def hex_token_def list_all_iff)
  then have "list_all (\<lambda>c. is_hex c \<and> \<not> is_upper_letter c) (ent_value e)"
    unfolding ms(2) lower_def by (auto simp: list_all_iff lower_hex lower_not_upper)
  with ms(3) show ?thesis by (auto simp: HASH_TYPE_BY_LEN_def hash_form_def well_formed_def split: if_splits)
qed

text \<open>URLs keep their scheme, e-mail addresses have one at sign.\<close>

lemma trim_url_prefix: "\<not> url_trailing (last u) \<Longrightarrow> u \<noteq> [] \<Longrightarrow> \<exists>w. trim_url (u @ v) = u @ w"
proof (induction v rule: rev_induct)
  case Nil
  then show ?case by (subst trim_url.simps) auto
next
  case (snoc x v)
  show ?case
  proof (cases "url_trailing x \<and> \<not> keeps_last (u @ v @ [x])")
    case True
    then have "trim_url (u @ v @ [x]) = trim_url (u @ v)" by (subst trim_url.simps) (simp add: butlast_append)
    then show ?thesis using snoc by simp
  next
    case False
    then show ?thesis by (subst trim_url.simps) auto
  qed
qed

lemma ilit_slice: "e \<in> set (ends (ilit w) s p) \<Longrightarrow> w \<noteq> [] \<Longrightarrow> e = p + length w \<and> e \<le> length s \<and> lower (slice s p e) = lower w"
proof (induction w arbitrary: p)
  case (Cons c w)
  then have c: "p < length s" "lower_char (s ! p) = lower_char c"
    by (cases w; auto simp: ilit_def split: if_splits)+
  show ?case
  proof (cases "w = []")
    case True
    with Cons.prems have "e = Suc p" by (auto simp: ilit_def split: if_splits)
    with True c show ?thesis by (simp add: slice_codes lower_def)
  next
    case False
    then have "e \<in> set (ends (ilit w) s (Suc p))" using Cons.prems c by (cases w) (auto simp: ilit_def split: if_splits)
    from Cons.IH [OF this False] have w: "e = Suc p + length w" "e \<le> length s" "lower (slice s (Suc p) e) = lower w" by blast+
    then have "slice s p e = s ! p # slice s (Suc p) e" using slice_Suc [OF c(1), of "length w"] by simp
    with w c show ?thesis by (simp add: lower_def)
  qed
qed simp

lemma starts_with_lower_append: "lower u = p \<Longrightarrow> starts_with (lower (u @ v)) p"
  by (auto simp: lower_def)

lemma url_well_formed:
  assumes "(b, e) \<in> set (finditer URL_PATTERN s)"
  shows "ioc_form URL (trim_url (slice s b e))"
proof -
  from finditer_match [OF assms] obtain h t c where h: "h \<in> set (ends (ilit ''http'') s b)"
    and t: "t \<in> set (ends (opt (ilit ''s'')) s h)" and c: "c \<in> set (ends (lit ''://'') s t)"
    and e: "e \<in> set (ends (plus1 (Cls url_char)) s c)"
    unfolding URL_PATTERN_def seqs.simps ends_Seq by blast
  have l: "lower ''http'' = ''http''" "lower ''s'' = ''s''" by code_simp+
  have hh: "h = b + 4" "h \<le> length s" "lower (slice s b h) = ''http''"
    using ilit_slice [OF h, unfolded l] by auto
  have "t = h \<or> (t = h + 1 \<and> t \<le> length s \<and> lower (slice s h t) = ''s'')"
    using t ilit_slice [of t "''s''" s h] unfolding l by (auto simp: ends_opt)
  then have tt: "h \<le> t" "t \<le> length s" "lower (slice s h t) = '''' \<or> lower (slice s h t) = ''s''" using hh by auto
  have cc: "c = t + 3" "c \<le> length s" "slice s t c = ''://''" using c by (auto simp: ends_lit split: if_splits)
  have ee: "c < e" "e \<le> length s" using e by (simp_all add: ends_plus1)
  have o: "b \<le> h" "h \<le> t" "t \<le> c" "c \<le> e" "h \<le> c" "b \<le> c" using hh tt cc ee by simp_all
  have u: "slice s b e = slice s b c @ slice s c e" "slice s b c = slice s b h @ slice s h c" "slice s h c = slice s h t @ ''://''"
    using slice_split [OF o(6,4), of s] slice_split [OF o(1,5), of s] slice_split [OF o(2,3), of s] cc(3) by simp_all
  have "lower (slice s b c) = ''http://'' \<or> lower (slice s b c) = ''https://''"
    using u hh(3) tt(3) by (auto simp: lower_def lower_char_def is_upper_letter_def Let_def)
  moreover have "\<not> url_trailing (last (slice s b c))" "slice s b c \<noteq> []"
    using u by (auto simp: url_trailing_def)
  ultimately show ?thesis using trim_url_prefix [of "slice s b c" "slice s c e"] u(1)
    by (auto simp: starts_with_lower_append)
qed

lemma ends_Rep_Cls: "e \<in> set (ends (Rep (Cls P) lo hi) s p) \<Longrightarrow>
    p + lo \<le> e \<and> (e \<le> length s \<or> e = p) \<and> list_all P (slice s p e) \<and> (\<forall>h. hi = Some h \<longrightarrow> e \<le> p + h)"
proof -
  assume "e \<in> set (ends (Rep (Cls P) lo hi) s p)"
  then have e: "p + lo \<le> e" "e \<le> p + (case hi of None \<Rightarrow> length s - p | Some h \<Rightarrow> h)" "e \<le> length s \<or> e = p"
    "\<forall>i. p \<le> i \<and> i < e \<longrightarrow> P (s ! i)" unfolding ends.simps(5) rep_ends_Cls by blast+
  have "list_all P (slice s p e)"
    using e(3,4) by (auto simp: list_all_length slice_nth slice_length)
  with e show ?thesis by auto
qed

lemma ends_plus1_slice: "e \<in> set (ends (plus1 (Cls P)) s p) \<Longrightarrow> p < e \<and> e \<le> length s \<and> list_all P (slice s p e)"
  using ends_Rep_Cls [of e P 1 None s p] by (auto simp: plus1_def)

lemma ends_boundary: "e \<in> set (ends word_boundary s p) \<Longrightarrow> e = p"
  by (simp add: word_boundary_def split: if_splits)

lemma lower_char_at: "lower_char c = CHR ''@'' \<longleftrightarrow> c = CHR ''@''"
  by (auto simp: char_code lower_char_code is_upper_letter_def Let_def split: if_splits)

lemma count_at_lower: "count_list (lower w) CHR ''@'' = count_list w CHR ''@''"
  by (induction w) (auto simp: lower_def lower_char_at)

lemma count_at_none: "list_all P w \<Longrightarrow> \<not> P CHR ''@'' \<Longrightarrow> count_list w CHR ''@'' = 0"
  by (auto simp: count_list_0_iff list_all_iff)

lemma alnum_not_at: "\<not> is_ascii_alnum CHR ''@''" "\<not> is_ascii_alpha CHR ''@''"
  by (simp_all add: is_ascii_alnum_def is_ascii_alpha_def is_digit_def Let_def)

lemma email_well_formed:
  assumes "(b, e) \<in> set (finditer EMAIL_PATTERN s)"
  shows "ioc_form EMAIL (lower (slice s b e))"
proof -
  let ?L = "\<lambda>c. is_ascii_alnum c \<or> c \<in> set ''._%+-''" and ?D = "\<lambda>c. is_ascii_alnum c \<or> c \<in> set ''.-''"
  from finditer_match [OF assms] obtain l a d t m where l: "l \<in> set (ends (plus1 (Cls ?L)) s b)"
    and a: "a \<in> set (ends (lit ''@'') s l)" and d: "d \<in> set (ends (plus1 (Cls ?D)) s a)"
    and t: "t \<in> set (ends (lit ''.'') s d)" and m: "m \<in> set (ends (Rep (Cls is_ascii_alpha) 2 None) s t)" "e = m"
    unfolding EMAIL_PATTERN_def seqs.simps ends_Seq by (blast dest: ends_boundary)
  note ll = ends_plus1_slice [OF l] and dd = ends_plus1_slice [OF d] and mm = ends_Rep_Cls [OF m(1)]
  have aa: "a = l + 1" "a \<le> length s" "slice s l a = ''@''" using a by (auto simp: ends_lit split: if_splits)
  have tt: "t = d + 1" "t \<le> length s" "slice s d t = ''.''" using t by (auto simp: ends_lit split: if_splits)
  have "slice s b e = slice s b l @ slice s l e" "slice s l e = slice s l a @ slice s a e"
    "slice s a e = slice s a d @ slice s d e" "slice s d e = slice s d t @ slice s t e"
    by (rule slice_split; use ll aa(1) dd tt(1) mm m(2) in simp)+
  then have "slice s b e = slice s b l @ ''@'' @ slice s a d @ ''.'' @ slice s t e" using aa tt by simp
  moreover have "count_list (slice s b l) CHR ''@'' = 0" "count_list (slice s a d) CHR ''@'' = 0"
    "count_list (slice s t e) CHR ''@'' = 0"
    using ll dd mm m(2) by (auto intro!: count_at_none simp: alnum_not_at)
  ultimately show ?thesis by (simp add: count_at_lower)
qed

text \<open>MAC addresses.\<close>

definition mac_group :: rx where
  "mac_group = seqs [times_rx 2 (Cls is_hex), Cls (\<lambda>c. c \<in> set '':-'')]"

lemma MAC_COLON_HYPHEN_groups:
  "MAC_COLON_HYPHEN = seqs [word_boundary, times_rx 5 mac_group, times_rx 2 (Cls is_hex), word_boundary]"
  by (simp add: MAC_COLON_HYPHEN_def mac_group_def)

lemma mac_group_ends: "m \<in> set (ends mac_group s p) \<Longrightarrow>
    m = p + 3 \<and> m \<le> length s \<and> is_hex (s ! p) \<and> is_hex (s ! (p + 1)) \<and> s ! (p + 2) \<in> set '':-''"
  by (auto simp: mac_group_def ends_times_Cls slice_codes Suc_le_eq split: if_splits)

definition mac_chars :: "string \<Rightarrow> nat \<Rightarrow> nat \<Rightarrow> bool" where
  "mac_chars s p n \<longleftrightarrow> (\<forall>i < n. if i mod 3 = 2 then s ! (p + i) \<in> set '':-'' else is_hex (s ! (p + i)))"

lemma mac_groups_ends: "m \<in> set (ends (times_rx k mac_group) s p) \<Longrightarrow>
    m = p + 3 * k \<and> (k = 0 \<or> m \<le> length s) \<and> mac_chars s p (3 * k)"
proof (induction k arbitrary: p)
  case (Suc k)
  then obtain q where q: "q \<in> set (ends mac_group s p)" "m \<in> set (ends (times_rx k mac_group) s q)"
    by (auto simp: ends_times_Suc)
  note g = mac_group_ends [OF q(1)] and r = Suc.IH [OF q(2)]
  have "if i mod 3 = 2 then s ! (p + i) \<in> set '':-'' else is_hex (s ! (p + i))" if "i < 3 * Suc k" for i
  proof (cases "i < 3")
    case True
    then have "i = 0 \<or> i = 1 \<or> i = 2" by auto
    with g show ?thesis by auto
  next
    case False
    then obtain j where j: "i = 3 + j" by (metis add.commute le_Suc_ex not_less)
    with that have "j < 3 * k" by simp
    with r have "if j mod 3 = 2 then s ! (q + j) \<in> set '':-'' else is_hex (s ! (q + j))" unfolding mac_chars_def by blast
    moreover have "i mod 3 = j mod 3" "p + i = q + j" using j g by simp_all
    ultimately show ?thesis by (simp only:)
  qed
  then have "mac_chars s p (3 * Suc k)" unfolding mac_chars_def by blast
  then show ?case using g r by auto
qed (simp add: ends_times_0 mac_chars_def)

lemma hex_not_sep: "\<not> is_hex CHR ''-''" "\<not> is_hex CHR '':''"
  by (simp_all add: is_hex_def is_digit_def Let_def)

lemma lower_sep: "c \<in> set '':-'' \<Longrightarrow> lower_char c = c"
  by (auto simp: lower_char_def is_upper_letter_def Let_def)

lemma mac_colon_well_formed:
  assumes "(b, e) \<in> set (finditer MAC_COLON_HYPHEN s)"
  shows "mac_form (replace_char CHR ''-'' CHR '':'' (lower (slice s b e)))"
proof -
  from finditer_match [OF assms] obtain m where m: "m \<in> set (ends (times_rx 5 mac_group) s b)"
    and e: "e \<in> set (ends (times_rx 2 (Cls is_hex)) s m)"
    unfolding MAC_COLON_HYPHEN_groups seqs.simps ends_Seq by (blast dest: ends_boundary)
  note g = mac_groups_ends [OF m]
  have ee: "e = b + 17" "e \<le> length s" "is_hex (s ! (b + 15))" "is_hex (s ! (b + 16))"
    using e g by (auto simp: ends_times_Cls slice_codes add.commute split: if_splits)
  have at: "if i mod 3 = 2 then s ! (b + i) \<in> set '':-'' else is_hex (s ! (b + i))" if "i < 17" for i
  proof (cases "i < 15")
    case True
    moreover have "mac_chars s b 15" using g by simp
    ultimately show ?thesis unfolding mac_chars_def by blast
  next
    case False
    with that have "i = 15 \<or> i = 16" by auto
    with ee show ?thesis by auto
  qed
  let ?v = "replace_char CHR ''-'' CHR '':'' (lower (slice s b e))"
  have "if i mod 3 = 2 then ?v ! i = CHR '':'' else is_hex (?v ! i) \<and> \<not> is_upper_letter (?v ! i)" if iu: "i \<in> set [0..<17]" for i
  proof -
    have i: "i < 17" using iu by simp
    have v: "?v ! i = (let x = lower_char (s ! (b + i)) in if x = CHR ''-'' then CHR '':'' else x)"
      using ee i by (simp add: replace_char_def lower_def slice_nth slice_length Let_def)
    show ?thesis
    proof (cases "i mod 3 = 2")
      case True
      with at [OF i] show ?thesis unfolding v by (auto simp: lower_sep Let_def)
    next
      case False
      with at [OF i] have h: "is_hex (s ! (b + i))" by simp
      then have "lower_char (s ! (b + i)) \<noteq> CHR ''-''" using lower_hex hex_not_sep by metis
      with h False show ?thesis unfolding v by (simp add: lower_hex lower_not_upper Let_def)
    qed
  qed
  moreover have "length ?v = 17" using ee by (simp add: replace_char_def lower_def slice_length)
  ultimately show ?thesis unfolding mac_form_def list_all_iff by blast
qed

lemma mac_pairs_form:
  assumes "length raw = 12" "list_all (\<lambda>c. is_hex c \<and> \<not> is_upper_letter c) raw"
  shows "mac_form (mac_pairs raw)"
proof -
  obtain a b c d e f g h i j k l where raw: "raw = [a, b, c, d, e, f, g, h, i, j, k, l]"
    using assms(1) by (auto simp: length_Suc_conv numeral_eq_Suc)
  have p: "mac_pairs raw = [a, b, CHR '':'', c, d, CHR '':'', e, f, CHR '':'', g, h, CHR '':'', i, j, CHR '':'', k, l]"
    unfolding raw mac_pairs_def by (simp add: slice_def upt_rec)
  show ?thesis unfolding p mac_form_def using assms(2) unfolding raw by (simp add: upt_rec)
qed

lemma mac_cisco_well_formed:
  assumes "(b, e) \<in> set (finditer MAC_CISCO s)"
  shows "mac_form (mac_pairs (lower (filter (\<lambda>c. c \<noteq> CHR ''.'') (slice s b e))))"
proof -
  let ?h = "times_rx 4 (Cls is_hex)"
  from finditer_match [OF assms] obtain m1 d1 m2 d2 where m: "m1 \<in> set (ends ?h s b)" "d1 \<in> set (ends (lit ''.'') s m1)"
    "m2 \<in> set (ends ?h s d1)" "d2 \<in> set (ends (lit ''.'') s m2)" "e \<in> set (ends ?h s d2)"
    unfolding MAC_CISCO_def seqs.simps ends_Seq by (blast dest: ends_boundary)
  have l: "m1 = b + 4" "d1 = m1 + 1" "m2 = d1 + 4" "d2 = m2 + 1" "e = d2 + 4" "e \<le> length s"
    and h: "list_all is_hex (slice s b m1)" "list_all is_hex (slice s d1 m2)" "list_all is_hex (slice s d2 e)"
    and dots: "slice s m1 d1 = ''.''" "slice s m2 d2 = ''.''"
    using m by (auto simp: ends_times_Cls ends_lit split: if_splits)
  have "slice s b e = slice s b m1 @ slice s m1 e" "slice s m1 e = slice s m1 d1 @ slice s d1 e"
    "slice s d1 e = slice s d1 m2 @ slice s m2 e" "slice s m2 e = slice s m2 d2 @ slice s d2 e"
    by (rule slice_split; use l in simp)+
  moreover have "filter (\<lambda>c. c \<noteq> CHR ''.'') w = w" if "list_all is_hex w" for w
    using that by (auto simp: filter_id_conv list_all_iff is_hex_def is_digit_def Let_def)
  ultimately have f: "filter (\<lambda>c. c \<noteq> CHR ''.'') (slice s b e) = slice s b m1 @ slice s d1 m2 @ slice s d2 e"
    using h dots by simp
  show ?thesis unfolding f
    by (rule mac_pairs_form) (use h l in \<open>auto simp: lower_def slice_length list_all_iff lower_hex lower_not_upper\<close>)
qed

text \<open>AS numbers, CVE and ATT&CK ids.\<close>

lemma asn_digits_suffix:
  assumes "list_all is_digit ds" "u \<noteq> []" "\<not> is_digit (last u)"
  shows "asn_digits (u @ ds) = ds"
proof -
  obtain u0 x where "u = u0 @ [x]" using assms(2) by (cases u rule: rev_cases) auto
  then have "takeWhile is_digit (rev (u @ ds)) = rev ds"
    using assms(1,3) by (simp, subst takeWhile_append2) (auto simp: list_all_iff)
  then show ?thesis by (simp add: asn_digits_def)
qed

lemma space_not_digit: "is_space c \<Longrightarrow> \<not> is_digit c"
  by (auto simp: is_space_def is_digit_def Let_def)

lemma asn_well_formed:
  assumes "(b, e) \<in> set (finditer ASN_PATTERN s)"
  shows "asn_form (''AS'' @ asn_digits (slice s b e))"
proof -
  let ?sep = "alts [Seq (lit ''N'') (star (Cls is_space)), star (Cls is_space)]"
  from finditer_match [OF assms] obtain m n where m: "m \<in> set (ends (lit ''AS'') s b)" "n \<in> set (ends ?sep s m)"
    and e: "e \<in> set (ends (Rep (Cls is_digit) 1 (Some 10)) s n)"
    unfolding ASN_PATTERN_def seqs.simps ends_Seq by (blast dest: ends_boundary)
  have mm: "m = b + 2" "m \<le> length s" "slice s b m = ''AS''" using m(1) by (auto simp: ends_lit split: if_splits)
  note ee = ends_Rep_Cls [OF e]
  have nn: "m \<le> n \<and> (slice s m n = [] \<or> \<not> is_digit (last (slice s m n)))"
  proof -
    from m(2) consider (N) k where "k \<in> set (ends (lit ''N'') s m)" "n \<in> set (ends (star (Cls is_space)) s k)"
      | (sp) "n \<in> set (ends (star (Cls is_space)) s m)" by auto
    then show ?thesis
    proof cases
      case N
      then have k: "k = m + 1" "k \<le> length s" "slice s m k = ''N''" by (auto simp: ends_lit split: if_splits)
      have n: "k \<le> n" "list_all is_space (slice s k n)" using ends_Rep_Cls N(2) unfolding star_def by fastforce+
      then have "slice s m n = ''N'' @ slice s k n" using k slice_split [of m k n s] by simp
      moreover have "slice s k n \<noteq> [] \<Longrightarrow> \<not> is_digit (last (slice s k n))"
        using n(2) space_not_digit by (simp add: list_all_iff)
      ultimately show ?thesis using n(1) k(1) by (auto simp: is_digit_def Let_def)
    next
      case sp
      then have n: "m \<le> n" "list_all is_space (slice s m n)" using ends_Rep_Cls unfolding star_def by fastforce+
      then have "slice s m n \<noteq> [] \<Longrightarrow> \<not> is_digit (last (slice s m n))"
        using space_not_digit by (simp add: list_all_iff)
      with n(1) show ?thesis by blast
    qed
  qed
  have "slice s b e = slice s b m @ slice s m e" "slice s m e = slice s m n @ slice s n e"
    by (rule slice_split; use mm nn ee in simp)+
  then have "slice s b e = (''AS'' @ slice s m n) @ slice s n e" using mm(3) by simp
  then have "asn_digits (slice s b e) = slice s n e"
    using asn_digits_suffix [of "slice s n e" "''AS'' @ slice s m n"] ee nn
    by (auto simp: is_digit_def Let_def)
  moreover have "slice s n e \<noteq> [] \<and> length (slice s n e) \<le> 10" using ee by (auto simp: slice_length slice_def)
  ultimately show ?thesis using ee by (simp add: asn_form_def)
qed

lemma letter_cases:
  "lower_char x = CHR ''c'' \<longleftrightarrow> x = CHR ''c'' \<or> x = CHR ''C''"
  "lower_char x = CHR ''v'' \<longleftrightarrow> x = CHR ''v'' \<or> x = CHR ''V''"
  "lower_char x = CHR ''e'' \<longleftrightarrow> x = CHR ''e'' \<or> x = CHR ''E''"
  "lower_char x = CHR ''t'' \<longleftrightarrow> x = CHR ''t'' \<or> x = CHR ''T''"
  "lower_char x = CHR ''a'' \<longleftrightarrow> x = CHR ''a'' \<or> x = CHR ''A''"
  by (auto simp: char_code lower_char_code is_upper_letter_def Let_def split: if_splits)

lemma upper_letters:
  "lower_char x = CHR ''c'' \<Longrightarrow> upper_char x = CHR ''C'' \<and> \<not> cve_dash x"
  "lower_char x = CHR ''v'' \<Longrightarrow> upper_char x = CHR ''V'' \<and> \<not> cve_dash x"
  "lower_char x = CHR ''e'' \<Longrightarrow> upper_char x = CHR ''E'' \<and> \<not> cve_dash x"
  "lower_char x = CHR ''t'' \<Longrightarrow> upper_char x = CHR ''T''"
  "lower_char x = CHR ''a'' \<Longrightarrow> upper_char x = CHR ''A''"
  unfolding letter_cases by (auto simp: upper_char_def cve_dash_def Let_def) code_simp+

lemma upper_digits: "list_all is_digit w \<Longrightarrow> upper w = w"
  by (induction w) (auto simp: upper_def upper_char_def is_digit_def Let_def)

lemma dash_digits: "list_all is_digit w \<Longrightarrow> map (\<lambda>c. if cve_dash c then CHR ''-'' else c) w = w"
  by (induction w) (auto simp: cve_dash_def is_digit_def Let_def)

lemma cve_value_parts:
  "cve_value (u @ v) = cve_value u @ cve_value v"
  "list_all is_digit w \<Longrightarrow> cve_value w = w"
  "cve_dash c \<Longrightarrow> cve_value [c] = ''-''"
  by (simp_all add: cve_value_def dash_digits upper_digits) (simp_all add: upper_def upper_char_def Let_def)

lemma upper_append: "upper (u @ v) = upper u @ upper v"
  by (simp add: upper_def)

lemma cve_well_formed:
  assumes "(b, e) \<in> set (finditer CVE_PATTERN s)"
  shows "cve_form (cve_value (slice s b e))"
proof -
  let ?d4 = "times_rx 4 (Cls is_digit)"
  from finditer_match [OF assms] obtain m d y f where m: "m \<in> set (ends (ilit ''cve'') s b)" "d \<in> set (ends (Cls cve_dash) s m)"
    "y \<in> set (ends ?d4 s d)" "f \<in> set (ends (Cls cve_dash) s y)" and e: "e \<in> set (ends (Rep (Cls is_digit) 4 (Some 12)) s f)"
    unfolding CVE_PATTERN_def seqs.simps ends_Seq by blast
  note ee = ends_Rep_Cls [OF e]
  have l: "lower ''cve'' = ''cve''" by code_simp
  have mm: "m = b + 3" "m \<le> length s" "lower (slice s b m) = ''cve''" using ilit_slice [OF m(1), unfolded l] by auto
  then obtain x1 x2 x3 where w: "slice s b m = [x1, x2, x3]" "lower_char x1 = CHR ''c''" "lower_char x2 = CHR ''v''" "lower_char x3 = CHR ''e''"
    by (auto simp: lower_def map_eq_Cons_conv)
  have cve: "cve_value (slice s b m) = ''CVE''"
    using w upper_letters by (simp add: cve_value_def upper_def)
  have dd: "d = m + 1" "d \<le> length s" "slice s m d = [s ! m]" "cve_dash (s ! m)"
    "f = y + 1" "f \<le> length s" "slice s y f = [s ! y]" "cve_dash (s ! y)"
    using m(2,4) by (auto simp: slice_codes split: if_splits)
  have yy: "y = d + 4" "y \<le> length s" "list_all is_digit (slice s d y)" using m(3) by (auto simp: ends_times_Cls split: if_splits)
  have "slice s b e = slice s b m @ slice s m e" "slice s m e = slice s m d @ slice s d e"
    "slice s d e = slice s d y @ slice s y e" "slice s y e = slice s y f @ slice s f e"
    by (rule slice_split; use mm dd yy ee in simp)+
  then have "slice s b e = slice s b m @ [s ! m] @ slice s d y @ [s ! y] @ slice s f e" using dd by simp
  then have "cve_value (slice s b e) = ''CVE'' @ ''-'' @ slice s d y @ ''-'' @ slice s f e"
    using cve cve_value_parts(2) [OF yy(3)] cve_value_parts(2) [of "slice s f e"] ee cve_value_parts(3) [OF dd(4)]
      cve_value_parts(3) [OF dd(8)] by (simp only: cve_value_parts(1))
  moreover have "length (slice s d y) = 4" "4 \<le> length (slice s f e)" "length (slice s f e) \<le> 12"
    using yy dd ee by (auto simp: slice_length)
  ultimately show ?thesis using yy ee by (auto simp: cve_form_def)
qed

lemma upper_single: "lower w = ''t'' \<Longrightarrow> upper w = ''T''" "lower w = ''a'' \<Longrightarrow> upper w = ''A''"
  using upper_letters by (cases w; cases "tl w"; simp add: lower_def upper_def)+

lemma ttp_well_formed:
  assumes "(b, e) \<in> set (finditer MITRE_TTP_PATTERN s)"
  shows "ttp_form (upper (slice s b e))"
proof -
  let ?d4 = "times_rx 4 (Cls is_digit)" and ?sub = "Seq (lit ''.'') (times_rx 3 (Cls is_digit))"
  from finditer_match [OF assms] obtain m a d where m: "m \<in> set (ends (ilit ''t'') s b)" "a \<in> set (ends (opt (ilit ''a'')) s m)"
    "d \<in> set (ends ?d4 s a)" "e \<in> set (ends (opt ?sub) s d)"
    unfolding MITRE_TTP_PATTERN_def seqs.simps ends_Seq by (blast dest: ends_boundary)
  have l: "lower ''t'' = ''t''" "lower ''a'' = ''a''" by code_simp+
  have mm: "m = b + 1" "m \<le> length s" "upper (slice s b m) = ''T''"
    using ilit_slice [OF m(1), unfolded l] upper_single(1) by auto
  have aa: "m \<le> a" "a \<le> length s" "upper (slice s m a) = '''' \<or> upper (slice s m a) = ''A''"
    using m(2) mm(2) ilit_slice [of a "''a''" s m, unfolded l] upper_single(2)
    by (auto simp: ends_opt upper_def)
  have dd: "d = a + 4" "d \<le> length s" "list_all is_digit (slice s a d)" using m(3) by (auto simp: ends_times_Cls split: if_splits)
  have ee: "d \<le> e \<and> (slice s d e = [] \<or> (\<exists>x. slice s d e = ''.'' @ x \<and> length x = 3 \<and> list_all is_digit x))"
  proof -
    from m(4) consider "e = d" | k where "k \<in> set (ends (lit ''.'') s d)" "e \<in> set (ends (times_rx 3 (Cls is_digit)) s k)"
      by (auto simp: ends_opt)
    then show ?thesis
    proof cases
      case 2
      then have k: "k = d + 1" "slice s d k = ''.''" "e = k + 3" "e \<le> length s" "list_all is_digit (slice s k e)"
        by (auto simp: ends_times_Cls ends_lit split: if_splits)
      have "slice s d e = slice s d k @ slice s k e" by (rule slice_split) (use k in simp_all)
      with k show ?thesis by (auto simp: slice_length)
    qed simp
  qed
  have "slice s b e = slice s b m @ slice s m e" "slice s m e = slice s m a @ slice s a e" "slice s a e = slice s a d @ slice s d e"
    by (rule slice_split; use mm aa dd ee in simp)+
  then have "upper (slice s b e) = ''T'' @ upper (slice s m a) @ slice s a d @ upper (slice s d e)"
    using mm dd by (simp add: upper_append upper_digits)
  moreover have "upper (slice s d e) = slice s d e"
    using ee upper_digits by (auto simp: upper_def) (simp_all add: upper_char_def Let_def)
  moreover have "length (slice s a d) = 4" using dd by (simp add: slice_length)
  ultimately have u: "upper (slice s b e) = (''T'' @ upper (slice s m a)) @ slice s a d @ slice s d e"
    and len: "length (slice s a d) = 4" by simp_all
  have "''T'' @ upper (slice s m a) \<in> {''T'', ''TA''}" using aa(3) by auto
  with u len dd(3) ee show ?thesis unfolding ttp_form_def by blast
qed

section \<open>The stage\<close>

lemma network_form:
  assumes "e \<in> set (extract_network_iocs urlparse ipv6s s)"
  shows "well_formed e"
proof -
  have v6: "ipv6_literal w = Some w" if "w \<in> set (List.map_filter (\<lambda>c. ipv6_literal (strip c)) cs)" for w cs
    using that by (auto simp: map_filter_def ipv6_literal_def Let_def split: if_splits)
  have v4: "dotted_quad w" if "w \<in> set (ipv4_matches s)" for w
    using that ipv4_exact by (auto simp: ipv4_matches_def)
  have dom: "length d \<le> 253" if "domain_accepted d" for d
    using that by (simp add: domain_accepted_def DOMAIN_MAX_LENGTH_def)
  show ?thesis
    using assms v6 v4 dom url_well_formed email_well_formed
    by (auto simp: extract_network_iocs_def extract_emails_def Let_def simp del: ioc_form.simps intro!: well_formed_ioc)
      (auto intro: ioc_form.simps(1) [THEN iffD2] ioc_form.simps(2) [THEN iffD2] ioc_form.simps(5) [THEN iffD2])
qed

lemma rstrip_last: "rstrip_by P v \<noteq> [] \<Longrightarrow> \<not> P (last (rstrip_by P v))"
  by (metis hd_dropWhile last_rev rev_is_Nil_conv rstrip_by_def)

lemma registry_form: "e \<in> set (extract_registry_keys s) \<Longrightarrow> well_formed e"
proof -
  assume "e \<in> set (extract_registry_keys s)"
  then obtain b k where e: "e = ioc_entity (reg_value s b k) REGISTRY_KEY" "backslash \<in> set (reg_value s b k)"
    unfolding extract_registry_keys_def using first_by_subset by fastforce
  then have "reg_value s b k \<noteq> []" by auto
  then have "\<not> reg_trailing (last (reg_value s b k))" unfolding reg_value_def Let_def by (rule rstrip_last)
  with e show ?thesis by (simp add: well_formed_def)
qed

lemma host_form:
  "e \<in> set (extract_mac_addresses s) \<Longrightarrow> well_formed e"
  "e \<in> set (extract_asns s) \<Longrightarrow> well_formed e"
  "e \<in> set (extract_cves s) \<Longrightarrow> well_formed e"
  "e \<in> set (extract_mitre_ttps ix tactic_ids s) \<Longrightarrow> well_formed e"
  "e \<in> set (extract_file_paths s) \<Longrightarrow> well_formed e"
  "e \<in> set (extract_bare_filenames s) \<Longrightarrow> well_formed e"
proof -
  have sub: "v \<in> set vs" if "v \<in> set (first_by key {} vs)" for key :: "string \<Rightarrow> string" and v vs
    using that first_by_subset by fastforce
  show "e \<in> set (extract_mac_addresses s) \<Longrightarrow> well_formed e"
    by (auto simp: extract_mac_addresses_def well_formed_def dest!: sub
        intro: mac_colon_well_formed mac_cisco_well_formed)
  show "e \<in> set (extract_asns s) \<Longrightarrow> well_formed e"
    by (auto simp: extract_asns_def well_formed_def dest!: sub intro: asn_well_formed [simplified])
  show "e \<in> set (extract_cves s) \<Longrightarrow> well_formed e"
    by (auto simp: extract_cves_def well_formed_def dest!: sub intro: cve_well_formed)
  show "e \<in> set (extract_mitre_ttps ix tactic_ids s) \<Longrightarrow> well_formed e"
    by (auto simp: extract_mitre_ttps_def well_formed_def dest!: sub intro: ttp_well_formed)
  show "e \<in> set (extract_file_paths s) \<Longrightarrow> well_formed e" "e \<in> set (extract_bare_filenames s) \<Longrightarrow> well_formed e"
    by (auto simp: extract_file_paths_def extract_bare_filenames_def well_formed_def)
qed

text \<open>What \<open>first_by\<close> keeps: for each key, the first element with it.\<close>

lemma first_by_keys: "key ` set (first_by key seen vs) = key ` set vs - seen"
  by (induction key seen vs rule: first_by.induct) auto

lemma first_by_distinct: "distinct (map key (first_by key seen vs))"
proof (induction key seen vs rule: first_by.induct)
  case (2 key seen v vs)
  then show ?case using first_by_keys [of key "insert (key v) seen" vs] by auto
qed simp

lemma first_by_find: "k \<notin> seen \<Longrightarrow> List.find (\<lambda>v. key v = k) (first_by key seen vs) = List.find (\<lambda>v. key v = k) vs"
  by (induction key seen vs rule: first_by.induct) auto

text \<open>The regex stage yields well-formed, distinct entities: an entity is one of spaCy's or has the
  form of its type (a dotted quad, an accepted IPv6 literal, an http URL, one at sign, at most 253
  characters of domain, lower-case hex of 32, 40 or 64 digits, colon-separated MAC pairs, \<open>AS\<close> and
  up to ten digits, a registry key with a backslash and no trailing punctuation, a CVE id, an ATT&CK
  id that is also its \<open>mitre_id\<close>), and no two share value and type up to case.\<close>

lemma extract_entities_form:
  "list_all (\<lambda>e. well_formed e \<or> e \<in> set (case ner of None \<Rightarrow> [] | Some f \<Rightarrow> f (refang s)))
     (extract_entities urlparse ipv6s ix tactic_ids ner s) \<and>
   distinct (map (\<lambda>e. (lower (ent_value e), ent_type e)) (extract_entities urlparse ipv6s ix tactic_ids ner s))"
proof -
  have "well_formed e \<or> e \<in> set (case ner of None \<Rightarrow> [] | Some f \<Rightarrow> f (refang s))"
    if "e \<in> set (extract_entities urlparse ipv6s ix tactic_ids ner s)" for e
  proof -
    have "e \<in> set (extract_hashes_regex (refang s) @ extract_network_iocs urlparse ipv6s (refang s) @ extract_cves (refang s)
       @ extract_mitre_ttps ix tactic_ids (refang s) @ extract_mac_addresses (refang s) @ extract_asns (refang s)
       @ extract_file_paths (refang s) @ extract_bare_filenames (refang s) @ extract_registry_keys (refang s)
       @ (case ner of None \<Rightarrow> [] | Some f \<Rightarrow> f (refang s)))"
      using that unfolding extract_entities_def deduplicate_def Let_def by (rule subsetD [OF first_by_subset])
    then show ?thesis using hashes_form network_form host_form registry_form by auto
  qed
  then show ?thesis
    by (simp add: list_all_iff extract_entities_def deduplicate_def Let_def first_by_distinct)
qed

text \<open>Removing duplicates is exact: for each value (up to case) and type the entity kept is the
  first one extracted, and nothing else is lost.\<close>

lemma deduplicate_first:
  "distinct (map (\<lambda>e. (lower (ent_value e), ent_type e)) (deduplicate es)) \<and>
   List.find (\<lambda>e. (lower (ent_value e), ent_type e) = (v, t)) (deduplicate es) =
     List.find (\<lambda>e. (lower (ent_value e), ent_type e) = (v, t)) es"
  using first_by_find [of "(v, t)" "{}" "\<lambda>e. (lower (ent_value e), ent_type e)" es]
  by (simp add: deduplicate_def first_by_distinct)

end
