(* ===== verification/Chunks.thy ===== *)
theory Chunks
  imports Regex
begin

text \<open>
  The windows the NER models read a report through: \<open>_iter_chunks\<close> of pipeline/stage2d_cyner.py
  and of pipeline/stage2e_gliner.py, the same loop with a chunk width and an overlap. A chunk ends
  at white space when there is some past a quarter of the width, else in the middle of a word.
\<close>

section \<open>The loop\<close>

text \<open>\<open>while boundary > start and not text[boundary].isspace(): boundary -= 1\<close>.\<close>

fun walk_back :: "string \<Rightarrow> nat \<Rightarrow> nat \<Rightarrow> nat" where
  "walk_back s start 0 = 0"
| "walk_back s start (Suc k) = (if start < Suc k \<and> \<not> is_space (s ! Suc k) then walk_back s start k else Suc k)"

definition min_chunk_chars :: "nat \<Rightarrow> nat" where
  "min_chunk_chars width = width div 4"

definition chunk_end :: "nat \<Rightarrow> string \<Rightarrow> nat \<Rightarrow> nat" where
  "chunk_end width s start =
    (let stop = min (start + width) (length s) in
     if stop < length s then
       (let boundary = walk_back s start stop in
        if min_chunk_chars width \<le> boundary - start then boundary else stop)
     else stop)"

function iter_from :: "nat \<Rightarrow> nat \<Rightarrow> string \<Rightarrow> nat \<Rightarrow> (string \<times> nat) list" where
  "iter_from width overlap s start =
    (if length s \<le> start then []
     else let stop = chunk_end width s start in
       (slice s start stop, start) #
       iter_from width overlap s (if stop < length s then max (start + 1) (stop - overlap) else length s))"
  by pat_completeness auto
termination by (relation "measure (\<lambda>(w, v, s, start). length s - start)") (auto simp: Let_def)

declare iter_from.simps [simp del]

definition iter_chunks :: "nat \<Rightarrow> nat \<Rightarrow> string \<Rightarrow> (string \<times> nat) list" where
  "iter_chunks width overlap s = iter_from width overlap s 0"

text \<open>The defaults of both models.\<close>

definition CHUNK_CHARS :: nat where "CHUNK_CHARS = 1600"
definition OVERLAP_CHARS :: nat where "OVERLAP_CHARS = 200"

section \<open>Coverage and number of chunks\<close>

lemma walk_back_bounds: "start \<le> k \<Longrightarrow> start \<le> walk_back s start k \<and> walk_back s start k \<le> k"
  by (induction s start k rule: walk_back.induct) auto

lemma chunk_end_bounds:
  assumes "start < length s"
  shows "chunk_end width s start \<le> length s" "chunk_end width s start \<le> start + width"
    and "chunk_end width s start < length s \<Longrightarrow> start + width div 4 \<le> chunk_end width s start"
proof -
  have w: "start \<le> walk_back s start (start + width) \<and> walk_back s start (start + width) \<le> start + width"
    by (rule walk_back_bounds) simp
  show "chunk_end width s start \<le> length s" "chunk_end width s start \<le> start + width"
    using assms w by (auto simp: chunk_end_def Let_def min_def)
  show "chunk_end width s start < length s \<Longrightarrow> start + width div 4 \<le> chunk_end width s start"
    using assms w by (auto simp: chunk_end_def Let_def min_def min_chunk_chars_def split: if_splits)
qed

lemma iter_from_chunk:
  "(t, p) \<in> set (iter_from width overlap s start) \<Longrightarrow>
    start \<le> p \<and> p < length s \<and> t = slice s p (chunk_end width s p)"
proof (induction width overlap s start rule: iter_from.induct)
  case (1 width overlap s start)
  let ?stop = "chunk_end width s start"
  let ?next = "if ?stop < length s then max (start + 1) (?stop - overlap) else length s"
  from 1(2) have s: "start < length s" by (subst (asm) iter_from.simps) (auto split: if_splits)
  with 1(2) have "(t, p) = (slice s start ?stop, start) \<or> (t, p) \<in> set (iter_from width overlap s ?next)"
    by (subst (asm) iter_from.simps) (simp add: Let_def)
  then show ?case
  proof
    assume "(t, p) \<in> set (iter_from width overlap s ?next)"
    with 1(1) [OF _ refl] s have "?next \<le> p \<and> p < length s \<and> t = slice s p (chunk_end width s p)" by simp
    then show ?thesis using s by (auto split: if_splits)
  qed (use s in simp)
qed

lemma iter_from_spans:
  assumes "overlap < width div 4"
  shows "start \<le> a \<Longrightarrow> a \<le> b \<Longrightarrow> b \<le> length s \<Longrightarrow> a < length s \<Longrightarrow> b - a \<le> overlap + 1 \<Longrightarrow>
    \<exists>p. (slice s p (chunk_end width s p), p) \<in> set (iter_from width overlap s start) \<and> p \<le> a \<and> b \<le> chunk_end width s p"
  using assms
proof (induction width overlap s start rule: iter_from.induct)
  case (1 width overlap s start)
  let ?stop = "chunk_end width s start"
  let ?next = "if ?stop < length s then max (start + 1) (?stop - overlap) else length s"
  have s: "start < length s" using 1(2,5) by simp
  have step: "iter_from width overlap s start = (slice s start ?stop, start) # iter_from width overlap s ?next"
    using s by (subst iter_from.simps) (simp add: Let_def)
  show ?case
  proof (cases "b \<le> ?stop")
    case True
    then show ?thesis using step 1(2) by auto
  next
    case False
    then have lt: "?stop < length s" using 1(4) by simp
    with chunk_end_bounds(3) [OF s] have "start + width div 4 \<le> ?stop" by simp
    with 1(3,6,7) False have "?next \<le> a" using lt by auto
    with 1(1) [OF _ refl] s 1(3-7)
    have "\<exists>p. (slice s p (chunk_end width s p), p) \<in> set (iter_from width overlap s ?next) \<and> p \<le> a \<and> b \<le> chunk_end width s p"
      by simp
    then show ?thesis unfolding step by auto
  qed
qed



text \<open>The number of windows is bounded by the length of the report: each one starts at least a
  quarter of the width less the overlap after the one before, so sparse white space cannot make the
  model crawl.\<close>

lemma chunks_bounded:
  assumes "overlap < width div 4"
  shows "length (iter_chunks width overlap s) * (width div 4 - overlap) < length s + width div 4"
proof -
  have "start < length s \<Longrightarrow>
    length (iter_from width overlap s start) * (width div 4 - overlap) + start < length s + width div 4" for start
  using assms proof (induction width overlap s start rule: iter_from.induct)
    case (1 width overlap s start)
    let ?stop = "chunk_end width s start"
    let ?next = "if ?stop < length s then max (start + 1) (?stop - overlap) else length s"
    have step: "iter_from width overlap s start = (slice s start ?stop, start) # iter_from width overlap s ?next"
      using 1(2) by (subst iter_from.simps) (simp add: Let_def)
    show ?case
    proof (cases "?next < length s")
      case True
      then have "?stop < length s" by (auto split: if_splits)
      moreover from this have "start + width div 4 \<le> ?stop" using chunk_end_bounds(3) [OF 1(2)] by simp
      moreover from this have "start + (width div 4 - overlap) \<le> ?stop - overlap" using 1(3) by linarith
      ultimately have "start + (width div 4 - overlap) \<le> ?next" by (simp add: le_max_iff_disj)
      moreover have "length (iter_from width overlap s ?next) * (width div 4 - overlap) + ?next < length s + width div 4"
        using 1(1) [OF _ refl] 1(2,3) True by simp
      ultimately show ?thesis unfolding step by (simp add: algebra_simps)
    next
      case False
      then have "iter_from width overlap s ?next = []" by (subst iter_from.simps) simp
      then show ?thesis unfolding step using 1(2,3) by simp
    qed
  qed
  from this [of 0] show ?thesis
  proof (cases "s = []")
    case True
    then have "iter_chunks width overlap s = []" by (simp add: iter_chunks_def iter_from.simps)
    then show ?thesis using assms by simp
  qed (simp add: iter_chunks_def)
qed

lemma chunks_bounded_witness:
  "length (iter_chunks 1600 200 ''Cobalt Strike'') * (1600 div 4 - 200) < length ''Cobalt Strike'' + 1600 div 4"
  by (rule chunks_bounded) simp

end
