(* ===== verification/Ner.thy ===== *)
theory Ner
  imports Chunks Extract Overrides Decisions
begin

text \<open>
  Named-entity recognition: what the pipeline keeps of the spans its NER models propose.
  pipeline/ner_precision.py (the precision filters), the spaCy part of
  pipeline/stage2_extraction.py, pipeline/stage2d_cyner.py (splitting, normalising and filtering
  CyNER's spans) and pipeline/stage2e_gliner.py (batches, the best span of each value, the merge).
  The models themselves are arguments: what they answer for a text or a batch. The white space of
  the patterns RE2 compiles is RE2's.
\<close>

section \<open>Vocabulary\<close>

definition NER_PRODUCT_BLOCKLIST :: "string list" where
  "NER_PRODUCT_BLOCKLIST =
    [''api'', ''sdk'', ''ide'', ''cli'', ''ui'', ''ux'', ''css'', ''html'', ''json'', ''xml'', ''yaml'',
     ''rest'', ''rpc'', ''grpc'', ''graphql'', ''http'', ''https'', ''tcp'', ''udp'', ''dns'', ''ssl'',
     ''tls'', ''oauth'', ''jwt'', ''ldap'', ''saml'', ''sso'', ''mfa'', ''2fa'', ''python'', ''javascript'',
     ''typescript'', ''java'', ''golang'', ''go'', ''rust'', ''ruby'', ''node'', ''nodejs'', ''deno'',
     ''bun'', ''php'', ''react'', ''vue'', ''angular'', ''svelte'', ''next'', ''nuxt'', ''django'', ''flask'',
     ''fastapi'', ''spring'', ''express'', ''rails'', ''linux'', ''windows'', ''macos'', ''android'', ''ios'',
     ''ubuntu'', ''debian'', ''docker'', ''kubernetes'', ''terraform'', ''ansible'', ''active directory'',
     ''npm'', ''pypi'', ''pip'', ''cargo'', ''nuget'', ''maven'', ''aws'', ''azure'', ''gcp'', ''cloudflare'',
     ''akamai'', ''ioc'', ''ttp'', ''cve'', ''cpe'', ''stix'', ''taxii'', ''c2'', ''package'', ''library'',
     ''module'', ''plugin'', ''extension'', ''script'', ''binary'', ''executable'', ''payload'', ''dropper'']"

definition GPE_BLOCKLIST :: "string list" where
  "GPE_BLOCKLIST =
    [''west'', ''east'', ''north'', ''south'', ''western'', ''eastern'', ''northern'', ''southern'',
     ''central'', ''middle'', ''far east'', ''southeast'', ''southwest'', ''northeast'', ''northwest'',
     ''internet'', ''web'', ''dark web'', ''darknet'', ''worldwide'', ''global'', ''international'',
     ''overseas'']"

definition MORE_GENERIC :: "string list" where
  "MORE_GENERIC =
    [''cybercriminal'', ''cybercriminals'', ''criminal'', ''criminals'', ''cybercrime'', ''crime'',
     ''crimeware'', ''ecrime'', ''underground'', ''forum'', ''forums'', ''marketplace'', ''marketplaces'',
     ''market'', ''markets'', ''shop'', ''shops'', ''hub'', ''hubs'', ''community'', ''ecosystem'',
     ''economy'', ''landscape'', ''scene'', ''ring'', ''cabal'', ''syndicate'', ''syndicates'', ''gang'',
     ''gangs'', ''crews'', ''adversary'', ''adversaries'', ''perpetrator'', ''perpetrators'', ''scammer'',
     ''scammers'', ''fraudster'', ''fraudsters'', ''extortionist'', ''extortionists'', ''hacktivist'',
     ''hacktivists'', ''activist'', ''activists'', ''affiliate'', ''affiliates'', ''author'', ''authors'',
     ''developer'', ''developers'', ''member'', ''members'', ''purveyor'', ''purveyors'', ''organization'',
     ''organizations'', ''organisation'', ''organisations'', ''enterprise'', ''enterprises'', ''nation'',
     ''nations'', ''regime'', ''agents'', ''intelligence'', ''spy'', ''spies'', ''kiddies'', ''script'',
     ''insider'', ''insiders'', ''botnet'', ''botnets'', ''bot'', ''bots'', ''rats'', ''banking'',
     ''keylogger'', ''keyloggers'', ''toolkit'', ''toolkits'', ''kit'', ''kits'', ''packer'', ''packers'',
     ''crypter'', ''crypters'', ''cryptominer'', ''cryptominers'', ''cryptomining'', ''grabber'',
     ''grabbers'', ''logger'', ''loggers'', ''injector'', ''injectors'', ''skimmer'', ''skimmers'', ''worm'',
     ''worms'', ''adware'', ''spyware'', ''implant'', ''implants'', ''toolset'', ''sample'', ''samples'',
     ''strain'', ''strains'', ''families'', ''executable'', ''executables'', ''remote'', ''access'', ''maas'',
     ''raas'', ''spam'', ''malspam'', ''phishing'', ''email'', ''emails'', ''spear'', ''credential'',
     ''credentials'', ''stealing'', ''theft'', ''infection'', ''infections'', ''distribution'', ''extortion'',
     ''disinformation'', ''deception'', ''influence'', ''social'', ''engineering'', ''hacking'', ''bad'',
     ''same'', ''multiple'', ''separate'', ''distinct'', ''unknown'', ''unidentified'', ''skilled'',
     ''sophisticated'', ''advanced'', ''elite'', ''level'', ''petty'', ''politically'', ''motivated'',
     ''speaking'', ''aligned'', ''organized'', ''organised'', ''coordinated'', ''mass'', ''small'',
     ''domestic'', ''internal'', ''covert'', ''hostile'', ''persistent'', ''notorious'', ''prolific'',
     ''final'', ''secondary'', ''second'', ''decoy'', ''encrypted'', ''packed'', ''mobile'', ''undisclosed'',
     ''multipurpose'', ''multistage'', ''financially'', ''financial'']"

definition DEMONYMS :: "string list" where
  "DEMONYMS =
    [''chinese'', ''russian'', ''iranian'', ''korean'', ''north'', ''south'', ''american'', ''israeli'',
     ''vietnamese'', ''pakistani'', ''indian'', ''turkish'', ''arab'', ''arabic'', ''syrian'', ''ukrainian'',
     ''belarusian'', ''european'', ''western'', ''eastern'', ''asian'']"

definition NOT_A_NAME_ALONE :: "string list" where
  "NOT_A_NAME_ALONE =
    [''agent'', ''crew'', ''miner'']"

definition PLACE_ABBREVIATIONS :: "string list" where
  "PLACE_ABBREVIATIONS =
    [''US'', ''U.S.'', ''USA'', ''U.S.A.'', ''UK'', ''U.K.'', ''UAE'', ''PRC'', ''USSR'', ''DPRK'', ''ROK'',
     ''EU'', ''KSA'', ''DC'', ''D.C.'', ''NYC'', ''HK'']"

definition COUNTRY_ISO :: "(string \<times> string) list" where
  "COUNTRY_ISO =
    [(''afghanistan'', ''AF''), (''albania'', ''AL''), (''algeria'', ''DZ''), (''angola'', ''AO''),
     (''argentina'', ''AR''), (''armenia'', ''AM''), (''australia'', ''AU''), (''austria'', ''AT''),
     (''azerbaijan'', ''AZ''), (''bahrain'', ''BH''), (''bangladesh'', ''BD''), (''belarus'', ''BY''),
     (''belgium'', ''BE''), (''bolivia'', ''BO''), (''brazil'', ''BR''), (''bulgaria'', ''BG''),
     (''cambodia'', ''KH''), (''canada'', ''CA''), (''chile'', ''CL''), (''china'', ''CN''),
     (''colombia'', ''CO''), (''croatia'', ''HR''), (''cuba'', ''CU''), (''czechia'', ''CZ''),
     (''czech republic'', ''CZ''), (''denmark'', ''DK''), (''ecuador'', ''EC''), (''egypt'', ''EG''),
     (''ethiopia'', ''ET''), (''finland'', ''FI''), (''france'', ''FR''), (''georgia'', ''GE''),
     (''germany'', ''DE''), (''ghana'', ''GH''), (''greece'', ''GR''), (''hungary'', ''HU''),
     (''india'', ''IN''), (''indonesia'', ''ID''), (''iran'', ''IR''), (''iraq'', ''IQ''),
     (''ireland'', ''IE''), (''israel'', ''IL''), (''italy'', ''IT''), (''japan'', ''JP''),
     (''jordan'', ''JO''), (''kazakhstan'', ''KZ''), (''kenya'', ''KE''), (''kuwait'', ''KW''),
     (''latvia'', ''LV''), (''lebanon'', ''LB''), (''libya'', ''LY''), (''lithuania'', ''LT''),
     (''malaysia'', ''MY''), (''mexico'', ''MX''), (''moldova'', ''MD''), (''morocco'', ''MA''),
     (''mozambique'', ''MZ''), (''myanmar'', ''MM''), (''namibia'', ''NA''), (''netherlands'', ''NL''),
     (''new zealand'', ''NZ''), (''nigeria'', ''NG''), (''north korea'', ''KP''), (''norway'', ''NO''),
     (''oman'', ''OM''), (''pakistan'', ''PK''), (''palestine'', ''PS''), (''panama'', ''PA''),
     (''peru'', ''PE''), (''philippines'', ''PH''), (''poland'', ''PL''), (''portugal'', ''PT''),
     (''qatar'', ''QA''), (''romania'', ''RO''), (''russia'', ''RU''), (''russian federation'', ''RU''),
     (''saudi arabia'', ''SA''), (''serbia'', ''RS''), (''singapore'', ''SG''), (''slovakia'', ''SK''),
     (''somalia'', ''SO''), (''south africa'', ''ZA''), (''south korea'', ''KR''), (''spain'', ''ES''),
     (''sri lanka'', ''LK''), (''sudan'', ''SD''), (''sweden'', ''SE''), (''switzerland'', ''CH''),
     (''syria'', ''SY''), (''taiwan'', ''TW''), (''tajikistan'', ''TJ''), (''thailand'', ''TH''),
     (''tunisia'', ''TN''), (''turkey'', ''TR''), (''turkmenistan'', ''TM''), (''uganda'', ''UG''),
     (''ukraine'', ''UA''), (''united arab emirates'', ''AE''), (''uae'', ''AE''),
     (''united kingdom'', ''GB''), (''uk'', ''GB''), (''great britain'', ''GB''), (''united states'', ''US''),
     (''usa'', ''US''), (''u.s.'', ''US''), (''u.s.a.'', ''US''), (''uzbekistan'', ''UZ''),
     (''venezuela'', ''VE''), (''vietnam'', ''VN''), (''yemen'', ''YE''), (''zimbabwe'', ''ZW'')]"

definition ORG_BLOCKLIST :: "string list" where
  "ORG_BLOCKLIST =
    [''microsoft'', ''google'', ''amazon'', ''apple'', ''facebook'', ''meta'', ''cloudflare'', ''akamai'',
     ''fastly'', ''npm'', ''pypi'', ''github'', ''gitlab'', ''bitbucket'', ''security'', ''team'', ''group'',
     ''organization'', ''company'', ''vendor'', ''researcher'', ''analyst'', ''government'', ''agency'',
     ''institute'']"

definition KNOWN_NON_MALWARE :: "string list" where
  "KNOWN_NON_MALWARE =
    [''winrar'', ''microscada'']"

definition KNOWN_NON_ACTORS :: "string list" where
  "KNOWN_NON_ACTORS =
    [''russia'', ''moscow'']"

definition countries :: "string list" where
  "countries = map fst COUNTRY_ISO @ [''korea'', ''prc'', ''dprk'', ''us'', ''usa'', ''hong kong'']"

definition platforms :: "string list" where
  "platforms = NER_PRODUCT_BLOCKLIST @ [''powershell'', ''mac'', ''vbs'', ''vba'', ''excel'', ''office'']"

section \<open>Precision filters\<close>

text \<open>\<open>" ".join(ws)\<close>, \<open>c.isupper()\<close>, \<open>c.islower()\<close>.\<close>

definition join_space :: "string list \<Rightarrow> string" where
  "join_space ws = (case ws of [] \<Rightarrow> [] | w # us \<Rightarrow> w @ concat (map (\<lambda>u. '' '' @ u) us))"

definition is_lower_letter :: "char \<Rightarrow> bool" where
  "is_lower_letter c \<longleftrightarrow> is_alpha c \<and> \<not> is_upper_letter c"

definition all_upper :: "string \<Rightarrow> bool" where
  "all_upper cs \<longleftrightarrow> list_all is_upper_letter cs"

definition ner_tokens :: "string \<Rightarrow> string list" where
  "ner_tokens v = split_ws (replace_char CHR ''-'' CHR '' '' (lower v))"

definition all_generic :: "string \<Rightarrow> string list \<Rightarrow> bool" where
  "all_generic v extra \<longleftrightarrow> filter (\<lambda>t. 3 \<le> length t \<and> t \<notin> set GENERIC_TOKENS \<and> t \<notin> set MORE_GENERIC \<and> t \<notin> set extra)
     (ner_tokens v) = []"

definition CASED_TEXT_SHARE :: rat where
  "CASED_TEXT_SHARE = 1 / 200"

definition word_edge :: "char \<Rightarrow> bool" where
  "word_edge c \<longleftrightarrow> c \<in> set ''.,;:!?()[]{}'' \<or> of_char c \<in> {34 :: nat, 39}"

definition text_is_cased :: "string \<Rightarrow> bool" where
  "text_is_cased s =
    (let ws = filter (\<lambda>w. w \<noteq> [] \<and> list_all is_alpha w) (map (strip_by word_edge) (split_ws s));
         letters = sum_list (map length ws);
         uppers = sum_list (map (\<lambda>w. length (filter is_upper_letter w)) ws) in
     letters = 0 \<or> CASED_TEXT_SHARE * of_nat letters \<le> of_nat uppers)"

text \<open>\<open>^cve-[0-9]{4}-[0-9]+$\<close>.\<close>

definition is_cve_id :: "string \<Rightarrow> bool" where
  "is_cve_id v \<longleftrightarrow> fullmatch (seqs [lit ''cve-'', times_rx 4 (Cls is_digit), lit ''-'', plus1 (Cls is_digit)]) v"

definition actor_is_ordinary :: "string \<Rightarrow> bool \<Rightarrow> bool" where
  "actor_is_ordinary v cased =
    (let low = lower v in
     if \<not> list_ex is_alpha v \<or> is_cve_id low \<or> low \<in> set NOT_A_NAME_ALONE then True
     else if cased \<and> \<not> list_ex (\<lambda>c. is_upper_letter c \<or> is_py_digit c) v then True
     else if (if starts_with low ''the '' then drop 4 low else low) \<in> set countries then True
     else if join_space (split_ws low) \<in> set platforms then True
     else all_generic v (platforms @ DEMONYMS @ countries))"

definition refine_cyner :: "string \<Rightarrow> entity_type \<Rightarrow> bool \<Rightarrow> string" where
  "refine_cyner v etype cased = (if etype = THREAT_ACTOR \<and> actor_is_ordinary v cased then [] else v)"

definition is_country :: "string \<Rightarrow> bool" where
  "is_country v \<longleftrightarrow> lower v \<in> set countries \<or> v \<in> set PLACE_ABBREVIATIONS"

text \<open>\<open>value[max(value.rfind(" ", 0, i), value.rfind("-", 0, i)) + 1 : i]\<close>: the word read so far.\<close>

definition word_before :: "string \<Rightarrow> nat \<Rightarrow> string" where
  "word_before v i = rev (takeWhile (\<lambda>c. c \<notin> set '' -'') (rev (take i v)))"

definition camel_case :: "string \<Rightarrow> bool" where
  "camel_case v = list_ex (\<lambda>i. is_upper_letter (v ! i) \<and> is_lower_letter (v ! (i - 1)) \<and>
     word_before v i \<notin> {''Mc'', ''Mac''}) [1..<length v]"

definition place_punctuation :: "char \<Rightarrow> bool" where
  "place_punctuation c \<longleftrightarrow> c \<in> set '' .-'' \<or> of_char c = (39 :: nat)"

definition place_name :: "string \<Rightarrow> string" where
  "place_name v0 =
    (let v = join_space (split_ws v0);
         v = (if starts_with (lower v) ''the '' then drop 4 v else v);
         v = rstrip_by (\<lambda>c. of_char c = (39 :: nat)) v;
         letters = filter is_alpha v in
     if v = [] then []
     else if \<not> is_upper_letter (hd v) then []
     else if is_country v then v
     else if \<not> list_all (\<lambda>c. is_alpha c \<or> place_punctuation c) v then []
     else if length letters \<le> 5 \<and> all_upper letters then []
     else if camel_case v then []
     else if all_generic v platforms then []
     else v)"

definition refine_spacy :: "string \<Rightarrow> entity_type \<Rightarrow> string" where
  "refine_spacy v etype = (if etype = LOCATION then place_name v else v)"

section \<open>spaCy\<close>

record spacy_span =
  sp_label :: string
  sp_text :: string
  sp_sentence :: string

definition SPACY_LABELS :: "string \<Rightarrow> entity_type option" where
  "SPACY_LABELS l = map_of [(''PRODUCT'', MALWARE), (''GPE'', LOCATION)] l"

text \<open>\<open>_VERSION_PATTERN.fullmatch\<close>.\<close>

definition is_version :: "string \<Rightarrow> bool" where
  "is_version v \<longleftrightarrow> fullmatch (seqs [plus1 (Cls is_digit), star (Cls (\<lambda>c. is_digit c \<or> c \<in> set ''.-'')), plus1 (Cls is_digit)]) v"

definition spacy_entity :: "bool \<Rightarrow> spacy_span \<Rightarrow> raw_entity option" where
  "spacy_entity refine sp =
    (case SPACY_LABELS (sp_label sp) of None \<Rightarrow> None | Some etype \<Rightarrow>
      (let v = strip (sp_text sp) in
       if is_version v \<or> starts_with v ''@'' \<or> length v \<le> 2 \<or> list_all is_py_digit v then None
       else let v = (if refine then refine_spacy v etype else v) in
       if refine \<and> length v \<le> 2 then None
       else if lower v \<in> set (if etype = MALWARE then NER_PRODUCT_BLOCKLIST else GPE_BLOCKLIST) then None
       else Some ((ioc_entity v etype)\<lparr>ent_context := take 200 (sp_sentence sp),
          ent_confidence := (if etype = MALWARE then 6 / 10 else 72 / 100), ent_source := ''spacy''\<rparr>)))"

definition extract_ner_entities :: "bool \<Rightarrow> (string \<Rightarrow> spacy_span list) \<Rightarrow> string \<Rightarrow> raw_entity list" where
  "extract_ner_entities refine nlp s = List.map_filter (spacy_entity refine) (nlp (take 100000 s))"

section \<open>CyNER\<close>

definition CYNER_LABELS :: "string \<Rightarrow> entity_type option" where
  "CYNER_LABELS l = map_of [(''Malware'', MALWARE), (''Threat_group'', THREAT_ACTOR)] l"

definition MEDIUM_THRESH :: rat where
  "MEDIUM_THRESH = 7 / 10"

definition re2_space :: "char \<Rightarrow> bool" where
  "re2_space c \<longleftrightarrow> of_char c \<in> {9 :: nat, 10, 12, 13, 32}"

definition LEADING_ARTICLE :: rx where
  "LEADING_ARTICLE = Seq (alts [ilit ''the'', ilit ''a'', ilit ''an'']) (plus1 (Cls re2_space))"

definition normalize_candidate :: "string \<Rightarrow> string" where
  "normalize_candidate v0 =
    (let v = strip (case ends LEADING_ARTICLE v0 0 of [] \<Rightarrow> v0 | e # _ \<Rightarrow> drop e v0) in
     strip (if v \<noteq> [] \<and> last v = CHR ''.'' then butlast v else v))"

definition collapse_repeated_token :: "string \<Rightarrow> string" where
  "collapse_repeated_token v = join_space (fold (\<lambda>tok collapsed.
     if collapsed \<noteq> [] \<and> lower (last collapsed) = lower tok then collapsed else collapsed @ [tok]) (split_ws v) [])"

definition BOUNDARY_ARTIFACT :: rx where
  "BOUNDARY_ARTIFACT = Seq (lit ''.'') (Cls re2_space)"

definition has_boundary_artifact :: "string \<Rightarrow> bool" where
  "has_boundary_artifact v \<longleftrightarrow> search BOUNDARY_ARTIFACT v \<noteq> None \<or> list_ex (\<lambda>c. 127 < (of_char c :: nat)) v
     \<or> (2 \<le> length v \<and> is_lower_alpha (v ! 0) \<and> re2_space (v ! 1))"

definition split_fragments :: "string \<Rightarrow> string list" where
  "split_fragments v =
    (let ps = filter (\<lambda>p. p \<noteq> []) (map strip (split_on CHR '','' (replace_char CHR ''/'' CHR '','' v))) in
     if 1 < length ps then ps else [v])"

text \<open>\<open>_VERSION_RE.match\<close>: two characters or more, digits at both ends.\<close>

definition is_cyner_version :: "string \<Rightarrow> bool" where
  "is_cyner_version v \<longleftrightarrow> fullmatch (seqs [Cls is_digit, star (Cls (\<lambda>c. is_digit c \<or> c \<in> set ''.-'')), Cls is_digit]) v"

record prediction =
  p_label :: string
  p_score :: rat
  p_word :: string
  p_start :: "nat option"
  p_end :: "nat option"

text \<open>\<open>drop_denied\<close> on entities.\<close>

definition drop_denied_entities :: "rules \<Rightarrow> raw_entity list \<Rightarrow> raw_entity list" where
  "drop_denied_entities R es = (if denied_keys R = {} then es
     else filter (\<lambda>e. (normalise (ent_value e), etype_value (ent_type e)) \<notin> denied_keys R) es)"

text \<open>One fragment of a span: its value, or \<open>None\<close> when a filter drops it.\<close>

definition cyner_fragment :: "bool \<Rightarrow> bool \<Rightarrow> entity_type \<Rightarrow> string \<Rightarrow> string option" where
  "cyner_fragment refine cased etype fragment =
    (let v = collapse_repeated_token (normalize_candidate fragment);
         v = (if refine then refine_cyner v etype cased else v) in
     if length v < 3 then None
     else if has_boundary_artifact v then None
     else if etype = THREAT_ACTOR \<and> (lower v \<in> set ORG_BLOCKLIST \<or> is_generic_fragment v (set KNOWN_NON_ACTORS)) then None
     else if etype = MALWARE \<and> is_generic_fragment v (set KNOWN_NON_MALWARE) then None
     else Some v)"

definition cyner_prediction :: "(entity_type \<Rightarrow> rat) \<Rightarrow> bool \<Rightarrow> bool \<Rightarrow> prediction \<Rightarrow> raw_entity list" where
  "cyner_prediction cutoff refine cased pred =
    (case CYNER_LABELS (p_label pred) of None \<Rightarrow> [] | Some etype \<Rightarrow>
      (let raw = strip (p_word pred) in
       if p_score pred < cutoff etype \<or> length raw < 3 \<or> is_cyner_version raw \<or> starts_with raw ''@'' then []
       else map (\<lambda>v. (ioc_entity v etype)\<lparr>ent_confidence := round4 (p_score pred), ent_source := ''cyner''\<rparr>)
         (List.map_filter (cyner_fragment refine cased etype) (split_fragments raw))))"

text \<open>\<open>model\<close> answers for the list of chunks; \<open>None\<close> is its exception.\<close>

definition extract_cyner_entities ::
  "nat \<Rightarrow> (entity_type \<Rightarrow> rat) \<Rightarrow> bool \<Rightarrow> rules \<Rightarrow> (string list \<Rightarrow> prediction list option) \<Rightarrow> string \<Rightarrow> raw_entity list" where
  "extract_cyner_entities width cutoff enabled R model s =
    (let chunks = filter (\<lambda>c. strip c \<noteq> []) (map fst (iter_chunks width OVERLAP_CHARS s)) in
     if chunks = [] then []
     else case model chunks of None \<Rightarrow> [] | Some preds \<Rightarrow>
       (let cased = (enabled \<and> text_is_cased s) in
        drop_denied_entities R (first_by (\<lambda>e. (lower (ent_value e), ent_type e)) {}
          (concat (map (cyner_prediction cutoff enabled cased) preds)))))"

section \<open>GLiNER\<close>

definition GLINER_LABELS :: "string \<Rightarrow> entity_type option" where
  "GLINER_LABELS l = map_of [(''malware family'', MALWARE), (''threat actor group'', THREAT_ACTOR),
     (''targeted sector'', IDENTITY), (''targeted country'', LOCATION), (''attack campaign'', CAMPAIGN),
     (''attack infrastructure'', INFRASTRUCTURE)] l"

text \<open>What a batch call returns: an exception, a flat list or a list per chunk.\<close>

datatype batch_answer = Failed | Flat "prediction list" | Nested "prediction list list"

definition batch_predictions :: "(string list \<Rightarrow> batch_answer) \<Rightarrow> (string \<Rightarrow> prediction list option) \<Rightarrow>
    string list \<Rightarrow> prediction list list" where
  "batch_predictions ask_batch ask_one batch =
    (let fallback = map (\<lambda>c. case ask_one c of None \<Rightarrow> [] | Some ps \<Rightarrow> ps) batch;
         answers = (case ask_batch batch of
            Failed \<Rightarrow> None
          | Flat [] \<Rightarrow> Some (map (\<lambda>_. []) batch)
          | Nested [] \<Rightarrow> Some (map (\<lambda>_. []) batch)
          | Flat ps \<Rightarrow> Some [ps]
          | Nested pss \<Rightarrow> Some pss) in
     case answers of None \<Rightarrow> fallback | Some pss \<Rightarrow> if length pss \<noteq> length batch then fallback else pss)"

definition span_text :: "string \<Rightarrow> prediction \<Rightarrow> string \<Rightarrow> string" where
  "span_text chunk pred v =
    (case (p_start pred, p_end pred) of
       (Some b, Some e) \<Rightarrow> (if \<not> (b < e \<and> e \<le> length chunk) then []
          else let spn = strip (slice chunk b e) in if lower spn = lower v then spn else [])
     | _ \<Rightarrow> [])"

definition recover_casing :: "string \<Rightarrow> string \<Rightarrow> string" where
  "recover_casing v ctx =
    (case filter (\<lambda>(b, e). \<not> glued_to_a_word ctx b e) (finditer (ilit v) ctx) of
       [] \<Rightarrow> v | (b, e) # _ \<Rightarrow> slice ctx b e)"

text \<open>\<open>re.fullmatch(r"\d[\d.\-]*\d?", value)\<close>.\<close>

definition is_gliner_version :: "string \<Rightarrow> bool" where
  "is_gliner_version v \<longleftrightarrow> fullmatch (seqs [Cls is_digit, star (Cls (\<lambda>c. is_digit c \<or> c \<in> set ''.-'')), opt (Cls is_digit)]) v"

type_synonym gliner_best = "(string \<times> entity_type, rat \<times> string \<times> string) dict"

definition gliner_keeps :: "(entity_type \<Rightarrow> rat) \<Rightarrow> prediction \<Rightarrow> entity_type option" where
  "gliner_keeps cutoff pred =
    (case GLINER_LABELS (p_label pred) of None \<Rightarrow> None | Some etype \<Rightarrow>
      (let v = strip (p_word pred) in
       if length v < 3 \<or> p_score pred < cutoff etype \<or> is_gliner_version v then None else Some etype))"

definition gliner_step :: "(entity_type \<Rightarrow> rat) \<Rightarrow> prediction \<times> string \<Rightarrow> gliner_best \<Rightarrow> gliner_best" where
  "gliner_step cutoff pc best =
    (let pred = fst pc; chunk = snd pc in
     case gliner_keeps cutoff pred of None \<Rightarrow> best | Some etype \<Rightarrow>
      (let v = strip (p_word pred); b = (case p_start pred of None \<Rightarrow> 0 | Some b \<Rightarrow> b);
           e = (case p_end pred of None \<Rightarrow> b | Some e \<Rightarrow> e);
           ctx = strip (slice chunk (b - 50) (min (length chunk) (e + 50)));
           key = (lower v, etype) in
       case map_of best key of
         Some (score, _) \<Rightarrow> if score < p_score pred then dset key (p_score pred, ctx, span_text chunk pred v) best else best
       | None \<Rightarrow> dset key (p_score pred, ctx, span_text chunk pred v) best))"

definition gliner_entity :: "(string \<times> entity_type) \<times> rat \<times> string \<times> string \<Rightarrow> raw_entity" where
  "gliner_entity kv = (case kv of ((v, etype), score, ctx, spn) \<Rightarrow>
     (ioc_entity (if spn = [] then recover_casing v ctx else spn) etype)\<lparr>ent_context := take 200 ctx,
        ent_confidence := round4 score, ent_source := ''gliner''\<rparr>)"

text \<open>\<open>range(0, n, batch)\<close> and the slices of the chunks.\<close>

function batches :: "nat \<Rightarrow> 'a list \<Rightarrow> 'a list list" where
  "batches n xs = (if xs = [] then [] else take (max 1 n) xs # batches n (drop (max 1 n) xs))"
  by pat_completeness auto
termination by (relation "measure (length \<circ> snd)") auto

declare batches.simps [simp del]

definition gliner_pairs :: "nat \<Rightarrow> (string list \<Rightarrow> batch_answer) \<Rightarrow> (string \<Rightarrow> prediction list option) \<Rightarrow>
    string list \<Rightarrow> (prediction \<times> string) list" where
  "gliner_pairs batch_size ask_batch ask_one chunks =
    concat (map (\<lambda>batch. concat (map (\<lambda>(ps, c). map (\<lambda>p. (p, c)) ps) (zip (batch_predictions ask_batch ask_one batch) batch)))
      (batches batch_size chunks))"

definition extract_gliner_entities ::
  "nat \<Rightarrow> nat \<Rightarrow> (entity_type \<Rightarrow> rat) \<Rightarrow> rules \<Rightarrow> (string list \<Rightarrow> batch_answer) \<Rightarrow> (string \<Rightarrow> prediction list option) \<Rightarrow>
    string \<Rightarrow> raw_entity list" where
  "extract_gliner_entities width batch_size cutoff R ask_batch ask_one s =
    (let chunks = filter (\<lambda>c. strip c \<noteq> []) (map fst (iter_chunks width OVERLAP_CHARS s));
         best = fold (gliner_step cutoff) (gliner_pairs batch_size ask_batch ask_one chunks) [] in
     drop_denied_entities R (sort_key (\<lambda>e. - ent_confidence e) (map gliner_entity best)))"

definition merge_gliner_into :: "raw_entity list \<Rightarrow> raw_entity list \<Rightarrow> raw_entity list" where
  "merge_gliner_into all_entities gliner =
    (let hp_types = {MALWARE, THREAT_ACTOR};
         hp_values = (\<lambda>e. lower (ent_value e)) ` set (filter (\<lambda>e. ent_source e \<in> {''gazetteer'', ''cyner'', ''ioc''}
           \<and> ent_type e \<in> hp_types) all_entities) in
     all_entities @ first_by (\<lambda>e. (lower (ent_value e), ent_type e)) ((\<lambda>e. (lower (ent_value e), ent_type e)) ` set all_entities)
       (filter (\<lambda>e. \<not> (ent_type e \<in> hp_types \<and> lower (ent_value e) \<in> hp_values)) gliner))"

end
