(* ===== verification/NerSound.thy ===== *)
theory NerSound
  imports Ner ExtractSound
begin

text \<open>
  What the NER stages let through: CyNER's fragments carry a name, GLiNER keeps the best span of
  each value, its batches never lose a chunk, and the merge respects the more precise sources.
\<close>

section \<open>CyNER\<close>

text \<open>The fragment names something: a token of three characters or more outside the generic vocabulary.\<close>

definition names_something :: "string \<Rightarrow> bool" where
  "names_something v \<longleftrightarrow> \<not> is_generic_fragment v {}"

definition cyner_named :: "bool \<Rightarrow> bool \<Rightarrow> (entity_type \<Rightarrow> rat) \<Rightarrow> raw_entity \<Rightarrow> bool" where
  "cyner_named refine cased cutoff e \<longleftrightarrow>
     ent_type e \<in> {MALWARE, THREAT_ACTOR} \<and> 3 \<le> length (ent_value e) \<and>
     list_all (\<lambda>c. (of_char c :: nat) \<le> 127) (ent_value e) \<and> names_something (ent_value e) \<and>
     (ent_type e = THREAT_ACTOR \<longrightarrow> lower (ent_value e) \<notin> set ORG_BLOCKLIST) \<and>
     (refine \<and> ent_type e = THREAT_ACTOR \<longrightarrow> \<not> actor_is_ordinary (ent_value e) cased)"

lemma is_generic_fragment_mono: "A \<subseteq> B \<Longrightarrow> is_generic_fragment v A \<Longrightarrow> is_generic_fragment v B"
  by (auto simp: is_generic_fragment_def Let_def filter_empty_conv)

lemma cyner_fragment_named:
  assumes "cyner_fragment refine cased etype f = Some v" "etype \<in> {MALWARE, THREAT_ACTOR}"
  shows "3 \<le> length v" "list_all (\<lambda>c. (of_char c :: nat) \<le> 127) v" "names_something v"
    "etype = THREAT_ACTOR \<Longrightarrow> lower v \<notin> set ORG_BLOCKLIST"
    "refine \<Longrightarrow> etype = THREAT_ACTOR \<Longrightarrow> \<not> actor_is_ordinary v cased"
proof -
  define w where "w = collapse_repeated_token (normalize_candidate f)"
  define u where "u = (if refine then refine_cyner w etype cased else w)"
  have "cyner_fragment refine cased etype f = (if length u < 3 then None
     else if has_boundary_artifact u then None
     else if etype = THREAT_ACTOR \<and> (lower u \<in> set ORG_BLOCKLIST \<or> is_generic_fragment u (set KNOWN_NON_ACTORS)) then None
     else if etype = MALWARE \<and> is_generic_fragment u (set KNOWN_NON_MALWARE) then None
     else Some u)"
    by (simp only: cyner_fragment_def Let_def w_def u_def)
  with assms(1) have vu: "v = u" and u: "3 \<le> length u" "\<not> has_boundary_artifact u"
    "etype = THREAT_ACTOR \<Longrightarrow> lower u \<notin> set ORG_BLOCKLIST"
    "etype = THREAT_ACTOR \<Longrightarrow> \<not> is_generic_fragment u (set KNOWN_NON_ACTORS)"
    "etype = MALWARE \<Longrightarrow> \<not> is_generic_fragment u (set KNOWN_NON_MALWARE)"
    by (auto split: if_splits)
  show "3 \<le> length v" "etype = THREAT_ACTOR \<Longrightarrow> lower v \<notin> set ORG_BLOCKLIST" using u vu by simp_all
  show "list_all (\<lambda>c. (of_char c :: nat) \<le> 127) v"
    using u(2) vu by (auto simp: has_boundary_artifact_def list_ex_iff list_all_iff not_less)
  show "names_something v" using u(4,5) vu assms(2) is_generic_fragment_mono [of "{}" _ u]
    by (auto simp: names_something_def)
  assume "refine" "etype = THREAT_ACTOR"
  with u(1) vu show "\<not> actor_is_ordinary v cased" by (auto simp: u_def refine_cyner_def split: if_splits)
qed

lemma cyner_prediction_named:
  assumes "e \<in> set (cyner_prediction cutoff refine cased pred)"
  shows "cyner_named refine cased cutoff e"
proof -
  from assms obtain t where t: "CYNER_LABELS (p_label pred) = Some t"
    by (cases "CYNER_LABELS (p_label pred)") (auto simp: cyner_prediction_def)
  then have tt: "t \<in> {MALWARE, THREAT_ACTOR}" by (auto simp: CYNER_LABELS_def split: if_splits)
  from assms t obtain f v where v: "cyner_fragment refine cased t f = Some v"
    "e = (ioc_entity v t)\<lparr>ent_confidence := round4 (p_score pred), ent_source := ''cyner''\<rparr>"
    by (auto simp: cyner_prediction_def Let_def map_filter_def split: if_splits)
  note n = cyner_fragment_named [OF v(1) tt]
  have "ent_value e = v" "ent_type e = t" using v(2) by (simp_all add: ioc_entity_def)
  then show ?thesis unfolding cyner_named_def using n tt by (intro conjI impI) simp_all
qed

lemma drop_denied_entities_subset: "set (drop_denied_entities R es) \<subseteq> set es"
  by (auto simp: drop_denied_entities_def)

lemma drop_denied_entities_denied:
  "e \<in> set (drop_denied_entities R es) \<Longrightarrow> (normalise (ent_value e), etype_value (ent_type e)) \<notin> denied_keys R"
  by (auto simp: drop_denied_entities_def split: if_splits)

lemma drop_denied_entities_distinct: "distinct (map f es) \<Longrightarrow> distinct (map f (drop_denied_entities R es))"
  by (simp add: drop_denied_entities_def distinct_map_filter)

text \<open>CyNER's entities are names: whatever the model answers, every entity kept is a malware or a
  threat actor of three ASCII characters or more with a token outside the generic vocabulary, no
  actor is a blocked organisation or (with the precision filters) ordinary language, none is denied
  by an analyst's rule, and no two share value and type up to case.\<close>

lemma cyner_keeps_names:
  "list_all (\<lambda>e. cyner_named enabled (enabled \<and> text_is_cased s) cutoff e \<and>
       (normalise (ent_value e), etype_value (ent_type e)) \<notin> denied_keys R)
     (extract_cyner_entities width cutoff enabled R model s) \<and>
   distinct (map (\<lambda>e. (lower (ent_value e), ent_type e)) (extract_cyner_entities width cutoff enabled R model s))"
proof (cases "extract_cyner_entities width cutoff enabled R model s = []")
  case False
  then obtain preds where e: "extract_cyner_entities width cutoff enabled R model s =
      drop_denied_entities R (first_by (\<lambda>e. (lower (ent_value e), ent_type e)) {}
        (concat (map (cyner_prediction cutoff enabled (enabled \<and> text_is_cased s)) preds)))"
    by (auto simp: extract_cyner_entities_def Let_def split: if_splits option.splits)
  have "cyner_named enabled (enabled \<and> text_is_cased s) cutoff x \<and>
      (normalise (ent_value x), etype_value (ent_type x)) \<notin> denied_keys R"
    if "x \<in> set (extract_cyner_entities width cutoff enabled R model s)" for x
  proof -
    have "x \<in> set (concat (map (cyner_prediction cutoff enabled (enabled \<and> text_is_cased s)) preds))"
      using that unfolding e by (rule subsetD [OF first_by_subset subsetD [OF drop_denied_entities_subset]])
    then show ?thesis using that unfolding e by (auto dest: drop_denied_entities_denied intro: cyner_prediction_named)
  qed
  moreover have "distinct (map (\<lambda>e. (lower (ent_value e), ent_type e)) (extract_cyner_entities width cutoff enabled R model s))"
    unfolding e by (rule drop_denied_entities_distinct [OF first_by_distinct])
  ultimately show ?thesis by (simp add: list_all_iff)
qed simp

section \<open>GLiNER\<close>

text \<open>One list of predictions per chunk, whatever the model returns: \<open>zip(..., strict=True)\<close> cannot raise.\<close>

lemma batch_predictions_length: "length (batch_predictions ask_batch ask_one batch) = length batch"
  by (auto simp: batch_predictions_def Let_def split: batch_answer.splits list.splits option.splits)

lemma concat_batches: "concat (batches n xs) = xs"
  by (induction n xs rule: batches.induct) (subst batches.simps, auto)

text \<open>The scores of the kept spans of a value and type.\<close>

definition gliner_scores :: "(entity_type \<Rightarrow> rat) \<Rightarrow> (prediction \<times> string) list \<Rightarrow> string \<times> entity_type \<Rightarrow> rat list" where
  "gliner_scores cutoff pcs k = map (\<lambda>pc. p_score (fst pc))
     (filter (\<lambda>pc. gliner_keeps cutoff (fst pc) = Some (snd k) \<and> lower (strip (p_word (fst pc))) = fst k) pcs)"

definition best_score :: "gliner_best \<Rightarrow> string \<times> entity_type \<Rightarrow> rat option" where
  "best_score best k = map_option fst (map_of best k)"

definition max_opt :: "rat option \<Rightarrow> rat \<Rightarrow> rat option" where
  "max_opt a b = Some (case a of None \<Rightarrow> b | Some x \<Rightarrow> max x b)"

lemma gliner_step_score: "best_score (gliner_step cutoff pc best) k =
    (if gliner_keeps cutoff (fst pc) = Some (snd k) \<and> lower (strip (p_word (fst pc))) = fst k
     then max_opt (best_score best k) (p_score (fst pc)) else best_score best k)"
proof (cases "gliner_keeps cutoff (fst pc)")
  case None
  then show ?thesis by (simp add: gliner_step_def Let_def)
next
  case (Some t)
  let ?key = "(lower (strip (p_word (fst pc))), t)"
  show ?thesis
  proof (cases "k = ?key")
    case True
    then show ?thesis using Some
      by (auto simp: gliner_step_def Let_def best_score_def max_opt_def map_of_dset max_def split: option.splits prod.splits)
  next
    case False
    then have "\<not> (gliner_keeps cutoff (fst pc) = Some (snd k) \<and> lower (strip (p_word (fst pc))) = fst k)"
      using Some by (cases k) auto
    moreover have "map_of (gliner_step cutoff pc best) k = map_of best k"
      using False Some by (auto simp: gliner_step_def Let_def map_of_dset split: option.splits prod.splits)
    ultimately show ?thesis by (simp only: best_score_def if_False)
  qed
qed

lemma gliner_fold_score:
  "best_score (fold (gliner_step cutoff) pcs best) k = fold (\<lambda>x a. max_opt a x) (gliner_scores cutoff pcs k) (best_score best k)"
  by (induction pcs arbitrary: best) (simp_all add: gliner_scores_def gliner_step_score)

lemma fold_max_opt: "fold (\<lambda>x a. max_opt a x) xs (Some m) = Some (fold max xs m)"
  by (induction xs arbitrary: m) (simp_all add: max_opt_def max.commute)

lemma fold_max_opt_None: "fold (\<lambda>x a. max_opt a x) xs None = (if xs = [] then None else Some (Max (set xs)))"
proof (cases xs)
  case (Cons x ys)
  have "fold max ys x = Max (set (x # ys))" by (simp only: Max.set_eq_fold)
  then show ?thesis using Cons fold_max_opt [of ys x] by (simp add: max_opt_def)
qed simp

lemma gliner_step_distinct: "distinct (map fst best) \<Longrightarrow> distinct (map fst (gliner_step cutoff pc best))"
  by (auto simp: gliner_step_def Let_def split: option.splits prod.splits)

lemma gliner_fold_distinct: "distinct (map fst best) \<Longrightarrow> distinct (map fst (fold (gliner_step cutoff) pcs best))"
  by (induction pcs arbitrary: best) (auto intro: gliner_step_distinct)

text \<open>GLiNER's table holds the best span of each value: the windows' predictions are folded into one
  row per value (up to case) and type, whose score is the greatest of the kept predictions with that
  value and type, and there is no row for a value no prediction kept.\<close>

lemma gliner_best_is_max:
  "best_score (fold (gliner_step cutoff) pcs []) k =
     (if gliner_scores cutoff pcs k = [] then None else Some (Max (set (gliner_scores cutoff pcs k)))) \<and>
   distinct (map fst (fold (gliner_step cutoff) pcs []))"
  using gliner_fold_score [of cutoff pcs "[]" k] gliner_fold_distinct [of "[]" cutoff pcs]
  by (simp add: best_score_def [of "[]"] fold_max_opt_None)

text \<open>The merge keeps every entity there was and adds, once, the values that are new for their type and
  are not a malware or actor a more precise source already named.\<close>

lemma merge_gliner_adds:
  defines "key \<equiv> \<lambda>e. (lower (ent_value e), ent_type e)"
  shows "\<exists>added. merge_gliner_into all_entities gliner = all_entities @ added \<and> set added \<subseteq> set gliner \<and>
    distinct (map key added) \<and> key ` set added \<inter> key ` set all_entities = {} \<and>
    (\<forall>e \<in> set added. \<forall>a \<in> set all_entities. ent_type e \<in> {MALWARE, THREAT_ACTOR} \<and> ent_type a \<in> {MALWARE, THREAT_ACTOR} \<and>
       ent_source a \<in> {''gazetteer'', ''cyner'', ''ioc''} \<longrightarrow> lower (ent_value a) \<noteq> lower (ent_value e))"
proof -
  define hp where "hp = (\<lambda>e. lower (ent_value e)) ` set (filter (\<lambda>e. ent_source e \<in> {''gazetteer'', ''cyner'', ''ioc''}
           \<and> ent_type e \<in> {MALWARE, THREAT_ACTOR}) all_entities)"
  define gs where "gs = filter (\<lambda>e. \<not> (ent_type e \<in> {MALWARE, THREAT_ACTOR} \<and> lower (ent_value e) \<in> hp)) gliner"
  define added where "added = first_by key (key ` set all_entities) gs"
  have m: "merge_gliner_into all_entities gliner = all_entities @ added"
    unfolding merge_gliner_into_def Let_def added_def gs_def hp_def key_def by (rule refl)
  have sub: "set added \<subseteq> set gs" unfolding added_def by (rule first_by_subset)
  moreover have "key ` set added \<inter> key ` set all_entities = {}" using first_by_keys [of key "key ` set all_entities" gs]
    by (auto simp: added_def)
  moreover have "distinct (map key added)" unfolding added_def by (rule first_by_distinct)
  moreover have "lower (ent_value a) \<noteq> lower (ent_value e)"
    if "e \<in> set added" "a \<in> set all_entities" "ent_type e \<in> {MALWARE, THREAT_ACTOR} \<and> ent_type a \<in> {MALWARE, THREAT_ACTOR} \<and>
       ent_source a \<in> {''gazetteer'', ''cyner'', ''ioc''}" for e a
  proof -
    from that(1) sub have "e \<in> set gs" by blast
    with that(3) have "lower (ent_value e) \<notin> hp" unfolding gs_def by (auto simp del: insert_iff)
    moreover have "lower (ent_value a) \<in> hp" unfolding hp_def using that(2,3) by (intro imageI) simp
    ultimately show ?thesis by metis
  qed
  moreover have "set added \<subseteq> set gliner" using sub by (auto simp: gs_def)
  ultimately show ?thesis using m by (intro exI [of _ added]) blast
qed

end
