(* ===== verification/NamedEntities.thy ===== *)
theory NamedEntities
  imports Extract Overrides Decisions "HOL-Library.Product_Lexorder"
begin

text \<open>
  One type per name. pipeline/base.py: merging the extraction stages and resolving a value typed
  differently by different sources. pipeline/named_entities.py: the entities the detectors found
  join the LLM's lists, and a name typed several ways keeps the types of its best-ranked source.
  An entity of the job store is its type string, its value and its source.
\<close>

section \<open>Merging stages\<close>

definition ent_key :: "raw_entity \<Rightarrow> string \<times> entity_type" where
  "ent_key e = (lower (ent_value e), ent_type e)"

definition merge_into :: "raw_entity list \<Rightarrow> raw_entity list \<Rightarrow> raw_entity list" where
  "merge_into existing new_entities = existing @ first_by ent_key (ent_key ` set existing) new_entities"

definition TYPE_PRECEDENCE :: "(string \<times> int) list" where
  "TYPE_PRECEDENCE = [(''analyst'', -1), (''manual'', -1), (''baseline_stix'', -1), (''ioc'', 0), (''gazetteer'', 0),
     (''semantic'', 1), (''llm'', 1), (''cyner'', 2), (''gliner'', 2), (''spacy'', 3), (''alias_list'', 3)]"

definition DEFAULT_PRECEDENCE :: int where
  "DEFAULT_PRECEDENCE = 99"

definition source_rank :: "string \<Rightarrow> int" where
  "source_rank source = dget TYPE_PRECEDENCE source DEFAULT_PRECEDENCE"

definition resolve_group :: "raw_entity list \<Rightarrow> raw_entity list" where
  "resolve_group g =
    (if card (ent_type ` set g) \<le> 1 then g
     else let best_rank = Min ((\<lambda>e. source_rank (ent_source e)) ` set g);
              winning = ent_type ` set (filter (\<lambda>e. source_rank (ent_source e) = best_rank) g)
          in filter (\<lambda>e. ent_type e \<in> winning) g)"

definition resolve_type_conflicts :: "raw_entity list \<Rightarrow> raw_entity list" where
  "resolve_type_conflicts es = concat (map (\<lambda>kg. resolve_group (snd kg)) (group_by (\<lambda>e. lower (ent_value e)) es))"

section \<open>Named lists\<close>

definition NAMED_LISTS :: "entity_type list" where
  "NAMED_LISTS = [MALWARE, THREAT_ACTOR, TOOL]"

text \<open>\<open>getattr(llm_result, field)\<close> and the copy with the lists replaced.\<close>

definition list_of :: "llm_names \<Rightarrow> entity_type \<Rightarrow> string list" where
  "list_of r t = (if t = MALWARE then malware_families r else if t = THREAT_ACTOR then threat_actors r
     else if t = TOOL then llm_tools r else [])"

definition with_lists :: "llm_names \<Rightarrow> (entity_type \<Rightarrow> string list) \<Rightarrow> llm_names" where
  "with_lists r ls = r\<lparr>malware_families := ls MALWARE, threat_actors := ls THREAT_ACTOR, llm_tools := ls TOOL\<rparr>"

definition COMPARED :: "entity_type set" where
  "COMPARED = set NAMED_LISTS \<union> {CAMPAIGN}"

definition ANALYST_RANK :: int where
  "ANALYST_RANK = source_rank ''analyst''"

definition CAMPAIGN_RANK :: int where
  "CAMPAIGN_RANK = DEFAULT_PRECEDENCE + 1"

definition BASELINE_STIX :: string where
  "BASELINE_STIX = ''baseline_stix''"

definition stored_row_source :: "string option \<Rightarrow> bool option \<Rightarrow> string option \<Rightarrow> string" where
  "stored_row_source source accepted decision_origin =
    (if accepted = Some True \<and> decision_origin = Some HUMAN then ''analyst''
     else if accepted = Some True \<and> decision_origin = Some BASELINE_STIX then BASELINE_STIX
     else str_or source [])"

definition name_key :: "string \<Rightarrow> string" where
  "name_key v = strip (lower v)"

definition type_rank :: "string \<Rightarrow> entity_type \<Rightarrow> int" where
  "type_rank source t = (let rank = source_rank source in
     if t = CAMPAIGN \<and> ANALYST_RANK < rank then CAMPAIGN_RANK else rank)"

record outranked_type =
  or_value :: string
  or_type :: string
  or_sources :: "string list"
  or_kept_types :: "string list"
  or_kept_sources :: "string list"

record named_entities =
  ne_result :: llm_names
  ne_outranked :: "outranked_type list"
  ne_resolved_away :: "outranked_type list"

definition gone_keys :: "outranked_type list \<Rightarrow> (string \<times> string) set" where
  "gone_keys os = (\<lambda>q. (name_key (or_value q), or_type q)) ` set os"

definition keeps :: "named_entities \<Rightarrow> raw_entity \<Rightarrow> bool" where
  "keeps ne e \<longleftrightarrow> (name_key (ent_value e), etype_value (ent_type e)) \<notin> gone_keys (ne_outranked ne)"

text \<open>\<open>baseline_holds\<close> answers for a type value and a name; it is constantly false outside enrich mode.\<close>

definition source_of :: "(string \<Rightarrow> string \<Rightarrow> bool) \<Rightarrow> entity_type \<Rightarrow> string \<Rightarrow> string \<Rightarrow> string" where
  "source_of holds t v source = (if holds (etype_value t) v then BASELINE_STIX else source)"

type_synonym typed_names = "(string \<times> entity_type, string \<times> string set) dict"
type_synonym present_names = "(string, (entity_type \<times> string) set) dict"

definition add_source :: "string \<times> entity_type \<Rightarrow> string \<Rightarrow> string \<Rightarrow> typed_names \<Rightarrow> typed_names" where
  "add_source k v source typed = (case dget typed k (strip v, {}) of (sp, ss) \<Rightarrow> dset k (sp, insert source ss) typed)"

definition note_name :: "(string \<Rightarrow> string \<Rightarrow> bool) \<Rightarrow> string \<Rightarrow> entity_type \<Rightarrow> string \<Rightarrow> typed_names \<Rightarrow> typed_names" where
  "note_name holds v t source typed =
    (if name_key v = [] then typed else add_source (name_key v, t) v (source_of holds t v source) typed)"

record ne_state =
  st_lists :: "entity_type \<Rightarrow> string list"
  st_seen :: "entity_type \<Rightarrow> string set"
  st_typed :: typed_names
  st_present :: present_names
  st_added :: bool

definition initial_state :: "(string \<Rightarrow> string \<Rightarrow> bool) \<Rightarrow> llm_names \<Rightarrow> ne_state" where
  "initial_state holds r =
    (let typed = fold (\<lambda>t. fold (\<lambda>n. note_name holds n t ''llm'') (list_of r t)) NAMED_LISTS [];
         typed = (case campaign_name r of Some (c # cs) \<Rightarrow> note_name holds (c # cs) CAMPAIGN ''llm'' typed | _ \<Rightarrow> typed) in
     \<lparr>st_lists = list_of r, st_seen = (\<lambda>t. name_key ` set (list_of r t)), st_typed = typed, st_present = [], st_added = False\<rparr>)"

definition entity_step :: "(string \<Rightarrow> string \<Rightarrow> bool) \<Rightarrow> string \<times> string \<times> string \<Rightarrow> ne_state \<Rightarrow> ne_state" where
  "entity_step holds item st =
    (case item of (raw_type, v, source) \<Rightarrow> case etype_of raw_type of None \<Rightarrow> st | Some t \<Rightarrow>
      let k = name_key v;
          st = (if k = [] then st else st\<lparr>st_present := dset k (insert (t, source_of holds t v source) (dget (st_present st) k {})) (st_present st)\<rparr>) in
      if t \<notin> COMPARED \<or> k = [] then st
      else let st = st\<lparr>st_typed := note_name holds v t source (st_typed st)\<rparr> in
        if t \<notin> set NAMED_LISTS \<or> k \<in> st_seen st t then st
        else st\<lparr>st_lists := (st_lists st)(t := st_lists st t @ [strip v]),
                 st_seen := (st_seen st)(t := insert k (st_seen st t)), st_added := True\<rparr>)"

section \<open>Ranking\<close>

definition type_best :: "typed_names \<Rightarrow> string \<Rightarrow> entity_type \<Rightarrow> int" where
  "type_best typed k t = Min ((\<lambda>s. type_rank s t) ` snd (dget typed (k, t) ([], {})))"

definition outranked_of :: "typed_names \<Rightarrow> string \<times> entity_type list \<Rightarrow> outranked_type list" where
  "outranked_of typed kts = (case kts of (k, ts) \<Rightarrow>
    if length ts < 2 then []
    else let best = Min (type_best typed k ` set ts);
             kept = filter (\<lambda>t. type_best typed k t = best) ts;
             kept_types = sort (map etype_value kept);
             kept_sources = sorted_list_of_set (\<Union>t \<in> set kept. snd (dget typed (k, t) ([], {})))
         in map (\<lambda>t. \<lparr>or_value = fst (dget typed (k, t) ([], {})), or_type = etype_value t,
                or_sources = sorted_list_of_set (snd (dget typed (k, t) ([], {}))),
                or_kept_types = kept_types, or_kept_sources = kept_sources\<rparr>)
             (filter (\<lambda>t. type_best typed k t \<noteq> best) ts))"

definition sort_outranked :: "outranked_type list \<Rightarrow> outranked_type list" where
  "sort_outranked os = sort_key (\<lambda>q. (name_key (or_value q), or_type q)) os"

definition outranked_types :: "typed_names \<Rightarrow> outranked_type list" where
  "outranked_types typed = sort_outranked (concat (map (outranked_of typed) (group_pairs (map fst typed))))"

definition away_step :: "(string \<Rightarrow> string \<Rightarrow> bool) \<Rightarrow> present_names \<Rightarrow> (string \<times> string) set \<Rightarrow> raw_entity \<Rightarrow> typed_names \<Rightarrow> typed_names" where
  "away_step holds present gone e away =
    (let t = ent_type e; k = name_key (ent_value e) in
     if t \<notin> COMPARED \<or> k = [] \<or> map_of present k = None \<or> (k, etype_value t) \<in> gone then away
     else if t \<in> fst ` dget present k {} then away
     else add_source (k, t) (ent_value e) (source_of holds t (ent_value e) (ent_source e)) away)"

definition resolved_away_types :: "present_names \<Rightarrow> raw_entity list \<Rightarrow> (string \<times> string) set \<Rightarrow> (string \<Rightarrow> string \<Rightarrow> bool) \<Rightarrow> outranked_type list" where
  "resolved_away_types present dropped gone holds =
    sort_outranked (map (\<lambda>((k, t), (v, sources)).
      \<lparr>or_value = v, or_type = etype_value t, or_sources = sorted_list_of_set sources,
       or_kept_types = sorted_list_of_set ((\<lambda>p. etype_value (fst p)) ` dget present k {}),
       or_kept_sources = sorted_list_of_set (snd ` dget present k {})\<rparr>)
     (fold (away_step holds present gone) dropped []))"

definition with_named_entities ::
  "llm_names \<Rightarrow> (string \<times> string \<times> string) list \<Rightarrow> (string \<Rightarrow> string \<Rightarrow> bool) \<Rightarrow> raw_entity list \<Rightarrow> named_entities" where
  "with_named_entities r entities holds dropped =
    (let st = fold (entity_step holds) entities (initial_state holds r);
         outranked = outranked_types (st_typed st);
         gone = gone_keys outranked;
         away = resolved_away_types (st_present st) dropped gone holds in
     if outranked = [] then
       \<lparr>ne_result = (if st_added st then with_lists r (st_lists st) else r), ne_outranked = [], ne_resolved_away = away\<rparr>
     else
       let r' = with_lists r (\<lambda>t. filter (\<lambda>n. (name_key n, etype_value t) \<notin> gone) (st_lists st t));
           r' = (case campaign_name r of Some (c # cs) \<Rightarrow>
                   if (name_key (c # cs), etype_value CAMPAIGN) \<in> gone then r'\<lparr>campaign_name := None\<rparr> else r'
                 | _ \<Rightarrow> r') in
       \<lparr>ne_result = r', ne_outranked = outranked, ne_resolved_away = away\<rparr>)"

end
