(* ===== verification/NamedSound.thy ===== *)
theory NamedSound
  imports NamedEntities ExtractSound
begin

text \<open>
  The stage merge and the conflict resolution lose no value; the named lists hold exactly the names
  whose type has the best-ranked source.
\<close>

section \<open>Merging and resolving\<close>

lemma merge_into_exact:
  "distinct (map ent_key existing) \<Longrightarrow> distinct (map ent_key (merge_into existing new_entities))"
  "ent_key ` set (merge_into existing new_entities) = ent_key ` set existing \<union> ent_key ` set new_entities"
  using first_by_keys [of ent_key "ent_key ` set existing" new_entities]
    first_by_distinct [of ent_key "ent_key ` set existing" new_entities]
  by (auto simp: merge_into_def)

lemma Min_filter_nonempty:
  assumes "g \<noteq> []"
  shows "\<exists>e \<in> set g. f e = Min (f ` set g)"
proof -
  have "Min (f ` set g) \<in> f ` set g" using assms by (intro Min_in) auto
  then show ?thesis by auto
qed

lemma resolve_group_props:
  assumes "g \<noteq> []"
  shows "set (resolve_group g) \<subseteq> set g" "resolve_group g \<noteq> []"
    "e \<in> set (resolve_group g) \<Longrightarrow> 1 < card (ent_type ` set g) \<Longrightarrow>
      \<exists>w \<in> set g. ent_type w = ent_type e \<and> source_rank (ent_source w) = Min ((\<lambda>e. source_rank (ent_source e)) ` set g)"
    "w \<in> set g \<Longrightarrow> source_rank (ent_source w) = Min ((\<lambda>e. source_rank (ent_source e)) ` set g) \<Longrightarrow>
      e \<in> set g \<Longrightarrow> ent_type e = ent_type w \<Longrightarrow> e \<in> set (resolve_group g)"
  using Min_filter_nonempty [OF assms, of "\<lambda>e. source_rank (ent_source e)"] assms
  by (auto simp: resolve_group_def Let_def filter_empty_conv)

text \<open>The sources that give a value its best rank among the entities of that value.\<close>

definition same_value :: "raw_entity list \<Rightarrow> raw_entity \<Rightarrow> raw_entity list" where
  "same_value es e = filter (\<lambda>x. lower (ent_value x) = lower (ent_value e)) es"

definition best_source :: "raw_entity list \<Rightarrow> raw_entity \<Rightarrow> bool" where
  "best_source es w \<longleftrightarrow> source_rank (ent_source w) = Min ((\<lambda>x. source_rank (ent_source x)) ` set (same_value es w))"

definition undisputed :: "raw_entity list \<Rightarrow> raw_entity \<Rightarrow> bool" where
  "undisputed es e \<longleftrightarrow> card (ent_type ` set (same_value es e)) \<le> 1"

text \<open>Type conflicts are resolved exactly: an entity stays when its value is typed one way, or its
  type is one the best-ranked source of that value gives, and goes otherwise; every value stays.\<close>

lemma resolve_conflicts_exact:
  "set (resolve_type_conflicts es) = {e \<in> set es. undisputed es e \<or>
     (\<exists>w \<in> set (same_value es e). best_source es w \<and> ent_type w = ent_type e)} \<and>
   (\<lambda>e. lower (ent_value e)) ` set (resolve_type_conflicts es) = (\<lambda>e. lower (ent_value e)) ` set es"
proof -
  let ?k = "\<lambda>e. lower (ent_value e)"
  have grp: "(k, g) \<in> set (group_by ?k es) \<longleftrightarrow> k \<in> ?k ` set es \<and> g = filter (\<lambda>x. ?k x = k) es" for k g
    by (rule group_by_entry)
  have res: "e \<in> set (resolve_type_conflicts es) \<longleftrightarrow> e \<in> set es \<and> e \<in> set (resolve_group (same_value es e))" for e
  proof -
    have "e \<in> set (resolve_type_conflicts es) \<longleftrightarrow> (\<exists>k g. (k, g) \<in> set (group_by ?k es) \<and> e \<in> set (resolve_group g))"
      by (force simp: resolve_type_conflicts_def)
    also have "\<dots> \<longleftrightarrow> (\<exists>x \<in> set es. e \<in> set (resolve_group (same_value es x)))"
      by (auto simp: grp same_value_def)
    also have "\<dots> \<longleftrightarrow> e \<in> set es \<and> e \<in> set (resolve_group (same_value es e))"
    proof
      assume "\<exists>x \<in> set es. e \<in> set (resolve_group (same_value es x))"
      then obtain x where x: "x \<in> set es" "e \<in> set (resolve_group (same_value es x))" by blast
      then have "same_value es x \<noteq> []" by (auto simp: same_value_def filter_empty_conv)
      from resolve_group_props(1) [OF this] x have "e \<in> set (same_value es x)" by blast
      then have "e \<in> set es" "same_value es x = same_value es e" by (auto simp: same_value_def)
      with x show "e \<in> set es \<and> e \<in> set (resolve_group (same_value es e))" by simp
    qed blast
    finally show ?thesis .
  qed
  have mem: "e \<in> set (resolve_group (same_value es e)) \<longleftrightarrow> undisputed es e \<or>
      (\<exists>w \<in> set (same_value es e). best_source es w \<and> ent_type w = ent_type e)" if "e \<in> set es" for e
  proof -
    let ?g = "same_value es e"
    have g: "?g \<noteq> []" "e \<in> set ?g" using that by (auto simp: same_value_def filter_empty_conv)
    have same: "same_value es w = ?g" if "w \<in> set ?g" for w using that by (auto simp: same_value_def)
    show ?thesis
    proof (cases "undisputed es e")
      case True
      then show ?thesis using g by (simp add: undisputed_def resolve_group_def)
    next
      case False
      have c: "1 < card (ent_type ` set ?g)" using False by (simp add: undisputed_def)
      have b: "best_source es w \<longleftrightarrow> source_rank (ent_source w) = Min ((\<lambda>e. source_rank (ent_source e)) ` set ?g)"
        if "w \<in> set ?g" for w using same [OF that] by (simp add: best_source_def)
      have "e \<in> set (resolve_group ?g) \<longleftrightarrow> (\<exists>w \<in> set ?g. best_source es w \<and> ent_type w = ent_type e)"
        using resolve_group_props(3) [OF g(1) _ c, of e] resolve_group_props(4) [OF g(1) _ _ g(2)] b by metis
      with False show ?thesis by simp
    qed
  qed
  have kept: "?k ` set (resolve_type_conflicts es) = ?k ` set es"
  proof (intro equalityI subsetI)
    fix k assume "k \<in> ?k ` set es"
    then obtain e where e: "e \<in> set es" "k = ?k e" by blast
    then have "same_value es e \<noteq> []" by (auto simp: same_value_def filter_empty_conv)
    from resolve_group_props(1,2) [OF this] obtain x where x: "x \<in> set (resolve_group (same_value es e))" "x \<in> set (same_value es e)"
      by (metis hd_in_set subsetD)
    then have "x \<in> set es" "?k x = k" "same_value es x = same_value es e" using e by (auto simp: same_value_def)
    then show "k \<in> ?k ` set (resolve_type_conflicts es)" using res [of x] x by auto
  qed (use res in auto)
  show ?thesis using res mem kept by blast
qed

section \<open>Name keys\<close>

lemma lower_space: "is_space (lower_char c) = is_space c"
proof (cases "is_upper_letter c")
  case True
  then show ?thesis unfolding is_space_def lower_char_code Let_def by (auto simp: is_upper_letter_def Let_def)
qed (simp add: lower_char_def)

lemma lower_strip: "lower (strip v) = strip (lower v)"
proof -
  have d: "map lower_char (dropWhile is_space w) = dropWhile is_space (map lower_char w)" for w
    by (induction w) (auto simp: lower_space)
  show ?thesis by (simp add: lower_def strip_def strip_by_def rev_map [symmetric] d)
qed

lemma strip_strip: "strip (strip v) = strip v"
proof (cases "strip v = []")
  case False
  then have "\<not> is_space (hd (strip v))" "\<not> is_space (last (strip v))"
    using strip_by_ends [of is_space v] by (simp_all add: strip_def)
  moreover have dw: "dropWhile is_space w = w" if "w \<noteq> []" "\<not> is_space (hd w)" for w using that by (cases w) auto
  ultimately have "dropWhile is_space (strip v) = strip v" "dropWhile is_space (rev (strip v)) = rev (strip v)"
    using False by (simp_all add: hd_rev)
  moreover have "strip w = rev (dropWhile is_space (rev (dropWhile is_space w)))" for w by (simp add: strip_def strip_by_def)
  ultimately show ?thesis by (metis rev_rev_ident)
qed simp

lemma name_key_strip [simp]: "name_key (strip v) = name_key v"
  by (simp add: name_key_def lower_strip strip_strip)

section \<open>What the names are typed as\<close>

text \<open>A claim: a name key, a type and the source that gives it.\<close>

definition claims_of :: "typed_names \<Rightarrow> (string \<times> entity_type \<times> string) set" where
  "claims_of typed = {(k, t, s). \<exists>sp ss. map_of typed (k, t) = Some (sp, ss) \<and> s \<in> ss}"

definition name_claim :: "(string \<Rightarrow> string \<Rightarrow> bool) \<Rightarrow> string \<Rightarrow> entity_type \<Rightarrow> string \<Rightarrow> (string \<times> entity_type \<times> string) set" where
  "name_claim holds v t source = (if name_key v = [] then {} else {(name_key v, t, source_of holds t v source)})"

definition typed_ok :: "typed_names \<Rightarrow> bool" where
  "typed_ok typed \<longleftrightarrow> distinct (map fst typed) \<and>
     list_all (\<lambda>((k, t), (sp, ss)). name_key sp = k \<and> k \<noteq> [] \<and> t \<in> COMPARED \<and> finite ss \<and> ss \<noteq> {}) typed"

lemma typed_ok_entry: "typed_ok typed \<Longrightarrow> map_of typed (k, t) = Some (sp, ss) \<Longrightarrow>
    name_key sp = k \<and> k \<noteq> [] \<and> t \<in> COMPARED \<and> finite ss \<and> ss \<noteq> {}"
  by (auto simp: typed_ok_def list_all_iff dest!: map_of_SomeD)

lemma dset_entries: "distinct (map fst d) \<Longrightarrow> set (dset k v d) \<subseteq> insert (k, v) (set d)"
  by (metis (no_types, lifting) distinct_keys_dset fun_upd_apply insert_iff map_of_dset map_of_eq_Some_iff option.inject subrelI)

lemma note_name_claims:
  assumes "typed_ok typed" "t \<in> COMPARED"
  shows "typed_ok (note_name holds v t source typed)"
    "claims_of (note_name holds v t source typed) = claims_of typed \<union> name_claim holds v t source"
proof -
  let ?k = "name_key v" and ?s = "source_of holds t v source"
  obtain sp ss where d: "dget typed (?k, t) (strip v, {}) = (sp, ss)" by fastforce
  have e: "name_key sp = ?k" "finite ss"
    using typed_ok_entry [OF assms(1), of ?k t] d by (auto simp: dget_def split: option.splits)
  have n: "note_name holds v t source typed = (if ?k = [] then typed else dset (?k, t) (sp, insert ?s ss) typed)"
    by (simp add: note_name_def add_source_def d)
  show "typed_ok (note_name holds v t source typed)"
  proof (cases "?k = []")
    case False
    have "set (dset (?k, t) (sp, insert ?s ss) typed) \<subseteq> insert ((?k, t), (sp, insert ?s ss)) (set typed)"
      using assms(1) by (intro dset_entries) (simp add: typed_ok_def)
    then show ?thesis using assms e False unfolding n typed_ok_def list_all_iff
      by (simp del: split_paired_All) (fastforce)
  qed (use assms in \<open>simp add: n\<close>)
  have ss: "ss = {s. \<exists>sp ss. map_of typed (?k, t) = Some (sp, ss) \<and> s \<in> ss}"
    using d by (auto simp: dget_def split: option.splits)
  show "claims_of (note_name holds v t source typed) = claims_of typed \<union> name_claim holds v t source"
    unfolding n claims_of_def name_claim_def using ss by (auto simp: map_of_dset split: if_splits)
qed

text \<open>The claims of the LLM's result and of the entities.\<close>

definition llm_claims :: "(string \<Rightarrow> string \<Rightarrow> bool) \<Rightarrow> llm_names \<Rightarrow> (string \<times> entity_type \<times> string) set" where
  "llm_claims holds r = (\<Union>t \<in> set NAMED_LISTS. \<Union>n \<in> set (list_of r t). name_claim holds n t ''llm'') \<union>
     (case campaign_name r of None \<Rightarrow> {} | Some c \<Rightarrow> name_claim holds c CAMPAIGN ''llm'')"

definition item_claims :: "(string \<Rightarrow> string \<Rightarrow> bool) \<Rightarrow> string \<times> string \<times> string \<Rightarrow> (string \<times> entity_type \<times> string) set" where
  "item_claims holds item = (case item of (raw_type, v, source) \<Rightarrow> (case etype_of raw_type of
     None \<Rightarrow> {} | Some t \<Rightarrow> if t \<in> COMPARED then name_claim holds v t source else {}))"

definition all_claims :: "(string \<Rightarrow> string \<Rightarrow> bool) \<Rightarrow> llm_names \<Rightarrow> (string \<times> string \<times> string) list \<Rightarrow>
    (string \<times> entity_type \<times> string) set" where
  "all_claims holds r entities = llm_claims holds r \<union> (\<Union>i \<in> set entities. item_claims holds i)"

text \<open>The type is one of the best of the name: no source of any type of it ranks before all of its own.\<close>

definition best_type :: "(string \<times> entity_type \<times> string) set \<Rightarrow> string \<Rightarrow> entity_type \<Rightarrow> bool" where
  "best_type C k t \<longleftrightarrow> (\<exists>s. (k, t, s) \<in> C \<and> (\<forall>t' s'. (k, t', s') \<in> C \<longrightarrow> type_rank s t \<le> type_rank s' t'))"

lemma notes_claims:
  assumes "typed_ok typed" "t \<in> COMPARED"
  shows "typed_ok (fold (\<lambda>n. note_name holds n t src) ns typed) \<and>
    claims_of (fold (\<lambda>n. note_name holds n t src) ns typed) = claims_of typed \<union> (\<Union>n \<in> set ns. name_claim holds n t src)"
  using assms
proof (induction ns arbitrary: typed)
  case (Cons n ns)
  note step = note_name_claims [OF Cons.prems, of holds n src]
  from Cons.IH [OF step(1) Cons.prems(2)] step(2) show ?case by (simp add: Un_assoc)
qed simp

lemma named_compared: "t \<in> set NAMED_LISTS \<Longrightarrow> t \<in> COMPARED" "CAMPAIGN \<in> COMPARED"
  by (simp_all add: COMPARED_def)

lemma initial_typed:
  "typed_ok (st_typed (initial_state holds r)) \<and> claims_of (st_typed (initial_state holds r)) = llm_claims holds r"
proof -
  let ?typed = "fold (\<lambda>t. fold (\<lambda>n. note_name holds n t ''llm'') (list_of r t)) NAMED_LISTS []"
  have lists: "set ts \<subseteq> set NAMED_LISTS \<Longrightarrow> typed_ok typed \<Longrightarrow>
      typed_ok (fold (\<lambda>t. fold (\<lambda>n. note_name holds n t ''llm'') (list_of r t)) ts typed) \<and>
      claims_of (fold (\<lambda>t. fold (\<lambda>n. note_name holds n t ''llm'') (list_of r t)) ts typed) =
        claims_of typed \<union> (\<Union>t \<in> set ts. \<Union>n \<in> set (list_of r t). name_claim holds n t ''llm'')" for ts typed
  proof (induction ts arbitrary: typed)
    case (Cons t ts)
    then have t: "t \<in> COMPARED" by (auto intro: named_compared)
    note step = notes_claims [OF Cons.prems(2) t, of holds "''llm''" "list_of r t"]
    from Cons.IH [OF _ conjunct1 [OF step]] step Cons.prems(1) show ?case by (simp add: Un_assoc)
  qed simp
  have "typed_ok []" "claims_of [] = {}" by (simp_all add: typed_ok_def claims_of_def)
  with lists [of NAMED_LISTS "[]"] have l: "typed_ok ?typed"
    "claims_of ?typed = (\<Union>t \<in> set NAMED_LISTS. \<Union>n \<in> set (list_of r t). name_claim holds n t ''llm'')" by simp_all
  have nil: "name_claim holds [] t s = {}" for t s by (simp add: name_claim_def name_key_def)
  show ?thesis
    using l note_name_claims [OF l(1) named_compared(2)] nil
    by (auto simp: initial_state_def llm_claims_def Let_def simp del: set_simps split: option.splits list.splits)
qed

definition state_ok :: "ne_state \<Rightarrow> bool" where
  "state_ok st \<longleftrightarrow> typed_ok (st_typed st) \<and> list_all (\<lambda>t. st_seen st t = name_key ` set (st_lists st t) \<and>
     (\<forall>k \<in> st_seen st t - {[]}. \<exists>s. (k, t, s) \<in> claims_of (st_typed st)) \<and>
     (\<forall>k s. (k, t, s) \<in> claims_of (st_typed st) \<longrightarrow> k \<in> st_seen st t)) NAMED_LISTS"

lemma state_okD:
  assumes "state_ok st" "t \<in> set NAMED_LISTS"
  shows "st_seen st t = name_key ` set (st_lists st t)"
    and "\<forall>k \<in> st_seen st t - {[]}. \<exists>s. (k, t, s) \<in> claims_of (st_typed st)"
    and "\<forall>k s. (k, t, s) \<in> claims_of (st_typed st) \<longrightarrow> k \<in> st_seen st t"
  using assms unfolding state_ok_def list_all_iff by blast+

lemma name_claim_key: "(k, t, s) \<in> name_claim holds v t' src \<Longrightarrow> k = name_key v \<and> t = t' \<and> k \<noteq> []"
  by (auto simp: name_claim_def split: if_splits)

lemma initial_ok: "state_ok (initial_state holds r)"
proof -
  note i = initial_typed [of holds r]
  have "(\<forall>k \<in> name_key ` set (list_of r t) - {[]}. \<exists>s. (k, t, s) \<in> llm_claims holds r) \<and>
    (\<forall>k s. (k, t, s) \<in> llm_claims holds r \<longrightarrow> k \<in> name_key ` set (list_of r t))" if "t \<in> set NAMED_LISTS" for t
  proof (intro conjI ballI allI impI)
    fix k assume "k \<in> name_key ` set (list_of r t) - {[]}"
    then obtain n where "n \<in> set (list_of r t)" "k = name_key n" "k \<noteq> []" by blast
    with that show "\<exists>s. (k, t, s) \<in> llm_claims holds r" by (auto simp: llm_claims_def name_claim_def)
  next
    fix k s assume "(k, t, s) \<in> llm_claims holds r"
    then consider u n where "u \<in> set NAMED_LISTS" "n \<in> set (list_of r u)" "(k, t, s) \<in> name_claim holds n u ''llm''"
      | c where "(k, t, s) \<in> name_claim holds c CAMPAIGN ''llm''"
      unfolding llm_claims_def by (cases "campaign_name r") auto
    then show "k \<in> name_key ` set (list_of r t)"
    proof cases
      case 1
      from name_claim_key [OF 1(3)] 1(2) show ?thesis by blast
    next
      case 2
      from name_claim_key [OF 2] that show ?thesis by (simp add: NAMED_LISTS_def)
    qed
  qed
  moreover have "st_seen (initial_state holds r) = (\<lambda>t. name_key ` set (list_of r t))"
    "st_lists (initial_state holds r) = list_of r" by (simp_all add: initial_state_def Let_def)
  ultimately show ?thesis unfolding state_ok_def list_all_iff using i by metis
qed

lemma entity_step_ok:
  assumes "state_ok st"
  shows "state_ok (entity_step holds item st) \<and>
    claims_of (st_typed (entity_step holds item st)) = claims_of (st_typed st) \<union> item_claims holds item"
proof -
  obtain raw v src where item: "item = (raw, v, src)" by (cases item)
  show ?thesis
  proof (cases "etype_of raw")
    case None
    then show ?thesis using assms by (simp add: item entity_step_def item_claims_def)
  next
    case (Some t)
    show ?thesis
    proof (cases "t \<in> COMPARED \<and> name_key v \<noteq> []")
      case False
      then have "st_typed (entity_step holds item st) = st_typed st" "st_seen (entity_step holds item st) = st_seen st"
        "st_lists (entity_step holds item st) = st_lists st" "item_claims holds item = {}"
        using Some by (auto simp: item entity_step_def Let_def item_claims_def name_claim_def)
      then show ?thesis using assms by (simp add: state_ok_def)
    next
      case True
      let ?typed = "note_name holds v t src (st_typed st)"
      let ?new = "t \<in> set NAMED_LISTS \<and> name_key v \<notin> st_seen st t"
      note step = note_name_claims [OF _ conjunct1 [OF True], of "st_typed st" holds v src]
      have e: "st_typed (entity_step holds item st) = ?typed"
        "st_lists (entity_step holds item st) = (if ?new then (st_lists st)(t := st_lists st t @ [strip v]) else st_lists st)"
        "st_seen (entity_step holds item st) = (if ?new then (st_seen st)(t := insert (name_key v) (st_seen st t)) else st_seen st)"
        using True Some by (auto simp: item entity_step_def Let_def)
      have ok: "typed_ok (st_typed st)" using assms by (simp add: state_ok_def)
      have c: "claims_of ?typed = claims_of (st_typed st) \<union> name_claim holds v t src" using step(2) ok by blast
      have i: "item_claims holds item = name_claim holds v t src" using True Some by (simp add: item item_claims_def)
      have nc: "name_claim holds v t src = {(name_key v, t, source_of holds t v src)}" using True by (simp add: name_claim_def)
      have "st_seen (entity_step holds item st) u = name_key ` set (st_lists (entity_step holds item st) u) \<and>
         (\<forall>k \<in> st_seen (entity_step holds item st) u - {[]}. \<exists>s. (k, u, s) \<in> claims_of ?typed) \<and>
         (\<forall>k s. (k, u, s) \<in> claims_of ?typed \<longrightarrow> k \<in> st_seen (entity_step holds item st) u)" if "u \<in> set NAMED_LISTS" for u
      proof -
        note u = state_okD [OF assms that]
        have seen: "st_seen (entity_step holds item st) u = (if u = t then insert (name_key v) (st_seen st u) else st_seen st u)"
          unfolding e using that by auto
        have "name_key ` set (st_lists (entity_step holds item st) u) = st_seen (entity_step holds item st) u"
          unfolding seen unfolding e using that u(1) by auto

        moreover have "\<exists>s. (k, u, s) \<in> claims_of ?typed" if k: "k \<in> st_seen (entity_step holds item st) u - {[]}" for k
        proof (cases "u = t \<and> k = name_key v")
          case True
          then show ?thesis unfolding c nc by blast
        next
          case False
          with k have "k \<in> st_seen st u - {[]}" unfolding seen by (cases "u = t") auto
          with u(2) show ?thesis unfolding c by blast
        qed
        moreover have "k \<in> st_seen (entity_step holds item st) u" if k: "(k, u, s) \<in> claims_of ?typed" for k s
        proof (cases "(k, u, s) \<in> claims_of (st_typed st)")
          case True
          with u(3) show ?thesis unfolding seen by (cases "u = t") auto
        next
          case False
          with k show ?thesis unfolding c nc seen by simp
        qed
        ultimately show ?thesis by blast
      qed
      then show ?thesis unfolding state_ok_def list_all_iff e(1) using step(1) [OF ok] c i by blast
    qed
  qed
qed

lemma entities_ok:
  "state_ok st \<Longrightarrow> state_ok (fold (entity_step holds) items st) \<and>
    claims_of (st_typed (fold (entity_step holds) items st)) = claims_of (st_typed st) \<union> (\<Union>i \<in> set items. item_claims holds i)"
proof (induction items arbitrary: st)
  case (Cons i items)
  note step = entity_step_ok [OF Cons.prems, of holds i]
  from Cons.IH [OF conjunct1 [OF step]] step show ?case by (simp add: Un_assoc)
qed simp


section \<open>Outranked types\<close>

lemma type_best_claims:
  assumes "typed_ok typed" "map_of typed (k, t) = Some (sp, ss)"
  shows "\<exists>s. (k, t, s) \<in> claims_of typed \<and> type_rank s t = type_best typed k t"
    "(k, t, s) \<in> claims_of typed \<Longrightarrow> type_best typed k t \<le> type_rank s t"
proof -
  have ss: "finite ss" "ss \<noteq> {}" using typed_ok_entry [OF assms] by blast+
  have c: "(k, t, s) \<in> claims_of typed \<longleftrightarrow> s \<in> ss" for s using assms(2) by (auto simp: claims_of_def)
  have b: "type_best typed k t = Min ((\<lambda>s. type_rank s t) ` ss)" using assms(2) by (simp add: type_best_def dget_def)
  have "Min ((\<lambda>s. type_rank s t) ` ss) \<in> (\<lambda>s. type_rank s t) ` ss" using ss by (intro Min_in) auto
  then show "\<exists>s. (k, t, s) \<in> claims_of typed \<and> type_rank s t = type_best typed k t" using b c by auto
  show "(k, t, s) \<in> claims_of typed \<Longrightarrow> type_best typed k t \<le> type_rank s t" using b c ss by auto
qed

lemma best_type_Min:
  assumes "typed_ok typed" "ts = map snd (filter (\<lambda>p. fst p = k) (map fst typed))" "t \<in> set ts"
  shows "best_type (claims_of typed) k t \<longleftrightarrow> type_best typed k t = Min (type_best typed k ` set ts)"
proof -
  have entry: "u \<in> set ts \<longleftrightarrow> (\<exists>sp ss. map_of typed (k, u) = Some (sp, ss))" for u
  proof -
    have "u \<in> set ts \<longleftrightarrow> (k, u) \<in> fst ` set typed" by (force simp: assms(2))
    also have "\<dots> \<longleftrightarrow> map_of typed (k, u) \<noteq> None" by (simp add: map_of_eq_None_iff)
    finally show ?thesis by auto
  qed
  have claimed: "u \<in> set ts" if "(k, u, s) \<in> claims_of typed" for u s
    using that entry by (auto simp: claims_of_def)
  have low: "\<exists>s. (k, u, s) \<in> claims_of typed \<and> type_rank s u = type_best typed k u" if "u \<in> set ts" for u
    using that entry type_best_claims(1) [OF assms(1)] by blast
  have le: "type_best typed k u \<le> type_rank s u" if "(k, u, s) \<in> claims_of typed" for u s
    using that claimed entry type_best_claims(2) [OF assms(1)] by blast
  have M: "type_best typed k t = Min (type_best typed k ` set ts) \<longleftrightarrow> (\<forall>u \<in> set ts. type_best typed k t \<le> type_best typed k u)"
  proof -
    have "type_best typed k ` set ts \<noteq> {}" using assms(3) by auto
    from Min_eq_iff [OF _ this, of "type_best typed k t"] assms(3) show ?thesis by auto
  qed
  show ?thesis
  proof
    assume "best_type (claims_of typed) k t"
    then obtain s where s: "(k, t, s) \<in> claims_of typed" "\<forall>u s'. (k, u, s') \<in> claims_of typed \<longrightarrow> type_rank s t \<le> type_rank s' u"
      by (auto simp: best_type_def)
    have "type_best typed k t \<le> type_best typed k u" if "u \<in> set ts" for u
      using low [OF that] s le [OF s(1)] by (metis order.trans)
    with M show "type_best typed k t = Min (type_best typed k ` set ts)" by blast
  next
    assume "type_best typed k t = Min (type_best typed k ` set ts)"
    with M have m: "\<forall>u \<in> set ts. type_best typed k t \<le> type_best typed k u" by blast
    from low [OF assms(3)] obtain s where "(k, t, s) \<in> claims_of typed" "type_rank s t = type_best typed k t" by blast
    moreover have "type_best typed k t \<le> type_rank s' u" if "(k, u, s') \<in> claims_of typed" for u s'
      using m claimed [OF that] le [OF that] by (metis order.trans)
    ultimately show "best_type (claims_of typed) k t" unfolding best_type_def by metis
  qed
qed

text \<open>The names and types that lose to a better-ranked source.\<close>

lemma outranked_of_keys:
  assumes "\<And>u. u \<in> set ts \<Longrightarrow> name_key (fst (dget typed (j, u) ([], {}))) = j"
  shows "(\<lambda>q. (name_key (or_value q), or_type q)) ` set (outranked_of typed (j, ts)) =
    (\<lambda>u. (j, etype_value u)) ` {u \<in> set ts. type_best typed j u \<noteq> Min (type_best typed j ` set ts)}"
proof (cases "length ts < 2")
  case True
  then have "ts = [] \<or> (\<exists>a. ts = [a])" by (cases ts) auto
  then show ?thesis by (auto simp: outranked_of_def)
next
  case False
  then have "(\<lambda>q. (name_key (or_value q), or_type q)) ` set (outranked_of typed (j, ts)) =
      (\<lambda>u. (name_key (fst (dget typed (j, u) ([], {}))), etype_value u)) `
        {u \<in> set ts. type_best typed j u \<noteq> Min (type_best typed j ` set ts)}"
    by (simp add: outranked_of_def Let_def image_image)
  also have "\<dots> = (\<lambda>u. (j, etype_value u)) ` {u \<in> set ts. type_best typed j u \<noteq> Min (type_best typed j ` set ts)}"
    using assms by (intro image_cong) auto
  finally show ?thesis .
qed

definition types_of :: "typed_names \<Rightarrow> string \<Rightarrow> entity_type list" where
  "types_of typed k = map snd (filter (\<lambda>p. fst p = k) (map fst typed))"

lemma types_of_claimed:
  assumes "typed_ok typed"
  shows "u \<in> set (types_of typed k) \<longleftrightarrow> (\<exists>s. (k, u, s) \<in> claims_of typed)"
proof -
  have "u \<in> set (types_of typed k) \<longleftrightarrow> (k, u) \<in> fst ` set typed" by (force simp: types_of_def)
  also have "\<dots> \<longleftrightarrow> (\<exists>sp ss. map_of typed (k, u) = Some (sp, ss))"
    by (metis domIff dom_map_of_conv_image_fst not_None_eq surj_pair)
  also have "\<dots> \<longleftrightarrow> (\<exists>s. (k, u, s) \<in> claims_of typed)"
    using typed_ok_entry [OF assms, of k u] by (fastforce simp: claims_of_def)
  finally show ?thesis .
qed

lemma gone_exact:
  assumes "typed_ok typed"
  shows "(k, etype_value t) \<in> gone_keys (outranked_types typed) \<longleftrightarrow>
    (\<exists>s. (k, t, s) \<in> claims_of typed) \<and> \<not> best_type (claims_of typed) k t"
proof -
  note claimed = types_of_claimed [OF assms]
  have key: "name_key (fst (dget typed (j, u) ([], {}))) = j" if "u \<in> set (types_of typed j)" for j u
  proof -
    have "\<exists>s. (j, u, s) \<in> claims_of typed" using that claimed by blast
    then obtain sp ss where "map_of typed (j, u) = Some (sp, ss)" by (auto simp: claims_of_def)
    then show ?thesis using typed_ok_entry [OF assms] by (simp add: dget_def)
  qed
  have keys: "(\<lambda>q. (name_key (or_value q), or_type q)) ` set (outranked_of typed (j, types_of typed j)) =
    (\<lambda>u. (j, etype_value u)) ` {u \<in> set (types_of typed j). type_best typed j u \<noteq> Min (type_best typed j ` set (types_of typed j))}" for j
    by (rule outranked_of_keys) (rule key)
  have grp: "(j, us) \<in> set (group_pairs (map fst typed)) \<longleftrightarrow> j \<in> fst ` fst ` set typed \<and> us = types_of typed j" for j us
    by (simp add: group_pairs_entry types_of_def)
  have "q \<in> set (outranked_types typed) \<longleftrightarrow> (\<exists>j \<in> fst ` fst ` set typed. q \<in> set (outranked_of typed (j, types_of typed j)))" for q
    unfolding outranked_types_def sort_outranked_def
    by (simp only: set_sort set_concat set_map UN_iff bex_simps image_iff Bex_def split_paired_Ex grp) blast
  then have "p \<in> gone_keys (outranked_types typed) \<longleftrightarrow> (\<exists>j \<in> fst ` fst ` set typed.
      p \<in> (\<lambda>q. (name_key (or_value q), or_type q)) ` set (outranked_of typed (j, types_of typed j)))" for p
    unfolding gone_keys_def by blast
  then have "(k, etype_value t) \<in> gone_keys (outranked_types typed) \<longleftrightarrow> k \<in> fst ` fst ` set typed \<and>
      t \<in> set (types_of typed k) \<and> type_best typed k t \<noteq> Min (type_best typed k ` set (types_of typed k))"
    unfolding keys by (auto simp: image_iff)
  also have "\<dots> \<longleftrightarrow> t \<in> set (types_of typed k) \<and> \<not> best_type (claims_of typed) k t"
    using best_type_Min [OF assms types_of_def, of t k] by (force simp: types_of_def)
  finally show ?thesis unfolding claimed .
qed

section \<open>The lists that come out\<close>

lemma entities_not_added:
  "\<not> st_added (fold (entity_step holds) items st) \<Longrightarrow> \<not> st_added st \<and> st_lists (fold (entity_step holds) items st) = st_lists st"
proof (induction items arbitrary: st)
  case (Cons i items)
  then have "\<not> st_added (entity_step holds i st)"
    "st_lists (fold (entity_step holds) (i # items) st) = st_lists (entity_step holds i st)" by simp_all
  moreover from this(1) have "\<not> st_added st \<and> st_lists (entity_step holds i st) = st_lists st"
    by (auto simp: entity_step_def Let_def split: prod.splits option.splits if_splits)
  ultimately show ?case by simp
qed simp

lemma list_of_with_lists: "t \<in> set NAMED_LISTS \<Longrightarrow> list_of (with_lists r ls) t = ls t"
  by (auto simp: NAMED_LISTS_def list_of_def with_lists_def)

lemma campaign_with_lists: "campaign_name (with_lists r ls) = campaign_name r"
  by (simp add: with_lists_def)

lemma list_of_campaign: "list_of (r\<lparr>campaign_name := c\<rparr>) t = list_of r t"
  by (simp add: list_of_def)

lemma with_named_result:
  assumes "st = fold (entity_step holds) entities (initial_state holds r)" "gone = gone_keys (outranked_types (st_typed st))"
  shows "t \<in> set NAMED_LISTS \<Longrightarrow> list_of (ne_result (with_named_entities r entities holds dropped)) t =
      filter (\<lambda>n. (name_key n, etype_value t) \<notin> gone) (st_lists st t)"
    and "campaign_name (ne_result (with_named_entities r entities holds dropped)) =
      (case campaign_name r of None \<Rightarrow> None
       | Some c \<Rightarrow> if c \<noteq> [] \<and> (name_key c, etype_value CAMPAIGN) \<in> gone then None else Some c)"
proof -
  have keep: "st_lists st = list_of r" if "\<not> st_added st"
    using entities_not_added [of holds entities "initial_state holds r"] that
    by (simp add: assms(1) initial_state_def Let_def)
  have none: "gone = {}" if "outranked_types (st_typed st) = []" using that by (simp add: assms(2) gone_keys_def)
  show "list_of (ne_result (with_named_entities r entities holds dropped)) t =
      filter (\<lambda>n. (name_key n, etype_value t) \<notin> gone) (st_lists st t)" if "t \<in> set NAMED_LISTS"
    using keep none that unfolding with_named_entities_def assms(1) [symmetric] assms(2)
    by (auto simp: Let_def list_of_with_lists list_of_campaign split: option.split list.split)
  show "campaign_name (ne_result (with_named_entities r entities holds dropped)) =
      (case campaign_name r of None \<Rightarrow> None
       | Some c \<Rightarrow> if c \<noteq> [] \<and> (name_key c, etype_value CAMPAIGN) \<in> gone then None else Some c)"
    using none unfolding with_named_entities_def assms(1) [symmetric] assms(2)
    by (auto simp: Let_def campaign_with_lists split: option.split list.split)
qed

text \<open>What the named lists of the result hold, and the campaign name.\<close>

definition best_names :: "(string \<times> entity_type \<times> string) set \<Rightarrow> entity_type \<Rightarrow> string set" where
  "best_names C t = {k. best_type C k t}"

definition best_campaign :: "(string \<times> entity_type \<times> string) set \<Rightarrow> string option \<Rightarrow> string option" where
  "best_campaign C c = (case c of None \<Rightarrow> None
     | Some c \<Rightarrow> if name_key c = [] \<or> best_type C (name_key c) CAMPAIGN then Some c else None)"

text \<open>C22. The named lists of the result hold exactly the names whose type is given by the best-ranked source
  among all sources that type the name, in the LLM's answer and in the detected entities alike; the
  campaign name stays exactly when campaign is a best type of it.\<close>

lemma named_entities_exact:
  "map (\<lambda>t. name_key ` set (list_of (ne_result (with_named_entities r entities holds dropped)) t) - {[]}) NAMED_LISTS =
     map (best_names (all_claims holds r entities)) NAMED_LISTS \<and>
   campaign_name (ne_result (with_named_entities r entities holds dropped)) =
     best_campaign (all_claims holds r entities) (campaign_name r)"
proof -
  define st where "st = fold (entity_step holds) entities (initial_state holds r)"
  define gone where "gone = gone_keys (outranked_types (st_typed st))"
  let ?C = "all_claims holds r entities"
  have ok: "state_ok st" and C: "claims_of (st_typed st) = ?C"
    using entities_ok [OF initial_ok, of holds entities] initial_typed [of holds r]
    by (simp_all add: st_def all_claims_def)
  have typed: "typed_ok (st_typed st)" using ok by (simp add: state_ok_def)
  have gone: "(k, etype_value t) \<in> gone \<longleftrightarrow> (\<exists>s. (k, t, s) \<in> ?C) \<and> \<not> best_type ?C k t" for k t
    using gone_exact [OF typed, of k t] by (simp add: gone_def C)
  have claimed: "best_type ?C k t \<Longrightarrow> \<exists>s. (k, t, s) \<in> ?C" for k t by (auto simp: best_type_def)
  have full: "(k, t, s) \<in> ?C \<Longrightarrow> k \<noteq> []" for k t s
    unfolding C [symmetric] claims_of_def using typed_ok_entry [OF typed] by blast
  have "name_key ` set (list_of (ne_result (with_named_entities r entities holds dropped)) t) - {[]} = best_names ?C t"
    if t: "t \<in> set NAMED_LISTS" for t
  proof -
    note s = state_okD [OF ok t, unfolded C]
    have "name_key ` set (list_of (ne_result (with_named_entities r entities holds dropped)) t) - {[]} =
        {k \<in> st_seen st t. (k, etype_value t) \<notin> gone} - {[]}"
      unfolding with_named_result(1) [OF st_def gone_def t] s(1) by auto
    also have "\<dots> = best_names ?C t"
      using s(2,3) gone claimed full unfolding best_names_def by blast
    finally show ?thesis .
  qed
  moreover have "campaign_name (ne_result (with_named_entities r entities holds dropped)) = best_campaign ?C (campaign_name r)"
  proof (cases "campaign_name r")
    case (Some c)
    have "\<exists>s. (name_key c, CAMPAIGN, s) \<in> ?C" if "name_key c \<noteq> []"
      using Some that by (auto simp: all_claims_def llm_claims_def name_claim_def)
    moreover have "name_key [] = []" by (simp add: name_key_def)
    ultimately show ?thesis
      using gone [of "name_key c" CAMPAIGN] full unfolding with_named_result(2) [OF st_def gone_def] best_campaign_def
      by (auto simp: Some)
  qed (simp add: with_named_result(2) [OF st_def gone_def] best_campaign_def)
  ultimately show ?thesis by (simp cong: map_cong)
qed

end
