(* ===== verification/MitreNorm.thy ===== *)
theory MitreNorm
  imports NamedEntities Aliases
begin

text \<open>
  Stage 3c, pipeline/stage3c_mitre.py: the name and id index over the ATT&CK data, \<open>_resolve\<close>,
  \<open>normalize_ttps\<close> (the LLM's techniques merged with the semantic matches) and the subsumption of
  parent techniques; pipeline/mitre_db.py: \<open>replacement_for\<close>. The ATT&CK files, rapidfuzz and the
  cut-point of Stage 2c are arguments. A technique is a \<open>TTPExtracted\<close> of pipeline/stage3_llm.py.
\<close>

section \<open>Techniques\<close>

record ttp =
  ttp_name :: string
  ttp_mitre :: "string option"
  ttp_description :: string
  ttp_evidence :: "string option"
  ttp_label :: evidence_label

text \<open>\<open>x or None\<close> for a string that may be \<open>None\<close>: the empty string is false.\<close>

definition truthy_str :: "string option \<Rightarrow> string option" where
  "truthy_str s = (case s of Some (c # cs) \<Rightarrow> Some (c # cs) | _ \<Rightarrow> None)"

lemma truthy_str_simps [simp]:
  "truthy_str None = None" "truthy_str (Some []) = None" "truthy_str (Some (c # cs)) = Some (c # cs)"
  by (simp_all add: truthy_str_def)

lemma truthy_str_Some: "truthy_str s = Some v \<longleftrightarrow> s = Some v \<and> v \<noteq> []"
  by (auto simp: truthy_str_def split: option.splits list.splits)

lemma truthy_str_None: "truthy_str s = None \<longleftrightarrow> s = None \<or> s = Some []"
  by (auto simp: truthy_str_def split: option.splits list.splits)

section \<open>The index\<close>

record mitre_entry =
  me_id :: string
  me_name :: string
  me_domain :: string

record mitre_rec =
  mr_id :: string
  mr_name :: string
  mr_url :: string

definition mitre_url :: "string \<Rightarrow> string" where
  "mitre_url mid =
    (if starts_with mid ''T'' then ''https://attack.mitre.org/techniques/'' @ replace_char CHR ''.'' CHR ''/'' mid @ ''/''
     else if starts_with mid ''TA'' then ''https://attack.mitre.org/tactics/'' @ mid @ ''/''
     else [])"

type_synonym mitre_index = "(string, mitre_rec) dict \<times> (string, nat) dict"

definition DOMAIN_COUNT :: nat where
  "DOMAIN_COUNT = 4"

definition add_mitre :: "mitre_entry \<Rightarrow> mitre_index \<Rightarrow> mitre_index" where
  "add_mitre e st =
    (let mid = me_id e; nk = lower (me_name e);
         rcd = \<lparr>mr_id = mid, mr_name = me_name e, mr_url = mitre_url mid\<rparr>;
         rank = domain_rank (me_domain e);
         st = (if rank < dget (snd st) nk (DOMAIN_COUNT + 1) then (dset nk rcd (fst st), dset nk rank (snd st)) else st) in
     (dset (lower mid) rcd (fst st), snd st))"

definition add_revoked :: "string \<times> string \<Rightarrow> mitre_index \<Rightarrow> mitre_index" where
  "add_revoked r st = (case r of (old_name, new_id) \<Rightarrow>
    (case map_of (fst st) (lower new_id) of
       None \<Rightarrow> st
     | Some rcd \<Rightarrow> if 0 < dget (snd st) old_name (DOMAIN_COUNT + 1)
         then (dset old_name rcd (fst st), dset old_name 0 (snd st)) else st))"

definition load_mitre :: "bool \<Rightarrow> mitre_entry list \<Rightarrow> (string \<times> string) list \<Rightarrow> (string, mitre_rec) dict option" where
  "load_mitre available entries revoked =
    (if \<not> available then None
     else let ix = fst (fold add_revoked revoked (fold add_mitre entries ([], []))) in
       if ix = [] then None else Some ix)"

definition replacement_for :: "(string \<times> string) list \<Rightarrow> string \<Rightarrow> string option" where
  "replacement_for revoked_by mitre_id =
    map_of (fold (\<lambda>(k, v). dset (upper k) v) revoked_by []) (upper (strip mitre_id))"

definition MITRE_ID :: rx where
  "MITRE_ID = Seq (lit ''t'') (alts [Seq (lit ''a'') (times_rx 4 (Cls is_digit)),
     Seq (times_rx 4 (Cls is_digit)) (opt (Seq (lit ''.'') (times_rx 3 (Cls is_digit))))])"

definition is_mitre_id :: "string \<Rightarrow> bool" where
  "is_mitre_id k \<longleftrightarrow> fullmatch MITRE_ID k"

section \<open>Resolution\<close>

definition HIGH_CONF :: rat where "HIGH_CONF = 85"
definition MEDIUM_CONF :: rat where "MEDIUM_CONF = 70"

text \<open>\<open>rfprocess.extractOne\<close> is an argument, \<open>None\<close> where rapidfuzz is missing.\<close>

type_synonym fuzzy = "(string \<Rightarrow> string list \<Rightarrow> (string \<times> rat) option) option"

definition resolve_ttp :: "(string, mitre_rec) dict option \<Rightarrow> (string \<Rightarrow> string option) \<Rightarrow> fuzzy \<Rightarrow>
    string \<Rightarrow> string option \<Rightarrow> string \<times> string option \<times> string option" where
  "resolve_ttp index replacement fuzzy name mitre_id =
    (case (index, fuzzy) of
       (Some ix, Some extract_one) \<Rightarrow>
        if ix = [] then (name, mitre_id, None) else
        (let entry_of = (\<lambda>k. case truthy_str k of None \<Rightarrow> None | Some i \<Rightarrow> map_of ix (lower i));
             found = (\<lambda>e. (mr_name e, Some (mr_id e), Some (mr_url e)));
             name_lower = strip (lower name);
             renewed = (case truthy_str mitre_id of None \<Rightarrow> None
               | Some i \<Rightarrow> if map_of ix (lower i) = None then entry_of (replacement i) else None) in
         case renewed of Some e \<Rightarrow> found e | None \<Rightarrow>
         case entry_of mitre_id of Some e \<Rightarrow> found e | None \<Rightarrow>
         case map_of ix name_lower of Some e \<Rightarrow> found e | None \<Rightarrow>
         case extract_one name_lower (filter (\<lambda>k. \<not> is_mitre_id k) (map fst ix)) of
           None \<Rightarrow> (name, mitre_id, None)
         | Some (best_key, score) \<Rightarrow>
             (case map_of ix best_key of None \<Rightarrow> (name, mitre_id, None) | Some e \<Rightarrow>
               if HIGH_CONF \<le> score then found e
               else if MEDIUM_CONF \<le> score then (name, Some (mr_id e), Some (mr_url e))
               else (name, mitre_id, None)))
     | _ \<Rightarrow> (name, mitre_id, None))"

section \<open>Merging with the semantic matches\<close>

definition semantic_evidence :: "raw_entity list \<Rightarrow> (string, string) dict" where
  "semantic_evidence ents = fold (\<lambda>e d. case truthy_str (ent_mitre_id e) of None \<Rightarrow> d | Some mid \<Rightarrow>
     if strip (ent_context e) = [] then d else dsetdefault (lower mid) (strip (ent_context e)) d) ents []"

definition semantic_ttp :: "raw_entity \<Rightarrow> ttp" where
  "semantic_ttp e = \<lparr>ttp_name = ent_value e, ttp_mitre = ent_mitre_id e, ttp_description = ent_context e,
     ttp_evidence = truthy_str (Some (ent_context e)), ttp_label = REPORTED\<rparr>"

type_synonym ttp_table = "(string, ttp) dict"

text \<open>Step 1: the high-confidence matches, with the keys they own.\<close>

definition seed_high :: "rat \<Rightarrow> raw_entity \<Rightarrow> ttp_table \<times> string set \<Rightarrow> ttp_table \<times> string set" where
  "seed_high high e st = (case truthy_str (ent_mitre_id e) of None \<Rightarrow> st | Some mid \<Rightarrow>
     if ent_confidence e < high then st
     else (dset (lower mid) (semantic_ttp e) (fst st), insert (lower mid) (snd st)))"

definition longer :: "string \<Rightarrow> string \<Rightarrow> string" where
  "longer candidate incumbent = (if length incumbent < length candidate then candidate else incumbent)"

text \<open>The evidence pair travels together: the table's when it holds a quote, else the new one.\<close>

definition with_evidence :: "ttp \<Rightarrow> ttp \<Rightarrow> ttp \<Rightarrow> ttp" where
  "with_evidence t old new =
    (case truthy_str (ttp_evidence old) of
       Some _ \<Rightarrow> t\<lparr>ttp_evidence := ttp_evidence old, ttp_label := ttp_label old\<rparr>
     | None \<Rightarrow> t\<lparr>ttp_evidence := ttp_evidence new, ttp_label := ttp_label new\<rparr>)"

definition or_str :: "string option \<Rightarrow> string option \<Rightarrow> string option" where
  "or_str a b = (case truthy_str a of Some v \<Rightarrow> Some v | None \<Rightarrow> b)"

text \<open>Step 2: one technique of the LLM.\<close>

definition resolved_key :: "string \<times> string option \<times> string option \<Rightarrow> string" where
  "resolved_key r = (case truthy_str (fst (snd r)) of Some i \<Rightarrow> lower i | None \<Rightarrow> lower (fst r))"

definition merge_llm :: "(ttp \<Rightarrow> string \<times> string option \<times> string option) \<Rightarrow> (string, string) dict \<Rightarrow> string set \<Rightarrow>
    ttp \<Rightarrow> ttp_table \<Rightarrow> ttp_table" where
  "merge_llm res quotes high_keys t normalized =
    (let r = res t; k = resolved_key r;
         new = t\<lparr>ttp_name := fst r, ttp_mitre := fst (snd r), ttp_evidence := or_str (ttp_evidence t) (map_of quotes k)\<rparr> in
     case map_of normalized k of
       None \<Rightarrow> dset k new normalized
     | Some old \<Rightarrow>
         let d = longer (ttp_description new) (ttp_description old) in
         if k \<in> high_keys then dset k (with_evidence (old\<lparr>ttp_description := d\<rparr>) old new) normalized
         else dset k (with_evidence \<lparr>ttp_name = str_or (Some (ttp_name new)) (ttp_name old),
                ttp_mitre = or_str (ttp_mitre new) (ttp_mitre old), ttp_description = d,
                ttp_evidence = None, ttp_label = REPORTED\<rparr> old new) normalized)"

text \<open>Step 3: the other semantic matches, where nothing holds their technique.\<close>

definition add_medium :: "raw_entity \<Rightarrow> ttp_table \<Rightarrow> ttp_table" where
  "add_medium e normalized = (case truthy_str (ent_mitre_id e) of None \<Rightarrow> normalized | Some mid \<Rightarrow>
     if map_of normalized (lower mid) \<noteq> None then normalized else dset (lower mid) (semantic_ttp e) normalized)"

section \<open>Subsumption\<close>

definition present_ids :: "ttp list \<Rightarrow> string list" where
  "present_ids ts = map upper (filter (\<lambda>i. is_mitre_id (lower i)) (List.map_filter (\<lambda>t. truthy_str (ttp_mitre t)) ts))"

text \<open>\<open>mid.rsplit(".", 1)[0]\<close>.\<close>

definition before_last_dot :: "string \<Rightarrow> string" where
  "before_last_dot s = (if CHR ''.'' \<in> set s then rev (tl (dropWhile (\<lambda>c. c \<noteq> CHR ''.'') (rev s))) else s)"

definition parents_with_children :: "ttp list \<Rightarrow> string list" where
  "parents_with_children ts = map before_last_dot (filter (\<lambda>i. CHR ''.'' \<in> set i) (present_ids ts))"

definition subsume_parent_techniques :: "ttp list \<Rightarrow> ttp list" where
  "subsume_parent_techniques ts =
    (let parents = parents_with_children ts in
     if parents = [] then ts
     else filter (\<lambda>t. \<not> (case truthy_str (ttp_mitre t) of None \<Rightarrow> False | Some i \<Rightarrow> upper i \<in> set parents)) ts)"

section \<open>\<open>normalize_ttps\<close>\<close>

definition normalized_table :: "(ttp \<Rightarrow> string \<times> string option \<times> string option) \<Rightarrow> rat \<Rightarrow> ttp list \<Rightarrow> raw_entity list \<Rightarrow> ttp_table" where
  "normalized_table res high ttps sem =
    (let seeded = fold (seed_high high) sem ([], {}) in
     fold add_medium sem (fold (merge_llm res (semantic_evidence sem) (snd seeded)) ttps (fst seeded)))"

definition normalize_ttps :: "(string, mitre_rec) dict option \<Rightarrow> (string \<Rightarrow> string option) \<Rightarrow> fuzzy \<Rightarrow> rat \<Rightarrow>
    ttp list \<Rightarrow> raw_entity list \<Rightarrow> ttp list" where
  "normalize_ttps index replacement fuzzy high ttps sem =
    (case index of None \<Rightarrow> ttps
     | Some ix \<Rightarrow> if ix = [] then ttps
        else subsume_parent_techniques (map snd (normalized_table
          (\<lambda>t. resolve_ttp index replacement fuzzy (ttp_name t) (ttp_mitre t)) high ttps sem)))"

end
