(* ===== verification/MitreSound.thy ===== *)
theory MitreSound
  imports MitreNorm
begin

text \<open>
  What \<open>normalize_ttps\<close> keeps: one entry per technique key, an entry for every technique the LLM or a
  semantic match names, quotes that come from one of them, and no parent beside its sub-technique.
\<close>

definition ttp_key :: "ttp \<Rightarrow> string" where
  "ttp_key t = (case truthy_str (ttp_mitre t) of Some i \<Rightarrow> lower i | None \<Rightarrow> lower (ttp_name t))"

text \<open>Where a quote may come from: an LLM technique, or the sentence of a semantic match.\<close>

definition quotes_of :: "ttp list \<Rightarrow> raw_entity list \<Rightarrow> string set" where
  "quotes_of ttps sem = {q. \<exists>t \<in> set ttps. ttp_evidence t = Some q} \<union>
     ent_context ` set sem \<union> (\<lambda>e. strip (ent_context e)) ` set sem"

definition quoted :: "string set \<Rightarrow> ttp \<Rightarrow> bool" where
  "quoted Q t \<longleftrightarrow> (case truthy_str (ttp_evidence t) of None \<Rightarrow> True | Some q \<Rightarrow> q \<in> Q)"

lemma quoted_iff: "quoted Q t \<longleftrightarrow> (\<forall>q. truthy_str (ttp_evidence t) = Some q \<longrightarrow> q \<in> Q)"
  by (simp add: quoted_def split: option.split)

lemma set_map_filter: "set (List.map_filter f xs) = {y. \<exists>x \<in> set xs. f x = Some y}"
  by (induction xs) (auto simp: List.map_filter_simps split: option.splits)

definition table_ok :: "string set \<Rightarrow> ttp_table \<Rightarrow> bool" where
  "table_ok Q d \<longleftrightarrow> distinct (map fst d) \<and> list_all (\<lambda>(k, t). ttp_key t = k \<and> quoted Q t) d"

lemma table_ok_entry: "table_ok Q d \<Longrightarrow> map_of d k = Some t \<Longrightarrow> ttp_key t = k \<and> quoted Q t"
  by (auto simp: table_ok_def list_all_iff dest!: map_of_SomeD)

lemma set_dset: "distinct (map fst d) \<Longrightarrow> set (dset k v d) \<subseteq> insert (k, v) (set d)"
  by (metis (no_types, lifting) distinct_keys_dset fun_upd_apply insert_iff map_of_dset map_of_eq_Some_iff option.inject subrelI)

lemma table_ok_dset:
  assumes "table_ok Q d" "ttp_key t = k" "quoted Q t"
  shows "table_ok Q (dset k t d)"
  using assms set_dset [of d k t] by (auto simp: table_ok_def list_all_iff)

lemma semantic_ttp_ok:
  assumes "truthy_str (ent_mitre_id e) = Some mid" "ent_context e \<in> Q"
  shows "ttp_key (semantic_ttp e) = lower mid" "quoted Q (semantic_ttp e)"
proof -
  show "ttp_key (semantic_ttp e) = lower mid" using assms(1) by (simp add: ttp_key_def semantic_ttp_def)
  show "quoted Q (semantic_ttp e)" using assms(2)
    by (cases "ent_context e") (simp_all add: semantic_ttp_def quoted_def)
qed

definition sem_keys :: "raw_entity list \<Rightarrow> string set" where
  "sem_keys sem = {lower mid | e mid. e \<in> set sem \<and> truthy_str (ent_mitre_id e) = Some mid}"

lemma sem_keys_Cons: "sem_keys (e # es) =
    (case truthy_str (ent_mitre_id e) of None \<Rightarrow> {} | Some mid \<Rightarrow> {lower mid}) \<union> sem_keys es"
  by (auto simp: sem_keys_def split: option.splits)

lemma semantic_evidence_in:
  assumes "map_of (semantic_evidence sem) k = Some q"
  shows "q \<in> (\<lambda>e. strip (ent_context e)) ` set sem"
proof -
  let ?f = "\<lambda>e d. case truthy_str (ent_mitre_id e) of None \<Rightarrow> d | Some mid \<Rightarrow>
     if strip (ent_context e) = [] then d else dsetdefault (lower mid) (strip (ent_context e)) d"
  have "map_of (fold ?f es d) k = Some q \<Longrightarrow> q \<in> (\<lambda>e. strip (ent_context e)) ` set es \<or> map_of d k = Some q" for es d
  proof (induction es arbitrary: d)
    case (Cons e es)
    then have "q \<in> (\<lambda>e. strip (ent_context e)) ` set es \<or> map_of (?f e d) k = Some q" by simp
    then show ?case by (auto simp: map_of_dsetdefault split: option.splits if_splits)
  qed simp
  from this [of sem "[]"] assms show ?thesis by (simp add: semantic_evidence_def)
qed

lemma seed_high_ok:
  assumes "table_ok Q (fst st)" "snd st \<subseteq> fst ` set (fst st)" "ent_context ` set es \<subseteq> Q"
  shows "table_ok Q (fst (fold (seed_high high) es st)) \<and>
    snd (fold (seed_high high) es st) \<subseteq> fst ` set (fst (fold (seed_high high) es st)) \<and>
    fst ` set (fst (fold (seed_high high) es st)) \<subseteq> fst ` set (fst st) \<union> sem_keys es"
  using assms
proof (induction es arbitrary: st)
  case (Cons e es)
  let ?st = "seed_high high e st"
  have "table_ok Q (fst ?st) \<and> snd ?st \<subseteq> fst ` set (fst ?st) \<and>
      fst ` set (fst ?st) \<subseteq> fst ` set (fst st) \<union> (case truthy_str (ent_mitre_id e) of None \<Rightarrow> {} | Some mid \<Rightarrow> {lower mid})"
    using Cons.prems semantic_ttp_ok [of e _ Q] table_ok_dset
    by (auto simp: seed_high_def keys_dset split: option.split)
  then have st: "table_ok Q (fst ?st)" "snd ?st \<subseteq> fst ` set (fst ?st)" and
    k: "fst ` set (fst ?st) \<subseteq> fst ` set (fst st) \<union> (case truthy_str (ent_mitre_id e) of None \<Rightarrow> {} | Some mid \<Rightarrow> {lower mid})"
    by simp_all
  have es: "ent_context ` set es \<subseteq> Q" using Cons.prems(3) by simp
  from Cons.IH [OF st es] have IH: "table_ok Q (fst (fold (seed_high high) es ?st))"
    "snd (fold (seed_high high) es ?st) \<subseteq> fst ` set (fst (fold (seed_high high) es ?st))"
    "fst ` set (fst (fold (seed_high high) es ?st)) \<subseteq> fst ` set (fst ?st) \<union> sem_keys es" by blast+
  from IH(3) k have "fst ` set (fst (fold (seed_high high) es ?st)) \<subseteq> fst ` set (fst st) \<union> sem_keys (e # es)"
    unfolding sem_keys_Cons by blast
  with IH(1,2) show ?case by simp
qed simp

lemma quoted_with_evidence:
  "quoted Q old \<Longrightarrow> quoted Q new \<Longrightarrow> quoted Q (with_evidence t old new)"
  by (auto simp: quoted_def with_evidence_def split: option.splits)

lemma ttp_key_with_evidence [simp]: "ttp_key (with_evidence t old new) = ttp_key t"
  by (auto simp: ttp_key_def with_evidence_def split: option.splits)

lemma truthy_or_str: "truthy_str (or_str a b) = (case truthy_str a of Some v \<Rightarrow> Some v | None \<Rightarrow> truthy_str b)"
  by (auto simp: or_str_def truthy_str_def split: option.splits list.splits)

lemma lower_Nil_eq: "lower s = [] \<longleftrightarrow> s = []"
  by (simp add: lower_def)

lemma merge_llm_ok:
  assumes "table_ok Q d" "quoted Q (t\<lparr>ttp_evidence := or_str (ttp_evidence t) (map_of quotes (resolved_key (res t)))\<rparr>)"
  shows "table_ok Q (merge_llm res quotes H t d) \<and>
    fst ` set (merge_llm res quotes H t d) = insert (resolved_key (res t)) (fst ` set d)"
proof -
  let ?r = "res t" let ?k = "resolved_key (res t)"
  let ?new = "t\<lparr>ttp_name := fst ?r, ttp_mitre := fst (snd ?r), ttp_evidence := or_str (ttp_evidence t) (map_of quotes ?k)\<rparr>"
  have new: "ttp_key ?new = ?k" "quoted Q ?new"
    using assms(2) by (simp_all add: ttp_key_def resolved_key_def quoted_def split: option.split)
  show ?thesis
  proof (cases "map_of d ?k")
    case None
    then have "merge_llm res quotes H t d = dset ?k ?new d" by (simp add: merge_llm_def Let_def)
    then show ?thesis using table_ok_dset [OF assms(1) new] by (simp add: keys_dset)
  next
    case (Some old)
    note old = table_ok_entry [OF assms(1) Some]
    let ?d = "longer (ttp_description ?new) (ttp_description old)"
    let ?m = "\<lparr>ttp_name = str_or (Some (ttp_name ?new)) (ttp_name old), ttp_mitre = or_str (ttp_mitre ?new) (ttp_mitre old),
      ttp_description = ?d, ttp_evidence = None, ttp_label = REPORTED\<rparr>"
    have "ttp_key ?m = ?k"
    proof (cases "truthy_str (ttp_mitre ?new)")
      case None
      then have "?k = lower (ttp_name ?new)" using new(1) by (simp add: ttp_key_def)
      then show ?thesis using old None
        by (cases "ttp_name ?new") (auto simp: ttp_key_def truthy_or_str str_or_def lower_Nil_eq split: option.splits)
    qed (use new(1) in \<open>simp add: ttp_key_def truthy_or_str\<close>)
    moreover have "ttp_key (old\<lparr>ttp_description := ?d\<rparr>) = ?k" using old by (simp add: ttp_key_def cong: option.case_cong)
    ultimately have "table_ok Q (dset ?k (with_evidence (if ?k \<in> H then old\<lparr>ttp_description := ?d\<rparr> else ?m) old ?new) d)"
      using old new(2) by (intro table_ok_dset [OF assms(1)]) (simp_all add: quoted_with_evidence)
    moreover have "merge_llm res quotes H t d =
        dset ?k (with_evidence (if ?k \<in> H then old\<lparr>ttp_description := ?d\<rparr> else ?m) old ?new) d"
      using Some by (simp add: merge_llm_def Let_def)
    ultimately show ?thesis by (simp add: keys_dset)
  qed
qed

lemma merge_llms_ok:
  assumes "table_ok Q d" "\<forall>t \<in> set ts. quoted Q t" "\<And>k q. map_of quotes k = Some q \<Longrightarrow> q \<in> Q"
  shows "table_ok Q (fold (merge_llm res quotes H) ts d) \<and>
    fst ` set (fold (merge_llm res quotes H) ts d) = (\<lambda>t. resolved_key (res t)) ` set ts \<union> fst ` set d"
  using assms(1,2)
proof (induction ts arbitrary: d)
  case (Cons t ts)
  have "quoted Q (t\<lparr>ttp_evidence := or_str (ttp_evidence t) (map_of quotes (resolved_key (res t)))\<rparr>)"
  proof -
    have "q \<in> Q" if q: "truthy_str (or_str (ttp_evidence t) (map_of quotes (resolved_key (res t)))) = Some q" for q
    proof (cases "truthy_str (ttp_evidence t)")
      case None
      with q have "map_of quotes (resolved_key (res t)) = Some q" by (simp add: truthy_or_str truthy_str_Some)
      then show ?thesis by (rule assms(3))
    next
      case (Some v)
      with q Cons.prems(2) show ?thesis by (simp add: truthy_or_str quoted_iff)
    qed
    then show ?thesis by (simp add: quoted_iff)
  qed
  note step = merge_llm_ok [of Q d t quotes res H, OF Cons.prems(1) this]
  from Cons.prems(2) have "\<forall>t \<in> set ts. quoted Q t" by simp
  from Cons.IH [OF conjunct1 [OF step] this] conjunct2 [OF step] show ?case by auto
qed simp

lemma add_medium_ok:
  assumes "table_ok Q d" "ent_context ` set es \<subseteq> Q"
  shows "table_ok Q (fold add_medium es d) \<and> fst ` set (fold add_medium es d) = fst ` set d \<union> sem_keys es"
  using assms
proof (induction es arbitrary: d)
  case (Cons e es)
  have "table_ok Q (add_medium e d) \<and> fst ` set (add_medium e d) =
      fst ` set d \<union> (case truthy_str (ent_mitre_id e) of None \<Rightarrow> {} | Some mid \<Rightarrow> {lower mid})"
    using Cons.prems semantic_ttp_ok [of e _ Q] table_ok_dset
    by (auto simp: add_medium_def keys_dset map_of_eq_None_iff split: option.split)
  with Cons.IH [of "add_medium e d"] Cons.prems(2) show ?case by (auto simp: sem_keys_Cons)
qed (simp add: sem_keys_def)

lemma normalized_table_ok:
  "table_ok (quotes_of ttps sem) (normalized_table res high ttps sem) \<and>
   fst ` set (normalized_table res high ttps sem) = (\<lambda>t. resolved_key (res t)) ` set ttps \<union> sem_keys sem"
proof -
  let ?Q = "quotes_of ttps sem" and ?s = "fold (seed_high high) sem ([], {})"
  have Q: "ent_context ` set sem \<subseteq> ?Q" by (auto simp: quotes_of_def)
  have "table_ok ?Q []" by (simp add: table_ok_def)
  with seed_high_ok [of ?Q "([], {})" sem high] Q
  have s: "table_ok ?Q (fst ?s)" "fst ` set (fst ?s) \<subseteq> sem_keys sem" by simp_all
  have "\<forall>t \<in> set ttps. quoted ?Q t"
    by (auto simp: quoted_def quotes_of_def truthy_str_def split: option.split list.split)
  moreover have "map_of (semantic_evidence sem) k = Some q \<Longrightarrow> q \<in> ?Q" for k q
    using semantic_evidence_in [of sem k q] by (auto simp: quotes_of_def)
  ultimately have m: "table_ok ?Q (fold (merge_llm res (semantic_evidence sem) (snd ?s)) ttps (fst ?s)) \<and>
      fst ` set (fold (merge_llm res (semantic_evidence sem) (snd ?s)) ttps (fst ?s)) =
        (\<lambda>t. resolved_key (res t)) ` set ttps \<union> fst ` set (fst ?s)"
    by (intro merge_llms_ok [OF s(1)])
  let ?m = "fold (merge_llm res (semantic_evidence sem) (snd ?s)) ttps (fst ?s)"
  have n: "normalized_table res high ttps sem = fold add_medium sem ?m" by (simp add: normalized_table_def Let_def)
  have "table_ok ?Q (fold add_medium sem ?m)" "fst ` set (fold add_medium sem ?m) = fst ` set ?m \<union> sem_keys sem"
    using add_medium_ok [OF conjunct1 [OF m] Q] by blast+
  then show ?thesis unfolding n by (simp only: conjunct2 [OF m] Un_assoc Un_absorb1 [OF s(2)])
qed

text \<open>A technique goes when the list holds a sub-technique of it.\<close>

definition sub_technique_of :: "string \<Rightarrow> string \<Rightarrow> bool" where
  "sub_technique_of parent i \<longleftrightarrow> is_mitre_id (lower i) \<and> CHR ''.'' \<in> set i \<and> before_last_dot (upper i) = upper parent"

definition subsumed :: "ttp list \<Rightarrow> ttp \<Rightarrow> bool" where
  "subsumed ts t \<longleftrightarrow> (case truthy_str (ttp_mitre t) of None \<Rightarrow> False
     | Some i \<Rightarrow> list_ex (\<lambda>c. case truthy_str (ttp_mitre c) of None \<Rightarrow> False | Some j \<Rightarrow> sub_technique_of i j) ts)"

lemma upper_dot: "CHR ''.'' \<in> set (upper s) \<longleftrightarrow> CHR ''.'' \<in> set s"
proof -
  have "upper_char c = CHR ''.'' \<longleftrightarrow> c = CHR ''.''" for c
  proof (cases "97 \<le> (of_char c :: nat) \<and> of_char c \<le> (122 :: nat)")
    case True
    then have "((of_char c :: nat) - 32) mod 256 = of_char c - 32" by (intro mod_less) linarith
    then have "(of_char (upper_char c) :: nat) = of_char c - 32" using True by (simp add: upper_char_def)
    with True have "65 \<le> (of_char (upper_char c) :: nat)" "65 \<le> (of_char c :: nat)" by linarith+
    moreover have "(of_char CHR ''.'' :: nat) = 46" by simp
    ultimately show ?thesis by auto
  next
    case False
    then have "upper_char c = c" unfolding upper_char_def Let_def by (simp only: if_False)
    then show ?thesis by simp
  qed
  then have "CHR ''.'' = upper_char c \<longleftrightarrow> c = CHR ''.''" for c by metis
  then show ?thesis by (auto simp: upper_def image_iff)
qed

lemma parents_iff: "p \<in> set (parents_with_children ts) \<longleftrightarrow>
    (\<exists>c \<in> set ts. \<exists>j. truthy_str (ttp_mitre c) = Some j \<and> is_mitre_id (lower j) \<and> CHR ''.'' \<in> set j \<and>
       before_last_dot (upper j) = p)"
proof -
  have "set (present_ids ts) = {upper j | j c. c \<in> set ts \<and> truthy_str (ttp_mitre c) = Some j \<and> is_mitre_id (lower j)}"
    by (auto simp: present_ids_def set_map_filter)
  then have "p \<in> set (parents_with_children ts) \<longleftrightarrow> (\<exists>i. i \<in> {upper j | j c. c \<in> set ts \<and> truthy_str (ttp_mitre c) = Some j \<and>
      is_mitre_id (lower j)} \<and> CHR ''.'' \<in> set i \<and> before_last_dot i = p)"
    unfolding parents_with_children_def set_map set_filter by blast
  also have "\<dots> \<longleftrightarrow> (\<exists>c j. c \<in> set ts \<and> truthy_str (ttp_mitre c) = Some j \<and> is_mitre_id (lower j) \<and>
      CHR ''.'' \<in> set (upper j) \<and> before_last_dot (upper j) = p)" by blast
  finally show ?thesis unfolding upper_dot by blast
qed

lemma subsume_filter: "subsume_parent_techniques ts = filter (\<lambda>t. \<not> subsumed ts t) ts"
proof -
  have s: "subsumed ts t \<longleftrightarrow> (case truthy_str (ttp_mitre t) of None \<Rightarrow> False | Some i \<Rightarrow> upper i \<in> set (parents_with_children ts))" for t
    by (auto simp: subsumed_def parents_iff list_ex_iff sub_technique_of_def split: option.splits)
  show ?thesis
  proof (cases "parents_with_children ts = []")
    case True
    then have "\<not> subsumed ts t" for t unfolding s by (simp split: option.split)
    then show ?thesis using True by (simp add: subsume_parent_techniques_def)
  qed (simp add: subsume_parent_techniques_def s)
qed


end
