(* ===== verification/LlmMerge.thy ===== *)
theory LlmMerge
  imports MitreNorm Temporal
begin

text \<open>
  The LLM's answers, pipeline/stage3_llm.py: \<open>LLMEnrichmentResult\<close> and its parts, the merge of the
  chunks' answers \<open>_merge_results\<close> with \<open>_prefer\<close> and \<open>_dedup_names\<close>; pipeline/stage3e_consensus.py:
  the second model's answer regrades the relationships. Confidences are rationals; the dates of a
  relationship are those of pipeline/temporal.py, whose merge may raise.
\<close>

section \<open>The result\<close>

record llm_rel =
  rl_source :: string
  rl_verb :: string
  rl_target :: string
  rl_confidence :: rat
  rl_evidence :: "string option"
  rl_label :: evidence_label
  rl_times :: "temporal_assertion list"

record rel_review = llm_rel +
  rr_reason :: string

record ioc_assoc =
  ia_ioc :: string
  ia_malware :: "string option"
  ia_verb :: string

record ttp_review =
  tr_id :: string
  tr_name :: string
  tr_reason :: string
  tr_quote :: "string option"
  tr_sources :: "string list"

record llm_result = llm_names +
  lr_ttps :: "ttp list"
  lr_rels :: "llm_rel list"
  lr_iocs :: "ioc_assoc list"
  lr_coas :: "string list"
  lr_ttp_review :: "ttp_review list"
  lr_rel_review :: "rel_review list"

section \<open>Generic terms\<close>

definition GENERIC_MALWARE_TERMS :: "string list" where
  "GENERIC_MALWARE_TERMS =
    [''infostealer'', ''malware'', ''payload'', ''backdoor'', ''trojan'', ''ransomware'', ''spyware'',
     ''adware'', ''worm'', ''virus'', ''rat'', ''dropper'', ''loader'', ''stager'', ''implant'', ''stealer'',
     ''keylogger'', ''rootkit'', ''bootkit'', ''exploit'', ''shellcode'', ''script'', ''binary'',
     ''executable'']"

definition GENERIC_ACTOR_TERMS :: "string list" where
  "GENERIC_ACTOR_TERMS =
    [''npm'', ''pypi'', ''pip'', ''crates.io'', ''nuget'', ''maven'', ''rubygems'', ''packagist'', ''github'',
     ''gitlab'', ''bitbucket'', ''sourceforge'', ''codeberg'', ''aws'', ''azure'', ''gcp'', ''cloudflare'',
     ''fastly'', ''akamai'', ''amazon'', ''microsoft'', ''google'', ''google cloud'', ''oracle'', ''api'',
     ''sdk'', ''ide'', ''cli'', ''rest'', ''rpc'', ''grpc'', ''graphql'', ''oauth'', ''jwt'', ''ldap'',
     ''saml'', ''sso'', ''mfa'', ''2fa'', ''ioc'', ''ttp'', ''cve'', ''cpe'', ''stix'', ''taxii'', ''c2'',
     ''python'', ''javascript'', ''typescript'', ''java'', ''golang'', ''go'', ''rust'', ''node'', ''nodejs'',
     ''node.js'', ''deno'', ''bun'', ''php'', ''react'', ''vue'', ''angular'', ''svelte'', ''django'',
     ''flask'', ''fastapi'', ''spring'', ''express'', ''rails'', ''docker'', ''kubernetes'', ''k8s'',
     ''terraform'', ''ansible'', ''linux'', ''windows'', ''macos'', ''ubuntu'', ''debian'', ''package'',
     ''library'', ''framework'', ''module'', ''plugin'', ''extension'', ''repository'', ''registry'',
     ''open source'', ''open-source'', ''victim'', ''target'', ''organization'', ''company'', ''vendor'',
     ''researcher'', ''analyst'', ''developer'', ''maintainer'', ''contributor'', ''security'', ''threat'',
     ''attack'', ''campaign'', ''supply chain'', ''user'', ''team'', ''group'', ''community'']"

section \<open>Names and preferences\<close>

definition dedup_names :: "string list \<Rightarrow> string set \<Rightarrow> string list" where
  "dedup_names names blacklist =
    first_by lower {} (filter (\<lambda>n. n \<noteq> [] \<and> lower n \<notin> blacklist) (map strip names))"

text \<open>\<open>(has_quote, quote_length)\<close>.\<close>

definition evidence_rank :: "string option \<Rightarrow> nat \<times> nat" where
  "evidence_rank evidence = (case evidence of None \<Rightarrow> (0, 0)
     | Some q \<Rightarrow> if strip q = [] then (0, 0) else (1, length (strip q)))"

text \<open>\<open>_prefer\<close> on the evidence and the confidence of the items; a technique has no confidence.\<close>

definition prefer_item :: "('a \<Rightarrow> string option) \<Rightarrow> ('a \<Rightarrow> rat option) \<Rightarrow> 'a option \<Rightarrow> 'a \<Rightarrow> 'a" where
  "prefer_item evidence confidence incumbent candidate =
    (case incumbent of None \<Rightarrow> candidate | Some inc \<Rightarrow>
       let cand_rank = evidence_rank (evidence candidate); inc_rank = evidence_rank (evidence inc) in
       if inc_rank < cand_rank then candidate
       else if cand_rank < inc_rank then inc
       else (case (confidence candidate, confidence inc) of
              (Some c, Some i) \<Rightarrow> if i < c then candidate else inc | _ \<Rightarrow> inc))"

section \<open>Merging\<close>

definition covered_names :: "raw_entity list \<Rightarrow> raw_entity list \<Rightarrow> string set" where
  "covered_names gazetteer cyner = (\<lambda>e. lower (ent_value e)) ` set (gazetteer @ cyner)"

definition merge_ttp :: "ttp \<Rightarrow> (string, ttp) dict \<Rightarrow> (string, ttp) dict" where
  "merge_ttp t m =
    (let name_key = lower (ttp_name t) in
     case truthy_str (ttp_mitre t) of
       Some mid \<Rightarrow> dpop name_key (dset mid (prefer_item ttp_evidence (\<lambda>_. None) (map_of m mid) t) m)
     | None \<Rightarrow>
         if list_ex (\<lambda>(k, v). lower (ttp_name v) = name_key \<and> truthy_str (ttp_mitre v) \<noteq> None) m
            \<or> map_of m name_key \<noteq> None then m
         else dset name_key t m)"

definition rel_key :: "('a llm_rel_scheme) \<Rightarrow> string \<times> string \<times> string" where
  "rel_key r = (lower (rl_source r), rl_verb r, lower (rl_target r))"

type_synonym rel_table = "(string \<times> string \<times> string, llm_rel) dict"

definition prefer_rel :: "llm_rel option \<Rightarrow> llm_rel \<Rightarrow> llm_rel" where
  "prefer_rel = prefer_item rl_evidence (\<lambda>r. Some (rl_confidence r))"

definition merge_rel :: "llm_rel \<Rightarrow> rel_table \<Rightarrow> py_exc + rel_table" where
  "merge_rel r m =
    (let incumbent = map_of m (rel_key r); chosen = prefer_rel incumbent r in
     case incumbent of
       Some i \<Rightarrow> if rl_times i \<noteq> [] \<or> rl_times r \<noteq> []
         then and_then (merge_times (rl_times i) (rl_times r)) (\<lambda>ts. Inr (dset (rel_key r) (chosen\<lparr>rl_times := ts\<rparr>) m))
         else Inr (dset (rel_key r) chosen m)
     | None \<Rightarrow> Inr (dset (rel_key r) chosen m))"

fun fold_raise :: "('a \<Rightarrow> 'b \<Rightarrow> 'e + 'b) \<Rightarrow> 'a list \<Rightarrow> 'b \<Rightarrow> 'e + 'b" where
  "fold_raise f [] st = Inr st"
| "fold_raise f (x # xs) st = and_then (f x st) (fold_raise f xs)"

definition merge_ioc :: "ioc_assoc \<Rightarrow> (string \<times> string, ioc_assoc) dict \<Rightarrow> (string \<times> string, ioc_assoc) dict" where
  "merge_ioc a m = (case truthy_str (ia_malware a) of None \<Rightarrow> m | Some mw \<Rightarrow>
     if ia_ioc a = [] then m else dset (lower (ia_ioc a), lower mw) a m)"

text \<open>\<open>Counter(...).most_common(1)\<close>: the first of the commonest.\<close>

definition commonest :: "string list \<Rightarrow> string option" where
  "commonest names = (case map (\<lambda>kg. (fst kg, length (snd kg))) (group_by (\<lambda>n. n) names) of
     [] \<Rightarrow> None | p # ps \<Rightarrow> Some (fst (max_by snd p ps)))"

definition merge_results :: "(ttp list \<Rightarrow> raw_entity list \<Rightarrow> ttp list) \<Rightarrow> llm_result list \<Rightarrow>
    raw_entity list \<Rightarrow> raw_entity list \<Rightarrow> raw_entity list \<Rightarrow> py_exc + llm_result" where
  "merge_results normal results gazetteer semantic cyner =
    (let covered = covered_names gazetteer cyner;
         ttp_map = fold merge_ttp (concat (map lr_ttps results)) [];
         over = (\<lambda>f. concat (map f results)) in
     and_then (fold_raise merge_rel (concat (map lr_rels results)) []) (\<lambda>rel_map.
       let ioc_map = fold merge_ioc (concat (map lr_iocs results)) [];
           review_map = fold (\<lambda>rv. dsetdefault (upper (tr_id rv)) rv) (concat (map lr_ttp_review results)) [];
           rel_review_map = fold (\<lambda>h. dsetdefault (rel_key h) h) (concat (map lr_rel_review results)) [];
           ttps = normal (map snd ttp_map) semantic;
           selected = (\<lambda>t. upper (case ttp_mitre t of None \<Rightarrow> [] | Some i \<Rightarrow> i)) ` set ttps in
       Inr \<lparr>malware_families = dedup_names (over malware_families) (set GENERIC_MALWARE_TERMS \<union> covered),
            threat_actors = dedup_names (over threat_actors) (set GENERIC_ACTOR_TERMS \<union> covered),
            llm_tools = dedup_names (over llm_tools) covered,
            targeted_countries = dedup_names (over targeted_countries) {},
            targeted_sectors = dedup_names (over targeted_sectors) {},
            campaign_name = commonest (map strip (List.map_filter (\<lambda>r. truthy_str (campaign_name r)) results)),
            lr_ttps = ttps, lr_rels = map snd rel_map, lr_iocs = map snd ioc_map,
            lr_coas = dedup_names (over lr_coas) {},
            lr_ttp_review = map snd (filter (\<lambda>(k, rv). k \<notin> selected) review_map),
            lr_rel_review = map snd (filter (\<lambda>(k, h). k \<notin> fst ` set rel_map) rel_review_map)\<rparr>))"

section \<open>Consensus\<close>

definition AGREE_BOOST :: rat where "AGREE_BOOST = 1 / 10"
definition SINGLE_PENALTY :: rat where "SINGLE_PENALTY = 1 / 5"

text \<open>The environment is read by the arguments: the two provider names, stripped and lowered here.\<close>

definition consensus_enabled :: "bool \<Rightarrow> string \<Rightarrow> string \<Rightarrow> bool" where
  "consensus_enabled flag consensus_provider llm_provider =
    (let second = lower (strip consensus_provider); primary = lower (strip llm_provider) in
     flag \<and> second \<noteq> ''none'' \<and> second \<noteq> [] \<and> second \<noteq> primary)"

definition proposed_labels :: "llm_result \<Rightarrow> (string \<times> string \<times> string, evidence_label list) dict" where
  "proposed_labels secondary = group_pairs (map (\<lambda>r. (rel_key r, rl_label r)) (lr_rels secondary))"

definition regrade :: "(string \<times> string \<times> string, evidence_label list) dict \<Rightarrow> llm_rel \<Rightarrow> llm_rel" where
  "regrade sec_labels r = (case map_of sec_labels (rel_key r) of
     None \<Rightarrow> r\<lparr>rl_confidence := max 0 (rl_confidence r - SINGLE_PENALTY),
               rl_label := (if rl_label r = OBSERVED then REPORTED else rl_label r)\<rparr>
   | Some proposed \<Rightarrow> if list_all (\<lambda>l. l = GAP) proposed then r
       else r\<lparr>rl_confidence := min 1 (rl_confidence r + AGREE_BOOST)\<rparr>)"

definition reconcile :: "llm_result \<Rightarrow> llm_result \<Rightarrow> llm_result" where
  "reconcile primary secondary = primary\<lparr>lr_rels := map (regrade (proposed_labels secondary)) (lr_rels primary)\<rparr>"

end
