(* ===== verification/LlmSound.thy ===== *)
theory LlmSound
  imports LlmMerge ExtractSound
begin

text \<open>
  The merge of the chunks' answers: one relationship per claim, the best-supported copy of it with every
  date any copy states; the named lists without duplicates and without blacklisted names; a claim held
  for review only where no chunk verified it.
\<close>

section \<open>Preference\<close>

definition rel_score :: "('a llm_rel_scheme) \<Rightarrow> (nat \<times> nat) \<times> rat" where
  "rel_score r = (evidence_rank (rl_evidence r), rl_confidence r)"

lemma prefer_rel_None [simp]: "prefer_rel None r = r"
  by (simp add: prefer_rel_def prefer_item_def)

lemma prefer_rel_Some: "prefer_rel (Some i) r = (if rel_score i < rel_score r then r else i)"
proof -
  have "rel_score i < rel_score r \<longleftrightarrow> evidence_rank (rl_evidence i) < evidence_rank (rl_evidence r) \<or>
      evidence_rank (rl_evidence i) = evidence_rank (rl_evidence r) \<and> rl_confidence i < rl_confidence r"
    by (auto simp: rel_score_def less_prod_def')
  then show ?thesis
    by (auto simp: prefer_rel_def prefer_item_def Let_def)
qed

section \<open>One relationship per claim\<close>

definition copies :: "llm_rel list \<Rightarrow> llm_rel \<Rightarrow> llm_rel set" where
  "copies rs r = {c \<in> set rs. rel_key c = rel_key r}"

definition best_copy :: "llm_rel list \<Rightarrow> llm_rel \<Rightarrow> bool" where
  "best_copy rs r \<longleftrightarrow>
     (\<exists>c \<in> copies rs r. r = c\<lparr>rl_times := rl_times r\<rparr>) \<and>
     (\<forall>c \<in> copies rs r. rel_score c \<le> rel_score r) \<and>
     temporal_identity ` set (rl_times r) = (\<Union>c \<in> copies rs r. temporal_identity ` set (rl_times c))"

definition rels_ok :: "llm_rel list \<Rightarrow> rel_table \<Rightarrow> bool" where
  "rels_ok rs m \<longleftrightarrow> distinct (map fst m) \<and> fst ` set m = rel_key ` set rs \<and>
     list_all (\<lambda>(k, r). rel_key r = k \<and> best_copy rs r) m"

lemma copies_snoc: "copies (rs @ [r]) x = (if rel_key r = rel_key x then insert r (copies rs x) else copies rs x)"
  by (auto simp: copies_def)

lemma copies_times [simp]: "copies rs (x\<lparr>rl_times := ts\<rparr>) = copies rs x"
  by (simp add: copies_def rel_key_def)

lemma rel_score_times [simp]: "rel_score (x\<lparr>rl_times := ts\<rparr>) = rel_score (x :: llm_rel)"
  by (simp add: rel_score_def)

lemma rel_key_times [simp]: "rel_key (x\<lparr>rl_times := ts\<rparr>) = rel_key (x :: llm_rel)"
  by (simp add: rel_key_def)

lemma copies_key: "rel_key x = rel_key y \<Longrightarrow> copies rs x = copies rs y"
  by (simp add: copies_def)

lemma best_copy_other: "best_copy rs x \<Longrightarrow> rel_key r \<noteq> rel_key x \<Longrightarrow> best_copy (rs @ [r]) x"
  by (simp add: best_copy_def copies_snoc)

lemma best_copy_new: "rel_key r \<notin> rel_key ` set rs \<Longrightarrow> best_copy (rs @ [r]) r"
proof -
  assume "rel_key r \<notin> rel_key ` set rs"
  then have "copies rs r = {}" by (auto simp: copies_def image_iff)
  then show ?thesis by (simp add: best_copy_def copies_snoc)
qed

lemma rels_ok_dset:
  assumes "rels_ok rs m" "rel_key x = rel_key r" "best_copy (rs @ [r]) x"
  shows "rels_ok (rs @ [r]) (dset (rel_key r) x m)"
proof -
  have d: "distinct (map fst m)" using assms(1) by (simp add: rels_ok_def)
  have "rel_key y = k \<and> best_copy (rs @ [r]) y" if "(k, y) \<in> set (dset (rel_key r) x m)" for k y
  proof -
    have "map_of (dset (rel_key r) x m) k = Some y" using that d by (simp add: map_of_eq_Some_iff)
    then have "k = rel_key r \<and> y = x \<or> k \<noteq> rel_key r \<and> (k, y) \<in> set m"
      using d by (auto simp: map_of_dset split: if_splits dest: map_of_SomeD)
    then show ?thesis using assms best_copy_other by (auto simp: rels_ok_def list_all_iff)
  qed
  then show ?thesis using assms(1) by (auto simp: rels_ok_def list_all_iff keys_dset)
qed

lemma merge_rel_ok:
  assumes "rels_ok rs m" "merge_rel r m = Inr m'"
  shows "rels_ok (rs @ [r]) m'"
proof (cases "map_of m (rel_key r)")
  case None
  then have "m' = dset (rel_key r) r m" using assms(2) by (simp add: merge_rel_def Let_def)
  moreover have "rel_key r \<notin> rel_key ` set rs" using None assms(1) by (auto simp: rels_ok_def map_of_eq_None_iff)
  ultimately show ?thesis using rels_ok_dset [OF assms(1) refl best_copy_new] by simp
next
  case (Some i)
  then have i: "rel_key i = rel_key r" "best_copy rs i"
    using assms(1) by (auto simp: rels_ok_def list_all_iff dest!: map_of_SomeD)
  let ?c = "prefer_rel (Some i) r"
  obtain ts where ts: "m' = dset (rel_key r) (?c\<lparr>rl_times := ts\<rparr>) m"
    "temporal_identity ` set ts = temporal_identity ` (set (rl_times i) \<union> set (rl_times r))"
  proof (cases "rl_times i \<noteq> [] \<or> rl_times r \<noteq> []")
    case True
    with Some assms(2) obtain ts where t: "merge_times (rl_times i) (rl_times r) = Inr ts"
      "m' = dset (rel_key r) (?c\<lparr>rl_times := ts\<rparr>) m"
      by (auto simp: merge_rel_def Let_def and_then_Inr)
    with merge_times_union [OF t(1)] that show ?thesis by blast
  next
    case False
    then have "m' = dset (rel_key r) ?c m" "rl_times ?c = []" using Some assms(2)
      by (auto simp: merge_rel_def Let_def prefer_rel_Some)
    moreover have "x\<lparr>rl_times := rl_times x\<rparr> = x" for x :: llm_rel by simp
    ultimately have "m' = dset (rel_key r) (?c\<lparr>rl_times := []\<rparr>) m" by metis
    with that [of "[]"] False show ?thesis by simp
  qed
  have ci: "copies rs r = copies rs i" "copies (rs @ [r]) ?c = insert r (copies rs i)"
    using i(1) by (auto simp: copies_snoc prefer_rel_Some copies_key [of r i])
  obtain c where c: "c \<in> copies rs i" "i = c\<lparr>rl_times := rl_times i\<rparr>" using i(2) by (auto simp: best_copy_def)
  have "best_copy (rs @ [r]) (?c\<lparr>rl_times := ts\<rparr>)"
    unfolding best_copy_def copies_times ci(2) rel_score_times
  proof (intro conjI ballI)
    show "\<exists>x \<in> insert r (copies rs i). ?c\<lparr>rl_times := ts\<rparr> = x\<lparr>rl_times := rl_times (?c\<lparr>rl_times := ts\<rparr>)\<rparr>"
    proof (cases "rel_score i < rel_score r")
      case False
      have "i\<lparr>rl_times := ts\<rparr> = c\<lparr>rl_times := ts\<rparr>" by (subst c(2)) simp
      with False c(1) show ?thesis by (auto simp: prefer_rel_Some)
    qed (simp add: prefer_rel_Some)
    fix x assume "x \<in> insert r (copies rs i)"
    then have "x = r \<or> rel_score x \<le> rel_score i" using i(2) by (auto simp: best_copy_def)
    then show "rel_score x \<le> rel_score ?c" unfolding prefer_rel_Some by (auto intro: order.strict_implies_order order.trans)
  next
    show "temporal_identity ` set (rl_times (?c\<lparr>rl_times := ts\<rparr>)) =
        (\<Union>x \<in> insert r (copies rs i). temporal_identity ` set (rl_times x))"
      using ts(2) i(2) by (auto simp: best_copy_def image_Un)
  qed
  moreover have "rel_key (?c\<lparr>rl_times := ts\<rparr>) = rel_key r" using i(1) by (simp add: prefer_rel_Some)
  ultimately show ?thesis using rels_ok_dset [OF assms(1)] ts(1) by blast
qed

lemma merge_rels_ok:
  "rels_ok rs m \<Longrightarrow> fold_raise merge_rel qs m = Inr m' \<Longrightarrow> rels_ok (rs @ qs) m'"
proof (induction qs arbitrary: rs m)
  case (Cons q qs)
  then obtain m1 where m1: "merge_rel q m = Inr m1" "fold_raise merge_rel qs m1 = Inr m'" by (auto simp: and_then_Inr)
  from Cons.IH [OF merge_rel_ok [OF Cons.prems(1) m1(1)] m1(2)] show ?case by simp
qed simp

section \<open>Names\<close>

definition names_merged :: "string list \<Rightarrow> string set \<Rightarrow> string list \<Rightarrow> bool" where
  "names_merged given blacklist out \<longleftrightarrow> distinct (map lower out) \<and> set out \<subseteq> strip ` set given \<and>
     lower ` set out = (\<lambda>n. lower (strip n)) ` {n \<in> set given. strip n \<noteq> []} - blacklist"

lemma dedup_names_merged: "names_merged given B (dedup_names given B)"
proof -
  let ?ns = "filter (\<lambda>n. n \<noteq> [] \<and> lower n \<notin> B) (map strip given)"
  have "lower ` set (first_by lower {} ?ns) = lower ` set ?ns"
    using first_by_keys [of lower "{}" ?ns] by simp
  moreover have "lower ` set ?ns = (\<lambda>n. lower (strip n)) ` {n \<in> set given. strip n \<noteq> []} - B" by auto
  moreover have "set (first_by lower {} ?ns) \<subseteq> strip ` set given" using first_by_subset [of lower "{}" ?ns] by auto
  ultimately show ?thesis using first_by_distinct [of lower "{}" ?ns] by (simp add: names_merged_def dedup_names_def)
qed

section \<open>Reviews\<close>

lemma setdefaults:
  "map_of (fold (\<lambda>x. dsetdefault (f x) x) xs d) k =
    (case map_of d k of Some v \<Rightarrow> Some v | None \<Rightarrow> List.find (\<lambda>x. f x = k) xs)"
  by (induction xs arbitrary: d) (auto simp: map_of_dsetdefault split: option.splits)

lemma setdefault_keys: "fst ` set (fold (\<lambda>x. dsetdefault (f x) x) xs d) = fst ` set d \<union> f ` set xs \<and>
    (distinct (map fst d) \<longrightarrow> distinct (map fst (fold (\<lambda>x. dsetdefault (f x) x) xs d))) \<and>
    (list_all (\<lambda>(k, v). f v = k) d \<longrightarrow> list_all (\<lambda>(k, v). f v = k) (fold (\<lambda>x. dsetdefault (f x) x) xs d)) \<and>
    snd ` set (fold (\<lambda>x. dsetdefault (f x) x) xs d) \<subseteq> snd ` set d \<union> set xs"
proof (induction xs arbitrary: d)
  case (Cons x xs)
  have "fst ` set (dsetdefault (f x) x d) = insert (f x) (fst ` set d)"
    "distinct (map fst d) \<Longrightarrow> distinct (map fst (dsetdefault (f x) x d))"
    "list_all (\<lambda>(k, v). f v = k) d \<Longrightarrow> list_all (\<lambda>(k, v). f v = k) (dsetdefault (f x) x d)"
    "snd ` set (dsetdefault (f x) x d) \<subseteq> insert x (snd ` set d)"
    by (auto simp: dsetdefault_def map_of_eq_None_iff split: option.splits dest!: map_of_SomeD intro: rev_image_eqI)
  with Cons.IH [of "dsetdefault (f x) x d"] show ?case by simp blast
qed simp

text \<open>What is held for review: each undecided claim once, where no chunk verified it.\<close>

definition held_exactly :: "rel_review list \<Rightarrow> llm_rel list \<Rightarrow> rel_review list \<Rightarrow> bool" where
  "held_exactly given rels out \<longleftrightarrow> distinct (map rel_key out) \<and> set out \<subseteq> set given \<and>
     rel_key ` set out = rel_key ` set given - rel_key ` set rels"

section \<open>The merge\<close>

definition all_rels :: "llm_result list \<Rightarrow> llm_rel list" where
  "all_rels results = concat (map lr_rels results)"

definition dated :: "llm_rel list \<Rightarrow> bool" where
  "dated rs \<longleftrightarrow> list_ex (\<lambda>r. rl_times r \<noteq> []) rs"

definition merged_ok :: "llm_result list \<Rightarrow> string set \<Rightarrow> llm_result \<Rightarrow> bool" where
  "merged_ok results covered out \<longleftrightarrow>
     distinct (map rel_key (lr_rels out)) \<and> rel_key ` set (lr_rels out) = rel_key ` set (all_rels results) \<and>
     list_all (best_copy (all_rels results)) (lr_rels out) \<and>
     held_exactly (concat (map lr_rel_review results)) (lr_rels out) (lr_rel_review out) \<and>
     names_merged (concat (map threat_actors results)) (set GENERIC_ACTOR_TERMS \<union> covered) (threat_actors out) \<and>
     names_merged (concat (map malware_families results)) (set GENERIC_MALWARE_TERMS \<union> covered) (malware_families out) \<and>
     names_merged (concat (map llm_tools results)) covered (llm_tools out)"

lemma merge_rel_raises:
  assumes "fold_raise merge_rel qs m = Inl e"
  shows "dated (qs @ map snd m)"
proof (rule ccontr)
  assume nd: "\<not> dated (qs @ map snd m)"
  have "\<exists>m'. fold_raise merge_rel qs m = Inr m'" using nd
  proof (induction qs arbitrary: m)
    case (Cons q qs)
    let ?m = "dset (rel_key q) (prefer_rel (map_of m (rel_key q)) q) m"
    have t: "rl_times q = []" "\<And>i. map_of m (rel_key q) = Some i \<Longrightarrow> rl_times i = []"
      using Cons.prems by (force simp: dated_def list_ex_iff dest!: map_of_SomeD)+
    then have m: "merge_rel q m = Inr ?m" by (auto simp: merge_rel_def Let_def split: option.split)
    have sub: "snd ` set (dset k v m) \<subseteq> insert v (snd ` set m)" for k v
      by (induction m) auto
    have p: "rl_times (prefer_rel (map_of m (rel_key q)) q) = []"
      using t by (cases "map_of m (rel_key q)") (auto simp: prefer_rel_Some)
    have old: "rl_times x = []" if "x \<in> set qs \<union> snd ` set m" for x
      using Cons.prems that by (force simp: dated_def list_ex_iff)
    have "rl_times x = []" if x: "x \<in> set qs \<union> snd ` set ?m" for x
    proof -
      have "x \<in> set qs \<or> x = prefer_rel (map_of m (rel_key q)) q \<or> x \<in> snd ` set m"
        using x sub [of "rel_key q" "prefer_rel (map_of m (rel_key q)) q"] by (meson Un_iff insertE subsetD)
      then show ?thesis using p old by (elim disjE) simp_all
    qed
    then have "\<not> dated (qs @ map snd ?m)" by (auto simp: dated_def list_ex_iff)
    from Cons.IH [OF this] m show ?case by simp
  qed simp
  with assms show False by simp
qed

text \<open>C28. Merging the chunks' answers loses no claim and invents none: every claim (source, verb, target) of a
  chunk is one relationship of the result, with the fields of the best-supported copy (a quote before
  none, the longer quote, then the confidence) and the dates of all copies; an undecided claim is held
  exactly where no chunk verified it; and the named lists hold each name once, up to case, but for the
  generic ones and those a more precise stage found. The merge raises only where dates are stated.\<close>

lemma merge_results_exact:
  "case merge_results normal results gazetteer semantic cyner of
     Inl e \<Rightarrow> dated (all_rels results)
   | Inr out \<Rightarrow> merged_ok results (covered_names gazetteer cyner) out"
proof (cases "fold_raise merge_rel (all_rels results) []")
  case (Inl e)
  then show ?thesis using merge_rel_raises [OF Inl] by (simp add: merge_results_def Let_def all_rels_def)
next
  case (Inr m)
  let ?given = "concat (map lr_rel_review results)"
  let ?held = "fold (\<lambda>h. dsetdefault (rel_key h) h) ?given []"
  have ok: "rels_ok (all_rels results) m" using merge_rels_ok [of "[]" "[]" "all_rels results" m] Inr by (simp add: rels_ok_def)
  have keys: "map rel_key (map snd m) = map fst m" using ok by (auto simp: rels_ok_def list_all_iff)
  have "rel_key ` set (map snd m) = set (map rel_key (map snd m))" by (simp only: set_map)
  then have rels: "rel_key ` set (map snd m) = fst ` set m" unfolding keys by (simp only: set_map)
  have dist: "distinct (map rel_key (map snd m))" unfolding keys using ok by (simp add: rels_ok_def)
  have best: "list_all (best_copy (all_rels results)) (map snd m)" using ok by (auto simp: rels_ok_def list_all_iff)
  have h: "fst ` set ?held = rel_key ` set ?given" "distinct (map fst ?held)" "list_all (\<lambda>(k, v). rel_key v = k) ?held"
    using setdefault_keys [of rel_key ?given "[]"] by simp_all
  have hv: "snd ` set ?held \<subseteq> set ?given" using setdefault_keys [of rel_key ?given "[]"] by simp
  let ?out = "filter (\<lambda>(k, h). k \<notin> fst ` set m) ?held"
  have "\<forall>p \<in> set ?out. rel_key (snd p) = fst p" using h(3) by (auto simp: list_all_iff)
  then have k: "map rel_key (map snd ?out) = map fst ?out" by simp
  have "rel_key ` set (map snd ?out) = set (map rel_key (map snd ?out))" by (simp only: set_map)
  also have "\<dots> = fst ` set ?held - fst ` set m" unfolding k by force
  finally have hk: "rel_key ` set (map snd ?out) = rel_key ` set ?given - fst ` set m" unfolding h(1) .
  have "distinct (map fst ?out)" using h(2) by (rule distinct_map_filter)
  then have hd: "distinct (map rel_key (map snd ?out))" unfolding k .
  have hs: "set (map snd ?out) \<subseteq> set ?given" using hv by auto
  have held: "held_exactly ?given (map snd m) (map snd (filter (\<lambda>(k, h). k \<notin> fst ` set m) ?held))"
    unfolding held_exactly_def rels using hk hd hs by (intro conjI)
  show ?thesis using Inr ok rels dist best held dedup_names_merged
    by (simp add: merge_results_def Let_def all_rels_def [symmetric] merged_ok_def rels_ok_def)
qed

end
