(* ===== verification/Validate.thy ===== *)
theory Validate
  imports LlmMerge
begin

text \<open>
  Stage 3b, pipeline/stage3b_validate.py: a name of the LLM's answer is kept when it is found in the
  chunk, in the document context or in the allow list of the precise stages; a relationship when both
  its ends are. \<open>fuzz.ratio\<close> of rapidfuzz is an argument, \<open>None\<close> where it is not installed.
\<close>

section \<open>Finding a name\<close>

definition THRESHOLD_SHORT :: rat where "THRESHOLD_SHORT = 92"
definition THRESHOLD_MEDIUM :: rat where "THRESHOLD_MEDIUM = 80"
definition THRESHOLD_LONG :: rat where "THRESHOLD_LONG = 75"
definition MIN_NAME_LENGTH :: nat where "MIN_NAME_LENGTH = 3"
definition FUZZY_MIN_LENGTH :: nat where "FUZZY_MIN_LENGTH = 8"

text \<open>\<open>_DIGITS.findall\<close> and the non-empty parts of \<open>_TOKEN_SPLIT.split\<close>.\<close>

definition digit_runs :: "string \<Rightarrow> string list" where
  "digit_runs s = runs is_digit s"

definition name_parts :: "string \<Rightarrow> string list" where
  "name_parts s = runs (\<lambda>c. \<not> (is_space c \<or> c \<in> set ''-_/'')) s"

definition fuzzy_allowed :: "string \<Rightarrow> bool" where
  "fuzzy_allowed name_lower \<longleftrightarrow> \<not> (length name_lower < FUZZY_MIN_LENGTH \<or> digit_runs name_lower \<noteq> [])
     \<and> 2 \<le> length (name_parts name_lower)"

definition threshold_for :: "string \<Rightarrow> rat" where
  "threshold_for name = (if length name \<le> 5 then THRESHOLD_SHORT
     else if length name \<le> 9 then THRESHOLD_MEDIUM else THRESHOLD_LONG)"

text \<open>\<open>re.search\<close> of the escaped text between two look-arounds.\<close>

definition whole_token :: "(char \<Rightarrow> bool) \<Rightarrow> string \<Rightarrow> string \<Rightarrow> bool" where
  "whole_token P w s \<longleftrightarrow> list_ex (\<lambda>p. slice s p (p + length w) = w \<and> p + length w \<le> length s \<and>
     \<not> before_is P s p \<and> \<not> after_is P s (p + length w)) [0..<Suc (length s)]"

definition name_guard :: "char \<Rightarrow> bool" where
  "name_guard c \<longleftrightarrow> is_lower_alpha c \<or> is_digit c"

text \<open>\<open>while j < n and text_lower[j].isalnum(): j += 1\<close>.\<close>

definition word_end :: "string \<Rightarrow> nat \<Rightarrow> nat" where
  "word_end s j = j + length (takeWhile is_alnum (drop j s))"

definition fuzzy_windows :: "nat \<Rightarrow> string \<Rightarrow> string list" where
  "fuzzy_windows w s = map (\<lambda>i. slice s i (word_end s (i + w)))
     (filter (\<lambda>i. \<not> before_is is_alnum s i) [0..<Suc (length s - w)])"

type_synonym ratio = "(string \<Rightarrow> string \<Rightarrow> rat) option"

definition name_in_text :: "ratio \<Rightarrow> string \<Rightarrow> string \<Rightarrow> bool" where
  "name_in_text ratio name s =
    (let name_lower = strip (lower name); text_lower = lower s; w = length name_lower in
     if name_lower = [] then False
     else if whole_token name_guard name_lower text_lower then True
     else if w < MIN_NAME_LENGTH then False
     else (case ratio of None \<Rightarrow> False | Some score \<Rightarrow>
       fuzzy_allowed name_lower \<and> w \<le> length text_lower \<and>
       list_ex (\<lambda>window. digit_runs window = digit_runs name_lower \<and> threshold_for name_lower \<le> score name_lower window)
         (fuzzy_windows w text_lower)))"

section \<open>The filter\<close>

record validation =
  va_ratio :: ratio
  va_chunk :: string
  va_context :: string
  va_allow :: "string set"

definition keep_name :: "validation \<Rightarrow> string \<Rightarrow> bool" where
  "keep_name V name \<longleftrightarrow> lower name \<in> va_allow V \<or> name_in_text (va_ratio V) name (va_chunk V) \<or>
     (va_context V \<noteq> [] \<and> name_in_text (va_ratio V) name (va_context V))"

definition CAMPAIGN_STOPWORDS :: "string list" where
  "CAMPAIGN_STOPWORDS = [''campaign'', ''attack'', ''operation'', ''activity'', ''threat'', ''targeting'',
     ''based'', ''using'', ''group'', ''actor'', ''cluster'', ''intrusion'']"

definition campaign_keywords :: "string \<Rightarrow> string list" where
  "campaign_keywords name = filter (\<lambda>w. 5 \<le> length w \<and>
     rstrip_by (\<lambda>c. c \<in> set ''.,;:'') (lower w) \<notin> set CAMPAIGN_STOPWORDS) (split_ws name)"

definition keep_campaign :: "validation \<Rightarrow> string \<Rightarrow> bool" where
  "keep_campaign V name \<longleftrightarrow> keep_name V name \<or>
     list_ex (\<lambda>kw. name_in_text (va_ratio V) kw (va_chunk V @ '' '' @ va_context V)) (campaign_keywords name)"

definition kept_campaign :: "validation \<Rightarrow> string option \<Rightarrow> string option" where
  "kept_campaign V c = (case truthy_str c of None \<Rightarrow> c | Some n \<Rightarrow> if keep_campaign V n then Some n else None)"

text \<open>The names that were dropped and the names that stay, in lower case.\<close>

definition dropped_names :: "validation \<Rightarrow> llm_result \<Rightarrow> string set" where
  "dropped_names V r = lower ` {n \<in> set (threat_actors r @ malware_families r @ llm_tools r). \<not> keep_name V n} \<union>
     (case truthy_str (campaign_name r) of None \<Rightarrow> {} | Some n \<Rightarrow> if keep_campaign V n then {} else {lower n})"

definition kept_names :: "validation \<Rightarrow> llm_result \<Rightarrow> string set" where
  "kept_names V r = lower ` {n \<in> set (threat_actors r @ malware_families r @ llm_tools r). keep_name V n} \<union>
     (case truthy_str (kept_campaign V (campaign_name r)) of None \<Rightarrow> {} | Some n \<Rightarrow> {lower n})"

definition in_refanged :: "validation \<Rightarrow> string \<Rightarrow> bool" where
  "in_refanged V v \<longleftrightarrow> whole_token word_char v (lower (refang (va_chunk V))) \<or>
     whole_token word_char v (if va_context V = [] then [] else lower (refang (va_context V)))"

definition endpoint_ok :: "validation \<Rightarrow> string set \<Rightarrow> string set \<Rightarrow> string \<Rightarrow> bool" where
  "endpoint_ok V hallucinated kept v =
    (if lower v \<in> hallucinated then False
     else if lower v \<in> kept then True
     else if keep_name V v then True
     else if lower v = [] then False
     else in_refanged V (lower v))"

definition assoc_ok :: "validation \<Rightarrow> string set \<Rightarrow> ioc_assoc \<Rightarrow> bool" where
  "assoc_ok V hallucinated a = (case truthy_str (ia_malware a) of None \<Rightarrow> True
     | Some m \<Rightarrow> lower m \<notin> hallucinated \<and> keep_name V m)"

definition validate_llm_result :: "validation \<Rightarrow> llm_result \<Rightarrow> llm_result" where
  "validate_llm_result V r =
    (let hallucinated = dropped_names V r; kept = kept_names V r in
     r\<lparr>threat_actors := filter (keep_name V) (threat_actors r),
       malware_families := filter (keep_name V) (malware_families r),
       llm_tools := filter (keep_name V) (llm_tools r),
       lr_rels := filter (\<lambda>x. endpoint_ok V hallucinated kept (rl_source x) \<and> endpoint_ok V hallucinated kept (rl_target x)) (lr_rels r),
       lr_iocs := filter (assoc_ok V hallucinated) (lr_iocs r),
       campaign_name := kept_campaign V (campaign_name r)\<rparr>)"

section \<open>What stays\<close>

text \<open>An identifier: a name with a digit, a short name or a name of one token.\<close>

definition is_identifier :: "string \<Rightarrow> bool" where
  "is_identifier name \<longleftrightarrow> (let n = strip (lower name) in
     list_ex is_digit n \<or> length n < 8 \<or> length (name_parts n) \<le> 1)"

definition verbatim :: "validation \<Rightarrow> string \<Rightarrow> bool" where
  "verbatim V name \<longleftrightarrow> lower name \<in> va_allow V \<or> whole_token name_guard (strip (lower name)) (lower (va_chunk V)) \<or>
     whole_token name_guard (strip (lower name)) (lower (va_context V))"

definition vouched :: "validation \<Rightarrow> string \<Rightarrow> bool" where
  "vouched V name \<longleftrightarrow> keep_name V name \<and> (if is_identifier name then verbatim V name else True)"

text \<open>An end of a relationship that stays: a name of the result, or found in the text, and no dropped name.\<close>

definition real_end :: "validation \<Rightarrow> llm_result \<Rightarrow> llm_result \<Rightarrow> string \<Rightarrow> bool" where
  "real_end V r out v \<longleftrightarrow> lower v \<notin> dropped_names V r \<and>
     (lower v \<in> lower ` set (threat_actors out @ malware_families out @ llm_tools out) \<or>
      Some (lower v) = map_option lower (campaign_name out) \<or> keep_name V v \<or> in_refanged V (lower v))"

lemma no_digit_runs: "digit_runs s = [] \<longleftrightarrow> \<not> list_ex is_digit s"
proof
  assume "digit_runs s = []"
  then have "filter is_digit s = []" using concat_runs [of is_digit s] by (simp add: digit_runs_def)
  then show "\<not> list_ex is_digit s" by (simp add: filter_empty_conv list_ex_iff)
next
  assume a: "\<not> list_ex is_digit s"
  show "digit_runs s = []"
  proof (rule ccontr)
    assume "digit_runs s \<noteq> []"
    then obtain r rs where "digit_runs s = r # rs" by (cases "digit_runs s") auto
    then have "r \<in> set (runs is_digit s)" by (simp add: digit_runs_def)
    from runs_in [OF this] a show False by (auto simp: list_ex_iff list_all_iff neq_Nil_conv)
  qed
qed

lemma fuzzy_identifier: "fuzzy_allowed (strip (lower name)) \<Longrightarrow> \<not> is_identifier name"
  by (auto simp: fuzzy_allowed_def is_identifier_def no_digit_runs FUZZY_MIN_LENGTH_def Let_def)

lemma identifier_found:
  "name_in_text ratio name s \<Longrightarrow> is_identifier name \<Longrightarrow> whole_token name_guard (strip (lower name)) (lower s)"
  using fuzzy_identifier [of name] by (auto simp: name_in_text_def Let_def split: if_splits option.splits)

lemma keep_vouched: "keep_name V name \<Longrightarrow> vouched V name"
  using identifier_found by (auto simp: vouched_def verbatim_def keep_name_def)

lemma kept_campaign_idem: "kept_campaign V (kept_campaign V c) = kept_campaign V c"
  by (auto simp: kept_campaign_def truthy_str_Some split: option.split)

lemma validate_dropped_Nil: "dropped_names V (validate_llm_result V r) = {}"
  by (auto simp: dropped_names_def validate_llm_result_def Let_def kept_campaign_def truthy_str_Some truthy_str_None
      split: option.split if_splits)

lemma validate_kept: "kept_names V (validate_llm_result V r) = kept_names V r"
  by (auto simp: kept_names_def validate_llm_result_def Let_def kept_campaign_idem)

lemma endpoint_ok_mono: "endpoint_ok V H K v \<Longrightarrow> endpoint_ok V {} K v"
  by (auto simp: endpoint_ok_def split: if_splits)

lemma assoc_ok_mono: "assoc_ok V H a \<Longrightarrow> assoc_ok V {} a"
  by (auto simp: assoc_ok_def split: option.splits)

text \<open>C30. Stage 3b lets through only names the source vouches for: every actor, malware and tool it keeps is in the
  allow list or found in the chunk or the document context, an identifier (UNC4736, FIN7) verbatim and
  between word boundaries, never by similarity; both ends of every relationship it keeps are a name
  that stays or text of the report, and none is a dropped name; and it drops nothing the second time.\<close>

lemma validate_sound:
  "list_all (vouched V) (threat_actors (validate_llm_result V r) @ malware_families (validate_llm_result V r) @
       llm_tools (validate_llm_result V r)) \<and>
   list_all (\<lambda>x. real_end V r (validate_llm_result V r) (rl_source x) \<and> real_end V r (validate_llm_result V r) (rl_target x))
     (lr_rels (validate_llm_result V r)) \<and>
   validate_llm_result V (validate_llm_result V r) = validate_llm_result V r"
proof (intro conjI)
  let ?out = "validate_llm_result V r"
  show "list_all (vouched V) (threat_actors ?out @ malware_families ?out @ llm_tools ?out)"
    using keep_vouched by (auto simp: validate_llm_result_def Let_def list_all_iff)
  have names: "set (threat_actors ?out @ malware_families ?out @ llm_tools ?out) =
      {n \<in> set (threat_actors r @ malware_families r @ llm_tools r). keep_name V n}"
    by (auto simp: validate_llm_result_def Let_def)
  have camp: "campaign_name ?out = kept_campaign V (campaign_name r)" by (simp add: validate_llm_result_def Let_def)
  have ends: "real_end V r ?out v" if "endpoint_ok V (dropped_names V r) (kept_names V r) v" for v
    using that unfolding real_end_def endpoint_ok_def names camp kept_names_def
    by (auto simp: truthy_str_Some split: if_splits option.splits)
  show "list_all (\<lambda>x. real_end V r ?out (rl_source x) \<and> real_end V r ?out (rl_target x)) (lr_rels ?out)"
    using ends by (auto simp: validate_llm_result_def Let_def list_all_iff)
  have "lr_rels (validate_llm_result V ?out) = filter (\<lambda>x. endpoint_ok V {} (kept_names V r) (rl_source x) \<and>
      endpoint_ok V {} (kept_names V r) (rl_target x)) (lr_rels ?out)"
    using validate_dropped_Nil [of V r] validate_kept [of V r]
    unfolding validate_llm_result_def [of V ?out] Let_def by simp
  also have "\<dots> = lr_rels ?out"
    by (rule filter_True) (auto simp: validate_llm_result_def Let_def dest: endpoint_ok_mono)
  finally have rels: "lr_rels (validate_llm_result V ?out) = lr_rels ?out" .
  have "lr_iocs (validate_llm_result V ?out) = filter (assoc_ok V {}) (lr_iocs ?out)"
    using validate_dropped_Nil [of V r] unfolding validate_llm_result_def [of V ?out] Let_def by simp
  also have "\<dots> = lr_iocs ?out"
    by (rule filter_True) (auto simp: validate_llm_result_def Let_def dest: assoc_ok_mono)
  finally have iocs: "lr_iocs (validate_llm_result V ?out) = lr_iocs ?out" .
  have names2: "threat_actors (validate_llm_result V ?out) = threat_actors ?out"
    "malware_families (validate_llm_result V ?out) = malware_families ?out" "llm_tools (validate_llm_result V ?out) = llm_tools ?out"
    "campaign_name (validate_llm_result V ?out) = campaign_name ?out"
    by (simp_all add: validate_llm_result_def Let_def kept_campaign_idem)
  have rest: "targeted_countries (validate_llm_result V q) = targeted_countries q"
    "targeted_sectors (validate_llm_result V q) = targeted_sectors q" "lr_ttps (validate_llm_result V q) = lr_ttps q"
    "lr_coas (validate_llm_result V q) = lr_coas q" "lr_ttp_review (validate_llm_result V q) = lr_ttp_review q"
    "lr_rel_review (validate_llm_result V q) = lr_rel_review q" for q
    by (simp_all add: validate_llm_result_def Let_def)
  show "validate_llm_result V ?out = ?out" by (rule llm_result.equality) (simp_all add: rels iocs names2 rest)
qed

end
