(* ===== verification/LlmParse.thy ===== *)
theory LlmParse
  imports LlmMerge
begin

text \<open>
  Reading an LLM answer, pipeline/stage3_llm.py: the first JSON object of the text, the repair and the
  salvage of an answer cut off by the token limit (\<open>_unclosed_stack\<close>,
  \<open>_try_complete_truncated_json\<close>, \<open>_extract_complete_array_items\<close>), and the coercion of the keys
  models use to the schema's (\<open>_normalize_llm_json\<close>). \<open>json.loads\<close> and \<open>raw_decode\<close> are arguments.
\<close>

section \<open>Open structures\<close>

definition quote_char :: char where "quote_char = CHR 0x22"
definition escape_char :: char where "escape_char = CHR 0x5C"

text \<open>The state of the walk: the open brackets, innermost first, in a string, after a backslash.\<close>

type_synonym scan = "string \<times> bool \<times> bool"

definition scan_char :: "char \<Rightarrow> scan \<Rightarrow> scan" where
  "scan_char ch st = (case st of (stack, in_string, escaped) \<Rightarrow>
    if escaped then (stack, in_string, False)
    else if ch = escape_char \<and> in_string then (stack, in_string, True)
    else if ch = quote_char then (stack, \<not> in_string, False)
    else if in_string then (stack, True, False)
    else if ch \<in> set ''{['' then (ch # stack, False, False)
    else if ch \<in> set ''}]'' then (tl stack, False, False)
    else (stack, False, False))"

definition scan_text :: "string \<Rightarrow> scan" where
  "scan_text s = fold scan_char s ([], False, False)"

definition unclosed_stack :: "string \<Rightarrow> string \<times> bool" where
  "unclosed_stack s = (case scan_text s of (stack, in_string, _) \<Rightarrow> (rev stack, in_string))"

section \<open>Repair\<close>

text \<open>\<open>\s*\<close>, \<open>[^chars]*\<close> and \<open>$\<close>, which also matches before a last line break.\<close>

definition blanks :: rx where "blanks = star (Cls is_space)"

definition none_of :: "string \<Rightarrow> rx" where
  "none_of cs = star (Cls (\<lambda>c. c \<notin> set cs))"

definition at_end :: rx where
  "at_end = Test (\<lambda>s p. p = length s \<or> (Suc p = length s \<and> of_char (s ! p) = (10 :: nat)))"

definition qt :: rx where "qt = Cls (\<lambda>c. c = quote_char)"

definition DANGLING :: "rx list" where
  "DANGLING =
    [seqs [lit '','', blanks, qt, none_of [quote_char], qt, blanks, lit '':'', blanks, qt, none_of [quote_char], at_end],
     seqs [lit '','', blanks, qt, none_of [quote_char], qt, blanks, lit '':'', blanks, none_of '',{[]}'', at_end],
     seqs [lit '','', blanks, qt, none_of [quote_char], at_end],
     seqs [lit '','', blanks, lit ''{'', none_of ''{}'', at_end],
     seqs [lit '','', blanks, at_end]]"

definition drop_dangling :: "string \<Rightarrow> string" where
  "drop_dangling s = fold (\<lambda>r. rx_sub r (\<lambda>_ _ _. [])) DANGLING s"

definition close_structures :: "string \<Rightarrow> string" where
  "close_structures s = s @ map (\<lambda>opener. if opener = CHR ''['' then CHR '']'' else CHR ''}'') (rev (fst (unclosed_stack s)))"

definition try_complete_truncated_json :: "string \<Rightarrow> string option" where
  "try_complete_truncated_json s = (case unclosed_stack s of (stack, in_string) \<Rightarrow>
    if stack = [] \<and> \<not> in_string then None
    else Some (close_structures (drop_dangling (if in_string then s @ [quote_char] else s))))"

section \<open>Salvage\<close>

text \<open>The spans of the items appended; the arguments are the state of the loop and the rest of the text.\<close>

fun items_loop :: "nat \<Rightarrow> nat \<Rightarrow> nat option \<Rightarrow> bool \<Rightarrow> bool \<Rightarrow> string \<Rightarrow> (nat \<times> nat) list" where
  "items_loop i depth start in_string escaped [] = []"
| "items_loop i depth start in_string escaped (ch # cs) =
    (if escaped then items_loop (Suc i) depth start in_string False cs
     else if ch = escape_char \<and> in_string then items_loop (Suc i) depth start in_string True cs
     else if ch = quote_char then
       (if in_string then
          (case start of
             Some b \<Rightarrow> if depth = 0 then (b, Suc i) # items_loop (Suc i) depth None False False cs
                else items_loop (Suc i) depth start False False cs
           | None \<Rightarrow> items_loop (Suc i) depth None False False cs)
        else items_loop (Suc i) depth (if depth = 0 \<and> start = None then Some i else start) True False cs)
     else if in_string then items_loop (Suc i) depth start True False cs
     else if ch \<in> set ''{['' then
       items_loop (Suc i) (Suc depth) (if depth = 0 \<and> start = None then Some i else start) False False cs
     else if ch \<in> set ''}]'' then
       (if depth = 0 then []
        else case start of
           Some b \<Rightarrow> if depth = 1 then (b, Suc i) # items_loop (Suc i) 0 None False False cs
              else items_loop (Suc i) (depth - 1) start False False cs
         | None \<Rightarrow> items_loop (Suc i) (depth - 1) None False False cs)
     else items_loop (Suc i) depth start False False cs)"

definition item_spans :: "string \<Rightarrow> nat \<Rightarrow> (nat \<times> nat) list" where
  "item_spans s array_start = items_loop array_start 0 None False False (drop array_start s)"

definition extract_complete_array_items :: "string \<Rightarrow> nat \<Rightarrow> string list" where
  "extract_complete_array_items s array_start = map (\<lambda>(b, e). slice s b e) (item_spans s array_start)"

datatype json = JNull | JBool bool | JNum rat | JStr string | JArr "json list" | JObj "(string \<times> json) list"

definition LIST_FIELDS :: "string list" where
  "LIST_FIELDS = [''threat_actors'', ''malware_families'', ''tools'', ''ttps'', ''relationships'', ''ioc_associations'',
     ''targeted_sectors'', ''targeted_countries'', ''course_of_action'']"

definition field_pattern :: "string \<Rightarrow> rx" where
  "field_pattern field = seqs [qt, lit field, qt, blanks, lit '':'', blanks, lit ''['']"

definition salvage_field :: "(string \<Rightarrow> json option) \<Rightarrow> string \<Rightarrow> string \<Rightarrow> (string \<times> json) list" where
  "salvage_field loads s field = (case search (field_pattern field) s of None \<Rightarrow> []
     | Some (_, e) \<Rightarrow> (case List.map_filter loads (extract_complete_array_items s e) of
         [] \<Rightarrow> [] | items \<Rightarrow> [(field, JArr items)]))"

definition try_extract_complete_items :: "(string \<Rightarrow> json option) \<Rightarrow> string \<Rightarrow> (string \<times> json) list option" where
  "try_extract_complete_items loads s =
    (case concat (map (salvage_field loads s) LIST_FIELDS) of [] \<Rightarrow> None | r \<Rightarrow> Some r)"

section \<open>The first object\<close>

text \<open>\<open>decode s i\<close> is \<open>raw_decode\<close> at \<open>i\<close>. \<open>None\<close> when the loop ends or breaks with nothing taken.\<close>

fun find_object :: "(string \<Rightarrow> nat \<Rightarrow> json option) \<Rightarrow> string \<Rightarrow> nat \<Rightarrow> nat list \<Rightarrow> (string \<times> json) list option" where
  "find_object decode s first [] = None"
| "find_object decode s first (i # is) =
    (if s ! i \<noteq> CHR ''{'' then find_object decode s first is
     else case decode s i of
       Some (JObj obj) \<Rightarrow>
         if first < i \<and> fst (unclosed_stack (slice s first i)) \<noteq> [] then None
         else if obj = [] then find_object decode s first is
         else Some obj
     | _ \<Rightarrow> find_object decode s first is)"

definition loads_object :: "(string \<Rightarrow> json option) \<Rightarrow> string \<Rightarrow> (string \<times> json) list option" where
  "loads_object loads s = (case loads s of Some (JObj obj) \<Rightarrow> Some obj | _ \<Rightarrow> None)"

definition parsed_json :: "(string \<Rightarrow> nat \<Rightarrow> json option) \<Rightarrow> (string \<Rightarrow> json option) \<Rightarrow> string \<Rightarrow> (string \<times> json) list option" where
  "parsed_json decode loads raw =
    (let first = length (takeWhile (\<lambda>c. c \<noteq> CHR ''{'') raw) in
     case find_object decode raw first [0..<length raw] of Some obj \<Rightarrow> Some obj | None \<Rightarrow>
     case (if first < length raw then case try_complete_truncated_json (drop first raw) of None \<Rightarrow> None
             | Some c \<Rightarrow> loads_object loads c else None) of Some obj \<Rightarrow> Some obj | None \<Rightarrow>
     try_extract_complete_items loads raw)"

end
