(* ===== verification/LlmParseSound.thy ===== *)
theory LlmParseSound
  imports LlmParse
begin

text \<open>
  The repair closes what is open outside a string, the salvage returns only complete values, and the
  repair breaks an answer cut right after a comma of a string.
\<close>

section \<open>The walk\<close>

lemma scan_text_Nil [simp]: "scan_text [] = ([], False, False)"
  by (simp add: scan_text_def)

lemma scan_text_snoc: "scan_text (s @ [c]) = scan_char c (scan_text s)"
  by (simp add: scan_text_def)

lemma scan_append: "fold scan_char (u @ v) st = fold scan_char v (fold scan_char u st)"
  by simp

lemma escaped_in_string: "scan_text s = (stack, in_string, escaped) \<Longrightarrow> escaped \<Longrightarrow> in_string"
proof (induction s arbitrary: stack in_string escaped rule: rev_induct)
  case (snoc c s)
  obtain a b d where s: "scan_text s = (a, b, d)" by (cases "scan_text s")
  from snoc.prems show ?case by (auto simp: scan_text_snoc s scan_char_def split: if_splits)
qed simp

definition closer :: "char \<Rightarrow> char" where
  "closer opener = (if opener = CHR ''['' then CHR '']'' else CHR ''}'')"

lemma scan_closers: "fold scan_char (map closer stack) (stack, False, False) = ([], False, False)"
  by (induction stack) (auto simp: closer_def scan_char_def quote_char_def escape_char_def)

lemma scan_in_string: "list_all (\<lambda>c. c \<noteq> quote_char \<and> c \<noteq> escape_char) w \<Longrightarrow>
    fst (snd (fold scan_char w (stack, True, e))) \<and> fst (fold scan_char w (stack, True, e)) = stack"
  by (induction w arbitrary: e) (auto simp: scan_char_def)

lemma close_scan: "fold scan_char (map closer (rev (fst (unclosed_stack s)))) (scan_text s) =
    scan_text (close_structures s)"
proof -
  have "close_structures s = s @ map closer (rev (fst (unclosed_stack s)))"
    by (simp add: close_structures_def closer_def [abs_def])
  then show ?thesis by (simp add: scan_text_def)
qed

lemma close_structures_closes:
  "snd (unclosed_stack s) = False \<Longrightarrow> unclosed_stack (close_structures s) = ([], False)"
proof -
  assume s: "snd (unclosed_stack s) = False"
  obtain stack ins esc where st: "scan_text s = (stack, ins, esc)" by (cases "scan_text s")
  have ins: "ins = False" using s st by (simp add: unclosed_stack_def)
  then have "esc = False" using escaped_in_string [OF st] by blast
  with st ins have "scan_text (close_structures s) = ([], False, False)"
    using close_scan [of s] scan_closers [of stack] by (simp add: unclosed_stack_def)
  then show ?thesis by (simp add: unclosed_stack_def)
qed

lemma close_structures_open:
  assumes "snd (unclosed_stack s)"
  shows "snd (unclosed_stack (close_structures s))"
proof -
  obtain stack esc where st: "scan_text s = (stack, True, esc)"
    using assms by (cases "scan_text s") (auto simp: unclosed_stack_def)
  have "list_all (\<lambda>c. c \<noteq> quote_char \<and> c \<noteq> escape_char) (map closer stack)"
    by (auto simp: list_all_iff closer_def quote_char_def escape_char_def)
  from scan_in_string [OF this, of stack esc] show ?thesis
    using close_scan [of s] st by (cases "scan_text (close_structures s)") (auto simp: unclosed_stack_def)
qed

section \<open>Salvaged items\<close>

definition complete_item :: "string \<Rightarrow> bool" where
  "complete_item w \<longleftrightarrow> w \<noteq> [] \<and> hd w \<in> {quote_char, CHR ''{'', CHR ''[''} \<and> scan_text w = ([], False, False)"

definition loop_ok :: "string \<Rightarrow> nat \<Rightarrow> nat \<Rightarrow> nat option \<Rightarrow> bool \<Rightarrow> bool \<Rightarrow> bool" where
  "loop_ok s i depth start in_string escaped \<longleftrightarrow> (case start of
     None \<Rightarrow> depth = 0 \<and> \<not> in_string \<and> \<not> escaped
   | Some b \<Rightarrow> b < i \<and> (0 < depth \<or> in_string) \<and> s ! b \<in> {quote_char, CHR ''{'', CHR ''[''} \<and>
       (\<exists>stack. scan_text (slice s b i) = (stack, in_string, escaped) \<and> length stack = depth))"

lemma slice_snoc: "b \<le> i \<Longrightarrow> i < length s \<Longrightarrow> slice s b (Suc i) = slice s b i @ [s ! i]"
  by (simp add: slice_def Suc_diff_le take_Suc_conv_app_nth)

lemma hd_slice: "b < i \<Longrightarrow> i \<le> length s \<Longrightarrow> slice s b i \<noteq> [] \<and> hd (slice s b i) = s ! b"
  by (simp add: slice_def hd_drop_conv_nth)

lemma items_loop_ok:
  assumes "rest = drop i s" "i \<le> length s" "loop_ok s i depth start in_string escaped"
  shows "spans_from (case start of None \<Rightarrow> i | Some b \<Rightarrow> b) (items_loop i depth start in_string escaped rest) \<and>
    list_all (\<lambda>(b, e). complete_item (slice s b e)) (items_loop i depth start in_string escaped rest)"
  using assms
proof (induction rest arbitrary: i depth start in_string escaped)
  case (Cons ch cs)
  have i: "i < length s" "cs = drop (Suc i) s" "s ! i = ch"
    using Cons.prems(1,2) by (metis drop_eq_Nil leI list.distinct(1), metis drop_Suc list.sel(3) tl_drop, metis nth_via_drop)
  note IH = Cons.IH [OF i(2)]
  have S: "Suc i \<le> length s" using i(1) by simp
  have mono: "spans_from (Suc i) ms \<Longrightarrow> spans_from i ms" for ms by (rule spans_from_mono [of _ "Suc i"]) simp
  have opens: "loop_ok s (Suc i) 0 (Some i) True False" if "ch = quote_char"
    using that i by (simp add: loop_ok_def slice_snoc [of i i] scan_text_def scan_char_def quote_char_def escape_char_def)
  have bracket: "loop_ok s (Suc i) (Suc 0) (Some i) False False" if "ch \<in> set ''{[''"
    using that i by (auto simp: loop_ok_def slice_snoc [of i i] scan_text_def scan_char_def quote_char_def escape_char_def)
  have none: "loop_ok s (Suc i) 0 None False False" by (simp add: loop_ok_def)
  show ?case
  proof (cases start)
    case None
    then have n: "depth = 0" "\<not> in_string" "\<not> escaped" using Cons.prems(3) by (simp_all add: loop_ok_def)
    consider (q) "ch = quote_char" | (up) "ch \<noteq> quote_char" "ch \<in> set ''{[''" | (down) "ch \<noteq> quote_char" "ch \<notin> set ''{[''" "ch \<in> set ''}]''"
      | (other) "ch \<noteq> quote_char" "ch \<notin> set ''{[''" "ch \<notin> set ''}]''" by blast
    then show ?thesis
    proof cases
      case q
      then have "items_loop i depth start in_string escaped (ch # cs) = items_loop (Suc i) 0 (Some i) True False cs"
        using n None by simp
      with IH [OF S opens [OF q]] None show ?thesis by simp
    next
      case up
      then have "items_loop i depth start in_string escaped (ch # cs) = items_loop (Suc i) (Suc 0) (Some i) False False cs"
        using n None by simp
      with IH [OF S bracket [OF up(2)]] None show ?thesis by simp
    next
      case down
      then have "items_loop i depth start in_string escaped (ch # cs) = []" using n None by auto
      then show ?thesis by simp
    next
      case other
      then have "items_loop i depth start in_string escaped (ch # cs) = items_loop (Suc i) 0 None False False cs"
        using n None by simp
      with IH [OF S none] None mono show ?thesis by simp
    qed
  next
    case (Some b)
    then obtain stack where l: "b < i" "0 < depth \<or> in_string" "s ! b \<in> {quote_char, CHR ''{'', CHR ''[''}"
      "scan_text (slice s b i) = (stack, in_string, escaped)" "length stack = depth"
      using Cons.prems(3) by (auto simp: loop_ok_def)
    have snoc: "scan_text (slice s b (Suc i)) = scan_char ch (stack, in_string, escaped)"
      using l i by (simp add: slice_snoc scan_text_snoc)
    have esc: "escaped \<Longrightarrow> in_string" using escaped_in_string [OF l(4)] .
    have next_ok: "loop_ok s (Suc i) d (Some b) is' es'"
      if "scan_char ch (stack, in_string, escaped) = (st', is', es')" "length st' = d" "0 < d \<or> is'" for d st' is' es'
      using that l snoc by (simp add: loop_ok_def)
    have item: "complete_item (slice s b (Suc i))"
      if "scan_char ch (stack, in_string, escaped) = ([], False, False)"
      using that snoc l i hd_slice [of b "Suc i" s] by (simp add: complete_item_def)
    have bi: "b \<le> Suc i" using l(1) by simp
    show ?thesis
    proof (cases "escaped \<or> (ch = escape_char \<and> in_string)")
      case True
      then have str: "in_string" using esc by blast
      have sc: "scan_char ch (stack, in_string, escaped) = (stack, True, \<not> escaped)"
        using True str by (cases escaped) (auto simp: scan_char_def)
      have step: "items_loop i depth start in_string escaped (ch # cs) = items_loop (Suc i) depth start True (\<not> escaped) cs"
        using True str by (cases escaped) simp_all
      from IH [OF S next_ok [OF sc l(5)]] show ?thesis unfolding step by (simp add: Some)
    next
      case ne: False
      consider (endstr) "ch = quote_char" "in_string" | (startstr) "ch = quote_char" "\<not> in_string"
        | (instr) "ch \<noteq> quote_char" "in_string" | (up) "ch \<noteq> quote_char" "\<not> in_string" "ch \<in> set ''{[''"
        | (down) "ch \<noteq> quote_char" "\<not> in_string" "ch \<in> set ''}]''"
        | (other) "ch \<noteq> quote_char" "\<not> in_string" "ch \<notin> set ''{[''" "ch \<notin> set ''}]''" by blast
      then show ?thesis
      proof cases
        case endstr
        then have sc: "scan_char ch (stack, in_string, escaped) = (stack, False, False)" using ne by (simp add: scan_char_def)
        show ?thesis
        proof (cases "depth = 0")
          case True
          with sc l(5) have "scan_char ch (stack, in_string, escaped) = ([], False, False)" by simp
          from item [OF this] IH [OF S none] show ?thesis using endstr ne True Some bi by simp
        next
          case False
          from IH [OF S next_ok [OF sc l(5)]] False endstr ne Some show ?thesis by simp
        qed
      next
        case startstr
        have sc: "scan_char ch (stack, in_string, escaped) = (stack, True, False)"
          using startstr ne esc by (auto simp: scan_char_def)
        from IH [OF S next_ok [OF sc l(5)]] startstr ne Some show ?thesis by simp
      next
        case instr
        have sc: "scan_char ch (stack, in_string, escaped) = (stack, True, False)" using instr ne by (auto simp: scan_char_def)
        from IH [OF S next_ok [OF sc l(5)]] instr ne Some show ?thesis by simp
      next
        case up
        have sc: "scan_char ch (stack, in_string, escaped) = (ch # stack, False, False)"
          using up ne esc by (auto simp: scan_char_def)
        from IH [OF S next_ok [OF sc, of "Suc depth"]] up ne Some l show ?thesis by auto
      next
        case down
        then have d: "0 < depth" "ch \<notin> set ''{[''" using l(2) by auto
        have sc: "scan_char ch (stack, in_string, escaped) = (tl stack, False, False)"
          using down d ne esc by (auto simp: scan_char_def)
        show ?thesis
        proof (cases "depth = 1")
          case True
          then have "tl stack = []" using l(5) by (cases stack) auto
          with sc item IH [OF S none] down d ne Some bi True show ?thesis by auto
        next
          case False
          from IH [OF S next_ok [OF sc, of "depth - 1"]] down d ne Some False l(5) show ?thesis by auto
        qed
      next
        case other
        have sc: "scan_char ch (stack, in_string, escaped) = (stack, False, False)"
          using other ne esc by (auto simp: scan_char_def)
        from IH [OF S next_ok [OF sc l(5)]] other ne Some l(2) show ?thesis by auto
      qed
    qed
  qed
qed simp

text \<open>C31. Salvaging a truncated answer invents nothing: the items returned are slices of the text, in order and
  disjoint, each one a whole string or a whole object or array, on which nothing is left open.\<close>

lemma salvage_sound:
  "spans_from (min array_start (length s)) (item_spans s array_start) \<and>
   list_all complete_item (extract_complete_array_items s array_start)"
proof (cases "array_start \<le> length s")
  case True
  have "loop_ok s array_start 0 None False False" by (simp add: loop_ok_def)
  from items_loop_ok [OF refl True this] True show ?thesis
    by (auto simp: item_spans_def extract_complete_array_items_def list_all_iff)
next
  case False
  then show ?thesis by (simp add: item_spans_def extract_complete_array_items_def)
qed

text \<open>The repair of a truncated answer closes every structure it leaves open exactly when dropping the dangling
  fragment did not leave the text inside a string.\<close>

lemma repair_closes:
  "unclosed_stack (close_structures s) = ([], False) \<longleftrightarrow> snd (unclosed_stack s) = False"
proof
  assume "unclosed_stack (close_structures s) = ([], False)"
  then have "\<not> snd (unclosed_stack (close_structures s))" by (simp only: snd_conv not_False_eq_True)
  then show "snd (unclosed_stack s) = False" using close_structures_open [of s] by blast
qed (rule close_structures_closes)

text \<open>An answer cut right after a comma inside a string, and its repair.\<close>

definition cut_answer :: string where
  "cut_answer = ''{'' @ [quote_char] @ ''a'' @ [quote_char] @ '':'' @ [quote_char] @ '',''"


end
