(* ===== verification/LlmNormal.thy ===== *)
theory LlmNormal
  imports LlmParse
begin

text \<open>
  \<open>_normalize_llm_json\<close> of pipeline/stage3_llm.py: the keys and shapes models write, coerced to the
  schema's, with the dates of a relationship (\<open>_normalize_times\<close>) and its verb (\<open>_normalize_verb\<close>).
  An object is its list of members, keys distinct.
\<close>

type_synonym obj = "(string \<times> json) list"

text \<open>\<open>isinstance(o.get(k), str)\<close> and the value; the same with \<open>.strip()\<close> true.\<close>

definition str_at :: "obj \<Rightarrow> string \<Rightarrow> string option" where
  "str_at ob k = (case map_of ob k of Some (JStr s) \<Rightarrow> Some s | _ \<Rightarrow> None)"

definition text_at :: "obj \<Rightarrow> string \<Rightarrow> string option" where
  "text_at ob k = (case str_at ob k of Some s \<Rightarrow> if strip s = [] then None else Some s | None \<Rightarrow> None)"

fun json_true :: "json \<Rightarrow> bool" where
  "json_true JNull = False" | "json_true (JBool b) = b" | "json_true (JNum n) = (n \<noteq> 0)"
| "json_true (JStr s) = (s \<noteq> [])" | "json_true (JArr xs) = (xs \<noteq> [])" | "json_true (JObj ob) = (ob \<noteq> [])"

definition has_key :: "obj \<Rightarrow> string \<Rightarrow> bool" where
  "has_key ob k \<longleftrightarrow> map_of ob k \<noteq> None"

text \<open>\<open>if key not in t: for k in keys: if ...: t[key] = t.pop(k); break\<close>.\<close>

definition rename_key :: "(obj \<Rightarrow> string \<Rightarrow> string option) \<Rightarrow> string \<Rightarrow> string list \<Rightarrow> obj \<Rightarrow> obj" where
  "rename_key found key keys t =
    (if has_key t key then t
     else case List.find (\<lambda>k. found t k \<noteq> None) keys of None \<Rightarrow> t
       | Some k \<Rightarrow> dset key (the (map_of t k)) (dpop k t))"

section \<open>Names\<close>

definition NAME_FIELDS :: "string list" where
  "NAME_FIELDS = [''threat_actors'', ''malware_families'', ''tools'', ''targeted_sectors'', ''targeted_countries'', ''course_of_action'']"

definition NAME_KEYS :: "string list" where
  "NAME_KEYS = [''name'', ''value'', ''label'', ''actor'', ''family'', ''title'']"

definition item_name :: "json \<Rightarrow> string option" where
  "item_name item = (case item of
     JStr s \<Rightarrow> if strip s = [] then None else Some (strip s)
   | JObj ob \<Rightarrow> (case List.find (\<lambda>k. text_at ob k \<noteq> None) NAME_KEYS of None \<Rightarrow> None
       | Some k \<Rightarrow> map_option strip (text_at ob k))
   | _ \<Rightarrow> None)"

definition fix_names :: "string \<Rightarrow> obj \<Rightarrow> obj" where
  "fix_names field out = (case map_of out field of
     Some (JArr raw) \<Rightarrow> dset field (JArr (map JStr (List.map_filter item_name raw))) out | _ \<Rightarrow> out)"

section \<open>Techniques\<close>

definition LABELS :: "string list" where
  "LABELS = [''observed'', ''reported'', ''assessed'', ''inferred'', ''gap'']"

text \<open>\<open>str(x).lower().strip()\<close> is a label only when \<open>x\<close> is a string.\<close>

definition label_of :: "json option \<Rightarrow> string" where
  "label_of j = (case j of Some (JStr s) \<Rightarrow>
     (if strip (lower s) \<in> set LABELS then strip (lower s) else ''reported'') | _ \<Rightarrow> ''reported'')"

definition renamed_ttp :: "obj \<Rightarrow> obj" where
  "renamed_ttp t =
    (let t = rename_key text_at ''technique_name'' [''name'', ''technique'', ''label'', ''title''] t;
         t = rename_key text_at ''mitre_id'' [''id'', ''mitre'', ''attack_id'', ''technique_id'', ''mitre_technique_id''] t;
         t = rename_key str_at ''evidence_text'' [''evidence'', ''quote'', ''evidence_quote'', ''supporting_text'',
               ''source_text'', ''excerpt''] t in
     rename_key text_at ''evidence_label'' [''label'', ''evidence_grade'', ''support'', ''confidence_label''] t)"

definition norm_ttp :: "json \<Rightarrow> obj option" where
  "norm_ttp item = (case item of JObj t0 \<Rightarrow>
     (let t = renamed_ttp t0;
          t = (if has_key t ''evidence_label'' then dset ''evidence_label'' (JStr (label_of (map_of t ''evidence_label''))) t else t) in
      if has_key t ''technique_name'' then Some t else None)
   | _ \<Rightarrow> None)"

section \<open>Dates\<close>

definition TIME_LIST_KEYS :: "string list" where
  "TIME_LIST_KEYS = [''times'', ''dates'', ''temporal'', ''time'', ''time_assertions'', ''temporal_assertions'']"

definition TIME_TEXT_KEYS :: "string list" where
  "TIME_TEXT_KEYS = [''time_text'', ''text'', ''quote'', ''expression'', ''time_expression'', ''date_text'', ''evidence'']"

definition TIME_VALUE_KEYS :: "string list" where
  "TIME_VALUE_KEYS = [''value'', ''iso'', ''normalized'', ''normalised'', ''date'', ''iso_date'']"

definition TIME_ROLE_ALIASES :: "(string \<times> string) list" where
  "TIME_ROLE_ALIASES =
    [(''begin'', ''start''), (''began'', ''start''), (''since'', ''start''), (''first_activity'', ''start''),
     (''stop'', ''end''), (''ended'', ''end''), (''until'', ''end''), (''last_activity'', ''end''),
     (''during'', ''within''), (''in'', ''within''), (''active'', ''within''), (''date'', ''within''),
     (''over'', ''throughout''), (''covering'', ''throughout''),
     (''seen'', ''observed''), (''observation'', ''observed''), (''detected'', ''observed''),
     (''first_seen'', ''observed''), (''last_seen'', ''observed'')]"

definition TIME_ROLES :: "string list" where
  "TIME_ROLES = [''start'', ''end'', ''within'', ''throughout'', ''observed'']"

definition LEGACY_TIME_KEYS :: "(string \<times> string list) list" where
  "LEGACY_TIME_KEYS =
    [(''start'', [''start_time'', ''start_date'', ''begin_time'', ''begin_date'', ''date_start'', ''from_date'']),
     (''end'', [''stop_time'', ''end_time'', ''end_date'', ''stop_date'', ''date_end'', ''to_date'', ''until''])]"

record time_item =
  ti_role :: string
  ti_text :: string
  ti_value :: "string option"
  ti_first_last :: "string option"

text \<open>\<open>str(a or b or c or "").lower().strip()\<close>: of the values that are not strings none spells a role.\<close>

definition time_role :: "obj \<Rightarrow> string option" where
  "time_role item =
    (let raw = (case List.find json_true (List.map_filter (map_of item) [''role'', ''type'', ''kind'']) of
                  Some (JStr s) \<Rightarrow> strip (lower s) | _ \<Rightarrow> []);
         r = dget TIME_ROLE_ALIASES raw raw in
     if r \<in> set TIME_ROLES then Some r else None)"

definition first_str :: "obj \<Rightarrow> string list \<Rightarrow> string option" where
  "first_str ob keys = (case List.map_filter (str_at ob) keys of [] \<Rightarrow> None | s # _ \<Rightarrow> Some s)"

definition is_mark :: "obj \<Rightarrow> string \<Rightarrow> bool" where
  "is_mark item m \<longleftrightarrow> map_of item m = Some (JBool True) \<or> map_option lower (str_at item ''first_last'') = Some m"

definition time_item_of :: "json \<Rightarrow> time_item option" where
  "time_item_of raw =
    (let item = (case raw of
         JStr s \<Rightarrow> if strip s = [] then None else Some [(''role'', JStr ''within''), (''time_text'', JStr s)]
       | JObj ob \<Rightarrow> Some ob | _ \<Rightarrow> None) in
     case item of None \<Rightarrow> None | Some ob \<Rightarrow>
     (case time_role ob of None \<Rightarrow> None | Some r \<Rightarrow>
       let txt = strip (case first_str ob TIME_TEXT_KEYS of None \<Rightarrow> [] | Some s \<Rightarrow> s);
           val = (case first_str ob TIME_VALUE_KEYS of None \<Rightarrow> None | Some s \<Rightarrow> if strip s = [] then None else Some (strip s)) in
       if txt = [] \<and> val = None then None
       else Some \<lparr>ti_role = r, ti_text = txt, ti_value = val,
         ti_first_last = (if is_mark ob ''first'' then Some ''first'' else if is_mark ob ''last'' then Some ''last'' else None)\<rparr>))"

definition legacy_time :: "string \<Rightarrow> string \<Rightarrow> obj \<times> time_item list \<Rightarrow> obj \<times> time_item list" where
  "legacy_time role k st = (case st of (r, items) \<Rightarrow>
    (dpop k r, case text_at r k of None \<Rightarrow> items | Some v \<Rightarrow>
       if list_ex (\<lambda>i. ti_role i = role \<and> ti_value i = Some (strip v)) items then items
       else items @ [\<lparr>ti_role = role, ti_text = [], ti_value = Some (strip v), ti_first_last = None\<rparr>]))"

definition normalize_times :: "obj \<Rightarrow> obj \<times> time_item list" where
  "normalize_times r =
    (let k = List.find (\<lambda>k. case map_of r k of Some (JArr _) \<Rightarrow> True | _ \<Rightarrow> False) TIME_LIST_KEYS;
         raw = (case k of None \<Rightarrow> [] | Some k \<Rightarrow> (case map_of r k of Some (JArr xs) \<Rightarrow> xs | _ \<Rightarrow> []));
         r' = (case k of None \<Rightarrow> r | Some k \<Rightarrow> dpop k r) in
     fold (\<lambda>(role, ks). fold (legacy_time role) ks) LEGACY_TIME_KEYS (r', List.map_filter time_item_of raw))"

definition time_json :: "time_item \<Rightarrow> json" where
  "time_json i = JObj [(''role'', JStr (ti_role i)), (''time_text'', JStr (ti_text i)),
     (''model_value'', case ti_value i of None \<Rightarrow> JNull | Some v \<Rightarrow> JStr v),
     (''first_last'', case ti_first_last i of None \<Rightarrow> JNull | Some v \<Rightarrow> JStr v)]"

section \<open>Relationships\<close>

definition VERB_SPELLINGS :: "(string \<times> string) list" where
  "VERB_SPELLINGS = [(''originated-from'', ''originates-from'')]"

text \<open>\<open>re.sub(r"[\s_]+", "-", verb.strip().lower())\<close> and the spelling.\<close>

definition normalize_verb :: "string \<Rightarrow> string" where
  "normalize_verb verb =
    (let v = rx_sub (plus1 (Cls (\<lambda>c. is_space c \<or> c = CHR ''_''))) (\<lambda>_ _ _. ''-'') (lower (strip verb)) in
     dget VERB_SPELLINGS v v)"

definition REL_FIELDS :: "string list" where
  "REL_FIELDS = [''source_value'', ''relationship_type'', ''target_value'']"

definition renamed_rel :: "obj \<Rightarrow> obj" where
  "renamed_rel r =
    (let r = rename_key text_at ''source_value'' [''source'', ''from'', ''subject'', ''source_entity'', ''actor''] r;
         r = rename_key text_at ''target_value'' [''target'', ''to'', ''object'', ''target_entity'', ''victim''] r;
         r = rename_key text_at ''relationship_type'' [''relationship'', ''type'', ''rel_type'', ''relation'', ''rel''] r in
     case str_at r ''relationship_type'' of None \<Rightarrow> r
     | Some v \<Rightarrow> dset ''relationship_type'' (JStr (normalize_verb v)) r)"

definition norm_rel :: "json \<Rightarrow> obj option" where
  "norm_rel item = (case item of JObj r0 \<Rightarrow>
     (let r = renamed_rel r0;
          r = dset ''evidence_label'' (JStr (label_of (map_of r ''evidence_label''))) r;
          (r, items) = normalize_times r;
          r = dset ''times'' (JArr (map time_json items)) r in
      if list_all (\<lambda>f. case map_of r f of None \<Rightarrow> False | Some j \<Rightarrow> json_true j) REL_FIELDS then Some r else None)
   | _ \<Rightarrow> None)"

section \<open>The answer\<close>

definition fix_list :: "string \<Rightarrow> (json \<Rightarrow> obj option) \<Rightarrow> obj \<Rightarrow> obj" where
  "fix_list field f out = (case map_of out field of
     Some (JArr raw) \<Rightarrow> dset field (JArr (map JObj (List.map_filter f raw))) out | _ \<Rightarrow> out)"

definition normalize_llm_json :: "obj \<Rightarrow> obj" where
  "normalize_llm_json data =
    fix_list ''relationships'' norm_rel (fix_list ''ttps'' norm_ttp (fold fix_names NAME_FIELDS data))"

section \<open>Validation\<close>

text \<open>
  What a validation error points at: an item of a list field, a field, or something deeper that
  neither names. The schema check is an argument: the errors, or the result.
\<close>

datatype location = ItemLoc string nat | FieldLoc string | OtherLoc

definition bad_items :: "obj \<Rightarrow> location list \<Rightarrow> (string \<times> nat) list" where
  "bad_items data errors = remdups (List.map_filter (\<lambda>l. case l of
     ItemLoc f i \<Rightarrow> (case map_of data f of Some (JArr _) \<Rightarrow> Some (f, i) | _ \<Rightarrow> None) | _ \<Rightarrow> None) errors)"

definition bad_fields :: "location list \<Rightarrow> string list" where
  "bad_fields errors = remdups (List.map_filter (\<lambda>l. case l of FieldLoc f \<Rightarrow> Some f | _ \<Rightarrow> None) errors)"

text \<open>The items go highest index first, so what stays keeps its place.\<close>

definition drop_items :: "(string \<times> nat) list \<Rightarrow> obj \<Rightarrow> obj" where
  "drop_items bad data = map (\<lambda>(f, j). (f, case j of
     JArr xs \<Rightarrow> JArr (map snd (filter (\<lambda>p. (f, fst p) \<notin> set bad) (zip [0..<length xs] xs))) | _ \<Rightarrow> j)) data"

definition drop_invalid_entries :: "obj \<Rightarrow> location list \<Rightarrow> obj \<times> nat" where
  "drop_invalid_entries data errors =
    (let bad = bad_items data errors;
         gone = filter (\<lambda>f. has_key data f) (bad_fields errors) in
     (fold dpop gone (drop_items bad data), length bad + length gone))"

fun validate_loop :: "(obj \<Rightarrow> location list + 'r) \<Rightarrow> nat \<Rightarrow> obj \<Rightarrow> 'r option" where
  "validate_loop check 0 data = None"
| "validate_loop check (Suc n) data = (case check data of
     Inr result \<Rightarrow> Some result
   | Inl errors \<Rightarrow> (case drop_invalid_entries data errors of (data', removed) \<Rightarrow>
       if removed = 0 then None else validate_loop check n data'))"

definition parse_llm_response :: "(string \<Rightarrow> nat \<Rightarrow> json option) \<Rightarrow> (string \<Rightarrow> json option) \<Rightarrow>
    (obj \<Rightarrow> location list + 'r) \<Rightarrow> string \<Rightarrow> 'r option" where
  "parse_llm_response decode loads check raw = (case parsed_json decode loads raw of None \<Rightarrow> None
     | Some ob \<Rightarrow> validate_loop check 5 (normalize_llm_json ob))"

end
