(* ===== verification/LlmNormalSound.thy ===== *)
theory LlmNormalSound
  imports LlmNormal MitreSound NamedSound
begin

text \<open>What \<open>_normalize_llm_json\<close> guarantees to the schema check, whatever the model wrote.\<close>

definition name_item_ok :: "json \<Rightarrow> bool" where
  "name_item_ok j \<longleftrightarrow> (case j of JStr s \<Rightarrow> s \<noteq> [] \<and> strip s = s | _ \<Rightarrow> False)"

definition label_json_ok :: "json \<Rightarrow> bool" where
  "label_json_ok j \<longleftrightarrow> (case j of JStr l \<Rightarrow> l \<in> set LABELS | _ \<Rightarrow> False)"

definition ttp_item_ok :: "json \<Rightarrow> bool" where
  "ttp_item_ok j \<longleftrightarrow> (case j of JObj t \<Rightarrow> has_key t ''technique_name'' \<and>
     (case map_of t ''evidence_label'' of None \<Rightarrow> True | Some l \<Rightarrow> label_json_ok l) | _ \<Rightarrow> False)"

definition time_json_ok :: "json \<Rightarrow> bool" where
  "time_json_ok j \<longleftrightarrow> (case j of JObj t \<Rightarrow> (case str_at t ''role'' of Some r \<Rightarrow> r \<in> set TIME_ROLES | None \<Rightarrow> False) | _ \<Rightarrow> False)"

definition rel_item_ok :: "json \<Rightarrow> bool" where
  "rel_item_ok j \<longleftrightarrow> (case j of JObj r \<Rightarrow>
     list_all (\<lambda>f. case map_of r f of None \<Rightarrow> False | Some v \<Rightarrow> json_true v) REL_FIELDS \<and>
     (case map_of r ''evidence_label'' of None \<Rightarrow> False | Some l \<Rightarrow> label_json_ok l) \<and>
     (case map_of r ''times'' of Some (JArr ts) \<Rightarrow> list_all time_json_ok ts | _ \<Rightarrow> False) | _ \<Rightarrow> False)"

text \<open>Every item of a list field is well formed; a field that is no list is left to the schema check.\<close>

definition field_ok :: "(json \<Rightarrow> bool) \<Rightarrow> obj \<Rightarrow> string \<Rightarrow> bool" where
  "field_ok P out f \<longleftrightarrow> (case map_of out f of Some (JArr xs) \<Rightarrow> list_all P xs | _ \<Rightarrow> True)"

lemma label_of_ok: "label_json_ok (JStr (label_of j))"
  by (auto simp: label_json_ok_def label_of_def LABELS_def split: option.split json.split)

lemma text_at_nonblank: "text_at ob k = Some s \<Longrightarrow> strip s \<noteq> []"
  by (auto simp: text_at_def split: option.splits if_splits)

lemma item_name_ok: "item_name j = Some n \<Longrightarrow> n \<noteq> [] \<and> strip n = n"
  by (cases j) (auto simp: item_name_def strip_strip text_at_nonblank split: if_splits option.splits)

lemma norm_ttp_ok: "norm_ttp j = Some t \<Longrightarrow> ttp_item_ok (JObj t)"
proof (cases j)
  case (JObj t0)
  assume t: "norm_ttp j = Some t"
  let ?u = "renamed_ttp t0"
  define w where "w = (if has_key ?u ''evidence_label'' then dset ''evidence_label'' (JStr (label_of (map_of ?u ''evidence_label''))) ?u else ?u)"
  have "norm_ttp j = (if has_key w ''technique_name'' then Some w else None)"
    by (simp only: JObj norm_ttp_def Let_def json.case w_def)
  with t have "has_key w ''technique_name''" "t = w" by (simp_all split: if_splits)
  then have u: "t = (if has_key ?u ''evidence_label'' then dset ''evidence_label'' (JStr (label_of (map_of ?u ''evidence_label''))) ?u else ?u)"
    "has_key t ''technique_name''" using w_def by simp_all
  show ?thesis
  proof (cases "has_key ?u ''evidence_label''")
    case True
    then show ?thesis using u label_of_ok by (simp add: ttp_item_ok_def map_of_dset)
  next
    case False
    then show ?thesis using u by (simp add: ttp_item_ok_def has_key_def)
  qed
qed (simp_all add: norm_ttp_def)

definition items_ok :: "time_item list \<Rightarrow> bool" where
  "items_ok items \<longleftrightarrow> list_all (\<lambda>i. ti_role i \<in> set TIME_ROLES) items"

lemma time_item_role: "time_item_of j = Some i \<Longrightarrow> ti_role i \<in> set TIME_ROLES"
  by (auto simp: time_item_of_def time_role_def Let_def split: option.splits if_splits)

lemma legacy_times:
  "fst (fold (legacy_time role) ks st) = fold dpop ks (fst st)"
  "role \<in> set TIME_ROLES \<Longrightarrow> items_ok (snd st) \<Longrightarrow> items_ok (snd (fold (legacy_time role) ks st))"
proof -
  show "fst (fold (legacy_time role) ks st) = fold dpop ks (fst st)"
    by (induction ks arbitrary: st) (auto simp: legacy_time_def split: prod.split)
  show "role \<in> set TIME_ROLES \<Longrightarrow> items_ok (snd st) \<Longrightarrow> items_ok (snd (fold (legacy_time role) ks st))"
  proof (induction ks arbitrary: st)
    case (Cons k ks)
    have "items_ok (snd (legacy_time role k st))"
      using Cons.prems by (auto simp: legacy_time_def items_ok_def split: prod.split option.split)
    with Cons show ?case by simp
  qed simp
qed

lemma map_of_dpops: "k \<notin> set ks \<Longrightarrow> map_of (fold dpop ks d) k = map_of d k"
  by (induction ks arbitrary: d) (auto simp: map_of_dpop)

lemma legacy_lists:
  "list_all (\<lambda>p. fst p \<in> set TIME_ROLES) ps \<Longrightarrow> items_ok (snd st) \<Longrightarrow>
    items_ok (snd (fold (\<lambda>(role, ks). fold (legacy_time role) ks) ps st))"
proof (induction ps arbitrary: st)
  case (Cons p ps)
  obtain role ks where p: "p = (role, ks)" by (cases p)
  have "items_ok (snd (fold (legacy_time role) ks st))" using Cons.prems by (intro legacy_times(2)) (simp_all add: p)
  with Cons show ?case by (simp add: p)
qed simp

lemma legacy_label:
  "list_all (\<lambda>p. k \<notin> set (snd p)) ps \<Longrightarrow>
    map_of (fst (fold (\<lambda>(role, ks). fold (legacy_time role) ks) ps st)) k = map_of (fst st) k"
proof (induction ps arbitrary: st)
  case (Cons p ps)
  obtain role ks where p: "p = (role, ks)" by (cases p)
  show ?case using Cons by (simp add: p legacy_times(1) map_of_dpops)
qed simp

lemma legacy_no_label: "list_all (\<lambda>p. ''evidence_label'' \<notin> set (snd p)) LEGACY_TIME_KEYS"
  by (simp add: LEGACY_TIME_KEYS_def)

lemma legacy_roles: "list_all (\<lambda>p. fst p \<in> set TIME_ROLES) LEGACY_TIME_KEYS"
  by (simp add: LEGACY_TIME_KEYS_def TIME_ROLES_def)

lemma normalize_times_ok:
  "items_ok (snd (normalize_times r))" "map_of (fst (normalize_times r)) ''evidence_label'' = map_of r ''evidence_label''"
proof -
  let ?k = "List.find (\<lambda>k. case map_of r k of Some (JArr _) \<Rightarrow> True | _ \<Rightarrow> False) TIME_LIST_KEYS"
  let ?raw = "case ?k of None \<Rightarrow> [] | Some k \<Rightarrow> (case map_of r k of Some (JArr xs) \<Rightarrow> xs | _ \<Rightarrow> [])"
  let ?r = "case ?k of None \<Rightarrow> r | Some k \<Rightarrow> dpop k r"
  have n: "normalize_times r = fold (\<lambda>(role, ks). fold (legacy_time role) ks) LEGACY_TIME_KEYS (?r, List.map_filter time_item_of ?raw)"
    by (simp only: normalize_times_def Let_def)
  have i: "items_ok (List.map_filter time_item_of ?raw)"
    by (auto simp: items_ok_def list_all_iff set_map_filter time_item_role)

  show "items_ok (snd (normalize_times r))"
    unfolding n by (rule legacy_lists [OF legacy_roles]) (simp add: i)
  have "?k \<noteq> Some ''evidence_label''" by (auto simp: TIME_LIST_KEYS_def find_Some_iff)
  then have "map_of ?r ''evidence_label'' = map_of r ''evidence_label''" by (auto simp: map_of_dpop split: option.split)
  then show "map_of (fst (normalize_times r)) ''evidence_label'' = map_of r ''evidence_label''"
    unfolding n by (simp only: legacy_label [OF legacy_no_label] fst_conv)
qed

lemma time_json_of: "ti_role i \<in> set TIME_ROLES \<Longrightarrow> time_json_ok (time_json i)"
  by (simp add: time_json_ok_def time_json_def str_at_def)

lemma norm_rel_ok: "norm_rel j = Some t \<Longrightarrow> rel_item_ok (JObj t)"
proof (cases j)
  case (JObj r0)
  assume t: "norm_rel j = Some t"
  define u where "u = dset ''evidence_label'' (JStr (label_of (map_of (renamed_rel r0) ''evidence_label''))) (renamed_rel r0)"
  define w where "w = dset ''times'' (JArr (map time_json (snd (normalize_times u)))) (fst (normalize_times u))"
  have "norm_rel j = (if list_all (\<lambda>f. case map_of w f of None \<Rightarrow> False | Some j \<Rightarrow> json_true j) REL_FIELDS then Some w else None)"
    by (simp add: JObj norm_rel_def Let_def split_beta u_def w_def)
  with t have w: "t = w" "list_all (\<lambda>f. case map_of w f of None \<Rightarrow> False | Some j \<Rightarrow> json_true j) REL_FIELDS"
    by (simp_all split: if_splits)
  have "map_of w ''evidence_label'' = Some (JStr (label_of (map_of (renamed_rel r0) ''evidence_label'')))"
    using normalize_times_ok(2) [of u] by (simp add: w_def map_of_dset u_def)
  moreover have "map_of w ''times'' = Some (JArr (map time_json (snd (normalize_times u))))" by (simp add: w_def map_of_dset)
  moreover have "list_all time_json_ok (map time_json (snd (normalize_times u)))"
    using normalize_times_ok(1) [of u] time_json_of by (auto simp: items_ok_def list_all_iff)
  ultimately show ?thesis using w label_of_ok by (simp add: rel_item_ok_def)
qed (simp_all add: norm_rel_def)

lemma fix_names_other: "f \<noteq> g \<Longrightarrow> map_of (fix_names f out) g = map_of out g"
  by (auto simp: fix_names_def map_of_dset split: option.split json.split)

lemma fix_names_ok: "field_ok name_item_ok (fix_names f out) f"
proof -
  have "item_name j = Some n \<Longrightarrow> name_item_ok (JStr n)" for j n using item_name_ok [of j n] by (simp add: name_item_ok_def)
  then show ?thesis
    by (auto simp: field_ok_def fix_names_def map_of_dset list_all_iff set_map_filter split: option.split json.split)
qed

lemma fix_list_other: "f \<noteq> g \<Longrightarrow> map_of (fix_list f h out) g = map_of out g"
  by (auto simp: fix_list_def map_of_dset split: option.split json.split)

lemma fix_list_ok: "(\<And>j t. h j = Some t \<Longrightarrow> P (JObj t)) \<Longrightarrow> field_ok P (fix_list f h out) f"
  by (auto simp: field_ok_def fix_list_def map_of_dset list_all_iff set_map_filter split: option.split json.split)

lemma field_ok_cong: "map_of out f = map_of out' f \<Longrightarrow> field_ok P out f = field_ok P out' f"
  by (simp add: field_ok_def)

lemma fold_fix_names: "distinct fs \<Longrightarrow> f \<in> set fs \<Longrightarrow> field_ok name_item_ok (fold fix_names fs out) f"
proof (induction fs arbitrary: out)
  case (Cons g gs)
  have keep: "f \<notin> set gs \<Longrightarrow> map_of (fold fix_names gs o') f = map_of o' f" for o'
    by (induction gs arbitrary: o') (auto simp: fix_names_other)
  show ?case
  proof (cases "f \<in> set gs")
    case False
    then have g: "g = f" using Cons.prems by simp
    have "field_ok name_item_ok (fold fix_names gs (fix_names f out)) f = field_ok name_item_ok (fix_names f out) f"
      by (rule field_ok_cong [OF keep [OF False]])
    then show ?thesis by (simp add: g fix_names_ok)
  qed (use Cons in simp)
qed simp


end
