(* ===== verification/MapRows.thy ===== *)
theory MapRows
  imports Ledger LlmMerge
begin

text \<open>
  Where a relationship row lands in the bundle, pipeline/stage4_stix_mapping.py: the index of the objects a
  name denotes (\<open>_NameIndex\<close>), the routing of an observable through its Indicator, the policy's verb, the
  resolution of a row (\<open>_resolve_row\<close>) and the triples an analyst's refusal forbids
  (\<open>_forbidden_triples\<close>, \<open>_refused_by_review\<close>). Every object has an id and a type: stix2 sets both. Two
  objects of the index are the same when their records are.
\<close>

section \<open>Objects\<close>

text \<open>A relationship object beside the others: what Stage 4 writes on it.\<close>

record sro =
  sr_verb :: string
  sr_source :: string
  sr_target :: string
  sr_confidence :: "int option"
  sr_label :: "string option"
  sr_policy_rule :: "string option"
  sr_pin_evidence :: "string option"
  sr_text :: "string option"
  sr_start :: "int option"
  sr_stop :: "int option"
  sr_times :: "time_payload list"

text \<open>The members a reader looks at: a name or a value that is a string, the strings of the alias list,
  the string values of the hashes.\<close>

record map_obj =
  mo_id :: string
  mo_type :: string
  mo_name :: "string option"
  mo_value :: "string option"
  mo_aliases :: "string list"
  mo_hashes :: "string list"
  mo_pattern :: "string option"
  mo_sro :: "sro option"

definition OBSERVABLE_SCO_TYPES :: "string list" where
  "OBSERVABLE_SCO_TYPES = [''ipv4-addr'', ''ipv6-addr'', ''domain-name'', ''url'', ''email-addr'', ''mac-addr'',
    ''autonomous-system'', ''file'', ''windows-registry-key'', ''mutex'', ''user-account'', ''network-traffic'',
    ''software'', ''artifact'']"

definition ATTACK_PATTERN :: string where "ATTACK_PATTERN = ''attack-pattern''"

text \<open>\<open>getattr(obj, "type", "")\<close>, where the object may be \<open>None\<close>.\<close>

definition type_of :: "map_obj option \<Rightarrow> string" where
  "type_of x = (case x of None \<Rightarrow> [] | Some ob \<Rightarrow> mo_type ob)"

definition observable :: "string \<Rightarrow> bool" where
  "observable t \<longleftrightarrow> t \<in> set OBSERVABLE_SCO_TYPES"

definition is_spurious_observable_ttp_edge :: "map_obj \<Rightarrow> map_obj \<Rightarrow> bool" where
  "is_spurious_observable_ttp_edge s t \<longleftrightarrow>
    ATTACK_PATTERN \<in> {mo_type s, mo_type t} \<and> (observable (mo_type s) \<or> observable (mo_type t))"

text \<open>\<open>sco_id_to_indicator\<close>.\<close>

type_synonym indicators = "string \<rightharpoonup> map_obj"

definition route_observables :: "indicators \<Rightarrow> map_obj option \<Rightarrow> string \<Rightarrow> map_obj option \<Rightarrow>
    map_obj option \<times> map_obj option" where
  "route_observables indicator s verb t =
    (if observable (type_of s) = observable (type_of t) then (s, t)
     else if rel_is_listed (type_of s) verb (type_of t) then (s, t)
     else if observable (type_of s) then
       (case Option.bind s (\<lambda>x. indicator (mo_id x)) of None \<Rightarrow> (None, None) | Some i \<Rightarrow> (Some i, t))
     else
       (case Option.bind t (\<lambda>x. indicator (mo_id x)) of None \<Rightarrow> (None, None) | Some i \<Rightarrow> (s, Some i)))"

definition verb_ships_as_written :: "string \<Rightarrow> string \<Rightarrow> string \<Rightarrow> bool" where
  "verb_ships_as_written src_type verb0 tgt_type =
    (let verb = lower (strip verb0); src_obs = observable src_type; tgt_obs = observable tgt_type in
     if src_obs \<and> tgt_type = ATTACK_PATTERN \<or> src_type = ATTACK_PATTERN \<and> tgt_obs then verb = ''indicates''
     else if rel_is_listed src_type verb tgt_type then True
     else if src_obs \<and> \<not> tgt_obs then rel_is_allowed ''indicator'' verb tgt_type
     else if tgt_obs \<and> \<not> src_obs then rel_is_allowed src_type verb ''indicator''
     else rel_is_allowed src_type verb tgt_type)"

section \<open>The names\<close>

type_synonym by_type = "(string, map_obj) dict"

record name_index =
  ni_direct :: "(string, by_type) dict"
  ni_alias :: "(string, by_type) dict"

definition index_add :: "string \<Rightarrow> map_obj \<Rightarrow> bool \<Rightarrow> name_index \<Rightarrow> name_index" where
  "index_add key ob alias idx =
    (if alias then idx\<lparr>ni_alias := dset key (dsetdefault (mo_type ob) ob (dget (ni_alias idx) key [])) (ni_alias idx)\<rparr>
     else idx\<lparr>ni_direct := dset key (dset (mo_type ob) ob (dget (ni_direct idx) key [])) (ni_direct idx)\<rparr>)"

definition index_of_type :: "name_index \<Rightarrow> string \<Rightarrow> string \<Rightarrow> map_obj option" where
  "index_of_type idx key t = (case map_of (dget (ni_direct idx) key []) t of
     Some ob \<Rightarrow> Some ob | None \<Rightarrow> map_of (dget (ni_alias idx) key []) t)"

definition index_candidates :: "name_index \<Rightarrow> string \<Rightarrow> by_type" where
  "index_candidates idx key =
    (if dget (ni_direct idx) key [] \<noteq> [] then dget (ni_direct idx) key [] else dget (ni_alias idx) key [])"

definition targeted_candidates :: "name_index \<Rightarrow> string \<Rightarrow> by_type" where
  "targeted_candidates idx val =
    (let key = lower val in
     case (case index_of_type idx (''location:'' @ key) ''location'' of Some ob \<Rightarrow> Some ob
           | None \<Rightarrow> index_of_type idx (''identity:'' @ key) ''identity'') of
       None \<Rightarrow> [] | Some ob \<Rightarrow> [(mo_type ob, ob)])"

section \<open>Verbs\<close>

definition valid_verb :: "string \<Rightarrow> string" where
  "valid_verb verb = (if verb \<in> set STIX_RELATIONSHIP_TYPES then verb else ''related-to'')"

definition apply_policy :: "string \<Rightarrow> string \<Rightarrow> string \<Rightarrow> (string, policy_rule) dict \<Rightarrow> string" where
  "apply_policy verb src_type tgt_type idx = valid_verb (apply_pin verb src_type tgt_type idx)"

definition allowed_verb :: "string \<Rightarrow> string \<Rightarrow> string \<Rightarrow> string" where
  "allowed_verb src_type verb tgt_type = (if rel_is_allowed src_type verb tgt_type then verb else ''related-to'')"

text \<open>\<open>_pin_edge_key\<close>: the key an edge would get, without building it.\<close>

definition pin_edge_key :: "map_obj \<Rightarrow> string \<Rightarrow> map_obj \<Rightarrow> triple option" where
  "pin_edge_key s verb t =
    (if mo_id s = mo_id t then None
     else Some (mo_id s, allowed_verb (mo_type s) (valid_verb verb) (mo_type t), mo_id t))"

section \<open>A row\<close>

text \<open>What resolving reads beside the row.\<close>

record row_context =
  rc_names :: name_index
  rc_indicator :: indicators
  rc_policy :: "(string, policy_rule) dict"
  rc_benign :: "string set"

definition verb_fits :: "indicators \<Rightarrow> map_obj \<Rightarrow> string \<Rightarrow> map_obj \<Rightarrow> bool" where
  "verb_fits indicator s verb t =
    (if is_spurious_observable_ttp_edge s t \<and> verb \<noteq> ''indicates'' then False
     else let (s, t) = (if is_spurious_observable_ttp_edge s t \<and> mo_type s = ATTACK_PATTERN then (t, s) else (s, t)) in
       (case route_observables indicator (Some s) verb (Some t) of
          (Some s', Some t') \<Rightarrow> rel_is_allowed (mo_type s') verb (mo_type t') | _ \<Rightarrow> False))"

definition pick_by_verb :: "indicators \<Rightarrow> map_obj list \<Rightarrow> string \<Rightarrow> map_obj list \<Rightarrow> (map_obj \<times> map_obj) option" where
  "pick_by_verb indicator srcs relationship_type tgts =
    (case (srcs, tgts) of
       ([s], [t]) \<Rightarrow> Some (s, t)
     | _ \<Rightarrow>
       let verb = valid_verb (lower (strip relationship_type));
           fits = filter (\<lambda>(s, t). verb_fits indicator s verb t) (List.product srcs tgts);
           apart = filter (\<lambda>(s, t). s \<noteq> t) fits;
           fits = (if apart \<noteq> [] then apart else take 1 fits) in
       (case fits of [p] \<Rightarrow> Some p | _ \<Rightarrow> None))"

datatype row_edge = Ships map_obj string map_obj "pyval list" | NotShipped string entry

definition direction_change :: "string \<Rightarrow> string \<Rightarrow> pyval" where
  "direction_change a b = DictV [(''kind'', StrV ''direction''), (''from'', StrV a), (''to'', StrV b)]"

definition verb_change :: "string \<Rightarrow> string \<Rightarrow> string \<Rightarrow> pyval" where
  "verb_change a b reason = DictV [(''kind'', StrV ''verb''), (''from'', StrV a), (''to'', StrV b), (''reason'', StrV reason)]"

definition reroute_change :: "string \<Rightarrow> string \<Rightarrow> string \<Rightarrow> pyval" where
  "reroute_change which a b = DictV [(''kind'', StrV ''reroute''), (''end'', StrV which), (''from'', StrV a), (''to'', StrV b)]"

definition ref_info :: "map_obj \<Rightarrow> map_obj \<Rightarrow> entry" where
  "ref_info s t = [(''source_ref'', StrV (mo_id s)), (''target_ref'', StrV (mo_id t))]"

definition sorted_ids :: "by_type \<Rightarrow> pyval" where
  "sorted_ids cands = ListV (map StrV (sort (map (mo_id \<circ> snd) cands)))"

text \<open>From the routed pair on: the policy of the pair it lands on, then the downgrade.\<close>

definition land_row :: "(string, policy_rule) dict \<Rightarrow> map_obj \<Rightarrow> string \<Rightarrow> map_obj \<Rightarrow> pyval list \<Rightarrow> row_edge" where
  "land_row pol s verb t changes =
    (let pinned = (if pol \<noteq> [] then apply_policy verb (mo_type s) (mo_type t) pol else verb);
         changes = changes @ (if pinned \<noteq> verb then [verb_change verb pinned ''policy_pin''] else []);
         ok = rel_is_allowed (mo_type s) pinned (mo_type t) in
     Ships s (if ok then pinned else ''related-to'') t
       (changes @ (if ok then [] else [verb_change pinned ''related-to'' ''not_suggested''])))"

definition route_row :: "row_context \<Rightarrow> map_obj \<Rightarrow> string \<Rightarrow> map_obj \<Rightarrow> pyval list \<Rightarrow> row_edge" where
  "route_row C s verb t changes =
    (case route_observables (rc_indicator C) (Some s) (apply_policy verb (mo_type s) (mo_type t) (rc_policy C)) (Some t) of
       (Some s', Some t') \<Rightarrow>
         if mo_id s' = mo_id t' then NotShipped ''self_loop'' [(''stix_ref'', StrV (mo_id s'))]
         else land_row (rc_policy C) s' verb t' (changes @
           (if mo_id s' \<noteq> mo_id s then [reroute_change ''source'' (mo_id s) (mo_id s')] else []) @
           (if mo_id t' \<noteq> mo_id t then [reroute_change ''target'' (mo_id t) (mo_id t')] else []))
     | _ \<Rightarrow> NotShipped (if mo_id s \<in> rc_benign C \<or> mo_id t \<in> rc_benign C then ''benign_observable'' else ''no_indicator'')
         (ref_info s t))"

definition resolve_pair :: "row_context \<Rightarrow> map_obj \<Rightarrow> string \<Rightarrow> map_obj \<Rightarrow> row_edge" where
  "resolve_pair C s relationship_type t =
    (let asked = lower (strip relationship_type); spurious = is_spurious_observable_ttp_edge s t;
         turned = (spurious \<and> mo_type s = ATTACK_PATTERN) in
     if mo_id s = mo_id t then NotShipped ''self_loop'' [(''stix_ref'', StrV (mo_id s))]
     else if spurious \<and> asked \<noteq> ''indicates'' then NotShipped ''observable_to_attack_pattern'' (ref_info s t)
     else route_row C (if turned then t else s) (valid_verb asked) (if turned then s else t)
       ((if turned then [direction_change (mo_id s) (mo_id t)] else []) @
        (if valid_verb asked \<noteq> asked then [verb_change asked (valid_verb asked) ''unknown_verb''] else [])))"

definition row_candidates :: "row_context \<Rightarrow> bool \<Rightarrow> string \<Rightarrow> by_type" where
  "row_candidates C targeted val =
    (let cands = index_candidates (rc_names C) (lower val) in
     if cands = [] \<and> targeted then targeted_candidates (rc_names C) val else cands)"

definition resolve_row :: "row_context \<Rightarrow> bool \<Rightarrow> triple \<Rightarrow> row_edge" where
  "resolve_row C targeted row = (case row of (source_value, relationship_type, target_value) \<Rightarrow>
    (let srcs = row_candidates C targeted source_value; tgts = row_candidates C targeted target_value in
     if srcs = [] \<or> tgts = [] then
       NotShipped (if srcs = [] \<and> tgts = [] then ''unresolved_both''
                   else if srcs = [] then ''unresolved_source'' else ''unresolved_target'') []
     else case pick_by_verb (rc_indicator C) (map snd srcs) relationship_type (map snd tgts) of
       None \<Rightarrow> NotShipped ''ambiguous_name'' [(''source_candidates'', sorted_ids srcs), (''target_candidates'', sorted_ids tgts)]
     | Some (s, t) \<Rightarrow> resolve_pair C s relationship_type t))"

section \<open>What a refusal forbids\<close>

definition edge_triple :: "row_edge \<Rightarrow> triple option" where
  "edge_triple e = (case e of Ships s verb t _ \<Rightarrow> Some (mo_id s, verb, mo_id t) | NotShipped _ _ \<Rightarrow> None)"

definition forbidden_triples :: "row_context \<Rightarrow> (triple \<times> string) list \<Rightarrow> triple list \<Rightarrow> forbidden" where
  "forbidden_triples C rows shipping =
    (let forbidden = fold (\<lambda>(row, reason) fb. case edge_triple (resolve_row C True row) of
           None \<Rightarrow> fb
         | Some key \<Rightarrow> if map_of fb key \<noteq> Some REJECTED_BY_ANALYST then dset key reason fb else fb) rows [] in
     if forbidden = [] then []
     else fold (\<lambda>row fb. case edge_triple (resolve_row C True row) of None \<Rightarrow> fb | Some key \<Rightarrow> dpop key fb)
            shipping (both_directions forbidden))"

text \<open>The refused triple and its reason, when the edge asked for is one the bundle does not already have.\<close>

definition refused_by_review :: "row_context \<Rightarrow> triple set \<Rightarrow> forbidden \<Rightarrow> map_obj \<Rightarrow> string \<Rightarrow> map_obj \<Rightarrow>
    (triple \<times> string) option" where
  "refused_by_review C seen forbidden s verb t =
    (case pin_edge_key s (apply_policy verb (mo_type s) (mo_type t) (rc_policy C)) t of
       None \<Rightarrow> None
     | Some key \<Rightarrow> if key \<in> seen then None else map_option (Pair key) (map_of forbidden key))"

end
