(* ===== verification/MapEdges.thy ===== *)
theory MapEdges
  imports MapRows
begin

text \<open>
  The relationships Stage 4 builds, pipeline/stage4_stix_mapping.py: \<open>_add_relationship\<close>, the product of the
  actors with the targeted countries and sectors, the loop over the relationship rows with their dates, and
  what each step writes in the mapping ledger. Building a stix2.Relationship is an argument: the number of
  objects so far and the triple give its new id, or the message of what stix2 raised; so is whether
  stix2 accepts the relationship again once its dates are set. A confidence is the rational its float
  denotes.
\<close>

section \<open>One relationship\<close>

text \<open>Python's \<open>round\<close>: half to even.\<close>

definition py_round :: "rat \<Rightarrow> int" where
  "py_round x = (let n = \<lfloor>x\<rfloor>; f = x - of_int n in
     if f < 1 / 2 then n else if 1 / 2 < f then n + 1 else if even n then n else n + 1)"

definition percent :: "rat \<Rightarrow> int" where
  "percent confidence = max 0 (min 100 (py_round (confidence * 100)))"

type_synonym new_rel = "nat \<Rightarrow> triple \<Rightarrow> string + string"

definition rel_obj :: "string \<Rightarrow> sro \<Rightarrow> map_obj" where
  "rel_obj i r = \<lparr>mo_id = i, mo_type = ''relationship'', mo_name = None, mo_value = None, mo_aliases = [],
     mo_hashes = [], mo_pattern = None, mo_sro = Some r\<rparr>"

definition plain_sro :: "string \<Rightarrow> string \<Rightarrow> string \<Rightarrow> sro" where
  "plain_sro source verb target = \<lparr>sr_verb = verb, sr_source = source, sr_target = target, sr_confidence = None,
     sr_label = None, sr_policy_rule = None, sr_pin_evidence = None, sr_text = None, sr_start = None,
     sr_stop = None, sr_times = []\<rparr>"

definition EV_OBSERVED :: "sro \<Rightarrow> sro" where "EV_OBSERVED r = r\<lparr>sr_label := Some ''observed''\<rparr>"
definition EV_REPORTED :: "sro \<Rightarrow> sro" where "EV_REPORTED r = r\<lparr>sr_label := Some ''reported''\<rparr>"

text \<open>\<open>_add_relationship\<close> with the shared \<open>seen\<close>; \<open>custom\<close> sets the x_ properties.\<close>

definition add_relationship :: "new_rel \<Rightarrow> map_obj \<Rightarrow> string \<Rightarrow> map_obj \<Rightarrow> rat option \<Rightarrow> (string, policy_rule) dict \<Rightarrow>
    (sro \<Rightarrow> sro) \<Rightarrow> map_obj list \<times> triple set \<Rightarrow> map_obj option \<times> map_obj list \<times> triple set" where
  "add_relationship new_rel s rel_type t confidence pol custom st = (case st of (objs, seen) \<Rightarrow>
    if mo_id s = mo_id t then (None, objs, seen)
    else
      let asked = (if pol \<noteq> [] then apply_policy rel_type (mo_type s) (mo_type t) pol else valid_verb rel_type);
          verb = allowed_verb (mo_type s) asked (mo_type t); key = (mo_id s, verb, mo_id t) in
      if key \<in> seen then (None, objs, seen)
      else case new_rel (length objs) key of
        Inl _ \<Rightarrow> (None, objs, insert key seen)
      | Inr i \<Rightarrow>
          let r = rel_obj i (custom ((plain_sro (mo_id s) verb (mo_id t))\<lparr>sr_confidence := map_option percent confidence\<rparr>)) in
          (Some r, objs @ [r], insert key seen))"

definition ledger_obj_of :: "map_obj \<Rightarrow> ledger_obj" where
  "ledger_obj_of x = \<lparr>lo_id = Some (mo_id x), lo_type = mo_type x, lo_name = mo_name x, lo_inference_rule = None,
     lo_policy_rule = Option.bind (mo_sro x) (\<lambda>r. map_option StrV (sr_policy_rule r))\<rparr>"

section \<open>The targets product\<close>

record map_state =
  ms_objs :: "map_obj list"
  ms_seen :: "triple set"
  ms_ledger :: ledger

definition target_info :: "string \<Rightarrow> string \<Rightarrow> entry" where
  "target_info actor target = [(''actor'', StrV actor), (''target'', StrV target)]"

text \<open>One actor against one country or sector: \<open>kind\<close> is the prefix of the key and the type looked up.\<close>

definition target_step :: "new_rel \<Rightarrow> row_context \<Rightarrow> forbidden \<Rightarrow> string \<Rightarrow> map_obj \<Rightarrow> string \<Rightarrow> string \<Rightarrow> map_state \<Rightarrow> map_state" where
  "target_step new_rel C fb actor_name actor kind target st =
    (case index_of_type (rc_names C) (kind @ '':'' @ lower target) kind of None \<Rightarrow> st
     | Some place \<Rightarrow>
       (case refused_by_review C (ms_seen st) fb actor ''targets'' place of
          Some ((s, v, t), reason) \<Rightarrow> st\<lparr>ms_ledger :=
            ledger_refuse s v t ''targeted_location'' reason (target_info actor_name target) (ms_ledger st)\<rparr>
        | None \<Rightarrow>
          (case add_relationship new_rel actor ''targets'' place None (rc_policy C) EV_REPORTED (ms_objs st, ms_seen st) of
             (None, objs, seen) \<Rightarrow> st\<lparr>ms_objs := objs, ms_seen := seen\<rparr>
           | (Some r, objs, seen) \<Rightarrow> st\<lparr>ms_objs := objs, ms_seen := seen, ms_ledger :=
               record_object (ledger_obj_of r) ''targeted_location'' (target_info actor_name target) (ms_ledger st)\<rparr>)))"

definition targets_product :: "new_rel \<Rightarrow> row_context \<Rightarrow> forbidden \<Rightarrow> llm_result \<Rightarrow> map_state \<Rightarrow> map_state" where
  "targets_product new_rel C fb res st = fold (\<lambda>actor_name st.
     case index_of_type (rc_names C) (lower actor_name) ''threat-actor'' of None \<Rightarrow> st
     | Some actor \<Rightarrow>
         fold (target_step new_rel C fb actor_name actor ''identity'') (targeted_sectors res)
           (fold (target_step new_rel C fb actor_name actor ''location'') (targeted_countries res) st)) (threat_actors res) st"

section \<open>The rows\<close>

text \<open>The dates of the rows on one edge: where its relationship is, their union, each row's ledger entry
  with its own dates.\<close>

record time_state =
  tm_idx :: "nat option"
  tm_times :: "temporal_assertion list"
  tm_entries :: "(nat \<times> temporal_assertion list) list"

record row_state = map_state +
  rs_times :: "(triple, time_state) dict"

definition ORIGIN_EXTRACTED :: string where "ORIGIN_EXTRACTED = ''extracted''"

definition rel_triple_of :: "map_obj \<Rightarrow> triple option" where
  "rel_triple_of x = map_option (\<lambda>r. (sr_source r, sr_verb r, sr_target r)) (mo_sro x)"

fun last_index_from :: "('a \<Rightarrow> bool) \<Rightarrow> nat \<Rightarrow> 'a list \<Rightarrow> nat option" where
  "last_index_from P k [] = None"
| "last_index_from P k (x # xs) = (case last_index_from P (Suc k) xs of Some i \<Rightarrow> Some i
     | None \<Rightarrow> if P x then Some k else None)"

definition last_index :: "('a \<Rightarrow> bool) \<Rightarrow> 'a list \<Rightarrow> nat option" where
  "last_index P xs = last_index_from P 0 xs"

definition existing_rel_id :: "triple \<Rightarrow> map_obj list \<Rightarrow> string option" where
  "existing_rel_id key objs = map_option (\<lambda>i. mo_id (objs ! i))
     (last_index (\<lambda>x. mo_type x = ''relationship'' \<and> rel_triple_of x = Some key) objs)"

definition row_sro :: "llm_rel \<Rightarrow> string \<Rightarrow> string \<Rightarrow> string \<Rightarrow> sro" where
  "row_sro rel source verb target = (plain_sro source verb target)\<lparr>sr_confidence := Some (percent (rl_confidence rel)),
     sr_label := Some (label_value (rl_label rel)), sr_text := truthy_str (rl_evidence rel)\<rparr>"

definition row_triple :: "llm_rel \<Rightarrow> triple" where
  "row_triple rel = (rl_source rel, rl_verb rel, rl_target rel)"

definition edge_info :: "string option \<Rightarrow> entry \<Rightarrow> triple \<Rightarrow> pyval list \<Rightarrow> entry" where
  "edge_info i extra key changes = (case key of (s, v, t) \<Rightarrow>
     (''stix_id'', opt_val i) # extra @ [(''final_type'', StrV v), (''source_ref'', StrV s), (''target_ref'', StrV t),
      (''changes'', ListV changes)])"

text \<open>A row whose edge is already there: it joins it, and replaces the one the targets product built.\<close>

definition replace_targeted :: "string option \<Rightarrow> sro \<Rightarrow> row_state \<Rightarrow> row_state" where
  "replace_targeted existing r st = (case existing of None \<Rightarrow> st
     | Some i \<Rightarrow> if Option.bind (map_of (lg_objects (ms_ledger st)) i) (\<lambda>e. map_of e ''origin'') \<noteq> Some (StrV ''targeted_location'') then st
       else (case last_index (\<lambda>x. mo_id x = i) (ms_objs st) of None \<Rightarrow> st
         | Some k \<Rightarrow> st\<lparr>ms_objs := (ms_objs st)[k := rel_obj i r],
             ms_ledger := record_object (ledger_obj_of (rel_obj i r)) ORIGIN_EXTRACTED [(''replaces'', StrV ''targeted_location'')]
               ((ms_ledger st)\<lparr>lg_objects := dpop i (lg_objects (ms_ledger st))\<rparr>)\<rparr>))"

definition join_times :: "triple \<Rightarrow> string option \<Rightarrow> nat \<Rightarrow> temporal_assertion list \<Rightarrow> row_state \<Rightarrow> py_exc + row_state" where
  "join_times key existing k ts st =
    (if ts = [] then Inr st
     else let old = (case map_of (rs_times st) key of Some tm \<Rightarrow> tm
            | None \<Rightarrow> \<lparr>tm_idx = Option.bind existing (\<lambda>i. last_index (\<lambda>x. mo_id x = i) (ms_objs st)), tm_times = [], tm_entries = []\<rparr>) in
       and_then (merge_times (tm_times old) ts) (\<lambda>merged.
         Inr (st\<lparr>rs_times := dset key (old\<lparr>tm_times := merged, tm_entries := tm_entries old @ [(k, ts)]\<rparr>) (rs_times st)\<rparr>)))"

definition merge_row :: "llm_rel \<Rightarrow> triple \<Rightarrow> pyval list \<Rightarrow> sro \<Rightarrow> row_state \<Rightarrow> py_exc + row_state" where
  "merge_row rel key changes r st =
    (let existing = existing_rel_id key (ms_objs st);
         (k, L) = ledger_relationship (row_triple rel) ''merged''
           (edge_info existing [(''merged_with'', opt_val existing)] key changes) (ms_ledger st) in
     join_times key existing k (rl_times rel) (replace_targeted existing r (st\<lparr>ms_ledger := L\<rparr>)))"

definition emit_row :: "llm_rel \<Rightarrow> triple \<Rightarrow> pyval list \<Rightarrow> string \<Rightarrow> sro \<Rightarrow> row_state \<Rightarrow> py_exc + row_state" where
  "emit_row rel key changes i r st =
    and_then (if rl_times rel = [] then Inr [] else merge_times [] (rl_times rel)) (\<lambda>merged.
      let here = length (ms_objs st);
          (k, L) = ledger_relationship (row_triple rel) ''emitted'' (edge_info (Some i) [] key changes)
            (record_object (ledger_obj_of (rel_obj i r)) ORIGIN_EXTRACTED [] (ms_ledger st)) in
      Inr (st\<lparr>ms_objs := ms_objs st @ [rel_obj i r], ms_seen := insert key (ms_seen st), ms_ledger := L,
        rs_times := (if rl_times rel = [] then rs_times st
          else dset key \<lparr>tm_idx = Some here, tm_times = merged, tm_entries = [(k, rl_times rel)]\<rparr> (rs_times st))\<rparr>))"

definition add_row :: "new_rel \<Rightarrow> row_context \<Rightarrow> llm_rel \<Rightarrow> row_state \<Rightarrow> py_exc + row_state" where
  "add_row new_rel C rel st =
    (case resolve_row C (lower (strip (rl_verb rel)) = ''targets'') (row_triple rel) of
       NotShipped reason info \<Rightarrow>
         Inr (st\<lparr>ms_ledger := snd (ledger_relationship (row_triple rel) ''dropped'' ((''reason'', StrV reason) # info) (ms_ledger st))\<rparr>)
     | Ships s verb t changes \<Rightarrow>
         let key = (mo_id s, verb, mo_id t); r = row_sro rel (mo_id s) verb (mo_id t) in
         (case new_rel (length (ms_objs st)) key of
            Inl message \<Rightarrow>
              Inr (st\<lparr>ms_ledger := snd (ledger_relationship (row_triple rel) ''dropped''
                ([(''reason'', StrV ''invalid''), (''detail'', StrV (take 200 message))] @ ref_info s t) (ms_ledger st))\<rparr>)
          | Inr i \<Rightarrow> if key \<in> ms_seen st then merge_row rel key changes r st else emit_row rel key changes i r st))"

definition add_rows :: "new_rel \<Rightarrow> row_context \<Rightarrow> llm_rel list \<Rightarrow> row_state \<Rightarrow> py_exc + row_state" where
  "add_rows new_rel C rels st = fold_raise (add_row new_rel C) rels st"

section \<open>The dates of the edges\<close>

fun role_value :: "role \<Rightarrow> string" where
  "role_value Start = ''start''" | "role_value End = ''end''" | "role_value Within = ''within''"
| "role_value Throughout = ''throughout''" | "role_value Observed = ''observed''"

fun precision_value :: "precision \<Rightarrow> string" where
  "precision_value Year = ''year''" | "precision_value Half = ''half''" | "precision_value Quarter = ''quarter''"
| "precision_value Month = ''month''" | "precision_value Day = ''day''" | "precision_value Instant = ''instant''"

definition decision_entry :: "time_decision \<Rightarrow> pyval" where
  "decision_entry d = DictV (clean [(''kind'', StrV ''time''), (''id'', StrV (d_id d)), (''role'', StrV (role_value (d_role d))),
     (''value'', opt_val (d_value d)), (''precision'', opt_val (map_option precision_value (d_precision d))),
     (''status'', StrV (status_value (d_status d))), (''outcome'', StrV (d_outcome d)),
     (''reason'', opt_val (truthy_str (d_reason d))), (''field'', opt_val (d_field d))])"

text \<open>\<open>entry.setdefault("times", []).append(decision)\<close>.\<close>

definition append_time :: "pyval \<Rightarrow> entry \<Rightarrow> entry" where
  "append_time d e = dset ''times'' (ListV ((case map_of e ''times'' of Some (ListV xs) \<Rightarrow> xs | _ \<Rightarrow> []) @ [d])) e"

definition with_temporal :: "export_plan \<Rightarrow> sro \<Rightarrow> sro" where
  "with_temporal plan r = r\<lparr>sr_start := start_time plan, sr_stop := stop_time plan, sr_times := assertions plan\<rparr>"

definition note_decisions :: "temporal_assertion list \<Rightarrow> time_decision list \<Rightarrow> nat \<times> temporal_assertion list \<Rightarrow> ledger \<Rightarrow> ledger" where
  "note_decisions ts ds = (\<lambda>(k, own) L.
    let by_identity = map_of (rev (zip (map temporal_identity ts) ds));
        found = List.map_filter (\<lambda>a. by_identity (temporal_identity a)) own in
    L\<lparr>lg_relationships := (lg_relationships L)[k := fold (\<lambda>d. append_time (decision_entry d)) found (lg_relationships L ! k)]\<rparr>)"

definition date_edge :: "(sro \<Rightarrow> bool) \<Rightarrow> string \<Rightarrow> triple \<times> time_state \<Rightarrow> row_state \<Rightarrow> py_exc + row_state" where
  "date_edge accepts mode = (\<lambda>(key, tm) st. case tm_idx tm of None \<Rightarrow> Inr st
     | Some k \<Rightarrow> if tm_times tm = [] then Inr st
       else and_then (export_plan (tm_times tm) mode) (\<lambda>plan.
         case mo_sro (ms_objs st ! k) of None \<Rightarrow> Inr st
         | Some r \<Rightarrow> if \<not> accepts (with_temporal plan r) then Inr st
           else Inr (st\<lparr>ms_objs := (ms_objs st)[k := rel_obj (mo_id (ms_objs st ! k)) (with_temporal plan r)],
                  ms_ledger := fold (note_decisions (tm_times tm) (decisions plan)) (tm_entries tm) (ms_ledger st)\<rparr>)))"

definition date_edges :: "(sro \<Rightarrow> bool) \<Rightarrow> string \<Rightarrow> row_state \<Rightarrow> py_exc + row_state" where
  "date_edges accepts mode st = fold_raise (date_edge accepts mode) (rs_times st) st"

end
