(* ===== verification/FairShare.thy ===== *)
theory FairShare
  imports Prelude "HOL-Library.Product_Lexorder" "HOL-Library.Multiset"
begin

text \<open>
  How Stage 4 splits the budget of pinned edges between the rules, pipeline/stage4_stix_mapping.py:
  \<open>_fair_share\<close>, its serving pass and its leftover pass, and what the split promises: no grant above its
  demand, nothing of the budget wasted, and max-min fairness. The serving pass alone does it: the leftover
  pass never finds both something to give and someone to give it to.
\<close>

section \<open>The code\<close>

definition serve_order :: "nat list \<Rightarrow> nat list" where
  "serve_order demands = sort_key (\<lambda>i. (demands ! i, i)) [0..<length demands]"

text \<open>The serving pass: the indices still to serve, the grants, the remaining budget.\<close>

fun serve :: "nat list \<Rightarrow> nat list \<Rightarrow> nat list \<Rightarrow> nat \<Rightarrow> nat list \<times> nat" where
  "serve demands [] grants remaining = (grants, remaining)"
| "serve demands (i # is) grants remaining =
    (let grant = min (demands ! i) (remaining div length (i # is)) in
     serve demands is (grants[i := grant]) (remaining - grant))"

text \<open>One round of the leftover pass, with its \<open>progressed\<close>.\<close>

fun leftover_round :: "nat list \<Rightarrow> nat list \<Rightarrow> nat list \<times> nat \<times> bool \<Rightarrow> nat list \<times> nat \<times> bool" where
  "leftover_round demands [] st = st"
| "leftover_round demands (i # is) (grants, remaining, progressed) =
    (if remaining = 0 then (grants, remaining, progressed)
     else if grants ! i < demands ! i
       then leftover_round demands is (grants[i := Suc (grants ! i)], remaining - 1, True)
       else leftover_round demands is (grants, remaining, progressed))"

lemma leftover_round_less:
  "leftover_round demands is (grants, remaining, p) = (g', r', p') \<Longrightarrow>
     r' \<le> remaining \<and> (p' \<longrightarrow> p \<or> r' < remaining)"
proof (induction "is" arbitrary: grants remaining p)
  case (Cons i "is")
  show ?case
  proof (cases "remaining = 0 \<or> \<not> grants ! i < demands ! i")
    case True
    then show ?thesis using Cons.prems Cons.IH [of grants remaining p] by (auto split: if_splits)
  next
    case False
    then have "leftover_round demands is (grants[i := Suc (grants ! i)], remaining - 1, True) = (g', r', p')"
      using Cons.prems by simp
    then have "r' \<le> remaining - 1" using Cons.IH by blast
    then show ?thesis using False by auto
  qed
qed auto

function leftover :: "nat list \<Rightarrow> nat list \<Rightarrow> nat list \<Rightarrow> nat \<Rightarrow> nat list" where
  "leftover demands order grants remaining =
    (if remaining = 0 then grants
     else case leftover_round demands order (grants, remaining, False) of
       (grants', remaining', progressed) \<Rightarrow>
         if progressed then leftover demands order grants' remaining' else grants')"
  by pat_completeness auto
termination
  by (relation "measure (\<lambda>(_, _, _, r). r)") (auto dest!: leftover_round_less [OF sym])

declare leftover.simps [simp del]

definition fair_share :: "nat list \<Rightarrow> int \<Rightarrow> nat list" where
  "fair_share demands budget =
    (if budget \<le> 0 \<or> demands = [] then replicate (length demands) 0
     else case serve demands (serve_order demands) (replicate (length demands) 0) (nat budget) of
       (grants, remaining) \<Rightarrow> leftover demands (serve_order demands) grants remaining)"

section \<open>The serving pass\<close>

text \<open>Max-min fairness: nothing above its demand, nothing wasted, and who is cut is within one unit of
  whoever got most.\<close>

definition max_min_fair :: "nat list \<Rightarrow> nat \<Rightarrow> nat list \<Rightarrow> bool" where
  "max_min_fair demands budget grants \<longleftrightarrow> length grants = length demands \<and>
     (\<forall>i < length demands. grants ! i \<le> demands ! i) \<and>
     sum_list grants = min budget (sum_list demands) \<and>
     (\<forall>i < length demands. \<forall>j < length demands. grants ! i < demands ! i \<longrightarrow> grants ! j \<le> Suc (grants ! i))"

text \<open>What the pass grants to the ones still to serve, in their order.\<close>

fun served :: "nat list \<Rightarrow> nat \<Rightarrow> nat list" where
  "served [] r = []"
| "served (d # ds) r = (let g = min d (r div Suc (length ds)) in g # served ds (r - g))"

lemma length_served [simp]: "length (served ds r) = length ds"
  by (induction ds arbitrary: r) (simp_all add: Let_def)

lemma served_le: "i < length ds \<Longrightarrow> served ds r ! i \<le> ds ! i"
  by (induction ds arbitrary: r i) (auto simp: Let_def nth_Cons split: nat.split)

text \<open>Once the shares are equal they stay so, while every demand exceeds the share.\<close>

lemma served_flat:
  "\<forall>d \<in> set ds. q < d \<Longrightarrow> r < length ds \<Longrightarrow>
    (\<forall>g \<in> set (served ds (q * length ds + r)). g = q \<or> g = Suc q) \<and>
    sum_list (served ds (q * length ds + r)) = q * length ds + r"
proof (induction ds arbitrary: r)
  case (Cons d ds)
  let ?n = "length ds"
  have div: "(q * length (d # ds) + r) div Suc ?n = q"
    using Cons.prems(2) by (simp del: mult_Suc_right mult_Suc add: div_mult_self4)
  have g: "min d q = q" using Cons.prems(1) by simp
  have rest: "q * length (d # ds) + r - q = q * ?n + r" by simp
  have sv: "served (d # ds) (q * length (d # ds) + r) = q # served ds (q * ?n + r)"
    by (simp only: served.simps div Let_def g rest)
  show ?case
  proof (cases "r < ?n")
    case True
    then show ?thesis using Cons.IH [of r] Cons.prems(1) by (simp only: sv) auto
  next
    case False
    then have r: "r = ?n" using Cons.prems(2) by simp

    have full: "served ds (Suc q * length ds) = replicate (length ds) (Suc q)" if "\<forall>d \<in> set ds. q < d" for ds
      using that
    proof (induction ds)
      case (Cons e es)
      have "Suc q * length (e # es) div Suc (length es) = Suc q"
        by (simp only: list.size nonzero_mult_div_cancel_right [OF nat.distinct(2)] add_Suc_right add_0_right)
      moreover have "min e (Suc q) = Suc q" using Cons.prems by simp
      moreover have "Suc q * length (e # es) - Suc q = Suc q * length es" by simp
      ultimately show ?case using Cons by (simp only: served.simps Let_def) simp
    qed simp
    have "served ds (q * ?n + ?n) = replicate ?n (Suc q)" using full [of ds] Cons.prems(1) by (simp add: add.commute)
    then show ?thesis unfolding sv unfolding r by (simp add: sum_list_replicate algebra_simps)
  qed
qed simp

lemma served_ge:
  "q * length ds \<le> r \<Longrightarrow> \<forall>d \<in> set ds. q \<le> d \<Longrightarrow> \<forall>g \<in> set (served ds r). q \<le> g"
proof (induction ds arbitrary: r)
  case (Cons d ds)
  let ?n = "length ds" let ?s = "r div Suc ?n"
  have s: "q \<le> ?s" using Cons.prems(1) by (simp only: less_eq_div_iff_mult_less_eq zero_less_Suc list.size)  simp
  have "?s * Suc ?n \<le> r" by (rule div_times_less_eq_dividend)
  moreover have "q * ?n \<le> ?s * ?n" using s by (rule mult_le_mono1)
  then have "q * ?n + min d ?s \<le> ?s * ?n + ?s" by (rule add_mono) simp
  ultimately have "q * ?n + min d ?s \<le> r" by (simp only: mult_Suc_right add.commute [of ?s])
  then have "q * ?n \<le> r - min d ?s" by simp
  then have "\<forall>g \<in> set (served ds (r - min d ?s)). q \<le> g" using Cons by simp
  then show ?case using s Cons.prems(2) by (simp add: Let_def)
qed simp

lemma sum_served_le: "sum_list (served ds r) \<le> sum_list ds"
proof (induction ds arbitrary: r)
  case (Cons d ds)
  have "min d (r div Suc (length ds)) \<le> d" by simp
  then show ?case using Cons.IH [of "r - min d (r div Suc (length ds))"] by (simp add: Let_def add_mono)
qed simp

lemma served_fair:
  "sorted ds \<Longrightarrow> ds \<noteq> [] \<or> r = 0 \<Longrightarrow> sum_list (served ds r) = min r (sum_list ds) \<and>
    (\<forall>i < length ds. \<forall>j < length ds. served ds r ! i < ds ! i \<longrightarrow> served ds r ! j \<le> Suc (served ds r ! i))"
proof (induction ds arbitrary: r)
  case (Cons d ds)
  let ?n = "length ds" let ?q = "r div Suc ?n"
  show ?case
  proof (cases "d \<le> ?q")
    case True
    then have le: "d * Suc ?n \<le> r" by (simp only: less_eq_div_iff_mult_less_eq zero_less_Suc)
    then have dr: "d * ?n \<le> r - d" "d \<le> r" by simp_all
    have sv: "served (d # ds) r = d # served ds (r - d)" using True by (simp add: Let_def min_absorb1)
    show ?thesis
    proof (cases "ds = []")
      case True
      then show ?thesis using dr by (simp add: sv)
    next
      case False
      have ih: "sum_list (served ds (r - d)) = min (r - d) (sum_list ds)"
        "\<And>i j. i < ?n \<Longrightarrow> j < ?n \<Longrightarrow> served ds (r - d) ! i < ds ! i \<Longrightarrow> served ds (r - d) ! j \<le> Suc (served ds (r - d) ! i)"
        using Cons.IH [of "r - d"] Cons.prems(1) False by auto
      have ge: "\<forall>g \<in> set (served ds (r - d)). d \<le> g" using Cons.prems(1) dr(1) by (intro served_ge) simp_all
      have "served (d # ds) r ! j \<le> Suc (served (d # ds) r ! i)"
        if "i < length (d # ds)" "j < length (d # ds)" "served (d # ds) r ! i < (d # ds) ! i" for i j
      proof -
        have "i \<noteq> 0" using that(3) by (intro notI) (simp add: sv del: served.simps)
        then obtain i' where i': "i = Suc i'" using not0_implies_Suc by blast
        with that(1) have i: "i = Suc i'" "i' < ?n" by simp_all
        have "d \<le> served ds (r - d) ! i'" using ge i by simp
        then show ?thesis using that ih(2) [of i'] i by (cases j) (simp_all add: sv del: served.simps)
      qed
      then show ?thesis using ih(1) dr(2) by (simp add: sv del: served.simps)
    qed
  next
    case False
    have all: "\<forall>x \<in> set (d # ds). ?q < x" using False Cons.prems(1) by auto
    have r: "?q * length (d # ds) + r mod Suc ?n = r" by (simp del: mult_Suc_right)
    note flat = served_flat [OF all, of "r mod Suc ?n", unfolded r, simplified length_Cons]
    have "r mod Suc ?n < Suc ?n" by simp
    note flat = flat [OF this]
    then have "served (d # ds) r ! j \<le> Suc (served (d # ds) r ! i)"
      if "i < length (d # ds)" "j < length (d # ds)" for i j
    proof -
      have "served (d # ds) r ! i \<in> set (served (d # ds) r)" "served (d # ds) r ! j \<in> set (served (d # ds) r)"
        using that by (simp_all del: served.simps)
      then have "served (d # ds) r ! i \<in> {?q, Suc ?q}" "served (d # ds) r ! j \<in> {?q, Suc ?q}"
        using flat by blast+
      then show ?thesis by (auto simp del: served.simps)
    qed
    moreover have "sum_list (served (d # ds) r) = min r (sum_list (d # ds))"
      using flat sum_served_le [of "d # ds" r] by simp
    ultimately show ?thesis by blast
  qed
qed simp

section \<open>The split\<close>

lemma serve_served:
  "distinct is \<Longrightarrow> set is \<subseteq> {..<length gs} \<Longrightarrow> serve demands is gs r = (gs', r') \<Longrightarrow>
    length gs' = length gs \<and> (\<forall>i. i \<notin> set is \<longrightarrow> gs' ! i = gs ! i) \<and>
    map ((!) gs') is = served (map ((!) demands) is) r \<and>
    r' = r - sum_list (served (map ((!) demands) is) r)"
proof (induction "is" arbitrary: gs r)
  case (Cons i "is")
  define g where "g = min (demands ! i) (r div Suc (length is))"
  have sv: "serve demands is (gs[i := g]) (r - g) = (gs', r')" using Cons.prems(3) by (simp add: Let_def g_def)
  have ih: "length gs' = length gs" "\<forall>j. j \<notin> set is \<longrightarrow> gs' ! j = gs[i := g] ! j"
    "map ((!) gs') is = served (map ((!) demands) is) (r - g)"
    "r' = r - g - sum_list (served (map ((!) demands) is) (r - g))"
    using Cons.IH [OF _ _ sv] Cons.prems(1,2) by simp_all
  have "gs' ! i = g" using ih(2) Cons.prems(1,2) by simp
  moreover have "gs' ! j = gs ! j" if "j \<notin> set (i # is)" for j using that ih(2) by simp
  moreover have "served (map ((!) demands) (i # is)) r = g # served (map ((!) demands) is) (r - g)"
    by (simp add: Let_def g_def)
  ultimately show ?case using ih by simp
qed simp

lemma serve_order_props:
  "mset (serve_order demands) = mset [0..<length demands]" "distinct (serve_order demands)"
  "set (serve_order demands) = {..<length demands}" "sorted (map ((!) demands) (serve_order demands))"
proof -
  show m: "mset (serve_order demands) = mset [0..<length demands]" by (simp add: serve_order_def)
  show "distinct (serve_order demands)" by (simp add: serve_order_def)
  show "set (serve_order demands) = {..<length demands}" using mset_eq_setD [OF m] by (simp only: set_upt atLeast0LessThan)
  have "sorted (map (\<lambda>i. (demands ! i, i)) (serve_order demands))" unfolding serve_order_def by (rule sorted_sort_key)
  then show "sorted (map ((!) demands) (serve_order demands))"
    unfolding sorted_map by (rule sorted_wrt_mono_rel [rotated]) auto
qed


lemma sum_list_map_mset: "mset xs = mset ys \<Longrightarrow> sum_list (map f xs) = (sum_list (map f ys) :: nat)"
  by (metis mset_map sum_mset_sum_list)

lemma sum_list_by_order:
  assumes "mset is = mset [0..<length xs]"
  shows "sum_list (map ((!) xs) is) = (sum_list xs :: nat)"
  using sum_list_map_mset [OF assms, of "(!) xs"] by (simp add: map_nth)

text \<open>The leftover pass has nothing to do once everything is given or everyone is served.\<close>

lemma leftover_round_served:
  "\<forall>i \<in> set is. demands ! i \<le> grants ! i \<Longrightarrow> leftover_round demands is (grants, r, p) = (grants, r, p)"
  by (induction "is") auto

lemma leftover_idle: "r = 0 \<or> (\<forall>i \<in> set order. demands ! i \<le> grants ! i) \<Longrightarrow> leftover demands order grants r = grants"
  by (subst leftover.simps) (auto simp: leftover_round_served)

lemma sum_list_eq_pointwise:
  "length xs = length ys \<Longrightarrow> \<forall>i < length xs. xs ! i \<le> ys ! i \<Longrightarrow> sum_list xs = sum_list ys \<Longrightarrow> xs = (ys :: nat list)"
proof (induction xs ys rule: list_induct2)
  case (Cons x xs y ys)
  have le: "x \<le> y" "\<forall>i < length xs. xs ! i \<le> ys ! i" using Cons.prems(1) by fastforce+
  then have "sum_list xs \<le> sum_list ys" using Cons.hyps by (auto simp: sum_list_sum_nth intro: sum_mono)
  with Cons.prems(2) le(1) have "x = y" "sum_list xs = sum_list ys" by simp_all
  with Cons.IH le(2) show ?case by simp
qed simp

text \<open>The serving pass splits fairly, and the leftover pass changes nothing.\<close>

lemma serve_fair:
  assumes "demands \<noteq> []" "serve demands (serve_order demands) (replicate (length demands) 0) b = (g, r)"
  shows "max_min_fair demands b g" "leftover demands (serve_order demands) g r = g"
proof -
  let ?o = "serve_order demands" let ?ds = "map ((!) demands) ?o"
  note o = serve_order_props [of demands]
  have lo: "length ?o = length demands" using arg_cong [OF o(1), of size] by simp
  then have ne: "?ds \<noteq> []" using assms(1) by auto
  have s: "length g = length demands" "map ((!) g) ?o = served ?ds b" "r = b - sum_list (served ?ds b)"
    using serve_served [OF o(2) _ assms(2)] o(3) by simp_all
  have f: "sum_list (served ?ds b) = min b (sum_list ?ds)"
    "\<And>i j. i < length ?ds \<Longrightarrow> j < length ?ds \<Longrightarrow> served ?ds b ! i < ?ds ! i \<Longrightarrow> served ?ds b ! j \<le> Suc (served ?ds b ! i)"
    using served_fair [OF o(4), of b] ne lo by auto
  have sums: "sum_list g = sum_list (served ?ds b)" "sum_list ?ds = sum_list demands"
    using sum_list_by_order [of ?o g] sum_list_by_order [of ?o demands] o(1) s(1,2) by simp_all
  have at: "\<exists>k < length ?o. ?o ! k = i" if "i < length demands" for i
    using that o(3) by (metis in_set_conv_nth lessThan_iff)
  have gk: "g ! (?o ! k) = served ?ds b ! k" if "k < length ?o" for k
    using that arg_cong [OF s(2), of "\<lambda>xs. xs ! k"] by simp
  have le: "g ! i \<le> demands ! i" if "i < length demands" for i
    using at [OF that] gk served_le [of _ ?ds b] by auto
  have "g ! j \<le> Suc (g ! i)" if ij: "i < length demands" "j < length demands" "g ! i < demands ! i" for i j
  proof -
    obtain k l where "k < length ?o" "?o ! k = i" "l < length ?o" "?o ! l = j" using at ij by metis
    then show ?thesis using f(2) [of k l] gk [of k] gk [of l] ij(3) by auto
  qed
  then show "max_min_fair demands b g"
    using le s(1) sums f(1) by (simp add: max_min_fair_def)
  have "g = demands" if "r \<noteq> 0"
    using that le s(1,3) sums f(1) by (intro sum_list_eq_pointwise) auto
  then show "leftover demands ?o g r = g" by (intro leftover_idle) auto
qed

lemma fair_grants: "max_min_fair demands (nat budget) (fair_share demands budget)"
proof (cases "budget \<le> 0 \<or> demands = []")
  case True
  then show ?thesis by (auto simp: fair_share_def max_min_fair_def sum_list_replicate)
next
  case False
  obtain g r where gr: "serve demands (serve_order demands) (replicate (length demands) 0) (nat budget) = (g, r)"
    by fastforce
  with False show ?thesis using serve_fair [OF _ gr] by (simp add: fair_share_def)
qed

text \<open>C40. The budget of pinned edges is split max-min fairly between the rules: no rule gets more than it
  asked for, the grants add up to the whole budget or to every demand, and a rule that is cut is within
  one unit of the rule that got most. A budget that is not positive gives nothing to anyone.\<close>

lemma fair_share_max_min: "max_min_fair demands (nat budget) (fair_share demands budget)"
  by (rule fair_grants)

lemma fair_share_examples: "fair_share [507, 3, 40, 12] 200 = [145, 3, 40, 12]" "fair_share [9, 1, 9, 9] 2 = [0, 0, 1, 1]"
  by code_simp+

end
