(* ===== verification/PinEdges.thy ===== *)
theory PinEdges
  imports MapEdges FairShare LlmParse Ner
begin

text \<open>
  The edges a policy pins, pipeline/stage4_stix_mapping.py: the evidence gate over the sentences of the
  report (\<open>_pattern_strings\<close>, \<open>_evidence_terms\<close>, \<open>_build_sentence_index\<close>, \<open>_pair_is_grounded\<close>) and the three
  passes of \<open>_materialise_pinned_edges\<close>: collect the candidates of each rule, split the budget, emit.
  A policy's values are JSON. The sentence pattern has a look-behind, which RE2 refuses: its white space is
  Python's; the number pattern's is RE2's.
\<close>

section \<open>The gate\<close>

definition UNANCHORABLE_TYPES :: "string list" where
  "UNANCHORABLE_TYPES = [''attack-pattern'', ''course-of-action'']"

definition SENTENCE_SPLIT :: rx where
  "SENTENCE_SPLIT = Alt (Seq (Test (before_is (\<lambda>c. c \<in> set ''.!?''))) (plus1 (Cls is_space)))
     (Rep (Cls (\<lambda>c. c = CHR 0x0A)) 2 None)"

definition PATTERN_NUM :: rx where
  "PATTERN_NUM = seqs [lit ''='', star (Cls re2_space), plus1 (Cls is_digit), star (Cls re2_space), lit '']'']"

definition single_quote :: char where "single_quote = CHR 0x27"

text \<open>From after an opening quote: the literal, what follows it or the place the scan stopped, whether it
  closed.\<close>

fun read_literal :: "string \<Rightarrow> string \<times> string \<times> bool" where
  "read_literal [] = ([], [], False)"
| "read_literal (c # cs) =
    (if c = single_quote then ([], cs, True)
     else if c = escape_char then
       (case cs of [] \<Rightarrow> ([], c # cs, False)
        | d # ds \<Rightarrow> if d = CHR 0x0A then ([], c # cs, False)
            else (case read_literal ds of (l, r, ok) \<Rightarrow> (c # d # l, r, ok)))
     else (case read_literal cs of (l, r, ok) \<Rightarrow> (c # l, r, ok)))"

lemma read_literal_length: "read_literal s = (l, r, ok) \<Longrightarrow> length r \<le> length s"
proof (induction s arbitrary: l r ok rule: read_literal.induct)
  case (2 c cs)
  show ?case
  proof (cases "c = single_quote")
    case True
    then show ?thesis using 2(3) by simp
  next
    case q: False
    show ?thesis
    proof (cases "c = escape_char")
      case True
      show ?thesis
      proof (cases cs)
        case Nil
        then show ?thesis using 2(3) q True by simp
      next
        case (Cons d ds)
        obtain l1 r1 ok1 where ds: "read_literal ds = (l1, r1, ok1)" by (metis prod.exhaust)
        then have "d \<noteq> CHR 0x0A \<Longrightarrow> length r1 \<le> length ds" using 2(1) [OF q True Cons] by blast
        then show ?thesis using 2(3) q True Cons ds by (auto split: if_splits)
      qed
    next
      case False
      obtain l1 r1 ok1 where cs: "read_literal cs = (l1, r1, ok1)" by (metis prod.exhaust)
      then have "length r1 \<le> length cs" using 2(2) [OF q False] by blast
      then show ?thesis using 2(3) q False cs by auto
    qed
  qed
qed simp

lemma dropWhile_tail_length: "dropWhile P s = q # t \<Longrightarrow> length t < length s"
  using length_dropWhile_le [of P s] by simp

function pattern_strings :: "string \<Rightarrow> string list" where
  "pattern_strings s = (case dropWhile (\<lambda>c. c \<noteq> single_quote) s of [] \<Rightarrow> []
     | _ # t \<Rightarrow> (case read_literal t of (l, r, ok) \<Rightarrow> if ok then l # pattern_strings r else pattern_strings r))"
  by pat_completeness auto
termination
  by (relation "measure length") (auto dest!: read_literal_length [OF sym] dropWhile_tail_length)

declare pattern_strings.simps [simp del]

definition pattern_numbers :: "string \<Rightarrow> string list" where
  "pattern_numbers s = map (\<lambda>(b, e). filter is_digit (slice s b e)) (finditer PATTERN_NUM s)"

definition unescape :: "string \<Rightarrow> string" where
  "unescape t = rx_sub (lit [escape_char, escape_char]) (\<lambda>_ _ _. [escape_char])
     (rx_sub (lit [escape_char, single_quote]) (\<lambda>_ _ _. [single_quote]) t)"

definition long_terms :: "string list \<Rightarrow> string list" where
  "long_terms ts = first_by id {} (filter (\<lambda>t. 3 \<le> length t) (map strip ts))"

definition evidence_terms :: "map_obj \<Rightarrow> string list" where
  "evidence_terms x =
    (if mo_type x = [] \<or> mo_type x \<in> set UNANCHORABLE_TYPES then []
     else if mo_type x = ''indicator'' then
       (case mo_pattern x of None \<Rightarrow> []
        | Some p \<Rightarrow> long_terms (map unescape (pattern_strings p @ pattern_numbers p)))
     else long_terms ((case mo_name x of None \<Rightarrow> [] | Some n \<Rightarrow> [n]) @ (case mo_value x of None \<Rightarrow> [] | Some v \<Rightarrow> [v]) @
       mo_aliases x @ mo_hashes x))"

fun split_pieces :: "string \<Rightarrow> nat \<Rightarrow> (nat \<times> nat) list \<Rightarrow> string list" where
  "split_pieces s pos [] = [drop pos s]"
| "split_pieces s pos ((b, e) # ms) = slice s pos b # split_pieces s e ms"

definition split_evidence_sentences :: "string \<Rightarrow> string list" where
  "split_evidence_sentences text =
    (if text = [] then [] else filter (\<lambda>p. p \<noteq> []) (map strip (split_pieces text 0 (finditer SENTENCE_SPLIT text))))"

definition occurs_in :: "string \<Rightarrow> string \<Rightarrow> bool" where
  "occurs_in t s \<longleftrightarrow> list_ex (\<lambda>i. starts_with (drop i s) t) [0..<Suc (length s)]"

text \<open>An object's id to the sentences one of its terms is in, in ascending order.\<close>

type_synonym sentence_index = "(string, nat list) dict"

definition sentence_hits :: "string list \<Rightarrow> map_obj \<Rightarrow> nat list" where
  "sentence_hits lowered x = filter (\<lambda>i. list_ex (\<lambda>t. occurs_in (lower t) (lowered ! i)) (evidence_terms x)) [0..<length lowered]"

definition build_sentence_index :: "map_obj list \<Rightarrow> string list \<Rightarrow> sentence_index" where
  "build_sentence_index objs sentences = fold (\<lambda>x idx. let hits = sentence_hits (map lower sentences) x in
     if hits = [] then idx else dset (mo_id x) hits idx) objs []"

text \<open>The two pointers.\<close>

definition apart :: "nat \<Rightarrow> nat \<Rightarrow> nat" where
  "apart a b = (if a < b then b - a else a - b)"

definition min_opt :: "nat option \<Rightarrow> nat \<Rightarrow> nat option" where
  "min_opt m d = (case m of None \<Rightarrow> Some d | Some k \<Rightarrow> if d < k then Some d else Some k)"

fun min_distance :: "nat list \<Rightarrow> nat list \<Rightarrow> nat option \<Rightarrow> nat option" where
  "min_distance (a # as) (b # bs) m =
    (if a < b then min_distance as (b # bs) (min_opt m (apart a b)) else min_distance (a # as) bs (min_opt m (apart a b)))"
| "min_distance _ _ m = m"

definition pair_is_grounded :: "map_obj \<Rightarrow> map_obj \<Rightarrow> sentence_index \<Rightarrow> nat \<Rightarrow> bool \<times> string" where
  "pair_is_grounded s t idx win =
    (if mo_type s \<in> set UNANCHORABLE_TYPES \<or> mo_type t \<in> set UNANCHORABLE_TYPES \<or> idx = [] then (True, ''unanchorable'')
     else case (map_of idx (mo_id s), map_of idx (mo_id t)) of
       (Some a, Some b) \<Rightarrow>
         if set a \<inter> set b \<noteq> {} then (True, ''cosentence'')
         else (case min_distance (sort a) (sort b) None of
            Some d \<Rightarrow> if d \<le> win then (True, ''window:'' @ show_nat d) else (False, [])
          | None \<Rightarrow> (False, []))
     | _ \<Rightarrow> (True, ''unanchorable''))"

section \<open>Accounting\<close>

record pin_rule_stat =
  pn_rule :: string
  pn_candidates :: nat
  pn_emitted :: nat
  pn_truncated :: nat
  pn_blocked :: nat

record pin_stats =
  pn_budget :: int
  pn_mode :: string
  pn_rules :: "pin_rule_stat list"
  pn_refused :: "(triple \<times> string \<times> string) list"

definition no_pins :: pin_stats where
  "no_pins = \<lparr>pn_budget = 0, pn_mode = ''fair-share'', pn_rules = [], pn_refused = []\<rparr>"

definition total_candidates :: "pin_stats \<Rightarrow> nat" where "total_candidates p = sum_list (map pn_candidates (pn_rules p))"
definition total_emitted :: "pin_stats \<Rightarrow> nat" where "total_emitted p = sum_list (map pn_emitted (pn_rules p))"
definition total_truncated :: "pin_stats \<Rightarrow> nat" where "total_truncated p = sum_list (map pn_truncated (pn_rules p))"
definition total_blocked :: "pin_stats \<Rightarrow> nat" where "total_blocked p = sum_list (map pn_blocked (pn_rules p))"

text \<open>\<open>to_dict\<close>: the rules that matched or were gated, the largest first.\<close>

definition shown_rules :: "pin_stats \<Rightarrow> pin_rule_stat list" where
  "shown_rules p = sort_key (\<lambda>r. (- int (pn_candidates r + pn_blocked r), pn_rule r))
     (filter (\<lambda>r. 0 < pn_candidates r \<or> 0 < pn_blocked r) (pn_rules p))"

section \<open>The policy\<close>

record pin_policy = policy +
  pp_max :: "json option"
  pp_mode :: "json option"
  pp_evidence :: "json option"

text \<open>\<open>int(s)\<close> of a string, \<open>int(x)\<close> of a JSON value; \<open>None\<close> where it raises.\<close>

definition int_digits :: "string \<Rightarrow> nat option" where
  "int_digits s = (if s \<noteq> [] \<and> list_all (\<lambda>c. is_digit c \<or> c = CHR ''_'') s \<and> list_all (\<lambda>p. p \<noteq> []) (split_on (CHR ''_'') s)
     then Some (decimal (filter is_digit s)) else None)"

definition int_of_str :: "string \<Rightarrow> int option" where
  "int_of_str s0 = (let s = strip s0 in case s of
     [] \<Rightarrow> None
   | c # cs \<Rightarrow> if c = CHR ''-'' then map_option (\<lambda>n. - int n) (int_digits cs)
       else if c = CHR ''+'' then map_option int (int_digits cs) else map_option int (int_digits s))"

fun int_of_json :: "json \<Rightarrow> int option" where
  "int_of_json (JBool b) = Some (if b then 1 else 0)"
| "int_of_json (JNum q) = Some (if 0 \<le> q then \<lfloor>q\<rfloor> else \<lceil>q\<rceil>)"
| "int_of_json (JStr s) = int_of_str s"
| "int_of_json _ = None"

definition natural_setting :: "json option \<Rightarrow> int \<Rightarrow> int" where
  "natural_setting j d = max 0 (case j of None \<Rightarrow> d | Some v \<Rightarrow> (case int_of_json v of None \<Rightarrow> d | Some n \<Rightarrow> n))"

definition choice_setting :: "json option \<Rightarrow> string list \<Rightarrow> string" where
  "choice_setting j xs = (case j of Some (JStr s) \<Rightarrow> if s \<in> set xs then s else hd xs | _ \<Rightarrow> hd xs)"

definition pin_budget :: "pin_policy \<Rightarrow> int" where "pin_budget P = natural_setting (pp_max P) 200"
definition pin_mode :: "pin_policy \<Rightarrow> string" where "pin_mode P = choice_setting (pp_mode P) [''fair-share'', ''sequential'']"

definition evidence_block :: "pin_policy \<Rightarrow> (string \<times> json) list" where
  "evidence_block P = (case pp_evidence P of Some (JObj ob) \<Rightarrow> ob | _ \<Rightarrow> [])"

definition evidence_mode :: "pin_policy \<Rightarrow> string" where
  "evidence_mode P = choice_setting (map_of (evidence_block P) ''mode'') [''cooccurrence'', ''cartesian'']"

definition evidence_window :: "pin_policy \<Rightarrow> nat" where
  "evidence_window P = nat (natural_setting (map_of (evidence_block P) ''window'') 3)"

section \<open>Collecting\<close>

text \<open>What the first pass reads: the objects, the sentence index when the gate is on, the map to Indicators
  when there is one, the forbidden triples and the keys already in the bundle.\<close>

record pin_context =
  pc_objs :: "map_obj list"
  pc_gate :: "(sentence_index \<times> nat) option"
  pc_indicator :: "indicators option"
  pc_forbidden :: forbidden
  pc_seen :: "triple set"

type_synonym pin_candidate = "map_obj \<times> string \<times> map_obj \<times> string"

record pin_scan =
  ps_claimed :: "triple set"
  ps_refused :: "(triple \<times> string \<times> string) list"
  ps_candidates :: "pin_candidate list"
  ps_blocked :: nat

definition judge_pair :: "pin_context \<Rightarrow> string \<Rightarrow> string \<Rightarrow> map_obj \<Rightarrow> map_obj \<Rightarrow> pin_scan \<Rightarrow> pin_scan" where
  "judge_pair C label verb s t sc = (case pin_edge_key s verb t of None \<Rightarrow> sc
    | Some key \<Rightarrow> if key \<in> pc_seen C \<or> key \<in> ps_claimed sc then sc
      else let (ok, anchor) = (case pc_gate C of None \<Rightarrow> (True, ''unchecked'') | Some (idx, w) \<Rightarrow> pair_is_grounded s t idx w) in
        if \<not> ok then sc\<lparr>ps_blocked := Suc (ps_blocked sc)\<rparr>
        else (case map_of (pc_forbidden C) key of
            Some reason \<Rightarrow> sc\<lparr>ps_refused := ps_refused sc @ [(key, label, reason)]\<rparr>
          | None \<Rightarrow> sc\<lparr>ps_claimed := insert key (ps_claimed sc), ps_candidates := ps_candidates sc @ [(s, verb, t, anchor)]\<rparr>))"

text \<open>
  The inner loop. It assigns the routed pair to the variables of both loops: the source of the next target
  is the one this target left, an Indicator, or nothing.
\<close>

definition pin_target :: "pin_context \<Rightarrow> string \<Rightarrow> string \<Rightarrow> map_obj \<Rightarrow> map_obj option \<times> pin_scan \<Rightarrow> map_obj option \<times> pin_scan" where
  "pin_target C label verb t0 = (\<lambda>(s0, sc).
    let (s, t) = (case pc_indicator C of None \<Rightarrow> (s0, Some t0) | Some ind \<Rightarrow> route_observables ind s0 verb (Some t0)) in
    (s, case (s, t) of (Some x, Some y) \<Rightarrow> judge_pair C label verb x y sc | _ \<Rightarrow> sc))"

definition objects_of :: "map_obj list \<Rightarrow> string \<Rightarrow> map_obj list" where
  "objects_of objs t = (if t \<in> {''relationship'', ''report''} then [] else filter (\<lambda>x. mo_type x = t) objs)"

definition pin_source :: "pin_context \<Rightarrow> string \<Rightarrow> string \<Rightarrow> string \<Rightarrow> map_obj \<Rightarrow> pin_scan \<Rightarrow> pin_scan" where
  "pin_source C label verb tgt_type s sc =
    snd (fold (pin_target C label verb) (objects_of (pc_objs C) tgt_type) (Some s, sc))"

text \<open>The rules that pin: label, verb and the two types.\<close>

definition pin_rule :: "policy_rule option \<Rightarrow> (string \<times> string \<times> string \<times> string) option" where
  "pin_rule r = (case r of None \<Rightarrow> None
    | Some rule \<Rightarrow> let verb = lower (strip (or_default (pr_verb rule) [])) in
      if pr_mode rule = ''pin'' \<and> pr_enabled rule \<and> verb \<in> set STIX_RELATIONSHIP_TYPES
      then Some (pr_src rule @ '' '' @ verb @ '' '' @ pr_tgt rule, verb, pr_src rule, pr_tgt rule) else None)"

record pin_plan =
  pl_label :: string
  pl_candidates :: "pin_candidate list"
  pl_blocked :: nat

definition collect_rule :: "pin_context \<Rightarrow> string \<times> string \<times> string \<times> string \<Rightarrow>
    pin_plan list \<times> triple set \<times> (triple \<times> string \<times> string) list \<Rightarrow>
    pin_plan list \<times> triple set \<times> (triple \<times> string \<times> string) list" where
  "collect_rule C = (\<lambda>(label, verb, src_type, tgt_type) (plans, claimed, refused).
    let sc = fold (pin_source C label verb tgt_type) (objects_of (pc_objs C) src_type)
          \<lparr>ps_claimed = claimed, ps_refused = refused, ps_candidates = [], ps_blocked = 0\<rparr> in
    (plans @ [\<lparr>pl_label = label, pl_candidates = ps_candidates sc, pl_blocked = ps_blocked sc\<rparr>],
     ps_claimed sc, ps_refused sc))"

definition collect_pins :: "pin_context \<Rightarrow> policy_rule option list \<Rightarrow>
    pin_plan list \<times> triple set \<times> (triple \<times> string \<times> string) list" where
  "collect_pins C rules = fold (collect_rule C) (List.map_filter pin_rule rules) ([], {}, [])"

section \<open>Allocating and emitting\<close>

fun sequential_grants :: "nat list \<Rightarrow> nat \<Rightarrow> nat list" where
  "sequential_grants [] b = []"
| "sequential_grants (d # ds) b = (let g = min d b in g # sequential_grants ds (b - g))"

definition pin_grants :: "string \<Rightarrow> nat list \<Rightarrow> int \<Rightarrow> nat list" where
  "pin_grants mode demands budget =
    (if mode = ''sequential'' then sequential_grants demands (nat budget) else fair_share demands budget)"

definition pin_props :: "string \<Rightarrow> string \<Rightarrow> sro \<Rightarrow> sro" where
  "pin_props label anchor r = r\<lparr>sr_label := Some ''assessed'', sr_policy_rule := Some label, sr_pin_evidence := Some anchor\<rparr>"

definition emit_pin :: "new_rel \<Rightarrow> string \<Rightarrow> pin_candidate \<Rightarrow> map_obj list \<times> triple set \<times> nat \<Rightarrow> map_obj list \<times> triple set \<times> nat" where
  "emit_pin new_rel label = (\<lambda>(s, verb, t, anchor) (objs, seen, built).
    case add_relationship new_rel s verb t None [] (pin_props label anchor) (objs, seen) of
      (_, objs', seen') \<Rightarrow> (objs', seen', if length objs < length objs' then Suc built else built))"

definition emit_plan :: "new_rel \<Rightarrow> pin_plan \<times> nat \<Rightarrow> map_obj list \<times> triple set \<times> pin_rule_stat list \<Rightarrow>
    map_obj list \<times> triple set \<times> pin_rule_stat list" where
  "emit_plan new_rel = (\<lambda>(plan, grant) (objs, seen, stats).
    case fold (emit_pin new_rel (pl_label plan)) (take grant (pl_candidates plan)) (objs, seen, 0) of
      (objs', seen', built) \<Rightarrow> (objs', seen', stats @ [\<lparr>pn_rule = pl_label plan, pn_candidates = length (pl_candidates plan),
        pn_emitted = built, pn_truncated = length (pl_candidates plan) - built, pn_blocked = pl_blocked plan\<rparr>]))"

definition pin_gate :: "pin_policy \<Rightarrow> map_obj list \<Rightarrow> string \<Rightarrow> (sentence_index \<times> nat) option" where
  "pin_gate P objs report_text =
    (let sentences = (if evidence_mode P = ''cooccurrence'' then split_evidence_sentences report_text else []) in
     if sentences = [] then None else Some (build_sentence_index objs sentences, evidence_window P))"

definition materialise_pinned_edges :: "new_rel \<Rightarrow> map_obj list \<Rightarrow> pin_policy option \<Rightarrow> triple set \<Rightarrow> string \<Rightarrow>
    indicators option \<Rightarrow> forbidden \<Rightarrow> map_obj list \<times> triple set \<times> pin_stats" where
  "materialise_pinned_edges new_rel objs pol seen report_text ind fb = (case pol of None \<Rightarrow> (objs, seen, no_pins)
    | Some P \<Rightarrow> if pol_global P = ''auto'' then (objs, seen, no_pins)
      else let C = \<lparr>pc_objs = objs, pc_gate = pin_gate P objs report_text, pc_indicator = ind, pc_forbidden = fb, pc_seen = seen\<rparr>;
        (plans, claimed, refused) = collect_pins C (pol_rules P);
        grants = pin_grants (pin_mode P) (map (length \<circ> pl_candidates) plans) (pin_budget P);
        (objs', seen', stats) = fold (emit_plan new_rel) (zip plans grants) (objs, seen, []) in
      (objs', seen', \<lparr>pn_budget = pin_budget P, pn_mode = pin_mode P, pn_rules = stats, pn_refused = refused\<rparr>))"

end
