(* ===== verification/MapRowsSound.thy ===== *)
theory MapRowsSound
  imports MapRows CompletionSound
begin

text \<open>
  What a relationship row may become: a valid, allowed edge between two objects, an observable only where
  STIX lists the pair; the verb predicted by type alone is the one that ships; and the triples a refusal
  forbids are exactly those its row would have shipped, in both directions when the verb has none.
\<close>

section \<open>Shipped edges\<close>

lemma related_to_allowed: "rel_is_allowed s ''related-to'' t"
proof -
  have "rel_is_suggested s ''related-to'' t" by (simp add: rel_is_suggested_def UNIVERSAL_ANY_def) code_simp
  then show ?thesis by (simp add: rel_is_allowed_def)
qed

lemma listed_allowed: "rel_is_listed s v t \<Longrightarrow> rel_is_allowed s v t"
  using rel_is_allowed_iff [of s v t] rel_is_listed_iff [of s v t] by blast

lemma related_to_valid: "''related-to'' \<in> set STIX_RELATIONSHIP_TYPES"
  by code_simp

lemma valid_verb_in: "valid_verb v \<in> set STIX_RELATIONSHIP_TYPES"
  using related_to_valid by (simp add: valid_verb_def)

lemma apply_policy_in: "apply_policy v s t p \<in> set STIX_RELATIONSHIP_TYPES"
  by (simp add: apply_policy_def valid_verb_in)

lemma apply_policy_Nil: "apply_policy v s t [] = valid_verb v"
  by (simp add: apply_policy_def apply_pin_def)

text \<open>An edge Stage 4 may ship, with Indicators for the observables.\<close>

definition shippable :: "map_obj \<Rightarrow> string \<Rightarrow> map_obj \<Rightarrow> bool" where
  "shippable s v t \<longleftrightarrow> mo_id s \<noteq> mo_id t \<and> v \<in> set STIX_RELATIONSHIP_TYPES \<and> rel_is_allowed (mo_type s) v (mo_type t) \<and>
     (observable (mo_type s) \<noteq> observable (mo_type t) \<longrightarrow> rel_is_listed (mo_type s) v (mo_type t))"

definition indicators_ok :: "indicators \<Rightarrow> bool" where
  "indicators_ok ind \<longleftrightarrow> (\<forall>i \<in> ran ind. mo_type i = ''indicator'')"

lemma indicator_not_observable: "\<not> observable ''indicator''"
  by (simp add: observable_def) code_simp

lemma route_observables_result:
  assumes "indicators_ok ind" "route_observables ind (Some s) v (Some t) = (Some s', Some t')"
  shows "(s' = s \<and> t' = t \<and> (observable (mo_type s) \<noteq> observable (mo_type t) \<longrightarrow> rel_is_listed (mo_type s) v (mo_type t))) \<or>
    observable (mo_type s') = observable (mo_type t')"
proof -
  have i: "ind x = Some i \<Longrightarrow> \<not> observable (mo_type i)" for x i
    using assms(1) indicator_not_observable by (auto simp: indicators_ok_def ran_def)
  from assms(2) show ?thesis
    by (auto simp: route_observables_def type_of_def dest!: i split: if_splits option.splits)
qed

lemma land_row_ships: "land_row p s v t ch = Ships s' v' t' ch' \<Longrightarrow> v \<in> set STIX_RELATIONSHIP_TYPES \<Longrightarrow>
    s' = s \<and> t' = t \<and> v' = allowed_verb (mo_type s) (apply_policy v (mo_type s) (mo_type t) p) (mo_type t)"
  by (auto simp: land_row_def Let_def allowed_verb_def apply_policy_Nil valid_verb_def split: if_splits)

lemma allowed_verb_ok: "v \<in> set STIX_RELATIONSHIP_TYPES \<Longrightarrow>
    allowed_verb s v t \<in> set STIX_RELATIONSHIP_TYPES \<and> rel_is_allowed s (allowed_verb s v t) t"
  by (simp add: allowed_verb_def related_to_valid related_to_allowed)

lemma allowed_verb_listed: "rel_is_listed s v t \<Longrightarrow> allowed_verb s v t = v"
  by (simp add: allowed_verb_def listed_allowed)

lemma route_row_shippable:
  assumes "indicators_ok (rc_indicator C)" "v \<in> set STIX_RELATIONSHIP_TYPES" "route_row C s v t ch = Ships s' v' t' ch'"
  shows "shippable s' v' t'"
proof -
  let ?p = "apply_policy v (mo_type s) (mo_type t) (rc_policy C)"
  obtain a b ch0 where r: "route_observables (rc_indicator C) (Some s) ?p (Some t) = (Some a, Some b)"
    "mo_id a \<noteq> mo_id b" "land_row (rc_policy C) a v b ch0 = Ships s' v' t' ch'"
    using assms(3) by (auto simp: route_row_def split: option.splits prod.splits if_splits)
  have l: "s' = a" "t' = b" "v' = allowed_verb (mo_type a) (apply_policy v (mo_type a) (mo_type b) (rc_policy C)) (mo_type b)"
    using land_row_ships [OF r(3) assms(2)] by simp_all
  have "observable (mo_type a) \<noteq> observable (mo_type b) \<longrightarrow> rel_is_listed (mo_type a) v' (mo_type b)"
    using route_observables_result [OF assms(1) r(1)] allowed_verb_listed [of "mo_type s" ?p "mo_type t"] l(3) by auto
  then show ?thesis using r(2) l allowed_verb_ok apply_policy_in by (simp add: shippable_def)
qed

lemma resolve_pair_shippable:
  assumes "indicators_ok (rc_indicator C)" "resolve_pair C s v t = Ships s' v' t' ch"
  shows "shippable s' v' t'"
proof -
  obtain a b c where "route_row C a (valid_verb (lower (strip v))) b c = Ships s' v' t' ch"
    using assms(2) unfolding resolve_pair_def Let_def by (simp split: if_splits)
  then show ?thesis using route_row_shippable [OF assms(1) valid_verb_in] by blast
qed

lemma resolve_row_shippable:
  assumes "indicators_ok (rc_indicator C)" "resolve_row C b row = Ships s v t ch"
  shows "shippable s v t"
  using assms resolve_pair_shippable [OF assms(1)]
  by (auto simp: resolve_row_def Let_def split: prod.splits if_splits option.splits)

section \<open>The verb that ships\<close>

definition shipped_verb :: "row_edge \<Rightarrow> string option" where
  "shipped_verb e = (case e of Ships _ v _ _ \<Rightarrow> Some v | NotShipped _ _ \<Rightarrow> None)"

text \<open>Every observable end has an Indicator, apart from the two ends.\<close>

definition has_indicators :: "row_context \<Rightarrow> map_obj \<Rightarrow> map_obj \<Rightarrow> bool" where
  "has_indicators C s t \<longleftrightarrow> (\<forall>x \<in> {s, t}. observable (mo_type x) \<longrightarrow>
     (\<exists>i. rc_indicator C (mo_id x) = Some i \<and> mo_type i = ''indicator'' \<and> mo_id i \<noteq> mo_id s \<and> mo_id i \<noteq> mo_id t))"

lemma land_row_verb: "v \<in> set STIX_RELATIONSHIP_TYPES \<Longrightarrow>
    shipped_verb (land_row [] s v t ch) = Some (allowed_verb (mo_type s) v (mo_type t))"
  by (simp add: land_row_def Let_def shipped_verb_def allowed_verb_def)

lemma route_row_verb:
  assumes "rc_policy C = []" "v \<in> set STIX_RELATIONSHIP_TYPES" "mo_id s \<noteq> mo_id t" "has_indicators C s t"
  shows "shipped_verb (route_row C s v t ch) = Some
    (if observable (mo_type s) = observable (mo_type t) \<or> rel_is_listed (mo_type s) v (mo_type t)
       then allowed_verb (mo_type s) v (mo_type t)
     else if observable (mo_type s) then allowed_verb ''indicator'' v (mo_type t)
     else allowed_verb (mo_type s) v ''indicator'')"
proof -
  have p: "apply_policy v (mo_type s) (mo_type t) [] = v" using assms(2) by (simp add: apply_policy_Nil valid_verb_def)
  show ?thesis
  proof (cases "observable (mo_type s) = observable (mo_type t) \<or> rel_is_listed (mo_type s) v (mo_type t)")
    case True
    then have "route_observables (rc_indicator C) (Some s) v (Some t) = (Some s, Some t)"
      by (auto simp: route_observables_def type_of_def)
    then show ?thesis using True assms(1-3) p by (simp add: route_row_def land_row_verb)
  next
    case False
    then consider "observable (mo_type s)" "\<not> observable (mo_type t)" | "\<not> observable (mo_type s)" "observable (mo_type t)" by blast
    then show ?thesis
    proof cases
      case 1
      then obtain i where "rc_indicator C (mo_id s) = Some i" "mo_type i = ''indicator''" "mo_id i \<noteq> mo_id t"
        using assms(4) by (auto simp: has_indicators_def)
      then show ?thesis using False 1 assms(1,2) p by (simp add: route_row_def route_observables_def type_of_def land_row_verb)
    next
      case 2
      then obtain i where "rc_indicator C (mo_id t) = Some i" "mo_type i = ''indicator''" "mo_id s \<noteq> mo_id i"
        using assms(4) unfolding has_indicators_def by (metis insertCI)
      then show ?thesis using False 2 assms(1,2) p by (simp add: route_row_def route_observables_def type_of_def land_row_verb)
    qed
  qed
qed

lemma shipped_iff:
  assumes "a \<noteq> []" "b \<noteq> []" "w \<noteq> []" "lower w = w"
  shows "allowed_verb a (valid_verb w) b = w \<longleftrightarrow> rel_is_allowed a w b"
    "rel_is_listed a (valid_verb w) b = rel_is_listed a w b"
proof -
  have no: "\<not> rel_is_listed a ''related-to'' b"
  proof
    assume "rel_is_listed a ''related-to'' b"
    moreover have "lower ''related-to'' = ''related-to''" by code_simp
    ultimately have "listed_in SUGGESTED a ''related-to'' b \<or> listed_in PROJECT_EXTENSIONS a ''related-to'' b"
      by (simp only: rel_is_listed_iff)
    then have "''related-to'' \<in> set (table_verbs SUGGESTED @ table_verbs PROJECT_EXTENSIONS)"
      by (auto simp: listed_in_def dest: table_targets_verb)
    moreover have "''related-to'' \<in> set (UNIVERSAL_ANY @ UNIVERSAL_SAME_TYPE)" by (simp add: UNIVERSAL_ANY_def)
    ultimately show False using universal_verbs_not_in_tables by blast
  qed
  have valid: "rel_is_allowed a w b \<Longrightarrow> w \<in> set STIX_RELATIONSHIP_TYPES"
    using rel_is_allowed_iff [of a w b] assms by simp
  show "allowed_verb a (valid_verb w) b = w \<longleftrightarrow> rel_is_allowed a w b"
    using valid related_to_allowed [of a b] related_to_valid by (auto simp: valid_verb_def allowed_verb_def)
  show "rel_is_listed a (valid_verb w) b = rel_is_listed a w b"
    using valid no listed_allowed [of a w b] by (auto simp: valid_verb_def)
qed

lemma attack_pattern_facts:
  "\<not> observable ATTACK_PATTERN" "valid_verb ''indicates'' = ''indicates''" "lower ''indicates'' = ''indicates''"
  "allowed_verb ''indicator'' ''indicates'' ATTACK_PATTERN = ''indicates''"
  by code_simp+

lemma observable_indicates:
  assumes "rc_policy C = []" "mo_id s \<noteq> mo_id t" "has_indicators C s t" "observable (mo_type s)" "mo_type t = ATTACK_PATTERN"
  shows "shipped_verb (route_row C s ''indicates'' t ch) = Some ''indicates''"
proof -
  have v: "''indicates'' \<in> set STIX_RELATIONSHIP_TYPES" using valid_verb_in [of "''indicates''"] attack_pattern_facts(2) by simp
  show ?thesis
    using route_row_verb [OF assms(1) v assms(2,3), of ch] assms(4,5) attack_pattern_facts allowed_verb_listed by auto
qed

text \<open>C38. \<open>verb_ships_as_written\<close>, the rule by type alone that the interface shares, predicts the resolution of
  a row exactly: without a policy, and with an Indicator for each observable end, a verb ships as it was
  written when the rule says so and otherwise is rewritten or the row is dropped.\<close>

lemma verb_ships_exact:
  assumes "rc_policy C = []" "mo_type s \<noteq> []" "mo_type t \<noteq> []" "strip verb \<noteq> []" "mo_id s \<noteq> mo_id t" "has_indicators C s t"
  shows "verb_ships_as_written (mo_type s) verb (mo_type t) \<longleftrightarrow>
    shipped_verb (resolve_pair C s verb t) = Some (lower (strip verb))"
proof -
  define w where "w = lower (strip verb)"
  have w: "w \<noteq> []" "lower w = w" using assms(4) by (simp_all add: w_def)
  have ind: "''indicator'' \<noteq> []" by simp
  have swap: "has_indicators C t s" using assms(6) by (auto simp: has_indicators_def)
  show ?thesis
  proof (cases "is_spurious_observable_ttp_edge s t")
    case True
    have rule: "verb_ships_as_written (mo_type s) verb (mo_type t) \<longleftrightarrow> w = ''indicates''"
      using True attack_pattern_facts(1) by (auto simp: verb_ships_as_written_def Let_def w_def is_spurious_observable_ttp_edge_def)
    show ?thesis
    proof (cases "w = ''indicates''")
      case False
      then have "resolve_pair C s verb t = NotShipped ''observable_to_attack_pattern'' (ref_info s t)"
        using True assms(5) by (simp add: resolve_pair_def Let_def w_def [symmetric])
      then show ?thesis using rule False by (simp add: shipped_verb_def)
    next
      case ind: True
      have "shipped_verb (resolve_pair C s verb t) = Some ''indicates''"
      proof (cases "mo_type s = ATTACK_PATTERN")
        case True
        then have "observable (mo_type t)"
          using \<open>is_spurious_observable_ttp_edge s t\<close> attack_pattern_facts(1) by (auto simp: is_spurious_observable_ttp_edge_def)
        then show ?thesis
          using \<open>is_spurious_observable_ttp_edge s t\<close> True ind assms(1,5) attack_pattern_facts(2)
            observable_indicates [OF assms(1) _ swap, of "[direction_change (mo_id s) (mo_id t)]"]
          by (simp add: resolve_pair_def Let_def w_def [symmetric])
      next
        case False
        then have "observable (mo_type s)" "mo_type t = ATTACK_PATTERN"
          using \<open>is_spurious_observable_ttp_edge s t\<close> attack_pattern_facts(1) by (auto simp: is_spurious_observable_ttp_edge_def)
        then show ?thesis
          using \<open>is_spurious_observable_ttp_edge s t\<close> False ind assms(1,5) attack_pattern_facts(2)
            observable_indicates [OF assms(1,5,6), of "[]"]
          by (simp add: resolve_pair_def Let_def w_def [symmetric])
      qed
      then show ?thesis using rule ind by (simp add: w_def)
    qed
  next
    case False
    have "verb_ships_as_written (mo_type s) verb (mo_type t) \<longleftrightarrow>
      (if observable (mo_type s) = observable (mo_type t) \<or> rel_is_listed (mo_type s) w (mo_type t)
         then rel_is_allowed (mo_type s) w (mo_type t)
       else if observable (mo_type s) then rel_is_allowed ''indicator'' w (mo_type t)
       else rel_is_allowed (mo_type s) w ''indicator'')"
      using False listed_allowed [of "mo_type s" w "mo_type t"]
      by (auto simp: verb_ships_as_written_def Let_def w_def is_spurious_observable_ttp_edge_def)
    moreover have "resolve_pair C s verb t = route_row C s (valid_verb w) t
        (if valid_verb w \<noteq> w then [verb_change w (valid_verb w) ''unknown_verb''] else [])"
      using False assms(5) by (simp add: resolve_pair_def Let_def w_def [symmetric])
    ultimately show ?thesis
      using route_row_verb [OF assms(1) valid_verb_in assms(5,6)] shipped_iff [OF _ _ w] assms(2,3) ind
      unfolding w_def [symmetric] by (auto split: if_splits)
  qed
qed

definition plain_obj :: "string \<Rightarrow> string \<Rightarrow> map_obj" where
  "plain_obj i t = \<lparr>mo_id = i, mo_type = t, mo_name = None, mo_value = None, mo_aliases = [], mo_hashes = [],
     mo_pattern = None, mo_sro = None\<rparr>"

definition sample_context :: row_context where
  "sample_context = \<lparr>rc_names = \<lparr>ni_direct = [], ni_alias = []\<rparr>,
     rc_indicator = [''d1'' \<mapsto> plain_obj ''i1'' ''indicator''], rc_policy = [], rc_benign = {}\<rparr>"

lemma verb_ships_exact_witness:
  "\<not> verb_ships_as_written ''threat-actor'' '' Uses'' ''domain-name'' \<and>
   shipped_verb (resolve_pair sample_context (plain_obj ''a1'' ''threat-actor'') '' Uses'' (plain_obj ''d1'' ''domain-name'')) \<noteq> Some ''uses''"
proof -
  have "has_indicators sample_context (plain_obj ''a1'' ''threat-actor'') (plain_obj ''d1'' ''domain-name'')"
    by (auto simp: has_indicators_def sample_context_def plain_obj_def observable_def OBSERVABLE_SCO_TYPES_def)
  moreover have "strip '' Uses'' \<noteq> []" "lower (strip '' Uses'') = ''uses''" by code_simp+
  moreover have "\<not> verb_ships_as_written ''threat-actor'' '' Uses'' ''domain-name''" by code_simp
  ultimately show ?thesis
    using verb_ships_exact [of sample_context "plain_obj ''a1'' ''threat-actor''" "plain_obj ''d1'' ''domain-name''" "'' Uses''"]
    by (simp add: sample_context_def plain_obj_def)
qed

section \<open>What is forbidden\<close>

definition row_keys :: "row_context \<Rightarrow> triple list \<Rightarrow> triple set" where
  "row_keys C rows = {k. \<exists>row \<in> set rows. edge_triple (resolve_row C True row) = Some k}"

text \<open>A rejected row's triple, and its reverse when the verb has no direction, is not there or is rejected.\<close>

definition rejection_stands :: "forbidden \<Rightarrow> triple \<Rightarrow> bool" where
  "rejection_stands fb k \<longleftrightarrow> (\<forall>k' \<in> insert k (reverses {k}). map_of fb k' = None \<or> map_of fb k' = Some REJECTED_BY_ANALYST)"

definition rejections_win :: "row_context \<Rightarrow> (triple \<times> string) list \<Rightarrow> forbidden \<Rightarrow> bool" where
  "rejections_win C rows fb \<longleftrightarrow>
    (\<forall>k \<in> row_keys C (map fst (filter (\<lambda>r. snd r = REJECTED_BY_ANALYST) rows)). rejection_stands fb k)"

definition refuse_row :: "row_context \<Rightarrow> triple \<times> string \<Rightarrow> forbidden \<Rightarrow> forbidden" where
  "refuse_row C = (\<lambda>(row, reason) fb. case edge_triple (resolve_row C True row) of None \<Rightarrow> fb
     | Some key \<Rightarrow> if map_of fb key \<noteq> Some REJECTED_BY_ANALYST then dset key reason fb else fb)"

lemma refuse_row_keys: "fst ` set (refuse_row C r fb) = fst ` set fb \<union> row_keys C [fst r]"
  by (auto simp: refuse_row_def row_keys_def keys_dset split: prod.splits option.splits dest: map_of_SomeD intro: rev_image_eqI)

lemma refuse_row_stays: "map_of fb k = Some REJECTED_BY_ANALYST \<Longrightarrow> map_of (refuse_row C r fb) k = Some REJECTED_BY_ANALYST"
  by (auto simp: refuse_row_def map_of_dset split: prod.splits option.splits)

lemma refuse_rows_keys: "fst ` set (fold (refuse_row C) rows fb) = fst ` set fb \<union> row_keys C (map fst rows)"
proof (induction rows arbitrary: fb)
  case (Cons r rows)
  have "row_keys C (map fst (r # rows)) = row_keys C [fst r] \<union> row_keys C (map fst rows)" by (auto simp: row_keys_def)
  then show ?case using Cons [of "refuse_row C r fb"] refuse_row_keys [of C r fb] by auto
qed (simp add: row_keys_def)

lemma refuse_rows_stays:
  "map_of fb k = Some REJECTED_BY_ANALYST \<Longrightarrow> map_of (fold (refuse_row C) rows fb) k = Some REJECTED_BY_ANALYST"
  by (induction rows arbitrary: fb) (auto intro: refuse_row_stays)

lemma refuse_rows_rejected:
  "r \<in> set rows \<Longrightarrow> snd r = REJECTED_BY_ANALYST \<Longrightarrow> edge_triple (resolve_row C True (fst r)) = Some k \<Longrightarrow>
    map_of (fold (refuse_row C) rows fb) k = Some REJECTED_BY_ANALYST"
proof (induction rows arbitrary: fb)
  case (Cons r' rows)
  show ?case
  proof (cases "r = r'")
    case True
    then have "map_of (refuse_row C r' fb) k = Some REJECTED_BY_ANALYST"
      using Cons.prems(2,3) by (cases r') (simp add: refuse_row_def map_of_dset)
    then show ?thesis using refuse_rows_stays by simp
  qed (use Cons in simp)
qed simp

definition turn_step :: "triple \<times> string \<Rightarrow> forbidden \<Rightarrow> forbidden" where
  "turn_step = (\<lambda>((s, v, t), why) out. if v \<in> set UNDIRECTED_VERBS \<and> map_of out (t, v, s) \<noteq> Some REJECTED_BY_ANALYST
     then dset (t, v, s) why out else out)"

lemma turn_steps_stays:
  "map_of out k = Some REJECTED_BY_ANALYST \<Longrightarrow> map_of (fold turn_step fb out) k = Some REJECTED_BY_ANALYST"
proof (induction fb arbitrary: out)
  case (Cons p fb)
  have "map_of (turn_step p out) k = Some REJECTED_BY_ANALYST"
    using Cons.prems by (auto simp: turn_step_def map_of_dset split: prod.splits)
  then show ?case using Cons.IH by simp
qed simp

lemma turn_steps_turned:
  "((s, v, t), REJECTED_BY_ANALYST) \<in> set fb \<Longrightarrow> v \<in> set UNDIRECTED_VERBS \<Longrightarrow>
    map_of (fold turn_step fb out) (t, v, s) = Some REJECTED_BY_ANALYST"
proof (induction fb arbitrary: out)
  case (Cons p fb)
  show ?case
  proof (cases "p = ((s, v, t), REJECTED_BY_ANALYST)")
    case True
    then have "map_of (turn_step p out) (t, v, s) = Some REJECTED_BY_ANALYST"
      using Cons.prems(2) by (simp add: turn_step_def map_of_dset)
    then show ?thesis using turn_steps_stays by simp
  qed (use Cons in simp)
qed simp

lemma both_directions_rejected:
  assumes "map_of fb k = Some REJECTED_BY_ANALYST" "k' \<in> insert k (reverses {k})"
  shows "map_of (both_directions fb) k' = Some REJECTED_BY_ANALYST"
proof -
  have b: "both_directions fb = fold turn_step fb fb" by (simp add: both_directions_def turn_step_def)
  consider "k' = k" | s v t where "k = (s, v, t)" "v \<in> set UNDIRECTED_VERBS" "k' = (t, v, s)"
    using assms(2) by (auto simp: reverses_def)
  then show ?thesis
    unfolding b by cases (use assms(1) turn_steps_stays turn_steps_turned [OF map_of_SomeD] in auto)
qed

definition allow_row :: "row_context \<Rightarrow> triple \<Rightarrow> forbidden \<Rightarrow> forbidden" where
  "allow_row C row fb = (case edge_triple (resolve_row C True row) of None \<Rightarrow> fb | Some key \<Rightarrow> dpop key fb)"

lemma pop_rows:
  "fst ` set (fold (allow_row C) rows fb) =
     fst ` set fb - row_keys C rows \<and>
   (\<forall>k. map_of (fold (allow_row C) rows fb) k
     \<in> {None, map_of fb k})"
proof (induction rows arbitrary: fb)
  case (Cons row rows)
  let ?fb1 = "allow_row C row fb"
  have keys: "fst ` set (dpop k fb) = fst ` set fb - {k}" for k
    by (auto simp: dom_map_of_keys [symmetric] map_of_dpop)
  have k1: "fst ` set ?fb1 = fst ` set fb - row_keys C [row]"
    by (auto simp: allow_row_def row_keys_def keys split: option.split)
  have m1: "map_of ?fb1 k \<in> {None, map_of fb k}" for k by (auto simp: allow_row_def map_of_dpop split: option.split)
  have rk: "row_keys C (row # rows) = row_keys C [row] \<union> row_keys C rows" by (auto simp: row_keys_def)
  have ih: "fst ` set (fold (allow_row C) rows ?fb1) = fst ` set ?fb1 - row_keys C rows"
    "map_of (fold (allow_row C) rows ?fb1) k \<in> {None, map_of ?fb1 k}" for k
    using Cons [of ?fb1] by (blast, blast)
  have "map_of (fold (allow_row C) rows ?fb1) k \<in> {None, map_of fb k}" for k
    using ih(2) [of k] m1 [of k] by (elim insertE singletonE) simp_all
  moreover have "fst ` set (fold (allow_row C) rows ?fb1) = fst ` set fb - row_keys C (row # rows)"
    by (simp only: ih(1) k1 rk Diff_eq compl_sup inf.assoc)
  ultimately show ?case by (simp only: fold_simps simp_thms)
qed (simp add: row_keys_def)

text \<open>C39. What an analyst's refusals forbid is exact: the triples their rows would have shipped as, with the
  reverse of those whose verb has no direction, less the triples another row ships; and on every one of
  them a rejection outranks a hold.\<close>

lemma forbidden_triples_exact:
  "fst ` set (forbidden_triples C rows shipping) =
     (row_keys C (map fst rows) \<union> reverses (row_keys C (map fst rows))) - row_keys C shipping \<and>
   rejections_win C rows (forbidden_triples C rows shipping)"
proof -
  define fb where "fb = fold (refuse_row C) rows []"
  have keys: "fst ` set fb = row_keys C (map fst rows)" using refuse_rows_keys [of C rows "[]"] by (simp add: fb_def)
  have f: "forbidden_triples C rows shipping = (if fb = [] then [] else
      fold (allow_row C) shipping (both_directions fb))"
    by (simp only: forbidden_triples_def fb_def refuse_row_def allow_row_def [abs_def] Let_def)
  have rej: "map_of fb k = Some REJECTED_BY_ANALYST"
    if "k \<in> row_keys C (map fst (filter (\<lambda>r. snd r = REJECTED_BY_ANALYST) rows))" for k
    using that refuse_rows_rejected [of _ rows C k "[]"] by (auto simp: row_keys_def fb_def)
  show ?thesis
  proof (cases "fb = []")
    case True
    then show ?thesis using f keys rej by (auto simp: reverses_def rejections_win_def)
  next
    case False
    note pop = pop_rows [of C shipping "both_directions fb"]
    have "rejection_stands (forbidden_triples C rows shipping) k" if "map_of fb k = Some REJECTED_BY_ANALYST" for k
      unfolding rejection_stands_def
    proof
      fix k' assume k': "k' \<in> insert k (reverses {k})"
      have "map_of (forbidden_triples C rows shipping) k' \<in> {None, map_of (both_directions fb) k'}"
        using pop [THEN conjunct2, THEN spec, of k'] f False by (simp del: split_paired_All)
      then show "map_of (forbidden_triples C rows shipping) k' = None \<or> map_of (forbidden_triples C rows shipping) k' = Some REJECTED_BY_ANALYST"
        using both_directions_rejected [OF that k'] by simp
    qed
    then have "rejections_win C rows (forbidden_triples C rows shipping)" using rej by (simp add: rejections_win_def)
    moreover have "fst ` set (forbidden_triples C rows shipping) = fst ` set (both_directions fb) - row_keys C shipping"
      using pop f False by simp
    ultimately show ?thesis by (simp only: both_directions_keys keys)
  qed
qed

end
