(* ===== verification/MapEdgesSound.thy ===== *)
theory MapEdgesSound
  imports MapEdges MapRowsSound MitreSound
begin

text \<open>
  The relationships of the targets product and of the rows: each triple once, none that a review forbids,
  and one ledger entry per row that says what became of it.
\<close>

section \<open>One relationship\<close>

definition sro_triples :: "map_obj list \<Rightarrow> triple list" where
  "sro_triples objs = List.map_filter rel_triple_of objs"

lemma map_filter_append: "List.map_filter f (xs @ ys) = List.map_filter f xs @ List.map_filter f ys"
  by (simp add: List.map_filter_def)

lemma sro_triples_append [simp]: "sro_triples (xs @ ys) = sro_triples xs @ sro_triples ys"
  by (simp add: sro_triples_def map_filter_append)

lemma sro_triples_rel_obj [simp]: "sro_triples [rel_obj i r] = [(sr_source r, sr_verb r, sr_target r)]"
  by (simp add: sro_triples_def List.map_filter_def rel_triple_of_def rel_obj_def)

lemma sro_triples_Nil [simp]: "sro_triples [] = []"
  by (simp add: sro_triples_def List.map_filter_def)

text \<open>The x_ properties leave the triple alone.\<close>

definition keeps_triple :: "(sro \<Rightarrow> sro) \<Rightarrow> bool" where
  "keeps_triple custom \<longleftrightarrow> (\<forall>r. sr_source (custom r) = sr_source r \<and> sr_verb (custom r) = sr_verb r \<and> sr_target (custom r) = sr_target r)"

lemma reported_keeps: "keeps_triple EV_REPORTED" by (simp add: keeps_triple_def EV_REPORTED_def)

lemma valid_verb_idem: "valid_verb (valid_verb v) = valid_verb v"
  using valid_verb_in [of v] by (simp add: valid_verb_def)

text \<open>The edge built is the one the counting pass predicted: \<open>_pin_edge_key\<close> mirrors \<open>_add_relationship\<close>.\<close>

definition edge_key :: "(string, policy_rule) dict \<Rightarrow> map_obj \<Rightarrow> string \<Rightarrow> map_obj \<Rightarrow> triple option" where
  "edge_key pol s v t = pin_edge_key s (apply_policy v (mo_type s) (mo_type t) pol) t"

lemma edge_key_alt: "edge_key pol s v t = (if mo_id s = mo_id t then None else
   Some (mo_id s, allowed_verb (mo_type s) (if pol \<noteq> [] then apply_policy v (mo_type s) (mo_type t) pol else valid_verb v) (mo_type t), mo_id t))"
proof -
  have "valid_verb (apply_policy v a b pol) = apply_policy v a b pol" for a b by (simp add: apply_policy_def valid_verb_idem)
  moreover have "apply_policy v a b [] = valid_verb v" for a b by (rule apply_policy_Nil)
  ultimately show ?thesis by (simp add: edge_key_def pin_edge_key_def)
qed

lemma add_relationship_cases:
  assumes "keeps_triple custom" "add_relationship new_rel s v t conf pol custom (objs, seen) = (r, objs', seen')"
  obtains (Known) "r = None" "objs' = objs" "seen' = seen" "edge_key pol s v t = None \<or> the (edge_key pol s v t) \<in> seen"
  | (Raised) key m where "r = None" "objs' = objs" "edge_key pol s v t = Some key" "key \<notin> seen" "seen' = insert key seen"
      "new_rel (length objs) key = Inl m"
  | (Built) key i x where "r = Some (rel_obj i x)" "objs' = objs @ [rel_obj i x]" "edge_key pol s v t = Some key" "key \<notin> seen"
      "seen' = insert key seen" "new_rel (length objs) key = Inr i" "sro_triples [rel_obj i x] = [key]"
proof (cases "edge_key pol s v t")
  case None
  then show ?thesis using assms(2) that(1) by (auto simp: edge_key_alt add_relationship_def split: if_splits)
next
  case (Some key)
  have a: "add_relationship new_rel s v t conf pol custom (objs, seen) = (if key \<in> seen then (None, objs, seen)
      else case new_rel (length objs) key of Inl _ \<Rightarrow> (None, objs, insert key seen)
      | Inr i \<Rightarrow> let r = rel_obj i (custom ((plain_sro (mo_id s) (fst (snd key)) (mo_id t))\<lparr>sr_confidence := map_option percent conf\<rparr>))
          in (Some r, objs @ [r], insert key seen))"
    and k: "fst key = mo_id s" "snd (snd key) = mo_id t"
    using Some by (auto simp: edge_key_alt add_relationship_def Let_def split: if_splits sum.split)
  show ?thesis
  proof (cases "key \<in> seen")
    case True
    then show ?thesis using assms(2) that(1) Some unfolding a by simp
  next
    case False
    show ?thesis
    proof (cases "new_rel (length objs) key")
      case (Inl m)
      then show ?thesis using assms(2) False Some that(2) unfolding a by simp
    next
      case (Inr i)
      define x where "x = custom ((plain_sro (mo_id s) (fst (snd key)) (mo_id t))\<lparr>sr_confidence := map_option percent conf\<rparr>)"
      have "sro_triples [rel_obj i x] = [key]"
        using assms(1) k by (cases key) (simp add: x_def keeps_triple_def plain_sro_def)
      moreover have "r = Some (rel_obj i x)" "objs' = objs @ [rel_obj i x]" "seen' = insert key seen"
        using assms(2) False Inr unfolding a by (simp_all add: x_def Let_def)
      ultimately show ?thesis using False Some Inr that(3) by blast
    qed
  qed
qed

section \<open>The targets product\<close>

text \<open>What a builder without rows may do: append relationships with new triples, none of them forbidden.\<close>

definition builds_safely :: "triple set \<Rightarrow> map_state \<Rightarrow> map_state \<Rightarrow> bool" where
  "builds_safely fb st st' \<longleftrightarrow> (\<exists>new. ms_objs st' = ms_objs st @ new \<and> distinct (sro_triples new) \<and>
     set (sro_triples new) \<inter> ms_seen st = {} \<and> set (sro_triples new) \<inter> fb = {} \<and>
     ms_seen st \<union> set (sro_triples new) \<subseteq> ms_seen st' \<and> list_all (\<lambda>x. mo_sro x \<noteq> None) new)"

lemma builds_safely_refl: "ms_objs st' = ms_objs st \<Longrightarrow> ms_seen st \<subseteq> ms_seen st' \<Longrightarrow> builds_safely fb st st'"
  unfolding builds_safely_def by (rule exI [of _ "[]"]) simp

lemma builds_safely_trans: "builds_safely fb a b \<Longrightarrow> builds_safely fb b c \<Longrightarrow> builds_safely fb a c"
proof -
  assume "builds_safely fb a b" "builds_safely fb b c"
  then obtain x y where x: "ms_objs b = ms_objs a @ x" "distinct (sro_triples x)" "set (sro_triples x) \<inter> ms_seen a = {}"
      "set (sro_triples x) \<inter> fb = {}" "ms_seen a \<union> set (sro_triples x) \<subseteq> ms_seen b" "list_all (\<lambda>x. mo_sro x \<noteq> None) x"
    and y: "ms_objs c = ms_objs b @ y" "distinct (sro_triples y)" "set (sro_triples y) \<inter> ms_seen b = {}"
      "set (sro_triples y) \<inter> fb = {}" "ms_seen b \<union> set (sro_triples y) \<subseteq> ms_seen c" "list_all (\<lambda>x. mo_sro x \<noteq> None) y"
    unfolding builds_safely_def by blast
  have "set (sro_triples x) \<inter> set (sro_triples y) = {}" using x(5) y(3) by blast
  then show ?thesis unfolding builds_safely_def
    using x y by (intro exI [of _ "x @ y"]) auto
qed

lemma builds_safely_fold: "(\<And>x st. builds_safely fb st (f x st)) \<Longrightarrow> builds_safely fb st (fold f xs st)"
  by (induction xs arbitrary: st) (auto intro: builds_safely_refl builds_safely_trans)

lemma target_step_safe: "builds_safely (fst ` set fb) st (target_step new_rel C fb actor_name actor kind target st)"
proof (cases "index_of_type (rc_names C) (kind @ '':'' @ lower target) kind")
  case None
  then show ?thesis by (simp add: target_step_def builds_safely_refl)
next
  case (Some place)
  show ?thesis
  proof (cases "refused_by_review C (ms_seen st) fb actor ''targets'' place")
    case allowed: None
    obtain r objs' seen' where a: "add_relationship new_rel actor ''targets'' place None (rc_policy C) EV_REPORTED
        (ms_objs st, ms_seen st) = (r, objs', seen')" by (metis prod.exhaust)
    have st': "ms_objs (target_step new_rel C fb actor_name actor kind target st) = objs'"
      "ms_seen (target_step new_rel C fb actor_name actor kind target st) = seen'"
      using Some allowed a by (auto simp: target_step_def split: option.split)
    have ok: "key \<notin> fst ` set fb" if "edge_key (rc_policy C) actor ''targets'' place = Some key" "key \<notin> ms_seen st" for key
      using allowed that by (auto simp: refused_by_review_def edge_key_def map_of_eq_None_iff)
    from reported_keeps a show ?thesis
    proof (cases rule: add_relationship_cases)
      case (Built key i x)
      then show ?thesis unfolding builds_safely_def st' using ok
        by (intro exI [of _ "[rel_obj i x]"]) (auto simp: rel_obj_def)
    qed (simp_all add: builds_safely_refl st' subset_insertI)
  next
    case (Some e)
    then show ?thesis using \<open>index_of_type _ _ _ = Some place\<close>
      by (cases e) (auto simp: target_step_def intro!: builds_safely_refl split: prod.splits)
  qed
qed

text \<open>The product of the actors with the targeted countries and sectors builds each edge once, none the bundle
  already has, and none that an analyst rejected or holds for review, whatever the policy makes of its verb.\<close>

lemma targets_product_safe: "builds_safely (fst ` set fb) st (targets_product new_rel C fb res st)"
  unfolding targets_product_def
proof (rule builds_safely_fold)
  fix actor_name st
  show "builds_safely (fst ` set fb) st (case index_of_type (rc_names C) (lower actor_name) ''threat-actor'' of None \<Rightarrow> st
     | Some actor \<Rightarrow> fold (target_step new_rel C fb actor_name actor ''identity'') (targeted_sectors res)
           (fold (target_step new_rel C fb actor_name actor ''location'') (targeted_countries res) st))"
    using builds_safely_trans [OF builds_safely_fold builds_safely_fold, OF target_step_safe target_step_safe]
    by (auto split: option.split intro: builds_safely_refl)
qed

section \<open>The rows\<close>

lemma dupdate_other: "k \<notin> fst ` set e \<Longrightarrow> map_of (dupdate d e) k = map_of d k"
  unfolding dupdate_def by (induction e arbitrary: d) (auto simp: map_of_dset)

lemma dupdate_key: "distinct (map fst e) \<Longrightarrow> (k, v) \<in> set e \<Longrightarrow> map_of (dupdate d e) k = Some v"
proof (induction e arbitrary: d)
  case (Cons p e)
  obtain j w where p: "p = (j, w)" by (cases p)
  have step: "dupdate d (p # e) = dupdate (dset j w d) e" by (simp add: dupdate_def p)
  show ?case
  proof (cases "(k, v) = p")
    case True
    then have "k \<notin> fst ` set e" using Cons.prems(1) p by auto
    then show ?thesis unfolding step using True p by (simp add: dupdate_other map_of_dset)
  qed (use Cons step in auto)
qed simp

lemma clean_keys: "fst ` set (clean e) \<subseteq> fst ` set e" "distinct (map fst e) \<Longrightarrow> distinct (map fst (clean e))"
  by (auto simp: clean_def distinct_map intro: inj_on_subset)

text \<open>The entry a row's step appends.\<close>

definition row_entry :: "llm_rel \<Rightarrow> string \<Rightarrow> entry \<Rightarrow> entry" where
  "row_entry rel outcome info = dupdate [(''source_value'', StrV (rl_source rel)), (''relationship_type'', StrV (rl_verb rel)),
     (''target_value'', StrV (rl_target rel)), (''outcome'', StrV outcome), (''changes'', ListV [])] (clean info)"

lemma ledger_relationship_row: "ledger_relationship (row_triple rel) outcome info L =
    (length (lg_relationships L), L\<lparr>lg_relationships := lg_relationships L @ [row_entry rel outcome info]\<rparr>)"
  by (simp add: ledger_relationship_def row_triple_def row_entry_def)

definition ROW_KEYS :: "string list" where
  "ROW_KEYS = [''source_value'', ''relationship_type'', ''target_value'', ''outcome'', ''stix_id'']"

lemma row_entry_dropped:
  assumes "fst ` set info \<inter> set ROW_KEYS = {}"
  shows "map_of (row_entry rel outcome info) ''source_value'' = Some (StrV (rl_source rel))"
    "map_of (row_entry rel outcome info) ''outcome'' = Some (StrV outcome)"
    "map_of (row_entry rel outcome info) ''stix_id'' = None"
proof -
  have "k \<in> set ROW_KEYS \<Longrightarrow> k \<notin> fst ` set (clean info)" for k using assms clean_keys(1) [of info] by blast
  then show "map_of (row_entry rel outcome info) ''source_value'' = Some (StrV (rl_source rel))"
    "map_of (row_entry rel outcome info) ''outcome'' = Some (StrV outcome)"
    "map_of (row_entry rel outcome info) ''stix_id'' = None"
    by (simp_all add: row_entry_def dupdate_other ROW_KEYS_def)
qed

text \<open>An entry tells the truth about its row: dropped with no object, or on the relationship that ships.\<close>

definition row_targeted :: "llm_rel \<Rightarrow> bool" where
  "row_targeted rel \<longleftrightarrow> lower (strip (rl_verb rel)) = ''targets''"

definition row_lands :: "row_context \<Rightarrow> llm_rel \<Rightarrow> triple option" where
  "row_lands C rel = edge_triple (resolve_row C (row_targeted rel) (row_triple rel))"

definition outcome_of :: "entry \<Rightarrow> pyval option" where
  "outcome_of e = map_of e ''outcome''"

definition row_told :: "row_context \<Rightarrow> map_obj list \<Rightarrow> llm_rel \<Rightarrow> entry \<Rightarrow> bool" where
  "row_told C objs rel e \<longleftrightarrow> map_of e ''source_value'' = Some (StrV (rl_source rel)) \<and>
    (case row_lands C rel of
       None \<Rightarrow> outcome_of e = Some (StrV ''dropped'') \<and> map_of e ''stix_id'' = None
     | Some k \<Rightarrow> outcome_of e \<in> {Some (StrV ''emitted''), Some (StrV ''merged'')} \<and>
         (\<exists>x \<in> set objs. rel_triple_of x = Some k \<and> map_of e ''stix_id'' = Some (StrV (mo_id x))))"

lemma edge_info_keys: "distinct (map fst (edge_info i extra k ch)) \<longleftrightarrow>
    distinct (map fst extra) \<and> fst ` set extra \<inter> {''stix_id'', ''final_type'', ''source_ref'', ''target_ref'', ''changes''} = {}"
  by (cases k) (auto simp: edge_info_def)

lemma row_entry_edge:
  assumes "extra = [] \<or> extra = [(''merged_with'', opt_val (Some i))]"
  shows "map_of (row_entry rel outcome (edge_info (Some i) extra k ch)) ''source_value'' = Some (StrV (rl_source rel))"
    "map_of (row_entry rel outcome (edge_info (Some i) extra k ch)) ''outcome'' = Some (StrV outcome)"
    "map_of (row_entry rel outcome (edge_info (Some i) extra k ch)) ''stix_id'' = Some (StrV i)"
proof -
  let ?info = "edge_info (Some i) extra k ch"
  have d: "distinct (map fst (clean ?info))" by (rule clean_keys(2)) (use assms in \<open>auto simp: edge_info_keys\<close>)
  have in': "(''stix_id'', StrV i) \<in> set (clean ?info)" by (cases k) (simp add: edge_info_def clean_def opt_val_def)
  have "fst ` set ?info \<subseteq> {''stix_id'', ''merged_with'', ''final_type'', ''source_ref'', ''target_ref'', ''changes''}"
    using assms by (cases k, elim disjE) (simp_all add: edge_info_def)
  then have "fst ` set (clean ?info) \<subseteq> {''stix_id'', ''merged_with'', ''final_type'', ''source_ref'', ''target_ref'', ''changes''}"
    using clean_keys(1) [of ?info] by (rule subset_trans [rotated])
  note sub = this
  have "''source_value'' \<notin> fst ` set (clean ?info)" by (rule contra_subsetD [OF sub]) simp
  moreover have "''outcome'' \<notin> fst ` set (clean ?info)" by (rule contra_subsetD [OF sub]) simp
  ultimately show "map_of (row_entry rel outcome ?info) ''source_value'' = Some (StrV (rl_source rel))"
    "map_of (row_entry rel outcome ?info) ''outcome'' = Some (StrV outcome)"
    unfolding row_entry_def using dupdate_other [where e = "clean ?info"] by simp_all
  show "map_of (row_entry rel outcome ?info) ''stix_id'' = Some (StrV i)"
    unfolding row_entry_def by (rule dupdate_key [OF d in'])
qed

text \<open>The facts the ledger keeps of a row that does not ship have keys of their own.\<close>

definition INFO_KEYS :: "string list" where
  "INFO_KEYS = [''stix_ref'', ''source_ref'', ''target_ref'', ''source_candidates'', ''target_candidates'']"

lemma info_keys_row: "fst ` set info \<subseteq> set INFO_KEYS \<Longrightarrow> fst ` set ((''reason'', StrV reason) # info) \<inter> set ROW_KEYS = {}"
proof -
  have "set (''reason'' # INFO_KEYS) \<inter> set ROW_KEYS = {}" by (simp add: INFO_KEYS_def ROW_KEYS_def)
  then show "fst ` set info \<subseteq> set INFO_KEYS \<Longrightarrow> fst ` set ((''reason'', StrV reason) # info) \<inter> set ROW_KEYS = {}" by auto
qed

lemma ref_info_keys: "fst ` set (ref_info s t) \<subseteq> set INFO_KEYS" "fst ` set [(''stix_ref'', v)] \<subseteq> set INFO_KEYS"
  "fst ` set [(''source_candidates'', v), (''target_candidates'', w)] \<subseteq> set INFO_KEYS"
  by (simp_all add: ref_info_def INFO_KEYS_def)

lemma route_row_info: "route_row C s v t ch = NotShipped reason info \<Longrightarrow> fst ` set info \<subseteq> set INFO_KEYS"
proof -
  assume r: "route_row C s v t ch = NotShipped reason info"
  obtain a b where ab: "route_observables (rc_indicator C) (Some s) (apply_policy v (mo_type s) (mo_type t) (rc_policy C)) (Some t) = (a, b)"
    by fastforce
  have "info \<in> {ref_info s t, [(''stix_ref'', StrV (mo_id (the a)))]}"
    using r ab by (cases a; cases b) (simp_all add: route_row_def land_row_def Let_def split: if_splits)
  then show ?thesis using ref_info_keys(1,2) by (elim insertE) (simp_all only: empty_iff)
qed

lemma resolve_pair_info: "resolve_pair C s v t = NotShipped reason info \<Longrightarrow> fst ` set info \<subseteq> set INFO_KEYS"
  unfolding resolve_pair_def Let_def
  using ref_info_keys route_row_info by (metis row_edge.inject(2))

lemma not_shipped_info: "resolve_row C b row = NotShipped reason info \<Longrightarrow>
    fst ` set ((''reason'', StrV reason) # info) \<inter> set ROW_KEYS = {}"
proof (rule info_keys_row)
  assume r: "resolve_row C b row = NotShipped reason info"
  obtain x v y where row: "row = (x, v, y)" by (metis prod.exhaust)
  show "fst ` set info \<subseteq> set INFO_KEYS"
  proof (cases "row_candidates C b x = [] \<or> row_candidates C b y = []")
    case True
    then show ?thesis using r by (auto simp: row resolve_row_def Let_def)
  next
    case False
    let ?p = "pick_by_verb (rc_indicator C) (map snd (row_candidates C b x)) v (map snd (row_candidates C b y))"
    show ?thesis
    proof (cases ?p)
      case None
      then have "info = [(''source_candidates'', sorted_ids (row_candidates C b x)), (''target_candidates'', sorted_ids (row_candidates C b y))]"
        using r False by (simp add: row resolve_row_def)
      then show ?thesis using ref_info_keys(3) by (simp only:)
    next
      case (Some p)
      obtain s t where "p = (s, t)" by (cases p)
      then have "resolve_pair C s v t = NotShipped reason info" using r False Some by (simp add: row resolve_row_def)
      then show ?thesis by (rule resolve_pair_info)
    qed
  qed
qed

lemma last_index_from_Some: "last_index_from P k xs = Some i \<Longrightarrow> k \<le> i \<and> i - k < length xs \<and> P (xs ! (i - k))"
proof (induction xs arbitrary: k)
  case (Cons x xs)
  show ?case
  proof (cases "last_index_from P (Suc k) xs")
    case None
    then show ?thesis using Cons.prems by (auto split: if_splits)
  next
    case (Some j)
    then have "j = i" using Cons.prems by simp
    with Cons.IH [of "Suc k"] Some have "Suc k \<le> i" "i - Suc k < length xs" "P (xs ! (i - Suc k))" by simp_all
    then have "i - k = Suc (i - Suc k)" by simp
    then show ?thesis using \<open>Suc k \<le> i\<close> \<open>i - Suc k < length xs\<close> \<open>P (xs ! (i - Suc k))\<close> by simp
  qed
qed simp

lemma last_index_Some: "last_index P xs = Some i \<Longrightarrow> i < length xs \<and> P (xs ! i)"
  using last_index_from_Some [of P 0 xs i] by (simp add: last_index_def)

lemma last_index_from_None: "last_index_from P k xs = None \<longleftrightarrow> list_all (\<lambda>x. \<not> P x) xs"
  by (induction xs arbitrary: k) (auto split: option.splits)

lemma last_index_None: "last_index P xs = None \<longleftrightarrow> list_all (\<lambda>x. \<not> P x) xs"
  by (simp add: last_index_def last_index_from_None)

text \<open>The invariant of the loop: ids apart, the ids to come unused, the edges known exactly.\<close>

definition rows_inv :: "(nat \<Rightarrow> string) \<Rightarrow> row_state \<Rightarrow> bool" where
  "rows_inv rid st \<longleftrightarrow> distinct (map mo_id (ms_objs st)) \<and> (\<forall>n \<ge> length (ms_objs st). rid n \<notin> mo_id ` set (ms_objs st)) \<and>
     distinct (sro_triples (ms_objs st)) \<and> set (sro_triples (ms_objs st)) \<subseteq> ms_seen st \<and>
     (\<forall>k \<in> ms_seen st. \<exists>x \<in> set (ms_objs st). mo_type x = ''relationship'' \<and> rel_triple_of x = Some k)"

definition same_objects :: "map_obj list \<Rightarrow> map_obj list \<Rightarrow> bool" where
  "same_objects xs ys \<longleftrightarrow> map mo_id ys = map mo_id xs \<and> map rel_triple_of ys = map rel_triple_of xs \<and> map mo_type ys = map mo_type xs"

lemma sro_triples_map: "sro_triples objs = List.map_filter id (map rel_triple_of objs)"
  by (simp add: sro_triples_def List.map_filter_def filter_map o_def)

lemma same_objects_carry:
  assumes "same_objects xs ys" "x \<in> set xs"
  shows "\<exists>y \<in> set ys. mo_id y = mo_id x \<and> rel_triple_of y = rel_triple_of x \<and> mo_type y = mo_type x"
proof -
  obtain n where n: "n < length xs" "x = xs ! n" using assms(2) by (metis in_set_conv_nth)
  have "length ys = length xs" using assms(1) unfolding same_objects_def by (metis length_map)
  then show ?thesis using assms(1) n unfolding same_objects_def by (metis nth_map nth_mem)
qed

lemma rows_inv_same:
  assumes "rows_inv rid st" "same_objects (ms_objs st) (ms_objs st')" "ms_seen st' = ms_seen st"
  shows "rows_inv rid st'"
proof -
  have l: "length (ms_objs st') = length (ms_objs st)" using assms(2) unfolding same_objects_def by (metis length_map)
  have t: "sro_triples (ms_objs st') = sro_triples (ms_objs st)" "map mo_id (ms_objs st') = map mo_id (ms_objs st)"
    using assms(2) by (simp_all add: same_objects_def sro_triples_map)
  then have i: "mo_id ` set (ms_objs st') = mo_id ` set (ms_objs st)" by (metis set_map)
  show ?thesis using assms same_objects_carry [OF assms(2)] unfolding rows_inv_def l t i by metis
qed

lemma existing_rel_id_Some:
  assumes "existing_rel_id key objs = Some i"
  shows "\<exists>m < length objs. mo_id (objs ! m) = i \<and> mo_type (objs ! m) = ''relationship'' \<and> rel_triple_of (objs ! m) = Some key"
  using assms last_index_Some unfolding existing_rel_id_def by fastforce

lemma map_update_same: "k < length xs \<Longrightarrow> f y = f (xs ! k) \<Longrightarrow> map f (xs[k := y]) = map f xs"
  by (simp add: map_update list_update_same_conv)

lemma replace_targeted_same:
  assumes "distinct (map mo_id (ms_objs st))" "existing = existing_rel_id (sr_source r, sr_verb r, sr_target r) (ms_objs st)"
  shows "same_objects (ms_objs st) (ms_objs (replace_targeted existing r st)) \<and>
    ms_seen (replace_targeted existing r st) = ms_seen st \<and>
    lg_relationships (ms_ledger (replace_targeted existing r st)) = lg_relationships (ms_ledger st)"
proof (cases existing)
  case None
  then show ?thesis by (simp add: replace_targeted_def same_objects_def)
next
  case (Some i)
  let ?objs = "ms_objs st"
  obtain m where m: "m < length ?objs" "mo_id (?objs ! m) = i" "mo_type (?objs ! m) = ''relationship''"
    "rel_triple_of (?objs ! m) = Some (sr_source r, sr_verb r, sr_target r)"
    using existing_rel_id_Some assms(2) Some by metis
  have upd: "same_objects ?objs (?objs[k := rel_obj i r])" if "last_index (\<lambda>x. mo_id x = i) ?objs = Some k" for k
  proof -
    have "k < length ?objs" "mo_id (?objs ! k) = i" using last_index_Some [OF that] by simp_all
    then have "k = m" using assms(1) m(1,2) by (metis distinct_conv_nth length_map nth_map)
    have e: "mo_id (rel_obj i r) = mo_id (?objs ! m)" "mo_type (rel_obj i r) = mo_type (?objs ! m)"
      "rel_triple_of (rel_obj i r) = rel_triple_of (?objs ! m)"
      using m by (simp_all only:) (simp_all add: rel_triple_of_def rel_obj_def)
    show ?thesis unfolding same_objects_def \<open>k = m\<close>
      by (intro conjI map_update_same [OF m(1)] e)
  qed
  show ?thesis using upd
    by (auto simp: replace_targeted_def Some same_objects_def record_object_def ledger_obj_of_def split: option.split)
qed

lemma join_times_same:
  "join_times key existing k ts st = Inr st' \<Longrightarrow>
    ms_objs st' = ms_objs st \<and> ms_seen st' = ms_seen st \<and> ms_ledger st' = ms_ledger st"
  by (auto simp: join_times_def Let_def and_then_Inr split: if_splits)

lemma record_object_relationships: "lg_relationships (record_object x origin info L) = lg_relationships L"
  by (auto simp: record_object_def split: option.split)

text \<open>One row: the invariant stays, its triple is known, one true entry is added.\<close>

definition row_step :: "row_context \<Rightarrow> (nat \<Rightarrow> string) \<Rightarrow> llm_rel \<Rightarrow> row_state \<Rightarrow> row_state \<Rightarrow> bool" where
  "row_step C rid rel st st' \<longleftrightarrow> rows_inv rid st' \<and> (\<exists>e. lg_relationships (ms_ledger st') = lg_relationships (ms_ledger st) @ [e] \<and>
     row_told C (ms_objs st') rel e) \<and> ms_seen st' = ms_seen st \<union> set_option (row_lands C rel) \<and>
     (\<forall>x \<in> set (ms_objs st). \<exists>y \<in> set (ms_objs st'). mo_id y = mo_id x \<and> rel_triple_of y = rel_triple_of x)"

lemma row_dropped:
  assumes "rows_inv rid st" "resolve_row C (row_targeted rel) (row_triple rel) = NotShipped reason info"
  shows "row_step C rid rel st (st\<lparr>ms_ledger := snd (ledger_relationship (row_triple rel) ''dropped'' ((''reason'', StrV reason) # info) (ms_ledger st))\<rparr>)"
proof -
  have "row_lands C rel = None" using assms(2) by (simp add: row_lands_def edge_triple_def)
  then show ?thesis
    using assms(1) row_entry_dropped [OF not_shipped_info [OF assms(2)]]
    by (auto simp: row_step_def ledger_relationship_row row_told_def outcome_of_def rows_inv_def)
qed

lemma row_merged:
  assumes inv: "rows_inv rid st" and key: "row_lands C rel = Some key" "key \<in> ms_seen st"
    and r: "(sr_source r, sr_verb r, sr_target r) = key" and m: "merge_row rel key ch r st = Inr st'"
  shows "row_step C rid rel st st'"
proof -
  let ?x = "existing_rel_id key (ms_objs st)"
  obtain x where "x \<in> set (ms_objs st)" "mo_type x = ''relationship''" "rel_triple_of x = Some key"
    using inv key(2) unfolding rows_inv_def by blast
  then have "?x \<noteq> None" unfolding existing_rel_id_def by (auto simp: last_index_None list_all_iff)
  then obtain i where i: "?x = Some i" by blast
  let ?e = "row_entry rel ''merged'' (edge_info (Some i) [(''merged_with'', opt_val (Some i))] key ch)"
  let ?st1 = "st\<lparr>ms_ledger := (ms_ledger st)\<lparr>lg_relationships := lg_relationships (ms_ledger st) @ [?e]\<rparr>\<rparr>"
  let ?st2 = "replace_targeted (Some i) r ?st1"
  have j: "join_times key (Some i) (length (lg_relationships (ms_ledger st))) (rl_times rel) ?st2 = Inr st'"
    using m by (simp add: merge_row_def i ledger_relationship_row Let_def)
  have rt: "same_objects (ms_objs ?st1) (ms_objs ?st2)" "ms_seen ?st2 = ms_seen ?st1"
    "lg_relationships (ms_ledger ?st2) = lg_relationships (ms_ledger ?st1)"
    using replace_targeted_same [of ?st1 "Some i" r] inv i r by (simp_all add: rows_inv_def)
  have s: "same_objects (ms_objs st) (ms_objs st')" "ms_seen st' = ms_seen st"
    "lg_relationships (ms_ledger st') = lg_relationships (ms_ledger st) @ [?e]"
    using join_times_same [OF j] rt by simp_all
  have "\<exists>y \<in> set (ms_objs st'). rel_triple_of y = Some key \<and> mo_id y = i"
    using existing_rel_id_Some [OF i] same_objects_carry [OF s(1)] by (metis nth_mem)
  then have "row_told C (ms_objs st') rel ?e"
    using key(1) row_entry_edge [of "[(''merged_with'', opt_val (Some i))]" i rel "''merged''" key ch]
    by (auto simp: row_told_def outcome_of_def)
  then show ?thesis
    using s rows_inv_same [OF inv s(1,2)] same_objects_carry [OF s(1)] key
    unfolding row_step_def by (simp add: insert_absorb) blast
qed

lemma row_emitted:
  assumes inv: "rows_inv rid st" and key: "row_lands C rel = Some key" "key \<notin> ms_seen st" "inj rid"
    and r: "(sr_source r, sr_verb r, sr_target r) = key" and m: "emit_row rel key ch (rid (length (ms_objs st))) r st = Inr st'"
  shows "row_step C rid rel st st'"
proof -
  let ?i = "rid (length (ms_objs st))"
  let ?e = "row_entry rel ''emitted'' (edge_info (Some ?i) [] key ch)"
  have s: "ms_objs st' = ms_objs st @ [rel_obj ?i r]" "ms_seen st' = insert key (ms_seen st)"
    "lg_relationships (ms_ledger st') = lg_relationships (ms_ledger st) @ [?e]"
    using m by (auto simp: emit_row_def and_then_Inr ledger_relationship_row record_object_relationships Let_def)
  have t: "rel_triple_of (rel_obj ?i r) = Some key" "mo_id (rel_obj ?i r) = ?i" "mo_type (rel_obj ?i r) = ''relationship''"
    using r by (simp_all add: rel_triple_of_def rel_obj_def)
  have told: "row_told C (ms_objs st') rel ?e"
    using key(1) row_entry_edge [of "[]" ?i rel "''emitted''" key ch] s(1) t
    by (auto simp: row_told_def outcome_of_def)
  have ids: "rid n \<noteq> ?i" if "n \<ge> length (ms_objs st')" for n
    using that s(1) injD [OF key(3)] by fastforce
  have "rows_inv rid st'" unfolding rows_inv_def
  proof (intro conjI allI impI ballI)
    show "distinct (map mo_id (ms_objs st'))" using inv s(1) t by (auto simp: rows_inv_def)
    show "rid n \<notin> mo_id ` set (ms_objs st')" if "n \<ge> length (ms_objs st')" for n
      using inv that ids [OF that] s(1) t by (auto simp: rows_inv_def)
    show "distinct (sro_triples (ms_objs st'))" using inv s(1) r key(2) by (auto simp: rows_inv_def)
    show "set (sro_triples (ms_objs st')) \<subseteq> ms_seen st'" using inv s(1,2) r by (auto simp: rows_inv_def)
    show "\<exists>x \<in> set (ms_objs st'). mo_type x = ''relationship'' \<and> rel_triple_of x = Some k" if "k \<in> ms_seen st'" for k
      using inv that s(1,2) t by (auto simp: rows_inv_def)
  qed
  then show ?thesis using s told key(1) unfolding row_step_def by auto
qed

lemma add_row_step:
  assumes "rows_inv rid st" "inj rid" "\<And>n k. new_rel n k = Inr (rid n)" "add_row new_rel C rel st = Inr st'"
  shows "row_step C rid rel st st'"
proof (cases "resolve_row C (row_targeted rel) (row_triple rel)")
  case (NotShipped reason info)
  then show ?thesis using assms(4) row_dropped [OF assms(1) NotShipped] by (simp add: add_row_def row_targeted_def)
next
  case (Ships s v t ch)
  let ?key = "(mo_id s, v, mo_id t)" let ?r = "row_sro rel (mo_id s) v (mo_id t)"
  have l: "row_lands C rel = Some ?key" using Ships by (simp add: row_lands_def edge_triple_def)
  have r: "(sr_source ?r, sr_verb ?r, sr_target ?r) = ?key" by (simp add: row_sro_def plain_sro_def)
  have "(if ?key \<in> ms_seen st then merge_row rel ?key ch ?r st else emit_row rel ?key ch (rid (length (ms_objs st))) ?r st) = Inr st'"
    using assms(4) Ships by (simp add: add_row_def row_targeted_def assms(3) Let_def)
  then show ?thesis
    using row_merged [OF assms(1) l _ r] row_emitted [OF assms(1) l _ assms(2) r] by (auto split: if_splits)
qed

lemma row_told_carry:
  assumes "row_told C xs rel e" "\<forall>x \<in> set xs. \<exists>y \<in> set ys. mo_id y = mo_id x \<and> rel_triple_of y = rel_triple_of x"
  shows "row_told C ys rel e"
proof (cases "row_lands C rel")
  case None
  then show ?thesis using assms(1) by (simp add: row_told_def)
next
  case (Some k)
  then obtain x where "x \<in> set xs" "rel_triple_of x = Some k" "map_of e ''stix_id'' = Some (StrV (mo_id x))"
    using assms(1) by (auto simp: row_told_def)
  then have "\<exists>y \<in> set ys. rel_triple_of y = Some k \<and> map_of e ''stix_id'' = Some (StrV (mo_id y))"
    using assms(2) by metis
  then show ?thesis using assms(1) Some by (simp add: row_told_def)
qed

text \<open>After all the rows: the shipped triples are the old ones and those the rows land on, each once, and the
  ledger has a true entry per row, in order.\<close>

definition rows_done :: "row_context \<Rightarrow> llm_rel list \<Rightarrow> row_state \<Rightarrow> row_state \<Rightarrow> bool" where
  "rows_done C rels st st' \<longleftrightarrow> distinct (sro_triples (ms_objs st')) \<and>
     set (sro_triples (ms_objs st')) = set (sro_triples (ms_objs st)) \<union> {k. \<exists>rel \<in> set rels. row_lands C rel = Some k} \<and>
     (\<exists>es. lg_relationships (ms_ledger st') = lg_relationships (ms_ledger st) @ es \<and> list_all2 (row_told C (ms_objs st')) rels es)"

lemma add_rows_done:
  assumes "inj rid" "\<And>n k. new_rel n k = Inr (rid n)"
  shows "rows_inv rid st \<Longrightarrow> add_rows new_rel C rels st = Inr st' \<Longrightarrow> rows_inv rid st' \<and>
    (\<forall>x \<in> set (ms_objs st). \<exists>y \<in> set (ms_objs st'). mo_id y = mo_id x \<and> rel_triple_of y = rel_triple_of x) \<and>
    ms_seen st' = ms_seen st \<union> {k. \<exists>rel \<in> set rels. row_lands C rel = Some k} \<and>
    (\<exists>es. lg_relationships (ms_ledger st') = lg_relationships (ms_ledger st) @ es \<and> list_all2 (row_told C (ms_objs st')) rels es)"
proof (induction rels arbitrary: st)
  case Nil
  then show ?case by (auto simp: add_rows_def)
next
  case (Cons rel rels)
  obtain st1 where st1: "add_row new_rel C rel st = Inr st1" "add_rows new_rel C rels st1 = Inr st'"
    using Cons.prems(2) by (auto simp: add_rows_def and_then_Inr)
  note step = add_row_step [OF Cons.prems(1) assms st1(1), unfolded row_step_def]
  then obtain e where e: "lg_relationships (ms_ledger st1) = lg_relationships (ms_ledger st) @ [e]" "row_told C (ms_objs st1) rel e"
    by blast
  have inv: "rows_inv rid st1" using step by blast
  note ih = Cons.IH [OF inv st1(2)]
  then obtain es where es: "lg_relationships (ms_ledger st') = lg_relationships (ms_ledger st1) @ es"
    "list_all2 (row_told C (ms_objs st')) rels es" by blast
  have told: "row_told C (ms_objs st') rel e" using row_told_carry [OF e(2)] ih by blast
  have "\<forall>x \<in> set (ms_objs st). \<exists>y \<in> set (ms_objs st'). mo_id y = mo_id x \<and> rel_triple_of y = rel_triple_of x"
    using step ih by metis
  moreover have "ms_seen st' = ms_seen st \<union> {k. \<exists>r \<in> set (rel # rels). row_lands C r = Some k}"
    using step ih by (auto simp: elem_set)
  moreover have "lg_relationships (ms_ledger st') = lg_relationships (ms_ledger st) @ (e # es)" using es(1) e(1) by simp
  moreover have "list_all2 (row_told C (ms_objs st')) (rel # rels) (e # es)" using told es(2) by simp
  ultimately show ?case using ih by blast
qed

lemma rows_inv_triples: "rows_inv rid st \<Longrightarrow> set (sro_triples (ms_objs st)) = ms_seen st"
  by (auto simp: rows_inv_def sro_triples_def set_map_filter)

text \<open>C37. The loop over the relationship rows ships each triple once and no other: afterwards the bundle's
  relationships are those it had and those the rows land on, without a duplicate, and the ledger gained
  one entry per row, in order, each true: dropped when the row lands nowhere, else emitted or merged on
  the relationship that ships with its triple.\<close>

lemma add_rows_exact:
  assumes "inj rid" "new_rel = (\<lambda>n k. Inr (rid n))" "rows_inv rid st" "add_rows new_rel C rels st = Inr st'"
  shows "rows_done C rels st st'"
proof -
  have n: "new_rel n k = Inr (rid n)" for n k by (simp add: assms(2))
  note d = add_rows_done [OF assms(1) n assms(3,4)]
  then have "rows_inv rid st'" by blast
  then show ?thesis
    using d rows_inv_triples [OF \<open>rows_inv rid st'\<close>] rows_inv_triples [OF assms(3)] by (auto simp: rows_done_def rows_inv_def)
qed

text \<open>Only dates can stop the loop.\<close>

lemma undated_row: "rl_times rel = [] \<Longrightarrow> \<exists>st'. add_row new_rel C rel st = Inr st'"
  by (auto simp: add_row_def merge_row_def emit_row_def join_times_def Let_def split: row_edge.split sum.split prod.split)

lemma undated_rows: "list_all (\<lambda>rel. rl_times rel = []) rels \<Longrightarrow> \<exists>st'. add_rows new_rel C rels st = Inr st'"
proof (induction rels arbitrary: st)
  case (Cons rel rels)
  obtain st1 where "add_row new_rel C rel st = Inr st1" using undated_row Cons.prems by fastforce
  then show ?case using Cons.IH [of st1] Cons.prems by (simp add: add_rows_def)
qed (simp add: add_rows_def)

definition sample_rid :: "nat \<Rightarrow> string" where
  "sample_rid n = ''relationship--'' @ replicate n (CHR ''0'')"

definition rows_context :: row_context where
  "rows_context = sample_context\<lparr>rc_names := index_add ''apt1'' (plain_obj ''a1'' ''threat-actor'') False
     (index_add ''emotet'' (plain_obj ''m1'' ''malware'') False (rc_names sample_context))\<rparr>"

definition sample_rel :: "string \<Rightarrow> llm_rel" where
  "sample_rel verb = \<lparr>rl_source = ''APT1'', rl_verb = verb, rl_target = ''Emotet'', rl_confidence = 4 / 5, rl_evidence = None,
     rl_label = REPORTED, rl_times = []\<rparr>"

definition rows_start :: row_state where
  "rows_start = \<lparr>ms_objs = [plain_obj ''a1'' ''threat-actor'', plain_obj ''m1'' ''malware''], ms_seen = {},
     ms_ledger = new_ledger, rs_times = []\<rparr>"

lemma add_rows_exact_witness:
  "rows_done rows_context [sample_rel ''uses'', sample_rel '' Uses''] rows_start
     (projr (add_rows (\<lambda>n k. Inr (sample_rid n)) rows_context [sample_rel ''uses'', sample_rel '' Uses''] rows_start))"
proof -
  obtain st' where st': "add_rows (\<lambda>n k. Inr (sample_rid n)) rows_context [sample_rel ''uses'', sample_rel '' Uses''] rows_start = Inr st'"
    using undated_rows [of "[sample_rel ''uses'', sample_rel '' Uses'']" "\<lambda>n k. Inr (sample_rid n)" rows_context rows_start]
    by (auto simp: sample_rel_def)
  have inj: "inj sample_rid" by (rule injI) (simp add: sample_rid_def)
  have "rows_inv sample_rid rows_start"
    by (auto simp: rows_inv_def rows_start_def plain_obj_def sample_rid_def sro_triples_def List.map_filter_def rel_triple_of_def)
  from add_rows_exact [OF inj refl this st'] show ?thesis by (simp add: st')
qed

end
