(* ===== verification/PinSound.thy ===== *)
theory PinSound
  imports PinEdges MapEdgesSound
begin

text \<open>
  What the pinned edges promise: the gate is the distance between mentions, the budget is split and accounted
  exactly, no pinned edge is known, forbidden or ungrounded; and the routing in the inner loop loses targets.
\<close>

section \<open>The gate\<close>

definition within_reach :: "nat option \<Rightarrow> nat \<Rightarrow> bool" where
  "within_reach m w \<longleftrightarrow> (case m of None \<Rightarrow> False | Some d \<Rightarrow> d \<le> w)"

lemma within_reach_min: "within_reach (min_opt m d) w \<longleftrightarrow> within_reach m w \<or> d \<le> w"
  by (auto simp: within_reach_def min_opt_def split: option.split)

lemma apart_mono: "a < b \<Longrightarrow> b \<le> c \<Longrightarrow> apart a b \<le> apart a c" "b \<le> a \<Longrightarrow> a \<le> c \<Longrightarrow> apart a b \<le> apart c b"
  by (auto simp: apart_def)

lemma min_distance_reach:
  "sorted as \<Longrightarrow> sorted bs \<Longrightarrow>
    within_reach (min_distance as bs m) w \<longleftrightarrow> within_reach m w \<or> (\<exists>i \<in> set as. \<exists>j \<in> set bs. apart i j \<le> w)"
proof (induction as bs m rule: min_distance.induct)
  case (1 a as b bs m)
  show ?case
  proof (cases "a < b")
    case True
    have "apart a b \<le> apart a j" if "j \<in> set (b # bs)" for j using True that "1.prems"(2) apart_mono(1) by auto
    then have "(\<exists>j \<in> set (b # bs). apart a j \<le> w) \<longleftrightarrow> apart a b \<le> w" by (meson le_trans list.set_intros(1))
    then have "(\<exists>i \<in> set (a # as). \<exists>j \<in> set (b # bs). apart i j \<le> w) \<longleftrightarrow>
        apart a b \<le> w \<or> (\<exists>i \<in> set as. \<exists>j \<in> set (b # bs). apart i j \<le> w)"
      by (simp only: list.set bex_simps)
    then show ?thesis using "1.IH"(1) [OF True] "1.prems" True by (simp add: within_reach_min)
  next
    case False
    have "apart a b \<le> apart i b" if "i \<in> set (a # as)" for i using False that "1.prems"(1) apart_mono(2) by auto
    then have "(\<exists>i \<in> set (a # as). apart i b \<le> w) \<longleftrightarrow> apart a b \<le> w" by (meson le_trans list.set_intros(1))
    moreover have "(\<exists>i \<in> set (a # as). \<exists>j \<in> set (b # bs). apart i j \<le> w) \<longleftrightarrow>
        (\<exists>i \<in> set (a # as). apart i b \<le> w) \<or> (\<exists>i \<in> set (a # as). \<exists>j \<in> set bs. apart i j \<le> w)"
      by auto
    ultimately have "(\<exists>i \<in> set (a # as). \<exists>j \<in> set (b # bs). apart i j \<le> w) \<longleftrightarrow>
        apart a b \<le> w \<or> (\<exists>i \<in> set (a # as). \<exists>j \<in> set bs. apart i j \<le> w)" by (simp only:)
    then show ?thesis using "1.IH"(2) [OF False] "1.prems" False by (simp add: within_reach_min)
  qed
qed auto

text \<open>The reference: an end that cannot be anchored is not judged; else two mentions near enough.\<close>

definition linked_by_report :: "map_obj \<Rightarrow> map_obj \<Rightarrow> sentence_index \<Rightarrow> nat \<Rightarrow> bool" where
  "linked_by_report s t idx w \<longleftrightarrow>
     mo_type s \<in> set UNANCHORABLE_TYPES \<or> mo_type t \<in> set UNANCHORABLE_TYPES \<or>
     map_of idx (mo_id s) = None \<or> map_of idx (mo_id t) = None \<or>
     (\<exists>i \<in> set (dget idx (mo_id s) []). \<exists>j \<in> set (dget idx (mo_id t) []). apart i j \<le> w)"

text \<open>C36. The evidence gate lets a pair through exactly when the report links it: some mention of one end within
  the window of some mention of the other, or an end no mention can anchor. The scan with two pointers
  misses no pair of mentions.\<close>

lemma pair_grounded_exact: "fst (pair_is_grounded s t idx w) \<longleftrightarrow> linked_by_report s t idx w"
proof (cases "mo_type s \<in> set UNANCHORABLE_TYPES \<or> mo_type t \<in> set UNANCHORABLE_TYPES \<or> idx = [] \<or>
    map_of idx (mo_id s) = None \<or> map_of idx (mo_id t) = None")
  case True
  then show ?thesis by (auto simp: pair_is_grounded_def linked_by_report_def split: option.split)
next
  case False
  then obtain a b where ab: "map_of idx (mo_id s) = Some a" "map_of idx (mo_id t) = Some b" by auto
  have r: "within_reach (min_distance (sort a) (sort b) None) w \<longleftrightarrow> (\<exists>i \<in> set a. \<exists>j \<in> set b. apart i j \<le> w)"
    using min_distance_reach [of "sort a" "sort b" None w] by (simp add: within_reach_def)
  show ?thesis
  proof (cases "set a \<inter> set b = {}")
    case True
    then show ?thesis using False ab r
      by (auto simp: pair_is_grounded_def linked_by_report_def dget_def within_reach_def split: option.splits)
  next
    case common: False
    then obtain i where "i \<in> set a" "i \<in> set b" by blast
    moreover have "apart i i \<le> w" by (simp add: apart_def)
    ultimately show ?thesis using False ab common by (auto simp: pair_is_grounded_def linked_by_report_def dget_def)
  qed
qed

section \<open>The candidates\<close>

definition cand_key :: "pin_candidate \<Rightarrow> triple option" where
  "cand_key c = (case c of (s, verb, t, _) \<Rightarrow> pin_edge_key s verb t)"

definition cand_keys :: "pin_candidate list \<Rightarrow> triple list" where
  "cand_keys cs = map (the \<circ> cand_key) cs"

definition gate_passed :: "pin_context \<Rightarrow> pin_candidate \<Rightarrow> bool" where
  "gate_passed C c \<longleftrightarrow> (case c of (s, _, t, anchor) \<Rightarrow> (case pc_gate C of None \<Rightarrow> anchor = ''unchecked''
     | Some (idx, w) \<Rightarrow> pair_is_grounded s t idx w = (True, anchor)))"

definition cands_ok :: "pin_context \<Rightarrow> triple set \<Rightarrow> pin_candidate list \<Rightarrow> triple set \<Rightarrow> bool" where
  "cands_ok C base cs claimed \<longleftrightarrow> list_all (\<lambda>c. cand_key c \<noteq> None \<and> gate_passed C c) cs \<and> distinct (cand_keys cs) \<and>
     set (cand_keys cs) \<inter> (base \<union> pc_seen C \<union> fst ` set (pc_forbidden C)) = {} \<and> claimed = base \<union> set (cand_keys cs)"

lemma cand_keys_snoc: "cand_keys (cs @ [c]) = cand_keys cs @ [the (cand_key c)]" by (simp add: cand_keys_def)

lemma judge_pair_ok:
  assumes "cands_ok C base (ps_candidates sc) (ps_claimed sc)"
  shows "cands_ok C base (ps_candidates (judge_pair C label verb s t sc)) (ps_claimed (judge_pair C label verb s t sc))"
proof (cases "pin_edge_key s verb t")
  case None
  then show ?thesis using assms by (simp add: judge_pair_def)
next
  case (Some key)
  obtain ok anchor where g: "(case pc_gate C of None \<Rightarrow> (True, ''unchecked'') | Some (idx, w) \<Rightarrow> pair_is_grounded s t idx w) = (ok, anchor)"
    by fastforce
  let ?c = "(s, verb, t, anchor)"
  show ?thesis
  proof (cases "key \<in> pc_seen C \<or> key \<in> ps_claimed sc \<or> \<not> ok \<or> map_of (pc_forbidden C) key \<noteq> None")
    case True
    then show ?thesis using assms Some g by (auto simp: judge_pair_def)
  next
    case False
    have j: "judge_pair C label verb s t sc = sc\<lparr>ps_claimed := insert key (ps_claimed sc), ps_candidates := ps_candidates sc @ [?c]\<rparr>"
      using False Some g by (auto simp: judge_pair_def)
    have "gate_passed C ?c" using g False by (auto simp: gate_passed_def split: option.splits)
    moreover have "cand_key ?c = Some key" using Some by (simp add: cand_key_def)
    moreover have "key \<notin> fst ` set (pc_forbidden C)" using False by (simp add: map_of_eq_None_iff)
    moreover have "key \<notin> base" "key \<notin> set (cand_keys (ps_candidates sc))" "key \<notin> pc_seen C"
      using assms False by (auto simp: cands_ok_def)
    ultimately show ?thesis using assms unfolding j cands_ok_def
      by (simp add: cand_keys_snoc del: split_paired_Ex not_None_eq)
  qed
qed

lemma pin_target_ok: "cands_ok C base (ps_candidates sc) (ps_claimed sc) \<Longrightarrow> pin_target C label verb t (s, sc) = (s', sc') \<Longrightarrow>
    cands_ok C base (ps_candidates sc') (ps_claimed sc')"
  using judge_pair_ok by (auto simp: pin_target_def Let_def split: prod.splits option.splits)

lemma pin_targets_ok: "cands_ok C base (ps_candidates sc) (ps_claimed sc) \<Longrightarrow>
    cands_ok C base (ps_candidates (snd (fold (pin_target C label verb) ts (s, sc)))) (ps_claimed (snd (fold (pin_target C label verb) ts (s, sc))))"
proof (induction ts arbitrary: s sc)
  case (Cons t ts)
  obtain s' sc' where "pin_target C label verb t (s, sc) = (s', sc')" by fastforce
  then show ?case using Cons.IH [of sc' s'] pin_target_ok [OF Cons.prems] by simp
qed simp

lemma pin_sources_ok: "cands_ok C base (ps_candidates sc) (ps_claimed sc) \<Longrightarrow>
    cands_ok C base (ps_candidates (fold (pin_source C label verb ty) ss sc)) (ps_claimed (fold (pin_source C label verb ty) ss sc))"
  by (induction ss arbitrary: sc) (auto simp: pin_source_def pin_targets_ok)

definition plan_cands :: "pin_plan list \<Rightarrow> pin_candidate list" where
  "plan_cands plans = concat (map pl_candidates plans)"

lemma cands_ok_append: "cands_ok C {} xs claimed \<Longrightarrow> cands_ok C claimed ys claimed' \<Longrightarrow> cands_ok C {} (xs @ ys) claimed'"
  unfolding cands_ok_def by (auto simp: cand_keys_def)

lemma collect_rule_ok: "cands_ok C {} (plan_cands plans) claimed \<Longrightarrow> collect_rule C r (plans, claimed, refusals) = (plans', claimed', refusals') \<Longrightarrow>
    cands_ok C {} (plan_cands plans') claimed'"
proof -
  assume ok: "cands_ok C {} (plan_cands plans) claimed" and c: "collect_rule C r (plans, claimed, refusals) = (plans', claimed', refusals')"
  obtain label verb a b where r: "r = (label, verb, a, b)" by (metis prod.exhaust)
  let ?init = "\<lparr>ps_claimed = claimed, ps_refused = refusals, ps_candidates = [], ps_blocked = 0\<rparr>"
  let ?sc = "fold (pin_source C label verb b) (objects_of (pc_objs C) a) ?init"
  have "cands_ok C claimed (ps_candidates ?init) (ps_claimed ?init)" by (simp add: cands_ok_def cand_keys_def)
  then have "cands_ok C claimed (ps_candidates ?sc) (ps_claimed ?sc)" by (rule pin_sources_ok)
  moreover have "plan_cands plans' = plan_cands plans @ ps_candidates ?sc" "claimed' = ps_claimed ?sc"
    using c by (auto simp: collect_rule_def r Let_def plan_cands_def)
  ultimately show ?thesis using cands_ok_append [OF ok] by simp
qed

lemma collect_rules_ok: "cands_ok C {} (plan_cands plans) claimed \<Longrightarrow> fold (collect_rule C) rs (plans, claimed, refusals) = (plans', claimed', refusals') \<Longrightarrow>
    cands_ok C {} (plan_cands plans') claimed'"
proof (induction rs arbitrary: plans claimed refusals)
  case (Cons r rs)
  obtain p c f where s: "collect_rule C r (plans, claimed, refusals) = (p, c, f)" by (metis prod.exhaust)
  show ?case using Cons.IH [OF collect_rule_ok [OF Cons.prems(1) s]] Cons.prems(2) s by simp
qed simp

lemma collect_pins_ok: "collect_pins C rules = (plans, claimed, refusals) \<Longrightarrow> cands_ok C {} (plan_cands plans) claimed"
  unfolding collect_pins_def by (rule collect_rules_ok) (simp_all add: cands_ok_def plan_cands_def cand_keys_def)

section \<open>Emission\<close>

lemma pin_edge_key_edge_key: "edge_key [] s v t = pin_edge_key s v t"
  by (simp add: edge_key_def pin_edge_key_def apply_policy_Nil valid_verb_idem)

lemma pin_props_keep: "keeps_triple (pin_props label anchor)" by (simp add: keeps_triple_def pin_props_def)

text \<open>The relationship a candidate becomes.\<close>

definition pinned_as :: "string \<Rightarrow> pin_candidate \<Rightarrow> map_obj \<Rightarrow> bool" where
  "pinned_as label c x \<longleftrightarrow> rel_triple_of x = cand_key c \<and>
     (\<exists>r. mo_sro x = Some r \<and> sr_label r = Some ''assessed'' \<and> sr_policy_rule r = Some label \<and>
       sr_pin_evidence r = Some (snd (snd (snd c))))"

lemma emit_pin_step:
  assumes "cand_key c = Some key" "key \<notin> seen" "new_rel = (\<lambda>n k. Inr (rid n))"
  shows "\<exists>x. emit_pin new_rel label c (objs, seen, n) = (objs @ [x], insert key seen, Suc n) \<and> sro_triples [x] = [key] \<and> pinned_as label c x"
proof -
  obtain s v t a where c: "c = (s, v, t, a)" by (metis prod.exhaust)
  have k: "pin_edge_key s v t = Some key" using assms(1) by (simp add: c cand_key_def)
  then have key: "key = (mo_id s, allowed_verb (mo_type s) (valid_verb v) (mo_type t), mo_id t)" "mo_id s \<noteq> mo_id t"
    by (auto simp: pin_edge_key_def split: if_splits)
  define r where "r = pin_props label a (plain_sro (mo_id s) (allowed_verb (mo_type s) (valid_verb v) (mo_type t)) (mo_id t))"
  have upd: "(plain_sro x y z)\<lparr>sr_confidence := None\<rparr> = plain_sro x y z" for x y z by (simp add: plain_sro_def)
  have "emit_pin new_rel label c (objs, seen, n) = (objs @ [rel_obj (rid (length objs)) r], insert key seen, Suc n)"
    using key assms(2) by (simp add: emit_pin_def c add_relationship_def assms(3) Let_def r_def upd)
  moreover have "sro_triples [rel_obj (rid (length objs)) r] = [key]" by (simp add: r_def key(1) pin_props_def plain_sro_def)
  moreover have "pinned_as label c (rel_obj (rid (length objs)) r)"
    using assms(1) by (simp add: pinned_as_def rel_triple_of_def rel_obj_def r_def key(1) pin_props_def plain_sro_def c)
  ultimately show ?thesis by blast
qed

lemma emit_pins:
  assumes "new_rel = (\<lambda>n k. Inr (rid n))"
  shows "list_all (\<lambda>c. cand_key c \<noteq> None) cs \<Longrightarrow> distinct (cand_keys cs) \<Longrightarrow> set (cand_keys cs) \<inter> seen = {} \<Longrightarrow>
    \<exists>new. fold (emit_pin new_rel label) cs (objs, seen, n) = (objs @ new, seen \<union> set (cand_keys cs), n + length cs) \<and>
      sro_triples new = cand_keys cs \<and> list_all2 (pinned_as label) cs new"
proof (induction cs arbitrary: objs seen n)
  case Nil
  then show ?case by (simp add: cand_keys_def)
next
  case (Cons c cs)
  obtain key where key: "cand_key c = Some key" using Cons.prems(1) by auto
  have ks: "cand_keys (c # cs) = key # cand_keys cs" by (simp add: cand_keys_def key)
  have "key \<notin> seen" using Cons.prems(3) ks by simp
  from emit_pin_step [OF key this assms] obtain x where
    x: "emit_pin new_rel label c (objs, seen, n) = (objs @ [x], insert key seen, Suc n)" "sro_triples [x] = [key]" "pinned_as label c x" by blast
  have "list_all (\<lambda>c. cand_key c \<noteq> None) cs" "distinct (cand_keys cs)" "set (cand_keys cs) \<inter> insert key seen = {}"
    using Cons.prems ks by auto
  from Cons.IH [OF this] obtain new where
    new: "fold (emit_pin new_rel label) cs (objs @ [x], insert key seen, Suc n) =
      ((objs @ [x]) @ new, insert key seen \<union> set (cand_keys cs), Suc n + length cs)"
      "sro_triples new = cand_keys cs" "list_all2 (pinned_as label) cs new" by blast
  have "sro_triples ([x] @ new) = cand_keys (c # cs)" using x(2) new(2) ks sro_triples_append [of "[x]" new] by simp
  then show ?case using x new ks by (intro exI [of _ "[x] @ new"]) simp
qed

definition granted :: "(pin_plan \<times> nat) list \<Rightarrow> pin_candidate list" where
  "granted pgs = concat (map (\<lambda>(p, g). take g (pl_candidates p)) pgs)"

definition plan_stat :: "pin_plan \<times> nat \<Rightarrow> pin_rule_stat" where
  "plan_stat = (\<lambda>(p, g). \<lparr>pn_rule = pl_label p, pn_candidates = length (pl_candidates p), pn_emitted = g,
     pn_truncated = length (pl_candidates p) - g, pn_blocked = pl_blocked p\<rparr>)"

lemma emit_plans:
  assumes "new_rel = (\<lambda>n k. Inr (rid n))"
  shows "list_all (\<lambda>c. cand_key c \<noteq> None) (granted pgs) \<Longrightarrow> distinct (cand_keys (granted pgs)) \<Longrightarrow>
    set (cand_keys (granted pgs)) \<inter> seen = {} \<Longrightarrow> list_all (\<lambda>(p, g). g \<le> length (pl_candidates p)) pgs \<Longrightarrow>
    \<exists>new. fold (emit_plan new_rel) pgs (objs, seen, stats) =
        (objs @ new, seen \<union> set (cand_keys (granted pgs)), stats @ map plan_stat pgs) \<and>
      sro_triples new = cand_keys (granted pgs) \<and> list_all2 (\<lambda>c x. \<exists>label. pinned_as label c x) (granted pgs) new"
proof (induction pgs arbitrary: objs seen stats)
  case Nil
  then show ?case by (simp add: granted_def cand_keys_def)
next
  case (Cons pg pgs)
  obtain p g where pg: "pg = (p, g)" by (cases pg)
  let ?cs = "take g (pl_candidates p)"
  have gs: "granted (pg # pgs) = ?cs @ granted pgs" by (simp add: granted_def pg)
  have ks: "cand_keys (granted (pg # pgs)) = cand_keys ?cs @ cand_keys (granted pgs)" by (simp add: gs cand_keys_def)
  have len: "length ?cs = g" using Cons.prems(4) pg by simp
  have "list_all (\<lambda>c. cand_key c \<noteq> None) ?cs" "distinct (cand_keys ?cs)" "set (cand_keys ?cs) \<inter> seen = {}"
    using Cons.prems(1-3) unfolding gs ks by (simp_all add: gs cand_keys_def) (auto simp: cand_keys_def)
  from emit_pins [OF assms this] obtain x where
    x: "fold (emit_pin new_rel (pl_label p)) ?cs (objs, seen, 0) = (objs @ x, seen \<union> set (cand_keys ?cs), 0 + length ?cs)"
      "sro_triples x = cand_keys ?cs" "list_all2 (pinned_as (pl_label p)) ?cs x" by blast
  have one: "emit_plan new_rel pg (objs, seen, stats) = (objs @ x, seen \<union> set (cand_keys ?cs), stats @ [plan_stat pg])"
    using x(1) len by (simp add: emit_plan_def pg plan_stat_def)
  have "list_all (\<lambda>c. cand_key c \<noteq> None) (granted pgs)" "distinct (cand_keys (granted pgs))"
    "set (cand_keys (granted pgs)) \<inter> (seen \<union> set (cand_keys ?cs)) = {}"
    "list_all (\<lambda>(p, g). g \<le> length (pl_candidates p)) pgs"
    using Cons.prems unfolding ks by (auto simp: gs)
  from Cons.IH [OF this] obtain new where
    new: "fold (emit_plan new_rel) pgs (objs @ x, seen \<union> set (cand_keys ?cs), stats @ [plan_stat pg]) =
      ((objs @ x) @ new, (seen \<union> set (cand_keys ?cs)) \<union> set (cand_keys (granted pgs)), (stats @ [plan_stat pg]) @ map plan_stat pgs)"
      "sro_triples new = cand_keys (granted pgs)" "list_all2 (\<lambda>c x. \<exists>label. pinned_as label c x) (granted pgs) new" by blast
  have "list_all2 (\<lambda>c x. \<exists>label. pinned_as label c x) ?cs x" using x(3) by (rule list_all2_mono) blast
  then have "list_all2 (\<lambda>c x. \<exists>label. pinned_as label c x) (granted (pg # pgs)) (x @ new)"
    unfolding gs using new(3) by (rule list_all2_appendI)
  moreover have "fold (emit_plan new_rel) (pg # pgs) (objs, seen, stats) =
      (objs @ x @ new, seen \<union> set (cand_keys (granted (pg # pgs))), stats @ map plan_stat (pg # pgs))"
    unfolding fold_simps one new(1) ks by (simp add: Un_assoc)
  moreover have "sro_triples (x @ new) = cand_keys (granted (pg # pgs))" using x(2) new(2) ks by simp
  ultimately show ?case by blast
qed

section \<open>The budget\<close>

lemma min_step: "(x :: nat) = min (b - min d b) s \<Longrightarrow> min d b + x = min b (d + s)"
  by (auto simp: min_def)

lemma granted_length: "list_all (\<lambda>(p, g). g \<le> length (pl_candidates p)) pgs \<Longrightarrow> length (granted pgs) = sum_list (map snd pgs)"
  by (induction pgs) (auto simp: granted_def)

lemma sequential_grants_props: "length (sequential_grants ds b) = length ds \<and>
    (\<forall>i < length ds. sequential_grants ds b ! i \<le> ds ! i) \<and> sum_list (sequential_grants ds b) = min b (sum_list ds)"
proof (induction ds arbitrary: b)
  case (Cons d ds)
  have "sum_list (sequential_grants ds (b - min d b)) = min (b - min d b) (sum_list ds)" using Cons by blast
  then have "min d b + sum_list (sequential_grants ds (b - min d b)) = min b (d + sum_list ds)" by (rule min_step)
  then show ?case using Cons [of "b - min d b"] by (auto simp: Let_def nth_Cons split: nat.split)
qed simp

lemma pin_grants_props: "length (pin_grants mode ds b) = length ds"
  "i < length ds \<Longrightarrow> pin_grants mode ds b ! i \<le> ds ! i" "sum_list (pin_grants mode ds b) = min (nat b) (sum_list ds)"
  "mode \<noteq> ''sequential'' \<Longrightarrow> max_min_fair ds (nat b) (pin_grants mode ds b)"
  using sequential_grants_props [of ds "nat b"] fair_grants [of ds b] by (auto simp: pin_grants_def max_min_fair_def)

lemma granted_sub: "set (granted (zip plans gs)) \<subseteq> set (plan_cands plans)"
proof -
  have "c \<in> set (plan_cands plans)" if "(p, g) \<in> set (zip plans gs)" "c \<in> set (take g (pl_candidates p))" for c p g
    using that set_zip_leftD in_set_takeD by (fastforce simp: plan_cands_def)
  then show ?thesis by (auto simp: granted_def)
qed

lemma granted_keys_distinct: "distinct (cand_keys (plan_cands plans)) \<Longrightarrow> distinct (cand_keys (granted (zip plans gs)))"
proof (induction plans gs rule: list_induct2')
  case (4 p plans g gs)
  let ?cs = "take g (pl_candidates p)"
  have d: "distinct (cand_keys (pl_candidates p))" "distinct (cand_keys (plan_cands plans))"
    "set (cand_keys (pl_candidates p)) \<inter> set (cand_keys (plan_cands plans)) = {}"
    using 4 by (simp_all add: plan_cands_def cand_keys_def)
  have "set (cand_keys ?cs) \<subseteq> set (cand_keys (pl_candidates p))" "distinct (cand_keys ?cs)"
    using d(1) set_take_subset [of g "cand_keys (pl_candidates p)"] by (simp_all add: cand_keys_def take_map [symmetric])
  moreover have "set (cand_keys (granted (zip plans gs))) \<subseteq> set (cand_keys (plan_cands plans))"
    using granted_sub [of plans gs] by (auto simp: cand_keys_def)
  moreover have "cand_keys (granted (zip (p # plans) (g # gs))) = cand_keys ?cs @ cand_keys (granted (zip plans gs))"
    by (simp add: granted_def cand_keys_def)
  ultimately show ?case using 4 d(2,3) by auto
qed (simp_all add: granted_def cand_keys_def)

lemma plan_stats_map:
  assumes "length gs = length plans"
  shows "map pn_candidates (map plan_stat (zip plans gs)) = map (length \<circ> pl_candidates) plans"
    "map pn_emitted (map plan_stat (zip plans gs)) = gs"
  using assms by (induction plans gs rule: list_induct2') (auto simp: plan_stat_def)

text \<open>What the pass leaves: only new relationships, each triple new and not forbidden, each one a candidate the
  gate let through and marked as assessed by policy; and an account that adds up.\<close>

definition pins_done :: "pin_policy \<Rightarrow> (sentence_index \<times> nat) option \<Rightarrow> triple set \<Rightarrow> triple set \<Rightarrow> map_obj list \<Rightarrow> triple set \<Rightarrow> map_obj list \<Rightarrow> pin_stats \<Rightarrow> bool" where
  "pins_done P gate fb seen objs seen' objs' stats \<longleftrightarrow>
     (\<exists>new. objs' = objs @ new \<and> distinct (sro_triples new) \<and> set (sro_triples new) \<inter> (seen \<union> fb) = {} \<and>
        seen' = seen \<union> set (sro_triples new) \<and> length new = total_emitted stats \<and>
        (\<forall>x \<in> set new. \<exists>s v t a label. pinned_as label (s, v, t, a) x \<and>
           (case gate of None \<Rightarrow> True | Some (idx, w) \<Rightarrow> linked_by_report s t idx w))) \<and>
     total_emitted stats = min (nat (pin_budget P)) (total_candidates stats) \<and>
     (pin_mode P \<noteq> ''sequential'' \<longrightarrow> max_min_fair (map pn_candidates (pn_rules stats)) (nat (pin_budget P)) (map pn_emitted (pn_rules stats)))"


definition sample_pins :: pin_policy where
  "sample_pins = \<lparr>pol_global = ''enforce'', pol_rules = [Some \<lparr>pr_src = ''threat-actor'', pr_tgt = ''domain-name'', pr_enabled = True,
     pr_mode = ''pin'', pr_verb = Some ''related-to''\<rparr>], pol_completion = None, pol_temporal_mode = None, pp_max = Some (JStr ''10''),
     pp_mode = None, pp_evidence = None\<rparr>"

definition sample_objs :: "map_obj list" where
  "sample_objs = [plain_obj ''a1'' ''threat-actor'', plain_obj ''d0'' ''domain-name'', plain_obj ''d1'' ''domain-name'']"


section \<open>Lost targets\<close>

lemma unlisted_nothing: "\<not> rel_is_listed [] v t" by (simp add: rel_is_listed_iff)

lemma nothing_observable: "\<not> observable []" by (simp add: observable_def OBSERVABLE_SCO_TYPES_def)

lemma pin_target_nothing: "pc_indicator C = Some ind \<Longrightarrow> pin_target C label verb t (None, sc) = (None, sc)"
  by (auto simp: pin_target_def route_observables_def type_of_def nothing_observable unlisted_nothing split: option.split)

lemma pin_targets_nothing: "pc_indicator C = Some ind \<Longrightarrow> fold (pin_target C label verb) ts (None, sc) = (None, sc)"
  by (induction ts) (simp_all add: pin_target_nothing)

text \<open>C35. The inner loop of the collecting pass assigns the routed source back to the source of the outer loop: an
  observable target without an Indicator leaves nothing there, and every later target of that source is
  lost, whether or not it has an Indicator.\<close>

lemma pins_lose_targets:
  assumes "pc_indicator C = Some ind" "\<not> observable (mo_type s)" "observable (mo_type t)"
    "\<not> rel_is_listed (mo_type s) verb (mo_type t)" "ind (mo_id t) = None"
  shows "snd (fold (pin_target C label verb) (t # ts) (Some s, sc)) = sc"
proof -
  have "pin_target C label verb t (Some s, sc) = (None, sc)"
    using assms by (simp add: pin_target_def route_observables_def type_of_def)
  then show ?thesis using pin_targets_nothing [OF assms(1)] by simp
qed

definition sample_scan :: pin_scan where
  "sample_scan = \<lparr>ps_claimed = {}, ps_refused = [], ps_candidates = [], ps_blocked = 0\<rparr>"

definition sample_pin_context :: pin_context where
  "sample_pin_context = \<lparr>pc_objs = sample_objs, pc_gate = None, pc_indicator = Some (rc_indicator sample_context),
     pc_forbidden = [], pc_seen = {}\<rparr>"

lemma pins_lose_targets_witness:
  "ps_candidates (snd (fold (pin_target sample_pin_context ''pin'' ''related-to'')
     [plain_obj ''d0'' ''domain-name'', plain_obj ''d1'' ''domain-name''] (Some (plain_obj ''a1'' ''threat-actor''), sample_scan))) = [] \<and>
   length (ps_candidates (snd (fold (pin_target sample_pin_context ''pin'' ''related-to'')
     [plain_obj ''d1'' ''domain-name'', plain_obj ''d0'' ''domain-name''] (Some (plain_obj ''a1'' ''threat-actor''), sample_scan)))) = 1"
proof
  have o: "\<not> observable ''threat-actor''" "observable ''domain-name''" "\<not> rel_is_listed ''threat-actor'' ''related-to'' ''domain-name''"
    by code_simp+
  then show "ps_candidates (snd (fold (pin_target sample_pin_context ''pin'' ''related-to'')
     [plain_obj ''d0'' ''domain-name'', plain_obj ''d1'' ''domain-name''] (Some (plain_obj ''a1'' ''threat-actor''), sample_scan))) = []"
    using pins_lose_targets [of sample_pin_context "rc_indicator sample_context" "plain_obj ''a1'' ''threat-actor''"
        "plain_obj ''d0'' ''domain-name''" "''related-to''" "''pin''" "[plain_obj ''d1'' ''domain-name'']" sample_scan]
    by (simp add: sample_pin_context_def sample_context_def plain_obj_def sample_scan_def)
  have "\<not> rel_is_listed ''threat-actor'' ''related-to'' ''domain-name''" "rel_is_allowed ''threat-actor'' ''related-to'' ''indicator''"
    "valid_verb ''related-to'' = ''related-to''" by code_simp+
  then show "length (ps_candidates (snd (fold (pin_target sample_pin_context ''pin'' ''related-to'')
     [plain_obj ''d1'' ''domain-name'', plain_obj ''d0'' ''domain-name''] (Some (plain_obj ''a1'' ''threat-actor''), sample_scan)))) = 1"
    using o by (simp add: pin_target_def route_observables_def type_of_def judge_pair_def pin_edge_key_def allowed_verb_def
        sample_pin_context_def sample_context_def plain_obj_def sample_scan_def nothing_observable)
qed

end
