(* ===== verification/Spec2Isabelle.thy ===== *)
theory Spec2Isabelle
  imports RelSpec Dedup TimeText Temporal Aliases CompletionSound QueueSteps QueueLoop CalibrationSound BodyLimit LedgerSound PromotionSound MigrateSound ExtractSound Chunks NerSound NamedSound MitreSound LlmSound Validate LlmParseSound LlmNormalSound
    PinSound
begin

text \<open>
  CTIParser turns a threat report (a PDF, a page, a text) into a STIX 2.1 bundle: text is extracted and
  refanged, regular expressions and NER models find indicators and names (stage 2), a language model is
  asked for techniques and relationships chunk by chunk (stage 3), its answers are checked against the
  text, normalised to ATT\&CK, merged, mapped to STIX objects (stage 4) and the graph is completed
  (stage 4b); analysts then accept or reject rows, and the decisions feed calibrated cutoffs, deny and
  promote rules and the next runs. A web API with a PostgreSQL job queue and a store of detection rules
  stand around the pipeline. This library models the parts that decide something and leaves out the
  parts that only carry data. Paths are relative to src/.

  \<^bold>\<open>Theories and the code they model.\<close>

  \<^item> \<open>Prelude\<close>: Latin-1 strings with Python's case, \<open>strip\<close>, \<open>split\<close> and search, dicts as association
    lists in insertion order, the exceptions met (\<open>py_exc\<close>). \<open>Dates\<close>: \<open>date\<close>/\<open>datetime\<close> arithmetic.
    \<open>Regex\<close>: a backtracking matcher with guards (alternatives in order, greedy repetition), total by
    structural recursion, with \<open>search\<close>, \<open>finditer\<close> and \<open>sub\<close>.
  \<^item> \<open>Schemas\<close>, \<open>RelSpec\<close>: models/schemas.py, pipeline/stix_rel_spec.py.
  \<^item> \<open>Refang\<close>, \<open>Hashes\<close>, \<open>NetworkIocs\<close>, \<open>Extract\<close>: pipeline/stage2_extraction.py and
    pipeline/regex_safety.py; properties in \<open>Refang\<close>, \<open>Hashes\<close>, \<open>ExtractSound\<close>.
  \<^item> \<open>Chunks\<close>, \<open>Ner\<close>, \<open>NerSound\<close>: pipeline/stage2d_cyner.py, stage2e_gliner.py, ner_precision.py and
    the spaCy part of stage 2. \<open>NamedEntities\<close>, \<open>NamedSound\<close>: pipeline/base.py, named_entities.py.
  \<^item> \<open>LlmParse\<close>, \<open>LlmNormal\<close>, \<open>LlmMerge\<close> with \<open>LlmParseSound\<close>, \<open>LlmNormalSound\<close>, \<open>LlmSound\<close>:
    pipeline/stage3_llm.py (reading an answer, its normalisation, the validation loop, the merge over
    chunks) and stage3e_consensus.py. \<open>Validate\<close>: stage3b_validate.py. \<open>MitreNorm\<close>, \<open>MitreSound\<close>:
    stage3c_mitre.py.
  \<^item> \<open>MapRows\<close>, \<open>MapRowsSound\<close> (how a relationship row resolves, what the refused rows forbid), \<open>MapEdges\<close>,
    \<open>MapEdgesSound\<close> (the targets product, the loop over the rows with its ledger and its dates), \<open>FairShare\<close>
    (the budget of pinned edges), \<open>PinEdges\<close>, \<open>PinSound\<close> (the evidence gate and the pinned edges):
    pipeline/stage4_stix_mapping.py.
  \<^item> \<open>TimeText\<close>, \<open>Temporal\<close>: pipeline/temporal.py. \<open>Aliases\<close>: pipeline/aliases.py.
  \<^item> \<open>UnionFind\<close>, \<open>StixGraph\<close>, \<open>AliasMerge\<close>, \<open>Completion\<close> with \<open>AliasSound\<close>, \<open>CompletionSound\<close>:
    pipeline/stage4b_graph_completion.py. \<open>Ledger\<close>, \<open>LedgerSound\<close>: pipeline/bundle_ledger.py.
  \<^item> \<open>Dedup\<close>: pipeline/detection/dedup.py over the three SQL tables as row lists.
  \<^item> \<open>Decisions\<close>, \<open>Calibration\<close>, \<open>CalibrationFit\<close>, \<open>CalibrationSound\<close>, \<open>Overrides\<close>, \<open>Promotion\<close>,
    \<open>PromotionSound\<close>: pipeline/decisions.py, calibration.py, thresholds.py, overrides.py, promotion.py and
    the routes api/routes/thresholds.py and overrides.py.
  \<^item> \<open>JobQueue\<close>, \<open>QueueSteps\<close>, \<open>QueueLoop\<close>: api/queue_loop.py with the parts of api/db.py, api/worker.py and
    api/routes/jobs.py it relies on. \<open>BodyLimit\<close>: api/body_limit.py. \<open>Migrate\<close>, \<open>MigrateSound\<close>:
    api/migrate.py, api/migrations/__init__.py, api/db_identity.py.

  \<^bold>\<open>How the model follows the code.\<close> Names are the source's, without a leading underscore and without a
  clash with a constant of the library. A record is a class, a row or a request; a dict whose order is
  observable is an association list; a loop is a fold or a recursion; a raise is \<open>Inl\<close> of an exception
  or of the component's error type. Handlers are whole: a definition follows every branch and early
  return of its function, log lines aside. State is passed explicitly; a SQL statement is a map or a
  filter over a list of rows in the order the query returns them. The queue is the one component with
  several processes: \<open>QueueSteps\<close> interleaves their statements in an inductive step relation.

  \<^bold>\<open>What the lemmas show.\<close>

  \<^item> Extraction: refanging keeps offsets true; every hash is a labelled or whole block and none is
    missed; the IPv4 addresses are exactly the guarded dotted quads; each value has its type's form;
    the windows of the NER models are bounded, cover the text and cut no name shorter than the overlap.
  \<^item> Names: a value has the types of its best-ranked source, exactly, and merging stages loses no value.
  \<^item> LLM answers: salvage returns complete slices only; normalisation always has the schema's shape; a
    name kept by the hallucination filter is in the text, its context or the allow list, and an
    identifier only verbatim; the technique list has one entry per technique, with real quotes; the
    merge has one entry per claim, the best supported, with all its dates.
  \<^item> Dates: a quote located in a chunk reads as folded there; contradictions are marked consistently;
    what is exported natively never inverts an interval.
  \<^item> Mapping: the rule the interface shares predicts the verb that ships; a refused row forbids exactly its
    triple (and its reverse where the verb has no direction); each triple ships once and the ledger says
    truly what became of each row; pinned edges keep their budget, the evidence gate and the refusals,
    and the budget is split max-min fairly.
  \<^item> Graph: the union-find loops return; the alias merge refines a partition of the mergeable objects;
    completion only adds new, allowed, labelled edges within its budget, and misses no composition. The
    ledger follows both merges and accounts for every input.
  \<^item> Rules: the elected rule of a cluster is its least by priority, and coverage is kept.
  \<^item> Decisions: each decision is journalled with what it replaced; the isotonic fit is the least-squares
    fit; a proposed cutoff meets its guards and never rests on the model's own verdicts; promotion
    candidates are those counted directly and never become active by themselves.
  \<^item> Service: who owns a job and how it changes, under every interleaving; a kick drains the queue; the
    retention sweep is exact; the body limit holds for declared and streamed bodies; an upgrade is all or
    nothing per version and settles.

  \<^bold>\<open>Interfaces.\<close> \<open>disjoint_sets\<close> (find and union over a forest, their law being a partition) is interpreted
  for the three implementations of the code: path halving in the connected components, the \<open>setdefault\<close>
  variant of the alias merge and the two-pass compression of rule deduplication. \<open>ledger_step\<close> (an update
  of the ledger that keeps one entry per input and names nothing that is gone) is interpreted for the
  alias merge and for the baseline merge.

  \<^bold>\<open>Arguments of the model.\<close> Code that is not in the repository is an argument: rapidfuzz scores, the
  embedding model, the NER models' answers, \<open>iocextract\<close>'s IPv6 candidates, \<open>urlparse\<close>'s netloc, SHA-256,
  the JSON decoder, the pydantic check (its errors or its result), what PostgreSQL does with a migration,
  the router, the application behind the body limit, the clock, and building a \<open>stix2.Relationship\<close>, which
  gives an identifier or an error. So
  are the data files (ATT\&CK, gazetteer, policy) and the order in which a set is iterated.

  \<^bold>\<open>Bounds and fuel.\<close> Text is Latin-1, on which the code's case and character classes are written out; a
  timestamp is the extended ISO form; a float is the rational it denotes. The loops of the union-find are
  partial functions, and \<open>finds_return\<close> shows they return on every forest the code builds; a run of the
  application behind the body limit is cut after a number of actions, and what is shown holds for every
  number; the validation loop takes the five rounds the code takes; the matcher and the chunk loops
  recurse on what is left of the text. Database errors occur only in \<open>Migrate\<close>; one queue operation reads
  the clock once.

  \<^bold>\<open>Not modelled.\<close> Prompts, providers, retries, the document-level pass and the selection calls of stage 3;
  the free-text date patterns of temporal.py and the HTML anchors; text extraction from files; the
  construction of the entities, observables, Indicators and embedded rules of stage 4, its TLP marking and
  report (its relationships are modelled), and the merge with a baseline bundle; the parsers and fetchers
  of detection rules; HTTP routes other than those named; the migrations' SQL; evaluation and scripts;
  logs, threads, signals and subprocess handling. These are I/O, third-party models, or tables of
  constants whose meaning is outside the program; PROJECT.json lists them by file.
\<close>

end
